(* ===== verification/Prelude.thy ===== *)
theory Prelude
  imports Main "HOL-Library.Sublist"
begin

text \<open>
  What every component shares: byte strings and text, the exceptions of the program, the
  error monad and the state-and-error monad in which the operations are written, and the
  Python string operations the source uses, with their lemmas.

  Text. A Python \<open>bytes\<close> is a list of characters, an Isabelle \<open>char\<close> being exactly one
  byte; a Python \<open>str\<close> is represented by its UTF-8 encoding, so \<open>encode("utf-8")\<close> is the
  identity and \<open>decode\<close> a check. Case mapping and white space are the ASCII ones; the
  length in code points (\<open>py_len\<close>) counts the bytes that are not continuation bytes.
\<close>

section \<open>Bytes, text and exceptions\<close>

type_synonym bytes = "char list"
type_synonym str = "char list"

abbreviation code :: "char \<Rightarrow> nat" where
  "code c \<equiv> of_char c"

definition newline :: char where "newline = CHR 0x0A"

text \<open>
  The exception classes of the source that its control flow distinguishes. Messages are left
  out, but for those the program inspects (\<open>GPGPassphraseError\<close>, and the diagnostics of the
  card errors, or their message where there are none).
\<close>

datatype exn =
    ValueError
  | OverflowError
  | TimeoutExpired
  | TypeError
  | KeyError
  | IndexError
  | AttributeError
  | RuntimeError
  | OSError
  | FileNotFoundError
  | FileExistsError
  | NotADirectoryError
  | StructError
  | UnicodeError
  | JSONDecodeError
  | KDFError
  | DecryptionError
  | VaultFormatError
  | ServiceError
  | VaultServiceError
  | VaultChecksumMismatchError
  | AuditLogError
  | MetadataStoreError
  | FileLockTimeoutError
  | ConfigServiceError
  | FolderServiceError
  | KeyUnlockError
  | NoUnlockMethodError
  | FidoServiceError
  | FidoUnavailableError
  | FidoPinError
  | FidoTouchError
  | FidoCredentialError
  | DatabaseError
  | GPGServiceError
  | GPGValidationError
  | GPGPassphraseError str
  | GPGKeyNotFoundError
  | GPGProcessError
  | GPGCardError str
  | GPGCardPinError str

type_synonym 'a res = "exn + 'a"

named_theorems monad_simps \<open>equations that run the two monads\<close>

definition bindE :: "'a res \<Rightarrow> ('a \<Rightarrow> 'b res) \<Rightarrow> 'b res" where
  "bindE m f = (case m of Inl e \<Rightarrow> Inl e | Inr x \<Rightarrow> f x)"

definition guardE :: "bool \<Rightarrow> exn \<Rightarrow> unit res" where
  "guardE b e = (if b then Inr () else Inl e)"

fun of_option :: "exn \<Rightarrow> 'a option \<Rightarrow> 'a res" where
  "of_option e None = Inl e"
| "of_option e (Some x) = Inr x"

fun mapE :: "('a \<Rightarrow> 'b res) \<Rightarrow> 'a list \<Rightarrow> 'b list res" where
  "mapE f [] = Inr []"
| "mapE f (x # xs) = bindE (f x) (\<lambda>y. bindE (mapE f xs) (\<lambda>ys. Inr (y # ys)))"

lemma bindE_simps [simp, monad_simps]:
  "bindE (Inl e) f = Inl e" "bindE (Inr x) f = f x"
  by (simp_all add: bindE_def)

lemma guardE_simps [simp, monad_simps]:
  "guardE True e = Inr ()" "guardE False e = Inl e"
  by (simp_all add: guardE_def)

lemma bindE_eq_Inr [simp]: "bindE m f = Inr y \<longleftrightarrow> (\<exists>x. m = Inr x \<and> f x = Inr y)"
  by (cases m) auto

lemma bindE_eq_Inl: "bindE m f = Inl e \<longleftrightarrow> m = Inl e \<or> (\<exists>x. m = Inr x \<and> f x = Inl e)"
  by (cases m) auto

lemma guardE_eq_Inr [simp]: "guardE b e = Inr u \<longleftrightarrow> b"
  by (cases b) auto

lemma guardE_eq_Inl [simp]: "guardE b e = Inl e' \<longleftrightarrow> \<not> b \<and> e' = e"
  by (cases b) auto

lemma of_option_eq_Inr [simp]: "of_option e m = Inr x \<longleftrightarrow> m = Some x"
  by (cases m) auto

lemma of_option_eq_Inl [simp]: "of_option e m = Inl e' \<longleftrightarrow> m = None \<and> e' = e"
  by (cases m) auto

lemma bindE_guard: "bindE (guardE b e) f = (if b then f () else Inl e)"
  by simp

lemma mapE_length: "mapE f xs = Inr ys \<Longrightarrow> length ys = length xs"
  by (induction xs arbitrary: ys) auto

lemma mapE_nth: "mapE f xs = Inr ys \<Longrightarrow> i < length xs \<Longrightarrow> f (xs ! i) = Inr (ys ! i)"
proof (induction xs arbitrary: ys i)
  case (Cons x xs)
  then show ?case by (cases i) auto
qed simp

lemma mapE_list_all2: "mapE f xs = Inr ys \<longleftrightarrow> list_all2 (\<lambda>x y. f x = Inr y) xs ys"
  by (induction xs arbitrary: ys) (auto simp: list_all2_Cons1)

lemma mapE_cong [fundef_cong]:
  "xs = ys \<Longrightarrow> (\<And>x. x \<in> set ys \<Longrightarrow> f x = g x) \<Longrightarrow> mapE f xs = mapE g ys"
  by (induction xs arbitrary: ys) auto

lemma bindE_cong [fundef_cong]:
  "m = n \<Longrightarrow> (\<And>x. n = Inr x \<Longrightarrow> f x = g x) \<Longrightarrow> bindE m f = bindE n g"
  by (cases n) auto

lemma mapE_total: "(\<And>x. x \<in> set xs \<Longrightarrow> f x = Inr (g x)) \<Longrightarrow> mapE f xs = Inr (map g xs)"
  by (induction xs) auto

section \<open>State, effects and exceptions\<close>

text \<open>
  An operation with effects takes the state and returns a result or an exception, and the
  state it leaves in both cases: what was done before a \<open>raise\<close> stays done.
\<close>

type_synonym ('s, 'a) prog = "'s \<Rightarrow> 'a res \<times> 's"

definition retP :: "'a \<Rightarrow> ('s, 'a) prog" where
  "retP x = (\<lambda>s. (Inr x, s))"

definition raiseP :: "exn \<Rightarrow> ('s, 'a) prog" where
  "raiseP e = (\<lambda>s. (Inl e, s))"

definition bindP :: "('s, 'a) prog \<Rightarrow> ('a \<Rightarrow> ('s, 'b) prog) \<Rightarrow> ('s, 'b) prog" where
  "bindP m f = (\<lambda>s. case m s of (Inl e, s') \<Rightarrow> (Inl e, s') | (Inr x, s') \<Rightarrow> f x s')"

definition thenP :: "('s, 'a) prog \<Rightarrow> ('s, 'b) prog \<Rightarrow> ('s, 'b) prog" where
  "thenP m k = bindP m (\<lambda>_. k)"

definition liftP :: "'a res \<Rightarrow> ('s, 'a) prog" where
  "liftP r = (\<lambda>s. (r, s))"

definition getP :: "('s \<Rightarrow> 'a) \<Rightarrow> ('s, 'a) prog" where
  "getP f = (\<lambda>s. (Inr (f s), s))"

definition modifyP :: "('s \<Rightarrow> 's) \<Rightarrow> ('s, unit) prog" where
  "modifyP f = (\<lambda>s. (Inr (), f s))"

text \<open>\<open>try: m except e: h e\<close>; the handler re-raises what it does not handle.\<close>

definition catchP :: "('s, 'a) prog \<Rightarrow> (exn \<Rightarrow> ('s, 'a) prog) \<Rightarrow> ('s, 'a) prog" where
  "catchP m h = (\<lambda>s. case m s of (Inl e, s') \<Rightarrow> h e s' | (Inr x, s') \<Rightarrow> (Inr x, s'))"

text \<open>\<open>try: m finally: c\<close>: an exception of the clean-up replaces the outcome of \<open>m\<close>.\<close>

definition finallyP :: "('s, 'a) prog \<Rightarrow> ('s, unit) prog \<Rightarrow> ('s, 'a) prog" where
  "finallyP m c = (\<lambda>s. case m s of (r, s') \<Rightarrow>
     (case c s' of (Inl e, s'') \<Rightarrow> (Inl e, s'') | (Inr _, s'') \<Rightarrow> (r, s'')))"

fun mapP :: "('a \<Rightarrow> ('s, 'b) prog) \<Rightarrow> 'a list \<Rightarrow> ('s, 'b list) prog" where
  "mapP f [] = retP []"
| "mapP f (x # xs) = bindP (f x) (\<lambda>y. bindP (mapP f xs) (\<lambda>ys. retP (y # ys)))"

lemma prog_simps [simp, monad_simps]:
  "retP x s = (Inr x, s)"
  "raiseP e s = (Inl e, s)"
  "liftP r s = (r, s)"
  "getP f s = (Inr (f s), s)"
  "modifyP g s = (Inr (), g s)"
  by (simp_all add: retP_def raiseP_def liftP_def getP_def modifyP_def)

lemma bindP_run [monad_simps]:
  "m s = (Inl e, s') \<Longrightarrow> bindP m f s = (Inl e, s')"
  "m s = (Inr x, s') \<Longrightarrow> bindP m f s = f x s'"
  by (simp_all add: bindP_def)

lemma bindP_atomic [simp, monad_simps]:
  "bindP (retP x) f = f x"
  "bindP (raiseP e) f = raiseP e"
  "bindP (getP g) f s = f (g s) s"
  "bindP (modifyP h) k s = k () (h s)"
  by (simp_all add: bindP_def retP_def raiseP_def getP_def modifyP_def fun_eq_iff)

lemma bindP_lift: "bindP (liftP r) f = (case r of Inl e \<Rightarrow> raiseP e | Inr x \<Rightarrow> f x)"
  by (cases r) (simp_all add: bindP_def raiseP_def liftP_def fun_eq_iff)

lemma bindP_eq_Inr:
  "bindP m f s = (Inr y, t) \<longleftrightarrow> (\<exists>x u. m s = (Inr x, u) \<and> f x u = (Inr y, t))"
  by (auto simp: bindP_def split: prod.splits sum.splits)

lemma bindP_eq_Inl:
  "bindP m f s = (Inl e, t) \<longleftrightarrow>
     m s = (Inl e, t) \<or> (\<exists>x u. m s = (Inr x, u) \<and> f x u = (Inl e, t))"
  by (auto simp: bindP_def split: prod.splits sum.splits)

lemma thenP_run [monad_simps]:
  "m s = (Inl e, s') \<Longrightarrow> thenP m k s = (Inl e, s')"
  "m s = (Inr x, s') \<Longrightarrow> thenP m k s = k s'"
  by (simp_all add: thenP_def bindP_def)

lemma thenP_eq_Inr:
  "thenP m k s = (Inr y, t) \<longleftrightarrow> (\<exists>x u. m s = (Inr x, u) \<and> k u = (Inr y, t))"
  by (simp add: thenP_def bindP_eq_Inr)

lemma catchP_run [monad_simps]:
  "m s = (Inl e, s') \<Longrightarrow> catchP m h s = h e s'"
  "m s = (Inr x, s') \<Longrightarrow> catchP m h s = (Inr x, s')"
  by (simp_all add: catchP_def)

text \<open>A handler that raises in every case lets only the results of the body through.\<close>

lemma catchP_reraise:
  "(\<And>e u. \<exists>e' v. h e u = (Inl e', v)) \<Longrightarrow> catchP m h s = (Inr y, t) \<longleftrightarrow> m s = (Inr y, t)"
  by (auto simp: catchP_def split: prod.splits sum.splits) (metis Inl_Inr_False fst_conv)

lemma thenP_raise_fails: "\<exists>e' v. thenP m (raiseP e) u = (Inl e', v)"
  by (cases "m u"; cases "fst (m u)") (auto simp: thenP_def bindP_def)

lemma finallyP_run [monad_simps]:
  "m s = (r, s') \<Longrightarrow> c s' = (Inr u, s'') \<Longrightarrow> finallyP m c s = (r, s'')"
  "m s = (r, s') \<Longrightarrow> c s' = (Inl e, s'') \<Longrightarrow> finallyP m c s = (Inl e, s'')"
  by (simp_all add: finallyP_def)

text \<open>A predicate on states that an operation keeps, whether it returns or raises.\<close>

definition preserves :: "('s \<Rightarrow> bool) \<Rightarrow> ('s, 'a) prog \<Rightarrow> bool" where
  "preserves P m \<longleftrightarrow> (\<forall>s. P s \<longrightarrow> P (snd (m s)))"

named_theorems preserves_intros \<open>rules that show a program keeps an invariant\<close>

lemma preservesD: "preserves P m \<Longrightarrow> P s \<Longrightarrow> m s = (r, t) \<Longrightarrow> P t"
  by (force simp: preserves_def)

lemma preserves_atomic [preserves_intros]:
  "preserves P (retP x)" "preserves P (raiseP e)" "preserves P (liftP r)" "preserves P (getP f)"
  by (simp_all add: preserves_def)

lemma preserves_bind [preserves_intros]:
  "preserves P m \<Longrightarrow> (\<And>x. preserves P (f x)) \<Longrightarrow> preserves P (bindP m f)"
  by (fastforce simp: preserves_def bindP_def split: prod.splits sum.splits)

lemma preserves_then [preserves_intros]:
  "preserves P m \<Longrightarrow> preserves P k \<Longrightarrow> preserves P (thenP m k)"
  by (simp add: thenP_def preserves_bind)

lemma preserves_catch [preserves_intros]:
  "preserves P m \<Longrightarrow> (\<And>e. preserves P (h e)) \<Longrightarrow> preserves P (catchP m h)"
  by (fastforce simp: preserves_def catchP_def split: prod.splits sum.splits)

lemma preserves_finally [preserves_intros]:
  "preserves P m \<Longrightarrow> preserves P c \<Longrightarrow> preserves P (finallyP m c)"
  by (fastforce simp: preserves_def finallyP_def split: prod.splits sum.splits)

lemma preserves_if [preserves_intros]:
  "(b \<Longrightarrow> preserves P m) \<Longrightarrow> (\<not> b \<Longrightarrow> preserves P k) \<Longrightarrow> preserves P (if b then m else k)"
  by simp

lemma preserves_mapP [preserves_intros]:
  "(\<And>x. preserves P (f x)) \<Longrightarrow> preserves P (mapP f xs)"
  by (induction xs) (auto intro!: preserves_intros)

section \<open>Parts of a state\<close>

text \<open>An operation on a part of a larger state, read with \<open>get\<close> and replaced with \<open>set\<close>.\<close>

definition zoomP :: "('s \<Rightarrow> 't) \<Rightarrow> ('t \<Rightarrow> 's \<Rightarrow> 's) \<Rightarrow> ('t, 'a) prog \<Rightarrow> ('s, 'a) prog" where
  "zoomP get put m = (\<lambda>s. case m (get s) of (r, t) \<Rightarrow> (r, put t s))"

text \<open>The interface of a part: what is put is read back, and putting what is there changes nothing.\<close>

locale state_part =
  fixes get :: "'s \<Rightarrow> 't" and put :: "'t \<Rightarrow> 's \<Rightarrow> 's"
  assumes get_put [simp]: "get (put t s) = t"
    and put_get [simp]: "put (get s) s = s"
    and put_put [simp]: "put t (put u s) = put t s"

context state_part
begin

lemma zoom_fst [simp]: "fst (zoomP get put m s) = fst (m (get s))"
  by (simp add: zoomP_def split: prod.splits)

lemma zoom_snd [simp]: "snd (zoomP get put m s) = put (snd (m (get s))) s"
  by (simp add: zoomP_def split: prod.splits)

lemma zoom_eq: "zoomP get put m s = (r, s') \<longleftrightarrow> (\<exists>t. m (get s) = (r, t) \<and> s' = put t s)"
  by (auto simp: zoomP_def split: prod.splits)

lemma zoom_ret: "zoomP get put (retP x) = retP x"
  by (simp add: zoomP_def fun_eq_iff)

lemma zoom_bind: "zoomP get put (bindP m f) = bindP (zoomP get put m) (\<lambda>x. zoomP get put (f x))"
  by (auto simp: zoomP_def bindP_def fun_eq_iff split: prod.splits sum.splits)

lemma preserves_zoom: "preserves P m \<Longrightarrow> preserves (\<lambda>s. P (get s)) (zoomP get put m)"
  by (simp add: preserves_def)

end

section \<open>Python text operations\<close>

definition upper_char :: "char \<Rightarrow> char" where
  "upper_char c = (if 97 \<le> code c \<and> code c \<le> 122 then char_of (code c - 32) else c)"

definition lower_char :: "char \<Rightarrow> char" where
  "lower_char c = (if 65 \<le> code c \<and> code c \<le> 90 then char_of (code c + 32) else c)"

abbreviation upper :: "str \<Rightarrow> str" where
  "upper s \<equiv> map upper_char s"

abbreviation lower :: "str \<Rightarrow> str" where
  "lower s \<equiv> map lower_char s"

definition is_space :: "char \<Rightarrow> bool" where
  "is_space c \<longleftrightarrow> code c = 32 \<or> (9 \<le> code c \<and> code c \<le> 13) \<or> (28 \<le> code c \<and> code c \<le> 31)"

definition is_digit :: "char \<Rightarrow> bool" where
  "is_digit c \<longleftrightarrow> 48 \<le> code c \<and> code c \<le> 57"

definition is_upper_hex :: "char \<Rightarrow> bool" where
  "is_upper_hex c \<longleftrightarrow> is_digit c \<or> (65 \<le> code c \<and> code c \<le> 70)"

text \<open>\<open>s.isdigit()\<close>: non-empty and digits only.\<close>

definition isdigit :: "str \<Rightarrow> bool" where
  "isdigit s \<longleftrightarrow> s \<noteq> [] \<and> list_all is_digit s"

definition lstrip :: "str \<Rightarrow> str" where
  "lstrip s = dropWhile is_space s"

definition rstrip :: "str \<Rightarrow> str" where
  "rstrip s = rev (dropWhile is_space (rev s))"

definition strip :: "str \<Rightarrow> str" where
  "strip s = rstrip (lstrip s)"

text \<open>\<open>len(s)\<close> of a text: its code points, that is the bytes that start one.\<close>

definition py_len :: "str \<Rightarrow> nat" where
  "py_len s = length (filter (\<lambda>c. \<not> (128 \<le> code c \<and> code c < 192)) s)"

lemma py_len_ascii: "list_all (\<lambda>c. code c < 128) s \<Longrightarrow> py_len s = length s"
  by (induction s) (auto simp: py_len_def)

fun split_on :: "char \<Rightarrow> str \<Rightarrow> str list" where
  "split_on d [] = [[]]"
| "split_on d (c # cs) =
     (if c = d then [] # split_on d cs
      else (case split_on d cs of [] \<Rightarrow> [[c]] | w # ws \<Rightarrow> (c # w) # ws))"

lemma split_not_Nil [simp]: "split_on d xs \<noteq> []"
  by (cases xs) (auto split: list.splits)

lemma split_on_append: "split_on d (xs @ d # ys) = split_on d xs @ split_on d ys"
proof (induction xs)
  case (Cons x xs)
  with split_not_Nil [of d xs] Cons show ?case by (auto split: list.splits)
qed simp

lemma split_on_no_sep: "d \<notin> set xs \<Longrightarrow> split_on d xs = [xs]"
  by (induction xs) auto

fun join_with :: "str \<Rightarrow> str list \<Rightarrow> str" where
  "join_with d [] = []"
| "join_with d [w] = w"
| "join_with d (w # v # ws) = w @ d @ join_with d (v # ws)"

fun contains :: "str \<Rightarrow> str \<Rightarrow> bool" where
  "contains p [] \<longleftrightarrow> p = []"
| "contains p (c # cs) \<longleftrightarrow> prefix p (c # cs) \<or> contains p cs"

text \<open>\<open>s.split()\<close>: the maximal runs of characters that are not white space.\<close>

function words :: "str \<Rightarrow> str list" where
  "words s = (let t = dropWhile is_space s in
     if t = [] then [] else takeWhile (\<lambda>c. \<not> is_space c) t # words (dropWhile (\<lambda>c. \<not> is_space c) t))"
  by pat_completeness auto

lemma length_dropWhile_less: "xs \<noteq> [] \<Longrightarrow> P (hd xs) \<Longrightarrow> length (dropWhile P xs) < length xs"
  by (cases xs) (auto simp: le_imp_less_Suc length_dropWhile_le)

termination words
proof (relation "measure length", simp, goal_cases)
  case (1 s x)
  let ?t = "dropWhile is_space s"
  from 1 have "\<not> is_space (hd ?t)" by (intro hd_dropWhile) auto
  with 1 have "length (dropWhile (\<lambda>c. \<not> is_space c) ?t) < length ?t"
    by (intro length_dropWhile_less) auto
  then show ?case using length_dropWhile_le [of is_space s] 1(1) by simp
qed

declare words.simps [simp del]

lemma words_single: "w \<noteq> [] \<Longrightarrow> list_all (\<lambda>c. \<not> is_space c) w \<Longrightarrow> words w = [w]"
proof -
  assume w: "w \<noteq> []" "list_all (\<lambda>c. \<not> is_space c) w"
  have t: "takeWhile (\<lambda>c. \<not> is_space c) w = w" "dropWhile (\<lambda>c. \<not> is_space c) w = []"
    using w(2) by (induction w) auto
  have "dropWhile is_space w = w" using w by (cases w) auto
  then show "words w = [w]" using w(1) by (subst words.simps) (simp add: Let_def t words.simps [of "[]"])
qed

lemma words_Cons:
  assumes "w \<noteq> []" "list_all (\<lambda>c. \<not> is_space c) w" "is_space c"
  shows "words (w @ c # s) = w # words s"
proof -
  have t: "takeWhile (\<lambda>c. \<not> is_space c) (w @ c # s) = w" "dropWhile (\<lambda>c. \<not> is_space c) (w @ c # s) = c # s"
    using assms(2,3) by (induction w) auto
  have "dropWhile is_space (w @ c # s) = w @ c # s" using assms(1,2) by (cases w) auto
  moreover have "words (c # s) = words s"
    using assms(3) by (subst (1 2) words.simps) simp
  ultimately show ?thesis using assms(1) by (subst words.simps) (simp add: Let_def t)
qed

text \<open>
  \<open>s.splitlines()\<close>. The line boundaries of Python: LF, VT, FF, CR, CR LF, FS, GS, RS, and
  U+0085, U+2028, U+2029 in their UTF-8 form. The function is the length of the boundary that
  starts a text, 0 when none does.
\<close>

definition line_break :: "str \<Rightarrow> nat" where
  "line_break s = (case map code s of
       [] \<Rightarrow> 0
     | a # r \<Rightarrow>
         if a = 13 then (case r of [] \<Rightarrow> 1 | b # _ \<Rightarrow> if b = 10 then 2 else 1)
         else if (10 \<le> a \<and> a \<le> 12) \<or> (28 \<le> a \<and> a \<le> 30) then 1
         else if a = 194 then (case r of [] \<Rightarrow> 0 | b # _ \<Rightarrow> if b = 133 then 2 else 0)
         else if a = 226 then (case r of b # c # _ \<Rightarrow>
             if b = 128 \<and> (c = 168 \<or> c = 169) then 3 else 0 | _ \<Rightarrow> 0)
         else 0)"

function lines_from :: "str \<Rightarrow> str \<Rightarrow> str list" where
  "lines_from acc [] = (if acc = [] then [] else [rev acc])"
| "lines_from acc (c # cs) =
     (if line_break (c # cs) > 0
      then rev acc # lines_from [] (drop (line_break (c # cs) - 1) cs)
      else lines_from (c # acc) cs)"
  by pat_completeness auto
termination by (relation "measure (\<lambda>(acc, s). length s)") auto

definition splitlines :: "str \<Rightarrow> str list" where
  "splitlines s = lines_from [] s"

text \<open>\<open>s[:n]\<close> counts code points.\<close>

definition take_chars :: "nat \<Rightarrow> str \<Rightarrow> str" where
  "take_chars n s = concat (take n (fold (\<lambda>c cs.
     if 128 \<le> code c \<and> code c < 192 \<and> cs \<noteq> [] then butlast cs @ [last cs @ [c]] else cs @ [[c]]) s []))"

end
