(* ===== verification/Base64.thy ===== *)
theory Base64
  imports Prelude
begin

text \<open>
  The codecs of the Python standard library that the formats rest on: \<open>base64.b64encode\<close>,
  \<open>base64.b64decode(..., validate=True)\<close> (the strict decoder: alphabet characters only,
  groups of four, padding only at the end), \<open>bytes.fromhex\<close>, \<open>bytes.hex().upper()\<close>,
  \<open>struct.pack(">I", n)\<close> and \<open>str(n)\<close> for integers, with the round trips the
  components use.
\<close>

section \<open>Base64\<close>

definition b64_pad :: char where
  "b64_pad = CHR ''=''"

definition b64_char :: "nat \<Rightarrow> char" where
  "b64_char n = (if n < 26 then char_of (n + 65) else if n < 52 then char_of (n + 71)
     else if n < 62 then char_of (n - 4) else if n = 62 then CHR ''+'' else CHR ''/'')"

definition b64_val :: "char \<Rightarrow> nat option" where
  "b64_val c = (let x = code c in
     if 65 \<le> x \<and> x \<le> 90 then Some (x - 65)
     else if 97 \<le> x \<and> x \<le> 122 then Some (x - 71)
     else if 48 \<le> x \<and> x \<le> 57 then Some (x + 4)
     else if x = 43 then Some 62
     else if x = 47 then Some 63
     else None)"

fun b64encode :: "bytes \<Rightarrow> str" where
  "b64encode [] = []"
| "b64encode [a] =
     [b64_char (code a div 4), b64_char (code a mod 4 * 16), b64_pad, b64_pad]"
| "b64encode [a, b] =
     [b64_char (code a div 4), b64_char (code a mod 4 * 16 + code b div 16),
      b64_char (code b mod 16 * 4), b64_pad]"
| "b64encode (a # b # c # r) =
     b64_char (code a div 4) # b64_char (code a mod 4 * 16 + code b div 16) #
     b64_char (code b mod 16 * 4 + code c div 64) # b64_char (code c mod 64) # b64encode r"

text \<open>One group of four; the unused low bits of a padded group are ignored.\<close>

definition b64_quad :: "char \<Rightarrow> char \<Rightarrow> char \<Rightarrow> char \<Rightarrow> bytes option" where
  "b64_quad a b c d = (case (b64_val a, b64_val b, b64_val c, b64_val d) of
       (Some i, Some j, Some k, Some l) \<Rightarrow>
         Some [char_of (i * 4 + j div 16), char_of (j mod 16 * 16 + k div 4),
               char_of (k mod 4 * 64 + l)]
     | _ \<Rightarrow> None)"

definition b64_last :: "char \<Rightarrow> char \<Rightarrow> char \<Rightarrow> bytes option" where
  "b64_last a b c = (case (b64_val a, b64_val b) of
       (Some i, Some j) \<Rightarrow>
         if c = b64_pad then Some [char_of (i * 4 + j div 16)]
         else (case b64_val c of
             Some k \<Rightarrow> Some [char_of (i * 4 + j div 16), char_of (j mod 16 * 16 + k div 4)]
           | None \<Rightarrow> None)
     | _ \<Rightarrow> None)"

fun b64decode :: "str \<Rightarrow> bytes option" where
  "b64decode [] = Some []"
| "b64decode (a # b # c # d # r) =
     (if d = b64_pad \<and> r = [] then b64_last a b c
      else (case b64_quad a b c d of
          None \<Rightarrow> None
        | Some x \<Rightarrow> map_option ((@) x) (b64decode r)))"
| "b64decode _ = None"

lemma code_less [simp]: "code c < 256"
  using of_char_mod_256 [of c, where ?'a = nat] by (metis mod_less_divisor zero_less_numeral)

lemma char_of_code [simp]: "char_of (code c) = c"
  by simp

lemma code_char_of: "n < 256 \<Longrightarrow> code (char_of n) = n"
  by simp

lemma b64_val_char [simp]: "n < 64 \<Longrightarrow> b64_val (b64_char n) = Some n"
  by (auto simp: b64_val_def b64_char_def Let_def)

lemma b64_val_pad [simp]: "b64_val b64_pad = None"
  by (simp add: b64_val_def b64_pad_def)

lemma b64_char_not_pad: "n < 64 \<Longrightarrow> b64_char n \<noteq> b64_pad"
  using b64_val_char [of n] b64_val_pad by fastforce

lemma b64_bits:
  assumes "x < (256::nat)" "y < 256" "z < 256"
  shows "x div 4 < 64" "x mod 4 * 16 + y div 16 < 64" "y mod 16 * 4 + z div 64 < 64"
    "z mod 64 < 64" "x mod 4 * 16 < 64" "y mod 16 * 4 < 64"
    "x div 4 * 4 + (x mod 4 * 16 + y div 16) div 16 = x"
    "(x mod 4 * 16 + y div 16) mod 16 * 16 + (y mod 16 * 4 + z div 64) div 4 = y"
    "(y mod 16 * 4 + z div 64) mod 4 * 64 + z mod 64 = z"
    "x div 4 * 4 + x mod 4 * 16 div 16 = x"
    "(x mod 4 * 16 + y div 16) mod 16 * 16 + y mod 16 * 4 div 4 = y"
proof -
  have d: "y div 16 < 16" "z div 64 < 4" using assms by simp_all
  show "x div 4 < 64" "x mod 4 * 16 + y div 16 < 64" "y mod 16 * 4 + z div 64 < 64"
    "z mod 64 < 64" "x mod 4 * 16 < 64" "y mod 16 * 4 < 64"
    using assms d mod_less_divisor [of 4 x] mod_less_divisor [of 16 y] by simp_all
  show "x div 4 * 4 + (x mod 4 * 16 + y div 16) div 16 = x"
    "(x mod 4 * 16 + y div 16) mod 16 * 16 + (y mod 16 * 4 + z div 64) div 4 = y"
    "(y mod 16 * 4 + z div 64) mod 4 * 64 + z mod 64 = z"
    "x div 4 * 4 + x mod 4 * 16 div 16 = x"
    "(x mod 4 * 16 + y div 16) mod 16 * 16 + y mod 16 * 4 div 4 = y"
    using d by simp_all
qed

lemma b64_quad_encode:
  "b64_quad (b64_char (code a div 4)) (b64_char (code a mod 4 * 16 + code b div 16))
     (b64_char (code b mod 16 * 4 + code c div 64)) (b64_char (code c mod 64)) = Some [a, b, c]"
  using b64_bits [of "code a" "code b" "code c"] by (simp add: b64_quad_def)

lemma b64_last_encode1:
  "b64_last (b64_char (code a div 4)) (b64_char (code a mod 4 * 16)) b64_pad = Some [a]"
  using b64_bits [of "code a" 0 0] by (simp add: b64_last_def)

lemma b64_last_encode2:
  "b64_last (b64_char (code a div 4)) (b64_char (code a mod 4 * 16 + code b div 16))
     (b64_char (code b mod 16 * 4)) = Some [a, b]"
  using b64_bits [of "code a" "code b" 0] by (simp add: b64_last_def b64_char_not_pad)

lemma b64decode_encode [simp]: "b64decode (b64encode bs) = Some bs"
proof (induction bs rule: b64encode.induct)
  case (4 a b c r)
  have "b64_char (code c mod 64) \<noteq> b64_pad" by (simp add: b64_char_not_pad)
  with 4 show ?case by (simp add: b64_quad_encode)
qed (simp_all add: b64_last_encode1 b64_last_encode2)

lemma length_b64encode: "length (b64encode bs) = 4 * ((length bs + 2) div 3)"
proof (induction bs rule: b64encode.induct)
  case (4 a b c r)
  have "(length (a # b # c # r) + 2) div 3 = Suc ((length r + 2) div 3)" by simp
  with 4 show ?case by simp
qed simp_all

lemma b64encode_inject: "b64encode xs = b64encode ys \<longleftrightarrow> xs = ys"
  using b64decode_encode by (metis option.inject)

definition is_b64 :: "char \<Rightarrow> bool" where
  "is_b64 c \<longleftrightarrow> b64_val c \<noteq> None \<or> c = b64_pad"

lemma is_b64_char [simp]: "n < 64 \<Longrightarrow> is_b64 (b64_char n)"
  by (simp add: is_b64_def)

lemma is_b64_pad [simp]: "is_b64 b64_pad"
  by (simp add: is_b64_def)

lemma b64encode_alphabet: "list_all is_b64 (b64encode bs)"
proof (induction bs rule: b64encode.induct)
  case (2 a) then show ?case using b64_bits [of "code a" 0 0] by simp
next
  case (3 a b) then show ?case using b64_bits [of "code a" "code b" 0] by simp
next
  case (4 a b c r) then show ?case using b64_bits [of "code a" "code b" "code c"] by simp
qed simp

lemma is_b64_printable: "is_b64 c \<Longrightarrow> 42 < code c \<and> code c < 123 \<and> code c \<noteq> 92"
  by (auto simp: is_b64_def b64_pad_def b64_val_def Let_def split: if_splits)

lemma b64encode_printable:
  "c \<in> set (b64encode bs) \<Longrightarrow> 42 < code c \<and> code c < 123 \<and> code c \<noteq> 92"
  using b64encode_alphabet [of bs] is_b64_printable by (auto simp: list_all_iff)

section \<open>Big-endian 32-bit lengths\<close>

text \<open>\<open>struct.pack(">I", n)\<close> raises \<open>struct.error\<close> outside the unsigned 32-bit range.\<close>

definition u32_bytes :: "nat \<Rightarrow> bytes" where
  "u32_bytes n = [char_of (n div 2 ^ 24), char_of (n div 2 ^ 16), char_of (n div 2 ^ 8), char_of n]"

definition pack_u32 :: "nat \<Rightarrow> bytes res" where
  "pack_u32 n = (if n < 2 ^ 32 then Inr (u32_bytes n) else Inl StructError)"

fun unpack_u32 :: "bytes \<Rightarrow> nat res" where
  "unpack_u32 [a, b, c, d] = Inr (code a * 2 ^ 24 + code b * 2 ^ 16 + code c * 2 ^ 8 + code d)"
| "unpack_u32 _ = Inl StructError"

lemma length_u32_bytes [simp]: "length (u32_bytes n) = 4"
  by (simp add: u32_bytes_def)

lemma u32_digits:
  assumes "(n::nat) < 4294967296"
  shows "n div 16777216 mod 256 * 16777216 + n div 65536 mod 256 * 65536 + n div 256 mod 256 * 256
     + n mod 256 = n"
proof -
  define a b c where "a = n div 256" and "b = a div 256" and "c = b div 256"
  have eqs: "n div 65536 = b" "n div 16777216 = c"
    by (simp_all add: a_def b_def c_def div_mult2_eq [symmetric])
  have "c < 256" using assms by (simp add: eqs(2) [symmetric])
  moreover have "n = a * 256 + n mod 256" "a = b * 256 + a mod 256" "b = c * 256 + b mod 256"
    by (simp_all add: a_def b_def c_def)
  ultimately show ?thesis unfolding eqs a_def [symmetric] by simp
qed

lemma unpack_u32_bytes [simp]: "n < 2 ^ 32 \<Longrightarrow> unpack_u32 (u32_bytes n) = Inr n"
  using u32_digits [of n] by (simp add: u32_bytes_def)

lemma unpack_u32_length4: "length bs = 4 \<Longrightarrow> \<exists>n. unpack_u32 bs = Inr n"
  by (cases bs rule: unpack_u32.cases) auto

lemma unpack_u32_bound: "unpack_u32 bs = Inr n \<Longrightarrow> n < 2 ^ 32"
proof (induction bs rule: unpack_u32.induct)
  case (1 a b c d)
  from 1 have "code a * 2 ^ 24 + code b * 2 ^ 16 + code c * 2 ^ 8 + code d = n" by simp
  moreover have "code a \<le> 255" "code b \<le> 255" "code c \<le> 255" "code d \<le> 255"
    using code_less le_simps(2) by (simp_all add: less_Suc_eq_le flip: Suc_le_eq)
  ultimately show ?case by simp
qed simp_all

lemma u32_bytes_unpack:
  assumes "unpack_u32 bs = Inr n" shows "u32_bytes n = bs"
proof (cases bs rule: unpack_u32.cases)
  case (1 a b c d)
  with assms have n: "n = code a * 16777216 + code b * 65536 + code c * 256 + code d" by simp
  have cn: "char_of m = x" if "m mod 256 = code x" for m :: nat and x
    using that char_of_code [of x] by (metis char_of_mod_256)
  have lt: "code c * 256 + code d < 65536" "code b * 65536 + code c * 256 + code d < 16777216"
    using code_less [of b] code_less [of c] code_less [of d] by linarith+
  have "n div 16777216 = code a" "n div 65536 = code a * 256 + code b"
      "n div 256 = code a * 65536 + code b * 256 + code c"
    using lt n by (simp_all add: div_nat_eqI)
  then have d: "n div 16777216 mod 256 = code a" "n div 65536 mod 256 = code b"
      "n div 256 mod 256 = (code c + 256 * (code a * 256 + code b)) mod 256"
      "n mod 256 = (code d + 256 * (code a * 65536 + code b * 256 + code c)) mod 256"
    using n by (simp_all add: algebra_simps)
  then have "n div 256 mod 256 = code c" "n mod 256 = code d"
    by (simp_all only: mod_mult_self2 mod_less code_less)
  then have "char_of (n div 16777216) = a" "char_of (n div 65536) = b" "char_of (n div 256) = c"
      "char_of n = d"
    using d by (simp_all only: cn)
  then show ?thesis using 1 by (simp add: u32_bytes_def)
qed (use assms in simp_all)

section \<open>Hexadecimal\<close>

definition hex_digit :: "nat \<Rightarrow> char" where
  "hex_digit n = (if n < 10 then char_of (n + 48) else char_of (n + 55))"

definition hex_val :: "char \<Rightarrow> nat option" where
  "hex_val c = (let x = code c in
     if 48 \<le> x \<and> x \<le> 57 then Some (x - 48)
     else if 65 \<le> x \<and> x \<le> 70 then Some (x - 55)
     else if 97 \<le> x \<and> x \<le> 102 then Some (x - 87)
     else None)"

text \<open>\<open>bytes.hex().upper()\<close>.\<close>

definition hex_upper :: "bytes \<Rightarrow> str" where
  "hex_upper bs = concat (map (\<lambda>b. [hex_digit (code b div 16), hex_digit (code b mod 16)]) bs)"

text \<open>\<open>bytes.fromhex\<close>, on text without the white space it also skips.\<close>

fun fromhex :: "str \<Rightarrow> bytes res" where
  "fromhex [] = Inr []"
| "fromhex (a # b # r) = (case (hex_val a, hex_val b) of
       (Some i, Some j) \<Rightarrow> bindE (fromhex r) (\<lambda>bs. Inr (char_of (i * 16 + j) # bs))
     | _ \<Rightarrow> Inl ValueError)"
| "fromhex _ = Inl ValueError"

lemma hex_val_digit [simp]: "n < 16 \<Longrightarrow> hex_val (hex_digit n) = Some n"
  by (auto simp: hex_val_def hex_digit_def Let_def)

lemma is_upper_hex_digit [simp]: "n < 16 \<Longrightarrow> is_upper_hex (hex_digit n)"
  by (auto simp: is_upper_hex_def is_digit_def hex_digit_def)

lemma code_div_16 [simp]: "code c div 16 < 16"
  using code_less [of c] by linarith

lemma hex_upper_Cons:
  "hex_upper (b # bs) = hex_digit (code b div 16) # hex_digit (code b mod 16) # hex_upper bs"
  by (simp add: hex_upper_def)

lemma fromhex_hex_upper [simp]: "fromhex (hex_upper bs) = Inr bs"
proof (induction bs)
  case Nil show ?case by (simp add: hex_upper_def)
next
  case (Cons b bs) then show ?case by (simp add: hex_upper_Cons)
qed

lemma length_hex_upper [simp]: "length (hex_upper bs) = 2 * length bs"
  by (induction bs) (simp_all add: hex_upper_Cons, simp add: hex_upper_def)

lemma hex_upper_hex: "list_all is_upper_hex (hex_upper bs)"
  by (induction bs) (simp_all add: hex_upper_Cons, simp add: hex_upper_def)

lemma upper_hex_val:
  assumes "is_upper_hex c"
  shows "\<exists>n. hex_val c = Some n \<and> n < 16 \<and> hex_digit n = c"
proof (cases "is_digit c")
  case True
  then have "hex_val c = Some (code c - 48) \<and> code c - 48 < 16 \<and> hex_digit (code c - 48) = c"
    by (auto simp: hex_val_def is_digit_def hex_digit_def)
  then show ?thesis by blast
next
  case False
  with assms have "65 \<le> code c" "code c \<le> 70" by (auto simp: is_upper_hex_def)
  then have "hex_val c = Some (code c - 55) \<and> code c - 55 < 16 \<and> hex_digit (code c - 55) = c"
    by (auto simp: hex_val_def hex_digit_def)
  then show ?thesis by blast
qed

lemma fromhex_upper_hex:
  assumes "even (length s)" and "list_all is_upper_hex s"
  shows "\<exists>bs. fromhex s = Inr bs \<and> hex_upper bs = s \<and> 2 * length bs = length s"
  using assms
proof (induction s rule: fromhex.induct)
  case 1 then show ?case by (simp add: hex_upper_def)
next
  case (2 a b r)
  from 2(3) obtain i j where ij: "hex_val a = Some i" "i < 16" "hex_digit i = a"
      "hex_val b = Some j" "j < 16" "hex_digit j = b"
    using upper_hex_val [of a] upper_hex_val [of b] by auto
  from 2 ij obtain bs where bs: "fromhex r = Inr bs" "hex_upper bs = r" "2 * length bs = length r"
    by auto
  from ij have "hex_upper (char_of (i * 16 + j) # bs) = a # b # r"
    using bs by (simp add: hex_upper_Cons)
  with ij bs show ?case by auto
qed simp

section \<open>Decimal numbers\<close>

fun show_nat :: "nat \<Rightarrow> str" where
  "show_nat n = (if n < 10 then [char_of (n + 48)] else show_nat (n div 10) @ [char_of (n mod 10 + 48)])"

declare show_nat.simps [simp del]

definition show_int :: "int \<Rightarrow> str" where
  "show_int i = (if i < 0 then CHR ''-'' # show_nat (nat (- i)) else show_nat (nat i))"

definition digits_val :: "str \<Rightarrow> nat" where
  "digits_val s = foldl (\<lambda>n c. n * 10 + (code c - 48)) 0 s"

lemma digits_val_snoc: "digits_val (s @ [c]) = digits_val s * 10 + (code c - 48)"
  by (simp add: digits_val_def)

lemma is_digit_mod10 [simp]: "is_digit (char_of ((n::nat) mod 10 + 48))"
proof -
  have "n mod 10 < 10" by simp
  then show ?thesis unfolding is_digit_def by (subst (1 2) code_char_of) simp_all
qed

lemma show_nat_props: "show_nat n \<noteq> [] \<and> list_all is_digit (show_nat n) \<and> digits_val (show_nat n) = n"
proof (induction n rule: show_nat.induct)
  case (1 n)
  show ?case
  proof (cases "n < 10")
    case True
    then show ?thesis
      by (subst (1 2 3) show_nat.simps) (simp add: is_digit_def digits_val_def)
  next
    case False
    with 1 have IH: "show_nat (n div 10) \<noteq> []" "list_all is_digit (show_nat (n div 10))"
        "digits_val (show_nat (n div 10)) = n div 10" by auto
    from False have eq: "show_nat n = show_nat (n div 10) @ [char_of (n mod 10 + 48)]"
      by (subst show_nat.simps) simp
    show ?thesis using IH unfolding eq by (simp add: digits_val_snoc)
  qed
qed

lemma show_nat_nonempty [simp]: "show_nat n \<noteq> []"
  and show_nat_digits [simp]: "list_all is_digit (show_nat n)"
  and digits_val_show [simp]: "digits_val (show_nat n) = n"
  using show_nat_props by auto

lemma show_nat_head: "n \<noteq> 0 \<Longrightarrow> hd (show_nat n) \<noteq> CHR ''0''"
proof (induction n rule: show_nat.induct)
  case (1 n)
  show ?case
  proof (cases "n < 10")
    case True
    then have "show_nat n = [char_of (n + 48)]" by (subst show_nat.simps) simp
    moreover have "char_of (n + 48) \<noteq> CHR ''0''"
    proof
      assume "char_of (n + 48) = CHR ''0''"
      then have "code (char_of (n + 48)) = code (CHR ''0'')" by simp
      with True 1 show False by simp
    qed
    ultimately show ?thesis by simp
  next
    case False
    then have eq: "show_nat n = show_nat (n div 10) @ [char_of (n mod 10 + 48)]"
      by (subst show_nat.simps) simp
    from False have "hd (show_nat (n div 10)) \<noteq> CHR ''0''" using 1 by auto
    then show ?thesis unfolding eq by simp
  qed
qed

section \<open>The interface of a codec\<close>

text \<open>
  What a stored format relies on: decoding an encoded value of the codec's domain gives it
  back. The formats use base64 for binary fields, hexadecimal for fingerprints and the
  big-endian word for lengths; each is an instance.
\<close>

locale codec =
  fixes enc :: "'a \<Rightarrow> 'b" and dec :: "'b \<Rightarrow> 'a option" and valid :: "'a \<Rightarrow> bool"
  assumes dec_enc: "valid x \<Longrightarrow> dec (enc x) = Some x"
begin

lemma enc_inj: "valid x \<Longrightarrow> valid y \<Longrightarrow> enc x = enc y \<longleftrightarrow> x = y"
  using dec_enc by (metis option.inject)

lemma enc_inj_on: "inj_on enc (Collect valid)"
  by (auto intro: inj_onI simp: enc_inj)

lemma those_dec_enc: "list_all valid xs \<Longrightarrow> those (map (dec \<circ> enc) xs) = Some xs"
  by (induction xs) (auto simp: dec_enc)

end

fun to_option :: "'a res \<Rightarrow> 'a option" where
  "to_option (Inl e) = None"
| "to_option (Inr x) = Some x"

interpretation b64: codec b64encode b64decode "\<lambda>_. True"
  by unfold_locales simp

interpretation u32: codec u32_bytes "\<lambda>bs. to_option (unpack_u32 bs)" "\<lambda>n. n < 2 ^ 32"
  by unfold_locales simp

interpretation hexcodec: codec hex_upper "\<lambda>s. to_option (fromhex s)" "\<lambda>_. True"
  by unfold_locales simp

end
