(* ===== verification/Json.thy ===== *)
theory Json
  imports Base64 "HOL-Library.Char_ord" "HOL-Library.List_Lexorder"
    "HOL-Library.Multiset"
begin

text \<open>
  The part of Python's \<open>json\<close> module the program stores its headers and records with:
  values, \<open>dumps(sort_keys=True, separators=(",", ":"), ensure_ascii=False)\<close> and \<open>loads\<close>.
  A float is kept as its source text. \<open>loads\<close> is a fuelled recursive-descent parser;
  \<open>parse_fuel_enough\<close> shows that the fuel \<open>loads\<close> gives never decides the outcome, and
  \<open>loads_dumps\<close> that \<open>loads\<close> reads back what \<open>dumps\<close> wrote.
\<close>

section \<open>Values and printing\<close>

datatype json =
    JNull
  | JBool bool
  | JInt int
  | JFloat str
  | JStr str
  | JArr "json list"
  | JObj "(str \<times> json) list"

definition esc_char :: "char \<Rightarrow> str" where
  "esc_char c = (let x = code c in
     if x = 34 then [CHR 0x5C, CHR 0x22]
     else if x = 92 then [CHR 0x5C, CHR 0x5C]
     else if x = 10 then [CHR 0x5C, CHR ''n'']
     else if x = 13 then [CHR 0x5C, CHR ''r'']
     else if x = 9 then [CHR 0x5C, CHR ''t'']
     else if x = 8 then [CHR 0x5C, CHR ''b'']
     else if x = 12 then [CHR 0x5C, CHR ''f'']
     else if x < 32 then
       [CHR 0x5C, CHR ''u'', CHR ''0'', CHR ''0'', lower_char (hex_digit (x div 16)),
        lower_char (hex_digit (x mod 16))]
     else [c])"

definition quote :: "str \<Rightarrow> str" where
  "quote s = CHR 0x22 # concat (map esc_char s) @ [CHR 0x22]"

fun dumps_ordered :: "json \<Rightarrow> str" where
  "dumps_ordered JNull = ''null''"
| "dumps_ordered (JBool b) = (if b then ''true'' else ''false'')"
| "dumps_ordered (JInt i) = show_int i"
| "dumps_ordered (JFloat t) = t"
| "dumps_ordered (JStr s) = quote s"
| "dumps_ordered (JArr xs) = CHR ''['' # join_with '','' (map dumps_ordered xs) @ '']''"
| "dumps_ordered (JObj ps) =
     CHR ''{'' # join_with '','' (map (\<lambda>p. quote (fst p) @ '':'' @ dumps_ordered (snd p)) ps) @ ''}''"

text \<open>\<open>sort_keys=True\<close>: the keys of every object in code point order.\<close>

fun canon :: "json \<Rightarrow> json" where
  "canon (JArr xs) = JArr (map canon xs)"
| "canon (JObj ps) = JObj (sort_key fst (map (\<lambda>p. (fst p, canon (snd p))) ps))"
| "canon j = j"

definition dumps :: "json \<Rightarrow> str" where
  "dumps j = dumps_ordered (canon j)"

section \<open>Parsing\<close>

definition json_ws :: "str \<Rightarrow> str" where
  "json_ws s = dropWhile (\<lambda>c. code c \<in> {32, 9, 10, 13}) s"

text \<open>A code point as UTF-8; a lone surrogate keeps the three-byte form.\<close>

definition utf8 :: "nat \<Rightarrow> str" where
  "utf8 n = (if n < 128 then [char_of n]
     else if n < 2048 then [char_of (192 + n div 64), char_of (128 + n mod 64)]
     else if n < 65536 then
       [char_of (224 + n div 4096), char_of (128 + n div 64 mod 64), char_of (128 + n mod 64)]
     else [char_of (240 + n div 262144), char_of (128 + n div 4096 mod 64),
           char_of (128 + n div 64 mod 64), char_of (128 + n mod 64)])"

fun hex4 :: "str \<Rightarrow> nat option" where
  "hex4 (a # b # c # d # r) = (case (hex_val a, hex_val b, hex_val c, hex_val d) of
       (Some i, Some j, Some k, Some l) \<Rightarrow> Some (i * 4096 + j * 256 + k * 16 + l)
     | _ \<Rightarrow> None)"
| "hex4 _ = None"

text \<open>The second half \<open>\uDC00\<close>..\<open>\uDFFF\<close> of a surrogate pair, when the text goes on with one.\<close>

definition low_surrogate :: "str \<Rightarrow> nat option" where
  "low_surrogate r = (case r of
       a # b # t \<Rightarrow> if a = CHR 0x5C \<and> b = CHR ''u'' then
           (case hex4 t of
               Some v \<Rightarrow> if 56320 \<le> v \<and> v \<le> 57343 then Some v else None
             | None \<Rightarrow> None)
         else None
     | _ \<Rightarrow> None)"

definition unescape :: "char \<Rightarrow> char option" where
  "unescape e = (let x = code e in
     if x = 34 \<or> x = 92 \<or> x = 47 then Some e
     else if x = 98 then Some (char_of (8::nat))
     else if x = 102 then Some (char_of (12::nat))
     else if x = 110 then Some (char_of (10::nat))
     else if x = 114 then Some (char_of (13::nat))
     else if x = 116 then Some (char_of (9::nat))
     else None)"

abbreviation cons_text :: "str \<Rightarrow> (str \<times> str) option \<Rightarrow> (str \<times> str) option" where
  "cons_text x \<equiv> map_option (\<lambda>p. (x @ fst p, snd p))"

text \<open>The body of a string, after its opening quote: the text and what follows the closing one.\<close>

function parse_string :: "str \<Rightarrow> (str \<times> str) option" where
  "parse_string [] = None"
| "parse_string (c # cs) =
     (if code c = 34 then Some ([], cs)
      else if code c = 92 then
        (case cs of
           [] \<Rightarrow> None
         | e # r \<Rightarrow>
             if code e = 117 then
               (case hex4 r of
                  None \<Rightarrow> None
                | Some u \<Rightarrow>
                    if 55296 \<le> u \<and> u \<le> 56319 then
                      (case low_surrogate (drop 4 r) of
                         Some v \<Rightarrow> cons_text (utf8 (65536 + (u - 55296) * 1024 + (v - 56320)))
                                    (parse_string (drop 10 r))
                       | None \<Rightarrow> cons_text (utf8 u) (parse_string (drop 4 r)))
                    else cons_text (utf8 u) (parse_string (drop 4 r)))
             else (case unescape e of
                     None \<Rightarrow> None
                   | Some x \<Rightarrow> cons_text [x] (parse_string r)))
      else if code c < 32 then None
      else cons_text [c] (parse_string cs))"
  by pat_completeness auto
termination by (relation "measure length") auto

definition exponent :: "str \<Rightarrow> str" where
  "exponent s = (case s of
       c # r \<Rightarrow> if code c = 101 \<or> code c = 69 then
           (let sg = (case r of d # _ \<Rightarrow> if code d = 43 \<or> code d = 45 then [d] else [] | [] \<Rightarrow> []);
                ds = takeWhile is_digit (drop (length sg) r)
            in if ds = [] then [] else c # sg @ ds)
         else []
     | [] \<Rightarrow> [])"

definition fraction :: "str \<Rightarrow> str" where
  "fraction s = (case s of
       c # r \<Rightarrow> if code c = 46 \<and> takeWhile is_digit r \<noteq> [] then c # takeWhile is_digit r else []
     | [] \<Rightarrow> [])"

definition parse_number :: "str \<Rightarrow> (json \<times> str) option" where
  "parse_number s =
     (let sg = (case s of c # _ \<Rightarrow> if code c = 45 then [c] else [] | [] \<Rightarrow> []);
          t = drop (length sg) s;
          ds = takeWhile is_digit t;
          ip = (case ds of c # _ \<Rightarrow> if code c = 48 then [c] else ds | [] \<Rightarrow> []);
          u = drop (length ip) t;
          fr = fraction u;
          ex = exponent (drop (length fr) u);
          rest = drop (length fr + length ex) u
      in if ip = [] then None
         else if fr = [] \<and> ex = [] then
           Some (JInt (if sg = [] then int (digits_val ip) else - int (digits_val ip)), rest)
         else Some (JFloat (sg @ ip @ fr @ ex), rest))"

definition parse_literal :: "str \<Rightarrow> (json \<times> str) option" where
  "parse_literal s =
     (if prefix ''null'' s then Some (JNull, drop 4 s)
      else if prefix ''true'' s then Some (JBool True, drop 4 s)
      else if prefix ''false'' s then Some (JBool False, drop 5 s)
      else if prefix ''NaN'' s then Some (JFloat ''NaN'', drop 3 s)
      else if prefix ''Infinity'' s then Some (JFloat ''Infinity'', drop 8 s)
      else if prefix ''-Infinity'' s then Some (JFloat ''-Infinity'', drop 9 s)
      else parse_number s)"

text \<open>A Python dictionary display: a repeated key keeps its place and takes the last value.\<close>

fun dict_put :: "'k \<Rightarrow> 'v \<Rightarrow> ('k \<times> 'v) list \<Rightarrow> ('k \<times> 'v) list" where
  "dict_put k v [] = [(k, v)]"
| "dict_put k v (p # ps) = (if fst p = k then (k, v) # ps else p # dict_put k v ps)"

definition dict_of :: "('k \<times> 'v) list \<Rightarrow> ('k \<times> 'v) list" where
  "dict_of ps = fold (\<lambda>(k, v). dict_put k v) ps []"

text \<open>
  \<open>int()\<close> refuses a literal of more than 4300 digits with a plain \<open>ValueError\<close>, which is
  not a \<open>JSONDecodeError\<close>.
\<close>

definition INT_MAX_STR_DIGITS :: nat where "INT_MAX_STR_DIGITS = 4300"

definition int_digits :: "str \<Rightarrow> nat" where
  "int_digits s = length (takeWhile is_digit (case s of c # r \<Rightarrow> if code c = 45 then r else s | [] \<Rightarrow> []))"

definition parse_scalar :: "str \<Rightarrow> (json \<times> str) res" where
  "parse_scalar s = (case parse_literal s of
       None \<Rightarrow> Inl JSONDecodeError
     | Some (v, r) \<Rightarrow> (case v of
           JInt _ \<Rightarrow> if int_digits s > INT_MAX_STR_DIGITS then Inl ValueError else Inr (v, r)
         | _ \<Rightarrow> Inr (v, r)))"

fun parse_value :: "nat \<Rightarrow> str \<Rightarrow> (json \<times> str) res"
  and parse_elems :: "nat \<Rightarrow> str \<Rightarrow> (json list \<times> str) res"
  and parse_members :: "nat \<Rightarrow> str \<Rightarrow> ((str \<times> json) list \<times> str) res"
where
  "parse_value 0 s = Inl JSONDecodeError"
| "parse_value (Suc n) s = (case s of
       [] \<Rightarrow> Inl JSONDecodeError
     | c # r \<Rightarrow>
         if code c = 34 then
           (case parse_string r of None \<Rightarrow> Inl JSONDecodeError | Some p \<Rightarrow> Inr (JStr (fst p), snd p))
         else if code c = 123 then
           (case json_ws r of
              [] \<Rightarrow> Inl JSONDecodeError
            | d # u \<Rightarrow> if code d = 125 then Inr (JObj [], u)
                else bindE (parse_members n (d # u)) (\<lambda>p. Inr (JObj (dict_of (fst p)), snd p)))
         else if code c = 91 then
           (case json_ws r of
              [] \<Rightarrow> Inl JSONDecodeError
            | d # u \<Rightarrow> if code d = 93 then Inr (JArr [], u)
                else bindE (parse_elems n (d # u)) (\<lambda>p. Inr (JArr (fst p), snd p)))
         else parse_scalar s)"
| "parse_elems 0 s = Inl JSONDecodeError"
| "parse_elems (Suc n) s = (case parse_value n s of
       Inl e \<Rightarrow> Inl e
     | Inr (v, r) \<Rightarrow> (case json_ws r of
           [] \<Rightarrow> Inl JSONDecodeError
         | c # u \<Rightarrow>
             if code c = 93 then Inr ([v], u)
             else if code c = 44 then
               bindE (parse_elems n (json_ws u)) (\<lambda>p. Inr (v # fst p, snd p))
             else Inl JSONDecodeError))"
| "parse_members 0 s = Inl JSONDecodeError"
| "parse_members (Suc n) s = (case s of
       [] \<Rightarrow> Inl JSONDecodeError
     | q # t \<Rightarrow> if code q \<noteq> 34 then Inl JSONDecodeError else
         (case parse_string t of
            None \<Rightarrow> Inl JSONDecodeError
          | Some (k, r) \<Rightarrow> (case json_ws r of
                [] \<Rightarrow> Inl JSONDecodeError
              | c # u \<Rightarrow> if code c \<noteq> 58 then Inl JSONDecodeError else
                  (case parse_value n (json_ws u) of
                     Inl e \<Rightarrow> Inl e
                   | Inr (v, w) \<Rightarrow> (case json_ws w of
                         [] \<Rightarrow> Inl JSONDecodeError
                       | d # x \<Rightarrow>
                           if code d = 125 then Inr ([(k, v)], x)
                           else if code d = 44 then
                             bindE (parse_members n (json_ws x)) (\<lambda>p. Inr ((k, v) # fst p, snd p))
                           else Inl JSONDecodeError)))))"

definition json_fuel :: "str \<Rightarrow> nat" where
  "json_fuel s = 2 * length s"

text \<open>
  \<open>json.loads\<close>: a \<open>JSONDecodeError\<close> on text that is not JSON, a \<open>ValueError\<close> at the first
  integer literal that is too long.
\<close>

definition loads :: "str \<Rightarrow> json res" where
  "loads s = (let t = json_ws s in
     bindE (parse_value (json_fuel t) t) (\<lambda>p.
     if json_ws (snd p) = [] then Inr (fst p) else Inl JSONDecodeError))"

section \<open>Reading back what was printed\<close>

fun json_ok :: "json \<Rightarrow> bool" where
  "json_ok (JFloat t) = False"
| "json_ok (JInt i) = (length (show_nat (nat \<bar>i\<bar>)) \<le> INT_MAX_STR_DIGITS)"
| "json_ok (JArr xs) = list_all json_ok xs"
| "json_ok (JObj ps) = (distinct (map fst ps) \<and> list_all (\<lambda>p. json_ok (snd p)) ps)"
| "json_ok j = True"

text \<open>What may follow a number without becoming part of it.\<close>

definition delimited :: "str \<Rightarrow> bool" where
  "delimited r = (case r of [] \<Rightarrow> True
     | c # _ \<Rightarrow> \<not> is_digit c \<and> code c \<noteq> 46 \<and> code c \<noteq> 101 \<and> code c \<noteq> 69)"

lemma code_eqD: "code c = n \<Longrightarrow> c = char_of n"
  by auto

lemma code_eq_quote: "code c = 34 \<longleftrightarrow> c = CHR 0x22"
  and code_eq_backslash: "code c = 92 \<longleftrightarrow> c = CHR 0x5C"
  and code_eq_zero: "code c = 48 \<longleftrightarrow> c = CHR ''0''"
proof -
  have "code (CHR 0x22) = 34" "code (CHR 0x5C) = 92" "code (CHR ''0'') = 48" by simp_all
  then show "code c = 34 \<longleftrightarrow> c = CHR 0x22" "code c = 92 \<longleftrightarrow> c = CHR 0x5C"
      "code c = 48 \<longleftrightarrow> c = CHR ''0''"
    by (metis of_char_eq_iff)+
qed

lemma hex_val_lower_digit [simp]: "n < 16 \<Longrightarrow> hex_val (lower_char (hex_digit n)) = Some n"
  by (auto simp: hex_val_def hex_digit_def lower_char_def Let_def)

lemma parse_string_esc [simp]: "parse_string (esc_char c @ t) = cons_text [c] (parse_string t)"
proof -
  consider "c = CHR 0x22 \<or> c = CHR 0x5C" | "code c \<in> {10, 13, 9, 8, 12}"
    | "code c \<notin> {34, 92, 10, 13, 9, 8, 12}" "code c < 32"
    | "code c \<notin> {34, 92}" "32 \<le> code c"
    by (cases "code c \<in> {34, 92}") (force simp: code_eq_quote code_eq_backslash)+
  then show ?thesis
  proof cases
    case 1
    then show ?thesis by (auto simp: esc_char_def unescape_def)
  next
    case 2
    then obtain n where n: "code c = n" "n \<in> {10, 13, 9, 8, 12}" by blast
    then have "c = char_of n" by (simp add: code_eqD)
    with n show ?thesis by (auto simp: esc_char_def unescape_def)
  next
    case 3
    let ?h = "lower_char (hex_digit (code c div 16))" and ?l = "lower_char (hex_digit (code c mod 16))"
    have e: "esc_char c = [CHR 0x5C, CHR ''u'', CHR ''0'', CHR ''0'', ?h, ?l]"
      using 3 by (simp add: esc_char_def Let_def)
    have z: "hex_val (CHR ''0'') = Some 0" by (simp add: hex_val_def)
    define r where "r = CHR ''0'' # CHR ''0'' # ?h # ?l # t"
    have h: "hex4 r = Some (code c)" and d: "drop 4 r = t"
      by (simp_all add: r_def z)
    have u: "\<not> 55296 \<le> code c" "utf8 (code c) = [c]"
      using 3 by (simp_all add: utf8_def)
    have "parse_string (CHR 0x5C # CHR ''u'' # r) = cons_text [c] (parse_string t)"
      by (simp add: h d u)
    then show ?thesis by (simp add: e r_def)
  next
    case 4
    then show ?thesis by (auto simp: esc_char_def Let_def)
  qed
qed

lemma parse_string_body:
  "parse_string (concat (map esc_char s) @ CHR 0x22 # rest) = Some (s, rest)"
  by (induction s) simp_all

lemma takeWhile_digits:
  "list_all is_digit ds \<Longrightarrow> delimited r \<Longrightarrow> takeWhile is_digit (ds @ r) = ds"
  by (induction ds) (auto simp: delimited_def split: list.splits)

lemma delimited_no_suffix [simp]: "delimited r \<Longrightarrow> fraction r = []" "delimited r \<Longrightarrow> exponent r = []"
  by (auto simp: delimited_def fraction_def exponent_def split: list.splits)

lemma is_digit_code: "is_digit c \<longleftrightarrow> 48 \<le> code c \<and> code c \<le> 57"
  by (simp add: is_digit_def)

lemma show_nat_Cons:
  obtains d ds where "show_nat n = d # ds" "is_digit d" "list_all is_digit ds"
    "code d = 48 \<longrightarrow> ds = []"
proof -
  obtain d ds where ds: "show_nat n = d # ds" by (cases "show_nat n") auto
  with show_nat_digits [of n] have "is_digit d" "list_all is_digit ds" by auto
  moreover have "code d = 48 \<longrightarrow> ds = []"
  proof
    assume "code d = 48"
    then have "d = CHR ''0''" by (simp add: code_eq_zero)
    with ds show_nat_head [of n] have "n = 0" by auto
    with ds show "ds = []" by (subst (asm) show_nat.simps) simp
  qed
  ultimately show thesis using that ds by blast
qed

lemma parse_number_int: "delimited r \<Longrightarrow> parse_number (show_int i @ r) = Some (JInt i, r)"
proof -
  assume r: "delimited r"
  have main: "takeWhile is_digit (show_nat n @ r) = show_nat n" for n
    using r by (simp add: takeWhile_digits)
  show ?thesis
  proof (cases "i < 0")
    case True
    obtain d ds where ds: "show_nat (nat (- i)) = d # ds" "is_digit d" "code d = 48 \<longrightarrow> ds = []"
      by (rule show_nat_Cons)
    have "digits_val (d # ds) = nat (- i)" using ds(1) digits_val_show by metis
    with True ds main [of "nat (- i)"] r show ?thesis
      by (auto simp: parse_number_def show_int_def Let_def)
  next
    case False
    obtain d ds where ds: "show_nat (nat i) = d # ds" "is_digit d" "code d = 48 \<longrightarrow> ds = []"
      by (rule show_nat_Cons)
    then have "code d \<noteq> 45" by (auto simp: is_digit_code)
    moreover have "digits_val (d # ds) = nat i" using ds(1) digits_val_show by metis
    ultimately show ?thesis using False ds main [of "nat i"] r
      by (auto simp: parse_number_def show_int_def Let_def)
  qed
qed

lemma show_int_head:
  obtains c t where "show_int i = c # t" "is_digit c \<or> (code c = 45 \<and> (\<exists>d u. t = d # u \<and> is_digit d))"
proof (cases "i < 0")
  case True
  obtain d ds where "show_nat (nat (- i)) = d # ds" "is_digit d" by (rule show_nat_Cons)
  with True that show ?thesis by (simp add: show_int_def)
next
  case False
  obtain d ds where "show_nat (nat i) = d # ds" "is_digit d" by (rule show_nat_Cons)
  with False that show ?thesis by (simp add: show_int_def)
qed

lemma parse_literal_int:
  assumes "delimited r" shows "parse_literal (show_int i @ r) = Some (JInt i, r)"
proof -
  obtain c t where ct: "show_int i = c # t"
      "is_digit c \<or> (code c = 45 \<and> (\<exists>d u. t = d # u \<and> is_digit d))"
    by (rule show_int_head)
  then have "\<not> prefix ''null'' (show_int i @ r) \<and> \<not> prefix ''true'' (show_int i @ r) \<and>
      \<not> prefix ''false'' (show_int i @ r) \<and> \<not> prefix ''NaN'' (show_int i @ r) \<and>
      \<not> prefix ''Infinity'' (show_int i @ r) \<and> \<not> prefix ''-Infinity'' (show_int i @ r)"
    by (auto simp: is_digit_code)
  then show ?thesis using parse_number_int [OF assms] by (simp add: parse_literal_def)
qed

text \<open>The first character of a printed value: no white space, and what \<open>parse_value\<close> branches on.\<close>

lemma int_digits_show: "delimited r \<Longrightarrow> int_digits (show_int i @ r) = length (show_nat (nat \<bar>i\<bar>))"
proof -
  assume r: "delimited r"
  obtain d ds where d: "show_nat (nat i) = d # ds" "is_digit d" by (rule show_nat_Cons) blast
  show ?thesis
    using takeWhile_digits [OF show_nat_digits r, of "nat \<bar>i\<bar>"] d
    by (auto simp: int_digits_def show_int_def is_digit_code)
qed

lemma parse_scalar_int:
  "delimited r \<Longrightarrow> length (show_nat (nat \<bar>i\<bar>)) \<le> INT_MAX_STR_DIGITS \<Longrightarrow>
   parse_scalar (show_int i @ r) = Inr (JInt i, r)"
  by (simp add: parse_scalar_def parse_literal_int int_digits_show)

lemma length_show_nat: "n < 10 ^ k \<Longrightarrow> 0 < k \<Longrightarrow> length (show_nat n) \<le> k"
proof (induction k arbitrary: n)
  case (Suc k)
  show ?case
  proof (cases "n < 10")
    case True then show ?thesis by (subst show_nat.simps) simp
  next
    case False
    with Suc.prems have "0 < k" by (cases k) auto
    moreover have "n div 10 < 10 ^ k" using Suc.prems by (simp add: less_mult_imp_div_less mult.commute)
    ultimately have "length (show_nat (n div 10)) \<le> k" by (rule Suc.IH [rotated])
    with False show ?thesis by (subst show_nat.simps) simp
  qed
qed simp

text \<open>The integers of the program are far below the limit; 20 digits cover 64 bits.\<close>

lemma short_int: "\<bar>i\<bar> < 10 ^ 20 \<Longrightarrow> length (show_nat (nat \<bar>i\<bar>)) \<le> INT_MAX_STR_DIGITS"
proof -
  assume "\<bar>i\<bar> < 10 ^ 20"
  then have "nat \<bar>i\<bar> < 10 ^ 20" by (simp add: nat_less_iff)
  then have "length (show_nat (nat \<bar>i\<bar>)) \<le> 20" by (rule length_show_nat) simp
  then show ?thesis by (simp add: INT_MAX_STR_DIGITS_def)
qed

lemma dumps_head:
  assumes "json_ok j"
  obtains c t where "dumps_ordered j = c # t" "code c \<notin> {32, 9, 10, 13, 93, 125}"
proof (cases j)
  case (JInt i)
  obtain c t where "show_int i = c # t" "is_digit c \<or> code c = 45"
    by (rule show_int_head [of i]) blast
  with JInt that show ?thesis by (auto simp: is_digit_code)
next
  case (JBool b) with that show ?thesis by (cases b) auto
qed (use assms that in \<open>auto simp: quote_def\<close>)

lemma json_ws_head: "code c \<notin> {32, 9, 10, 13} \<Longrightarrow> json_ws (c # t) = c # t"
  by (simp add: json_ws_def)

lemma json_ws_dumps [simp]: "json_ok j \<Longrightarrow> json_ws (dumps_ordered j @ r) = dumps_ordered j @ r"
  by (rule dumps_head [of j]) (auto simp: json_ws_def)

lemma json_ws_quote [simp]: "json_ws (quote k @ r) = quote k @ r"
  by (simp add: quote_def json_ws_def)

fun json_size :: "json \<Rightarrow> nat" where
  "json_size (JArr xs) = Suc (sum_list (map (\<lambda>x. Suc (json_size x)) xs))"
| "json_size (JObj ps) = Suc (sum_list (map (\<lambda>p. Suc (json_size (snd p))) ps))"
| "json_size j = 1"

lemma dict_put_new: "k \<notin> fst ` set ps \<Longrightarrow> dict_put k v ps = ps @ [(k, v)]"
  by (induction ps) auto

lemma dict_of_distinct_aux:
  "distinct (map fst (qs @ ps)) \<Longrightarrow> fold (\<lambda>(k, v). dict_put k v) ps qs = qs @ ps"
proof (induction ps arbitrary: qs)
  case (Cons p ps)
  obtain k v where p: "p = (k, v)" by (cases p)
  with Cons.prems have "dict_put k v qs = qs @ [(k, v)]" by (intro dict_put_new) auto
  with Cons p show ?case by simp
qed simp

lemma dict_of_distinct [simp]: "distinct (map fst ps) \<Longrightarrow> dict_of ps = ps"
  using dict_of_distinct_aux [of "[]" ps] by (simp add: dict_of_def)

lemma parse_elems_print:
  assumes "xs \<noteq> []" "\<And>x n r. x \<in> set xs \<Longrightarrow> json_size x \<le> n \<Longrightarrow> delimited r \<Longrightarrow>
      parse_value n (dumps_ordered x @ r) = Inr (x, r)"
    and "list_all json_ok xs" and "sum_list (map (\<lambda>x. Suc (json_size x)) xs) \<le> n"
  shows "parse_elems n (join_with '','' (map dumps_ordered xs) @ CHR '']'' # r) = Inr (xs, r)"
  using assms
proof (induction xs arbitrary: n)
  case Nil then show ?case by simp
next
  case (Cons x xs)
  from Cons.prems(4) obtain m where n: "n = Suc m" "json_size x \<le> m"
      "sum_list (map (\<lambda>x. Suc (json_size x)) xs) \<le> m"
    by (cases n) auto
  have pv: "parse_value m (dumps_ordered x @ t) = Inr (x, t)" if "delimited t" for t
    using Cons.prems(2) n that by simp
  show ?case
  proof (cases xs)
    case Nil
    then show ?thesis using pv [of "CHR '']'' # r"]
      by (simp add: n json_ws_def delimited_def is_digit_code)
  next
    case (Cons y ys)
    let ?t = "join_with '','' (map dumps_ordered xs) @ CHR '']'' # r"
    have IH: "parse_elems m ?t = Inr (xs, r)"
      using Cons.IH [of m] Cons.prems n Cons by simp
    have w: "json_ws ?t = ?t" using Cons.prems(3) Cons by (cases ys) simp_all
    show ?thesis using pv [of "CHR '','' # ?t"] IH w Cons
      by (simp add: n json_ws_head delimited_def is_digit_code)
  qed
qed

lemma parse_members_print:
  assumes "ps \<noteq> []" "\<And>p n r. p \<in> set ps \<Longrightarrow> json_size (snd p) \<le> n \<Longrightarrow> delimited r \<Longrightarrow>
      parse_value n (dumps_ordered (snd p) @ r) = Inr (snd p, r)"
    and "list_all (\<lambda>p. json_ok (snd p)) ps" and "sum_list (map (\<lambda>p. Suc (json_size (snd p))) ps) \<le> n"
  shows "parse_members n (join_with '',''
      (map (\<lambda>p. quote (fst p) @ '':'' @ dumps_ordered (snd p)) ps) @ CHR ''}'' # r) = Inr (ps, r)"
  using assms
proof (induction ps arbitrary: n)
  case Nil then show ?case by simp
next
  case (Cons p ps)
  obtain k v where p: "p = (k, v)" by (cases p)
  from Cons.prems(4) p obtain m where n: "n = Suc m" "json_size v \<le> m"
      "sum_list (map (\<lambda>p. Suc (json_size (snd p))) ps) \<le> m"
    by (cases n) auto
  have pv: "parse_value m (dumps_ordered v @ t) = Inr (v, t)" if "delimited t" for t
    using Cons.prems(2) [of p] n p that by simp
  have ok: "json_ok v" using Cons.prems(3) p by simp
  show ?case
  proof (cases ps)
    case Nil
    then show ?thesis using pv [of "CHR ''}'' # r"] ok
      by (simp add: n p quote_def parse_string_body json_ws_head delimited_def is_digit_code)
  next
    case (Cons q qs)
    let ?t = "join_with '','' (map (\<lambda>p. quote (fst p) @ '':'' @ dumps_ordered (snd p)) ps)
      @ CHR ''}'' # r"
    have IH: "parse_members m ?t = Inr (ps, r)"
      using Cons.IH [of m] Cons.prems n Cons by simp
    have w: "json_ws ?t = ?t" using Cons by (cases qs) simp_all
    show ?thesis using pv [of "CHR '','' # ?t"] IH w Cons ok
      by (simp add: n p quote_def parse_string_body json_ws_head delimited_def is_digit_code)
  qed
qed

lemmas json_size_cases = json_size.induct [case_names Arr Obj Null Bool Int Float Str]

lemma parse_value_print:
  "json_ok j \<Longrightarrow> json_size j \<le> n \<Longrightarrow> delimited r \<Longrightarrow>
   parse_value n (dumps_ordered j @ r) = Inr (j, r)"
proof (induction j arbitrary: n r rule: json_size_cases)
  case (Arr xs)
  then obtain m where n: "n = Suc m" by (cases n) auto
  show ?case
  proof (cases "xs = []")
    case True then show ?thesis by (simp add: n json_ws_def)
  next
    case False
    let ?t = "join_with '','' (map dumps_ordered xs) @ CHR '']'' # r"
    obtain x ys where xs: "xs = x # ys" using False by (cases xs) auto
    with Arr have "json_ok x" by simp
    then obtain c u where c: "dumps_ordered x = c # u" "code c \<notin> {32, 9, 10, 13, 93, 125}"
      by (rule dumps_head)
    then obtain v where t: "?t = c # v" using xs by (cases ys) auto
    have "parse_elems m ?t = Inr (xs, r)"
      using Arr False n by (intro parse_elems_print) (auto simp: list_all_iff)
    then show ?thesis using t c by (simp add: n json_ws_head)
  qed
next
  case (Obj ps)
  then obtain m where n: "n = Suc m" by (cases n) auto
  show ?case
  proof (cases "ps = []")
    case True then show ?thesis by (simp add: n json_ws_def)
  next
    case False
    let ?t = "join_with '','' (map (\<lambda>p. quote (fst p) @ '':'' @ dumps_ordered (snd p)) ps)
      @ CHR ''}'' # r"
    obtain x ys where ps: "ps = x # ys" using False by (cases ps) auto
    then obtain v where t: "?t = CHR 0x22 # v" by (cases ys) (auto simp: quote_def)
    have "parse_members m ?t = Inr (ps, r)"
      using Obj False n by (intro parse_members_print) (auto simp: list_all_iff)
    with t Obj show ?thesis by (simp add: n json_ws_head)
  qed
next
  case Null then show ?case by (cases n) (auto simp: parse_scalar_def parse_literal_def)
next
  case (Bool b) then show ?case by (cases n; cases b) (auto simp: parse_scalar_def parse_literal_def)
next
  case (Int i)
  then obtain m where n: "n = Suc m" by (cases n) auto
  obtain c t where "show_int i = c # t" "is_digit c \<or> code c = 45"
    by (rule show_int_head [of i]) blast
  with parse_scalar_int [OF Int(3), of i] Int(1) show ?case by (auto simp: n is_digit_code)
next
  case (Str s) then show ?case by (cases n) (auto simp: quote_def parse_string_body)
qed simp

lemma sum_list_ge_join:
  assumes "\<And>x. x \<in> set xs \<Longrightarrow> f x \<le> length (g x)"
  shows "sum_list (map (\<lambda>x. Suc (f x)) xs) \<le> Suc (length (join_with '','' (map g xs)))"
  using assms
proof (induction xs)
  case (Cons x xs)
  show ?case
  proof (cases xs)
    case Nil then show ?thesis using Cons.prems by simp
  next
    case (Cons y ys)
    with Cons.IH Cons.prems show ?thesis by (simp add: add_mono)
  qed
qed simp

lemma json_size_le: "json_ok j \<Longrightarrow> json_size j \<le> length (dumps_ordered j)"
proof (induction j rule: json_size_cases)
  case (Arr xs)
  then have "sum_list (map (\<lambda>x. Suc (json_size x)) xs)
      \<le> Suc (length (join_with '','' (map dumps_ordered xs)))"
    by (intro sum_list_ge_join) (auto simp: list_all_iff)
  then show ?case by simp
next
  case (Obj ps)
  then have "sum_list (map (\<lambda>p. Suc (json_size (snd p))) ps)
      \<le> Suc (length (join_with '',''
          (map (\<lambda>p. quote (fst p) @ '':'' @ dumps_ordered (snd p)) ps)))"
    by (intro sum_list_ge_join) (fastforce simp: list_all_iff intro: le_SucI trans_le_add2)
  then show ?case by simp
next
  case (Int i) then show ?case by (rule_tac show_int_head [of i]) auto
qed (auto simp: quote_def)

lemma map_of_sort_key [simp]: "distinct (map fst ps) \<Longrightarrow> map_of (sort_key f ps) = map_of ps"
proof -
  assume d: "distinct (map fst ps)"
  then have "distinct (map fst (sort_key f ps))"
    by (simp add: distinct_map)
  with d show ?thesis by (intro map_of_inject_set [THEN iffD2]) auto
qed

lemma json_ok_canon: "json_ok j \<Longrightarrow> json_ok (canon j)"
proof (induction j rule: canon.induct)
  case (2 ps)
  then show ?case by (auto simp: list_all_iff distinct_map comp_def set_map inj_on_def)
qed (auto simp: list_all_iff)

lemma loads_ordered: "json_ok j \<Longrightarrow> loads (dumps_ordered j) = Inr j"
proof -
  assume ok: "json_ok j"
  have "parse_value (json_fuel (dumps_ordered j)) (dumps_ordered j @ []) = Inr (j, [])"
    using ok json_size_le [OF ok] by (intro parse_value_print) (auto simp: json_fuel_def delimited_def)
  moreover have "json_ws (dumps_ordered j) = dumps_ordered j"
    using json_ws_dumps [OF ok, of "[]"] by simp
  ultimately show ?thesis by (simp add: loads_def json_ws_def)
qed

lemma loads_dumps: "json_ok j \<Longrightarrow> loads (dumps j) = Inr (canon j)"
  by (simp add: dumps_def loads_ordered json_ok_canon)

section \<open>The fuel of the parser is enough\<close>

lemma json_ws_le: "length (json_ws s) \<le> length s"
  by (simp add: json_ws_def length_dropWhile_le)

lemma json_ws_Cons_le: "json_ws s = c # t \<Longrightarrow> length t < length s"
  using json_ws_le [of s] by simp

lemma parse_string_less: "parse_string s = Some (x, r) \<Longrightarrow> length r < length s"
proof (induction s arbitrary: x r rule: length_induct)
  case (1 s)
  have IH: "parse_string t = Some (y, q) \<Longrightarrow> length t < length s \<Longrightarrow> length q < length t" for t y q
    using 1 by blast
  show ?case
  proof (cases s)
    case Nil
    with 1 show ?thesis by simp
  next
    case (Cons c cs)
    with 1(2) show ?thesis
      by (auto split: if_splits list.splits option.splits sum.splits dest!: IH)
  qed
qed

lemma parse_number_less:
  assumes "parse_number s = Some (v, r)" shows "length r < length s"
proof -
  define sg where "sg = (case s of c # _ \<Rightarrow> if code c = 45 then [c] else [] | [] \<Rightarrow> [])"
  define t where "t = drop (length sg) s"
  define ip where "ip = (case takeWhile is_digit t of c # ds \<Rightarrow> if code c = 48 then [c] else c # ds | [] \<Rightarrow> [])"
  have r: "length r \<le> length t - length ip" and ip: "ip \<noteq> []"
    using assms unfolding parse_number_def Let_def sg_def [symmetric] t_def [symmetric]
    by (auto simp: ip_def split: if_splits list.splits)
  from ip have "t \<noteq> []" by (auto simp: ip_def)
  then have "length t - length ip < length t" using ip by simp
  moreover have "length t \<le> length s" by (simp add: t_def)
  ultimately show ?thesis using r by linarith
qed

lemma parse_literal_less: "parse_literal s = Some (v, r) \<Longrightarrow> length r < length s"
  by (auto simp: parse_literal_def prefix_def split: if_splits dest: parse_number_less)

lemma parse_scalar_less: "parse_scalar s = Inr (v, r) \<Longrightarrow> length r < length s"
  by (auto simp: parse_scalar_def split: if_splits option.splits json.splits dest: parse_literal_less)

lemma parse_less_all:
  "(\<forall>s v r. parse_value n s = Inr (v, r) \<longrightarrow> length r < length s) \<and>
   (\<forall>s v r. parse_elems n s = Inr (v, r) \<longrightarrow> length r < length s) \<and>
   (\<forall>s v r. parse_members n s = Inr (v, r) \<longrightarrow> length r < length s)"
proof (induction n)
  case (Suc n)
  have v: "parse_value n s = Inr (v, r) \<Longrightarrow> length r < length s"
    and e: "parse_elems n s = Inr (vs, r) \<Longrightarrow> length r < length s"
    and m: "parse_members n s = Inr (ms, r) \<Longrightarrow> length r < length s" for s v r vs ms
    using Suc by blast+
  note ws = less_le_trans [OF _ json_ws_le]
  have "parse_value (Suc n) s = Inr (v, r) \<Longrightarrow> length r < length s" for s v r
    by (auto split: list.splits if_splits option.splits
        dest!: e m parse_string_less parse_scalar_less json_ws_Cons_le)
  moreover have "parse_elems (Suc n) s = Inr (v, r) \<Longrightarrow> length r < length s" for s v r
    by (auto split: list.splits if_splits option.splits sum.splits dest!: v ws [OF e] json_ws_Cons_le)
  moreover have "parse_members (Suc n) s = Inr (v, r) \<Longrightarrow> length r < length s" for s v r
    by (auto split: list.splits if_splits option.splits sum.splits
        dest!: ws [OF v] ws [OF m] json_ws_Cons_le parse_string_less)
  ultimately show ?case by blast
qed simp

lemmas parse_less = parse_less_all [THEN conjunct1, rule_format]
  parse_less_all [THEN conjunct2, THEN conjunct1, rule_format]
  parse_less_all [THEN conjunct2, THEN conjunct2, rule_format]

definition json_errors :: "exn set" where
  "json_errors = {JSONDecodeError, ValueError}"

lemma json_errors_in [simp]: "JSONDecodeError \<in> json_errors" "ValueError \<in> json_errors"
  by (simp_all add: json_errors_def)

lemma parse_scalar_error: "parse_scalar s = Inl e \<Longrightarrow> e \<in> json_errors"
  by (auto simp: parse_scalar_def split: if_splits option.splits json.splits)

lemma parse_errors:
  "(\<forall>s e. parse_value n s = Inl e \<longrightarrow> e \<in> json_errors) \<and>
   (\<forall>s e. parse_elems n s = Inl e \<longrightarrow> e \<in> json_errors) \<and>
   (\<forall>s e. parse_members n s = Inl e \<longrightarrow> e \<in> json_errors)"
proof (induction n)
  case (Suc n)
  have v: "parse_value n s = Inl e \<Longrightarrow> e \<in> json_errors"
    and e: "parse_elems n s = Inl e \<Longrightarrow> e \<in> json_errors"
    and m: "parse_members n s = Inl e \<Longrightarrow> e \<in> json_errors" for s e
    using Suc by blast+
  have "parse_value (Suc n) s = Inl e \<Longrightarrow> e \<in> json_errors" for s e
    by (auto simp: bindE_eq_Inl split: list.splits if_splits option.splits
        dest: e m parse_scalar_error)
  moreover have "parse_elems (Suc n) s = Inl e \<Longrightarrow> e \<in> json_errors" for s e
    by (auto simp: bindE_eq_Inl split: list.splits if_splits sum.splits dest: v e)
  moreover have "parse_members (Suc n) s = Inl e \<Longrightarrow> e \<in> json_errors" for s e
    by (auto simp: bindE_eq_Inl split: list.splits if_splits option.splits sum.splits dest!: v m)
  ultimately show ?case by blast
qed simp

lemma loads_error: "loads s = Inl e \<Longrightarrow> e = JSONDecodeError \<or> e = ValueError"
  using parse_errors [of "json_fuel (json_ws s)"]
  by (auto simp: loads_def Let_def bindE_eq_Inl json_errors_def split: if_splits)

lemma parse_fuel_step:
  "(\<forall>s. 2 * length s \<le> n \<longrightarrow> parse_value (Suc n) s = parse_value n s) \<and>
   (\<forall>s. 2 * length s < n \<longrightarrow> parse_elems (Suc n) s = parse_elems n s) \<and>
   (\<forall>s. 2 * length s \<le> n \<longrightarrow> parse_members (Suc n) s = parse_members n s)"
proof (induction n)
  case 0
  then show ?case by simp
next
  case (Suc n)
  have v: "2 * length s \<le> n \<Longrightarrow> parse_value (Suc n) s = parse_value n s"
    and e: "2 * length s < n \<Longrightarrow> parse_elems (Suc n) s = parse_elems n s"
    and m: "2 * length s \<le> n \<Longrightarrow> parse_members (Suc n) s = parse_members n s" for s
    using Suc by blast+
  have "parse_value (Suc (Suc n)) s = parse_value (Suc n) s" if "2 * length s \<le> Suc n" for s
  proof (cases s)
    case (Cons c r)
    have "json_ws r = d # u \<Longrightarrow> 2 * length (d # u) < n" for d u
      using that Cons json_ws_Cons_le [of r d u] by auto
    then have "json_ws r = d # u \<Longrightarrow> parse_elems (Suc n) (d # u) = parse_elems n (d # u)"
      "json_ws r = d # u \<Longrightarrow> parse_members (Suc n) (d # u) = parse_members n (d # u)" for d u
      by (blast intro: e m less_imp_le)+
    then show ?thesis using Cons
      by (simp add: parse_value.simps(2) [of "Suc n"] parse_value.simps(2) [of n] del: parse_value.simps parse_elems.simps parse_members.simps
          split: list.splits)
  qed simp
  moreover have "parse_elems (Suc (Suc n)) s = parse_elems (Suc n) s" if "2 * length s < Suc n" for s
  proof -
    have pv: "parse_value (Suc n) s = parse_value n s" using that v by simp
    have "parse_elems (Suc n) (json_ws u) = parse_elems n (json_ws u)"
      if "parse_value n s = Inr (w, r)" "json_ws r = c # u" for w r c u
      using that parse_less(1) [OF that(1)] json_ws_Cons_le [OF that(2)] json_ws_le [of u]
        \<open>2 * length s < Suc n\<close> by (intro e) linarith
    then show ?thesis
      by (simp add: parse_elems.simps(2) [of "Suc n"] parse_elems.simps(2) [of n] pv
          del: parse_value.simps parse_elems.simps parse_members.simps split: list.splits option.splits sum.splits)
  qed
  moreover have "parse_members (Suc (Suc n)) s = parse_members (Suc n) s" if "2 * length s \<le> Suc n" for s
  proof (cases s)
    case (Cons q t)
    have 1: "parse_value (Suc n) (json_ws u) = parse_value n (json_ws u)"
      if "parse_string t = Some (k, r)" "json_ws r = c # u" for k r c u
      using parse_string_less [OF that(1)] json_ws_Cons_le [OF that(2)] json_ws_le [of u]
        \<open>2 * length s \<le> Suc n\<close> Cons by (intro v) simp
    have 2: "parse_members (Suc n) (json_ws x) = parse_members n (json_ws x)"
      if "parse_string t = Some (k, r)" "json_ws r = c # u" "parse_value n (json_ws u) = Inr (w, z)"
        "json_ws z = d # x" for k r c u w z d x
      using parse_string_less [OF that(1)] json_ws_Cons_le [OF that(2)] json_ws_le [of u]
        parse_less(1) [OF that(3)] json_ws_Cons_le [OF that(4)] json_ws_le [of x]
        \<open>2 * length s \<le> Suc n\<close> Cons by (intro m) simp
    show ?thesis using Cons 1 2
      by (simp add: parse_members.simps(2) [of "Suc n"] parse_members.simps(2) [of n]
          del: parse_value.simps parse_elems.simps parse_members.simps split: list.splits option.splits sum.splits)
  qed simp
  ultimately show ?case by blast
qed

lemma parse_fuel_enough:
  assumes "json_fuel s \<le> n" shows "parse_value n s = parse_value (json_fuel s) s"
  using assms
proof (induction n rule: dec_induct)
  case (step n)
  then show ?case using parse_fuel_step [of n] by (simp add: json_fuel_def del: parse_value.simps)
qed simp

interpretation jsoncodec: codec dumps_ordered "\<lambda>s. to_option (loads s)" json_ok
  by unfold_locales (simp add: loads_ordered)

section \<open>The size of what is printed\<close>

fun json_weight :: "json \<Rightarrow> nat" where
  "json_weight JNull = 4"
| "json_weight (JBool b) = 5"
| "json_weight (JInt i) = length (show_int i)"
| "json_weight (JFloat t) = length t"
| "json_weight (JStr s) = 6 * length s + 2"
| "json_weight (JArr xs) = sum_list (map (\<lambda>x. json_weight x + 1) xs) + 2"
| "json_weight (JObj ps) = sum_list (map (\<lambda>p. 6 * length (fst p) + json_weight (snd p) + 4) ps) + 2"

lemma length_quote: "length (quote s) \<le> 6 * length s + 2"
proof -
  have "length (esc_char c) \<le> 6" for c by (simp add: esc_char_def Let_def)
  then have "length (concat (map esc_char s)) \<le> 6 * length s"
    by (induction s) (simp_all add: add_mono)
  then show ?thesis by (simp add: quote_def)
qed

lemma length_join: "length (join_with [c] ws) \<le> sum_list (map (\<lambda>w. length w + 1) ws)"
  by (induction "[c]" ws rule: join_with.induct) auto

lemma length_dumps_ordered: "length (dumps_ordered j) \<le> json_weight j"
proof (induction j rule: json_weight.induct)
  case (5 s) show ?case using length_quote [of s] by simp
next
  case (6 xs)
  have "length (join_with '','' (map dumps_ordered xs)) \<le> sum_list (map (\<lambda>x. json_weight x + 1) xs)"
    by (rule order.trans [OF length_join]) (auto simp: comp_def intro!: sum_list_mono 6)
  then show ?case by simp
next
  case (7 ps)
  have "length (join_with '','' (map (\<lambda>p. quote (fst p) @ '':'' @ dumps_ordered (snd p)) ps))
      \<le> sum_list (map (\<lambda>p. 6 * length (fst p) + json_weight (snd p) + 4) ps)"
    (is "_ \<le> ?r")
  proof -
    have "length (quote (fst p) @ '':'' @ dumps_ordered (snd p)) + 1
        \<le> 6 * length (fst p) + json_weight (snd p) + 4" if "p \<in> set ps" for p
      using 7 [OF that] length_quote [of "fst p"] by simp
    then have "sum_list (map (\<lambda>p. length (quote (fst p) @ '':'' @ dumps_ordered (snd p)) + 1) ps) \<le> ?r"
      by (rule sum_list_mono)
    then show ?thesis
      using length_join [of "CHR '',''" "map (\<lambda>p. quote (fst p) @ '':'' @ dumps_ordered (snd p)) ps"]
      by (simp add: comp_def)
  qed
  then show ?case by simp
qed auto

lemma sum_list_sort_key: "sum_list (map f (sort_key k xs)) = (sum_list (map f xs) :: nat)"
  by (metis mset_map mset_sort sum_mset_sum_list)

lemma json_weight_canon: "json_weight (canon j) = json_weight j"
proof (induction j rule: canon.induct)
  case (1 xs) then show ?case by (simp add: comp_def cong: map_cong)
next
  case (2 ps) then show ?case by (simp add: sum_list_sort_key comp_def cong: map_cong)
qed simp_all

lemma length_dumps: "length (dumps j) \<le> json_weight j"
  using length_dumps_ordered [of "canon j"] by (simp add: dumps_def json_weight_canon)

lemma length_show_int: "\<bar>i\<bar> < 10 ^ k \<Longrightarrow> 0 < k \<Longrightarrow> length (show_int i) \<le> k + 1"
  using length_show_nat [of "nat \<bar>i\<bar>" k] by (auto simp: show_int_def nat_less_iff abs_if split: if_splits)

end
