(* ===== verification/Utf8.thy ===== *)
theory Utf8
  imports Json
begin

text \<open>
  \<open>bytes.decode("utf-8")\<close>: which byte strings are the encoding of a text. Printing a JSON
  value built of texts yields one, so \<open>dumps(...).encode("utf-8")\<close> can be decoded again.
\<close>

definition cont :: "char \<Rightarrow> bool" where
  "cont c \<longleftrightarrow> 128 \<le> code c \<and> code c \<le> 191"

definition lead :: "nat \<Rightarrow> char \<Rightarrow> bool" where
  "lead n c \<longleftrightarrow> (if n = 2 then 194 \<le> code c \<and> code c \<le> 223
     else if n = 3 then 224 \<le> code c \<and> code c \<le> 239
     else n = 4 \<and> 240 \<le> code c \<and> code c \<le> 244)"

text \<open>No overlong form, no surrogate, nothing above U+10FFFF: bounds on the second byte.\<close>

definition second_ok :: "char \<Rightarrow> char \<Rightarrow> bool" where
  "second_ok a b \<longleftrightarrow> cont b \<and> (code a = 224 \<longrightarrow> 160 \<le> code b) \<and> (code a = 237 \<longrightarrow> code b \<le> 159) \<and>
     (code a = 240 \<longrightarrow> 144 \<le> code b) \<and> (code a = 244 \<longrightarrow> code b \<le> 143)"

text \<open>The length of the well-formed sequence a byte string starts with, 0 if there is none.\<close>

definition utf8_seq :: "bytes \<Rightarrow> nat" where
  "utf8_seq s = (case s of
       [] \<Rightarrow> 0
     | a # r \<Rightarrow>
         if code a < 128 then 1
         else if lead 2 a then (case r of b # _ \<Rightarrow> if second_ok a b then 2 else 0 | _ \<Rightarrow> 0)
         else if lead 3 a then
           (case r of b # c # _ \<Rightarrow> if second_ok a b \<and> cont c then 3 else 0 | _ \<Rightarrow> 0)
         else if lead 4 a then
           (case r of b # c # d # _ \<Rightarrow> if second_ok a b \<and> cont c \<and> cont d then 4 else 0 | _ \<Rightarrow> 0)
         else 0)"

function utf8_ok :: "bytes \<Rightarrow> bool" where
  "utf8_ok s = (if s = [] then True else if utf8_seq s = 0 then False
     else utf8_ok (drop (utf8_seq s) s))"
  by pat_completeness auto
termination by (relation "measure length") auto

declare utf8_ok.simps [simp del]

lemma utf8_ok_Nil [simp]: "utf8_ok []"
  by (subst utf8_ok.simps) simp

lemma utf8_ok_ascii [simp]: "code c < 128 \<Longrightarrow> utf8_ok (c # s) = utf8_ok s"
  by (subst utf8_ok.simps) (simp add: utf8_seq_def Let_def)

text \<open>The two facts about sequences, by the number of bytes at hand.\<close>

lemma list_upto4:
  obtains "s = []" | a where "s = [a]" | a b where "s = [a, b]" | a b c where "s = [a, b, c]"
  | a b c d r where "s = a # b # c # d # r"
  by (metis neq_Nil_conv)

lemma utf8_seq_append: "utf8_seq s > 0 \<Longrightarrow> utf8_seq (s @ t) = utf8_seq s"
  by (cases s rule: list_upto4) (simp_all add: utf8_seq_def Let_def split: if_splits)

lemma utf8_seq_le: "utf8_seq s \<le> length s"
  by (auto simp: utf8_seq_def Let_def split: list.splits)

lemma utf8_ok_append: "utf8_ok s \<Longrightarrow> utf8_ok (s @ t) = utf8_ok t"
proof (induction s rule: utf8_ok.induct)
  case (1 s)
  show ?case
  proof (cases "s = []")
    case False
    with 1(2) have pos: "utf8_seq s > 0" and rest: "utf8_ok (drop (utf8_seq s) s)"
      by (simp_all add: utf8_ok.simps [of s] split: if_splits)
    have "drop (utf8_seq s) (s @ t) = drop (utf8_seq s) s @ t" using utf8_seq_le [of s] by simp
    with 1(1) [OF False _ rest] pos False show ?thesis
      by (simp add: utf8_ok.simps [of "s @ t"] utf8_seq_append)
  qed simp
qed

lemma utf8_seq_high: "utf8_seq s > 1 \<Longrightarrow> list_all (\<lambda>c. 128 \<le> code c) (take (utf8_seq s) s)"
proof -
  have h: "\<And>n c. lead n c \<Longrightarrow> 128 \<le> code c" "\<And>c. cont c \<Longrightarrow> 128 \<le> code c"
      "\<And>a b. second_ok a b \<Longrightarrow> 128 \<le> code b"
    by (auto simp: lead_def cont_def second_ok_def split: if_splits)
  show "utf8_seq s > 1 \<Longrightarrow> list_all (\<lambda>c. 128 \<le> code c) (take (utf8_seq s) s)"
    by (cases s rule: list_upto4) (simp_all add: utf8_seq_def h split: if_splits)
qed

lemma ascii_text: "list_all (\<lambda>c. code c < 128) s \<Longrightarrow> utf8_ok s"
  by (induction s) auto

lemma hex_digit_ascii: "n < 16 \<Longrightarrow> code (lower_char (hex_digit n)) < 128"
  by (auto simp: hex_digit_def lower_char_def)

lemma esc_ascii: "code c < 128 \<Longrightarrow> list_all (\<lambda>c. code c < 128) (esc_char c)"
  by (auto simp: esc_char_def Let_def hex_digit_ascii)

lemma utf8_seq_take: "utf8_seq s > 0 \<Longrightarrow> utf8_ok (take (utf8_seq s) s)"
proof -
  assume pos: "utf8_seq s > 0"
  let ?t = "take (utf8_seq s) s"
  have "utf8_seq ?t = utf8_seq s" using pos
    by (cases s rule: list_upto4) (simp_all add: utf8_seq_def Let_def split: if_splits)
  moreover have "length ?t = utf8_seq s" using utf8_seq_le [of s] by simp
  ultimately show ?thesis using pos by (simp add: utf8_ok.simps [of ?t])
qed

text \<open>Replacing every ASCII character by ASCII text keeps a text in UTF-8.\<close>

lemma utf8_ok_mapped:
  assumes ascii: "\<And>c. code c < 128 \<Longrightarrow> list_all (\<lambda>c. code c < 128) (f c)"
    and high: "\<And>c. 128 \<le> code c \<Longrightarrow> f c = [c]"
  shows "utf8_ok s \<Longrightarrow> utf8_ok (concat (map f s))"
proof (induction s rule: utf8_ok.induct)
  case (1 s)
  have unchanged: "list_all (\<lambda>c. 128 \<le> code c) t \<Longrightarrow> concat (map f t) = t" for t
    using high by (induction t) auto
  show ?case
  proof (cases "s = []")
    case False
    with 1(2) have pos: "utf8_seq s > 0" and rest: "utf8_ok (drop (utf8_seq s) s)"
      by (simp_all add: utf8_ok.simps [of s] split: if_splits)
    let ?t = "take (utf8_seq s) s"
    have IH: "utf8_ok (concat (map f (drop (utf8_seq s) s)))"
      using 1(1) [OF False] pos rest by simp
    have "utf8_ok (concat (map f ?t))"
    proof (cases "utf8_seq s > 1")
      case True
      then show ?thesis using utf8_seq_high [of s] unchanged utf8_seq_take [of s] by simp
    next
      case hd: False
      from False obtain a r where s: "s = a # r" by (cases s) auto
      have n: "utf8_seq s = 1" using hd pos by simp
      then have "code a < 128"
        using s by (auto simp: utf8_seq_def Let_def split: list.splits if_splits)
      then show ?thesis using s n ascii [of a] by (simp add: ascii_text)
    qed
    then have "utf8_ok (concat (map f ?t) @ concat (map f (drop (utf8_seq s) s)))"
      using IH by (simp add: utf8_ok_append)
    then show ?thesis by (metis append_take_drop_id concat_append map_append)
  qed simp
qed

lemma utf8_ok_esc: "utf8_ok s \<Longrightarrow> utf8_ok (concat (map esc_char s))"
  by (rule utf8_ok_mapped [OF esc_ascii]) (auto simp: esc_char_def Let_def)

fun json_text :: "json \<Rightarrow> bool" where
  "json_text (JFloat t) = utf8_ok t"
| "json_text (JStr s) = utf8_ok s"
| "json_text (JArr xs) = list_all json_text xs"
| "json_text (JObj ps) = list_all (\<lambda>p. utf8_ok (fst p) \<and> json_text (snd p)) ps"
| "json_text j = True"

lemma utf8_ok_quote: "utf8_ok s \<Longrightarrow> utf8_ok (quote s)"
  by (simp add: quote_def utf8_ok_append utf8_ok_esc)

lemma utf8_ok_join: "list_all utf8_ok ws \<Longrightarrow> utf8_ok (join_with '','' ws)"
  by (induction "'',''" ws rule: join_with.induct) (auto simp: utf8_ok_append)

lemma utf8_ok_int: "utf8_ok (show_int i)"
proof -
  have d: "utf8_ok (show_nat n)" for n
    using show_nat_digits [of n] by (intro ascii_text) (auto simp: list_all_iff is_digit_code)
  show ?thesis by (simp add: show_int_def d)
qed

lemma utf8_ok_dumps_ordered: "json_text j \<Longrightarrow> utf8_ok (dumps_ordered j)"
proof (induction j rule: json_text.induct)
  case (3 xs)
  then have "utf8_ok (join_with '','' (map dumps_ordered xs))"
    by (intro utf8_ok_join) (auto simp: list_all_iff)
  then show ?case by (simp add: utf8_ok_append)
next
  case (4 ps)
  then have "utf8_ok (join_with '','' (map (\<lambda>p. quote (fst p) @ '':'' @ dumps_ordered (snd p)) ps))"
    by (intro utf8_ok_join) (auto simp: list_all_iff utf8_ok_append utf8_ok_quote)
  then show ?case by (simp add: utf8_ok_append)
qed (auto simp: utf8_ok_quote utf8_ok_int)

lemma json_text_canon: "json_text j \<Longrightarrow> json_text (canon j)"
  by (induction j rule: canon.induct) (auto simp: list_all_iff)

lemma utf8_ok_dumps: "json_text j \<Longrightarrow> utf8_ok (dumps j)"
  by (simp add: dumps_def utf8_ok_dumps_ordered json_text_canon)

section \<open>Replacing what is ill-formed\<close>

text \<open>\<open>decode("utf-8", errors="replace")\<close>: U+FFFD for each maximal ill-formed part.\<close>

definition replacement :: str where
  "replacement = [CHR 0xEF, CHR 0xBF, CHR 0xBD]"

definition ill_formed_length :: "bytes \<Rightarrow> nat" where
  "ill_formed_length s = (case s of
       a # b # c # _ \<Rightarrow>
         if (lead 3 a \<or> lead 4 a) \<and> second_ok a b then (if lead 4 a \<and> cont c then 3 else 2) else 1
     | [a, b] \<Rightarrow> if (lead 3 a \<or> lead 4 a) \<and> second_ok a b then 2 else 1
     | _ \<Rightarrow> 1)"

function decode_replace :: "bytes \<Rightarrow> str" where
  "decode_replace s = (if s = [] then []
     else if utf8_seq s > 0 then take (utf8_seq s) s @ decode_replace (drop (utf8_seq s) s)
     else replacement @ decode_replace (drop (max 1 (ill_formed_length s)) s))"
  by pat_completeness auto
termination by (relation "measure length") auto

declare decode_replace.simps [simp del]

lemma decode_replace_ok: "utf8_ok s \<Longrightarrow> decode_replace s = s"
proof (induction s rule: utf8_ok.induct)
  case (1 s)
  show ?case
  proof (cases "s = []")
    case True then show ?thesis by (simp add: decode_replace.simps)
  next
    case False
    with 1(2) have pos: "utf8_seq s > 0" and rest: "utf8_ok (drop (utf8_seq s) s)"
      by (simp_all add: utf8_ok.simps [of s] split: if_splits)
    with 1(1) False show ?thesis by (subst decode_replace.simps) simp
  qed
qed

end
