(* ===== verification/Py_Value.thy ===== *)
theory Py_Value
  imports Utf8
begin

text \<open>
  The Python values the program hands to its sinks and reads from msgpack, and their JSON
  form. A dictionary is an association list in insertion order; a \<open>float\<close> is its source text.
\<close>

datatype pyobj =
    PNone
  | PBool bool
  | PInt int
  | PFloat str
  | PStr str
  | PBytes bytes
  | PList "pyobj list"
  | PTuple "pyobj list"
  | PMap "(pyobj \<times> pyobj) list"

text \<open>
  What \<open>json.dumps\<close> makes of a value. \<open>bytes\<close> are not serialisable; a dictionary whose keys
  are not all \<open>str\<close> is outside the model (no caller builds one) and counted with them.
\<close>

fun json_key :: "pyobj \<Rightarrow> str res" where
  "json_key (PStr k) = Inr k"
| "json_key _ = Inl TypeError"

fun py_json :: "pyobj \<Rightarrow> json res" where
  "py_json PNone = Inr JNull"
| "py_json (PBool b) = Inr (JBool b)"
| "py_json (PInt i) = Inr (JInt i)"
| "py_json (PFloat t) = Inr (JFloat t)"
| "py_json (PStr s) = Inr (JStr s)"
| "py_json (PBytes b) = Inl TypeError"
| "py_json (PList xs) = bindE (mapE py_json xs) (\<lambda>js. Inr (JArr js))"
| "py_json (PTuple xs) = bindE (mapE py_json xs) (\<lambda>js. Inr (JArr js))"
| "py_json (PMap ps) =
     bindE (mapE (\<lambda>p. bindE (json_key (fst p)) (\<lambda>k. bindE (py_json (snd p)) (\<lambda>v. Inr (k, v)))) ps)
       (\<lambda>qs. Inr (JObj qs))"

end
