(* ===== verification/Secure_Bytes.thy ===== *)
theory Secure_Bytes
  imports Prelude
begin

text \<open>
  \<open>security/secure_bytes.py\<close>: the buffer that is wiped when it is closed. The state of an
  object is its size, its memory (one byte longer, for the NUL slot of
  \<open>create_string_buffer\<close>), and the flags \<open>_locked\<close> and \<open>_closed\<close>. Whether the platform
  pins the memory (\<open>mlock\<close>, \<open>VirtualLock\<close>) is an argument of the operations that ask it.
\<close>

record secure_bytes =
  sb_size :: nat
  sb_buffer :: bytes
  sb_locked :: bool
  sb_closed :: bool

definition nul :: char where
  "nul = CHR 0x00"

definition sb_new :: "bool \<Rightarrow> int \<Rightarrow> secure_bytes res" where
  "sb_new mlock_ok n =
     (if n < 0 then Inl ValueError
      else Inr \<lparr>sb_size = nat n, sb_buffer = replicate (nat n + 1) nul,
                sb_locked = (if n > 0 then mlock_ok else False), sb_closed = False\<rparr>)"

text \<open>\<open>from_bytes\<close>: a new buffer of the source's length, then \<open>memmove\<close>.\<close>

definition sb_from_bytes :: "bool \<Rightarrow> bytes \<Rightarrow> secure_bytes" where
  "sb_from_bytes mlock_ok source =
     (case sb_new mlock_ok (int (length source)) of
        Inr sb \<Rightarrow> sb\<lparr>sb_buffer := source @ drop (length source) (sb_buffer sb)\<rparr>
      | Inl _ \<Rightarrow> undefined)"

definition sb_view :: "secure_bytes \<Rightarrow> bytes res" where
  "sb_view sb = (if sb_closed sb then Inl RuntimeError else Inr (take (sb_size sb) (sb_buffer sb)))"

definition sb_to_bytes :: "secure_bytes \<Rightarrow> bytes res" where
  "sb_to_bytes sb = (if sb_closed sb then Inl RuntimeError else sb_view sb)"

text \<open>Writing one byte through the memoryview that \<open>view()\<close> returns.\<close>

definition sb_poke :: "nat \<Rightarrow> char \<Rightarrow> secure_bytes \<Rightarrow> secure_bytes res" where
  "sb_poke i b sb = (if sb_closed sb then Inl RuntimeError
     else if i < sb_size sb then Inr (sb\<lparr>sb_buffer := (sb_buffer sb)[i := b]\<rparr>)
     else Inl IndexError)"

definition sb_enter :: "secure_bytes \<Rightarrow> secure_bytes res" where
  "sb_enter sb = (if sb_closed sb then Inl RuntimeError else Inr sb)"

definition sb_close :: "secure_bytes \<Rightarrow> secure_bytes" where
  "sb_close sb = (if sb_closed sb then sb
     else sb\<lparr>sb_buffer := replicate (length (sb_buffer sb)) nul, sb_locked := False, sb_closed := True\<rparr>)"

text \<open>
  \<open>__exit__\<close> closes whatever the body did, so \<open>with sb: body\<close> returns the body's outcome and
  the closed object.
\<close>

definition sb_with :: "secure_bytes \<Rightarrow> (secure_bytes \<Rightarrow> 'a res) \<Rightarrow> 'a res \<times> secure_bytes" where
  "sb_with sb body = (case sb_enter sb of
       Inl e \<Rightarrow> (Inl e, sb)
     | Inr sb' \<Rightarrow> (body sb', sb_close sb'))"

text \<open>
  \<open>_zero_bytes_object\<close>: whether the object was wiped, and its memory afterwards. Objects of
  length 0 and 1 are shared by the interpreter and left alone; so is everything on a runtime
  that is not CPython.
\<close>

definition zero_bytes_object :: "bool \<Rightarrow> bytes \<Rightarrow> bool \<times> bytes" where
  "zero_bytes_object is_cpython raw =
     (if length raw \<le> 1 then (False, raw)
      else if \<not> is_cpython then (False, raw)
      else (True, replicate (length raw) nul))"

definition secure_from_text :: "bool \<Rightarrow> str \<Rightarrow> secure_bytes" where
  "secure_from_text mlock_ok text = sb_from_bytes mlock_ok text"

definition zero_mutable_buffer :: "bytes \<Rightarrow> bytes" where
  "zero_mutable_buffer raw = replicate (length raw) nul"

section \<open>Correctness of the single operations\<close>

definition all_zero :: "bytes \<Rightarrow> bool" where
  "all_zero bs = list_all (\<lambda>b. b = nul) bs"

lemma all_zero_replicate [simp]: "all_zero (replicate n nul)"
  by (simp add: all_zero_def list_all_iff)

lemma all_zero_Cons [simp]: "all_zero (b # bs) \<longleftrightarrow> b = nul \<and> all_zero bs"
  by (simp add: all_zero_def)

lemma all_zero_Nil [simp]: "all_zero []"
  by (simp add: all_zero_def)

lemma sb_from_bytes_eq:
  "sb_from_bytes m bs = \<lparr>sb_size = length bs, sb_buffer = bs @ [nul],
     sb_locked = (bs \<noteq> [] \<and> m), sb_closed = False\<rparr>"
proof -
  have "drop (length bs) (replicate (length bs + 1) nul) = [nul]"
    by (simp del: replicate_Suc add: drop_replicate) (simp add: eval_nat_numeral)
  then show ?thesis by (auto simp: sb_from_bytes_def sb_new_def simp del: replicate_Suc)
qed

lemma sb_from_bytes_fields [simp]:
  "sb_closed (sb_from_bytes m bs) = False" "sb_size (sb_from_bytes m bs) = length bs"
  "sb_view (sb_from_bytes m bs) = Inr bs" "sb_to_bytes (sb_from_bytes m bs) = Inr bs"
  by (simp_all add: sb_from_bytes_eq sb_view_def sb_to_bytes_def)

lemma sb_close_closed [simp]: "sb_closed (sb_close sb)"
  by (simp add: sb_close_def)

lemma sb_close_idem [simp]: "sb_close (sb_close sb) = sb_close sb"
  by (simp add: sb_close_def)

lemma sb_with_body: "\<not> sb_closed sb \<Longrightarrow> sb_with sb body = (body sb, sb_close sb)"
  by (simp add: sb_with_def sb_enter_def)

section \<open>The life of an object\<close>

datatype sb_op = View | ToBytes | Poke nat char | Enter | Close

definition sb_apply :: "sb_op \<Rightarrow> secure_bytes \<Rightarrow> secure_bytes res" where
  "sb_apply op sb = (case op of
       View \<Rightarrow> bindE (sb_view sb) (\<lambda>_. Inr sb)
     | ToBytes \<Rightarrow> bindE (sb_to_bytes sb) (\<lambda>_. Inr sb)
     | Poke i b \<Rightarrow> sb_poke i b sb
     | Enter \<Rightarrow> sb_enter sb
     | Close \<Rightarrow> Inr (sb_close sb))"

text \<open>The states an object goes through: a call that raises leaves it as it was.\<close>

inductive sb_step :: "secure_bytes \<Rightarrow> sb_op \<Rightarrow> secure_bytes \<Rightarrow> bool" where
  sb_returns: "sb_apply op sb = Inr sb' \<Longrightarrow> sb_step sb op sb'"
| sb_raises: "sb_apply op sb = Inl e \<Longrightarrow> sb_step sb op sb"

inductive sb_reachable :: "secure_bytes \<Rightarrow> bool" where
  sb_init: "sb_new m n = Inr sb \<Longrightarrow> sb_reachable sb"
| sb_init_bytes: "sb_reachable (sb_from_bytes m bs)"
| sb_next: "sb_reachable sb \<Longrightarrow> sb_step sb op sb' \<Longrightarrow> sb_reachable sb'"

inductive_cases sb_stepE: "sb_step sb op sb'"

definition sb_inv :: "secure_bytes \<Rightarrow> bool" where
  "sb_inv sb \<longleftrightarrow> length (sb_buffer sb) = sb_size sb + 1 \<and> last (sb_buffer sb) = nul \<and>
     (sb_closed sb \<longrightarrow> all_zero (sb_buffer sb) \<and> \<not> sb_locked sb)"

lemma sb_inv_new: "sb_new m n = Inr sb \<Longrightarrow> sb_inv sb"
  by (auto simp: sb_new_def sb_inv_def split: if_splits)

lemma sb_inv_from_bytes [simp]: "sb_inv (sb_from_bytes m bs)"
  by (simp add: sb_from_bytes_eq sb_inv_def)

lemma sb_inv_close: "sb_inv sb \<Longrightarrow> sb_inv (sb_close sb)"
  by (auto simp: sb_close_def sb_inv_def)

lemma sb_inv_poke: "sb_inv sb \<Longrightarrow> sb_poke i b sb = Inr sb' \<Longrightarrow> sb_inv sb'"
proof -
  assume inv: "sb_inv sb" and poke: "sb_poke i b sb = Inr sb'"
  then have "last ((sb_buffer sb)[i := b]) = nul"
    by (cases "sb_buffer sb = []")
      (auto simp: sb_poke_def sb_inv_def last_list_update split: if_splits)
  with inv poke show ?thesis by (auto simp: sb_poke_def sb_inv_def split: if_splits)
qed

lemma sb_inv_step: "sb_step sb op sb' \<Longrightarrow> sb_inv sb \<Longrightarrow> sb_inv sb'"
  by (erule sb_stepE; cases op)
    (auto simp: sb_apply_def sb_enter_def sb_inv_close intro: sb_inv_poke split: if_splits)

lemma sb_reachable_inv: "sb_reachable sb \<Longrightarrow> sb_inv sb"
  by (induction rule: sb_reachable.induct) (auto intro: sb_inv_new sb_inv_step)

lemma sb_closed_step: "sb_step sb op sb' \<Longrightarrow> sb_closed sb \<Longrightarrow> sb' = sb"
  by (erule sb_stepE; cases op)
    (auto simp: sb_apply_def sb_enter_def sb_close_def sb_view_def sb_to_bytes_def sb_poke_def
      split: if_splits)

end
