(* ===== verification/Kdf.thy ===== *)
theory Kdf
  imports Secure_Bytes
begin

text \<open>
  \<open>models/kdf_params.py\<close> and \<open>security/kdf.py\<close>: the Argon2id parameter policy and key
  derivation. Argon2 itself (\<open>argon2.low_level.hash_secret_raw\<close>) is an argument of
  \<open>derive_key\<close>, told whether the secret is the mutable buffer or a \<open>bytes\<close> copy, and
  answering with a hash, an \<open>Argon2Error\<close> or a \<open>TypeError\<close>.
\<close>

section \<open>Parameters\<close>

definition MIN_TIME_COST :: int where "MIN_TIME_COST = 2"
definition MIN_MEMORY_COST_KB :: int where "MIN_MEMORY_COST_KB = 19456"
definition MIN_HASH_LEN :: int where "MIN_HASH_LEN = 32"
definition MIN_SALT_LEN :: int where "MIN_SALT_LEN = 16"
definition MAX_TIME_COST :: int where "MAX_TIME_COST = 20"
definition MAX_MEMORY_COST_KB :: int where "MAX_MEMORY_COST_KB = 2 * 1024 * 1024"
definition MAX_HASH_LEN :: int where "MAX_HASH_LEN = 64"
definition MAX_SALT_LEN :: int where "MAX_SALT_LEN = 64"
definition MAX_PARALLELISM :: int where "MAX_PARALLELISM = 64"
definition MAX_IMPORT_TIME_COST :: int where "MAX_IMPORT_TIME_COST = 3"
definition MAX_IMPORT_MEMORY_COST_KB :: int where "MAX_IMPORT_MEMORY_COST_KB = 262144"
definition MAX_IMPORT_PARALLELISM :: int where "MAX_IMPORT_PARALLELISM = 4"

named_theorems kdf_limits \<open>the constants of the parameter policy\<close>

lemmas [kdf_limits] = MIN_TIME_COST_def MIN_MEMORY_COST_KB_def MIN_HASH_LEN_def MIN_SALT_LEN_def
  MAX_TIME_COST_def MAX_MEMORY_COST_KB_def MAX_HASH_LEN_def MAX_SALT_LEN_def MAX_PARALLELISM_def
  MAX_IMPORT_TIME_COST_def MAX_IMPORT_MEMORY_COST_KB_def MAX_IMPORT_PARALLELISM_def

datatype kdf_algorithm = ARGON2ID

datatype kdf_profile = HIGH_MEMORY | BALANCED

record kdf_params =
  kp_algorithm :: kdf_algorithm
  kp_time_cost :: int
  kp_memory_cost :: int
  kp_parallelism :: int
  kp_hash_len :: int
  kp_salt_len :: int

text \<open>The constrained field types \<open>TimeCost\<close>, \<open>MemoryCost\<close>, \<open>Parallelism\<close>, \<open>HashLen\<close>.\<close>

definition time_cost_ok :: "int \<Rightarrow> bool" where
  "time_cost_ok n \<longleftrightarrow> MIN_TIME_COST \<le> n \<and> n \<le> MAX_TIME_COST"

definition memory_cost_ok :: "int \<Rightarrow> bool" where
  "memory_cost_ok n \<longleftrightarrow> MIN_MEMORY_COST_KB \<le> n \<and> n \<le> MAX_MEMORY_COST_KB"

definition parallelism_ok :: "int \<Rightarrow> bool" where
  "parallelism_ok n \<longleftrightarrow> 1 \<le> n \<and> n \<le> MAX_PARALLELISM"

definition hash_len_ok :: "int \<Rightarrow> bool" where
  "hash_len_ok n \<longleftrightarrow> MIN_HASH_LEN \<le> n \<and> n \<le> MAX_HASH_LEN"

definition salt_len_ok :: "int \<Rightarrow> bool" where
  "salt_len_ok n \<longleftrightarrow> MIN_SALT_LEN \<le> n \<and> n \<le> MAX_SALT_LEN"

lemmas cost_ok_defs = time_cost_ok_def memory_cost_ok_def parallelism_ok_def hash_len_ok_def
  salt_len_ok_def

text \<open>\<open>KDFParams(...)\<close>: pydantic's \<open>ValidationError\<close> is a \<open>ValueError\<close>.\<close>

definition make_kdf_params ::
    "kdf_algorithm \<Rightarrow> int \<Rightarrow> int \<Rightarrow> int \<Rightarrow> int \<Rightarrow> int \<Rightarrow> kdf_params res" where
  "make_kdf_params algorithm time_cost memory_cost parallelism hash_len salt_len =
     (if time_cost_ok time_cost \<and> memory_cost_ok memory_cost \<and> parallelism_ok parallelism \<and>
         hash_len_ok hash_len \<and> salt_len_ok salt_len
      then Inr \<lparr>kp_algorithm = algorithm, kp_time_cost = time_cost, kp_memory_cost = memory_cost,
                kp_parallelism = parallelism, kp_hash_len = hash_len, kp_salt_len = salt_len\<rparr>
      else Inl ValueError)"

definition high_memory_params :: "kdf_params res" where
  "high_memory_params = make_kdf_params ARGON2ID 3 262144 4 32 16"

definition balanced_params :: "kdf_params res" where
  "balanced_params = make_kdf_params ARGON2ID 4 65536 4 32 16"

definition params_for_profile :: "kdf_profile \<Rightarrow> kdf_params res" where
  "params_for_profile profile =
     (if profile = HIGH_MEMORY then high_memory_params else balanced_params)"

section \<open>Derivation\<close>

text \<open>\<open>secrets.token_bytes\<close> is the argument \<open>token_bytes\<close>.\<close>

definition generate_salt :: "(nat \<Rightarrow> bytes) \<Rightarrow> int \<Rightarrow> bytes res" where
  "generate_salt token_bytes n =
     (if n < MIN_SALT_LEN then Inl KDFError else Inr (token_bytes (nat n)))"

definition validate_params :: "kdf_params \<Rightarrow> unit res" where
  "validate_params params =
     (if kp_algorithm params \<noteq> ARGON2ID then Inl KDFError
      else if \<not> (MIN_TIME_COST \<le> kp_time_cost params \<and> kp_time_cost params \<le> MAX_TIME_COST)
      then Inl KDFError
      else if \<not> (MIN_MEMORY_COST_KB \<le> kp_memory_cost params \<and>
                 kp_memory_cost params \<le> MAX_MEMORY_COST_KB)
      then Inl KDFError
      else if \<not> (1 \<le> kp_parallelism params \<and> kp_parallelism params \<le> MAX_PARALLELISM)
      then Inl KDFError
      else if \<not> (MIN_HASH_LEN \<le> kp_hash_len params \<and> kp_hash_len params \<le> MAX_HASH_LEN)
      then Inl KDFError
      else if \<not> (MIN_SALT_LEN \<le> kp_salt_len params \<and> kp_salt_len params \<le> MAX_SALT_LEN)
      then Inl KDFError
      else Inr ())"

datatype argon2_result = Argon2Hash bytes | Argon2Error | Argon2TypeError

type_synonym argon2 = "bool \<Rightarrow> bytes \<Rightarrow> bytes \<Rightarrow> kdf_params \<Rightarrow> argon2_result"

text \<open>
  \<open>derive_key\<close>. The mutable buffer is tried first; on a \<open>TypeError\<close> a \<open>bytes\<close> copy. The
  \<open>finally\<close> wipes both copies; the result is moved into a fresh \<open>SecureBytes\<close>.
\<close>

definition derive_key :: "argon2 \<Rightarrow> bool \<Rightarrow> secure_bytes \<Rightarrow> bytes \<Rightarrow> kdf_params \<Rightarrow> secure_bytes res"
where
  "derive_key argon2 mlock_ok passphrase salt params =
     bindE (validate_params params) (\<lambda>_.
     if int (length salt) \<noteq> kp_salt_len params then Inl KDFError
     else if sb_closed passphrase then Inl KDFError
     else bindE (sb_view passphrase) (\<lambda>passphrase_buf.
       case argon2 True passphrase_buf salt params of
         Argon2Hash raw \<Rightarrow> Inr (sb_from_bytes mlock_ok raw)
       | Argon2Error \<Rightarrow> Inl KDFError
       | Argon2TypeError \<Rightarrow>
           (case argon2 False passphrase_buf salt params of
              Argon2Hash raw \<Rightarrow> Inr (sb_from_bytes mlock_ok raw)
            | Argon2Error \<Rightarrow> Inl KDFError
            | Argon2TypeError \<Rightarrow> Inl TypeError)))"

definition default_params :: "kdf_params res" where
  "default_params = high_memory_params"

section \<open>What the policy guarantees\<close>

definition kdf_params_ok :: "kdf_params \<Rightarrow> bool" where
  "kdf_params_ok p \<longleftrightarrow> time_cost_ok (kp_time_cost p) \<and> memory_cost_ok (kp_memory_cost p) \<and>
     parallelism_ok (kp_parallelism p) \<and> hash_len_ok (kp_hash_len p) \<and> salt_len_ok (kp_salt_len p)"

lemma kdf_algorithm_unique [simp]: "a = ARGON2ID"
  by (cases a) simp

lemma make_kdf_params_Inr:
  "make_kdf_params a t m p h s = Inr ps \<longleftrightarrow>
     kdf_params_ok ps \<and> ps = \<lparr>kp_algorithm = a, kp_time_cost = t, kp_memory_cost = m,
       kp_parallelism = p, kp_hash_len = h, kp_salt_len = s\<rparr>"
  by (auto simp: make_kdf_params_def kdf_params_ok_def)

lemma validate_params_iff [simp]: "validate_params p = Inr u \<longleftrightarrow> kdf_params_ok p"
  by (auto simp: validate_params_def kdf_params_ok_def cost_ok_defs)

lemma validate_params_Inl [simp]: "validate_params p = Inl e \<longleftrightarrow> \<not> kdf_params_ok p \<and> e = KDFError"
  by (auto simp: validate_params_def kdf_params_ok_def cost_ok_defs)

lemma profile_values:
  "high_memory_params = Inr \<lparr>kp_algorithm = ARGON2ID, kp_time_cost = 3, kp_memory_cost = 262144,
     kp_parallelism = 4, kp_hash_len = 32, kp_salt_len = 16\<rparr>"
  "balanced_params = Inr \<lparr>kp_algorithm = ARGON2ID, kp_time_cost = 4, kp_memory_cost = 65536,
     kp_parallelism = 4, kp_hash_len = 32, kp_salt_len = 16\<rparr>"
  by (simp_all add: high_memory_params_def balanced_params_def make_kdf_params_def cost_ok_defs kdf_limits)

text \<open>
  The key Argon2 computes, whichever form of the secret it accepts; \<open>derive_key\<close> returns it
  exactly when the parameters and the salt conform and the passphrase is still open.
\<close>

definition argon2_value :: "argon2 \<Rightarrow> bytes \<Rightarrow> bytes \<Rightarrow> kdf_params \<Rightarrow> bytes option" where
  "argon2_value argon2 pw salt params = (case argon2 True pw salt params of
       Argon2Hash raw \<Rightarrow> Some raw
     | Argon2Error \<Rightarrow> None
     | Argon2TypeError \<Rightarrow> (case argon2 False pw salt params of Argon2Hash raw \<Rightarrow> Some raw | _ \<Rightarrow> None))"

lemma derive_key_Inr:
  "derive_key argon2 m pw salt params = Inr k \<longleftrightarrow>
     kdf_params_ok params \<and> int (length salt) = kp_salt_len params \<and> \<not> sb_closed pw \<and>
     (\<exists>raw. argon2_value argon2 (take (sb_size pw) (sb_buffer pw)) salt params = Some raw \<and>
        k = sb_from_bytes m raw)"
  by (auto simp: derive_key_def argon2_value_def sb_view_def split: argon2_result.splits)

lemma derive_key_errors:
  "derive_key argon2 m pw salt params = Inl e \<Longrightarrow> e = KDFError \<or> e = TypeError"
  by (auto simp: derive_key_def bindE_eq_Inl sb_view_def split: if_splits argon2_result.splits)

lemma generate_salt_Inr [simp]:
  "generate_salt rnd n = Inr s \<longleftrightarrow> MIN_SALT_LEN \<le> n \<and> s = rnd (nat n)"
  by (auto simp: generate_salt_def)

end
