(* ===== verification/Aead.thy ===== *)
theory Aead
  imports Secure_Bytes
begin

text \<open>
  \<open>security/aead.py\<close>: authenticated encryption. The two ciphers of PyCA's \<open>cryptography\<close>
  are the fields of an argument: \<open>seal\<close> is \<open>aead.encrypt\<close> and \<open>unseal\<close> is
  \<open>aead.decrypt\<close>, \<open>None\<close> standing for \<open>InvalidTag\<close>.
\<close>

datatype cipher_algorithm = CHACHA20_POLY1305 | AES_256_GCM

record aead_lib =
  seal :: "cipher_algorithm \<Rightarrow> bytes \<Rightarrow> bytes \<Rightarrow> bytes \<Rightarrow> bytes \<Rightarrow> bytes"
  unseal :: "cipher_algorithm \<Rightarrow> bytes \<Rightarrow> bytes \<Rightarrow> bytes \<Rightarrow> bytes \<Rightarrow> bytes option"

definition KEY_LEN :: nat where "KEY_LEN = 32"
definition NONCE_LEN :: nat where "NONCE_LEN = 12"

definition generate_nonce :: "(nat \<Rightarrow> bytes) \<Rightarrow> bytes" where
  "generate_nonce token_bytes = token_bytes NONCE_LEN"

definition check_inputs :: "secure_bytes \<Rightarrow> bytes \<Rightarrow> unit res" where
  "check_inputs key nonce =
     (if sb_closed key then Inl DecryptionError
      else if sb_size key \<noteq> KEY_LEN then Inl DecryptionError
      else if length nonce \<noteq> NONCE_LEN then Inl DecryptionError
      else Inr ())"

definition aead_encrypt ::
    "aead_lib \<Rightarrow> bytes \<Rightarrow> secure_bytes \<Rightarrow> bytes \<Rightarrow> bytes \<Rightarrow> cipher_algorithm \<Rightarrow> bytes res" where
  "aead_encrypt lib plaintext key nonce ad cipher =
     bindE (check_inputs key nonce) (\<lambda>_.
     bindE (sb_view key) (\<lambda>k.
     Inr (seal lib cipher k nonce ad plaintext)))"

definition aead_decrypt ::
    "aead_lib \<Rightarrow> bytes \<Rightarrow> secure_bytes \<Rightarrow> bytes \<Rightarrow> bytes \<Rightarrow> cipher_algorithm \<Rightarrow> bytes res" where
  "aead_decrypt lib ciphertext key nonce ad cipher =
     bindE (check_inputs key nonce) (\<lambda>_.
     bindE (sb_view key) (\<lambda>k.
     case unseal lib cipher k nonce ad ciphertext of
       Some pt \<Rightarrow> Inr pt
     | None \<Rightarrow> Inl DecryptionError))"

section \<open>Facts about the wrapper\<close>

definition usable_key :: "secure_bytes \<Rightarrow> bool" where
  "usable_key key \<longleftrightarrow> \<not> sb_closed key \<and> sb_size key = KEY_LEN"

lemma check_inputs_Inr [simp]:
  "check_inputs key nonce = Inr u \<longleftrightarrow> usable_key key \<and> length nonce = NONCE_LEN"
  by (auto simp: check_inputs_def usable_key_def)

lemma check_inputs_Inl:
  "check_inputs key nonce = Inl e \<longleftrightarrow> \<not> (usable_key key \<and> length nonce = NONCE_LEN) \<and> e = DecryptionError"
  by (auto simp: check_inputs_def usable_key_def)

definition key_bytes :: "secure_bytes \<Rightarrow> bytes" where
  "key_bytes key = take (sb_size key) (sb_buffer key)"

lemma sb_view_usable [simp]: "usable_key key \<Longrightarrow> sb_view key = Inr (key_bytes key)"
  by (simp add: usable_key_def sb_view_def key_bytes_def)

lemma key_bytes_from_bytes [simp]: "key_bytes (sb_from_bytes m bs) = bs"
  by (simp add: key_bytes_def sb_from_bytes_eq)

lemma usable_key_from_bytes [simp]: "usable_key (sb_from_bytes m bs) \<longleftrightarrow> length bs = KEY_LEN"
  by (auto simp: usable_key_def)

lemma aead_encrypt_Inr:
  "aead_encrypt lib pt key nonce ad c = Inr ct \<longleftrightarrow>
     usable_key key \<and> length nonce = NONCE_LEN \<and> ct = seal lib c (key_bytes key) nonce ad pt"
  by (auto simp: aead_encrypt_def)

lemma aead_decrypt_Inr:
  "aead_decrypt lib ct key nonce ad c = Inr pt \<longleftrightarrow>
     usable_key key \<and> length nonce = NONCE_LEN \<and> unseal lib c (key_bytes key) nonce ad ct = Some pt"
  by (auto simp: aead_decrypt_def split: option.splits)

lemma aead_decrypt_error: "aead_decrypt lib ct key nonce ad c = Inl e \<Longrightarrow> e = DecryptionError"
  by (auto simp: aead_decrypt_def bindE_eq_Inl check_inputs_Inl split: option.splits)

text \<open>
  The documented behaviour of the library the properties name as a hypothesis: \<open>decrypt\<close>
  inverts \<open>encrypt\<close> under the same key, nonce and associated data.
\<close>

definition aead_correct :: "aead_lib \<Rightarrow> bool" where
  "aead_correct lib \<longleftrightarrow> (\<forall>c k n ad pt. unseal lib c k n ad (seal lib c k n ad pt) = Some pt)"

text \<open>
  And its authenticity: what opens under a key, nonce and associated data was sealed under
  exactly these. It is a computational assumption, stated as an idealisation.
\<close>

definition aead_authentic :: "aead_lib \<Rightarrow> bool" where
  "aead_authentic lib \<longleftrightarrow> (\<forall>c k n ad ct pt. unseal lib c k n ad ct = Some pt \<longrightarrow>
     ct = seal lib c k n ad pt)"

text \<open>
  A concrete library for the witnesses: the ciphertext carries the key, nonce and associated
  data it was sealed under, length-prefixed, so it satisfies both laws. It is no cipher.
\<close>

fun unary :: "bytes \<Rightarrow> bytes" where
  "unary [] = [CHR 0x00]"
| "unary (b # bs) = CHR 0x01 # b # unary bs"

definition tagged_seal :: "cipher_algorithm \<Rightarrow> bytes \<Rightarrow> bytes \<Rightarrow> bytes \<Rightarrow> bytes \<Rightarrow> bytes" where
  "tagged_seal c k n ad pt = (if c = AES_256_GCM then CHR 0x01 else CHR 0x00) #
     unary k @ unary n @ unary ad @ pt"

definition tagged_lib :: aead_lib where
  "tagged_lib = \<lparr>seal = tagged_seal,
     unseal = (\<lambda>c k n ad ct.
       let pre = tagged_seal c k n ad [] in
       if take (length pre) ct = pre then Some (drop (length pre) ct) else None)\<rparr>"

lemma tagged_seal_split: "tagged_seal c k n ad pt = tagged_seal c k n ad [] @ pt"
  by (simp add: tagged_seal_def)

lemma tagged_lib_correct: "aead_correct tagged_lib"
  unfolding aead_correct_def
proof (intro allI)
  fix c k n ad pt
  show "unseal tagged_lib c k n ad (seal tagged_lib c k n ad pt) = Some pt"
    by (simp add: tagged_lib_def Let_def tagged_seal_split [of c k n ad pt])
qed

lemma tagged_lib_authentic: "aead_authentic tagged_lib"
  unfolding aead_authentic_def tagged_lib_def
  by (auto simp: Let_def split: if_splits) (metis append_take_drop_id tagged_seal_split)

end
