(* ===== verification/Vault_Model.thy ===== *)
theory Vault_Model
  imports Kdf Aead Utf8
begin

text \<open>
  \<open>models/vault.py\<close> and the fingerprint rule of \<open>models/key_info.py\<close>: the header of a vault,
  its key slots and the manifest entries, with their validators. A validator returns the
  model object pydantic builds or its \<open>ValidationError\<close>, a \<open>ValueError\<close>.

  \<open>model_dump(mode="json", exclude_none=True)\<close> of a header is a JSON value here, and
  \<open>model_validate\<close> reads one; the coercion pydantic applies to an integer field is the
  argument \<open>as_int\<close>, of which the properties assume only that a JSON integer is read as
  itself.
\<close>

section \<open>Fingerprints\<close>

definition FINGERPRINT_LENGTH :: nat where "FINGERPRINT_LENGTH = 40"

definition normalise_fingerprint :: "str \<Rightarrow> str res" where
  "normalise_fingerprint v = (let u = upper v in
     if length u \<noteq> FINGERPRINT_LENGTH \<or> \<not> list_all is_upper_hex u then Inl ValueError else Inr u)"

definition fingerprint_ok :: "str \<Rightarrow> bool" where
  "fingerprint_ok fp \<longleftrightarrow> length fp = FINGERPRINT_LENGTH \<and> list_all is_upper_hex fp"

lemma upper_upper [simp]: "upper_char (upper_char c) = upper_char c"
proof -
  have "code (char_of (code c - 32) :: char) = code c - 32" by (simp add: trans_less_add1 less_imp_diff_less)
  then show ?thesis by (cases "97 \<le> code c \<and> code c \<le> 122") (auto simp: upper_char_def)
qed

lemma upper_char_hex: "is_upper_hex c \<Longrightarrow> upper_char c = c"
  by (auto simp: is_upper_hex_def is_digit_def upper_char_def)

lemma upper_fingerprint [simp]: "fingerprint_ok fp \<Longrightarrow> upper fp = fp"
  by (auto simp: fingerprint_ok_def list_all_iff upper_char_hex intro: map_idI)

lemma normalise_fingerprint_Inr:
  "normalise_fingerprint v = Inr fp \<longleftrightarrow> fp = upper v \<and> fingerprint_ok fp"
  by (auto simp: normalise_fingerprint_def fingerprint_ok_def Let_def)

lemma normalise_fingerprint_ok [simp]: "fingerprint_ok fp \<Longrightarrow> normalise_fingerprint fp = Inr fp"
  by (simp add: normalise_fingerprint_Inr)

lemma upper_hex_ascii: "is_upper_hex c \<Longrightarrow> code c < 128"
  by (auto simp: is_upper_hex_def is_digit_def)

lemma py_len_fingerprint [simp]: "fingerprint_ok fp \<Longrightarrow> py_len fp = FINGERPRINT_LENGTH"
  by (auto simp: fingerprint_ok_def list_all_iff upper_hex_ascii intro!: py_len_ascii [THEN trans])

lemma normalise_fingerprint_error: "normalise_fingerprint v = Inl e \<Longrightarrow> e = ValueError"
  by (auto simp: normalise_fingerprint_def Let_def split: if_splits)

section \<open>Constants\<close>

definition VAULT_FORMAT_TAG :: str where "VAULT_FORMAT_TAG = ''GPGMEISTER_VAULT''"
definition VAULT_FORMAT_VERSION :: int where "VAULT_FORMAT_VERSION = 2"
definition VAULT_FORMAT_VERSION_SLOTS :: int where "VAULT_FORMAT_VERSION_SLOTS = 3"
definition SUPPORTED_VAULT_VERSIONS :: "int list" where
  "SUPPORTED_VAULT_VERSIONS = [VAULT_FORMAT_VERSION, VAULT_FORMAT_VERSION_SLOTS]"
definition MAX_VAULT_KEY_SLOTS :: nat where "MAX_VAULT_KEY_SLOTS = 8"
definition MAX_WRAPPED_KEY_LENGTH :: nat where "MAX_WRAPPED_KEY_LENGTH = 16 * 1024"
definition MAX_VAULT_SLOT_LABEL_LENGTH :: nat where "MAX_VAULT_SLOT_LABEL_LENGTH = 128"
definition MAX_VAULT_KEYS :: nat where "MAX_VAULT_KEYS = 1024"
definition MAX_VAULT_USER_IDS :: nat where "MAX_VAULT_USER_IDS = 16"
definition MAX_VAULT_USER_ID_LENGTH :: nat where "MAX_VAULT_USER_ID_LENGTH = 512"
definition MAX_VAULT_DESCRIPTION_LENGTH :: nat where "MAX_VAULT_DESCRIPTION_LENGTH = 4096"
definition MAX_VAULT_CREATED_BY_LENGTH :: nat where "MAX_VAULT_CREATED_BY_LENGTH = 256"
definition MAX_VAULT_ARMOR_LENGTH :: nat where "MAX_VAULT_ARMOR_LENGTH = 8 * 1024 * 1024"

section \<open>The header models\<close>

definition validate_nonce_b64 :: "str \<Rightarrow> str res" where
  "validate_nonce_b64 v = (case b64decode v of
       None \<Rightarrow> Inl ValueError
     | Some raw \<Rightarrow> if length raw \<noteq> NONCE_LEN then Inl ValueError else Inr v)"

record cipher_params =
  cp_algorithm :: cipher_algorithm
  cp_nonce_b64 :: str

definition check_cipher_params :: "cipher_params \<Rightarrow> cipher_params res" where
  "check_cipher_params c = bindE (validate_nonce_b64 (cp_nonce_b64 c)) (\<lambda>_. Inr c)"

text \<open>The properties that decode a stored base64 field raise \<open>ValueError\<close> if it is not valid.\<close>

definition cp_nonce :: "cipher_params \<Rightarrow> bytes res" where
  "cp_nonce c = of_option ValueError (b64decode (cp_nonce_b64 c))"

record kdf_fields =
  kf_algorithm :: kdf_algorithm
  kf_salt_b64 :: str
  kf_time_cost :: int
  kf_memory_cost :: int
  kf_parallelism :: int
  kf_hash_len :: int

definition validate_salt :: "str \<Rightarrow> str res" where
  "validate_salt v = (case b64decode v of
       None \<Rightarrow> Inl ValueError
     | Some raw \<Rightarrow>
         if int (length raw) < MIN_SALT_LEN \<or> int (length raw) > MAX_SALT_LEN then Inl ValueError
         else Inr v)"

definition check_kdf_fields :: "kdf_fields \<Rightarrow> kdf_fields res" where
  "check_kdf_fields k =
     bindE (validate_salt (kf_salt_b64 k)) (\<lambda>_.
     if time_cost_ok (kf_time_cost k) \<and> memory_cost_ok (kf_memory_cost k) \<and>
        parallelism_ok (kf_parallelism k) \<and> hash_len_ok (kf_hash_len k)
     then Inr k else Inl ValueError)"

definition kf_salt :: "kdf_fields \<Rightarrow> bytes res" where
  "kf_salt k = of_option ValueError (b64decode (kf_salt_b64 k))"

definition kdf_fields_from_params :: "kdf_params \<Rightarrow> bytes \<Rightarrow> kdf_fields res" where
  "kdf_fields_from_params params salt = check_kdf_fields
     \<lparr>kf_algorithm = kp_algorithm params, kf_salt_b64 = b64encode salt,
      kf_time_cost = kp_time_cost params, kf_memory_cost = kp_memory_cost params,
      kf_parallelism = kp_parallelism params, kf_hash_len = kp_hash_len params\<rparr>"

definition kdf_fields_to_params :: "kdf_fields \<Rightarrow> kdf_params res" where
  "kdf_fields_to_params k = bindE (kf_salt k) (\<lambda>salt.
     make_kdf_params (kf_algorithm k) (kf_time_cost k) (kf_memory_cost k) (kf_parallelism k)
       (kf_hash_len k) (int (length salt)))"

datatype vault_slot_type = PASSPHRASE | OPENPGP

record vault_key_slot =
  vs_type :: vault_slot_type
  vs_wrapped_key_b64 :: str
  vs_kdf :: "kdf_fields option"
  vs_nonce_b64 :: "str option"
  vs_fingerprint :: "str option"
  vs_label :: str

definition validate_wrapped :: "nat \<Rightarrow> str \<Rightarrow> str res" where
  "validate_wrapped limit v = (case b64decode v of
       None \<Rightarrow> Inl ValueError
     | Some raw \<Rightarrow>
         if raw = [] then Inl ValueError
         else if length raw > limit then Inl ValueError
         else Inr v)"

definition optionE :: "('a \<Rightarrow> 'b res) \<Rightarrow> 'a option \<Rightarrow> 'b option res" where
  "optionE f m = (case m of None \<Rightarrow> Inr None | Some x \<Rightarrow> bindE (f x) (\<lambda>y. Inr (Some y)))"

definition validate_slot_shape :: "vault_key_slot \<Rightarrow> vault_key_slot res" where
  "validate_slot_shape s =
     (if vs_type s = PASSPHRASE then
        (if vs_kdf s = None \<or> vs_nonce_b64 s = None then Inl ValueError
         else if vs_fingerprint s \<noteq> None then Inl ValueError
         else Inr s)
      else
        (if vs_fingerprint s = None then Inl ValueError
         else if vs_kdf s \<noteq> None \<or> vs_nonce_b64 s \<noteq> None then Inl ValueError
         else Inr s))"

text \<open>
  \<open>VaultKeySlot(...)\<close>: the field validators in order, then the model validator. A text with
  a lone surrogate is no \<open>str\<close> to pydantic.
\<close>

definition check_vault_key_slot :: "vault_key_slot \<Rightarrow> vault_key_slot res" where
  "check_vault_key_slot s =
     bindE (validate_wrapped MAX_WRAPPED_KEY_LENGTH (vs_wrapped_key_b64 s)) (\<lambda>_.
     bindE (optionE check_kdf_fields (vs_kdf s)) (\<lambda>_.
     bindE (optionE validate_nonce_b64 (vs_nonce_b64 s)) (\<lambda>_.
     bindE (optionE normalise_fingerprint (vs_fingerprint s)) (\<lambda>fp.
     if py_len (vs_label s) > MAX_VAULT_SLOT_LABEL_LENGTH \<or> \<not> utf8_ok (vs_label s)
     then Inl ValueError
     else validate_slot_shape (s\<lparr>vs_fingerprint := fp\<rparr>)))))"

definition vs_wrapped_key :: "vault_key_slot \<Rightarrow> bytes res" where
  "vs_wrapped_key s = of_option ValueError (b64decode (vs_wrapped_key_b64 s))"

definition vs_nonce :: "vault_key_slot \<Rightarrow> bytes res" where
  "vs_nonce s = (case vs_nonce_b64 s of None \<Rightarrow> Inl ValueError
     | Some n \<Rightarrow> of_option ValueError (b64decode n))"

record vault_header =
  vh_format :: str
  vh_version :: int
  vh_kdf :: "kdf_fields option"
  vh_cipher :: cipher_params
  vh_key_slots :: "vault_key_slot list option"

definition validate_version_shape :: "vault_header \<Rightarrow> vault_header res" where
  "validate_version_shape h =
     (if vh_version h = VAULT_FORMAT_VERSION then
        (if vh_kdf h = None then Inl ValueError
         else if vh_key_slots h \<noteq> None then Inl ValueError
         else Inr h)
      else if vh_key_slots h = None \<or> vh_key_slots h = Some [] then Inl ValueError
      else if vh_kdf h \<noteq> None then Inl ValueError
      else Inr h)"

definition check_slots :: "vault_key_slot list \<Rightarrow> vault_key_slot list res" where
  "check_slots slots =
     (if length slots > MAX_VAULT_KEY_SLOTS then Inl ValueError else mapE check_vault_key_slot slots)"

definition check_vault_header :: "vault_header \<Rightarrow> vault_header res" where
  "check_vault_header h =
     bindE (guardE (vh_format h = VAULT_FORMAT_TAG) ValueError) (\<lambda>_.
     bindE (guardE (vh_version h \<in> set SUPPORTED_VAULT_VERSIONS) ValueError) (\<lambda>_.
     bindE (optionE check_kdf_fields (vh_kdf h)) (\<lambda>_.
     bindE (check_cipher_params (vh_cipher h)) (\<lambda>_.
     bindE (optionE check_slots (vh_key_slots h)) (\<lambda>slots.
     validate_version_shape (h\<lparr>vh_key_slots := slots\<rparr>))))))"

definition uses_key_slots :: "vault_header \<Rightarrow> bool" where
  "uses_key_slots h \<longleftrightarrow> vh_key_slots h \<noteq> None \<and> vh_key_slots h \<noteq> Some []"

definition slots_of :: "vault_header \<Rightarrow> vault_slot_type \<Rightarrow> vault_key_slot list" where
  "slots_of h t = filter (\<lambda>s. vs_type s = t) (case vh_key_slots h of None \<Rightarrow> [] | Some ss \<Rightarrow> ss)"

section \<open>Manifest entries\<close>

text \<open>A \<open>datetime\<close> is its POSIX time stamp.\<close>

record vault_key_entry =
  ve_fingerprint :: str
  ve_user_ids :: "str list"
  ve_has_private_key :: bool
  ve_is_stub :: bool
  ve_created_at :: int
  ve_expires_at :: "int option"

definition check_vault_key_entry :: "vault_key_entry \<Rightarrow> vault_key_entry res" where
  "check_vault_key_entry e =
     (if py_len (ve_fingerprint e) \<noteq> FINGERPRINT_LENGTH then Inl ValueError
      else bindE (normalise_fingerprint (ve_fingerprint e)) (\<lambda>fp.
        if length (ve_user_ids e) > MAX_VAULT_USER_IDS then Inl ValueError
        else if \<not> list_all (\<lambda>u. py_len u \<le> MAX_VAULT_USER_ID_LENGTH) (ve_user_ids e)
        then Inl ValueError
        else Inr (e\<lparr>ve_fingerprint := fp\<rparr>)))"

definition ve_primary_user_id :: "vault_key_entry \<Rightarrow> str" where
  "ve_primary_user_id e = (case ve_user_ids e of u # _ \<Rightarrow> u
     | [] \<Rightarrow> drop (length (ve_fingerprint e) - 16) (ve_fingerprint e))"

record vault_manifest =
  vm_created_by :: str
  vm_created_at :: int
  vm_app_version :: str
  vm_description :: str
  vm_keys :: "vault_key_entry list"

definition check_vault_manifest :: "vault_manifest \<Rightarrow> vault_manifest res" where
  "check_vault_manifest m =
     (if py_len (vm_created_by m) > MAX_VAULT_CREATED_BY_LENGTH then Inl ValueError
      else if py_len (vm_description m) > MAX_VAULT_DESCRIPTION_LENGTH then Inl ValueError
      else if length (vm_keys m) > MAX_VAULT_KEYS then Inl ValueError
      else bindE (mapE check_vault_key_entry (vm_keys m)) (\<lambda>ks. Inr (m\<lparr>vm_keys := ks\<rparr>)))"

section \<open>Validation is stable\<close>

lemma validate_salt_Inr: "validate_salt v = Inr w \<longleftrightarrow> w = v \<and>
    (\<exists>raw. b64decode v = Some raw \<and> MIN_SALT_LEN \<le> int (length raw) \<and> int (length raw) \<le> MAX_SALT_LEN)"
  by (auto simp: validate_salt_def split: option.splits if_splits)

lemma validate_nonce_Inr: "validate_nonce_b64 v = Inr w \<longleftrightarrow> w = v \<and>
    (\<exists>raw. b64decode v = Some raw \<and> length raw = NONCE_LEN)"
  by (auto simp: validate_nonce_b64_def split: option.splits if_splits)

lemma validate_wrapped_Inr: "validate_wrapped n v = Inr w \<longleftrightarrow> w = v \<and>
    (\<exists>raw. b64decode v = Some raw \<and> raw \<noteq> [] \<and> length raw \<le> n)"
  by (auto simp: validate_wrapped_def split: option.splits if_splits)

lemma check_kdf_fields_Inr: "check_kdf_fields k = Inr k' \<longleftrightarrow> k' = k \<and>
    validate_salt (kf_salt_b64 k) = Inr (kf_salt_b64 k) \<and> time_cost_ok (kf_time_cost k) \<and>
    memory_cost_ok (kf_memory_cost k) \<and> parallelism_ok (kf_parallelism k) \<and> hash_len_ok (kf_hash_len k)"
  by (auto simp: check_kdf_fields_def validate_salt_Inr)

lemma check_cipher_params_Inr: "check_cipher_params c = Inr c' \<longleftrightarrow> c' = c \<and>
    validate_nonce_b64 (cp_nonce_b64 c) = Inr (cp_nonce_b64 c)"
  by (auto simp: check_cipher_params_def validate_nonce_Inr)

lemma optionE_Inr: "optionE f m = Inr r \<longleftrightarrow>
    (m = None \<and> r = None) \<or> (\<exists>x y. m = Some x \<and> f x = Inr y \<and> r = Some y)"
  by (auto simp: optionE_def split: option.splits)

lemma validate_slot_shape_id: "validate_slot_shape s = Inr s' \<Longrightarrow> s' = s"
  by (auto simp: validate_slot_shape_def split: if_splits)

lemma normalise_idem: "normalise_fingerprint v = Inr fp \<Longrightarrow> normalise_fingerprint fp = Inr fp"
  by (metis normalise_fingerprint_Inr normalise_fingerprint_ok)

lemma check_vault_key_slot_fields: "check_vault_key_slot s = Inr s' \<longleftrightarrow>
    validate_wrapped MAX_WRAPPED_KEY_LENGTH (vs_wrapped_key_b64 s) = Inr (vs_wrapped_key_b64 s) \<and>
    optionE check_kdf_fields (vs_kdf s) = Inr (vs_kdf s) \<and>
    optionE validate_nonce_b64 (vs_nonce_b64 s) = Inr (vs_nonce_b64 s) \<and>
    optionE normalise_fingerprint (vs_fingerprint s) = Inr (vs_fingerprint s') \<and>
    py_len (vs_label s) \<le> MAX_VAULT_SLOT_LABEL_LENGTH \<and> utf8_ok (vs_label s) \<and>
    s' = s\<lparr>vs_fingerprint := vs_fingerprint s'\<rparr> \<and> validate_slot_shape s' = Inr s'"
  by (auto simp: check_vault_key_slot_def optionE_Inr validate_wrapped_Inr validate_nonce_Inr
      check_kdf_fields_Inr dest: validate_slot_shape_id split: if_splits)

lemma check_vault_key_slot_idem:
  assumes "check_vault_key_slot s = Inr s'" shows "check_vault_key_slot s' = Inr s'"
proof -
  have f: "vs_wrapped_key_b64 s' = vs_wrapped_key_b64 s" "vs_kdf s' = vs_kdf s"
      "vs_nonce_b64 s' = vs_nonce_b64 s" "vs_label s' = vs_label s"
    using assms unfolding check_vault_key_slot_fields by (metis vault_key_slot.ext_inject
        vault_key_slot.surjective vault_key_slot.update_convs(5))+
  have "optionE normalise_fingerprint (vs_fingerprint s') = Inr (vs_fingerprint s')"
    using assms unfolding check_vault_key_slot_fields by (auto simp: optionE_Inr intro: normalise_idem)
  then show ?thesis using assms f unfolding check_vault_key_slot_fields by simp
qed

lemma mapE_idem:
  assumes "\<And>x y. f x = Inr y \<Longrightarrow> f y = Inr y" and "mapE f xs = Inr ys" shows "mapE f ys = Inr ys"
  using assms(2) by (induction xs arbitrary: ys) (auto intro: assms(1))

lemma check_slots_idem: "check_slots ss = Inr ts \<Longrightarrow> check_slots ts = Inr ts"
  by (auto simp: check_slots_def mapE_length split: if_splits
      intro: mapE_idem check_vault_key_slot_idem)

lemma validate_version_shape_id: "validate_version_shape h = Inr h' \<Longrightarrow> h' = h"
  by (auto simp: validate_version_shape_def split: if_splits)

lemma check_vault_header_fields: "check_vault_header h = Inr h' \<longleftrightarrow>
    vh_format h = VAULT_FORMAT_TAG \<and> vh_version h \<in> set SUPPORTED_VAULT_VERSIONS \<and>
    optionE check_kdf_fields (vh_kdf h) = Inr (vh_kdf h) \<and>
    check_cipher_params (vh_cipher h) = Inr (vh_cipher h) \<and>
    optionE check_slots (vh_key_slots h) = Inr (vh_key_slots h') \<and>
    h' = h\<lparr>vh_key_slots := vh_key_slots h'\<rparr> \<and> validate_version_shape h' = Inr h'"
  by (auto simp: check_vault_header_def optionE_Inr check_cipher_params_Inr check_kdf_fields_Inr
      simp del: set_simps dest: validate_version_shape_id)

lemma check_vault_header_idem:
  assumes "check_vault_header h = Inr h'" shows "check_vault_header h' = Inr h'"
proof -
  have f: "vh_format h' = vh_format h" "vh_version h' = vh_version h" "vh_kdf h' = vh_kdf h"
      "vh_cipher h' = vh_cipher h"
    using assms unfolding check_vault_header_fields by (metis vault_header.ext_inject
        vault_header.surjective vault_header.update_convs(5))+
  have "optionE check_slots (vh_key_slots h') = Inr (vh_key_slots h')"
    using assms unfolding check_vault_header_fields by (auto simp: optionE_Inr intro: check_slots_idem)
  then show ?thesis using assms f unfolding check_vault_header_fields by simp
qed

text \<open>A header object that exists: pydantic built it.\<close>

definition vault_header_ok :: "vault_header \<Rightarrow> bool" where
  "vault_header_ok h \<longleftrightarrow> check_vault_header h = Inr h"

definition vault_key_slot_ok :: "vault_key_slot \<Rightarrow> bool" where
  "vault_key_slot_ok s \<longleftrightarrow> check_vault_key_slot s = Inr s"

lemma check_vault_header_ok: "check_vault_header h = Inr h' \<Longrightarrow> vault_header_ok h'"
  by (simp add: vault_header_ok_def check_vault_header_idem)

lemma check_vault_key_slot_ok: "check_vault_key_slot s = Inr s' \<Longrightarrow> vault_key_slot_ok s'"
  by (simp add: vault_key_slot_ok_def check_vault_key_slot_idem)

end
