(* ===== verification/Vault_Format.thy ===== *)
theory Vault_Format
  imports Vault_Model
begin

text \<open>
  \<open>security/vault_format.py\<close>: the binary frame of a vault. A header is written as canonical
  JSON (\<open>header_to_canonical_json\<close>), framed with its ciphertext (\<open>pack\<close>) and read back
  with every length, the magic, the version and the header model checked (\<open>unpack\<close>). The
  lemmas give the round trip, the exact layout of everything \<open>unpack\<close> accepts, and its
  errors.
\<close>

section \<open>Models as JSON\<close>

text \<open>\<open>model_dump(mode="json", exclude_none=True)\<close>: the set fields in declaration order.\<close>

definition set_fields :: "(str \<times> json option) list \<Rightarrow> json" where
  "set_fields fs = JObj (List.map_filter (\<lambda>p. map_option (Pair (fst p)) (snd p)) fs)"

fun cipher_value :: "cipher_algorithm \<Rightarrow> str" where
  "cipher_value CHACHA20_POLY1305 = ''chacha20-poly1305''"
| "cipher_value AES_256_GCM = ''aes-256-gcm''"

fun slot_type_value :: "vault_slot_type \<Rightarrow> str" where
  "slot_type_value PASSPHRASE = ''passphrase''"
| "slot_type_value OPENPGP = ''openpgp''"

definition kdf_value :: "kdf_algorithm \<Rightarrow> str" where
  "kdf_value a = ''argon2id''"

definition kdf_json :: "kdf_fields \<Rightarrow> json" where
  "kdf_json k = set_fields
     [(''algorithm'', Some (JStr (kdf_value (kf_algorithm k)))),
      (''salt_b64'', Some (JStr (kf_salt_b64 k))),
      (''time_cost'', Some (JInt (kf_time_cost k))),
      (''memory_cost'', Some (JInt (kf_memory_cost k))),
      (''parallelism'', Some (JInt (kf_parallelism k))),
      (''hash_len'', Some (JInt (kf_hash_len k)))]"

definition cipher_json :: "cipher_params \<Rightarrow> json" where
  "cipher_json c = set_fields
     [(''algorithm'', Some (JStr (cipher_value (cp_algorithm c)))),
      (''nonce_b64'', Some (JStr (cp_nonce_b64 c)))]"

definition slot_json :: "vault_key_slot \<Rightarrow> json" where
  "slot_json s = set_fields
     [(''type'', Some (JStr (slot_type_value (vs_type s)))),
      (''wrapped_key_b64'', Some (JStr (vs_wrapped_key_b64 s))),
      (''kdf'', map_option kdf_json (vs_kdf s)),
      (''nonce_b64'', map_option JStr (vs_nonce_b64 s)),
      (''fingerprint'', map_option JStr (vs_fingerprint s)),
      (''label'', Some (JStr (vs_label s)))]"

definition header_json :: "vault_header \<Rightarrow> json" where
  "header_json h = set_fields
     [(''format'', Some (JStr (vh_format h))),
      (''version'', Some (JInt (vh_version h))),
      (''kdf'', map_option kdf_json (vh_kdf h)),
      (''cipher'', Some (cipher_json (vh_cipher h))),
      (''key_slots'', map_option (\<lambda>ss. JArr (map slot_json ss)) (vh_key_slots h))]"

definition header_to_canonical_json :: "vault_header \<Rightarrow> bytes" where
  "header_to_canonical_json h = dumps (header_json h)"

section \<open>Models from JSON\<close>

text \<open>
  \<open>model_validate\<close> under \<open>extra="forbid"\<close>: an object with known fields only, each read by
  its type, an absent or \<open>null\<close> optional one being \<open>None\<close>. \<open>as_int\<close> is pydantic's coercion
  of a value to \<open>int\<close>; a string with a lone surrogate is not a valid \<open>str\<close> to it.
\<close>

definition obj_fields :: "str list \<Rightarrow> json \<Rightarrow> (str \<times> json) list res" where
  "obj_fields ks j = (case j of
       JObj ps \<Rightarrow> if list_all (\<lambda>p. fst p \<in> set ks) ps then Inr ps else Inl ValueError
     | _ \<Rightarrow> Inl ValueError)"

definition read_str :: "json \<Rightarrow> str res" where
  "read_str j = (case j of JStr s \<Rightarrow> if utf8_ok s then Inr s else Inl ValueError | _ \<Rightarrow> Inl ValueError)"

definition required :: "str \<Rightarrow> (json \<Rightarrow> 'a res) \<Rightarrow> (str \<times> json) list \<Rightarrow> 'a res" where
  "required k f ps = (case map_of ps k of None \<Rightarrow> Inl ValueError | Some v \<Rightarrow> f v)"

definition nullable :: "str \<Rightarrow> (json \<Rightarrow> 'a res) \<Rightarrow> (str \<times> json) list \<Rightarrow> 'a option res" where
  "nullable k f ps = (case map_of ps k of
       None \<Rightarrow> Inr None
     | Some JNull \<Rightarrow> Inr None
     | Some v \<Rightarrow> bindE (f v) (\<lambda>x. Inr (Some x)))"

definition defaulted :: "str \<Rightarrow> 'a \<Rightarrow> (json \<Rightarrow> 'a res) \<Rightarrow> (str \<times> json) list \<Rightarrow> 'a res" where
  "defaulted k d f ps = (case map_of ps k of None \<Rightarrow> Inr d | Some v \<Rightarrow> f v)"

definition read_kdf_algorithm :: "json \<Rightarrow> kdf_algorithm res" where
  "read_kdf_algorithm j = (if j = JStr (kdf_value ARGON2ID) then Inr ARGON2ID else Inl ValueError)"

definition read_cipher_algorithm :: "json \<Rightarrow> cipher_algorithm res" where
  "read_cipher_algorithm j =
     (if j = JStr (cipher_value CHACHA20_POLY1305) then Inr CHACHA20_POLY1305
      else if j = JStr (cipher_value AES_256_GCM) then Inr AES_256_GCM
      else Inl ValueError)"

definition read_slot_type :: "json \<Rightarrow> vault_slot_type res" where
  "read_slot_type j =
     (if j = JStr (slot_type_value PASSPHRASE) then Inr PASSPHRASE
      else if j = JStr (slot_type_value OPENPGP) then Inr OPENPGP
      else Inl ValueError)"

type_synonym int_coercion = "json \<Rightarrow> int option"

definition read_int :: "int_coercion \<Rightarrow> json \<Rightarrow> int res" where
  "read_int as_int j = of_option ValueError (as_int j)"

definition read_kdf :: "int_coercion \<Rightarrow> json \<Rightarrow> kdf_fields res" where
  "read_kdf as_int j =
     bindE (obj_fields [''algorithm'', ''salt_b64'', ''time_cost'', ''memory_cost'', ''parallelism'',
       ''hash_len''] j) (\<lambda>ps.
     bindE (required ''algorithm'' read_kdf_algorithm ps) (\<lambda>algorithm.
     bindE (required ''salt_b64'' read_str ps) (\<lambda>salt_b64.
     bindE (required ''time_cost'' (read_int as_int) ps) (\<lambda>time_cost.
     bindE (required ''memory_cost'' (read_int as_int) ps) (\<lambda>memory_cost.
     bindE (required ''parallelism'' (read_int as_int) ps) (\<lambda>parallelism.
     bindE (required ''hash_len'' (read_int as_int) ps) (\<lambda>hash_len.
     check_kdf_fields \<lparr>kf_algorithm = algorithm, kf_salt_b64 = salt_b64, kf_time_cost = time_cost,
       kf_memory_cost = memory_cost, kf_parallelism = parallelism, kf_hash_len = hash_len\<rparr>)))))))"

definition read_cipher :: "json \<Rightarrow> cipher_params res" where
  "read_cipher j =
     bindE (obj_fields [''algorithm'', ''nonce_b64''] j) (\<lambda>ps.
     bindE (required ''algorithm'' read_cipher_algorithm ps) (\<lambda>algorithm.
     bindE (required ''nonce_b64'' read_str ps) (\<lambda>nonce_b64.
     check_cipher_params \<lparr>cp_algorithm = algorithm, cp_nonce_b64 = nonce_b64\<rparr>)))"

definition read_slot :: "int_coercion \<Rightarrow> json \<Rightarrow> vault_key_slot res" where
  "read_slot as_int j =
     bindE (obj_fields [''type'', ''wrapped_key_b64'', ''kdf'', ''nonce_b64'', ''fingerprint'',
       ''label''] j) (\<lambda>ps.
     bindE (required ''type'' read_slot_type ps) (\<lambda>ty.
     bindE (required ''wrapped_key_b64'' read_str ps) (\<lambda>wrapped.
     bindE (nullable ''kdf'' (read_kdf as_int) ps) (\<lambda>kdf.
     bindE (nullable ''nonce_b64'' read_str ps) (\<lambda>nonce.
     bindE (nullable ''fingerprint'' read_str ps) (\<lambda>fp.
     bindE (defaulted ''label'' [] read_str ps) (\<lambda>label.
     check_vault_key_slot \<lparr>vs_type = ty, vs_wrapped_key_b64 = wrapped, vs_kdf = kdf,
       vs_nonce_b64 = nonce, vs_fingerprint = fp, vs_label = label\<rparr>)))))))"

definition read_slots :: "int_coercion \<Rightarrow> json \<Rightarrow> vault_key_slot list res" where
  "read_slots as_int j = (case j of JArr xs \<Rightarrow> mapE (read_slot as_int) xs | _ \<Rightarrow> Inl ValueError)"

definition read_header :: "int_coercion \<Rightarrow> json \<Rightarrow> vault_header res" where
  "read_header as_int j =
     bindE (obj_fields [''format'', ''version'', ''kdf'', ''cipher'', ''key_slots''] j) (\<lambda>ps.
     bindE (defaulted ''format'' VAULT_FORMAT_TAG read_str ps) (\<lambda>fmt.
     bindE (defaulted ''version'' VAULT_FORMAT_VERSION (read_int as_int) ps) (\<lambda>version.
     bindE (nullable ''kdf'' (read_kdf as_int) ps) (\<lambda>kdf.
     bindE (required ''cipher'' read_cipher ps) (\<lambda>cipher.
     bindE (nullable ''key_slots'' (read_slots as_int) ps) (\<lambda>slots.
     check_vault_header \<lparr>vh_format = fmt, vh_version = version, vh_kdf = kdf, vh_cipher = cipher,
       vh_key_slots = slots\<rparr>))))))"

section \<open>The frame\<close>

definition MAGIC :: bytes where "MAGIC = ''GPGV''"
definition MAGIC_LEN :: nat where "MAGIC_LEN = 4"
definition VERSION_LEN :: nat where "VERSION_LEN = 1"
definition LENGTH_FIELD :: nat where "LENGTH_FIELD = 4"
definition HEADER_OFFSET :: nat where "HEADER_OFFSET = MAGIC_LEN + VERSION_LEN + LENGTH_FIELD"
definition MAX_HEADER_SIZE :: nat where "MAX_HEADER_SIZE = 64 * 1024"
definition MAX_CIPHERTEXT_SIZE :: nat where "MAX_CIPHERTEXT_SIZE = 256 * 1024 * 1024"

lemmas frame_consts = MAGIC_LEN_def VERSION_LEN_def LENGTH_FIELD_def HEADER_OFFSET_def
  MAX_HEADER_SIZE_def MAX_CIPHERTEXT_SIZE_def

record unpacked_frame =
  uf_header :: vault_header
  uf_header_bytes :: bytes
  uf_ciphertext :: bytes

text \<open>\<open>bytes([n])\<close>.\<close>

definition single_byte :: "int \<Rightarrow> bytes res" where
  "single_byte n = (if 0 \<le> n \<and> n < 256 then Inr [char_of (nat n)] else Inl ValueError)"

definition pack :: "vault_header \<Rightarrow> bytes \<Rightarrow> (bytes \<times> bytes) res" where
  "pack header ciphertext =
     (let header_bytes = header_to_canonical_json header in
      if length header_bytes > MAX_HEADER_SIZE then Inl VaultFormatError
      else if length ciphertext > MAX_CIPHERTEXT_SIZE then Inl VaultFormatError
      else
        bindE (single_byte (vh_version header)) (\<lambda>version.
        bindE (pack_u32 (length header_bytes)) (\<lambda>header_len.
        bindE (pack_u32 (length ciphertext)) (\<lambda>ct_len.
        Inr (MAGIC @ version @ header_len @ header_bytes @ ct_len @ ciphertext, header_bytes)))))"

text \<open>\<open>data[i:j]\<close> with \<open>0 <= i <= j\<close>.\<close>

definition slice :: "nat \<Rightarrow> nat \<Rightarrow> bytes \<Rightarrow> bytes" where
  "slice i j data = take (j - i) (drop i data)"

text \<open>
  \<open>json.loads(header_bytes.decode("utf-8"))\<close> with its handler, which catches the decoding and
  the syntax error but no other \<open>ValueError\<close>.
\<close>

definition parse_header_json :: "bytes \<Rightarrow> json res" where
  "parse_header_json header_bytes =
     (if \<not> utf8_ok header_bytes then Inl VaultFormatError
      else (case loads header_bytes of
          Inr j \<Rightarrow> Inr j
        | Inl e \<Rightarrow> Inl (if e = JSONDecodeError then VaultFormatError else e)))"

definition validate_header :: "int_coercion \<Rightarrow> json \<Rightarrow> vault_header res" where
  "validate_header as_int j = (case read_header as_int j of
       Inr h \<Rightarrow> Inr h
     | Inl e \<Rightarrow> Inl VaultFormatError)"

definition unpack :: "int_coercion \<Rightarrow> bytes \<Rightarrow> unpacked_frame res" where
  "unpack as_int data =
     (if length data < HEADER_OFFSET + LENGTH_FIELD then Inl VaultFormatError
      else if take MAGIC_LEN data \<noteq> MAGIC then Inl VaultFormatError
      else
        let version = int (code (data ! MAGIC_LEN)) in
        if version \<notin> set SUPPORTED_VAULT_VERSIONS then Inl VaultFormatError
        else
          bindE (unpack_u32 (slice (MAGIC_LEN + VERSION_LEN) HEADER_OFFSET data)) (\<lambda>header_len.
          if header_len = 0 \<or> header_len > MAX_HEADER_SIZE then Inl VaultFormatError
          else
            let header_end = HEADER_OFFSET + header_len in
            if length data < header_end + LENGTH_FIELD then Inl VaultFormatError
            else
              let header_bytes = slice HEADER_OFFSET header_end data in
              bindE (parse_header_json header_bytes) (\<lambda>header_obj.
              bindE (validate_header as_int header_obj) (\<lambda>header.
              if vh_version header \<noteq> version then Inl VaultFormatError
              else
                bindE (unpack_u32 (slice header_end (header_end + LENGTH_FIELD) data)) (\<lambda>ct_len.
                if ct_len = 0 \<or> ct_len > MAX_CIPHERTEXT_SIZE then Inl VaultFormatError
                else
                  let ct_start = header_end + LENGTH_FIELD; ct_end = ct_start + ct_len in
                  if length data < ct_end then Inl VaultFormatError
                  else if length data > ct_end then Inl VaultFormatError
                  else Inr \<lparr>uf_header = header, uf_header_bytes = header_bytes,
                            uf_ciphertext = slice ct_start ct_end data\<rparr>)))))"

section \<open>Reading back a written header\<close>

definition field_of :: "(str \<times> json option) list \<Rightarrow> str \<Rightarrow> json option" where
  "field_of fs k = (case map_of fs k of Some (Some v) \<Rightarrow> Some v | _ \<Rightarrow> None)"

lemma set_fields_map_of:
  assumes "distinct (map fst fs)"
  shows "distinct (map fst (List.map_filter (\<lambda>p. map_option (Pair (fst p)) (snd p)) fs)) \<and>
    set (map fst (List.map_filter (\<lambda>p. map_option (Pair (fst p)) (snd p)) fs)) \<subseteq> fst ` set fs \<and>
    map_of (List.map_filter (\<lambda>p. map_option (Pair (fst p)) (snd p)) fs) k = field_of fs k"
  using assms
proof (induction fs)
  case Nil show ?case by (simp add: List.map_filter_simps field_of_def)
next
  case (Cons f fs)
  then show ?case
    by (cases f; cases "snd f")
      (auto simp: List.map_filter_simps field_of_def split: option.splits
        dest!: map_of_SomeD intro: rev_image_eqI)
qed

lemma obj_fields_canon:
  assumes "distinct (map fst fs)" and "fst ` set fs \<subseteq> set ks"
  obtains ps where "obj_fields ks (canon (set_fields fs)) = Inr ps"
    "\<And>k. map_of ps k = map_option canon (field_of fs k)"
proof -
  define qs where "qs = List.map_filter (\<lambda>p. map_option (Pair (fst p)) (snd p)) fs"
  define ps where "ps = sort_key fst (map (\<lambda>p. (fst p, canon (snd p))) qs)"
  note q = set_fields_map_of [OF assms(1), folded qs_def]
  have eq: "map_of (map (\<lambda>p. (fst p, canon (snd p))) qs) k = map_option canon (map_of qs k)" for k
    by (induction qs) auto
  have "canon (set_fields fs) = JObj ps" by (simp add: set_fields_def qs_def ps_def)
  moreover have "list_all (\<lambda>p. fst p \<in> set ks) ps"
    using q assms(2) by (force simp: ps_def list_all_iff)
  moreover have "map_of ps k = map_option canon (field_of fs k)" for k
    using q by (simp add: ps_def eq comp_def)
  ultimately show ?thesis by (intro that) (auto simp: obj_fields_def)
qed

lemma b64_ascii: "b64decode s = Some r \<Longrightarrow> list_all (\<lambda>c. code c < 128) s"
proof (induction s arbitrary: r rule: b64decode.induct)
  case (2 a b c d r')
  have v: "code x < 128" if "b64_val x = Some i" for x i
    using that by (auto simp: b64_val_def Let_def split: if_splits)
  have p: "code b64_pad < 128" by (simp add: b64_pad_def)
  from 2(2) show ?case
    by (auto simp: b64_last_def b64_quad_def v p split: if_splits option.splits intro: 2(1))
qed simp_all

lemma b64_text [simp]: "b64decode s = Some r \<Longrightarrow> utf8_ok s"
  by (simp add: ascii_text b64_ascii)

lemma fingerprint_text: "fingerprint_ok fp \<Longrightarrow> utf8_ok fp"
proof -
  have "is_upper_hex c \<Longrightarrow> code c < 128" for c by (auto simp: is_upper_hex_def is_digit_def)
  then show "fingerprint_ok fp \<Longrightarrow> utf8_ok fp"
    by (auto simp: fingerprint_ok_def list_all_iff intro!: ascii_text)
qed

lemma read_enums [simp]:
  "read_kdf_algorithm (JStr (kdf_value a)) = Inr a"
  "read_cipher_algorithm (JStr (cipher_value c)) = Inr c"
  "read_slot_type (JStr (slot_type_value t)) = Inr t"
proof -
  show "read_kdf_algorithm (JStr (kdf_value a)) = Inr a"
    by (induct a) (simp add: read_kdf_algorithm_def kdf_value_def)
  show "read_cipher_algorithm (JStr (cipher_value c)) = Inr c"
    by (cases c) (simp_all add: read_cipher_algorithm_def)
  show "read_slot_type (JStr (slot_type_value t)) = Inr t"
    by (cases t) (simp_all add: read_slot_type_def)
qed

definition reads_ints :: "int_coercion \<Rightarrow> bool" where
  "reads_ints as_int \<longleftrightarrow> (\<forall>i. as_int (JInt i) = Some i)"

lemma read_int_JInt [simp]: "reads_ints as_int \<Longrightarrow> read_int as_int (JInt i) = Inr i"
  by (simp add: read_int_def reads_ints_def)

lemma read_str_JStr [simp]: "utf8_ok s \<Longrightarrow> read_str (JStr s) = Inr s"
  by (simp add: read_str_def)

lemma field_of_Cons:
  "field_of ((k, v) # fs) j = (if k = j then v else field_of fs j)" "field_of [] j = None"
  by (auto simp: field_of_def split: option.splits)

lemma canon_atoms [simp]: "canon (JStr s) = JStr s" "canon (JInt i) = JInt i"
  by simp_all

text \<open>A model object is the record of its fields.\<close>

lemma record_eta [simp]:
  "\<lparr>kf_algorithm = kf_algorithm k, kf_salt_b64 = kf_salt_b64 k, kf_time_cost = kf_time_cost k,
    kf_memory_cost = kf_memory_cost k, kf_parallelism = kf_parallelism k,
    kf_hash_len = kf_hash_len k\<rparr> = k"
  "\<lparr>cp_algorithm = cp_algorithm c, cp_nonce_b64 = cp_nonce_b64 c\<rparr> = c"
  "\<lparr>vs_type = vs_type s, vs_wrapped_key_b64 = vs_wrapped_key_b64 s, vs_kdf = vs_kdf s,
    vs_nonce_b64 = vs_nonce_b64 s, vs_fingerprint = vs_fingerprint s, vs_label = vs_label s\<rparr> = s"
  "\<lparr>vh_format = vh_format h, vh_version = vh_version h, vh_kdf = vh_kdf h,
    vh_cipher = vh_cipher h, vh_key_slots = vh_key_slots h\<rparr> = h"
  by simp_all

lemma read_kdf_json:
  assumes "reads_ints as_int" "check_kdf_fields k = Inr k"
  shows "read_kdf as_int (canon (kdf_json k)) = Inr k"
proof -
  obtain ps where ps: "obj_fields [''algorithm'', ''salt_b64'', ''time_cost'', ''memory_cost'',
      ''parallelism'', ''hash_len''] (canon (kdf_json k)) = Inr ps"
    "\<And>j. map_of ps j = map_option canon (field_of
     [(''algorithm'', Some (JStr (kdf_value (kf_algorithm k)))),
      (''salt_b64'', Some (JStr (kf_salt_b64 k))),
      (''time_cost'', Some (JInt (kf_time_cost k))),
      (''memory_cost'', Some (JInt (kf_memory_cost k))),
      (''parallelism'', Some (JInt (kf_parallelism k))),
      (''hash_len'', Some (JInt (kf_hash_len k)))] j)"
    unfolding kdf_json_def by (rule obj_fields_canon [of _ "[''algorithm'', ''salt_b64'',
      ''time_cost'', ''memory_cost'', ''parallelism'', ''hash_len'']"]) auto
  have "utf8_ok (kf_salt_b64 k)" using assms(2) by (auto simp: check_kdf_fields_Inr validate_salt_Inr)
  then show ?thesis using assms
    by (simp add: read_kdf_def ps required_def field_of_Cons)
qed

lemma read_cipher_json:
  assumes "check_cipher_params c = Inr c"
  shows "read_cipher (canon (cipher_json c)) = Inr c"
proof -
  obtain ps where ps: "obj_fields [''algorithm'', ''nonce_b64''] (canon (cipher_json c)) = Inr ps"
    "\<And>j. map_of ps j = map_option canon (field_of
     [(''algorithm'', Some (JStr (cipher_value (cp_algorithm c)))),
      (''nonce_b64'', Some (JStr (cp_nonce_b64 c)))] j)"
    unfolding cipher_json_def by (rule obj_fields_canon [of _ "[''algorithm'', ''nonce_b64'']"]) auto
  have "utf8_ok (cp_nonce_b64 c)" using assms by (auto simp: check_cipher_params_Inr validate_nonce_Inr)
  then show ?thesis using assms by (simp add: read_cipher_def ps required_def field_of_Cons)
qed

lemma nullable_canon:
  assumes "map_of ps k = map_option canon (map_option f x)"
    and "\<And>y. x = Some y \<Longrightarrow> canon (f y) \<noteq> JNull \<and> g (canon (f y)) = Inr y"
  shows "nullable k g ps = Inr x"
  using assms by (cases x) (auto simp: nullable_def split: json.splits)

lemma canon_kdf_json_not_null [simp]: "canon (kdf_json k) \<noteq> JNull"
  by (simp add: kdf_json_def set_fields_def)

lemma nullable_kdf:
  assumes "reads_ints as_int" "optionE check_kdf_fields m = Inr m"
    "map_of ps k = map_option canon (map_option kdf_json m)"
  shows "nullable k (read_kdf as_int) ps = Inr m"
  using assms by (intro nullable_canon [where f = kdf_json]) (auto simp: optionE_Inr read_kdf_json)

lemma read_slot_json:
  assumes ints: "reads_ints as_int" and ok: "check_vault_key_slot s = Inr s"
  shows "read_slot as_int (canon (slot_json s)) = Inr s"
proof -
  obtain ps where ps: "obj_fields [''type'', ''wrapped_key_b64'', ''kdf'', ''nonce_b64'',
      ''fingerprint'', ''label''] (canon (slot_json s)) = Inr ps"
    "\<And>j. map_of ps j = map_option canon (field_of
     [(''type'', Some (JStr (slot_type_value (vs_type s)))),
      (''wrapped_key_b64'', Some (JStr (vs_wrapped_key_b64 s))),
      (''kdf'', map_option kdf_json (vs_kdf s)),
      (''nonce_b64'', map_option JStr (vs_nonce_b64 s)),
      (''fingerprint'', map_option JStr (vs_fingerprint s)),
      (''label'', Some (JStr (vs_label s)))] j)"
    unfolding slot_json_def by (rule obj_fields_canon [of _ "[''type'', ''wrapped_key_b64'',
      ''kdf'', ''nonce_b64'', ''fingerprint'', ''label'']"]) auto
  note fields = ok [unfolded check_vault_key_slot_fields]
  have t: "utf8_ok (vs_wrapped_key_b64 s)" "utf8_ok (vs_label s)"
    using fields by (auto simp: validate_wrapped_Inr)
  have n: "nullable ''kdf'' (read_kdf as_int) ps = Inr (vs_kdf s)"
    using fields ints by (intro nullable_kdf) (simp_all add: ps field_of_Cons)
  have m: "nullable ''nonce_b64'' read_str ps = Inr (vs_nonce_b64 s)"
    using fields by (intro nullable_canon [where f = JStr])
      (auto simp: ps field_of_Cons optionE_Inr validate_nonce_Inr)
  have f: "nullable ''fingerprint'' read_str ps = Inr (vs_fingerprint s)"
    using fields by (intro nullable_canon [where f = JStr])
      (auto simp: ps field_of_Cons optionE_Inr normalise_fingerprint_Inr dest: fingerprint_text)
  show ?thesis using ok t
    by (simp add: read_slot_def ps(1) n m f) (simp add: ps(2) required_def defaulted_def field_of_Cons)
qed

lemma read_header_json:
  assumes ints: "reads_ints as_int" and ok: "vault_header_ok h"
  shows "read_header as_int (canon (header_json h)) = Inr h"
proof -
  obtain ps where ps: "obj_fields [''format'', ''version'', ''kdf'', ''cipher'', ''key_slots'']
      (canon (header_json h)) = Inr ps"
    "\<And>j. map_of ps j = map_option canon (field_of
     [(''format'', Some (JStr (vh_format h))),
      (''version'', Some (JInt (vh_version h))),
      (''kdf'', map_option kdf_json (vh_kdf h)),
      (''cipher'', Some (cipher_json (vh_cipher h))),
      (''key_slots'', map_option (\<lambda>ss. JArr (map slot_json ss)) (vh_key_slots h))] j)"
    unfolding header_json_def by (rule obj_fields_canon [of _ "[''format'', ''version'', ''kdf'',
      ''cipher'', ''key_slots'']"]) auto
  note fields = ok [unfolded vault_header_ok_def check_vault_header_fields]
  have t: "utf8_ok (vh_format h)"
    using fields by (simp add: VAULT_FORMAT_TAG_def)
  have n: "nullable ''kdf'' (read_kdf as_int) ps = Inr (vh_kdf h)"
    using fields ints by (intro nullable_kdf) (simp_all add: ps field_of_Cons)
  have slots: "mapE (read_slot as_int) (map (canon \<circ> slot_json) ss) = Inr ss"
    if "vh_key_slots h = Some ss" for ss
  proof -
    have "mapE check_vault_key_slot ss = Inr ss"
      using fields that by (auto simp: optionE_Inr check_slots_def split: if_splits)
    then show ?thesis
      using ints by (simp add: mapE_list_all2 list_all2_map1 list_all2_same read_slot_json)
  qed
  have m: "nullable ''key_slots'' (read_slots as_int) ps = Inr (vh_key_slots h)"
    by (intro nullable_canon [where f = "\<lambda>ss. JArr (map slot_json ss)"])
      (auto simp: ps field_of_Cons read_slots_def slots)
  have h: "\<lparr>vh_format = VAULT_FORMAT_TAG, vh_version = vh_version h, vh_kdf = vh_kdf h,
      vh_cipher = vh_cipher h, vh_key_slots = vh_key_slots h\<rparr> = h"
    using fields by (cases h) simp
  show ?thesis using ok t ints fields
    by (simp add: read_header_def ps(1) n m)
      (simp add: h ps(2) required_def defaulted_def field_of_Cons read_cipher_json vault_header_ok_def)
qed

section \<open>The canonical bytes\<close>

lemma set_fields_ok:
  assumes "distinct (map fst fs)" and "\<And>k v. (k, Some v) \<in> set fs \<Longrightarrow> json_ok v"
  shows "json_ok (set_fields fs)"
  using set_fields_map_of [OF assms(1)] assms(2)
  by (auto simp: set_fields_def list_all_iff map_filter_def)

lemma set_fields_text:
  assumes "\<And>k v. (k, Some v) \<in> set fs \<Longrightarrow> utf8_ok k \<and> json_text v"
  shows "json_text (set_fields fs)"
  using assms by (auto simp: set_fields_def list_all_iff map_filter_def)

lemma kdf_json_ok: "check_kdf_fields k = Inr k \<Longrightarrow> json_ok (kdf_json k) \<and> json_text (kdf_json k)"
proof
  assume ok: "check_kdf_fields k = Inr k"
  then have "\<bar>kf_time_cost k\<bar> < 10 ^ 20" "\<bar>kf_memory_cost k\<bar> < 10 ^ 20" "\<bar>kf_parallelism k\<bar> < 10 ^ 20"
      "\<bar>kf_hash_len k\<bar> < 10 ^ 20"
    by (auto simp: check_kdf_fields_Inr cost_ok_defs kdf_limits)
  then show "json_ok (kdf_json k)"
    unfolding kdf_json_def by (intro set_fields_ok) (auto simp: short_int)
  show "json_text (kdf_json k)"
    using ok unfolding kdf_json_def
    by (intro set_fields_text) (auto simp: kdf_value_def check_kdf_fields_Inr validate_salt_Inr)
qed

lemma cipher_json_ok:
  "check_cipher_params c = Inr c \<Longrightarrow> json_ok (cipher_json c) \<and> json_text (cipher_json c)"
  unfolding cipher_json_def
  by (cases "cp_algorithm c"; intro conjI set_fields_ok set_fields_text)
    (auto simp: check_cipher_params_Inr validate_nonce_Inr)

lemma slot_json_ok:
  "check_vault_key_slot s = Inr s \<Longrightarrow> json_ok (slot_json s) \<and> json_text (slot_json s)"
  unfolding slot_json_def check_vault_key_slot_fields
  by (cases "vs_type s"; intro conjI set_fields_ok set_fields_text)
    (auto simp: optionE_Inr kdf_json_ok validate_nonce_Inr validate_wrapped_Inr
      normalise_fingerprint_Inr dest: fingerprint_text)

lemma header_json_ok:
  assumes "vault_header_ok h" shows "json_ok (header_json h) \<and> json_text (header_json h)"
proof -
  note fields = assms [unfolded vault_header_ok_def check_vault_header_fields]
  have v: "\<bar>vh_version h\<bar> < 10 ^ 20"
    using fields by (auto simp: SUPPORTED_VAULT_VERSIONS_def VAULT_FORMAT_VERSION_def
        VAULT_FORMAT_VERSION_SLOTS_def)
  have slots: "json_ok (slot_json s) \<and> json_text (slot_json s)"
    if "vh_key_slots h = Some ss" "s \<in> set ss" for s ss
  proof (rule slot_json_ok)
    have "list_all2 (\<lambda>x y. check_vault_key_slot x = Inr y) ss ss"
      using fields that(1) by (auto simp: optionE_Inr check_slots_def mapE_list_all2 split: if_splits)
    then show "check_vault_key_slot s = Inr s" using that(2) by (simp add: list_all2_same)
  qed
  have t: "utf8_ok VAULT_FORMAT_TAG" by (simp add: VAULT_FORMAT_TAG_def)
  show ?thesis unfolding header_json_def
    using fields v t
    by (intro conjI set_fields_ok set_fields_text)
      (auto simp: short_int optionE_Inr kdf_json_ok cipher_json_ok list_all_iff slots)
qed

lemma loads_header:
  "vault_header_ok h \<Longrightarrow> loads (header_to_canonical_json h) = Inr (canon (header_json h))"
  by (simp add: header_to_canonical_json_def loads_dumps header_json_ok)

lemma header_bytes_text: "vault_header_ok h \<Longrightarrow> utf8_ok (header_to_canonical_json h)"
  by (simp add: header_to_canonical_json_def utf8_ok_dumps header_json_ok)

lemma parse_written_header:
  assumes "reads_ints as_int" "vault_header_ok h"
  shows "bindE (parse_header_json (header_to_canonical_json h)) (validate_header as_int) = Inr h"
  using assms by (simp add: parse_header_json_def header_bytes_text loads_header validate_header_def
      read_header_json)

text \<open>The header bytes determine the header, so the AAD pins it.\<close>

lemma header_bytes_inject:
  "vault_header_ok h \<Longrightarrow> vault_header_ok h' \<Longrightarrow>
   header_to_canonical_json h = header_to_canonical_json h' \<longleftrightarrow> h = h'"
proof -
  have r: "reads_ints (\<lambda>j. case j of JInt i \<Rightarrow> Some i | _ \<Rightarrow> None)" by (simp add: reads_ints_def)
  assume "vault_header_ok h" "vault_header_ok h'"
  then show ?thesis using parse_written_header [OF r] by (metis sum.inject(2))
qed

section \<open>The layout of a frame\<close>

definition frame_of :: "char \<Rightarrow> bytes \<Rightarrow> bytes \<Rightarrow> bytes" where
  "frame_of v hb ct = MAGIC @ [v] @ u32_bytes (length hb) @ hb @ u32_bytes (length ct) @ ct"

lemma slice_mid: "i = length p \<Longrightarrow> j = i + length m \<Longrightarrow> slice i j (p @ m @ s) = m"
  by (simp add: slice_def)

lemma length_MAGIC [simp]: "length MAGIC = 4"
  by (simp add: MAGIC_def)

lemma frame_of_parts:
  "length (frame_of v hb ct) = 13 + length hb + length ct"
  "take 4 (frame_of v hb ct) = MAGIC"
  "frame_of v hb ct ! 4 = v"
  "slice 5 9 (frame_of v hb ct) = u32_bytes (length hb)"
  "slice 9 (9 + length hb) (frame_of v hb ct) = hb"
  "slice (9 + length hb) (13 + length hb) (frame_of v hb ct) = u32_bytes (length ct)"
  "slice (13 + length hb) (13 + length hb + length ct) (frame_of v hb ct) = ct"
proof -
  show "length (frame_of v hb ct) = 13 + length hb + length ct" "take 4 (frame_of v hb ct) = MAGIC"
    "frame_of v hb ct ! 4 = v"
    by (simp_all add: frame_of_def nth_append)
  show "slice 5 9 (frame_of v hb ct) = u32_bytes (length hb)"
    using slice_mid [of 5 "MAGIC @ [v]" 9 "u32_bytes (length hb)"] by (simp add: frame_of_def)
  show "slice 9 (9 + length hb) (frame_of v hb ct) = hb"
    using slice_mid [of 9 "MAGIC @ [v] @ u32_bytes (length hb)" _ hb] by (simp add: frame_of_def)
  show "slice (9 + length hb) (13 + length hb) (frame_of v hb ct) = u32_bytes (length ct)"
    using slice_mid [of _ "MAGIC @ [v] @ u32_bytes (length hb) @ hb" _ "u32_bytes (length ct)"]
    by (simp add: frame_of_def)
  show "slice (13 + length hb) (13 + length hb + length ct) (frame_of v hb ct) = ct"
    using slice_mid [of _ "MAGIC @ [v] @ u32_bytes (length hb) @ hb @ u32_bytes (length ct)" _ ct "[]"]
    by (simp add: frame_of_def)
qed

lemma unpack_frame_of:
  assumes "int (code v) \<in> set SUPPORTED_VAULT_VERSIONS" "0 < length hb" "length hb \<le> MAX_HEADER_SIZE"
    "0 < length ct" "length ct \<le> MAX_CIPHERTEXT_SIZE"
  shows "unpack as_int (frame_of v hb ct) =
    bindE (bindE (parse_header_json hb) (validate_header as_int)) (\<lambda>h.
      if vh_version h \<noteq> int (code v) then Inl VaultFormatError
      else Inr \<lparr>uf_header = h, uf_header_bytes = hb, uf_ciphertext = ct\<rparr>)"
proof -
  have n: "unpack_u32 (u32_bytes (length hb)) = Inr (length hb)"
      "unpack_u32 (u32_bytes (length ct)) = Inr (length ct)"
    using assms by (simp_all add: frame_consts)
  note parts = frame_of_parts [where v = v and hb = hb and ct = ct]
  show ?thesis
    using assms unfolding unpack_def Let_def MAGIC_LEN_def VERSION_LEN_def LENGTH_FIELD_def HEADER_OFFSET_def
    by (cases "parse_header_json hb"; cases "bindE (parse_header_json hb) (validate_header as_int)")
      (simp_all add: parts n)
qed

lemma pack_Inr:
  assumes "pack h ct = Inr (frame, hb)"
  shows "hb = header_to_canonical_json h" "length hb \<le> MAX_HEADER_SIZE"
    "length ct \<le> MAX_CIPHERTEXT_SIZE" "frame = frame_of (char_of (nat (vh_version h))) hb ct"
    "0 \<le> vh_version h" "vh_version h < 256"
  using assms
  by (auto simp: pack_def Let_def single_byte_def pack_u32_def frame_of_def split: if_splits)

lemma slice_split: "i \<le> j \<Longrightarrow> drop i data = slice i j data @ drop j data"
  by (simp add: slice_def) (metis append_take_drop_id drop_drop le_add_diff_inverse2)

lemma take_drop_nth: "i < length xs \<Longrightarrow> drop i xs = xs ! i # drop (Suc i) xs"
  by (rule Cons_nth_drop_Suc [symmetric])

text \<open>Everything \<open>unpack\<close> accepts is exactly one frame.\<close>

lemma unpack_Inr:
  assumes "unpack as_int data = Inr fr"
  shows "data = frame_of (data ! 4) (uf_header_bytes fr) (uf_ciphertext fr)"
    "int (code (data ! 4)) = vh_version (uf_header fr)"
    "0 < length (uf_header_bytes fr)" "length (uf_header_bytes fr) \<le> MAX_HEADER_SIZE"
    "0 < length (uf_ciphertext fr)" "length (uf_ciphertext fr) \<le> MAX_CIPHERTEXT_SIZE"
    "bindE (parse_header_json (uf_header_bytes fr)) (validate_header as_int) = Inr (uf_header fr)"
proof -
  obtain n m where magic: "take 4 data = MAGIC" and n: "unpack_u32 (slice 5 9 data) = Inr n"
      "0 < n" "n \<le> MAX_HEADER_SIZE"
    and m: "unpack_u32 (slice (9 + n) (13 + n) data) = Inr m" "0 < m" "m \<le> MAX_CIPHERTEXT_SIZE"
    and len: "length data = 13 + n + m"
    and v: "int (code (data ! 4)) = vh_version (uf_header fr)"
    and h: "bindE (parse_header_json (slice 9 (9 + n) data)) (validate_header as_int) = Inr (uf_header fr)"
    and fr: "uf_header_bytes fr = slice 9 (9 + n) data" "uf_ciphertext fr = slice (13 + n) (13 + n + m) data"
    using assms unfolding unpack_def Let_def MAGIC_LEN_def VERSION_LEN_def LENGTH_FIELD_def HEADER_OFFSET_def
    by (auto split: if_splits)
  have l: "length (slice 9 (9 + n) data) = n" "length (slice (13 + n) (13 + n + m) data) = m"
    using len by (simp_all add: slice_def)
  have "data = take 4 data @ drop 4 data" by simp
  also have "drop 4 data = [data ! 4] @ drop 5 data" using len take_drop_nth [of 4 data] by simp
  also have "drop 5 data = slice 5 9 data @ slice 9 (9 + n) data @ slice (9 + n) (13 + n) data
      @ slice (13 + n) (13 + n + m) data"
    using slice_split [of 5 9 data] slice_split [of 9 "9 + n" data] slice_split [of "9 + n" "13 + n" data]
      slice_split [of "13 + n" "13 + n + m" data] len by simp
  finally have "data = frame_of (data ! 4) (slice 9 (9 + n) data) (slice (13 + n) (13 + n + m) data)"
    using u32_bytes_unpack [OF n(1)] u32_bytes_unpack [OF m(1)] magic by (simp add: frame_of_def l)
  then show "data = frame_of (data ! 4) (uf_header_bytes fr) (uf_ciphertext fr)" by (simp add: fr)
  show "int (code (data ! 4)) = vh_version (uf_header fr)" by (rule v)
  show "0 < length (uf_header_bytes fr)" "length (uf_header_bytes fr) \<le> MAX_HEADER_SIZE"
    "0 < length (uf_ciphertext fr)" "length (uf_ciphertext fr) \<le> MAX_CIPHERTEXT_SIZE"
    "bindE (parse_header_json (uf_header_bytes fr)) (validate_header as_int) = Inr (uf_header fr)"
    using n m h l by (simp_all add: fr)
qed

lemma validate_header_ok: "validate_header as_int j = Inr h \<Longrightarrow> vault_header_ok h"
  by (auto simp: validate_header_def read_header_def intro: check_vault_header_ok split: sum.splits)

lemma frame_of_inject:
  "length hb < 2 ^ 32 \<Longrightarrow> length hb' < 2 ^ 32 \<Longrightarrow> length ct < 2 ^ 32 \<Longrightarrow> length ct' < 2 ^ 32 \<Longrightarrow>
   frame_of v hb ct @ s = frame_of v' hb' ct' @ s' \<longleftrightarrow> v = v' \<and> hb = hb' \<and> ct = ct' \<and> s = s'"
  by (auto simp: frame_of_def u32.enc_inj)

lemma unpack_unique:
  assumes "unpack as_int data = Inr fr" "unpack as_int d = Inr g" "d @ x = data @ y"
  shows "x = y"
proof -
  note fr = unpack_Inr [OF assms(1)] and g = unpack_Inr [OF assms(2)]
  have "frame_of (d ! 4) (uf_header_bytes g) (uf_ciphertext g) @ x =
      frame_of (data ! 4) (uf_header_bytes fr) (uf_ciphertext fr) @ y"
    using assms(3) fr(1) g(1) by simp
  then show ?thesis using frame_of_inject fr(3-6) g(3-6) by (simp add: frame_consts)
qed

lemma parse_header_errors:
  "parse_header_json hb = Inl e \<Longrightarrow> e = VaultFormatError \<or> loads hb = Inl e"
  by (auto simp: parse_header_json_def split: if_splits sum.splits)

section \<open>A passphrase-only header always fits\<close>

lemma b64decode_length: "b64decode s = Some r \<Longrightarrow> 3 * length s \<le> 4 * (length r + 2)"
proof (induction s arbitrary: r rule: b64decode.induct)
  case (2 a b c d r')
  show ?case
  proof (cases "d = b64_pad \<and> r' = []")
    case True
    with 2(2) have "length r \<ge> 1" by (auto simp: b64_last_def split: option.splits if_splits)
    then show ?thesis using True by simp
  next
    case False
    with 2(2) obtain x y where xy: "b64_quad a b c d = Some x" "b64decode r' = Some y" "r = x @ y"
      by (auto split: option.splits if_splits)
    then have "length x = 3" by (auto simp: b64_quad_def split: option.splits)
    then show ?thesis using 2(1) [OF False xy(1,2)] xy(3) by simp
  qed
qed simp_all

lemma set_fields_weight:
  "json_weight (set_fields fs) =
   sum_list (map (\<lambda>p. case snd p of None \<Rightarrow> 0 | Some v \<Rightarrow> 6 * length (fst p) + json_weight v + 4) fs) + 2"
proof -
  have "sum_list (map (\<lambda>p. 6 * length (fst p) + json_weight (snd p) + 4)
      (List.map_filter (\<lambda>p. map_option (Pair (fst p)) (snd p)) fs)) =
    sum_list (map (\<lambda>p. case snd p of None \<Rightarrow> 0 | Some v \<Rightarrow> 6 * length (fst p) + json_weight v + 4) fs)"
    by (induction fs) (auto simp: List.map_filter_simps split: option.splits)
  then show ?thesis by (simp add: set_fields_def)
qed

lemma kdf_json_weight: "check_kdf_fields k = Inr k \<Longrightarrow> json_weight (kdf_json k) \<le> 2000"
proof -
  assume ok: "check_kdf_fields k = Inr k"
  then obtain raw where raw: "b64decode (kf_salt_b64 k) = Some raw" "length raw \<le> 64"
    by (auto simp: check_kdf_fields_Inr validate_salt_Inr kdf_limits)
  have salt: "length (kf_salt_b64 k) \<le> 88" using b64decode_length [OF raw(1)] raw(2) by simp
  have "\<bar>kf_time_cost k\<bar> < 10 ^ 20" "\<bar>kf_memory_cost k\<bar> < 10 ^ 20" "\<bar>kf_parallelism k\<bar> < 10 ^ 20"
      "\<bar>kf_hash_len k\<bar> < 10 ^ 20"
    using ok by (auto simp: check_kdf_fields_Inr cost_ok_defs kdf_limits)
  note n = this [THEN length_show_int]
  show ?thesis using salt n
    by (simp add: kdf_json_def set_fields_weight kdf_value_def)
qed

lemma cipher_json_weight: "check_cipher_params c = Inr c \<Longrightarrow> json_weight (cipher_json c) \<le> 600"
proof -
  assume "check_cipher_params c = Inr c"
  then obtain raw where raw: "b64decode (cp_nonce_b64 c) = Some raw" "length raw = 12"
    by (auto simp: check_cipher_params_Inr validate_nonce_Inr NONCE_LEN_def)
  then have "length (cp_nonce_b64 c) \<le> 18" using b64decode_length [OF raw(1)] by simp
  then show ?thesis by (cases "cp_algorithm c") (simp_all add: cipher_json_def set_fields_weight)
qed

lemma header_v2_small:
  assumes ok: "vault_header_ok h" and v: "vh_version h = VAULT_FORMAT_VERSION"
  shows "length (header_to_canonical_json h) \<le> 4000"
proof -
  note fields = ok [unfolded vault_header_ok_def check_vault_header_fields]
  obtain k where k: "vh_kdf h = Some k" "vh_key_slots h = None" "check_kdf_fields k = Inr k"
    using fields v by (auto simp: validate_version_shape_def optionE_Inr split: if_splits)
  have "length (show_int (vh_version h)) \<le> 2"
    using length_show_int [of "vh_version h" 1] v by (simp add: VAULT_FORMAT_VERSION_def)
  moreover have "json_weight (cipher_json (vh_cipher h)) \<le> 600"
    using fields by (intro cipher_json_weight) simp
  moreover have "length (vh_format h) = 16" using fields by (simp add: VAULT_FORMAT_TAG_def)
  ultimately have "json_weight (header_json h) \<le> 4000"
    using kdf_json_weight [OF k(3)] by (simp add: header_json_def set_fields_weight k)
  then show ?thesis using length_dumps [of "header_json h"] by (simp add: header_to_canonical_json_def)
qed

lemma header_version_cases: "vault_header_ok h \<Longrightarrow> vh_version h = 2 \<or> vh_version h = 3"
  by (auto simp: vault_header_ok_def check_vault_header_fields SUPPORTED_VAULT_VERSIONS_def
      VAULT_FORMAT_VERSION_def VAULT_FORMAT_VERSION_SLOTS_def)

lemma header_version_byte:
  assumes "vault_header_ok h"
  shows "int (code (char_of (nat (vh_version h)) :: char)) = vh_version h"
    "vh_version h \<in> set SUPPORTED_VAULT_VERSIONS"
  using header_version_cases [OF assms] assms
  by (auto simp: vault_header_ok_def check_vault_header_fields)

lemma pack_total:
  assumes "vault_header_ok h" "length (header_to_canonical_json h) \<le> MAX_HEADER_SIZE"
    "length ct \<le> MAX_CIPHERTEXT_SIZE"
  shows "pack h ct = Inr (frame_of (char_of (nat (vh_version h))) (header_to_canonical_json h) ct,
    header_to_canonical_json h)"
  using assms header_version_cases [OF assms(1)]
  by (auto simp: pack_def Let_def single_byte_def pack_u32_def frame_of_def frame_consts)

lemma pack_v2:
  assumes "vault_header_ok h" "vh_version h = VAULT_FORMAT_VERSION" "length ct \<le> MAX_CIPHERTEXT_SIZE"
  shows "pack h ct = Inr (frame_of (char_of (nat (vh_version h))) (header_to_canonical_json h) ct,
    header_to_canonical_json h)"
  using pack_total [of h ct] header_v2_small [of h] assms by (simp add: MAX_HEADER_SIZE_def)

lemma header_bytes_nonempty: "vault_header_ok h \<Longrightarrow> header_to_canonical_json h \<noteq> []"
  using loads_header [of h] by (auto simp: loads_def json_ws_def json_fuel_def)

lemma unpack_packed:
  assumes "reads_ints as_int" "vault_header_ok h" "ct \<noteq> []" "pack h ct = Inr (frame, hb)"
  shows "unpack as_int frame = Inr \<lparr>uf_header = h, uf_header_bytes = hb, uf_ciphertext = ct\<rparr>"
proof -
  note p = pack_Inr [OF assms(4)]
  have "0 < length hb" "0 < length ct" using p(1) header_bytes_nonempty [OF assms(2)] assms(3) by auto
  then show ?thesis
    unfolding p(4)
    by (subst unpack_frame_of)
      (use p header_version_byte [OF assms(2)] parse_written_header [OF assms(1,2)]
       in \<open>simp_all del: bindE_eq_Inr\<close>)
qed

section \<open>A concrete vault\<close>

text \<open>The coercion that reads a JSON integer and nothing else, and a header for the witnesses.\<close>

definition json_int :: int_coercion where
  "json_int j = (case j of JInt i \<Rightarrow> Some i | _ \<Rightarrow> None)"

lemma json_int_reads [simp]: "reads_ints json_int"
  by (simp add: reads_ints_def json_int_def)

definition demo_header :: vault_header where
  "demo_header = \<lparr>vh_format = VAULT_FORMAT_TAG, vh_version = 2,
     vh_kdf = Some \<lparr>kf_algorithm = ARGON2ID, kf_salt_b64 = b64encode (replicate 16 CHR 0x07),
       kf_time_cost = 3, kf_memory_cost = 65536, kf_parallelism = 4, kf_hash_len = 32\<rparr>,
     vh_cipher = \<lparr>cp_algorithm = AES_256_GCM, cp_nonce_b64 = b64encode (replicate 12 CHR 0x01)\<rparr>,
     vh_key_slots = None\<rparr>"

lemma demo_header_ok [simp]: "vault_header_ok demo_header"
  unfolding vault_header_ok_def check_vault_header_fields
  by (simp add: demo_header_def SUPPORTED_VAULT_VERSIONS_def VAULT_FORMAT_VERSION_def optionE_def
    check_kdf_fields_Inr validate_salt_Inr check_cipher_params_Inr validate_nonce_Inr NONCE_LEN_def
    kdf_limits cost_ok_defs validate_version_shape_def)

lemma demo_header_version: "vh_version demo_header = VAULT_FORMAT_VERSION"
  by (simp add: demo_header_def VAULT_FORMAT_VERSION_def)

definition demo_frame :: bytes where
  "demo_frame = frame_of (CHR 0x02) (header_to_canonical_json demo_header) [CHR 0x2A]"

lemma demo_pack: "pack demo_header [CHR 0x2A] = Inr (demo_frame, header_to_canonical_json demo_header)"
proof -
  have c: "code (CHR 0x02) = 2" by simp
  have "char_of (nat (vh_version demo_header)) = CHR 0x02"
    using char_of_code [of "CHR 0x02"] unfolding c by (simp add: demo_header_def)
  then show ?thesis using pack_v2 [OF demo_header_ok demo_header_version, of "[CHR 0x2A]"]
    by (simp add: demo_frame_def MAX_CIPHERTEXT_SIZE_def)
qed

lemma demo_unpack: "unpack json_int demo_frame =
    Inr \<lparr>uf_header = demo_header, uf_header_bytes = header_to_canonical_json demo_header,
         uf_ciphertext = [CHR 0x2A]\<rparr>"
  by (rule unpack_packed [OF json_int_reads demo_header_ok _ demo_pack]) simp

section \<open>A header that is one long integer\<close>

lemma length_show_nat_ge: "10 ^ k \<le> n \<Longrightarrow> k < length (show_nat n)"
proof (induction k arbitrary: n)
  case (Suc k)
  then have "10 ^ k \<le> n div 10" by (simp add: less_eq_div_iff_mult_less_eq mult.commute)
  with Suc.IH have "k < length (show_nat (n div 10))" by simp
  moreover have "\<not> n < 10" using Suc.prems one_le_power [of "10::nat" k] unfolding power_Suc by linarith
  ultimately show ?case by (subst show_nat.simps) simp
qed simp

lemma power_digits: "4300 < length (show_nat (10 ^ 4300)) \<and> length (show_nat (10 ^ 4300)) \<le> 4301"
proof
  show "4300 < length (show_nat (10 ^ 4300))" by (rule length_show_nat_ge) (rule order_refl)
  show "length (show_nat (10 ^ 4300)) \<le> 4301"
    by (rule length_show_nat [OF power_strict_increasing]) simp_all
qed

lemma unpack_long_integer:
  assumes "4300 < length (show_nat n) \<and> length (show_nat n) \<le> 4301"
  shows "unpack as_int (frame_of (CHR 0x02) (show_nat n) [CHR 0x00]) = Inl ValueError"
proof -
  have s: "show_int (int n) = show_nat n" by (simp add: show_int_def)
  have d: "delimited []" by (simp add: delimited_def)
  have "parse_scalar (show_nat n) = Inl ValueError"
    using parse_literal_int [OF d, of "int n"] int_digits_show [OF d, of "int n"] assms
    by (simp add: parse_scalar_def s INT_MAX_STR_DIGITS_def)
  moreover obtain c r where c: "show_nat n = c # r" "is_digit c" by (rule show_nat_Cons) blast
  ultimately have "parse_value (json_fuel (show_nat n)) (show_nat n) = Inl ValueError"
    by (auto simp: json_fuel_def is_digit_code)
  then have "loads (show_nat n) = Inl ValueError"
    using c by (simp add: loads_def json_ws_head is_digit_code)
  moreover have "utf8_ok (show_nat n)" using utf8_ok_int [of "int n"] by (simp add: s)
  ultimately have "parse_header_json (show_nat n) = Inl ValueError" by (simp add: parse_header_json_def)
  then show ?thesis
    using assms by (subst unpack_frame_of) (auto simp: SUPPORTED_VAULT_VERSIONS_def VAULT_FORMAT_VERSION_def
        MAX_HEADER_SIZE_def MAX_CIPHERTEXT_SIZE_def)
qed

section \<open>Properties\<close>

text \<open>
  C9. A packed vault is read back: for every header pydantic accepts and every non-empty
  ciphertext, whatever \<open>pack\<close> writes, \<open>unpack\<close> returns the same header, the same header bytes
  (the AAD) and the same ciphertext, if pydantic reads a JSON integer as itself.
\<close>

theorem unpack_pack:
  assumes "reads_ints as_int" and "vault_header_ok h" and "ct \<noteq> []" and "pack h ct = Inr (frame, hb)"
  shows "unpack as_int frame = Inr \<lparr>uf_header = h, uf_header_bytes = hb, uf_ciphertext = ct\<rparr>"
  using assms by (rule unpack_packed)

theorem unpack_pack_witness:
  "reads_ints json_int \<and> vault_header_ok demo_header \<and>
   unpack json_int demo_frame = Inr \<lparr>uf_header = demo_header,
     uf_header_bytes = header_to_canonical_json demo_header, uf_ciphertext = [CHR 0x2A]\<rparr>"
  using unpack_pack [OF json_int_reads demo_header_ok _ demo_pack] by simp

text \<open>
  C23. What \<open>unpack\<close> accepts is exactly one well-formed frame: the bytes are magic, version,
  header length, header, ciphertext length and ciphertext with nothing left over, within the
  size limits, and the header is a valid one of the version the frame names. Hence an accepted
  file with bytes appended, or with bytes cut off, is refused.
\<close>

theorem unpack_accepts_one_frame:
  assumes "unpack as_int data = Inr fr"
  shows "data = MAGIC @ [char_of (nat (vh_version (uf_header fr)))] @
      u32_bytes (length (uf_header_bytes fr)) @ uf_header_bytes fr @
      u32_bytes (length (uf_ciphertext fr)) @ uf_ciphertext fr \<and>
    vault_header_ok (uf_header fr) \<and>
    0 < length (uf_header_bytes fr) \<and> length (uf_header_bytes fr) \<le> MAX_HEADER_SIZE \<and>
    0 < length (uf_ciphertext fr) \<and> length (uf_ciphertext fr) \<le> MAX_CIPHERTEXT_SIZE \<and>
    (\<forall>x. x \<noteq> [] \<longrightarrow> (\<exists>e. unpack as_int (data @ x) = Inl e)) \<and>
    (\<forall>n < length data. \<exists>e. unpack as_int (take n data) = Inl e)"
proof -
  note fr = unpack_Inr [OF assms]
  have v: "data ! 4 = char_of (nat (vh_version (uf_header fr)))" using fr(2) by (metis char_of_code nat_int)
  have unique: "x = y" if "unpack as_int d = Inr g" "d @ x = data @ y" for d g x y
    using unpack_unique [OF assms that(1)] that(2) by simp
  have "\<exists>e. unpack as_int (data @ x) = Inl e" if "x \<noteq> []" for x
    using unique [of "data @ x" _ "[]" x] that by (cases "unpack as_int (data @ x)") auto
  moreover have "\<exists>e. unpack as_int (take n data) = Inl e" if "n < length data" for n
    using unique [of "take n data" _ "drop n data" "[]"] that by (cases "unpack as_int (take n data)") auto
  moreover have "vault_header_ok (uf_header fr)" using fr(7) by (auto intro: validate_header_ok)
  ultimately show ?thesis using fr v by (simp add: frame_of_def)
qed

theorem unpack_accepts_one_frame_witness:
  "\<exists>e. unpack json_int (demo_frame @ [CHR 0x00]) = Inl e"
  using unpack_accepts_one_frame [OF demo_unpack] by blast

text \<open>
  \<open>unpack\<close> fails only with \<open>VaultFormatError\<close>, but for one case: a header whose JSON holds
  an integer literal over the interpreter's digit limit raises a plain \<open>ValueError\<close>.
\<close>

theorem unpack_errors:
  assumes "unpack as_int data = Inl e"
  shows "e = VaultFormatError \<or>
    (e = ValueError \<and> (\<exists>n. loads (slice HEADER_OFFSET (HEADER_OFFSET + n) data) = Inl ValueError))"
proof -
  have u: "\<not> length data < i + 4 \<Longrightarrow> unpack_u32 (slice i (i + 4) data) \<noteq> Inl x" for i x
    using unpack_u32_length4 [of "slice i (i + 4) data"] by (auto simp: slice_def)
  have u5: "\<not> length data < 13 \<Longrightarrow> unpack_u32 (slice 5 9 data) \<noteq> Inl x"
    and u9: "\<not> length data < 13 + n \<Longrightarrow> unpack_u32 (slice (9 + n) (13 + n) data) \<noteq> Inl x" for n x
    using u [of 5 x] u [of "9 + n" x] by simp_all
  have p: "parse_header_json hb = Inl x \<Longrightarrow> x = VaultFormatError \<or> (x = ValueError \<and> loads hb = Inl ValueError)"
    for hb x
    using loads_error [of hb] by (auto simp: parse_header_json_def split: if_splits sum.splits)
  have h: "validate_header as_int j = Inl x \<Longrightarrow> x = VaultFormatError" for j x
    by (auto simp: validate_header_def split: sum.splits)
  show ?thesis
    using assms unfolding unpack_def Let_def
    by (auto simp: bindE_eq_Inl frame_consts u5 u9 split: if_splits dest!: p h)
qed

theorem unpack_errors_witness:
  "VaultFormatError = VaultFormatError \<or> (VaultFormatError = ValueError \<and>
    (\<exists>n. loads (slice HEADER_OFFSET (HEADER_OFFSET + n) ''GPGX'') = Inl ValueError))"
  by (rule unpack_errors [of json_int]) (simp add: unpack_def frame_consts)

text \<open>
  The exception that escapes: a frame whose header is one integer of 4301 digits makes
  \<open>unpack\<close> raise \<open>ValueError\<close> instead of \<open>VaultFormatError\<close>.
\<close>

theorem unpack_long_integer_escapes:
  "unpack as_int (frame_of (CHR 0x02) (show_nat (10 ^ 4300)) [CHR 0x00]) = Inl ValueError"
  by (rule unpack_long_integer [OF power_digits])

end
