(* ===== verification/Vault_Keyslots.thy ===== *)
theory Vault_Keyslots
  imports Vault_Format
begin

text \<open>
  \<open>security/vault_keyslots.py\<close>: the random file key of a version 3 vault and its wrapped
  copies. The cryptographic libraries are the fields of \<open>crypto\<close>; each call of
  \<open>secrets.token_bytes\<close> is an argument of its own, so that two draws are never identified.
  The lemmas show that a wrapped key is unwrapped with the same passphrase, and that nothing
  opens as a slot but what was sealed for a slot of that kind.
\<close>

record crypto =
  cr_aead :: aead_lib
  cr_argon2 :: argon2
  cr_mlock :: bool

type_synonym draw = "nat \<Rightarrow> bytes"

definition FILE_KEY_LEN :: nat where "FILE_KEY_LEN = KEY_LEN"

definition slot_associated_data :: "vault_slot_type \<Rightarrow> bytes" where
  "slot_associated_data slot_type = VAULT_FORMAT_TAG @ '':slot:'' @ slot_type_value slot_type"

definition generate_file_key :: "crypto \<Rightarrow> draw \<Rightarrow> secure_bytes" where
  "generate_file_key cr token_bytes = sb_from_bytes (cr_mlock cr) (token_bytes FILE_KEY_LEN)"

definition wrap_with_passphrase ::
    "crypto \<Rightarrow> draw \<Rightarrow> draw \<Rightarrow> secure_bytes \<Rightarrow> secure_bytes \<Rightarrow> kdf_params \<Rightarrow> cipher_algorithm \<Rightarrow>
     vault_key_slot res" where
  "wrap_with_passphrase cr salt_bytes nonce_bytes file_key passphrase params cipher =
     bindE (generate_salt salt_bytes (kp_salt_len params)) (\<lambda>salt.
     let nonce = generate_nonce nonce_bytes in
     bindE (derive_key (cr_argon2 cr) (cr_mlock cr) passphrase salt params) (\<lambda>key.
     bindE (fst (sb_with key (\<lambda>slot_key.
       bindE (sb_view file_key) (\<lambda>plaintext.
       aead_encrypt (cr_aead cr) plaintext slot_key nonce (slot_associated_data PASSPHRASE) cipher))))
     (\<lambda>wrapped.
     bindE (kdf_fields_from_params params salt) (\<lambda>kdf.
     check_vault_key_slot
       \<lparr>vs_type = PASSPHRASE, vs_wrapped_key_b64 = b64encode wrapped, vs_kdf = Some kdf,
        vs_nonce_b64 = Some (b64encode nonce), vs_fingerprint = None,
        vs_label = ''Master passphrase''\<rparr>))))"

text \<open>\<open>file_key_from_bytes\<close>; the \<open>finally\<close> wipes the transient copy on either path.\<close>

definition file_key_from_bytes :: "bool \<Rightarrow> bytes \<Rightarrow> secure_bytes res" where
  "file_key_from_bytes mlock_ok raw =
     (if length raw \<noteq> FILE_KEY_LEN then Inl ValueError else Inr (sb_from_bytes mlock_ok raw))"

definition unwrap_with_passphrase ::
    "crypto \<Rightarrow> vault_key_slot \<Rightarrow> secure_bytes \<Rightarrow> kdf_params \<Rightarrow> cipher_algorithm \<Rightarrow> secure_bytes res"
where
  "unwrap_with_passphrase cr slot passphrase params cipher =
     (case vs_kdf slot of
        None \<Rightarrow> Inl ValueError
      | Some kdf \<Rightarrow>
          if vs_type slot \<noteq> PASSPHRASE then Inl ValueError
          else
            bindE (kf_salt kdf) (\<lambda>salt.
            bindE (derive_key (cr_argon2 cr) (cr_mlock cr) passphrase salt params) (\<lambda>key.
            bindE (fst (sb_with key (\<lambda>slot_key.
              bindE (vs_wrapped_key slot) (\<lambda>ciphertext.
              bindE (vs_nonce slot) (\<lambda>nonce.
              aead_decrypt (cr_aead cr) ciphertext slot_key nonce
                (slot_associated_data PASSPHRASE) cipher)))))
            (\<lambda>raw. file_key_from_bytes (cr_mlock cr) raw))))"

definition openpgp_slot :: "bytes \<Rightarrow> str \<Rightarrow> str \<Rightarrow> vault_key_slot res" where
  "openpgp_slot wrapped fingerprint label = check_vault_key_slot
     \<lparr>vs_type = OPENPGP, vs_wrapped_key_b64 = b64encode wrapped, vs_kdf = None, vs_nonce_b64 = None,
      vs_fingerprint = Some fingerprint, vs_label = label\<rparr>"

section \<open>What a slot opens to\<close>

lemma file_key_from_bytes_Inr [simp]:
  "file_key_from_bytes m raw = Inr k \<longleftrightarrow> length raw = FILE_KEY_LEN \<and> k = sb_from_bytes m raw"
  by (auto simp: file_key_from_bytes_def)

definition derived :: "crypto \<Rightarrow> secure_bytes \<Rightarrow> bytes \<Rightarrow> kdf_params \<Rightarrow> bytes option" where
  "derived cr pw salt params =
     (if kdf_params_ok params \<and> int (length salt) = kp_salt_len params \<and> \<not> sb_closed pw
      then argon2_value (cr_argon2 cr) (take (sb_size pw) (sb_buffer pw)) salt params else None)"

lemma derive_key_derived:
  "derive_key (cr_argon2 cr) m pw salt params = Inr k \<longleftrightarrow>
   (\<exists>raw. derived cr pw salt params = Some raw \<and> k = sb_from_bytes m raw)"
  by (auto simp: derive_key_Inr derived_def)

lemma sb_with_fresh [simp]: "fst (sb_with (sb_from_bytes m raw) body) = body (sb_from_bytes m raw)"
  by (simp add: sb_with_body)

lemma wrap_Inr:
  "wrap_with_passphrase cr sr nr fk pw params c = Inr slot \<longleftrightarrow>
   (\<exists>raw kdf. derived cr pw (sr (nat (kp_salt_len params))) params = Some raw \<and>
      length raw = KEY_LEN \<and> \<not> sb_closed fk \<and> length (nr NONCE_LEN) = NONCE_LEN \<and>
      kdf_fields_from_params params (sr (nat (kp_salt_len params))) = Inr kdf \<and>
      check_vault_key_slot \<lparr>vs_type = PASSPHRASE,
        vs_wrapped_key_b64 = b64encode (seal (cr_aead cr) c raw (nr NONCE_LEN)
          (slot_associated_data PASSPHRASE) (key_bytes fk)),
        vs_kdf = Some kdf, vs_nonce_b64 = Some (b64encode (nr NONCE_LEN)), vs_fingerprint = None,
        vs_label = ''Master passphrase''\<rparr> = Inr slot)"
  by (auto simp: wrap_with_passphrase_def Let_def generate_nonce_def derive_key_derived
      aead_encrypt_Inr sb_view_def key_bytes_def [symmetric] derived_def kdf_params_ok_def salt_len_ok_def
      split: if_splits)

lemma from_params_Inr:
  "kdf_fields_from_params params salt = Inr k \<Longrightarrow>
   k = \<lparr>kf_algorithm = kp_algorithm params, kf_salt_b64 = b64encode salt,
      kf_time_cost = kp_time_cost params, kf_memory_cost = kp_memory_cost params,
      kf_parallelism = kp_parallelism params, kf_hash_len = kp_hash_len params\<rparr>"
  by (simp add: kdf_fields_from_params_def check_kdf_fields_Inr)

text \<open>The parameters and the salt are recovered from the header.\<close>

lemma to_params_from_params:
  assumes "kdf_fields_from_params params salt = Inr k" "kdf_params_ok params"
    "int (length salt) = kp_salt_len params"
  shows "kdf_fields_to_params k = Inr params" "kf_salt k = Inr salt"
  using assms from_params_Inr [OF assms(1)]
  by (auto simp: kdf_fields_to_params_def kf_salt_def make_kdf_params_Inr)

lemma unwrap_Inr:
  "unwrap_with_passphrase cr slot pw params c = Inr k \<longleftrightarrow>
   vs_type slot = PASSPHRASE \<and> (\<exists>kdf salt raw ct n pt. vs_kdf slot = Some kdf \<and> kf_salt kdf = Inr salt \<and>
      derived cr pw salt params = Some raw \<and> length raw = KEY_LEN \<and>
      vs_wrapped_key slot = Inr ct \<and> vs_nonce slot = Inr n \<and> length n = NONCE_LEN \<and>
      unseal (cr_aead cr) c raw n (slot_associated_data PASSPHRASE) ct = Some pt \<and>
      length pt = FILE_KEY_LEN \<and> k = sb_from_bytes (cr_mlock cr) pt)"
  by (auto simp: unwrap_with_passphrase_def derive_key_derived aead_decrypt_Inr split: option.splits)

lemma check_vault_key_slot_passphrase:
  "check_vault_key_slot s = Inr s' \<Longrightarrow> vs_fingerprint s = None \<Longrightarrow> s' = s"
  by (auto simp: check_vault_key_slot_fields optionE_Inr intro: vault_key_slot.equality)

lemma unwrap_wrapped:
  assumes lib: "aead_correct (cr_aead cr)" and fk: "length (key_bytes fk) = FILE_KEY_LEN"
    and wrap: "wrap_with_passphrase cr sr nr fk pw params c = Inr slot"
  shows "unwrap_with_passphrase cr slot pw params c = Inr (sb_from_bytes (cr_mlock cr) (key_bytes fk))"
proof -
  let ?salt = "sr (nat (kp_salt_len params))" and ?nonce = "nr NONCE_LEN"
  obtain raw kdf where raw: "derived cr pw ?salt params = Some raw" "length raw = KEY_LEN"
      "length ?nonce = NONCE_LEN" "kdf_fields_from_params params ?salt = Inr kdf"
    and slot: "check_vault_key_slot \<lparr>vs_type = PASSPHRASE,
        vs_wrapped_key_b64 = b64encode (seal (cr_aead cr) c raw ?nonce
          (slot_associated_data PASSPHRASE) (key_bytes fk)),
        vs_kdf = Some kdf, vs_nonce_b64 = Some (b64encode ?nonce), vs_fingerprint = None,
        vs_label = ''Master passphrase''\<rparr> = Inr slot"
    using wrap unfolding wrap_Inr by blast
  have "kf_salt kdf = Inr ?salt"
    using raw(1) by (intro to_params_from_params(2) [OF raw(4)]) (auto simp: derived_def split: if_splits)
  then show ?thesis
    using raw fk lib check_vault_key_slot_passphrase [OF slot]
    by (simp add: unwrap_Inr vs_wrapped_key_def vs_nonce_def aead_correct_def)
qed

lemma slot_associated_data_inject:
  "slot_associated_data s = slot_associated_data t \<longleftrightarrow> s = t"
  by (cases s; cases t) (simp_all add: slot_associated_data_def)

lemma unwrap_errors:
  assumes "vault_key_slot_ok slot" "vs_type slot = PASSPHRASE"
    and "unwrap_with_passphrase cr slot pw params c = Inl e"
  shows "e \<in> {ValueError, KDFError, TypeError, DecryptionError}"
  using assms(3)
  by (auto simp: unwrap_with_passphrase_def bindE_eq_Inl kf_salt_def vs_wrapped_key_def vs_nonce_def
      file_key_from_bytes_def derive_key_derived dest!: derive_key_errors aead_decrypt_error
      split: option.splits if_splits)

section \<open>A concrete instance\<close>

definition demo_argon2 :: argon2 where
  "demo_argon2 buf pw salt params = (if buf then Argon2TypeError
     else Argon2Hash (take KEY_LEN (pw @ salt @ replicate KEY_LEN nul)))"

definition demo_crypto :: crypto where
  "demo_crypto = \<lparr>cr_aead = tagged_lib, cr_argon2 = demo_argon2, cr_mlock = True\<rparr>"

definition demo_params :: kdf_params where
  "demo_params = \<lparr>kp_algorithm = ARGON2ID, kp_time_cost = 3, kp_memory_cost = 262144,
     kp_parallelism = 4, kp_hash_len = 32, kp_salt_len = 16\<rparr>"

definition demo_draw :: draw where
  "demo_draw n = replicate n (CHR 0x07)"

definition demo_passphrase :: secure_bytes where
  "demo_passphrase = secure_from_text True ''correct horse''"

lemma demo_aead [simp]: "aead_correct (cr_aead demo_crypto)" "aead_authentic (cr_aead demo_crypto)"
  by (simp_all add: demo_crypto_def tagged_lib_correct tagged_lib_authentic)

lemma demo_params_ok [simp]: "kdf_params_ok demo_params"
  by (simp add: demo_params_def kdf_params_ok_def cost_ok_defs kdf_limits)

lemma length_demo_draw [simp]: "length (demo_draw n) = n"
  by (simp add: demo_draw_def)

lemma demo_derived:
  "length salt = 16 \<Longrightarrow> \<exists>raw. derived demo_crypto demo_passphrase salt demo_params = Some raw \<and>
     length raw = KEY_LEN"
  by (simp add: derived_def demo_crypto_def demo_passphrase_def secure_from_text_def sb_from_bytes_eq
      argon2_value_def demo_argon2_def) (simp add: demo_params_def)

lemma unary_length: "length (unary bs) = 2 * length bs + 1"
  by (induction bs) simp_all

lemma demo_wrap: "\<exists>slot. wrap_with_passphrase demo_crypto demo_draw demo_draw
    (generate_file_key demo_crypto demo_draw) demo_passphrase demo_params CHACHA20_POLY1305 = Inr slot"
proof -
  let ?salt = "demo_draw 16" and ?nonce = "demo_draw NONCE_LEN"
  obtain raw where raw: "derived demo_crypto demo_passphrase ?salt demo_params = Some raw"
      "length raw = KEY_LEN"
    using demo_derived [of ?salt] by auto
  let ?ct = "seal (cr_aead demo_crypto) CHACHA20_POLY1305 raw ?nonce
      (slot_associated_data PASSPHRASE) (key_bytes (generate_file_key demo_crypto demo_draw))"
  have ct: "?ct \<noteq> []" "length ?ct \<le> MAX_WRAPPED_KEY_LENGTH"
    using raw(2) by (simp_all add: demo_crypto_def tagged_lib_def tagged_seal_def unary_length
        slot_associated_data_def VAULT_FORMAT_TAG_def generate_file_key_def FILE_KEY_LEN_def
        KEY_LEN_def NONCE_LEN_def MAX_WRAPPED_KEY_LENGTH_def)
  obtain kdf where kdf: "kdf_fields_from_params demo_params ?salt = Inr kdf"
    by (simp add: kdf_fields_from_params_def check_kdf_fields_def validate_salt_def)
      (simp add: demo_params_def kdf_limits cost_ok_defs)
  then have "check_kdf_fields kdf = Inr kdf"
    by (simp add: kdf_fields_from_params_def check_kdf_fields_Inr)
  with ct have "\<exists>slot. check_vault_key_slot \<lparr>vs_type = PASSPHRASE, vs_wrapped_key_b64 = b64encode ?ct,
      vs_kdf = Some kdf, vs_nonce_b64 = Some (b64encode ?nonce), vs_fingerprint = None,
      vs_label = ''Master passphrase''\<rparr> = Inr slot"
    by (simp add: check_vault_key_slot_def validate_wrapped_def optionE_def validate_nonce_b64_def
        validate_slot_shape_def py_len_def MAX_VAULT_SLOT_LABEL_LENGTH_def)
  moreover have "kp_salt_len demo_params = 16" by (simp add: demo_params_def)
  ultimately show ?thesis
    using raw kdf unfolding wrap_Inr by (simp add: generate_file_key_def)
qed

section \<open>Properties\<close>

text \<open>
  A key slot opens with the passphrase it was made with: unwrapping the slot that
  \<open>wrap_with_passphrase\<close> returned, with the same passphrase, parameters and cipher, gives a
  buffer holding the same file key, if the AEAD decrypts what it encrypted; and the Argon2
  parameters can be read back from the slot.
\<close>

theorem unwrap_wrap:
  assumes "aead_correct (cr_aead cr)" and "length (key_bytes file_key) = FILE_KEY_LEN"
    and "wrap_with_passphrase cr salt_rnd nonce_rnd file_key passphrase params cipher = Inr slot"
  shows "(\<exists>k. unwrap_with_passphrase cr slot passphrase params cipher = Inr k \<and>
      key_bytes k = key_bytes file_key \<and> usable_key k) \<and>
    (\<exists>kdf. vs_kdf slot = Some kdf \<and> kdf_fields_to_params kdf = Inr params)"
proof
  show "\<exists>k. unwrap_with_passphrase cr slot passphrase params cipher = Inr k \<and>
      key_bytes k = key_bytes file_key \<and> usable_key k"
    using unwrap_wrapped [OF assms] assms(2) by (simp add: FILE_KEY_LEN_def)
  show "\<exists>kdf. vs_kdf slot = Some kdf \<and> kdf_fields_to_params kdf = Inr params"
    using assms(3) unfolding wrap_Inr
    by (auto simp: derived_def dest!: check_vault_key_slot_passphrase
        intro!: to_params_from_params(1) split: if_splits)
qed

theorem unwrap_wrap_witness:
  "\<exists>slot k. unwrap_with_passphrase demo_crypto slot demo_passphrase demo_params CHACHA20_POLY1305 = Inr k \<and>
     key_bytes k = replicate 32 (CHR 0x07)"
proof -
  obtain slot where s: "wrap_with_passphrase demo_crypto demo_draw demo_draw
      (generate_file_key demo_crypto demo_draw) demo_passphrase demo_params CHACHA20_POLY1305 = Inr slot"
    using demo_wrap by blast
  have k: "key_bytes (generate_file_key demo_crypto demo_draw) = replicate 32 (CHR 0x07)"
    by (simp add: generate_file_key_def demo_draw_def FILE_KEY_LEN_def KEY_LEN_def)
  from unwrap_wrap [OF demo_aead(1) _ s] k show ?thesis
    by (auto simp: FILE_KEY_LEN_def KEY_LEN_def)
qed

text \<open>
  Nothing else opens a passphrase slot: if the AEAD is authentic, a slot that unwraps to a
  key under a passphrase holds exactly that key sealed under the Argon2 output of that
  passphrase and the slot's own salt and nonce, with the associated data of a passphrase slot,
  which differs from that of every other slot type.
\<close>

theorem unwrap_authentic:
  assumes "aead_authentic (cr_aead cr)"
    and "unwrap_with_passphrase cr slot passphrase params cipher = Inr k"
  shows "\<exists>kdf salt raw n. vs_type slot = PASSPHRASE \<and> vs_kdf slot = Some kdf \<and>
      kf_salt kdf = Inr salt \<and> derived cr passphrase salt params = Some raw \<and> vs_nonce slot = Inr n \<and>
      vs_wrapped_key slot = Inr (seal (cr_aead cr) cipher raw n (slot_associated_data PASSPHRASE) (key_bytes k)) \<and>
      usable_key k \<and> (\<forall>t. slot_associated_data t = slot_associated_data PASSPHRASE \<longrightarrow> t = PASSPHRASE)"
  using assms unfolding unwrap_Inr aead_authentic_def
  by (auto simp: slot_associated_data_inject FILE_KEY_LEN_def)

theorem unwrap_authentic_witness:
  "\<exists>slot raw n k. vs_wrapped_key slot = Inr (seal tagged_lib CHACHA20_POLY1305 raw n
     (slot_associated_data PASSPHRASE) k)"
proof -
  obtain slot where s: "wrap_with_passphrase demo_crypto demo_draw demo_draw
      (generate_file_key demo_crypto demo_draw) demo_passphrase demo_params CHACHA20_POLY1305 = Inr slot"
    using demo_wrap by blast
  have "length (key_bytes (generate_file_key demo_crypto demo_draw)) = FILE_KEY_LEN"
    by (simp add: generate_file_key_def)
  from unwrap_authentic [OF demo_aead(2) unwrap_wrapped [OF demo_aead(1) this s]]
  show ?thesis by (auto simp: demo_crypto_def)
qed

end
