(* ===== verification/Vault_Payload.thy ===== *)
theory Vault_Payload
  imports Vault_Format Py_Value
begin

text \<open>
  The plaintext of a vault (\<open>services/vault_service.py\<close>): a length-prefixed msgpack manifest
  and one segment of key material per manifest entry, written by
  \<open>_serialise_segmented_payload\<close> and walked by \<open>_deserialise_segmented_payload\<close>, which also
  rewrites the older form that kept the key material inside the manifest. msgpack and
  pydantic's coercions are arguments. A manifest is a Python value here, of type \<open>pyobj\<close>.

  The lemmas show that a written payload is read back, byte ranges included, and that the byte
  ranges of everything accepted tile the payload exactly.
\<close>

section \<open>The libraries\<close>

text \<open>
  \<open>packb(obj, use_bin_type=True)\<close>; \<open>unpackb(blob, raw=False, ...)\<close>, which raises on malformed
  input; \<open>unpack(stream, raw=True, ...)\<close>, which reads one object and says how many bytes it
  took; ISO time stamps; and what pydantic's lax mode makes of a value where the model wants a
  \<open>str\<close>, a \<open>bool\<close> or a \<open>datetime\<close>.
\<close>

record payload_lib =
  packb :: "pyobj \<Rightarrow> bytes"
  unpackb :: "bytes \<Rightarrow> pyobj res"
  unpack_stream :: "bytes \<Rightarrow> (pyobj \<times> nat) res"
  isoformat :: "int \<Rightarrow> str"
  as_str :: "pyobj \<Rightarrow> str option"
  as_bool :: "pyobj \<Rightarrow> bool option"
  as_datetime :: "pyobj \<Rightarrow> int option"

section \<open>The manifest as a Python value\<close>

text \<open>\<open>manifest.model_dump(mode="json")\<close>.\<close>

definition entry_obj :: "payload_lib \<Rightarrow> vault_key_entry \<Rightarrow> pyobj" where
  "entry_obj lib e = PMap
     [(PStr ''fingerprint'', PStr (ve_fingerprint e)),
      (PStr ''user_ids'', PList (map PStr (ve_user_ids e))),
      (PStr ''has_private_key'', PBool (ve_has_private_key e)),
      (PStr ''is_stub'', PBool (ve_is_stub e)),
      (PStr ''created_at'', PStr (isoformat lib (ve_created_at e))),
      (PStr ''expires_at'', case ve_expires_at e of None \<Rightarrow> PNone | Some t \<Rightarrow> PStr (isoformat lib t))]"

definition manifest_obj :: "payload_lib \<Rightarrow> vault_manifest \<Rightarrow> pyobj" where
  "manifest_obj lib m = PMap
     [(PStr ''created_by'', PStr (vm_created_by m)),
      (PStr ''created_at'', PStr (isoformat lib (vm_created_at m))),
      (PStr ''app_version'', PStr (vm_app_version m)),
      (PStr ''description'', PStr (vm_description m)),
      (PStr ''keys'', PList (map (entry_obj lib) (vm_keys m)))]"

definition pfields :: "str list \<Rightarrow> pyobj \<Rightarrow> (pyobj \<times> pyobj) list res" where
  "pfields ks v = (case v of
       PMap ps \<Rightarrow> if list_all (\<lambda>p. fst p \<in> set (map PStr ks)) ps then Inr ps else Inl ValueError
     | _ \<Rightarrow> Inl ValueError)"

definition prequired :: "str \<Rightarrow> (pyobj \<Rightarrow> 'a option) \<Rightarrow> (pyobj \<times> pyobj) list \<Rightarrow> 'a res" where
  "prequired k f ps = (case map_of ps (PStr k) of
       None \<Rightarrow> Inl ValueError
     | Some v \<Rightarrow> of_option ValueError (f v))"

definition pdefault :: "str \<Rightarrow> 'a \<Rightarrow> (pyobj \<Rightarrow> 'a option) \<Rightarrow> (pyobj \<times> pyobj) list \<Rightarrow> 'a res" where
  "pdefault k d f ps = (case map_of ps (PStr k) of
       None \<Rightarrow> Inr d
     | Some v \<Rightarrow> of_option ValueError (f v))"

definition list_of :: "(pyobj \<Rightarrow> 'a option) \<Rightarrow> pyobj \<Rightarrow> 'a list option" where
  "list_of f v = (case v of PList xs \<Rightarrow> those (map f xs) | _ \<Rightarrow> None)"

definition optional_of :: "(pyobj \<Rightarrow> 'a option) \<Rightarrow> pyobj \<Rightarrow> 'a option option" where
  "optional_of f v = (if v = PNone then Some None else map_option Some (f v))"

definition read_entry :: "payload_lib \<Rightarrow> pyobj \<Rightarrow> vault_key_entry res" where
  "read_entry lib v =
     bindE (pfields [''fingerprint'', ''user_ids'', ''has_private_key'', ''is_stub'', ''created_at'',
       ''expires_at''] v) (\<lambda>ps.
     bindE (prequired ''fingerprint'' (as_str lib) ps) (\<lambda>fp.
     bindE (prequired ''user_ids'' (list_of (as_str lib)) ps) (\<lambda>uids.
     bindE (prequired ''has_private_key'' (as_bool lib) ps) (\<lambda>priv.
     bindE (pdefault ''is_stub'' False (as_bool lib) ps) (\<lambda>stub.
     bindE (prequired ''created_at'' (as_datetime lib) ps) (\<lambda>created.
     bindE (pdefault ''expires_at'' None (optional_of (as_datetime lib)) ps) (\<lambda>expires.
     check_vault_key_entry \<lparr>ve_fingerprint = fp, ve_user_ids = uids, ve_has_private_key = priv,
       ve_is_stub = stub, ve_created_at = created, ve_expires_at = expires\<rparr>)))))))"

definition read_manifest :: "payload_lib \<Rightarrow> pyobj \<Rightarrow> vault_manifest res" where
  "read_manifest lib v =
     bindE (pfields [''created_by'', ''created_at'', ''app_version'', ''description'', ''keys''] v) (\<lambda>ps.
     bindE (pdefault ''created_by'' [] (as_str lib) ps) (\<lambda>by.
     bindE (prequired ''created_at'' (as_datetime lib) ps) (\<lambda>at.
     bindE (prequired ''app_version'' (as_str lib) ps) (\<lambda>version.
     bindE (pdefault ''description'' [] (as_str lib) ps) (\<lambda>description.
     bindE (prequired ''keys'' (list_of (\<lambda>x. Some x)) ps) (\<lambda>xs.
     bindE (mapE (read_entry lib) xs) (\<lambda>ks.
     check_vault_manifest \<lparr>vm_created_by = by, vm_created_at = at, vm_app_version = version,
       vm_description = description, vm_keys = ks\<rparr>)))))))"

definition serialise_manifest :: "payload_lib \<Rightarrow> vault_manifest \<Rightarrow> bytes" where
  "serialise_manifest lib m = packb lib (manifest_obj lib m)"

text \<open>The exceptions of \<open>msgpack.unpackb\<close> are not caught; those of the validation are.\<close>

definition deserialise_manifest :: "payload_lib \<Rightarrow> bytes \<Rightarrow> vault_manifest res" where
  "deserialise_manifest lib blob =
     bindE (unpackb lib blob) (\<lambda>obj. case obj of
       PMap _ \<Rightarrow> (case read_manifest lib obj of Inr m \<Rightarrow> Inr m | Inl _ \<Rightarrow> Inl VaultFormatError)
     | _ \<Rightarrow> Inl VaultFormatError)"

section \<open>Writing\<close>

record collected_entry =
  ce_entry :: vault_key_entry
  ce_public_key :: bytes
  ce_private_key :: "bytes option"

fun key_bytes_or_empty :: "bytes option \<Rightarrow> bytes" where
  "key_bytes_or_empty None = []"
| "key_bytes_or_empty (Some b) = b"

definition append_key_material :: "bytes \<Rightarrow> str \<Rightarrow> bytes \<Rightarrow> bytes option \<Rightarrow> bytes res" where
  "append_key_material payload fingerprint public_key private_key =
     (if public_key = [] \<or> length public_key > MAX_VAULT_ARMOR_LENGTH then Inl VaultFormatError
      else if length (key_bytes_or_empty private_key) > MAX_VAULT_ARMOR_LENGTH
      then Inl VaultFormatError
      else
        bindE (fromhex fingerprint) (\<lambda>fp.
        bindE (pack_u32 (length public_key)) (\<lambda>public_len.
        bindE (pack_u32 (length (key_bytes_or_empty private_key))) (\<lambda>private_len.
        Inr (payload @ fp @ public_len @ public_key @ private_len @ key_bytes_or_empty private_key)))))"

fun append_all :: "bytes \<Rightarrow> (str \<times> bytes \<times> bytes option) list \<Rightarrow> bytes res" where
  "append_all payload [] = Inr payload"
| "append_all payload ((fp, pub, priv) # items) =
     bindE (append_key_material payload fp pub priv) (\<lambda>payload'. append_all payload' items)"

definition serialise_segmented_payload ::
    "payload_lib \<Rightarrow> collected_entry list \<Rightarrow> vault_manifest \<Rightarrow> bytes res" where
  "serialise_segmented_payload lib collected manifest =
     (let manifest_bytes = serialise_manifest lib manifest in
      bindE (pack_u32 (length manifest_bytes)) (\<lambda>n.
      append_all (n @ manifest_bytes)
        (map (\<lambda>c. (ve_fingerprint (ce_entry c), ce_public_key c, ce_private_key c)) collected)))"

section \<open>Reading\<close>

record key_slice =
  ks_public_start :: nat
  ks_public_end :: nat
  ks_private_start :: nat
  ks_private_end :: nat

definition FINGERPRINT_BYTES :: nat where "FINGERPRINT_BYTES = 20"

definition read_u32 :: "bytes \<Rightarrow> nat \<Rightarrow> (nat \<times> nat) res" where
  "read_u32 view offset =
     (if offset + 4 > length view then Inl VaultFormatError
      else bindE (unpack_u32 (slice offset (offset + 4) view)) (\<lambda>n. Inr (n, offset + 4)))"

definition read_key_slice :: "bytes \<Rightarrow> nat \<Rightarrow> vault_key_entry \<Rightarrow> (key_slice \<times> nat) res" where
  "read_key_slice view offset entry =
     (if offset + FINGERPRINT_BYTES > length view then Inl VaultFormatError
      else
        let fingerprint = hex_upper (slice offset (offset + FINGERPRINT_BYTES) view) in
        bindE (read_u32 view (offset + FINGERPRINT_BYTES)) (\<lambda>(public_len, public_start).
        if public_len < 1 \<or> public_len > MAX_VAULT_ARMOR_LENGTH then Inl VaultFormatError
        else
          let public_end = public_start + public_len in
          if public_end > length view then Inl VaultFormatError
          else
            bindE (read_u32 view public_end) (\<lambda>(private_len, private_start).
            if private_len > MAX_VAULT_ARMOR_LENGTH then Inl VaultFormatError
            else
              let private_end = private_start + private_len in
              if private_end > length view then Inl VaultFormatError
              else if fingerprint \<noteq> ve_fingerprint entry then Inl VaultFormatError
              else if ve_has_private_key entry \<and> private_len < 1 then Inl VaultFormatError
              else Inr (\<lparr>ks_public_start = public_start, ks_public_end = public_end,
                         ks_private_start = private_start, ks_private_end = private_end\<rparr>,
                        private_end))))"

text \<open>\<open>key_slices[entry.fingerprint] = key_slice\<close> over the entries in order.\<close>

fun walk_key_slices ::
    "bytes \<Rightarrow> nat \<Rightarrow> (str \<rightharpoonup> key_slice) \<Rightarrow> vault_key_entry list \<Rightarrow> ((str \<rightharpoonup> key_slice) \<times> nat) res"
where
  "walk_key_slices view offset acc [] = Inr (acc, offset)"
| "walk_key_slices view offset acc (e # es) =
     bindE (read_key_slice view offset e) (\<lambda>(ks, offset').
     walk_key_slices view offset' (acc(ve_fingerprint e \<mapsto> ks)) es)"

section \<open>The legacy form\<close>

text \<open>Recursive decoding of \<open>bytes\<close>; a key that decodes to one already there replaces its value.\<close>

fun legacy_bytes_to_str :: "pyobj \<Rightarrow> pyobj res" where
  "legacy_bytes_to_str (PBytes b) = (if utf8_ok b then Inr (PStr b) else Inl UnicodeError)"
| "legacy_bytes_to_str (PMap ps) =
     bindE (mapE (\<lambda>p. bindE (legacy_bytes_to_str (fst p)) (\<lambda>k.
                     bindE (legacy_bytes_to_str (snd p)) (\<lambda>v. Inr (k, v)))) ps)
       (\<lambda>qs. Inr (PMap (dict_of qs)))"
| "legacy_bytes_to_str (PList xs) = bindE (mapE legacy_bytes_to_str xs) (\<lambda>ys. Inr (PList ys))"
| "legacy_bytes_to_str v = Inr v"

definition pop_key :: "str \<Rightarrow> (pyobj \<times> pyobj) list \<Rightarrow> (pyobj \<times> pyobj) list" where
  "pop_key k ps = filter (\<lambda>p. fst p \<noteq> PBytes k) ps"

text \<open>One entry: what is left of it and the key material taken out, if it carried any.\<close>

definition pop_legacy_entry :: "pyobj \<Rightarrow> (pyobj \<times> (str \<times> bytes \<times> bytes option) option) res" where
  "pop_legacy_entry entry = (case entry of
       PMap ps \<Rightarrow> (case map_of ps (PBytes ''public_key_armored'') of
           None \<Rightarrow> Inr (PMap ps, None)
         | Some pub \<Rightarrow>
             let priv = map_of ps (PBytes ''private_key_armored'');
                 rest = pop_key ''private_key_armored'' (pop_key ''public_key_armored'' ps) in
             (case pub of
                PBytes pub_bytes \<Rightarrow>
                  bindE (case priv of
                           None \<Rightarrow> Inr None
                         | Some PNone \<Rightarrow> Inr None
                         | Some (PBytes b) \<Rightarrow> Inr (Some b)
                         | Some _ \<Rightarrow> Inl VaultFormatError) (\<lambda>priv_bytes.
                  bindE (case map_of rest (PBytes ''fingerprint'') of
                           Some (PBytes b) \<Rightarrow> if utf8_ok b then Inr b else Inl UnicodeError
                         | Some (PStr t) \<Rightarrow> Inr t
                         | _ \<Rightarrow> Inl VaultFormatError) (\<lambda>fp.
                  Inr (PMap rest, Some (fp, pub_bytes, priv_bytes))))
              | _ \<Rightarrow> Inl VaultFormatError))
     | _ \<Rightarrow> Inl VaultFormatError)"

definition pop_legacy_key_material ::
    "(pyobj \<times> pyobj) list \<Rightarrow> ((pyobj \<times> pyobj) list \<times> (str \<times> bytes \<times> bytes option) list) res" where
  "pop_legacy_key_material ps = (case map_of ps (PBytes ''keys'') of
       None \<Rightarrow> Inr (ps, [])
     | Some (PList es) \<Rightarrow>
         bindE (mapE pop_legacy_entry es) (\<lambda>rs.
         Inr (dict_put (PBytes ''keys'') (PList (map fst rs)) ps, List.map_filter snd rs))
     | Some _ \<Rightarrow> Inl VaultFormatError)"

text \<open>The rewritten payload and the offset of its key stream.\<close>

definition replace_with_segmented_payload ::
    "payload_lib \<Rightarrow> vault_manifest \<Rightarrow> (str \<times> bytes \<times> bytes option) list \<Rightarrow> (bytes \<times> nat) res" where
  "replace_with_segmented_payload lib manifest items =
     (let manifest_bytes = serialise_manifest lib manifest in
      bindE (pack_u32 (length manifest_bytes)) (\<lambda>n.
      bindE (append_all (n @ manifest_bytes) items) (\<lambda>payload.
      Inr (payload, 4 + length manifest_bytes))))"

definition legacy_steps :: "payload_lib \<Rightarrow> bytes \<Rightarrow> (vault_manifest \<times> nat \<times> bytes) res" where
  "legacy_steps lib payload =
     bindE (unpack_stream lib payload) (\<lambda>(obj, tell). case obj of
       PMap ps \<Rightarrow>
         bindE (pop_legacy_key_material ps) (\<lambda>(rest, items).
         bindE (legacy_bytes_to_str (PMap rest)) (\<lambda>decoded.
         bindE (read_manifest lib decoded) (\<lambda>manifest.
         if items \<noteq> [] then
           bindE (replace_with_segmented_payload lib manifest items) (\<lambda>(payload', offset).
           Inr (manifest, offset, payload'))
         else Inr (manifest, tell, payload))))
     | _ \<Rightarrow> Inl VaultFormatError)"

text \<open>\<open>_rebuild_legacy_segmented_payload\<close>: whatever goes wrong is a \<open>VaultFormatError\<close>.\<close>

definition rebuild_legacy_segmented_payload ::
    "payload_lib \<Rightarrow> bytes \<Rightarrow> (vault_manifest \<times> nat \<times> bytes) res" where
  "rebuild_legacy_segmented_payload lib payload = (case legacy_steps lib payload of
       Inr r \<Rightarrow> Inr r
     | Inl _ \<Rightarrow> Inl VaultFormatError)"

section \<open>The whole payload\<close>

definition read_manifest_segment :: "payload_lib \<Rightarrow> bytes \<Rightarrow> (vault_manifest \<times> nat \<times> bytes) res" where
  "read_manifest_segment lib payload =
     bindE (read_u32 payload 0) (\<lambda>(manifest_len, offset).
     let manifest_end = offset + manifest_len in
     if manifest_end > length payload then Inl VaultFormatError
     else bindE (deserialise_manifest lib (slice offset manifest_end payload)) (\<lambda>manifest.
       Inr (manifest, manifest_end, payload)))"

text \<open>The manifest, the byte ranges by fingerprint, and the payload they refer to.\<close>

definition deserialise_segmented_payload ::
    "payload_lib \<Rightarrow> bytes \<Rightarrow> (vault_manifest \<times> (str \<rightharpoonup> key_slice) \<times> bytes) res" where
  "deserialise_segmented_payload lib payload = (case payload of
       [] \<Rightarrow> Inl VaultFormatError
     | b # _ \<Rightarrow>
         bindE (if 128 \<le> code b \<and> code b \<le> 143 then rebuild_legacy_segmented_payload lib payload
                else read_manifest_segment lib payload) (\<lambda>(manifest, offset, view).
         bindE (walk_key_slices view offset Map.empty (vm_keys manifest)) (\<lambda>(slices, offset').
         if offset' \<noteq> length view then Inl VaultFormatError else Inr (manifest, slices, view))))"

text \<open>\<open>_OpenedVault.key_material\<close>.\<close>

definition key_material :: "(str \<rightharpoonup> key_slice) \<Rightarrow> bytes \<Rightarrow> str \<Rightarrow> bytes res" where
  "key_material slices payload fingerprint = (case slices fingerprint of
       None \<Rightarrow> Inl KeyError
     | Some ks \<Rightarrow> Inr (
         if ks_private_end ks > ks_private_start ks
         then slice (ks_private_start ks) (ks_private_end ks) payload
         else slice (ks_public_start ks) (ks_public_end ks) payload))"

section \<open>Reading what was written\<close>

definition segment :: "bytes \<Rightarrow> bytes \<Rightarrow> bytes \<Rightarrow> bytes" where
  "segment fp pub priv = fp @ u32_bytes (length pub) @ pub @ u32_bytes (length priv) @ priv"

lemma append_key_material_Inr:
  assumes "append_key_material payload fp pub priv = Inr out"
  shows "\<exists>raw. fromhex fp = Inr raw \<and> out = payload @ segment raw pub (key_bytes_or_empty priv) \<and>
    pub \<noteq> [] \<and> length pub \<le> MAX_VAULT_ARMOR_LENGTH \<and>
    length (key_bytes_or_empty priv) \<le> MAX_VAULT_ARMOR_LENGTH"
  using assms by (auto simp: append_key_material_def pack_u32_def segment_def split: if_splits)

lemma read_u32_at:
  "n < 2 ^ 32 \<Longrightarrow> i = length p \<Longrightarrow> read_u32 (p @ u32_bytes n @ s) i = Inr (n, i + 4)"
  by (simp add: read_u32_def slice_mid)

lemma read_key_slice_at:
  assumes raw: "length raw = 20" "hex_upper raw = ve_fingerprint e"
    and pub: "pub \<noteq> []" "length pub \<le> MAX_VAULT_ARMOR_LENGTH"
    and priv: "length priv \<le> MAX_VAULT_ARMOR_LENGTH" "ve_has_private_key e \<Longrightarrow> priv \<noteq> []"
  shows "read_key_slice (p @ segment raw pub priv @ s) (length p) e =
    Inr (\<lparr>ks_public_start = length p + 24, ks_public_end = length p + 24 + length pub,
      ks_private_start = length p + 28 + length pub,
      ks_private_end = length p + 28 + length pub + length priv\<rparr>,
      length (p @ segment raw pub priv))"
proof -
  let ?v = "p @ segment raw pub priv @ s"
  have fp: "slice (length p) (length p + 20) ?v = raw"
    using slice_mid [of "length p" p "length p + 20" raw] raw(1) by (simp add: segment_def)
  have a: "read_u32 ?v (length p + 20) = Inr (length pub, length p + 24)"
    using read_u32_at [of "length pub" "length p + 20" "p @ raw"] raw(1) pub(2)
    by (simp add: segment_def MAX_VAULT_ARMOR_LENGTH_def)
  have b: "read_u32 ?v (length p + 24 + length pub) = Inr (length priv, length p + 28 + length pub)"
    using read_u32_at [of "length priv" "length p + 24 + length pub"
        "p @ raw @ u32_bytes (length pub) @ pub"] raw(1) priv(1)
    by (simp add: segment_def MAX_VAULT_ARMOR_LENGTH_def)
  have l: "length ?v = length p + 28 + length pub + length priv + length s"
    using raw(1) by (simp add: segment_def)
  show ?thesis
    using pub priv raw fp a b l
    by (auto simp: read_key_slice_def FINGERPRINT_BYTES_def segment_def Suc_le_eq Let_def)
qed

text \<open>What \<open>_collect_entry\<close> guarantees of an item.\<close>

definition collected_ok :: "collected_entry \<Rightarrow> bool" where
  "collected_ok c \<longleftrightarrow> fingerprint_ok (ve_fingerprint (ce_entry c)) \<and>
     (ve_has_private_key (ce_entry c) \<longrightarrow> key_bytes_or_empty (ce_private_key c) \<noteq> [])"

definition item_of :: "collected_entry \<Rightarrow> str \<times> bytes \<times> bytes option" where
  "item_of c = (ve_fingerprint (ce_entry c), ce_public_key c, ce_private_key c)"

text \<open>A slice that holds the material of an item.\<close>

definition slice_holds :: "bytes \<Rightarrow> collected_entry \<Rightarrow> key_slice \<Rightarrow> bool" where
  "slice_holds view c ks \<longleftrightarrow>
     slice (ks_public_start ks) (ks_public_end ks) view = ce_public_key c \<and>
     slice (ks_private_start ks) (ks_private_end ks) view = key_bytes_or_empty (ce_private_key c) \<and>
     ks_private_end ks = ks_private_start ks + length (key_bytes_or_empty (ce_private_key c)) \<and>
     ks_private_end ks \<le> length view"

lemma fingerprint_hex:
  "fingerprint_ok fp \<Longrightarrow> \<exists>raw. fromhex fp = Inr raw \<and> hex_upper raw = fp \<and> length raw = 20"
  using fromhex_upper_hex [of fp] by (auto simp: fingerprint_ok_def FINGERPRINT_LENGTH_def)

lemma append_all_prefix: "append_all p items = Inr q \<Longrightarrow> \<exists>s. q = p @ s"
proof (induction items arbitrary: p)
  case (Cons i items)
  obtain fp pub priv where "i = (fp, pub, priv)" by (cases i) auto
  with Cons show ?case by (fastforce dest: append_key_material_Inr)
qed simp

lemma walk_append_all:
  assumes "append_all p (map item_of cs) = Inr view" and "list_all collected_ok cs"
  shows "\<exists>slices. walk_key_slices view (length p) acc (map ce_entry cs) = Inr (slices, length view) \<and>
    (\<forall>fp. fp \<notin> ve_fingerprint ` ce_entry ` set cs \<longrightarrow> slices fp = acc fp) \<and>
    (distinct (map (ve_fingerprint \<circ> ce_entry) cs) \<longrightarrow>
      (\<forall>c \<in> set cs. \<exists>ks. slices (ve_fingerprint (ce_entry c)) = Some ks \<and> slice_holds view c ks))"
  using assms
proof (induction cs arbitrary: p acc)
  case (Cons c cs)
  let ?fp = "ve_fingerprint (ce_entry c)" and ?pub = "ce_public_key c"
  let ?priv = "key_bytes_or_empty (ce_private_key c)"
  obtain p' where p': "append_key_material p ?fp ?pub (ce_private_key c) = Inr p'"
      "append_all p' (map item_of cs) = Inr view"
    using Cons.prems(1) by (auto simp: item_of_def [of c])
  obtain raw where raw: "fromhex ?fp = Inr raw" "hex_upper raw = ?fp" "length raw = 20"
    using Cons.prems(2) fingerprint_hex [of ?fp] by (auto simp: collected_ok_def)
  have seg: "p' = p @ segment raw ?pub ?priv" "?pub \<noteq> []" "length ?pub \<le> MAX_VAULT_ARMOR_LENGTH"
      "length ?priv \<le> MAX_VAULT_ARMOR_LENGTH"
    using append_key_material_Inr [OF p'(1)] raw(1) by auto
  obtain s where view: "view = p' @ s" using append_all_prefix [OF p'(2)] by blast
  define ks where "ks = \<lparr>ks_public_start = length p + 24, ks_public_end = length p + 24 + length ?pub,
      ks_private_start = length p + 28 + length ?pub,
      ks_private_end = length p + 28 + length ?pub + length ?priv\<rparr>"
  have r: "read_key_slice view (length p) (ce_entry c) = Inr (ks, length p')"
    using read_key_slice_at [OF raw(3,2) seg(2,3,4), of p s] Cons.prems(2)
    by (simp add: view seg(1) ks_def collected_ok_def)
  have holds: "slice_holds view c ks"
    using slice_mid [of "length p + 24" "p @ raw @ u32_bytes (length ?pub)" _ ?pub]
      slice_mid [of "length p + 28 + length ?pub"
        "p @ raw @ u32_bytes (length ?pub) @ ?pub @ u32_bytes (length ?priv)" _ ?priv] raw(3)
    by (simp add: slice_holds_def ks_def view seg(1) segment_def)
  have rest: "list_all collected_ok cs" using Cons.prems(2) by simp
  obtain slices where sl: "walk_key_slices view (length p') (acc(?fp \<mapsto> ks)) (map ce_entry cs) = Inr (slices, length view)"
    "\<And>fp. fp \<notin> ve_fingerprint ` ce_entry ` set cs \<Longrightarrow> slices fp = (acc(?fp \<mapsto> ks)) fp"
    "distinct (map (ve_fingerprint \<circ> ce_entry) cs) \<Longrightarrow>
      (\<forall>c \<in> set cs. \<exists>ks. slices (ve_fingerprint (ce_entry c)) = Some ks \<and> slice_holds view c ks)"
    using Cons.IH [OF p'(2) rest, of "acc(?fp \<mapsto> ks)"] by blast
  show ?case
    using sl [unfolded comp_def image_image] holds
    by (auto simp: r comp_def image_image intro!: exI [of _ slices])
qed (simp)

text \<open>What the payload needs of the libraries, for one manifest.\<close>

definition manifest_reads_back :: "payload_lib \<Rightarrow> vault_manifest \<Rightarrow> bool" where
  "manifest_reads_back lib m \<longleftrightarrow>
     unpackb lib (packb lib (manifest_obj lib m)) = Inr (manifest_obj lib m) \<and>
     length (packb lib (manifest_obj lib m)) < 2 ^ 31"

definition dumps_read_back :: "payload_lib \<Rightarrow> bool" where
  "dumps_read_back lib \<longleftrightarrow> (\<forall>s. as_str lib (PStr s) = Some s) \<and> (\<forall>b. as_bool lib (PBool b) = Some b) \<and>
     (\<forall>t. as_datetime lib (PStr (isoformat lib t)) = Some t)"

lemma those_map: "(\<And>x. x \<in> set xs \<Longrightarrow> f x = Some (g x)) \<Longrightarrow> those (map f xs) = Some (map g xs)"
  by (induction xs) auto

lemma read_entry_obj:
  assumes "dumps_read_back lib" "check_vault_key_entry e = Inr e"
  shows "read_entry lib (entry_obj lib e) = Inr e"
proof -
  have u: "those (map (as_str lib \<circ> PStr) us) = Some us" for us
    using assms(1) those_map [of us "as_str lib \<circ> PStr" id] by (simp add: dumps_read_back_def)
  obtain fp us priv stub created expires where e: "e = \<lparr>ve_fingerprint = fp, ve_user_ids = us,
      ve_has_private_key = priv, ve_is_stub = stub, ve_created_at = created, ve_expires_at = expires\<rparr>"
    by (cases e) auto
  have x: "optional_of (as_datetime lib) (case expires of None \<Rightarrow> PNone | Some t \<Rightarrow> PStr (isoformat lib t))
      = Some expires"
    using assms(1) by (cases expires) (simp_all add: optional_of_def dumps_read_back_def)
  show ?thesis using assms
    by (simp add: e entry_obj_def read_entry_def pfields_def prequired_def pdefault_def list_of_def u x
        dumps_read_back_def)
qed

lemma check_vault_key_entry_id:
  "check_vault_key_entry e = Inr e \<longleftrightarrow> py_len (ve_fingerprint e) = FINGERPRINT_LENGTH \<and>
     fingerprint_ok (ve_fingerprint e) \<and> length (ve_user_ids e) \<le> MAX_VAULT_USER_IDS \<and>
     list_all (\<lambda>u. py_len u \<le> MAX_VAULT_USER_ID_LENGTH) (ve_user_ids e)"
  by (cases e) (auto simp: check_vault_key_entry_def normalise_fingerprint_Inr)

lemma read_manifest_obj:
  assumes "dumps_read_back lib" "check_vault_manifest m = Inr m"
  shows "read_manifest lib (manifest_obj lib m) = Inr m"
proof -
  obtain creator at ver desc ks where m: "m = \<lparr>vm_created_by = creator, vm_created_at = at,
      vm_app_version = ver, vm_description = desc, vm_keys = ks\<rparr>"
    by (cases m) auto
  have "mapE check_vault_key_entry ks = Inr ks"
    using assms(2) by (auto simp: check_vault_manifest_def m split: if_splits)
  then have k: "mapE (read_entry lib) (map (entry_obj lib) ks) = Inr ks"
    using read_entry_obj [OF assms(1)] by (simp add: mapE_list_all2 list_all2_map1 list_all2_same)
  have t: "those (map (\<lambda>x. Some (f x)) xs) = Some (map f xs)" for f :: "vault_key_entry \<Rightarrow> pyobj" and xs
    by (induction xs) auto
  show ?thesis using assms
    by (simp add: m manifest_obj_def read_manifest_def pfields_def prequired_def pdefault_def
        list_of_def t k dumps_read_back_def comp_def)
qed

lemma deserialise_serialise_manifest:
  assumes "dumps_read_back lib" "manifest_reads_back lib m" "check_vault_manifest m = Inr m"
  shows "deserialise_manifest lib (serialise_manifest lib m) = Inr m"
  using assms read_manifest_obj [OF assms(1,3)]
  by (simp add: deserialise_manifest_def serialise_manifest_def manifest_reads_back_def manifest_obj_def)

lemma first_length_byte: "n < 2 ^ 31 \<Longrightarrow> \<exists>b r. u32_bytes n = b # r \<and> code b < 128"
  by (simp add: u32_bytes_def)

lemma deserialise_serialised:
  assumes lib: "dumps_read_back lib" "manifest_reads_back lib m" "check_vault_manifest m = Inr m"
    and keys: "vm_keys m = map ce_entry cs" "list_all collected_ok cs"
    and ser: "serialise_segmented_payload lib cs m = Inr payload"
  shows "\<exists>slices. deserialise_segmented_payload lib payload = Inr (m, slices, payload) \<and>
    (distinct (map (ve_fingerprint \<circ> ce_entry) cs) \<longrightarrow>
      (\<forall>c \<in> set cs. \<exists>ks. slices (ve_fingerprint (ce_entry c)) = Some ks \<and> slice_holds payload c ks))"
proof -
  let ?mb = "serialise_manifest lib m"
  have small: "length ?mb < 2 ^ 31" using lib(2) by (simp add: manifest_reads_back_def serialise_manifest_def)
  have app: "append_all (u32_bytes (length ?mb) @ ?mb) (map item_of cs) = Inr payload"
    using ser small by (simp add: serialise_segmented_payload_def Let_def pack_u32_def item_of_def [abs_def])
  obtain s where pl: "payload = u32_bytes (length ?mb) @ ?mb @ s"
    using append_all_prefix [OF app] by auto
  obtain b r where b: "u32_bytes (length ?mb) = b # r" "code b < 128"
    using first_length_byte [OF small] by blast
  have u: "read_u32 payload 0 = Inr (length ?mb, 4)"
    using read_u32_at [of "length ?mb" 0 "[]" "?mb @ s"] small by (simp add: pl)
  have sl: "slice 4 (4 + length ?mb) payload = ?mb"
    using slice_mid [of 4 "u32_bytes (length ?mb)"] by (simp add: pl)
  have seg: "read_manifest_segment lib payload = Inr (m, 4 + length ?mb, payload)"
    using deserialise_serialise_manifest [OF lib] u sl
    by (simp add: read_manifest_segment_def Let_def) (simp add: pl)
  obtain slices where w: "walk_key_slices payload (4 + length ?mb) Map.empty (map ce_entry cs) =
      Inr (slices, length payload)"
    and "distinct (map (ve_fingerprint \<circ> ce_entry) cs) \<longrightarrow>
      (\<forall>c \<in> set cs. \<exists>ks. slices (ve_fingerprint (ce_entry c)) = Some ks \<and> slice_holds payload c ks)"
    using walk_append_all [OF app keys(2), of Map.empty] by auto
  moreover have "deserialise_segmented_payload lib payload = Inr (m, slices, payload)"
    using b seg w keys(1) by (simp add: deserialise_segmented_payload_def pl)
  ultimately show ?thesis by blast
qed

section \<open>The layout of what is accepted\<close>

lemma read_u32_Inr:
  "read_u32 v i = Inr (n, j) \<Longrightarrow> j = i + 4 \<and> j \<le> length v \<and> slice i j v = u32_bytes n \<and> n < 2 ^ 32"
  by (auto simp: read_u32_def u32_bytes_unpack dest: unpack_u32_bound split: if_splits)

lemma slice_all: "slice i (length v) v = drop i v"
  by (simp add: slice_def)

lemma slice_join: "i \<le> j \<Longrightarrow> j \<le> k \<Longrightarrow> slice i k v = slice i j v @ slice j k v"
proof -
  assume le: "i \<le> j" "j \<le> k"
  then have "k - i = (j - i) + (k - j)" by simp
  then have "slice i k v = take (j - i) (drop i v) @ take (k - j) (drop (j - i) (drop i v))"
    unfolding slice_def by (simp only: take_add)
  then show ?thesis using le by (simp add: slice_def)
qed

text \<open>An accepted segment for an entry, of which \<open>ks\<close> are the byte ranges.\<close>

definition segment_for :: "vault_key_entry \<Rightarrow> bytes \<times> bytes \<times> bytes \<Rightarrow> bool" where
  "segment_for e = (\<lambda>(raw, pub, priv). hex_upper raw = ve_fingerprint e \<and> pub \<noteq> [] \<and>
     length pub \<le> MAX_VAULT_ARMOR_LENGTH \<and> length priv \<le> MAX_VAULT_ARMOR_LENGTH \<and>
     (ve_has_private_key e \<longrightarrow> priv \<noteq> []))"

fun segment_bytes :: "bytes \<times> bytes \<times> bytes \<Rightarrow> bytes" where
  "segment_bytes (raw, pub, priv) = segment raw pub priv"

lemma read_key_slice_Inr:
  assumes "read_key_slice v i e = Inr (ks, j)"
  shows "\<exists>seg. segment_for e seg \<and> slice i j v = segment_bytes seg \<and> i \<le> j \<and> j \<le> length v"
proof -
  from assms obtain n a m b where u: "read_u32 v (i + 20) = Inr (n, a)" "1 \<le> n"
      "n \<le> MAX_VAULT_ARMOR_LENGTH" "read_u32 v (a + n) = Inr (m, b)" "m \<le> MAX_VAULT_ARMOR_LENGTH"
      "j = b + m" "b + m \<le> length v" "hex_upper (slice i (i + 20) v) = ve_fingerprint e"
      "ve_has_private_key e \<longrightarrow> 1 \<le> m"
    by (auto simp: read_key_slice_def Let_def FINGERPRINT_BYTES_def split: if_splits)
  have a: "a = i + 24" "slice (i + 20) a v = u32_bytes n" using read_u32_Inr [OF u(1)] by auto
  have b: "b = i + 28 + n" "slice (a + n) b v = u32_bytes m" using read_u32_Inr [OF u(4)] a by auto
  have l: "length (slice p q v) = q - p" if "q \<le> j" for p q
    using that u(6,7) by (simp add: slice_def)
  have "slice i j v = slice i (i + 20) v @ slice (i + 20) a v @ slice a (a + n) v @ slice (a + n) b v @ slice b j v"
    using a(1) b(1) u(6) slice_join [of i "i + 20" j v] slice_join [of "i + 20" a j v]
      slice_join [of a "a + n" j v] slice_join [of "a + n" b j v] by simp
  then have "slice i j v = segment_bytes (slice i (i + 20) v, slice a (a + n) v, slice b j v)"
    using a b u(6) by (simp add: segment_def l)
  moreover have "segment_for e (slice i (i + 20) v, slice a (a + n) v, slice b j v)"
  proof -
    have "length (slice a (a + n) v) = n" "length (slice b j v) = m" using a b u(6) by (simp_all add: l)
    then show ?thesis using u by (auto simp: segment_for_def)
  qed
  ultimately show ?thesis using a b u by auto
qed

lemma walk_Inr:
  "walk_key_slices v i acc es = Inr (slices, j) \<Longrightarrow>
   \<exists>segs. list_all2 segment_for es segs \<and> slice i j v = concat (map segment_bytes segs) \<and> i \<le> j \<and>
     (es \<noteq> [] \<longrightarrow> j \<le> length v)"
proof (induction es arbitrary: i acc)
  case (Cons e es)
  then obtain ks k where k: "read_key_slice v i e = Inr (ks, k)"
      "walk_key_slices v k (acc(ve_fingerprint e \<mapsto> ks)) es = Inr (slices, j)"
    by auto
  obtain seg where seg: "segment_for e seg" "slice i k v = segment_bytes seg" "i \<le> k" "k \<le> length v"
    using read_key_slice_Inr [OF k(1)] by blast
  obtain segs where segs: "list_all2 segment_for es segs"
      "slice k j v = concat (map segment_bytes segs)" "k \<le> j" "es \<noteq> [] \<longrightarrow> j \<le> length v"
    using Cons.IH [OF k(2)] by blast
  have "j \<le> length v" using segs(4) k(2) seg(4) by (cases es) auto
  then show ?case
    using seg segs slice_join [of i k j v] by (intro exI [of _ "seg # segs"]) simp
qed (simp add: slice_def)

lemma read_key_slice_ranges:
  assumes "read_key_slice v i e = Inr (ks, j)"
  shows "i + 24 = ks_public_start ks \<and> ks_public_start ks < ks_public_end ks \<and>
    ks_private_start ks = ks_public_end ks + 4 \<and> ks_private_start ks \<le> ks_private_end ks \<and>
    ks_private_end ks = j \<and> j \<le> length v \<and>
    (ve_has_private_key e \<longrightarrow> ks_private_start ks < ks_private_end ks)"
  using assms by (auto simp: read_key_slice_def Let_def FINGERPRINT_BYTES_def split: if_splits
      dest!: read_u32_Inr)

lemma walk_ranges:
  assumes "walk_key_slices v i acc es = Inr (slices, j)"
    and "\<And>fp ks. acc fp = Some ks \<Longrightarrow> ks_public_start ks < ks_public_end ks \<and>
      ks_public_end ks \<le> ks_private_start ks \<and> ks_private_start ks \<le> ks_private_end ks \<and>
      ks_private_end ks \<le> length v"
    and "slices fp = Some ks"
  shows "ks_public_start ks < ks_public_end ks \<and> ks_public_end ks \<le> ks_private_start ks \<and>
    ks_private_start ks \<le> ks_private_end ks \<and> ks_private_end ks \<le> length v"
  using assms
proof (induction es arbitrary: i acc)
  case (Cons e es)
  then obtain k' k where k: "read_key_slice v i e = Inr (k', k)"
      "walk_key_slices v k (acc(ve_fingerprint e \<mapsto> k')) es = Inr (slices, j)"
    by auto
  show ?case
    using read_key_slice_ranges [OF k(1)] Cons.prems(2)
    by (intro Cons.IH [OF k(2) _ Cons.prems(3)]) (auto split: if_splits)
qed simp

section \<open>The legacy form is normalised\<close>

lemma normalised: "normalise_fingerprint v = Inr fp \<Longrightarrow>
    normalise_fingerprint fp = Inr fp \<and> py_len fp = FINGERPRINT_LENGTH"
  by (metis normalise_idem normalise_fingerprint_Inr py_len_fingerprint)

lemma check_vault_key_entry_idem: "check_vault_key_entry e = Inr e' \<Longrightarrow> check_vault_key_entry e' = Inr e'"
  by (auto simp: check_vault_key_entry_def split: if_splits dest: normalised)

lemma check_entries_idem:
  "mapE check_vault_key_entry es = Inr es' \<Longrightarrow> mapE check_vault_key_entry es' = Inr es'"
  by (rule mapE_idem [OF check_vault_key_entry_idem])

lemma check_vault_manifest_idem:
  assumes "check_vault_manifest m = Inr m'" shows "check_vault_manifest m' = Inr m'"
proof -
  obtain ks where ks: "mapE check_vault_key_entry (vm_keys m) = Inr ks" "m' = m\<lparr>vm_keys := ks\<rparr>"
    and b: "py_len (vm_created_by m) \<le> MAX_VAULT_CREATED_BY_LENGTH"
      "py_len (vm_description m) \<le> MAX_VAULT_DESCRIPTION_LENGTH" "length (vm_keys m) \<le> MAX_VAULT_KEYS"
    using assms by (auto simp: check_vault_manifest_def split: if_splits)
  show ?thesis
    using b mapE_length [OF ks(1)] by (simp add: check_vault_manifest_def ks(2) check_entries_idem [OF ks(1)])
qed

lemma read_manifest_check: "read_manifest lib v = Inr m \<Longrightarrow> check_vault_manifest m = Inr m"
  by (auto simp: read_manifest_def intro: check_vault_manifest_idem)

lemma read_rewritten_segment:
  assumes lib: "dumps_read_back lib" "manifest_reads_back lib m" "check_vault_manifest m = Inr m"
    and app: "append_all (u32_bytes (length (serialise_manifest lib m)) @ serialise_manifest lib m) items
      = Inr payload"
  shows "read_manifest_segment lib payload = Inr (m, 4 + length (serialise_manifest lib m), payload)"
    and "\<exists>b r. payload = b # r \<and> code b < 128"
proof -
  let ?mb = "serialise_manifest lib m"
  have small: "length ?mb < 2 ^ 31" using lib(2) by (simp add: manifest_reads_back_def serialise_manifest_def)
  obtain s where pl: "payload = u32_bytes (length ?mb) @ ?mb @ s"
    using append_all_prefix [OF app] by auto
  show "\<exists>b r. payload = b # r \<and> code b < 128"
    using first_length_byte [OF small] by (auto simp: pl)
  have u: "read_u32 payload 0 = Inr (length ?mb, 4)"
    using read_u32_at [of "length ?mb" 0 "[]" "?mb @ s"] small by (simp add: pl)
  have sl: "slice 4 (4 + length ?mb) payload = ?mb"
    using slice_mid [of 4 "u32_bytes (length ?mb)"] by (simp add: pl)
  show "read_manifest_segment lib payload = Inr (m, 4 + length ?mb, payload)"
    using deserialise_serialise_manifest [OF lib] u sl
    by (simp add: read_manifest_segment_def Let_def) (simp add: pl)
qed

lemma rebuild_Inr:
  assumes "rebuild_legacy_segmented_payload lib payload = Inr (m, off, payload')"
  shows "check_vault_manifest m = Inr m \<and> (payload' = payload \<or>
    (\<exists>items. append_all (u32_bytes (length (serialise_manifest lib m)) @ serialise_manifest lib m) items
      = Inr payload' \<and> off = 4 + length (serialise_manifest lib m)))"
proof -
  have "legacy_steps lib payload = Inr (m, off, payload')"
    using assms by (simp add: rebuild_legacy_segmented_payload_def split: sum.splits)
  then obtain obj tell where o: "unpack_stream lib payload = Inr (obj, tell)"
    by (auto simp: legacy_steps_def)
  with \<open>legacy_steps lib payload = _\<close> obtain ps where u: "unpack_stream lib payload = Inr (PMap ps, tell)"
    by (cases obj) (simp_all add: legacy_steps_def)
  with \<open>legacy_steps lib payload = _\<close> show ?thesis
    by (auto simp: legacy_steps_def replace_with_segmented_payload_def Let_def pack_u32_def
        split: if_splits dest: read_manifest_check)
qed

lemma deserialise_legacy_normal:
  assumes lib: "dumps_read_back lib" "manifest_reads_back lib m"
    and des: "deserialise_segmented_payload lib payload = Inr (m, slices, payload')"
  shows "deserialise_segmented_payload lib payload' = Inr (m, slices, payload')"
proof (cases "payload' = payload")
  case True then show ?thesis using des by simp
next
  case False
  obtain off where reb: "rebuild_legacy_segmented_payload lib payload = Inr (m, off, payload')"
    and walk: "walk_key_slices payload' off Map.empty (vm_keys m) = Inr (slices, length payload')"
    using des False
    by (auto simp: deserialise_segmented_payload_def read_manifest_segment_def Let_def
        split: list.splits if_splits)
  obtain items where app: "append_all (u32_bytes (length (serialise_manifest lib m)) @
      serialise_manifest lib m) items = Inr payload'" and off: "off = 4 + length (serialise_manifest lib m)"
    and ok: "check_vault_manifest m = Inr m"
    using rebuild_Inr [OF reb] False by auto
  obtain b r where "payload' = b # r" "code b < 128"
    using read_rewritten_segment(2) [OF lib ok app] by blast
  then show ?thesis
    using read_rewritten_segment(1) [OF lib ok app] walk off
    by (simp add: deserialise_segmented_payload_def)
qed

section \<open>A concrete payload\<close>

definition demo_datetime :: "pyobj \<Rightarrow> int option" where
  "demo_datetime v = (case v of
       PStr (c # r) \<Rightarrow> Some (if c = CHR ''-'' then - int (digits_val r) else int (digits_val (c # r)))
     | _ \<Rightarrow> None)"

lemma demo_datetime_iso: "demo_datetime (PStr (show_int t)) = Some t"
proof -
  obtain d ds where d: "show_nat (nat t) = d # ds" "is_digit d" by (rule show_nat_Cons) blast
  then have "d \<noteq> CHR ''-''" by (auto simp: is_digit_def)
  moreover have "digits_val (d # ds) = nat t" using digits_val_show [of "nat t"] d by simp
  ultimately show ?thesis using d by (simp add: demo_datetime_def show_int_def)
qed

definition demo_fp :: str where
  "demo_fp = replicate 40 (CHR ''A'')"

definition demo_entry :: vault_key_entry where
  "demo_entry = \<lparr>ve_fingerprint = demo_fp, ve_user_ids = [''Alice''], ve_has_private_key = True,
     ve_is_stub = False, ve_created_at = 5, ve_expires_at = None\<rparr>"

definition demo_manifest :: vault_manifest where
  "demo_manifest = \<lparr>vm_created_by = [], vm_created_at = 7, vm_app_version = ''1'', vm_description = [],
     vm_keys = [demo_entry]\<rparr>"

definition demo_collected :: "collected_entry list" where
  "demo_collected = [\<lparr>ce_entry = demo_entry, ce_public_key = ''pub'', ce_private_key = Some ''priv''\<rparr>]"

text \<open>A msgpack that knows one object.\<close>

definition demo_base :: payload_lib where
  "demo_base = \<lparr>packb = (\<lambda>_. ''m''), unpackb = (\<lambda>_. Inl ValueError),
     unpack_stream = (\<lambda>_. Inl ValueError), isoformat = show_int,
     as_str = (\<lambda>v. case v of PStr s \<Rightarrow> Some s | _ \<Rightarrow> None),
     as_bool = (\<lambda>v. case v of PBool b \<Rightarrow> Some b | _ \<Rightarrow> None), as_datetime = demo_datetime\<rparr>"

definition demo_lib :: payload_lib where
  "demo_lib = demo_base\<lparr>unpackb := (\<lambda>b. if b = ''m'' then Inr (manifest_obj demo_base demo_manifest)
     else Inl ValueError)\<rparr>"

lemma demo_manifest_obj: "manifest_obj demo_lib m = manifest_obj demo_base m"
proof -
  have "entry_obj demo_lib = entry_obj demo_base"
    by (rule ext) (simp add: demo_lib_def entry_obj_def cong: option.case_cong)
  then show ?thesis by (simp add: demo_lib_def manifest_obj_def)
qed

lemma demo_lib_ok: "dumps_read_back demo_lib" "manifest_reads_back demo_lib demo_manifest"
  by (simp_all add: dumps_read_back_def manifest_reads_back_def demo_manifest_obj)
    (simp_all add: demo_lib_def demo_base_def demo_datetime_iso)

lemma demo_fp_ok: "fingerprint_ok demo_fp"
  by (simp add: demo_fp_def fingerprint_ok_def FINGERPRINT_LENGTH_def is_upper_hex_def list_all_iff)

lemma demo_manifest_ok: "check_vault_manifest demo_manifest = Inr demo_manifest"
proof -
  have "py_len ''Alice'' = 5" "py_len [] = 0" by (simp_all add: py_len_def)
  then show ?thesis
    by (simp add: demo_manifest_def demo_entry_def check_vault_manifest_def check_vault_key_entry_def
      demo_fp_ok MAX_VAULT_CREATED_BY_LENGTH_def MAX_VAULT_DESCRIPTION_LENGTH_def
      MAX_VAULT_KEYS_def MAX_VAULT_USER_IDS_def MAX_VAULT_USER_ID_LENGTH_def)
qed

lemma demo_serialise: "\<exists>payload. serialise_segmented_payload demo_lib demo_collected demo_manifest = Inr payload"
proof -
  obtain raw where "fromhex demo_fp = Inr raw" using fingerprint_hex [OF demo_fp_ok] by blast
  then show ?thesis
    by (simp add: serialise_segmented_payload_def Let_def serialise_manifest_def demo_lib_def demo_base_def
        demo_collected_def demo_entry_def append_key_material_def pack_u32_def MAX_VAULT_ARMOR_LENGTH_def)
qed

lemma demo_collected_ok: "list_all collected_ok demo_collected" "vm_keys demo_manifest = map ce_entry demo_collected"
  by (simp_all add: demo_collected_def collected_ok_def demo_entry_def demo_fp_ok demo_manifest_def)

text \<open>A vault of the older form, as \<open>unpack(..., raw=True)\<close> hands it over.\<close>

definition legacy_entry :: pyobj where
  "legacy_entry = PMap
     [(PBytes ''fingerprint'', PBytes demo_fp), (PBytes ''user_ids'', PList [PBytes ''Alice'']),
      (PBytes ''has_private_key'', PBool True), (PBytes ''is_stub'', PBool False),
      (PBytes ''created_at'', PBytes ''5''), (PBytes ''expires_at'', PNone),
      (PBytes ''public_key_armored'', PBytes ''pub''), (PBytes ''private_key_armored'', PBytes ''priv'')]"

definition legacy_lib :: payload_lib where
  "legacy_lib = demo_lib\<lparr>unpack_stream := (\<lambda>_. Inr (PMap
     [(PBytes ''created_by'', PBytes []), (PBytes ''created_at'', PBytes ''7''),
      (PBytes ''app_version'', PBytes ''1''), (PBytes ''description'', PBytes []),
      (PBytes ''keys'', PList [legacy_entry])], 1))\<rparr>"

lemma legacy_lib_same:
  "manifest_obj legacy_lib m = manifest_obj demo_base m" "packb legacy_lib = packb demo_lib"
  "unpackb legacy_lib = unpackb demo_lib" "as_str legacy_lib = as_str demo_lib"
  "as_bool legacy_lib = as_bool demo_lib" "as_datetime legacy_lib = as_datetime demo_lib"
  "isoformat legacy_lib = isoformat demo_lib"
proof -
  show "manifest_obj legacy_lib m = manifest_obj demo_base m"
    unfolding demo_manifest_obj [symmetric] manifest_obj_def
    by (simp add: legacy_lib_def demo_lib_def entry_obj_def [abs_def] cong: option.case_cong)
qed (simp_all add: legacy_lib_def)

lemma legacy_lib_ok: "dumps_read_back legacy_lib" "manifest_reads_back legacy_lib demo_manifest"
  using demo_lib_ok by (simp_all add: dumps_read_back_def manifest_reads_back_def legacy_lib_same demo_manifest_obj)

lemma legacy_digits: "demo_datetime (PStr ''5'') = Some 5" "demo_datetime (PStr ''7'') = Some 7"
  by (simp_all add: demo_datetime_def digits_val_def)

lemma legacy_popped:
  "pop_legacy_entry legacy_entry = Inr (PMap
     [(PBytes ''fingerprint'', PBytes demo_fp), (PBytes ''user_ids'', PList [PBytes ''Alice'']),
      (PBytes ''has_private_key'', PBool True), (PBytes ''is_stub'', PBool False),
      (PBytes ''created_at'', PBytes ''5''), (PBytes ''expires_at'', PNone)],
     Some (demo_fp, ''pub'', Some ''priv''))"
  by (simp add: pop_legacy_entry_def legacy_entry_def pop_key_def Let_def fingerprint_text demo_fp_ok)

text \<open>What decoding leaves of an entry, and of the whole.\<close>

definition legacy_rest :: pyobj where
  "legacy_rest = PMap
     [(PBytes ''fingerprint'', PBytes demo_fp), (PBytes ''user_ids'', PList [PBytes ''Alice'']),
      (PBytes ''has_private_key'', PBool True), (PBytes ''is_stub'', PBool False),
      (PBytes ''created_at'', PBytes ''5''), (PBytes ''expires_at'', PNone)]"

definition decoded_entry :: pyobj where
  "decoded_entry = PMap
     [(PStr ''fingerprint'', PStr demo_fp), (PStr ''user_ids'', PList [PStr ''Alice'']),
      (PStr ''has_private_key'', PBool True), (PStr ''is_stub'', PBool False),
      (PStr ''created_at'', PStr ''5''), (PStr ''expires_at'', PNone)]"

lemma legacy_rest_decoded: "legacy_bytes_to_str legacy_rest = Inr decoded_entry"
  by (simp add: legacy_rest_def decoded_entry_def fingerprint_text demo_fp_ok dict_of_def)

lemma legacy_fields:
  "as_str legacy_lib (PStr t) = Some t" "as_bool legacy_lib (PBool b) = Some b"
  "as_datetime legacy_lib (PStr ''5'') = Some 5" "as_datetime legacy_lib (PStr ''7'') = Some 7"
  "unpack_stream legacy_lib payload = Inr (PMap
     [(PBytes ''created_by'', PBytes []), (PBytes ''created_at'', PBytes ''7''),
      (PBytes ''app_version'', PBytes ''1''), (PBytes ''description'', PBytes []),
      (PBytes ''keys'', PList [legacy_entry])], 1)"
  using legacy_digits by (simp_all add: legacy_lib_def demo_lib_def demo_base_def)

lemma decoded_entry_read: "read_entry legacy_lib decoded_entry = Inr demo_entry"
proof -
  have "check_vault_key_entry demo_entry = Inr demo_entry"
    using demo_manifest_ok by (auto simp: check_vault_manifest_def demo_manifest_def split: if_splits)
  then show ?thesis
    by (simp add: decoded_entry_def demo_entry_def read_entry_def pfields_def prequired_def pdefault_def
        list_of_def optional_of_def legacy_fields del: bindE_eq_Inr)
qed

lemma legacy_manifest:
  "legacy_steps legacy_lib [CHR 0x81] = bindE (replace_with_segmented_payload legacy_lib demo_manifest
     [(demo_fp, ''pub'', Some ''priv'')]) (\<lambda>(p, off). Inr (demo_manifest, off, p))"
proof -
  let ?front = "[(PBytes ''created_by'', PBytes []), (PBytes ''created_at'', PBytes ''7''),
      (PBytes ''app_version'', PBytes ''1''), (PBytes ''description'', PBytes [])]"
  let ?decoded = "PMap [(PStr ''created_by'', PStr []), (PStr ''created_at'', PStr ''7''),
      (PStr ''app_version'', PStr ''1''), (PStr ''description'', PStr []),
      (PStr ''keys'', PList [decoded_entry])]"
  have "pop_legacy_key_material (?front @ [(PBytes ''keys'', PList [legacy_entry])]) =
      Inr (?front @ [(PBytes ''keys'', PList [legacy_rest])], [(demo_fp, ''pub'', Some ''priv'')])"
    by (simp add: pop_legacy_key_material_def legacy_popped [folded legacy_rest_def] List.map_filter_simps
        del: bindE_eq_Inr)
  moreover have "legacy_bytes_to_str (PMap (?front @ [(PBytes ''keys'', PList [legacy_rest])])) = Inr ?decoded"
    by (simp add: legacy_rest_decoded dict_of_def del: bindE_eq_Inr)
  moreover have "read_manifest legacy_lib ?decoded = Inr demo_manifest"
    using demo_manifest_ok [unfolded demo_manifest_def]
    by (simp add: read_manifest_def pfields_def prequired_def pdefault_def list_of_def legacy_fields
        decoded_entry_read demo_manifest_def del: bindE_eq_Inr)
  ultimately show ?thesis
    by (simp add: legacy_steps_def legacy_fields del: legacy_bytes_to_str.simps)
qed

lemma legacy_accepted: "\<exists>slices payload.
    deserialise_segmented_payload legacy_lib [CHR 0x81] = Inr (demo_manifest, slices, payload)"
proof -
  obtain payload where pl: "serialise_segmented_payload demo_lib demo_collected demo_manifest = Inr payload"
    using demo_serialise by blast
  let ?mb = "serialise_manifest legacy_lib demo_manifest"
  have small: "length ?mb < 2 ^ 32"
    using legacy_lib_ok(2) by (simp add: manifest_reads_back_def serialise_manifest_def)
  have app: "append_all (u32_bytes (length ?mb) @ ?mb) (map item_of demo_collected) = Inr payload"
    using pl small by (simp add: serialise_segmented_payload_def Let_def pack_u32_def item_of_def [abs_def]
        serialise_manifest_def legacy_lib_same demo_manifest_obj)
  have i: "map item_of demo_collected = [(demo_fp, ''pub'', Some ''priv'')]"
    by (simp add: item_of_def demo_collected_def demo_entry_def)
  have "rebuild_legacy_segmented_payload legacy_lib [CHR 0x81] = Inr (demo_manifest, 4 + length ?mb, payload)"
    using app small unfolding i rebuild_legacy_segmented_payload_def legacy_manifest
    by (simp add: replace_with_segmented_payload_def Let_def pack_u32_def)
  moreover obtain slices where "walk_key_slices payload (4 + length ?mb) Map.empty (vm_keys demo_manifest)
      = Inr (slices, length payload)"
    using walk_append_all [OF app demo_collected_ok(1), of Map.empty] demo_collected_ok(2) by auto
  ultimately show ?thesis by (simp add: deserialise_segmented_payload_def)
qed

section \<open>Properties\<close>

text \<open>
  C15. The payload of a vault is read back: if msgpack reads back the manifest and pydantic the
  values of its dump, what \<open>_serialise_segmented_payload\<close> writes for entries with distinct
  fingerprints deserialises to the same manifest, and the key material of every fingerprint is
  the private key that was collected for it, or the public one when there is none.
\<close>

theorem payload_roundtrip:
  assumes "dumps_read_back lib" and "manifest_reads_back lib m" and "check_vault_manifest m = Inr m"
    and "vm_keys m = map ce_entry cs" and "list_all collected_ok cs"
    and "distinct (map (ve_fingerprint \<circ> ce_entry) cs)"
    and "serialise_segmented_payload lib cs m = Inr payload"
  shows "\<exists>slices. deserialise_segmented_payload lib payload = Inr (m, slices, payload) \<and>
    (\<forall>c \<in> set cs. key_material slices payload (ve_fingerprint (ce_entry c)) =
       Inr (if key_bytes_or_empty (ce_private_key c) \<noteq> [] then key_bytes_or_empty (ce_private_key c)
            else ce_public_key c))"
proof -
  obtain slices where des: "deserialise_segmented_payload lib payload = Inr (m, slices, payload)"
    and sl: "\<forall>c \<in> set cs. \<exists>ks. slices (ve_fingerprint (ce_entry c)) = Some ks \<and> slice_holds payload c ks"
    using deserialise_serialised [OF assms(1-5,7)] assms(6) by blast
  have "key_material slices payload (ve_fingerprint (ce_entry c)) =
      Inr (if key_bytes_or_empty (ce_private_key c) \<noteq> [] then key_bytes_or_empty (ce_private_key c)
           else ce_public_key c)" if "c \<in> set cs" for c
    using sl that by (fastforce simp: key_material_def slice_holds_def)
  with des show ?thesis by blast
qed

theorem payload_roundtrip_witness:
  "\<exists>payload slices. deserialise_segmented_payload demo_lib payload = Inr (demo_manifest, slices, payload) \<and>
     key_material slices payload demo_fp = Inr ''priv''"
proof -
  obtain payload where "serialise_segmented_payload demo_lib demo_collected demo_manifest = Inr payload"
    using demo_serialise by blast
  from payload_roundtrip [OF demo_lib_ok demo_manifest_ok demo_collected_ok(2,1) _ this]
  show ?thesis by (auto simp: demo_collected_def demo_entry_def)
qed



text \<open>
  Normalising an old vault is final: when a payload of the older, in-manifest form is
  accepted and rewritten, the rewritten payload is accepted as it is, with the same manifest
  and the same byte ranges.
\<close>

theorem legacy_normalised:
  assumes "dumps_read_back lib" and "manifest_reads_back lib m"
    and "deserialise_segmented_payload lib payload = Inr (m, slices, payload')"
  shows "deserialise_segmented_payload lib payload' = Inr (m, slices, payload')"
  using assms by (rule deserialise_legacy_normal)

theorem legacy_normalised_witness:
  "\<exists>slices payload. deserialise_segmented_payload legacy_lib [CHR 0x81] = Inr (demo_manifest, slices, payload) \<and>
     deserialise_segmented_payload legacy_lib payload = Inr (demo_manifest, slices, payload)"
proof -
  obtain slices payload where
    "deserialise_segmented_payload legacy_lib [CHR 0x81] = Inr (demo_manifest, slices, payload)"
    using legacy_accepted by blast
  with legacy_normalised [OF legacy_lib_ok this] show ?thesis by blast
qed

end
