(* ===== verification/Smartcard.thy ===== *)
theory Smartcard
  imports Utf8
begin

text \<open>
  \<open>models/smartcard.py\<close>: what is known of an inserted OpenPGP card, and the parsers of a token
  serial (\<open>parse_aid\<close>) and of \<open>gpg --card-status --with-colons\<close> (\<open>parse_card_status\<close>). The
  lemmas say what a parsed card can contain, on which output the parser raises, and which
  serials decode.
\<close>

section \<open>Text helpers of the standard library\<close>

text \<open>\<open>int(s)\<close> of a text without white space and underscores.\<close>

definition int_of_digits :: "str \<Rightarrow> int res" where
  "int_of_digits s = (if isdigit s \<and> length s \<le> INT_MAX_STR_DIGITS then Inr (int (digits_val s)) else Inl ValueError)"

fun py_int_of :: "str \<Rightarrow> int res" where
  "py_int_of (c # s) =
     (if c = CHR ''-'' then bindE (int_of_digits s) (\<lambda>n. Inr (- n))
      else if c = CHR ''+'' then int_of_digits s
      else int_of_digits (c # s))"
| "py_int_of [] = Inl ValueError"

definition removesuffix :: "str \<Rightarrow> str \<Rightarrow> str" where
  "removesuffix suf s = (if suf \<noteq> [] \<and> suffix suf s then take (length s - length suf) s else s)"

fun replace_char :: "char \<Rightarrow> str \<Rightarrow> str \<Rightarrow> str" where
  "replace_char c r [] = []"
| "replace_char c r (x # xs) = (if x = c then r else [x]) @ replace_char c r xs"

text \<open>\<open>urllib.parse.unquote\<close>: each ASCII stretch is unescaped and decoded on its own.\<close>

fun unquote_bytes :: "bytes \<Rightarrow> bytes" where
  "unquote_bytes (p # a # b # r) =
     (if p = CHR ''%'' then
        (case (hex_val a, hex_val b) of
           (Some i, Some j) \<Rightarrow> char_of (i * 16 + j) # unquote_bytes r
         | _ \<Rightarrow> p # unquote_bytes (a # b # r))
      else p # unquote_bytes (a # b # r))"
| "unquote_bytes s = s"

definition is_ascii :: "char \<Rightarrow> bool" where
  "is_ascii c \<longleftrightarrow> code c < 128"

function unquote :: "str \<Rightarrow> str" where
  "unquote s =
     (if s = [] then []
      else if is_ascii (hd s) then
        decode_replace (unquote_bytes (takeWhile is_ascii s)) @ unquote (dropWhile is_ascii s)
      else hd s # unquote (tl s))"
  by pat_completeness auto
termination
  by (relation "measure length") (auto simp: length_dropWhile_less)

declare unquote.simps [simp del]

section \<open>Token serials\<close>

definition OPENPGP_RID :: str where "OPENPGP_RID = ''D276000124''"
definition AID_LENGTH :: nat where "AID_LENGTH = 32"

definition MANUFACTURERS :: "(str \<times> str) list" where
  "MANUFACTURERS =
     [(''0001'', ''PPC Card Systems''), (''0002'', ''Prism''), (''0003'', ''OpenFortress''),
      (''0004'', ''Wewid''), (''0005'', ''ZeitControl''), (''0006'', ''Yubico''), (''0007'', ''OpenKMS''),
      (''0008'', ''LogoEmail''), (''0009'', ''Fidesmo''), (''000A'', ''VivoKey''), (''000B'', ''Trustica''),
      (''000D'', ''Dangerous Things''), (''000E'', ''Excelsecu''), (''000F'', ''Nitrokey''),
      (''002A'', ''Magrathea''), (''0042'', ''GnuPG e.V.''), (''1337'', ''Warsaw Hackerspace''),
      (''2342'', ''warpzone''), (''4354'', ''Confidential Technologies''), (''5443'', ''TIF-IT''),
      (''63AF'', ''Trustica''), (''BA53'', ''c-base''), (''BD0E'', ''Paranoidlabs''), (''F517'', ''FSIJ''),
      (''F5EC'', ''F-Secure'')]"

definition YUBICO_MANUFACTURER :: str where "YUBICO_MANUFACTURER = ''0006''"
definition GENERIC_CARD_NAME :: str where "GENERIC_CARD_NAME = ''Smartcard''"
definition YUBIKEY_NAME :: str where "YUBIKEY_NAME = ''YubiKey''"

datatype card_slot = SIGNATURE | ENCRYPTION | AUTHENTICATION

definition card_slots :: "card_slot list" where
  "card_slots = [SIGNATURE, ENCRYPTION, AUTHENTICATION]"

fun slot_index :: "card_slot \<Rightarrow> nat" where
  "slot_index SIGNATURE = 0"
| "slot_index ENCRYPTION = 1"
| "slot_index AUTHENTICATION = 2"

fun slot_name :: "card_slot \<Rightarrow> str" where
  "slot_name SIGNATURE = ''Signature key''"
| "slot_name ENCRYPTION = ''Encryption key''"
| "slot_name AUTHENTICATION = ''Authentication key''"

datatype card_pin = USER_PIN | ADMIN_PIN

record card_identity =
  id_version :: str
  id_manufacturer_code :: str
  id_serial_number :: str

definition id_manufacturer :: "card_identity \<Rightarrow> str" where
  "id_manufacturer i = (case map_of MANUFACTURERS (upper (id_manufacturer_code i)) of None \<Rightarrow> [] | Some m \<Rightarrow> m)"

definition id_is_yubikey :: "card_identity \<Rightarrow> bool" where
  "id_is_yubikey i \<longleftrightarrow> upper (id_manufacturer_code i) = YUBICO_MANUFACTURER"

definition or_else :: "str \<Rightarrow> str \<Rightarrow> str" where
  "or_else a b = (if a = [] then b else a)"

definition id_product_name :: "card_identity \<Rightarrow> str" where
  "id_product_name i = (if id_is_yubikey i then YUBIKEY_NAME else or_else (id_manufacturer i) GENERIC_CARD_NAME)"

definition section_of :: "nat \<Rightarrow> nat \<Rightarrow> str \<Rightarrow> str" where
  "section_of i j s = take (j - i) (drop i s)"

definition is_aid :: "str \<Rightarrow> bool" where
  "is_aid raw \<longleftrightarrow> length raw = AID_LENGTH \<and> prefix OPENPGP_RID raw \<and> list_all is_upper_hex raw"

definition parse_aid :: "str \<Rightarrow> card_identity res" where
  "parse_aid serial =
     (let raw = upper (strip serial) in
      if raw = [] then Inr \<lparr>id_version = [], id_manufacturer_code = [], id_serial_number = []\<rparr>
      else if is_aid raw then
        bindE (py_int_of (section_of 12 14 raw)) (\<lambda>major.
        bindE (py_int_of (section_of 14 16 raw)) (\<lambda>minor.
        Inr \<lparr>id_version = show_int major @ ''.'' @ show_int minor,
             id_manufacturer_code = section_of 16 20 raw, id_serial_number = section_of 20 28 raw\<rparr>))
      else Inr \<lparr>id_version = [], id_manufacturer_code = [], id_serial_number = raw\<rparr>)"

definition card_label :: "str \<Rightarrow> str res" where
  "card_label serial =
     bindE (parse_aid serial) (\<lambda>identity.
     if id_serial_number identity = [] then Inr GENERIC_CARD_NAME
     else Inr (id_product_name identity @ '' '' @ id_serial_number identity))"

section \<open>An inserted card\<close>

record card_info =
  ci_serial :: str
  ci_aid :: str
  ci_reader :: str
  ci_app_type :: str
  ci_version :: str
  ci_manufacturer_code :: str
  ci_manufacturer :: str
  ci_cardholder :: str
  ci_url :: str
  ci_login :: str
  ci_pin_retries :: "int \<times> int \<times> int"
  ci_slot_fingerprints :: "str list"
  ci_key_attributes :: "str list"

definition ci_identity :: "card_info \<Rightarrow> card_identity res" where
  "ci_identity c =
     bindE (parse_aid (or_else (ci_aid c) (ci_serial c))) (\<lambda>decoded.
     if id_manufacturer_code decoded \<noteq> [] \<or> ci_manufacturer_code c = [] then Inr decoded
     else Inr \<lparr>id_version = or_else (id_version decoded) (ci_version c),
               id_manufacturer_code = ci_manufacturer_code c, id_serial_number = id_serial_number decoded\<rparr>)"

definition ci_is_yubikey :: "card_info \<Rightarrow> bool res" where
  "ci_is_yubikey c =
     bindE (ci_identity c) (\<lambda>i. Inr (id_is_yubikey i \<or> upper (ci_manufacturer_code c) = YUBICO_MANUFACTURER))"

definition ci_product_name :: "card_info \<Rightarrow> str res" where
  "ci_product_name c =
     bindE (ci_is_yubikey c) (\<lambda>y.
     if y then Inr YUBIKEY_NAME
     else if ci_manufacturer c \<noteq> [] then Inr (ci_manufacturer c)
     else bindE (ci_identity c) (\<lambda>i. Inr (id_product_name i)))"

definition ci_short_serial :: "card_info \<Rightarrow> str res" where
  "ci_short_serial c = bindE (ci_identity c) (\<lambda>i. Inr (or_else (id_serial_number i) (ci_serial c)))"

definition ci_display_name :: "card_info \<Rightarrow> str res" where
  "ci_display_name c =
     bindE (ci_short_serial c) (\<lambda>serial.
     bindE (ci_product_name c) (\<lambda>product.
     Inr (if serial \<noteq> [] then strip (product @ '' '' @ serial) else product)))"

definition ci_user_pin_retries :: "card_info \<Rightarrow> int" where
  "ci_user_pin_retries c = fst (ci_pin_retries c)"

definition ci_admin_pin_retries :: "card_info \<Rightarrow> int" where
  "ci_admin_pin_retries c = snd (snd (ci_pin_retries c))"

definition is_pin_blocked :: "card_info \<Rightarrow> bool" where
  "is_pin_blocked c \<longleftrightarrow> ci_user_pin_retries c = 0"

definition slot_fingerprint :: "card_info \<Rightarrow> card_slot \<Rightarrow> str" where
  "slot_fingerprint c slot =
     (if slot_index slot < length (ci_slot_fingerprints c) then ci_slot_fingerprints c ! slot_index slot else [])"

definition occupied_slots :: "card_info \<Rightarrow> card_slot list" where
  "occupied_slots c = filter (\<lambda>s. slot_fingerprint c s \<noteq> []) card_slots"

fun first_occurrences :: "'a list \<Rightarrow> 'a list \<Rightarrow> 'a list" where
  "first_occurrences seen [] = rev seen"
| "first_occurrences seen (x # xs) = first_occurrences (if x \<in> set seen then seen else x # seen) xs"

definition key_fingerprints :: "card_info \<Rightarrow> str list" where
  "key_fingerprints c = first_occurrences [] (filter (\<lambda>f. f \<noteq> []) (ci_slot_fingerprints c))"

section \<open>Parsing the card status\<close>

definition split_record :: "str \<Rightarrow> str \<times> str list" where
  "split_record line =
     (case split_on (CHR '':'') line of
        [] \<Rightarrow> ([], [])
      | f # fs \<Rightarrow> (lower (strip f), map strip fs))"

definition single_value :: "str \<Rightarrow> str" where
  "single_value line =
     (let rest = tl (dropWhile (\<lambda>c. c \<noteq> CHR '':'') line) in
      unquote (strip (removesuffix '':'' (strip rest))))"

definition field :: "str list \<Rightarrow> nat \<Rightarrow> str" where
  "field values i = (if i < length values then values ! i else [])"

definition retry_counter :: "str \<Rightarrow> int res" where
  "retry_counter raw = (if isdigit (dropWhile (\<lambda>c. c = CHR ''-'') raw) then py_int_of raw else Inr (- 1))"

definition retry_counters :: "str list \<Rightarrow> (int \<times> int \<times> int) res" where
  "retry_counters values =
     bindE (retry_counter (field values 0)) (\<lambda>a.
     bindE (retry_counter (field values 1)) (\<lambda>b.
     bindE (retry_counter (field values 2)) (\<lambda>c. Inr (a, b, c))))"

definition normalise_fpr :: "str \<Rightarrow> str" where
  "normalise_fpr value =
     (let cleaned = upper (filter (\<lambda>c. c \<noteq> CHR '' '') value) in
      if cleaned \<noteq> [] \<and> list_all is_upper_hex cleaned then cleaned else [])"

definition card_version :: "str \<Rightarrow> str res" where
  "card_version raw =
     (if length raw = 4 \<and> isdigit raw then
        bindE (py_int_of (take 2 raw)) (\<lambda>a. bindE (py_int_of (section_of 2 4 raw)) (\<lambda>b.
        Inr (show_int a @ ''.'' @ show_int b)))
      else Inr raw)"

definition reader_aid :: "str list \<Rightarrow> str \<times> str" where
  "reader_aid values =
     (case find (\<lambda>i. upper (values ! i) = ''AID'') [0..<length values] of
        Some i \<Rightarrow> (upper (field values (i + 1)), field values (i + 2))
      | None \<Rightarrow>
          (let candidate = upper (field values 1) in
           if length candidate = AID_LENGTH \<and> list_all is_upper_hex candidate then (candidate, []) else ([], [])))"

definition cardholder :: "str \<Rightarrow> str \<Rightarrow> str" where
  "cardholder surname given =
     strip (join_with '' '' (map (\<lambda>p. strip (replace_char (CHR ''<'') '' '' p)) (filter (\<lambda>p. p \<noteq> []) [given, surname])))"

record card_fields = card_info +
  cf_surname :: str
  cf_given :: str

definition no_card :: card_fields where
  "no_card = \<lparr>ci_serial = [], ci_aid = [], ci_reader = [], ci_app_type = [], ci_version = [],
     ci_manufacturer_code = [], ci_manufacturer = [], ci_cardholder = [], ci_url = [], ci_login = [],
     ci_pin_retries = (- 1, - 1, - 1), ci_slot_fingerprints = [[], [], []], ci_key_attributes = [],
     cf_surname = [], cf_given = []\<rparr>"

definition card_line :: "str \<Rightarrow> card_fields \<Rightarrow> card_fields res" where
  "card_line raw_line c =
     (if CHR '':'' \<notin> set raw_line then Inr c
      else
        let rv = split_record raw_line; name = fst rv; values = snd rv in
        if name = ''reader'' then
          Inr (c\<lparr>ci_reader := field values 0, ci_aid := or_else (ci_aid c) (fst (reader_aid values)),
                 ci_app_type := or_else (ci_app_type c) (snd (reader_aid values))\<rparr>)
        else if name = ''serial'' then Inr (c\<lparr>ci_serial := upper (field values 0)\<rparr>)
        else if name = ''aid'' then Inr (c\<lparr>ci_aid := upper (field values 0)\<rparr>)
        else if name = ''apptype'' then Inr (c\<lparr>ci_app_type := field values 0\<rparr>)
        else if name = ''version'' then bindE (card_version (field values 0)) (\<lambda>v. Inr (c\<lparr>ci_version := v\<rparr>))
        else if name = ''vendor'' then
          Inr (c\<lparr>ci_manufacturer_code := upper (field values 0), ci_manufacturer := field values 1\<rparr>)
        else if name = ''name'' then Inr (c\<lparr>cf_surname := field values 0, cf_given := field values 1\<rparr>)
        else if name = ''url'' then Inr (c\<lparr>ci_url := single_value raw_line\<rparr>)
        else if name = ''login'' then Inr (c\<lparr>ci_login := field values 0\<rparr>)
        else if name = ''pinretry'' then bindE (retry_counters values) (\<lambda>r. Inr (c\<lparr>ci_pin_retries := r\<rparr>))
        else if name = ''fpr'' then
          Inr (c\<lparr>ci_slot_fingerprints := [normalise_fpr (field values 0), normalise_fpr (field values 1),
                                           normalise_fpr (field values 2)]\<rparr>)
        else if name = ''keyattr'' then
          Inr (c\<lparr>ci_key_attributes := ci_key_attributes c @ [join_with '':'' (filter (\<lambda>v. v \<noteq> []) values)]\<rparr>)
        else Inr c)"

fun card_lines :: "str list \<Rightarrow> card_fields \<Rightarrow> card_fields res" where
  "card_lines [] c = Inr c"
| "card_lines (l # ls) c = bindE (card_line l c) (card_lines ls)"

definition parse_card_status :: "str \<Rightarrow> card_info option res" where
  "parse_card_status output =
     bindE (card_lines (splitlines output) no_card) (\<lambda>c.
     if ci_serial c = [] \<and> ci_aid c = [] \<and> ci_reader c = [] then Inr None
     else Inr (Some (card_info.truncate (c\<lparr>ci_cardholder := cardholder (cf_surname c) (cf_given c)\<rparr>))))"

section \<open>Which serials decode\<close>

lemma int_of_digits_Inl: "int_of_digits s = Inl e \<longleftrightarrow> e = ValueError \<and> \<not> (isdigit s \<and> length s \<le> INT_MAX_STR_DIGITS)"
  by (auto simp: int_of_digits_def)

lemma py_int_of_digits: "isdigit s \<Longrightarrow> py_int_of s = int_of_digits s"
  by (cases s) (auto simp: isdigit_def is_digit_def)

lemma py_int_of_pair:
  assumes "is_upper_hex a" "is_upper_hex b"
  shows "py_int_of [a, b] = (if is_digit a \<and> is_digit b then Inr (int (digits_val [a, b])) else Inl ValueError)"
proof -
  have "a \<noteq> CHR ''-''" "a \<noteq> CHR ''+''" using assms(1) by (auto simp: is_upper_hex_def is_digit_def)
  then show ?thesis by (simp add: int_of_digits_def isdigit_def INT_MAX_STR_DIGITS_def)
qed

lemma take_2_Cons: "2 \<le> length s \<Longrightarrow> take 2 s = [s ! 0, s ! 1]"
  by (cases s; cases "tl s") auto

lemma section_pair: "i + 2 \<le> length s \<Longrightarrow> section_of i (i + 2) s = [s ! i, s ! (i + 1)]"
  using take_2_Cons [of "drop i s"] by (simp add: section_of_def)

text \<open>The version bytes of a serial, which are read as decimal numbers.\<close>

definition decimal_version :: "str \<Rightarrow> bool" where
  "decimal_version raw \<longleftrightarrow> list_all is_digit (section_of 12 16 raw)"

lemma section_four: "16 \<le> length s \<Longrightarrow> section_of 12 16 s = [s ! 12, s ! 13, s ! 14, s ! 15]"
proof -
  assume "16 \<le> length s"
  moreover have "section_of 12 16 s = section_of 12 14 s @ section_of 14 16 s"
    using take_add [of 2 2 "drop 12 s"] by (simp add: section_of_def)
  ultimately show ?thesis using section_pair [of 12 s] section_pair [of 14 s] by simp
qed

lemma parse_aid_decodes:
  assumes "is_aid raw"
  shows "bindE (py_int_of (section_of 12 14 raw)) (\<lambda>major. bindE (py_int_of (section_of 14 16 raw)) (f major)) =
    (if decimal_version raw then f (int (digits_val (section_of 12 14 raw))) (int (digits_val (section_of 14 16 raw)))
     else Inl ValueError)"
proof -
  have len: "length raw = 32" "list_all is_upper_hex raw" using assms by (auto simp: is_aid_def AID_LENGTH_def)
  then have hex: "is_upper_hex (raw ! i)" if "i < 32" for i using that by (simp add: list_all_length)
  have "section_of 12 14 raw = [raw ! 12, raw ! 13]" "section_of 14 16 raw = [raw ! 14, raw ! 15]"
    "section_of 12 16 raw = [raw ! 12, raw ! 13, raw ! 14, raw ! 15]"
    using section_pair [of 12 raw] section_pair [of 14 raw] section_four [of raw] len(1) by simp_all
  then show ?thesis
    using hex by (simp add: py_int_of_pair decimal_version_def del: py_int_of.simps)
qed

lemma parse_aid_cases:
  "parse_aid serial =
     (let raw = upper (strip serial) in
      if raw = [] then Inr \<lparr>id_version = [], id_manufacturer_code = [], id_serial_number = []\<rparr>
      else if is_aid raw then
        (if decimal_version raw then
           Inr \<lparr>id_version = show_int (int (digits_val (section_of 12 14 raw))) @ ''.'' @
                  show_int (int (digits_val (section_of 14 16 raw))),
                id_manufacturer_code = section_of 16 20 raw, id_serial_number = section_of 20 28 raw\<rparr>
         else Inl ValueError)
      else Inr \<lparr>id_version = [], id_manufacturer_code = [], id_serial_number = raw\<rparr>)"
  by (simp add: parse_aid_def Let_def parse_aid_decodes)

section \<open>What a parsed card holds\<close>

definition slots_ok :: "card_fields \<Rightarrow> bool" where
  "slots_ok c \<longleftrightarrow> length (ci_slot_fingerprints c) = 3 \<and> list_all (list_all is_upper_hex) (ci_slot_fingerprints c)"

lemma normalise_fpr_hex [simp]: "list_all is_upper_hex (normalise_fpr v)"
  by (simp add: normalise_fpr_def Let_def)

lemma card_line_slots: "card_line l c = Inr c' \<Longrightarrow> slots_ok c \<Longrightarrow> slots_ok c'"
  by (auto simp: card_line_def Let_def slots_ok_def split: if_splits)

lemma card_lines_slots: "card_lines ls c = Inr c' \<Longrightarrow> slots_ok c \<Longrightarrow> slots_ok c'"
  by (induction ls arbitrary: c) (auto dest: card_line_slots)

lemma first_occurrences_spec:
  "distinct seen \<Longrightarrow> distinct (first_occurrences seen xs) \<and> set (first_occurrences seen xs) = set seen \<union> set xs"
  by (induction xs arbitrary: seen) auto

text \<open>The only line that raises: retry counters that look like numbers and are none.\<close>

definition bad_counter :: "str \<Rightarrow> bool" where
  "bad_counter raw \<longleftrightarrow> isdigit (dropWhile (\<lambda>c. c = CHR ''-'') raw) \<and>
     (prefix ''--'' raw \<or> length (dropWhile (\<lambda>c. c = CHR ''-'') raw) > INT_MAX_STR_DIGITS)"

lemma retry_counter_Inl: "retry_counter raw = Inl e \<longleftrightarrow> e = ValueError \<and> bad_counter raw"
proof (cases raw)
  case (Cons c s)
  show ?thesis
  proof (cases "c = CHR ''-''")
    case True
    have m: "\<not> is_digit (CHR ''-'')" by (simp add: is_digit_def)
    show ?thesis
    proof (cases "prefix ''--'' raw")
      case True
      then have "\<not> isdigit s" using Cons m by (auto simp: isdigit_def prefix_def)
      then show ?thesis using True Cons \<open>c = CHR ''-''\<close> by (auto simp: retry_counter_def bad_counter_def int_of_digits_def)
    next
      case False
      then have "dropWhile (\<lambda>c. c = CHR ''-'') s = s" using Cons True by (cases s) auto
      then show ?thesis using False Cons \<open>c = CHR ''-''\<close>
        by (auto simp: retry_counter_def bad_counter_def int_of_digits_def)
    qed
  next
    case False
    then show ?thesis using Cons
      by (auto simp: retry_counter_def bad_counter_def py_int_of_digits int_of_digits_Inl simp del: py_int_of.simps)
  qed
qed (simp add: retry_counter_def bad_counter_def isdigit_def)

lemma card_version_total: "card_version raw \<noteq> Inl e"
proof (cases "length raw = 4 \<and> isdigit raw")
  case True
  then have "isdigit (take 2 raw)" "isdigit (section_of 2 4 raw)" "length (section_of 2 4 raw) = 2"
    by (auto simp: isdigit_def section_of_def list_all_iff dest: in_set_takeD in_set_dropD)
  then show ?thesis
    by (simp add: card_version_def py_int_of_digits int_of_digits_def INT_MAX_STR_DIGITS_def)
next
  case False
  then show ?thesis by (auto simp: card_version_def)
qed

lemma card_line_Inl:
  assumes "card_line l c = Inl e"
  shows "e = ValueError \<and> fst (split_record l) = ''pinretry'' \<and> (\<exists>i < 3. bad_counter (field (snd (split_record l)) i))"
proof -
  have "fst (split_record l) = ''pinretry'' \<and> retry_counters (snd (split_record l)) = Inl e"
    using assms card_version_total [of "field (snd (split_record l)) 0"]
    by (simp add: card_line_def Let_def split: if_splits)
      (auto simp: bindE_eq_Inl)
  moreover have "\<exists>i < 3. retry_counter (field vs i) = Inl e" if "retry_counters vs = Inl e" for vs
    using that unfolding retry_counters_def
    by (auto simp: numeral_3_eq_3 numeral_2_eq_2 less_Suc_eq bindE_eq_Inl)
  ultimately show ?thesis unfolding retry_counter_Inl by blast
qed

lemma card_lines_Inl: "card_lines ls c = Inl e \<Longrightarrow> \<exists>l c'. l \<in> set ls \<and> card_line l c' = Inl e"
proof (induction ls arbitrary: c)
  case (Cons a ls)
  then show ?case unfolding card_lines.simps bindE_eq_Inl list.set by blast
qed simp

section \<open>Properties\<close>

text \<open>
  What \<open>parse_aid\<close> does with every serial: an OpenPGP AID with decimal version bytes is
  decoded, and one with a hexadecimal digit there raises \<open>ValueError\<close>, against the promise that
  anything else is returned as a bare serial; so \<open>card_label\<close> raises for exactly those tokens.
\<close>

theorem card_label_raises:
  "card_label serial = Inl e \<longleftrightarrow>
     e = ValueError \<and> is_aid (upper (strip serial)) \<and> \<not> decimal_version (upper (strip serial))"
proof -
  have "is_aid (upper (strip serial)) \<Longrightarrow> strip serial \<noteq> []" by (auto simp: is_aid_def AID_LENGTH_def)
  then show ?thesis
    by (auto simp: card_label_def parse_aid_cases Let_def split: if_splits)
qed

text \<open>
  A parsed card is well formed: exactly three slots, each empty or upper-case hexadecimal;
  the occupied slots are those with a fingerprint, in slot order; and \<open>key_fingerprints\<close> lists
  the occupied ones once each.
\<close>

theorem parse_card_status_wellformed:
  assumes "parse_card_status output = Inr (Some c)"
  shows "length (ci_slot_fingerprints c) = 3 \<and> list_all (list_all is_upper_hex) (ci_slot_fingerprints c) \<and>
    distinct (key_fingerprints c) \<and> set (key_fingerprints c) = slot_fingerprint c ` set (occupied_slots c) \<and>
    (ci_serial c \<noteq> [] \<or> ci_aid c \<noteq> [] \<or> ci_reader c \<noteq> [])"
proof -
  obtain f where f: "card_lines (splitlines output) no_card = Inr f"
      "c = card_info.truncate (f\<lparr>ci_cardholder := cardholder (cf_surname f) (cf_given f)\<rparr>)"
      "ci_serial f \<noteq> [] \<or> ci_aid f \<noteq> [] \<or> ci_reader f \<noteq> []"
    using assms by (auto simp: parse_card_status_def split: if_splits)
  have "slots_ok f" using card_lines_slots [OF f(1)] by (simp add: slots_ok_def no_card_def)
  then have s: "length (ci_slot_fingerprints c) = 3" "list_all (list_all is_upper_hex) (ci_slot_fingerprints c)"
    using f(2) by (simp_all add: slots_ok_def card_info.defs)
  then obtain x y z where xyz: "ci_slot_fingerprints c = [x, y, z]"
    by (auto simp: numeral_3_eq_3 length_Suc_conv)
  have k: "distinct (key_fingerprints c)" "set (key_fingerprints c) = {f \<in> {x, y, z}. f \<noteq> []}"
    using first_occurrences_spec [of "[]" "filter (\<lambda>f. f \<noteq> []) [x, y, z]"] unfolding key_fingerprints_def xyz
    by auto
  moreover have "slot_fingerprint c ` set (occupied_slots c) = {f \<in> {x, y, z}. f \<noteq> []}"
    by (auto simp: occupied_slots_def card_slots_def slot_fingerprint_def xyz)
  ultimately show ?thesis using s f by (simp add: card_info.defs)
qed

theorem parse_card_status_wellformed_witness:
  "\<exists>c. parse_card_status ''serial:12345678:'' = Inr (Some c) \<and> length (ci_slot_fingerprints c) = 3"
proof -
  have "splitlines ''serial:12345678:'' = [''serial:12345678:'']"
    by (simp add: splitlines_def line_break_def)
  then have "\<exists>c. parse_card_status ''serial:12345678:'' = Inr (Some c)"
    by (simp add: parse_card_status_def card_line_def split_record_def strip_def lstrip_def rstrip_def is_space_def
        lower_char_def upper_char_def field_def no_card_def Let_def card_info.defs)
  with parse_card_status_wellformed show ?thesis by blast
qed

text \<open>
  \<open>parse_card_status\<close> raises only \<open>ValueError\<close>, and only for a \<open>pinretry\<close> record with a counter
  of two minus signs and digits, or of more digits than \<open>int\<close> reads.
\<close>

theorem parse_card_status_errors:
  assumes "parse_card_status output = Inl e"
  shows "e = ValueError \<and> (\<exists>l \<in> set (splitlines output). fst (split_record l) = ''pinretry'' \<and>
    (\<exists>i < 3. bad_counter (field (snd (split_record l)) i)))"
proof -
  have "card_lines (splitlines output) no_card = Inl e"
    using assms by (auto simp: parse_card_status_def bindE_eq_Inl split: if_splits)
  then show ?thesis using card_lines_Inl card_line_Inl by metis
qed

theorem parse_card_status_errors_witness:
  "parse_card_status ''pinretry:--3:0:3:'' = Inl ValueError \<and>
   (\<exists>l. l \<in> set (splitlines ''pinretry:--3:0:3:'') \<and> fst (split_record l) = ''pinretry'')"
proof -
  have "splitlines ''pinretry:--3:0:3:'' = [''pinretry:--3:0:3:'']"
    by (simp add: splitlines_def line_break_def)
  then have r: "parse_card_status ''pinretry:--3:0:3:'' = Inl ValueError"
    by (simp add: parse_card_status_def card_line_def split_record_def strip_def lstrip_def rstrip_def is_space_def
        lower_char_def field_def retry_counters_def retry_counter_def isdigit_def is_digit_def int_of_digits_def Let_def)
  from parse_card_status_errors [OF r] r show ?thesis by blast
qed

end
