(* ===== verification/Key_Info.thy ===== *)
theory Key_Info
  imports Smartcard Vault_Model
begin

text \<open>
  \<open>models/key_info.py\<close> and \<open>services/validation.py\<close>: a key as the application sees it, and the
  checks every value passes before it reaches GnuPG. A \<open>datetime\<close> is its POSIX time stamp.
  The lemmas say exactly what the checks let through.
\<close>

section \<open>Keys\<close>

datatype key_algorithm = RSA | DSA | ECDSA | EDDSA | ECDH | UNKNOWN_ALGORITHM

datatype trust_level = UNKNOWN_TRUST | NEVER | MARGINAL | FULL | ULTIMATE

datatype key_storage = PUBLIC_ONLY | LOCAL | SMARTCARD | OFFLINE

record key_info =
  ki_fingerprint :: str
  ki_user_ids :: "str list"
  ki_algorithm :: key_algorithm
  ki_raw_algorithm_id :: str
  ki_length :: int
  ki_created_at :: int
  ki_expires_at :: "int option"
  ki_is_revoked :: bool
  ki_has_private_key :: bool
  ki_is_stub :: bool
  ki_card_serial :: str
  ki_subkey_fingerprints :: "str list"
  ki_trust :: trust_level
  ki_label :: str
  ki_purpose :: str
  ki_platform :: str
  ki_notes :: str
  ki_is_favorite :: bool

text \<open>Construction: every text is stripped, then the constraints and the validator run.\<close>

definition check_key_info :: "key_info \<Rightarrow> key_info res" where
  "check_key_info k =
     (if py_len (strip (ki_fingerprint k)) \<noteq> FINGERPRINT_LENGTH \<or> ki_length k \<le> 0 then Inl ValueError
      else bindE (normalise_fingerprint (strip (ki_fingerprint k))) (\<lambda>fp.
        Inr (k\<lparr>ki_fingerprint := fp, ki_user_ids := map strip (ki_user_ids k),
               ki_raw_algorithm_id := strip (ki_raw_algorithm_id k), ki_card_serial := strip (ki_card_serial k),
               ki_subkey_fingerprints := map strip (ki_subkey_fingerprints k), ki_label := strip (ki_label k),
               ki_purpose := strip (ki_purpose k), ki_platform := strip (ki_platform k),
               ki_notes := strip (ki_notes k)\<rparr>)))"

definition is_expired :: "int \<Rightarrow> key_info \<Rightarrow> bool" where
  "is_expired now k = (case ki_expires_at k of None \<Rightarrow> False | Some t \<Rightarrow> now \<ge> t)"

definition short_fingerprint :: "key_info \<Rightarrow> str" where
  "short_fingerprint k = drop (length (ki_fingerprint k) - 16) (ki_fingerprint k)"

definition primary_user_id :: "key_info \<Rightarrow> str" where
  "primary_user_id k = (case ki_user_ids k of [] \<Rightarrow> short_fingerprint k | u # _ \<Rightarrow> u)"

definition ki_storage :: "key_info \<Rightarrow> key_storage" where
  "ki_storage k =
     (if ki_card_serial k \<noteq> [] then SMARTCARD
      else if ki_is_stub k then OFFLINE
      else if ki_has_private_key k then LOCAL
      else PUBLIC_ONLY)"

definition all_fingerprints :: "key_info \<Rightarrow> str list" where
  "all_fingerprints k = ki_fingerprint k # ki_subkey_fingerprints k"

definition is_on_smartcard :: "key_info \<Rightarrow> bool" where
  "is_on_smartcard k \<longleftrightarrow> ki_storage k = SMARTCARD"

text \<open>The dictionary is built whole: \<open>card_label\<close> runs for every key.\<close>

definition storage_label :: "key_info \<Rightarrow> str res" where
  "storage_label k =
     bindE (card_label (ki_card_serial k)) (\<lambda>card.
     Inr (case ki_storage k of
            SMARTCARD \<Rightarrow> card
          | OFFLINE \<Rightarrow> ''Secret key elsewhere''
          | LOCAL \<Rightarrow> ''Local''
          | PUBLIC_ONLY \<Rightarrow> ''Public only''))"

definition display_label :: "key_info \<Rightarrow> str" where
  "display_label k = primary_user_id k @ ''  ['' @ short_fingerprint k @ '']''"

section \<open>Validation\<close>

definition validate_fingerprint :: "str \<Rightarrow> str res" where
  "validate_fingerprint fingerprint =
     (if py_len (upper fingerprint) \<noteq> FINGERPRINT_LENGTH \<or> \<not> list_all is_upper_hex (upper fingerprint)
      then Inl GPGValidationError else Inr (upper fingerprint))"

definition is_letter :: "char \<Rightarrow> bool" where
  "is_letter c \<longleftrightarrow> (65 \<le> code c \<and> code c \<le> 90) \<or> (97 \<le> code c \<and> code c \<le> 122)"

definition is_alnum :: "char \<Rightarrow> bool" where
  "is_alnum c \<longleftrightarrow> is_letter c \<or> is_digit c"

text \<open>A \<open>$\<close> at the end of a pattern also matches before one final newline.\<close>

definition before_end :: "(str \<Rightarrow> bool) \<Rightarrow> str \<Rightarrow> bool" where
  "before_end P s \<longleftrightarrow> P s \<or> (s \<noteq> [] \<and> last s = CHR 0x0A \<and> P (butlast s))"

text \<open>\<open>X(?:Y{0,n}X)?\<close>.\<close>

definition bracketed :: "(char \<Rightarrow> bool) \<Rightarrow> (char \<Rightarrow> bool) \<Rightarrow> nat \<Rightarrow> str \<Rightarrow> bool" where
  "bracketed X Y n s \<longleftrightarrow> s \<noteq> [] \<and> X (hd s) \<and>
     (length s = 1 \<or> (X (last s) \<and> list_all Y (butlast (tl s)) \<and> length s \<le> n + 2))"

definition email_local :: "str \<Rightarrow> bool" where
  "email_local s \<longleftrightarrow> bracketed is_alnum (\<lambda>c. is_alnum c \<or> c \<in> set ''._%+-'') 62 s"

definition email_label :: "str \<Rightarrow> bool" where
  "email_label s \<longleftrightarrow> bracketed is_alnum (\<lambda>c. is_alnum c \<or> c = CHR ''-'') 61 s"

definition email_domain :: "str \<Rightarrow> bool" where
  "email_domain s \<longleftrightarrow>
     (let labels = split_on (CHR ''.'') s; tld = last labels in
      2 \<le> length labels \<and> list_all email_label (butlast labels) \<and>
      2 \<le> length tld \<and> length tld \<le> 63 \<and> list_all is_letter tld)"

definition email_pattern :: "str \<Rightarrow> bool" where
  "email_pattern s \<longleftrightarrow> (case split_on (CHR ''@'') s of
     [local, domain] \<Rightarrow> email_local local \<and> email_domain domain | _ \<Rightarrow> False)"

definition validate_email :: "str \<Rightarrow> str res" where
  "validate_email email = (if before_end email_pattern email then Inr email else Inl GPGValidationError)"

definition user_name_pattern :: "str \<Rightarrow> bool" where
  "user_name_pattern s \<longleftrightarrow> s \<noteq> [] \<and> is_alnum (hd s) \<and> length s \<le> 64 \<and>
     list_all (\<lambda>c. is_alnum c \<or> c \<in> set '' ._-'') (tl s)"

definition validate_user_name :: "str \<Rightarrow> str res" where
  "validate_user_name name =
     (let stripped = strip name in
      if stripped = [] then Inl GPGValidationError
      else if \<not> before_end user_name_pattern stripped \<or> contains ''--'' stripped then Inl GPGValidationError
      else Inr stripped)"

fun allowed_key_lengths :: "key_algorithm \<Rightarrow> int list option" where
  "allowed_key_lengths RSA = Some [2048, 3072, 4096]"
| "allowed_key_lengths ECDSA = Some [256, 384, 521]"
| "allowed_key_lengths EDDSA = Some [255]"
| "allowed_key_lengths ECDH = Some [255]"
| "allowed_key_lengths _ = None"

definition validate_key_algorithm_and_length :: "key_algorithm \<Rightarrow> int \<Rightarrow> unit res" where
  "validate_key_algorithm_and_length algorithm len = (case allowed_key_lengths algorithm of
       None \<Rightarrow> Inl GPGValidationError
     | Some allowed \<Rightarrow> if len \<notin> set allowed then Inl GPGValidationError else Inr ())"

section \<open>Expiry\<close>

definition NO_EXPIRY :: str where "NO_EXPIRY = ''0''"

definition expiry_offset :: "str \<Rightarrow> bool" where
  "expiry_offset s \<longleftrightarrow> 2 \<le> length s \<and> is_digit (hd s) \<and> hd s \<noteq> CHR ''0'' \<and>
     list_all is_digit (butlast s) \<and> last s \<in> set ''ymwd''"

text \<open>
  \<open>date.fromisoformat\<close>: calendar dates and ISO week dates, with or without separators; the
  day of a week date may be left out.
\<close>

definition is_leap :: "nat \<Rightarrow> bool" where
  "is_leap y \<longleftrightarrow> y mod 4 = 0 \<and> (y mod 100 \<noteq> 0 \<or> y mod 400 = 0)"

definition days_in_month :: "nat \<Rightarrow> nat \<Rightarrow> nat" where
  "days_in_month y m = (if m = 2 then (if is_leap y then 29 else 28) else if m \<in> {4, 6, 9, 11} then 30 else 31)"

definition days_before_year :: "nat \<Rightarrow> nat" where
  "days_before_year y = (y - 1) * 365 + (y - 1) div 4 - (y - 1) div 100 + (y - 1) div 400"

definition calendar_date :: "nat \<Rightarrow> nat \<Rightarrow> nat \<Rightarrow> bool" where
  "calendar_date y m d \<longleftrightarrow> 1 \<le> y \<and> 1 \<le> m \<and> m \<le> 12 \<and> 1 \<le> d \<and> d \<le> days_in_month y m"

text \<open>The weekday of 1 January, Monday being 0, and the ordinal of the Monday of week 1.\<close>

definition first_weekday :: "nat \<Rightarrow> nat" where
  "first_weekday y = days_before_year y mod 7"

definition week_date :: "nat \<Rightarrow> nat \<Rightarrow> nat \<Rightarrow> bool" where
  "week_date y w d \<longleftrightarrow> 1 \<le> y \<and> 1 \<le> d \<and> d \<le> 7 \<and>
     (1 \<le> w \<and> w \<le> 52 \<or> w = 53 \<and> (first_weekday y = 3 \<or> first_weekday y = 2 \<and> is_leap y)) \<and>
     (let monday = int (days_before_year y) + 1 - int (first_weekday y) +
            (if first_weekday y > 3 then 7 else 0);
          ordinal = monday + int ((w - 1) * 7 + (d - 1))
      in 1 \<le> ordinal \<and> ordinal \<le> 3652059)"

definition digits_at :: "nat \<Rightarrow> nat \<Rightarrow> str \<Rightarrow> nat option" where
  "digits_at i n s = (let t = take n (drop i s) in
     if length t = n \<and> list_all is_digit t then Some (digits_val t) else None)"

definition fromisoformat :: "str \<Rightarrow> bool" where
  "fromisoformat s =
     (if length s \<notin> {7, 8, 10} then False
      else
        let sep = (s ! 4 = CHR ''-''); pos = (if sep then 5 else 4) in
        (case digits_at 0 4 s of
           None \<Rightarrow> False
         | Some y \<Rightarrow>
             if s ! pos = CHR ''W'' then
               (case digits_at (pos + 1) 2 s of
                  None \<Rightarrow> False
                | Some w \<Rightarrow>
                    let pos = pos + 3 in
                    if length s = pos then week_date y w 1
                    else if (s ! pos = CHR ''-'') \<noteq> sep then False
                    else
                      let pos = (if sep then pos + 1 else pos) in
                      length s = pos + 1 \<and> (case digits_at pos 1 s of None \<Rightarrow> False | Some d \<Rightarrow> week_date y w d))
             else
               (case digits_at pos 2 s of
                  None \<Rightarrow> False
                | Some m \<Rightarrow>
                    let pos = pos + 2 in
                    pos < length s \<and> (s ! pos = CHR ''-'') = sep \<and>
                    (let pos = (if sep then pos + 1 else pos) in
                     length s = pos + 2 \<and>
                     (case digits_at pos 2 s of None \<Rightarrow> False | Some d \<Rightarrow> calendar_date y m d)))))"

definition validate_expiry :: "str \<Rightarrow> str res" where
  "validate_expiry value =
     (if value = NO_EXPIRY then Inr value
      else if before_end expiry_offset value then Inr value
      else if fromisoformat value then Inr value
      else Inl GPGValidationError)"

definition reject_passphrase_in_argv :: "str list \<Rightarrow> bytes \<Rightarrow> unit res" where
  "reject_passphrase_in_argv argv passphrase =
     (if passphrase \<noteq> [] \<and> list_ex (contains passphrase) argv then Inl GPGValidationError else Inr ())"

section \<open>What the checks let through\<close>

lemma validate_fingerprint_normalise:
  "validate_fingerprint s = (case normalise_fingerprint s of Inl e \<Rightarrow> Inl GPGValidationError | Inr f \<Rightarrow> Inr f)"
proof (cases "list_all is_upper_hex (upper s)")
  case True
  then have "py_len (upper s) = length s" using True upper_hex_ascii py_len_ascii [of "upper s"]
    by (simp add: list_all_iff)
  then show ?thesis by (simp add: validate_fingerprint_def normalise_fingerprint_def Let_def)
qed (simp add: validate_fingerprint_def normalise_fingerprint_def Let_def)

lemma validate_fingerprint_ok: "validate_fingerprint s = Inr f \<longleftrightarrow> f = upper s \<and> fingerprint_ok f"
proof (cases "normalise_fingerprint s")
  case (Inl e)
  then have "\<not> fingerprint_ok (upper s)"
    using normalise_fingerprint_Inr [of s "upper s"] by (auto simp: fingerprint_ok_def)
  then show ?thesis using Inl by (auto simp: validate_fingerprint_normalise)
next
  case (Inr g)
  then show ?thesis using normalise_fingerprint_Inr [of s g] by (auto simp: validate_fingerprint_normalise)
qed

lemma before_endD:
  "before_end P s \<Longrightarrow> P s \<or> (\<exists>t. s = t @ [CHR 0x0A] \<and> P t)"
  by (metis append_butlast_last_id before_end_def)

lemma before_end_intro: "P s \<Longrightarrow> before_end P (s @ [CHR 0x0A])"
  by (simp add: before_end_def)

lemma split_on_chars: "c \<in> set s \<Longrightarrow> c = d \<or> (\<exists>w \<in> set (split_on d s). c \<in> set w)"
proof (induction s)
  case (Cons x xs)
  then show ?case by (auto split: list.splits)
qed simp

lemma bracketed_chars: "bracketed X Y n s \<Longrightarrow> c \<in> set s \<Longrightarrow> X c \<or> Y c"
proof -
  assume b: "bracketed X Y n s" and c: "c \<in> set s"
  show ?thesis
  proof (cases "tl s = []")
    case True
    then have "s = [hd s]" using b by (cases s) (auto simp: bracketed_def)
    then have "c = hd s" using c by (metis empty_iff empty_set set_ConsD)
    then show ?thesis using b by (simp add: bracketed_def)
  next
    case False
    then have s: "s = hd s # butlast (tl s) @ [last s]" using b
      by (cases s) (auto simp: bracketed_def)
    have "length s \<noteq> 1" using False by (cases s) auto
    then have "c = hd s \<or> c = last s \<or> c \<in> set (butlast (tl s))" using c by (subst (asm) s) auto
    then show ?thesis using b \<open>length s \<noteq> 1\<close> by (auto simp: bracketed_def list_all_iff)
  qed
qed

definition email_char :: "char \<Rightarrow> bool" where
  "email_char c \<longleftrightarrow> is_alnum c \<or> c \<in> set ''._%+-@''"

lemma email_pattern_chars:
  assumes "email_pattern s"
  shows "s \<noteq> [] \<and> is_alnum (hd s) \<and> list_all email_char s"
proof -
  obtain l d where ld: "split_on (CHR ''@'') s = [l, d]" "email_local l" "email_domain d"
    using assms by (auto simp: email_pattern_def split: list.splits)
  have l: "\<And>c. c \<in> set l \<Longrightarrow> email_char c" using bracketed_chars ld(2) by (fastforce simp: email_local_def email_char_def)
  have d: "email_char c" if cd: "c \<in> set d" for c
  proof -
    consider "c = CHR ''.''" | w where "w \<in> set (split_on (CHR ''.'') d)" "c \<in> set w" using split_on_chars [OF cd] by blast
    then show ?thesis
    proof cases
      case 1 then show ?thesis by (simp add: email_char_def)
    next
      case (2 w)
      let ?ls = "split_on (CHR ''.'') d"
      have "?ls \<noteq> []" using 2 by auto
      then consider "w \<in> set (butlast ?ls)" | "w = last ?ls"
        using 2(1) by (metis append_butlast_last_id in_set_conv_decomp_last insert_iff list.set(2) rotate1.simps(2) set_rotate1)
      then show ?thesis
      proof cases
        case 1
        then have "email_label w" using ld(3) by (simp add: email_domain_def Let_def list_all_iff)
        then show ?thesis using bracketed_chars 2(2) by (fastforce simp: email_label_def email_char_def)
      next
        case 2
        then have "list_all is_letter w" using ld(3) by (simp add: email_domain_def Let_def)
        then show ?thesis using \<open>c \<in> set w\<close> by (auto simp: list_all_iff email_char_def is_alnum_def)
      qed
    qed
  qed
  have "l \<noteq> []" "is_alnum (hd l)" using ld(2) by (auto simp: email_local_def bracketed_def)
  moreover have "s \<noteq> [] \<and> hd s = hd l" using ld(1) \<open>l \<noteq> []\<close>
    by (cases s) (auto split: if_splits list.splits)
  moreover have "email_char c" if cs: "c \<in> set s" for c
    using split_on_chars [OF cs, of "CHR ''@''"] l d ld(1) by (auto simp: email_char_def)
  ultimately show ?thesis by (simp add: list_all_iff)
qed

lemma strip_last: "strip s \<noteq> [] \<Longrightarrow> \<not> is_space (last (strip s))"
  by (simp add: strip_def rstrip_def lstrip_def last_rev hd_dropWhile)

lemma validate_user_name_Inr:
  "validate_user_name name = Inr n \<Longrightarrow> user_name_pattern n \<and> \<not> contains ''--'' n"
proof -
  assume v: "validate_user_name name = Inr n"
  then have n: "n = strip name" "n \<noteq> []" "before_end user_name_pattern n" "\<not> contains ''--'' n"
    by (auto simp: validate_user_name_def Let_def split: if_splits)
  have "last n \<noteq> CHR 0x0A" using strip_last [of name] n(1,2) by (auto simp: is_space_def)
  then show ?thesis using n by (simp add: before_end_def)
qed

definition expiry_char :: "char \<Rightarrow> bool" where
  "expiry_char c \<longleftrightarrow> is_digit c \<or> c \<in> set ''ymwd-W''"

lemma digits_at_hd: "digits_at 0 4 s = Some y \<Longrightarrow> s \<noteq> [] \<and> is_digit (hd s)"
  by (cases s) (auto simp: digits_at_def Let_def split: if_splits)

lemma validate_expiry_hd:
  assumes "validate_expiry v = Inr w"
  shows "w = v \<and> v \<noteq> [] \<and> is_digit (hd v)"
proof -
  consider "v = NO_EXPIRY" | "before_end expiry_offset v" | "fromisoformat v"
    using assms by (auto simp: validate_expiry_def split: if_splits)
  then have "v \<noteq> [] \<and> is_digit (hd v)"
  proof cases
    case 1 then show ?thesis by (simp add: NO_EXPIRY_def is_digit_def)
  next
    case 2
    then obtain t r where "v = t @ r" "expiry_offset t" by (metis append_Nil2 before_endD)
    then show ?thesis by (cases t) (auto simp: expiry_offset_def)
  next
    case 3
    then show ?thesis using digits_at_hd [of v] by (auto simp: fromisoformat_def Let_def split: if_splits option.splits)
  qed
  then show ?thesis using assms by (auto simp: validate_expiry_def split: if_splits)
qed

section \<open>Properties\<close>

text \<open>
  Nothing that passes validation can be mistaken for something else by GnuPG: name, address
  and expiry are not empty and start with a letter or digit, so none is read as an option; the
  name is at most 64 letters, digits, spaces, dots, underscores and hyphens with no double hyphen,
  so it cannot hold the brackets of a user ID; and the address is of the pattern's characters,
  apart from one newline that may end it.
\<close>

theorem validated_user_id:
  assumes "validate_user_name name = Inr n" and "validate_email email = Inr e" and "validate_expiry expiry = Inr x"
  shows "is_alnum (hd n) \<and> is_alnum (hd e) \<and> is_digit (hd x) \<and> n \<noteq> [] \<and> e \<noteq> [] \<and> x \<noteq> [] \<and>
    length n \<le> 64 \<and> list_all (\<lambda>c. is_alnum c \<or> c \<in> set '' ._-'') n \<and> \<not> contains ''--'' n \<and>
    (list_all email_char e \<or> (\<exists>t. e = t @ [CHR 0x0A] \<and> list_all email_char t)) \<and> x = expiry"
proof -
  have n: "user_name_pattern n" "\<not> contains ''--'' n" using validate_user_name_Inr [OF assms(1)] by auto
  have "before_end email_pattern e" using assms(2) by (auto simp: validate_email_def split: if_splits)
  then obtain t r where t: "e = t @ r" "email_pattern t" "r = [] \<or> r = [CHR 0x0A]"
    using before_endD by (metis append_Nil2)
  then have "e \<noteq> [] \<and> is_alnum (hd e) \<and> (list_all email_char e \<or> (\<exists>t. e = t @ [CHR 0x0A] \<and> list_all email_char t))"
    using email_pattern_chars [OF t(2)] by auto
  moreover have "list_all (\<lambda>c. is_alnum c \<or> c \<in> set '' ._-'') n"
    using n(1) by (cases n) (auto simp: user_name_pattern_def)
  ultimately show ?thesis using n validate_expiry_hd [OF assms(3)] by (auto simp: user_name_pattern_def)
qed

theorem validated_user_id_witness:
  "validate_user_name ''Al'' = Inr ''Al'' \<and> validate_email ''a@b.co'' = Inr ''a@b.co'' \<and>
   validate_expiry ''2y'' = Inr ''2y'' \<and> list_all (\<lambda>c. is_alnum c \<or> c \<in> set '' ._-'') ''Al''"
proof -
  have 1: "validate_user_name ''Al'' = Inr ''Al''"
    by (simp add: validate_user_name_def strip_def lstrip_def rstrip_def is_space_def before_end_def
        user_name_pattern_def is_alnum_def is_letter_def)
  have 2: "validate_email ''a@b.co'' = Inr ''a@b.co''"
    by (simp add: validate_email_def before_end_def email_pattern_def email_local_def email_domain_def email_label_def
        bracketed_def is_alnum_def is_letter_def)
  have 3: "validate_expiry ''2y'' = Inr ''2y''"
    by (simp add: validate_expiry_def before_end_def expiry_offset_def is_digit_def)
  show ?thesis using validated_user_id [OF 1 2 3] 1 2 3 by blast
qed

text \<open>
  The address check lets a newline through: for every address it accepts by its pattern, the
  same text with a newline at the end is accepted and returned as it is, newline included.
\<close>

theorem validate_email_newline:
  assumes "email_pattern s"
  shows "validate_email (s @ [CHR 0x0A]) = Inr (s @ [CHR 0x0A])"
  using before_end_intro [of email_pattern, OF assms] by (simp add: validate_email_def)

theorem validate_email_newline_witness:
  "validate_email (''a@b.co'' @ [CHR 0x0A]) = Inr (''a@b.co'' @ [CHR 0x0A])"
  by (rule validate_email_newline)
    (simp add: email_pattern_def email_local_def email_domain_def email_label_def bracketed_def is_alnum_def is_letter_def)

end
