(* ===== verification/Vault_Lifecycle.thy ===== *)
theory Vault_Lifecycle
  imports Vault_Service
begin

text \<open>
  What holds of whole runs of \<open>services/vault_service.py\<close>: a created vault opens with the
  passphrase it was created with, in both formats; a failed creation is reported; an import
  changes the keyring only as far as it says, and what the removal of smuggled keys costs.
\<close>

section \<open>A sealed payload opens\<close>

text \<open>Documented behaviour of both ciphers: the ciphertext carries a tag, so it is never empty.\<close>

definition aead_tagged :: "aead_lib \<Rightarrow> bool" where
  "aead_tagged lib \<longleftrightarrow> (\<forall>c k n ad pt. seal lib c k n ad pt \<noteq> [])"

lemma seal_payload_opens:
  assumes "seal_payload env header pt key nonce cipher = Inr frame" and "vault_header_ok header"
    and "aead_tagged (cr_aead (ve_crypto env))" and "reads_ints (ve_int env)"
  shows "unpack (ve_int env) frame = Inr \<lparr>uf_header = header, uf_header_bytes = header_to_canonical_json header,
      uf_ciphertext = seal (cr_aead (ve_crypto env)) cipher (key_bytes key) nonce (header_to_canonical_json header) pt\<rparr> \<and>
    usable_key key \<and> length nonce = NONCE_LEN"
proof -
  obtain frame0 hb ct hb' where p: "pack header [] = Inr (frame0, hb)" "pack header ct = Inr (frame, hb')"
      "aead_encrypt (cr_aead (ve_crypto env)) pt key nonce hb cipher = Inr ct"
    using assms(1) by (auto simp: seal_payload_def)
  have "hb = header_to_canonical_json header" "hb' = header_to_canonical_json header"
    using pack_Inr(1) [OF p(1)] pack_Inr(1) [OF p(2)] by simp_all
  moreover have "ct \<noteq> []" using p(3) assms(3) by (auto simp: aead_encrypt_Inr aead_tagged_def)
  ultimately show ?thesis
    using unpack_packed [OF assms(4,2) _ p(2)] p(3) by (auto simp: aead_encrypt_Inr)
qed

lemma nonce_read_back: "cp_nonce \<lparr>cp_algorithm = c, cp_nonce_b64 = b64encode n\<rparr> = Inr n"
  by (simp add: cp_nonce_def)

lemma build_header_Inr:
  assumes "build_header cipher salt nonce params = Inr h"
  shows "vault_header_ok h" "\<exists>kdf. kdf_fields_from_params params salt = Inr kdf \<and> vh_kdf h = Some kdf"
    "vh_cipher h = \<lparr>cp_algorithm = cipher, cp_nonce_b64 = b64encode nonce\<rparr>" "\<not> uses_key_slots h"
proof -
  obtain kdf where k: "kdf_fields_from_params params salt = Inr kdf"
    and h: "check_vault_header \<lparr>vh_format = VAULT_FORMAT_TAG, vh_version = VAULT_FORMAT_VERSION, vh_kdf = Some kdf,
        vh_cipher = \<lparr>cp_algorithm = cipher, cp_nonce_b64 = b64encode nonce\<rparr>, vh_key_slots = None\<rparr> = Inr h"
    using assms by (auto simp: build_header_def check_cipher_params_Inr)
  from h have e: "h = \<lparr>vh_format = VAULT_FORMAT_TAG, vh_version = VAULT_FORMAT_VERSION, vh_kdf = Some kdf,
        vh_cipher = \<lparr>cp_algorithm = cipher, cp_nonce_b64 = b64encode nonce\<rparr>, vh_key_slots = None\<rparr>"
    by (auto simp: check_vault_header_def optionE_def dest!: validate_version_shape_id split: sum.splits)
  show "vault_header_ok h" using h by (rule check_vault_header_ok)
  show "\<exists>kdf. kdf_fields_from_params params salt = Inr kdf \<and> vh_kdf h = Some kdf" using k e by simp
  show "vh_cipher h = \<lparr>cp_algorithm = cipher, cp_nonce_b64 = b64encode nonce\<rparr>" "\<not> uses_key_slots h"
    by (simp_all add: e uses_key_slots_def)
qed

lemma encrypt_payload_opens:
  assumes enc: "encrypt_payload env pt pw params cipher = Inr frame"
    and lib: "aead_correct (cr_aead (ve_crypto env))" "aead_tagged (cr_aead (ve_crypto env))" "reads_ints (ve_int env)"
    and imp: "validate_import_kdf params = Inr ()"
  obtains fr nonce where "unpack (ve_int env) frame = Inr fr" "cp_nonce (vh_cipher (uf_header fr)) = Inr nonce"
    "length nonce = NONCE_LEN" "\<And>w src. decrypt_frame env fr (Some pw) None src w = (Inr pt, w)"
proof -
  let ?cr = "ve_crypto env" and ?salt = "ve_salt env (nat (kp_salt_len params))" and ?n = "ve_nonce env NONCE_LEN"
  obtain h raw where h: "build_header cipher ?salt ?n params = Inr h"
    and raw: "derived ?cr pw ?salt params = Some raw"
    and sealed: "seal_payload env h pt (sb_from_bytes (cr_mlock ?cr) raw) ?n cipher = Inr frame"
    using enc by (auto simp: encrypt_payload_def Let_def generate_nonce_def derive_key_derived)
  note b = build_header_Inr [OF h]
  obtain kdf where kdf: "kdf_fields_from_params params ?salt = Inr kdf" "vh_kdf h = Some kdf" using b(2) by blast
  have kb: "kdf_fields_to_params kdf = Inr params" "kf_salt kdf = Inr ?salt"
    using raw by (auto intro!: to_params_from_params [OF kdf(1)] simp: derived_def split: if_splits)
  have dk: "derive_key (cr_argon2 ?cr) (cr_mlock ?cr) pw ?salt params = Inr (sb_from_bytes (cr_mlock ?cr) raw)"
    using raw by (simp add: derive_key_derived)
  note so = seal_payload_opens [OF sealed b(1) lib(2,3)]
  let ?fr = "\<lparr>uf_header = h, uf_header_bytes = header_to_canonical_json h, uf_ciphertext = seal (cr_aead ?cr) cipher raw ?n
    (header_to_canonical_json h) pt\<rparr>"
  have vk: "vault_key env ?fr (Some pw) None src w = (Inr (sb_from_bytes (cr_mlock ?cr) raw), w)" for src w
    using b(4) kdf(2) kb imp dk by (simp add: vault_key_def Let_def)
  have "aead_decrypt (cr_aead ?cr) (seal (cr_aead ?cr) cipher raw ?n (header_to_canonical_json h) pt)
      (sb_from_bytes (cr_mlock ?cr) raw) ?n (header_to_canonical_json h) cipher = Inr pt"
    using so lib(1) by (simp add: aead_decrypt_Inr aead_correct_def)
  then have "decrypt_frame env ?fr (Some pw) None src w = (Inr pt, w)" for src w
    using b(3) by (simp add: decrypt_frame_def bindP_def vk catchP_def nonce_read_back)
  then show thesis using that [of ?fr ?n] so b(3) by (simp add: nonce_read_back)
qed

lemma slots_header_Inr:
  assumes "slots_header cipher nonce slots = Inr h"
  shows "vault_header_ok h" "uses_key_slots h" "mapE check_vault_key_slot slots = Inr (the (vh_key_slots h))"
    "vh_key_slots h \<noteq> None" "vh_cipher h = \<lparr>cp_algorithm = cipher, cp_nonce_b64 = b64encode nonce\<rparr>"
proof -
  have h: "check_vault_header \<lparr>vh_format = VAULT_FORMAT_TAG, vh_version = VAULT_FORMAT_VERSION_SLOTS, vh_kdf = None,
        vh_cipher = \<lparr>cp_algorithm = cipher, cp_nonce_b64 = b64encode nonce\<rparr>, vh_key_slots = Some slots\<rparr> = Inr h"
    using assms by (auto simp: slots_header_def check_cipher_params_Inr)
  then obtain ss where ss: "check_slots slots = Inr ss" "validate_version_shape \<lparr>vh_format = VAULT_FORMAT_TAG,
        vh_version = VAULT_FORMAT_VERSION_SLOTS, vh_kdf = None,
        vh_cipher = \<lparr>cp_algorithm = cipher, cp_nonce_b64 = b64encode nonce\<rparr>, vh_key_slots = Some ss\<rparr> = Inr h"
    by (auto simp: check_vault_header_def optionE_def split: sum.splits)
  then have e: "h = \<lparr>vh_format = VAULT_FORMAT_TAG, vh_version = VAULT_FORMAT_VERSION_SLOTS, vh_kdf = None,
        vh_cipher = \<lparr>cp_algorithm = cipher, cp_nonce_b64 = b64encode nonce\<rparr>, vh_key_slots = Some ss\<rparr>" "ss \<noteq> []"
    by (auto dest: validate_version_shape_id) (simp add: validate_version_shape_def VAULT_FORMAT_VERSION_SLOTS_def VAULT_FORMAT_VERSION_def)
  show "vault_header_ok h" using h by (rule check_vault_header_ok)
  show "uses_key_slots h" "mapE check_vault_key_slot slots = Inr (the (vh_key_slots h))" "vh_key_slots h \<noteq> None"
    "vh_cipher h = \<lparr>cp_algorithm = cipher, cp_nonce_b64 = b64encode nonce\<rparr>"
    using e ss(1) by (auto simp: uses_key_slots_def check_slots_def split: if_splits)
qed

lemma first_slot_opens:
  assumes wrap: "wrap_with_passphrase cr sr nr fk pw params cipher = Inr slot" and lib: "aead_correct (cr_aead cr)"
    and fk: "length (key_bytes fk) = FILE_KEY_LEN" and imp: "validate_import_kdf params = Inr ()"
  shows "try_passphrase_slots cr pw cipher None (slot # slots) = Inr (sb_from_bytes (cr_mlock cr) (key_bytes fk)) \<and>
    vs_type slot = PASSPHRASE \<and> check_vault_key_slot slot = Inr slot"
proof -
  obtain raw kdf where raw: "derived cr pw (sr (nat (kp_salt_len params))) params = Some raw"
      "kdf_fields_from_params params (sr (nat (kp_salt_len params))) = Inr kdf"
    and s: "check_vault_key_slot \<lparr>vs_type = PASSPHRASE,
        vs_wrapped_key_b64 = b64encode (seal (cr_aead cr) cipher raw (nr NONCE_LEN)
          (slot_associated_data PASSPHRASE) (key_bytes fk)),
        vs_kdf = Some kdf, vs_nonce_b64 = Some (b64encode (nr NONCE_LEN)), vs_fingerprint = None,
        vs_label = ''Master passphrase''\<rparr> = Inr slot"
    using wrap unfolding wrap_Inr by blast
  have e: "vs_kdf slot = Some kdf" "vs_type slot = PASSPHRASE"
    using check_vault_key_slot_passphrase [OF s] by simp_all
  have "kdf_fields_to_params kdf = Inr params"
    using raw(1) by (auto intro!: to_params_from_params(1) [OF raw(2)] simp: derived_def split: if_splits)
  then show ?thesis
    using e imp unwrap_wrapped [OF lib fk wrap] check_vault_key_slot_idem [OF s] by simp
qed

lemma encrypt_with_slots_opens:
  assumes enc: "encrypt_payload_with_slots env pt (Some pw) params cipher wk w0 = (Inr frame, w1)"
    and lib: "aead_correct (cr_aead (ve_crypto env))" "aead_tagged (cr_aead (ve_crypto env))" "reads_ints (ve_int env)"
    and imp: "validate_import_kdf params = Inr ()"
  obtains fr nonce where "unpack (ve_int env) frame = Inr fr" "cp_nonce (vh_cipher (uf_header fr)) = Inr nonce"
    "length nonce = NONCE_LEN" "\<And>w src. decrypt_frame env fr (Some pw) None src w = (Inr pt, w)"
proof -
  let ?cr = "ve_crypto env" and ?n = "ve_nonce env NONCE_LEN"
  let ?fk = "sb_from_bytes (cr_mlock ?cr) (ve_file_key env FILE_KEY_LEN)"
  obtain slot ks h where wrap: "wrap_with_passphrase ?cr (ve_slot_salt env) (ve_slot_nonce env) ?fk pw params cipher = Inr slot"
    and h: "slots_header cipher ?n (slot # ks) = Inr h"
    and sealed: "seal_payload env h pt ?fk ?n cipher = Inr frame"
    using enc by (auto simp: encrypt_payload_with_slots_def Let_def generate_nonce_def generate_file_key_def
        bindP_eq_Inr bindP_lift split: if_splits sum.splits)
  note b = slots_header_Inr [OF h] and so = seal_payload_opens [OF sealed slots_header_Inr(1) [OF h] lib(2,3)]
  have fk: "length (key_bytes ?fk) = FILE_KEY_LEN" using so by (simp add: FILE_KEY_LEN_def)
  have "mapE check_vault_key_slot (slot # ks) = Inr (the (vh_key_slots h))" using b(3) .
  then obtain ks' where ks': "vh_key_slots h = Some (slot # ks')"
    using b(4) first_slot_opens [OF wrap lib(1) fk imp, of ks] by auto
  then have sl: "slots_of h PASSPHRASE = slot # filter (\<lambda>s. vs_type s = PASSPHRASE) ks'"
    using first_slot_opens [OF wrap lib(1) fk imp, of ks] by (simp add: slots_of_def)
  let ?hb = "header_to_canonical_json h"
  let ?fr = "\<lparr>uf_header = h, uf_header_bytes = ?hb,
    uf_ciphertext = seal (cr_aead ?cr) cipher (ve_file_key env FILE_KEY_LEN) ?n ?hb pt\<rparr>"
  have vk: "vault_key env ?fr (Some pw) None src w = (Inr ?fk, w)" for src w
    using b(2,5) first_slot_opens [OF wrap lib(1) fk imp]
    by (simp add: vault_key_def Let_def unwrap_passphrase_slot_def sl catchP_def)
  have "aead_decrypt (cr_aead ?cr) (seal (cr_aead ?cr) cipher (ve_file_key env FILE_KEY_LEN) ?n ?hb pt) ?fk ?n ?hb cipher = Inr pt"
    using so lib(1) by (simp add: aead_decrypt_Inr aead_correct_def)
  then have "decrypt_frame env ?fr (Some pw) None src w = (Inr pt, w)" for src w
    using b(5) by (simp add: decrypt_frame_def bindP_def vk catchP_def nonce_read_back)
  then show thesis using that [of ?fr ?n] so b(5) by (simp add: nonce_read_back)
qed

section \<open>Creating and opening\<close>

text \<open>Documented behaviour: an export that succeeds is not empty; SHA-256 is 64 hexadecimal digits.\<close>

definition exports_nonempty :: "'k gpg_ops \<Rightarrow> bool" where
  "exports_nonempty gpg \<longleftrightarrow> (\<forall>fp pw k a k'. g_export_private_key gpg fp pw k = (Inr a, k') \<longrightarrow> a \<noteq> [])"

definition sha256_ok :: "(bytes \<Rightarrow> str) \<Rightarrow> bool" where
  "sha256_ok sha \<longleftrightarrow> (\<forall>b. length (sha b) = 64 \<and> list_all (\<lambda>c. c \<in> set ''0123456789abcdef'') (sha b))"

definition manifest_of :: "('k, 'l) vault_env \<Rightarrow> str \<Rightarrow> str \<Rightarrow> collected_entry list \<Rightarrow> vault_manifest" where
  "manifest_of env description created_by cs =
     \<lparr>vm_created_by = created_by, vm_created_at = ve_now env, vm_app_version = ve_app_version env,
      vm_description = description, vm_keys = map ce_entry cs\<rparr>"

lemma mapP_Inr: "mapP f xs s = (Inr ys, t) \<Longrightarrow> list_all2 (\<lambda>x y. \<exists>u v. f x u = (Inr y, v)) xs ys"
proof (induction xs arbitrary: s ys)
  case (Cons x xs)
  then obtain y zs u where "f x s = (Inr y, u)" "ys = y # zs" "mapP f xs u = (Inr zs, t)"
    by (auto simp: bindP_eq_Inr)
  then show ?case using Cons.IH by auto
qed simp

lemma collect_entry_Inr:
  assumes "collect_entry env gp fp w = (Inr c, w')" "fingerprint_ok fp" "exports_nonempty (ve_gpg env)"
  shows "check_vault_key_entry (ce_entry c) = Inr (ce_entry c)" "ve_fingerprint (ce_entry c) = fp" "collected_ok c"
proof -
  from assms(1) obtain key wa pub wb priv w1 e w2 where s:
      "export_private_for_vault env fp key gp wb = (Inr priv, w1)"
      "liftP (check_vault_key_entry
       \<lparr>ve_fingerprint = fp, ve_user_ids = ki_user_ids key, ve_has_private_key = priv \<noteq> None,
        ve_is_stub = ki_is_stub key \<or> (\<not> priv \<noteq> None \<and> ki_has_private_key key),
        ve_created_at = ki_created_at key, ve_expires_at = ki_expires_at key\<rparr>) w1 = (Inr e, w2)"
      "retP \<lparr>ce_entry = e, ce_public_key = pub, ce_private_key = priv\<rparr> w2 = (Inr c, w')"
    unfolding collect_entry_def bindP_eq_Inr Let_def by blast
  then have e: "check_vault_key_entry
       \<lparr>ve_fingerprint = fp, ve_user_ids = ki_user_ids key, ve_has_private_key = priv \<noteq> None,
        ve_is_stub = ki_is_stub key \<or> (\<not> priv \<noteq> None \<and> ki_has_private_key key),
        ve_created_at = ki_created_at key, ve_expires_at = ki_expires_at key\<rparr> = Inr e"
    and x: "export_private_for_vault env fp key gp wb = (Inr priv, w1)"
    and c: "ce_entry c = e" "ce_private_key c = priv" by auto
  have fp: "ve_fingerprint e = fp" "ve_has_private_key e = (priv \<noteq> None)"
    using e assms(2) by (auto simp: check_vault_key_entry_def split: if_splits)
  show "check_vault_key_entry (ce_entry c) = Inr (ce_entry c)" using check_vault_key_entry_idem [OF e] c(1) by simp
  show "ve_fingerprint (ce_entry c) = fp" using fp c by simp
  have nx: "g_export_private_key (ve_gpg env) f p k = (Inr [], k') \<Longrightarrow> False" for f p k k'
    using assms(3) unfolding exports_nonempty_def by blast
  have "priv \<noteq> Some []"
    using x by (auto simp: export_private_for_vault_def thenP_def bindP_def on_gpg_def dest: nx
        split: if_splits option.splits prod.splits sum.splits exn.splits)
  then show "collected_ok c" using fp c assms(2) by (cases priv) (auto simp: collected_ok_def)
qed

lemma validated_fingerprints:
  "mapE validate_fingerprint xs = Inr fps \<Longrightarrow> fps = map upper xs \<and> list_all fingerprint_ok fps"
  by (induction xs arbitrary: fps) (auto simp: validate_fingerprint_ok)

lemma collect_entries_Inr:
  assumes "collect_entries env fps gp w = (Inr cs, w')" "list_all fingerprint_ok fps" "exports_nonempty (ve_gpg env)"
  shows "list_all collected_ok cs" "map (ve_fingerprint \<circ> ce_entry) cs = fps"
    "mapE check_vault_key_entry (map ce_entry cs) = Inr (map ce_entry cs)"
proof -
  have "list_all2 (\<lambda>fp c. \<exists>u v. collect_entry env gp fp u = (Inr c, v)) fps cs"
    using assms(1) unfolding collect_entries_def by (rule mapP_Inr)
  then have "list_all collected_ok cs \<and> map (ve_fingerprint \<circ> ce_entry) cs = fps \<and>
      mapE check_vault_key_entry (map ce_entry cs) = Inr (map ce_entry cs)"
    using assms(2) by (induction rule: list_all2_induct) (auto dest: collect_entry_Inr [OF _ _ assms(3)])
  then show "list_all collected_ok cs" "map (ve_fingerprint \<circ> ce_entry) cs = fps"
    "mapE check_vault_key_entry (map ce_entry cs) = Inr (map ce_entry cs)" by blast+
qed

lemma manifest_checked:
  assumes "check_vault_manifest (manifest_of env d b cs) = Inr m"
    and "mapE check_vault_key_entry (map ce_entry cs) = Inr (map ce_entry cs)"
  shows "m = manifest_of env d b cs"
  using assms by (auto simp: check_vault_manifest_def manifest_of_def split: if_splits)

text \<open>The steps of a creation that returns.\<close>

lemma audit_files: "audit env ev out pl w = (r, w') \<Longrightarrow> vw_files w' = vw_files w \<and> vw_records w' = vw_records w \<and> vw_gpg w' = vw_gpg w"
  by (auto simp: audit_def on_audit_def split: prod.splits)

lemma write_vault_files_Inr:
  assumes "write_vault_files env target frame w = (Inr sha, w')"
  shows "vw_files w' target = Some frame" "sha = ve_sha256 env frame"
    "vw_files w' (sidecar_path target) = Some (sha @ ''  '' @ path_name target @ [CHR 0x0A])"
  using assms by (auto simp: write_vault_files_def thenP_eq_Inr write_file_def Let_def sidecar_path_def split: option.splits)

lemma create_Inr:
  assumes "create env target pw gp fingerprints description created_by cipher kdf unlock w = (Inr d, w')"
  obtains fps params cs w1 m pt frame w2 where
    "mapE validate_fingerprint fingerprints = Inr fps" "(case kdf of Some p \<Rightarrow> Inr p | None \<Rightarrow> high_memory_params) = Inr params"
    "ve_lock env = None" "collect_entries env fps gp w = (Inr cs, w1)"
    "check_vault_manifest (manifest_of env description created_by cs) = Inr m"
    "serialise_segmented_payload (ve_lib env) cs m = Inr pt"
    "(\<exists>pw'. pw = Some pw' \<and> encrypt_payload env pt pw' params cipher = Inr frame) \<or>
     unlock \<noteq> [] \<and> (\<exists>wk. encrypt_payload_with_slots env pt pw params cipher wk w1 = (Inr frame, w2))"
    "vw_files w' target = Some frame"
    "vw_files w' (sidecar_path target) = Some (ve_sha256 env frame @ ''  '' @ path_name target @ [CHR 0x0A])"
    "d = \<lparr>vd_path = target, vd_sha256 = ve_sha256 env frame, vd_key_count = length cs\<rparr>"
proof -
  obtain fps unlock_fps params where pre: "mapE validate_fingerprint fingerprints = Inr fps"
      "mapE validate_fingerprint unlock = Inr unlock_fps"
      "(case kdf of Some p \<Rightarrow> Inr p | None \<Rightarrow> high_memory_params) = Inr params" "ve_lock env = None"
    and body: "create_body env target pw gp fps description created_by cipher params unlock_fps w = (Inr d, w')"
    using assms
    by (auto simp: create_def bindP_eq_Inr thenP_eq_Inr acquire_write_lock_def catchP_reraise [OF thenP_raise_fails]
        split: if_splits option.splits)
  obtain cs w1 m wm pt wp frame w2 sha w3 u4 w4 u5 w5 where b: "collect_entries env fps gp w = (Inr cs, w1)"
      "liftP (check_vault_manifest (manifest_of env description created_by cs)) w1 = (Inr m, wm)"
      "liftP (serialise_segmented_payload (ve_lib env) cs m) wm = (Inr pt, wp)"
      "make_frame env pt pw params cipher unlock_fps wp = (Inr frame, w2)"
      "write_vault_files env target frame w2 = (Inr sha, w3)"
      "audit env ''vault_created'' OK
        [(''path'', PStr target), (''key_count'', PInt (int (length cs))), (''cipher'', PStr (cipher_value cipher)),
         (''sha256'', PStr sha), (''unlock_key_count'', PInt (int (length unlock_fps)))] w3 = (Inr u4, w4)"
      "add_vault_record env target (length cs) description w4 = (Inr u5, w5)"
      "retP \<lparr>vd_path = target, vd_sha256 = sha, vd_key_count = length cs\<rparr> w5 = (Inr d, w')"
    using body unfolding create_body_def manifest_of_def bindP_eq_Inr thenP_eq_Inr by blast
  have st: "wp = w1" "check_vault_manifest (manifest_of env description created_by cs) = Inr m"
      "serialise_segmented_payload (ve_lib env) cs m = Inr pt" using b(2,3) by auto
  have files: "vw_files w' = vw_files w3"
    using b(7,8) audit_files [OF b(6)] by (auto simp: add_vault_record_def split: option.splits)
  note f = write_vault_files_Inr [OF b(5)]
  show thesis
    by (rule that [OF pre(1,3,4) b(1) st(2,3)])
      (use b(4,8) st(1) f files pre(2) in \<open>auto simp: make_frame_def split: if_splits option.splits\<close>)
qed

text \<open>The sidecar, as \<open>_write_vault_files\<close> writes it and \<open>_read_sidecar_digest\<close> reads it.\<close>

definition sidecar_line :: "str \<Rightarrow> str \<Rightarrow> bytes" where
  "sidecar_line sha name = sha @ ''  '' @ name @ [CHR 0x0A]"

lemma hex_digit_facts:
  assumes "c \<in> set ''0123456789abcdef''"
  shows "\<not> is_space c" "is_ascii c" "lower_char c = c"
  using assms by (auto simp: is_space_def is_ascii_def lower_char_def)

lemma take_newline: "list_all is_ascii (take n (name @ [CHR 0x0A])) \<longleftrightarrow> list_all is_ascii (take n name)"
  by (cases "n - length name") (auto simp: is_ascii_def)

lemma take_sidecar:
  assumes "length sha = 64"
  shows "take 256 (sidecar_line sha name) = sha @ CHR '' '' # CHR '' '' # take 190 (name @ [CHR 0x0A])"
proof -
  have "take 256 (sidecar_line sha name) = take 256 sha @ take (256 - length sha) (''  '' @ name @ [CHR 0x0A])"
    unfolding sidecar_line_def by (rule take_append)
  also have "take 256 sha = sha" by (rule take_all) (simp add: assms)
  also have "256 - length sha = Suc (Suc 190)" by (simp add: assms)
  finally show ?thesis by (simp only: append_Cons append_Nil take_Suc_Cons)
qed

lemma read_sidecar_line:
  assumes "length sha = 64" "list_all (\<lambda>c. c \<in> set ''0123456789abcdef'') sha"
  shows "read_sidecar_digest (sidecar_line sha name) =
    (if list_all is_ascii (take 190 name) then Inr sha else Inl UnicodeError)"
proof -
  have sha: "list_all (\<lambda>c. \<not> is_space c) sha" "list_all is_ascii sha" "lower sha = sha"
    using assms(2) hex_digit_facts by (auto simp only: list_all_iff intro!: map_idI)
  have ne: "sha \<noteq> []" using assms(1) by auto
  obtain ws where ws: "words (sha @ CHR '' '' # CHR '' '' # take 190 (name @ [CHR 0x0A])) = sha # ws"
    using words_Cons [OF ne sha(1), of "CHR '' ''"] by (auto simp: is_space_def)
  have sp: "is_ascii (CHR '' '')" by (simp add: is_ascii_def)
  have asc: "list_all is_ascii (sha @ CHR '' '' # CHR '' '' # take 190 (name @ [CHR 0x0A])) \<longleftrightarrow> list_all is_ascii (take 190 name)"
    using sha(2) sp by (simp only: list_all_append list.pred_inject take_newline simp_thms)
  show ?thesis
    unfolding read_sidecar_digest_def Let_def take_sidecar [OF assms(1)] asc ws list.case sha(3)
    using assms by (simp only: simp_thms if_False not_True_eq_False HOL.if_cancel) simp
qed

lemma frame_length:
  assumes "unpack as_int data = Inr fr"
  shows "length data \<le> MAX_VAULT_FRAME_SIZE"
proof -
  note u = unpack_Inr [OF assms]
  have "length data = 13 + length (uf_header_bytes fr) + length (uf_ciphertext fr)"
    by (subst u(1)) (simp add: frame_of_def)
  moreover have "HEADER_OFFSET + LENGTH_FIELD = 13" by (simp add: frame_consts)
  ultimately show ?thesis using u(4,6) unfolding MAX_VAULT_FRAME_SIZE_def by linarith
qed

lemma read_vault_runs:
  assumes "ve_lock env = None" "vw_files w src = Some data" "unpack as_int data = Inr fr"
  shows "read_vault_bytes env src w = (Inr data, w)"
proof -
  have len: "length data \<le> MAX_VAULT_FRAME_SIZE" by (rule frame_length [OF assms(3)])
  then have tk: "take (MAX_VAULT_FRAME_SIZE + 1) data = data" by (intro take_all) linarith
  show ?thesis
    using len unfolding read_vault_bytes_def Let_def assms(1,2) option.case tk by (simp only: not_less [symmetric] if_False)
qed

text \<open>An open vault whose file unpacks, decrypts and deserialises.\<close>

lemma open_vault_runs:
  assumes "ve_lock env = None" "vw_files w src = Some data" "unpack (ve_int env) data = Inr fr"
    and "cp_nonce (vh_cipher (uf_header fr)) = Inr nonce" "length nonce = NONCE_LEN"
    and "decrypt_frame env fr (Some pw) None src w = (Inr pt, w)"
    and "verify_sidecar env src data w = (Inr (), w)"
    and "deserialise_segmented_payload (ve_lib env) pt = Inr (m, slices, view)"
  shows "open_vault env src (Some pw) None False w =
    (Inr \<lparr>ov_manifest = m, ov_src_path = src, ov_plaintext = view, ov_key_slices = slices\<rparr>, w)"
  using assms by (simp add: open_vault_def bindP_def thenP_def catchP_def read_vault_runs [OF assms(1-3)])

lemma verify_sidecar_line:
  assumes "vw_files w (sidecar_path src) = Some (sidecar_line (ve_sha256 env data) name)" "sha256_ok (ve_sha256 env)"
  shows "verify_sidecar env src data w = (if list_all is_ascii (take 190 name) then Inr () else Inl UnicodeError, w)"
proof -
  have h: "length (ve_sha256 env data) = 64" "list_all (\<lambda>c. c \<in> set ''0123456789abcdef'') (ve_sha256 env data)"
    using assms(2) by (auto simp: sha256_ok_def)
  have "lower (ve_sha256 env data) = ve_sha256 env data"
    using h(2) hex_digit_facts by (auto simp only: list_all_iff intro!: map_idI)
  then show ?thesis
    using assms(1) read_sidecar_line [OF h] by (simp add: verify_sidecar_def bindP_def)
qed

text \<open>What a creation that returns leaves, and what opening it comes to, up to the sidecar.\<close>

definition importable :: "kdf_params option \<Rightarrow> bool" where
  "importable kdf \<longleftrightarrow> (case kdf of None \<Rightarrow> True | Some p \<Rightarrow> validate_import_kdf p = Inr ())"

lemma high_memory_importable: "high_memory_params = Inr p \<Longrightarrow> validate_import_kdf p = Inr ()"
  by (auto simp: high_memory_params_def make_kdf_params_Inr validate_import_kdf_def kdf_limits)

definition libraries_ok :: "('k, 'l) vault_env \<Rightarrow> bool" where
  "libraries_ok env \<longleftrightarrow> aead_correct (cr_aead (ve_crypto env)) \<and> aead_tagged (cr_aead (ve_crypto env)) \<and>
     reads_ints (ve_int env) \<and> dumps_read_back (ve_lib env) \<and> exports_nonempty (ve_gpg env) \<and> sha256_ok (ve_sha256 env)"

lemma created_opens:
  assumes run: "create env target (Some pw) gp fingerprints description created_by cipher kdf unlock w = (Inr d, w')"
    and lib: "libraries_ok env" and imp: "importable kdf" and dist: "distinct (map upper fingerprints)"
    and cs: "collect_entries env (map upper fingerprints) gp w = (Inr cs, w1)"
    and back_m: "manifest_reads_back (ve_lib env) (manifest_of env description created_by cs)"
  obtains fr nonce data pt slices where "ve_lock env = None" "vw_files w' target = Some data"
    "unpack (ve_int env) data = Inr fr" "cp_nonce (vh_cipher (uf_header fr)) = Inr nonce" "length nonce = NONCE_LEN"
    "\<And>u. decrypt_frame env fr (Some pw) None target u = (Inr pt, u)"
    "vw_files w' (sidecar_path target) = Some (sidecar_line (ve_sha256 env data) (path_name target))"
    "deserialise_segmented_payload (ve_lib env) pt = Inr (manifest_of env description created_by cs, slices, pt)"
    "map (ve_fingerprint \<circ> ce_entry) cs = map upper fingerprints"
    "\<And>c. c \<in> set cs \<Longrightarrow> \<exists>ks. slices (ve_fingerprint (ce_entry c)) = Some ks \<and> slice_holds pt c ks"
    "d = \<lparr>vd_path = target, vd_sha256 = ve_sha256 env data, vd_key_count = length cs\<rparr>"
proof -
  have l: "aead_correct (cr_aead (ve_crypto env))" "aead_tagged (cr_aead (ve_crypto env))" "reads_ints (ve_int env)"
    "dumps_read_back (ve_lib env)" "exports_nonempty (ve_gpg env)"
    using lib by (auto simp: libraries_ok_def)
  obtain fps params cs' wa m pt frame w2 where c: "mapE validate_fingerprint fingerprints = Inr fps"
      "(case kdf of Some p \<Rightarrow> Inr p | None \<Rightarrow> high_memory_params) = Inr params"
      "ve_lock env = None" "collect_entries env fps gp w = (Inr cs', wa)"
      "check_vault_manifest (manifest_of env description created_by cs') = Inr m"
      "serialise_segmented_payload (ve_lib env) cs' m = Inr pt"
      "(\<exists>pw'. Some pw = Some pw' \<and> encrypt_payload env pt pw' params cipher = Inr frame) \<or>
       unlock \<noteq> [] \<and> (\<exists>wk. encrypt_payload_with_slots env pt (Some pw) params cipher wk wa = (Inr frame, w2))"
      "vw_files w' target = Some frame"
      "vw_files w' (sidecar_path target) = Some (ve_sha256 env frame @ ''  '' @ path_name target @ [CHR 0x0A])"
      "d = \<lparr>vd_path = target, vd_sha256 = ve_sha256 env frame, vd_key_count = length cs'\<rparr>"
    by (rule create_Inr [OF run])
  have fps: "fps = map upper fingerprints" "list_all fingerprint_ok fps" using validated_fingerprints [OF c(1)] by auto
  have eq: "cs' = cs" using c(4) cs fps(1) by simp
  note col = collect_entries_Inr [OF c(4) fps(2) l(5), unfolded eq]
  have m: "m = manifest_of env description created_by cs" using manifest_checked [OF c(5) [unfolded eq] col(3)] .
  have imp': "validate_import_kdf params = Inr ()"
    using imp c(2) high_memory_importable by (auto simp: importable_def split: option.splits)
  obtain fr nonce where fr: "unpack (ve_int env) frame = Inr fr" "cp_nonce (vh_cipher (uf_header fr)) = Inr nonce"
      "length nonce = NONCE_LEN" "\<And>u src. decrypt_frame env fr (Some pw) None src u = (Inr pt, u)"
    using c(7) encrypt_payload_opens [OF _ l(1-3) imp'] encrypt_with_slots_opens [OF _ l(1-3) imp'] by (metis option.inject)
  obtain slices where des: "deserialise_segmented_payload (ve_lib env) pt = Inr (m, slices, pt)"
      "\<forall>c \<in> set cs. \<exists>ks. slices (ve_fingerprint (ce_entry c)) = Some ks \<and> slice_holds pt c ks"
    using deserialise_serialised [OF l(4) _ _ _ col(1) c(6) [unfolded eq]] back_m dist fps(1) col(2) c(5) [unfolded eq]
    by (auto simp: m manifest_of_def)
  show thesis
    by (rule that [OF c(3,8) fr(1-3) fr(4)]) (use c(9,10) des col(2) fps(1) m eq in \<open>auto simp: sidecar_line_def\<close>)
qed

definition material_of :: "collected_entry \<Rightarrow> bytes" where
  "material_of c = (if key_bytes_or_empty (ce_private_key c) \<noteq> [] then key_bytes_or_empty (ce_private_key c)
     else ce_public_key c)"

lemma slice_holds_material:
  assumes "slices fp = Some ks" "slice_holds view c ks"
  shows "key_material slices view fp = Inr (material_of c)"
  using assms by (auto simp: key_material_def slice_holds_def material_of_def)

lemma created_vault_opened:
  assumes "create env target (Some pw) gp fingerprints description created_by cipher kdf unlock w = (Inr d, w')"
    and "libraries_ok env" "importable kdf" "distinct (map upper fingerprints)"
    and "collect_entries env (map upper fingerprints) gp w = (Inr cs, w1)"
    and "manifest_reads_back (ve_lib env) (manifest_of env description created_by cs)"
    and "list_all is_ascii (take 190 (path_name target))"
  obtains slices pt where "open_vault env target (Some pw) None False w' =
      (Inr \<lparr>ov_manifest = manifest_of env description created_by cs, ov_src_path = target, ov_plaintext = pt,
        ov_key_slices = slices\<rparr>, w')"
    "map (ve_fingerprint \<circ> ce_entry) cs = map upper fingerprints"
    "\<And>c. c \<in> set cs \<Longrightarrow> \<exists>ks. slices (ve_fingerprint (ce_entry c)) = Some ks \<and> slice_holds pt c ks"
proof -
  obtain fr nonce data pt slices where o: "ve_lock env = None" "vw_files w' target = Some data"
    "unpack (ve_int env) data = Inr fr" "cp_nonce (vh_cipher (uf_header fr)) = Inr nonce" "length nonce = NONCE_LEN"
    "\<And>u. decrypt_frame env fr (Some pw) None target u = (Inr pt, u)"
    "vw_files w' (sidecar_path target) = Some (sidecar_line (ve_sha256 env data) (path_name target))"
    "deserialise_segmented_payload (ve_lib env) pt = Inr (manifest_of env description created_by cs, slices, pt)"
    "map (ve_fingerprint \<circ> ce_entry) cs = map upper fingerprints"
    "\<And>c. c \<in> set cs \<Longrightarrow> \<exists>ks. slices (ve_fingerprint (ce_entry c)) = Some ks \<and> slice_holds pt c ks"
    by (rule created_opens [OF assms(1-6)]) (rule that, assumption+)
  have "verify_sidecar env target data w' = (Inr (), w')"
    using verify_sidecar_line [OF o(7)] assms(2,7) by (simp add: libraries_ok_def)
  from open_vault_runs [OF o(1-5) o(6) this o(8)] show thesis by (rule that [OF _ o(9,10)])
qed

text \<open>
  C2. A created vault opens: a vault that \<open>create\<close> returned, with a passphrase and with or without
  further OpenPGP slots, opens with that passphrase in the state the creation left; it lists the
  fingerprints asked for, in their order, and hands out for every one the key material exported
  for it; opening changes nothing. The libraries invert what they did, the Argon2 parameters are
  within the import limits and the file name is ASCII.
\<close>

theorem created_vault_opens:
  assumes "create env target (Some pw) gp fingerprints description created_by cipher kdf unlock w = (Inr d, w')"
    and "libraries_ok env" "importable kdf" "distinct (map upper fingerprints)"
    and "collect_entries env (map upper fingerprints) gp w = (Inr cs, w1)"
    and "manifest_reads_back (ve_lib env) (manifest_of env description created_by cs)"
    and "list_all is_ascii (take 190 (path_name target))"
  shows "\<exists>v. open_vault env target (Some pw) None False w' = (Inr v, w') \<and>
    ov_manifest v = manifest_of env description created_by cs \<and>
    map ve_fingerprint (vm_keys (ov_manifest v)) = map upper fingerprints \<and>
    (\<forall>c \<in> set cs. key_material (ov_key_slices v) (ov_plaintext v) (ve_fingerprint (ce_entry c)) = Inr (material_of c))"
  by (rule created_vault_opened [OF assms]) (fastforce simp: manifest_of_def intro: slice_holds_material)

text \<open>
  Under a file name with a byte outside ASCII in its first 190 bytes the same vault cannot be
  opened: \<open>_write_vault_files\<close> puts the name into the sidecar as UTF-8, \<open>_read_sidecar_digest\<close>
  decodes the sidecar as strict ASCII, and the \<open>UnicodeDecodeError\<close> leaves \<open>open_vault\<close>, without an
  audit event.
\<close>

theorem non_ascii_vault_cannot_be_opened:
  assumes "create env target (Some pw) gp fingerprints description created_by cipher kdf unlock w = (Inr d, w')"
    and "libraries_ok env" "importable kdf" "distinct (map upper fingerprints)"
    and "collect_entries env (map upper fingerprints) gp w = (Inr cs, w1)"
    and "manifest_reads_back (ve_lib env) (manifest_of env description created_by cs)"
    and "\<not> list_all is_ascii (take 190 (path_name target))"
  shows "open_vault env target (Some pw) None False w' = (Inl UnicodeError, w')"
proof -
  obtain fr nonce data pt slices where o: "ve_lock env = None" "vw_files w' target = Some data"
    "unpack (ve_int env) data = Inr fr" "cp_nonce (vh_cipher (uf_header fr)) = Inr nonce" "length nonce = NONCE_LEN"
    "\<And>u. decrypt_frame env fr (Some pw) None target u = (Inr pt, u)"
    "vw_files w' (sidecar_path target) = Some (sidecar_line (ve_sha256 env data) (path_name target))"
    "deserialise_segmented_payload (ve_lib env) pt = Inr (manifest_of env description created_by cs, slices, pt)"
    by (rule created_opens [OF assms(1-6)]) (rule that, assumption+)
  have v: "verify_sidecar env target data w' = (Inl UnicodeError, w')"
    using verify_sidecar_line [OF o(7)] assms(2,7) by (simp add: libraries_ok_def)
  have r: "read_vault_bytes env target w' = (Inr data, w')"
    by (rule read_vault_runs [OF o(1-3)])
  show ?thesis
    using o v by (simp add: open_vault_def bindP_def thenP_def catchP_def r)
qed

lemma encrypt_payload_frame:
  assumes enc: "encrypt_payload env pt pw params cipher = Inr frame"
    and lib: "aead_tagged (cr_aead (ve_crypto env))" "reads_ints (ve_int env)"
  obtains fr kdf where "unpack (ve_int env) frame = Inr fr" "vh_kdf (uf_header fr) = Some kdf"
    "\<not> uses_key_slots (uf_header fr)" "kdf_fields_to_params kdf = Inr params"
proof -
  let ?cr = "ve_crypto env" and ?salt = "ve_salt env (nat (kp_salt_len params))" and ?n = "ve_nonce env NONCE_LEN"
  obtain h raw where h: "build_header cipher ?salt ?n params = Inr h"
    and raw: "derived ?cr pw ?salt params = Some raw"
    and sealed: "seal_payload env h pt (sb_from_bytes (cr_mlock ?cr) raw) ?n cipher = Inr frame"
    using enc by (auto simp: encrypt_payload_def Let_def generate_nonce_def derive_key_derived)
  note b = build_header_Inr [OF h] and so = seal_payload_opens [OF sealed build_header_Inr(1) [OF h] lib]
  obtain kdf where kdf: "kdf_fields_from_params params ?salt = Inr kdf" "vh_kdf h = Some kdf" using b(2) by blast
  have "kdf_fields_to_params kdf = Inr params"
    using raw by (auto intro!: to_params_from_params [OF kdf(1)] simp: derived_def split: if_splits)
  then show thesis using that so b(4) kdf(2) by fastforce
qed

text \<open>
  A vault created with the program's own lower-memory profile can never be opened: its four
  passes exceed the import limit of three, so every attempt, with whatever passphrase, ends in
  \<open>VaultFormatError\<close>, and nothing is audited.
\<close>

theorem balanced_vault_cannot_be_opened:
  assumes "create env target (Some pw) gp fingerprints description created_by cipher (Some params) [] w = (Inr d, w')"
    and "balanced_params = Inr params"
    and "aead_tagged (cr_aead (ve_crypto env))" "reads_ints (ve_int env)"
  shows "open_vault env target (Some any_passphrase) None skip w' = (Inl VaultFormatError, w')"
proof -
  obtain pt frame where f: "encrypt_payload env pt pw params cipher = Inr frame" "vw_files w' target = Some frame"
      "ve_lock env = None" by (rule create_Inr [OF assms(1)]) (auto intro: that)
  obtain fr kdf where u: "unpack (ve_int env) frame = Inr fr" "vh_kdf (uf_header fr) = Some kdf"
    "\<not> uses_key_slots (uf_header fr)" "kdf_fields_to_params kdf = Inr params"
    by (rule encrypt_payload_frame [OF f(1) assms(3,4)])
  have "validate_import_kdf params = Inl VaultFormatError"
    using assms(2) by (auto simp: profile_values validate_import_kdf_def kdf_limits)
  then have "decrypt_frame env fr (Some any_passphrase) None target w' = (Inl VaultFormatError, w')"
    using u(2-4) by (simp add: decrypt_frame_def vault_key_def Let_def bindP_def)
  then show ?thesis
    using f(2) u(1) by (simp add: open_vault_def bindP_def catchP_def read_vault_runs [OF f(3,2) u(1)])
qed

section \<open>A concrete creation\<close>

definition demo_key :: key_info where
  "demo_key = \<lparr>ki_fingerprint = demo_fp, ki_user_ids = [''Alice''], ki_algorithm = EDDSA, ki_raw_algorithm_id = ''22'',
     ki_length = 255, ki_created_at = 5, ki_expires_at = None, ki_is_revoked = False, ki_has_private_key = True,
     ki_is_stub = False, ki_card_serial = [], ki_subkey_fingerprints = [], ki_trust = ULTIMATE, ki_label = [],
     ki_purpose = [], ki_platform = [], ki_notes = [], ki_is_favorite = False\<rparr>"

text \<open>
  A keyring as the list of its fingerprints, and a second key that comes with every blob: GnuPG
  reports both.
\<close>

definition other_fp :: str where
  "other_fp = replicate 40 (CHR ''B'')"

definition demo_gpg :: "str list gpg_ops" where
  "demo_gpg = \<lparr>g_find_key = (\<lambda>fp k. (if fp \<in> set k then Inr demo_key else Inl GPGKeyNotFoundError, k)),
     g_export_public_key = (\<lambda>_. retP ''pub''), g_export_private_key = (\<lambda>_ _. retP ''priv''),
     g_encrypt = (\<lambda>_ _. retP ''armored''), g_decrypt = (\<lambda>_ _. raiseP (GPGCardError [])),
     g_import_key = (\<lambda>_ k. (Inr [demo_fp, other_fp], demo_fp # other_fp # k)),
     g_delete_key = (\<lambda>fp _ k. (Inr (), filter (\<lambda>f. f \<noteq> fp) k))\<rparr>"

definition demo_venv :: "(str list, (str \<times> str) list) vault_env" where
  "demo_venv = \<lparr>ve_crypto = demo_crypto, ve_lib = demo_lib, ve_int = json_int, ve_sha256 = (\<lambda>_. replicate 64 (CHR ''0'')),
     ve_now = 7, ve_app_version = ''1'', ve_gpg = demo_gpg, ve_emit = (\<lambda>ev out _ l. (Inr (), l @ [(ev, out)])),
     ve_prepare = None, ve_lock = None, ve_write = (\<lambda>_. None), ve_metadata = None, ve_salt = demo_draw,
     ve_nonce = demo_draw, ve_file_key = demo_draw, ve_slot_salt = demo_draw, ve_slot_nonce = demo_draw\<rparr>"

definition demo_world :: "(str list, (str \<times> str) list) vault_world" where
  "demo_world = \<lparr>vw_gpg = [demo_fp, other_fp], vw_audit = [], vw_files = Map.empty, vw_records = []\<rparr>"

definition demo_passphrases :: "str \<rightharpoonup> secure_bytes" where
  "demo_passphrases = [demo_fp \<mapsto> demo_passphrase]"

lemma demo_entry_checked: "check_vault_key_entry demo_entry = Inr demo_entry"
  using demo_manifest_ok by (auto simp: check_vault_manifest_def demo_manifest_def split: if_splits)

lemma demo_collect: "\<exists>w. collect_entries demo_venv [demo_fp] demo_passphrases demo_world = (Inr demo_collected, w)"
  using demo_entry_checked
  by (simp add: collect_entries_def collect_entry_def bindP_def catchP_def thenP_def on_gpg_def on_audit_def audit_def
      demo_venv_def demo_world_def demo_gpg_def demo_key_def demo_passphrases_def export_private_for_vault_def
      demo_collected_def demo_entry_def retP_def liftP_def)

lemma demo_manifest_of: "manifest_of demo_venv [] [] demo_collected = demo_manifest"
  by (simp add: manifest_of_def demo_venv_def demo_manifest_def demo_collected_def)

lemma demo_payload_length:
  assumes "serialise_segmented_payload demo_lib demo_collected demo_manifest = Inr payload"
  shows "length payload = 40"
proof -
  obtain raw where "fromhex demo_fp = Inr raw" "length raw = 20" using fingerprint_hex [OF demo_fp_ok] by blast
  then show ?thesis
    using assms
    by (auto simp: serialise_segmented_payload_def Let_def serialise_manifest_def demo_lib_def demo_base_def
        demo_collected_def demo_entry_def append_key_material_def pack_u32_def MAX_VAULT_ARMOR_LENGTH_def u32_bytes_def)
qed

lemma built_header_version:
  assumes "build_header cipher salt nonce params = Inr h"
  shows "vh_version h = VAULT_FORMAT_VERSION"
  using assms by (auto simp: build_header_def check_vault_header_def optionE_def dest!: validate_version_shape_id
      split: sum.splits)

text \<open>Parameters of the demonstration and the lower-memory profile.\<close>

definition demo_like :: "kdf_params \<Rightarrow> bool" where
  "demo_like p \<longleftrightarrow> p = demo_params \<or> Inr p = balanced_params"

lemma demo_like_fields: "demo_like p \<Longrightarrow> kdf_params_ok p \<and> kp_salt_len p = 16 \<and> kp_hash_len p = 32 \<and> hash_len_ok 32 \<and>
    MIN_SALT_LEN \<le> 16 \<and> 16 \<le> MAX_SALT_LEN"
  by (auto simp: demo_like_def demo_params_def profile_values kdf_params_ok_def cost_ok_defs kdf_limits)

lemma demo_like_derived:
  "demo_like p \<Longrightarrow> \<exists>raw. derived demo_crypto demo_passphrase (demo_draw 16) p = Some raw \<and> length raw = KEY_LEN"
  using demo_like_fields [of p]
  by (simp add: derived_def demo_crypto_def demo_passphrase_def secure_from_text_def sb_from_bytes_eq
      argon2_value_def demo_argon2_def)

lemma demo_built_header:
  assumes "demo_like p"
  shows "\<exists>h. build_header AES_256_GCM (demo_draw 16) (demo_draw NONCE_LEN) p = Inr h"
proof -
  obtain kdf where kdf: "kdf_fields_from_params p (demo_draw 16) = Inr kdf"
    using demo_like_fields [OF assms]
    by (simp add: kdf_fields_from_params_def check_kdf_fields_def validate_salt_def kdf_params_ok_def)
  then have "check_kdf_fields kdf = Inr kdf"
    by (simp add: kdf_fields_from_params_def check_kdf_fields_Inr)
  then show ?thesis
    using kdf by (simp add: build_header_def check_cipher_params_def validate_nonce_b64_def check_vault_header_def
        SUPPORTED_VAULT_VERSIONS_def VAULT_FORMAT_VERSION_def optionE_def validate_version_shape_def)
qed

lemma demo_encrypt:
  assumes "length pt = 40" "demo_like p"
  shows "\<exists>frame. encrypt_payload demo_venv pt demo_passphrase p AES_256_GCM = Inr frame"
proof -
  obtain h where h: "build_header AES_256_GCM (demo_draw 16) (demo_draw NONCE_LEN) p = Inr h"
    using demo_built_header [OF assms(2)] by blast
  obtain raw where raw: "derived demo_crypto demo_passphrase (demo_draw 16) p = Some raw" "length raw = KEY_LEN"
    using demo_like_derived [OF assms(2)] by auto
  let ?ct = "seal (cr_aead demo_crypto) AES_256_GCM raw (demo_draw NONCE_LEN) (header_to_canonical_json h) pt"
  note v = build_header_Inr(1) [OF h] built_header_version [OF h]
  have "length ?ct \<le> MAX_CIPHERTEXT_SIZE"
    using raw(2) assms header_v2_small [OF v]
    by (simp add: demo_crypto_def tagged_lib_def tagged_seal_def unary_length KEY_LEN_def NONCE_LEN_def MAX_CIPHERTEXT_SIZE_def)
  note packed = pack_v2 [OF v, of "[]", simplified] pack_v2 [OF v this]
  have salt: "kp_salt_len p = 16" using demo_like_fields [OF assms(2)] by simp
  have g: "generate_salt demo_draw 16 = Inr (demo_draw 16)"
    by (simp add: generate_salt_def MIN_SALT_LEN_def MAX_SALT_LEN_def)
  have env: "ve_crypto demo_venv = demo_crypto" "ve_salt demo_venv = demo_draw" "ve_nonce demo_venv = demo_draw"
    by (simp_all add: demo_venv_def)
  have "\<exists>frame. seal_payload demo_venv h pt (sb_from_bytes (cr_mlock demo_crypto) raw) (demo_draw NONCE_LEN) AES_256_GCM = Inr frame"
    using raw(2) packed by (simp add: seal_payload_def env aead_encrypt_Inr)
  moreover have "derive_key (cr_argon2 demo_crypto) (cr_mlock demo_crypto) demo_passphrase (demo_draw 16) p
      = Inr (sb_from_bytes (cr_mlock demo_crypto) raw)"
    using raw(1) by (simp add: derive_key_derived)
  ultimately show ?thesis
    using h g raw(2) by (auto simp: encrypt_payload_def env salt Let_def generate_nonce_def sb_with_def sb_enter_def sb_from_bytes_eq)
qed

lemma demo_upper: "upper demo_fp = demo_fp"
  by (simp add: demo_fp_def upper_char_def)

lemma demo_creates:
  assumes "demo_like p"
  shows "\<exists>d w. create demo_venv target (Some demo_passphrase) demo_passphrases [demo_fp] [] [] AES_256_GCM (Some p) []
     demo_world = (Inr d, w)"
proof -
  obtain w where c: "collect_entries demo_venv [demo_fp] demo_passphrases demo_world = (Inr demo_collected, w)"
    using demo_collect by blast
  obtain pt where pt: "serialise_segmented_payload demo_lib demo_collected demo_manifest = Inr pt"
    using demo_serialise by blast
  obtain frame where fr: "encrypt_payload demo_venv pt demo_passphrase p AES_256_GCM = Inr frame"
    using demo_encrypt [OF demo_payload_length [OF pt] assms] by blast
  have vf: "validate_fingerprint demo_fp = Inr demo_fp"
    by (simp add: validate_fingerprint_def demo_upper) (simp add: demo_fp_def py_len_def FINGERPRINT_LENGTH_def is_upper_hex_def list_all_iff)
  have m: "check_vault_manifest (manifest_of demo_venv [] [] demo_collected) = Inr demo_manifest"
    using demo_manifest_ok by (simp add: demo_manifest_of)
  have env: "ve_lib demo_venv = demo_lib" "ve_prepare demo_venv = None" "ve_lock demo_venv = None"
    "ve_write demo_venv x = None" "ve_metadata demo_venv = None" "ve_emit demo_venv a b e l = (Inr (), l @ [(a, b)])" for x a b e l
    by (simp_all add: demo_venv_def)
  show ?thesis
    using c pt fr m [unfolded manifest_of_def]
    by (simp add: create_def vf env acquire_write_lock_def create_body_def bindP_def thenP_def catchP_def make_frame_def
        write_vault_files_def write_file_def audit_def on_audit_def add_vault_record_def Let_def)
qed

lemma demo_libraries_ok: "libraries_ok demo_venv"
  by (simp add: libraries_ok_def demo_venv_def demo_lib_ok exports_nonempty_def demo_gpg_def sha256_ok_def list_all_iff)
    (simp add: aead_tagged_def demo_crypto_def tagged_lib_def tagged_seal_def)

lemma demo_importable: "importable (Some demo_params)"
  by (simp add: importable_def validate_import_kdf_def demo_params_def kdf_limits)

lemma demo_premises:
  "distinct (map upper [demo_fp])"
  "\<exists>w1. collect_entries demo_venv (map upper [demo_fp]) demo_passphrases demo_world = (Inr demo_collected, w1)"
  "manifest_reads_back (ve_lib demo_venv) (manifest_of demo_venv [] [] demo_collected)"
  using demo_collect demo_lib_ok(2) by (simp_all add: demo_upper demo_manifest_of) (simp add: demo_venv_def)

theorem created_vault_opens_witness:
  "\<exists>w v. open_vault demo_venv ''/v.vault'' (Some demo_passphrase) None False w = (Inr v, w) \<and>
     map ve_fingerprint (vm_keys (ov_manifest v)) = [demo_fp]"
proof -
  obtain d w where c: "create demo_venv ''/v.vault'' (Some demo_passphrase) demo_passphrases [demo_fp] [] [] AES_256_GCM
      (Some demo_params) [] demo_world = (Inr d, w)" using demo_creates demo_like_def by blast
  obtain w1 where e: "collect_entries demo_venv (map upper [demo_fp]) demo_passphrases demo_world = (Inr demo_collected, w1)"
    using demo_premises(2) by blast
  have "list_all is_ascii (take 190 (path_name ''/v.vault''))" by code_simp
  from created_vault_opens [OF c demo_libraries_ok demo_importable demo_premises(1) e demo_premises(3) this]
  show ?thesis by (simp only: list.map demo_upper) metis
qed

theorem non_ascii_vault_cannot_be_opened_witness:
  "\<exists>w. fst (open_vault demo_venv [CHR ''/'', CHR 0xC3, CHR 0xA9] (Some demo_passphrase) None False w) = Inl UnicodeError"
proof -
  obtain d w where c: "create demo_venv [CHR ''/'', CHR 0xC3, CHR 0xA9] (Some demo_passphrase) demo_passphrases [demo_fp]
      [] [] AES_256_GCM (Some demo_params) [] demo_world = (Inr d, w)" using demo_creates demo_like_def by blast
  obtain w1 where e: "collect_entries demo_venv (map upper [demo_fp]) demo_passphrases demo_world = (Inr demo_collected, w1)"
    using demo_premises(2) by blast
  have "\<not> list_all is_ascii (take 190 (path_name [CHR ''/'', CHR 0xC3, CHR 0xA9]))" by code_simp
  from non_ascii_vault_cannot_be_opened [OF c demo_libraries_ok demo_importable demo_premises(1) e demo_premises(3) this] show ?thesis
    by (intro exI [of _ w]) simp
qed

theorem balanced_vault_cannot_be_opened_witness:
  "\<exists>w. open_vault demo_venv ''/v.vault'' (Some demo_passphrase) None False w = (Inl VaultFormatError, w)"
proof -
  obtain p where p: "balanced_params = Inr p" by (simp add: profile_values)
  then obtain d w where c: "create demo_venv ''/v.vault'' (Some demo_passphrase) demo_passphrases [demo_fp] [] []
      AES_256_GCM (Some p) [] demo_world = (Inr d, w)" using demo_creates [of p] by (metis demo_like_def)
  have "aead_tagged (cr_aead (ve_crypto demo_venv))" "reads_ints (ve_int demo_venv)"
    using demo_libraries_ok by (simp_all add: libraries_ok_def)
  from balanced_vault_cannot_be_opened [OF c p this] show ?thesis by blast
qed

end
