(* ===== verification/Vault_Import.thy ===== *)
theory Vault_Import
  imports Vault_Lifecycle
begin

text \<open>
  What importing a vault does to the keyring: the keys it may add, and the ones the removal of
  smuggled keys deletes.
\<close>

section \<open>What an import does to the keyring\<close>

lemma preserves_audit [preserves_intros]: "preserves (\<lambda>w. P (vw_gpg w)) (audit env ev out pl)"
  by (simp add: preserves_def audit_def on_audit_def split: prod.splits)

lemma preserves_on_gpg: "preserves P m \<Longrightarrow> preserves (\<lambda>w. P (vw_gpg w)) (on_gpg m)"
  by (auto simp: preserves_def on_gpg_def split: prod.splits)

lemma preserves_read [preserves_intros]: "preserves P (read_vault_bytes env src)"
  by (simp add: preserves_def read_vault_bytes_def)

text \<open>
  Documented behaviour of GnuPG, with \<open>ring\<close> the fingerprints a keyring holds: an import reports
  an \<open>IMPORT_OK\<close> for every key of the blob, also for one it had already, and holds all of them
  afterwards; a deletion that succeeds removes that key; decrypting changes nothing.
\<close>

definition keyring_laws :: "'k gpg_ops \<Rightarrow> ('k \<Rightarrow> str set) \<Rightarrow> bool" where
  "keyring_laws gpg ring \<longleftrightarrow>
     (\<forall>b k fps k'. g_import_key gpg b k = (Inr fps, k') \<longrightarrow> ring k' = ring k \<union> set fps) \<and>
     (\<forall>fp secret k k'. g_delete_key gpg fp secret k = (Inr (), k') \<longrightarrow> ring k' = ring k - {fp}) \<and>
     (\<forall>b pw r. preserves (\<lambda>k. ring k = r) (g_decrypt gpg b pw))"

lemma preserves_try_openpgp:
  fixes env :: "('k, 'l) vault_env"
  assumes "keyring_laws (ve_gpg env) ring"
  shows "preserves (\<lambda>w. ring (vw_gpg w) = r) (try_openpgp_slots env pin src e slots)"
proof (induction slots arbitrary: e)
  case Nil
  show ?case by (auto intro!: preserves_intros simp: emit_import_failed_def)
next
  case (Cons slot slots)
  have p: "preserves (\<lambda>w. ring (vw_gpg w) = r) (bindP (liftP (vs_wrapped_key slot))
      (\<lambda>ct. on_gpg (g_decrypt (ve_gpg env) ct pin)) :: (('k, 'l) vault_world, bytes) prog)"
    using assms by (intro preserves_intros preserves_on_gpg) (simp add: keyring_laws_def)
  show ?case unfolding preserves_def
  proof (intro allI impI)
    fix w :: "('k, 'l) vault_world" assume w: "ring (vw_gpg w) = r"
    obtain x v where x: "bindP (liftP (vs_wrapped_key slot)) (\<lambda>ct. on_gpg (g_decrypt (ve_gpg env) ct pin)) w = (x, v)"
      by fastforce
    then have "ring (vw_gpg v) = r" using p w by (auto simp: preserves_def)
    then have "ring (vw_gpg (snd (try_openpgp_slots env pin src e slots v))) = r" for e
      using Cons.IH by (simp add: preserves_def)
    then show "ring (vw_gpg (snd (try_openpgp_slots env pin src e (slot # slots) w))) = r"
      using x \<open>ring (vw_gpg v) = r\<close> by (simp split: sum.splits exn.splits)
  qed
qed

lemma preserves_open_vault:
  assumes "keyring_laws (ve_gpg env) ring"
  shows "preserves (\<lambda>w. ring (vw_gpg w) = r) (open_vault env src pw pin skip)"
  unfolding open_vault_def decrypt_frame_def vault_key_def emit_import_failed_def verify_sidecar_def unwrap_openpgp_slot_def
    Let_def
  by (auto intro!: preserves_intros preserves_try_openpgp [OF assms] split: option.splits prod.splits)

lemma remove_smuggled_Inr:
  assumes "keyring_laws (ve_gpg env) ring" "remove_smuggled_key env sec f w = (Inr u, w')"
  shows "ring (vw_gpg w') = ring (vw_gpg w) - {f}"
  using assms
  by (auto simp: remove_smuggled_key_def catchP_def thenP_def bindP_def on_gpg_def keyring_laws_def raiseP_def
      dest!: audit_files split: prod.splits sum.splits)

lemma remove_all_Inr:
  assumes "keyring_laws (ve_gpg env) ring" "mapP (remove_smuggled_key env sec) fs w = (Inr us, w')"
  shows "ring (vw_gpg w') = ring (vw_gpg w) - set fs"
  using assms(2)
  by (induction fs arbitrary: w us) (auto simp: bindP_eq_Inr dest!: remove_smuggled_Inr [OF assms(1)])

lemma import_entry_Inr:
  assumes laws: "keyring_laws (ve_gpg env) ring" and run: "import_entry env opened entry w = (Inr landed, w')"
  obtains armored results k where
    "key_material (ov_key_slices opened) (ov_plaintext opened) (ve_fingerprint entry) = Inr armored"
    "g_import_key (ve_gpg env) armored (vw_gpg w) = (Inr results, k)"
    "landed \<longleftrightarrow> ve_fingerprint entry \<in> set results"
    "ring (vw_gpg w') = (ring (vw_gpg w) - (set results - {ve_fingerprint entry})) \<union> ({ve_fingerprint entry} \<inter> set results)"
proof -
  obtain armored results w1 us w2 where s:
    "key_material (ov_key_slices opened) (ov_plaintext opened) (ve_fingerprint entry) = Inr armored"
    "catchP (on_gpg (g_import_key (ve_gpg env) armored))
       (\<lambda>e. thenP (audit env ''key_imported'' FAILED
              [(''fingerprint'', PStr (ve_fingerprint entry)), (''reason'', PStr (exn_name e))]) (raiseP e)) w = (Inr results, w1)"
    "mapP (remove_smuggled_key env True) (filter (\<lambda>f. f \<noteq> ve_fingerprint entry) (remdups results)) w1 = (Inr us, w2)"
    "vw_gpg w' = vw_gpg w2" "landed \<longleftrightarrow> ve_fingerprint entry \<in> set results"
    using run by (auto simp: import_entry_def bindP_eq_Inr thenP_eq_Inr dest!: audit_files)
  obtain k where k: "g_import_key (ve_gpg env) armored (vw_gpg w) = (Inr results, k)" "vw_gpg w1 = k"
    using s(2) by (auto simp: catchP_def on_gpg_def thenP_def bindP_def raiseP_def split: prod.splits sum.splits)
  have "ring k = ring (vw_gpg w) \<union> set results" using laws k(1) by (auto simp: keyring_laws_def)
  then have "ring (vw_gpg w') = (ring (vw_gpg w) - (set results - {ve_fingerprint entry})) \<union> ({ve_fingerprint entry} \<inter> set results)"
    using remove_all_Inr [OF laws s(3)] s(4) k(2) by auto
  then show thesis using that s(1,5) k(1) by blast
qed

lemma import_entries_Inr:
  assumes "keyring_laws (ve_gpg env) ring" "import_entries env opened wanted entries w = (Inr imported, w')"
  shows "ring (vw_gpg w') \<subseteq> ring (vw_gpg w) \<union> set imported \<and> subseq imported (map ve_fingerprint entries) \<and>
    set imported \<subseteq> set wanted"
  using assms(2)
proof (induction entries arbitrary: w imported)
  case (Cons entry entries)
  show ?case
  proof (cases "ve_fingerprint entry \<in> set wanted")
    case True
    then obtain landed w1 rest where r: "import_entry env opened entry w = (Inr landed, w1)"
        "import_entries env opened wanted entries w1 = (Inr rest, w')"
        "imported = (if landed then ve_fingerprint entry # rest else rest)"
      using Cons.prems by (auto simp: bindP_eq_Inr)
    note ih = Cons.IH [OF r(2)]
    have "ring (vw_gpg w1) \<subseteq> ring (vw_gpg w) \<union> (if landed then {ve_fingerprint entry} else {})"
      by (rule import_entry_Inr [OF assms(1) r(1)]) auto
    then show ?thesis using ih True r(3) by (auto split: if_splits)
  next
    case False
    then show ?thesis using Cons.IH Cons.prems by auto
  qed
qed auto


text \<open>
  But it may delete keys the user had: a key GnuPG reports for the blob of another entry is
  gone after the entry is imported, its secret part included, and this holds also for a key that
  was in the keyring before, for GnuPG reports those as well.
\<close>

theorem import_deletes_bundled_keys:
  assumes "keyring_laws (ve_gpg env) ring"
    and "import_entry env opened entry w = (Inr landed, w')"
    and "key_material (ov_key_slices opened) (ov_plaintext opened) (ve_fingerprint entry) = Inr blob"
    and "g_import_key (ve_gpg env) blob (vw_gpg w) = (Inr reported, k)"
    and "victim \<in> set reported" "victim \<noteq> ve_fingerprint entry"
  shows "victim \<notin> ring (vw_gpg w')"
  by (rule import_entry_Inr [OF assms(1,2)]) (use assms in auto)

lemma demo_keyring_laws: "keyring_laws (ve_gpg demo_venv) set"
  by (auto simp: keyring_laws_def demo_venv_def demo_gpg_def preserves_def)

definition demo_opened :: opened_vault where
  "demo_opened = \<lparr>ov_manifest = demo_manifest, ov_src_path = ''/v.vault'', ov_plaintext = ''pubpriv'',
     ov_key_slices = [demo_fp \<mapsto> \<lparr>ks_public_start = 0, ks_public_end = 3, ks_private_start = 3, ks_private_end = 7\<rparr>]\<rparr>"

lemma demo_material: "key_material (ov_key_slices demo_opened) (ov_plaintext demo_opened) (ve_fingerprint demo_entry) = Inr ''priv''"
  by (simp add: key_material_def demo_opened_def demo_entry_def slice_def)

lemma other_fp_differs: "other_fp \<noteq> demo_fp"
proof
  assume "other_fp = demo_fp"
  then have "hd other_fp = hd demo_fp" by simp
  then show False by (simp add: other_fp_def demo_fp_def)
qed

lemma demo_import_entry: "\<exists>w. import_entry demo_venv demo_opened demo_entry demo_world = (Inr True, w)"
  using other_fp_differs demo_material
  by (simp add: import_entry_def bindP_def catchP_def thenP_def on_gpg_def on_audit_def audit_def remove_smuggled_key_def
      demo_venv_def demo_gpg_def demo_entry_def)

theorem import_deletes_bundled_keys_witness:
  "\<exists>w. other_fp \<in> set (vw_gpg demo_world) \<and> import_entry demo_venv demo_opened demo_entry demo_world = (Inr True, w) \<and>
     other_fp \<notin> set (vw_gpg w)"
proof -
  obtain w where w: "import_entry demo_venv demo_opened demo_entry demo_world = (Inr True, w)"
    using demo_import_entry by blast
  have "g_import_key (ve_gpg demo_venv) ''priv'' (vw_gpg demo_world) =
      (Inr [demo_fp, other_fp], demo_fp # other_fp # vw_gpg demo_world)"
    by (simp add: demo_venv_def demo_gpg_def)
  from import_deletes_bundled_keys [OF demo_keyring_laws w demo_material this, of other_fp] other_fp_differs w
  show ?thesis by (auto simp: demo_world_def demo_entry_def)
qed

lemma demo_opens:
  assumes c: "create demo_venv ''/v.vault'' (Some demo_passphrase) demo_passphrases [demo_fp] [] [] AES_256_GCM
      (Some demo_params) [] demo_world = (Inr d, w)"
  shows "\<exists>v. open_vault demo_venv ''/v.vault'' (Some demo_passphrase) None False w = (Inr v, w)"
proof -
  obtain w1 where e: "collect_entries demo_venv (map upper [demo_fp]) demo_passphrases demo_world = (Inr demo_collected, w1)"
    using demo_premises(2) by blast
  have "list_all is_ascii (take 190 (path_name ''/v.vault''))" by code_simp
  then show ?thesis
    by (rule created_vault_opened [OF c demo_libraries_ok demo_importable demo_premises(1) e demo_premises(3)]) blast
qed


end
