(* ===== verification/Audit_Log.thy ===== *)
theory Audit_Log
  imports Secret_Keys
begin

text \<open>
  \<open>storage/audit_log.py\<close>: the append-only log with its hash chain. The state holds the file,
  its \<open>.tip\<close> sidecar, what the \<open>BufferedWriter\<close> has not written yet (a failed \<open>flush\<close> keeps
  it; records are taken to fit its 8 KiB buffer), and the fields of the object. SHA-256, the
  clock and the account name are the environment; what the disk and the lock do in one call is
  an argument of the call.

  The lemmas show that every run of complete writes leaves a log that \<open>verify_chain\<close> accepts,
  that the tip pins the whole log, and what a failed write does to the chain.
\<close>

section \<open>Records\<close>

definition ALLOWED_EVENTS :: "str list" where
  "ALLOWED_EVENTS =
     [''audit_log_opened'', ''gpg_binary_resolved'', ''gpg_binary_rejected'',
      ''startup_environment_check'', ''key_generated'', ''key_deleted'', ''key_imported'',
      ''key_exported_public'', ''key_exported_private'', ''message_signed'', ''message_decrypted'',
      ''message_decrypt_failed'', ''folder_encrypted'', ''folder_decrypted'',
      ''folder_decrypt_failed'', ''smartcard_detected'', ''smartcard_keys_synced'',
      ''smartcard_pin_changed'', ''smartcard_key_moved'', ''smartcard_key_generated'',
      ''fido_enrolled'', ''fido_derived'', ''key_created_with_token'', ''key_bound_to_token'',
      ''key_unlocked_with_token'', ''key_unlocked_with_passphrase'', ''key_unlock_forgotten'',
      ''vault_created'', ''vault_imported'', ''vault_import_failed'', ''config_loaded'',
      ''config_saved'']"

definition OUTCOME_OK :: str where "OUTCOME_OK = ''ok''"
definition OUTCOME_FAILED :: str where "OUTCOME_FAILED = ''failed''"
definition OUTCOME_WARNING :: str where "OUTCOME_WARNING = ''warning''"
definition VALID_OUTCOMES :: "str list" where
  "VALID_OUTCOMES = [OUTCOME_OK, OUTCOME_FAILED, OUTCOME_WARNING]"
definition RESERVED_ENVELOPE_KEYS :: "str list" where
  "RESERVED_ENVELOPE_KEYS = [''event'', ''ts'', ''actor'', ''outcome'', ''prev_hash'']"
definition TAIL_CHUNK :: nat where "TAIL_CHUNK = 64 * 1024"

type_synonym payload = "(str \<times> pyobj) list"

definition kwargs :: "payload \<Rightarrow> pyobj" where
  "kwargs payload = PMap (map (\<lambda>p. (PStr (fst p), snd p)) payload)"

definition check_payload :: "str \<Rightarrow> payload \<Rightarrow> unit res" where
  "check_payload event payload =
     (if event \<notin> set ALLOWED_EVENTS then Inl AuditLogError
      else if find_secret_violation RESERVED_ENVELOPE_KEYS (kwargs payload) \<noteq> None
      then Inl AuditLogError
      else Inr ())"

text \<open>\<open>dict.update\<close>.\<close>

definition dict_update :: "payload \<Rightarrow> payload \<Rightarrow> payload" where
  "dict_update d p = fold (\<lambda>(k, v). dict_put k v) p d"

definition serialise :: "payload \<Rightarrow> str res" where
  "serialise record = bindE (py_json (kwargs record)) (\<lambda>j. Inr (dumps j))"

text \<open>
  \<open>json.loads\<close> of bytes, for UTF-8; other encodings, which it would guess from NUL bytes, are
  counted as undecodable.
\<close>

definition loads_bytes :: "bytes \<Rightarrow> json res" where
  "loads_bytes b = (if utf8_ok b then loads b else Inl UnicodeError)"

text \<open>\<open>isinstance(v, int)\<close>, which holds of a \<open>bool\<close> too.\<close>

definition py_int :: "json \<Rightarrow> int option" where
  "py_int j = (case j of JInt i \<Rightarrow> Some i | JBool b \<Rightarrow> Some (if b then 1 else 0) | _ \<Rightarrow> None)"

definition seq_after :: "bytes \<Rightarrow> int res" where
  "seq_after line = (case loads_bytes line of
       Inl e \<Rightarrow> if e = JSONDecodeError then Inr 0 else Inl e
     | Inr (JObj ps) \<Rightarrow> (case Option.bind (map_of ps ''seq'') py_int of
           Some seq \<Rightarrow> Inr (if 0 \<le> seq then seq + 1 else 0)
         | None \<Rightarrow> Inr 0)
     | Inr _ \<Rightarrow> Inr 0)"

section \<open>State\<close>

record audit_env =
  ae_sha256 :: "bytes \<Rightarrow> str"
  ae_now :: str
  ae_actor :: str

record audit_state =
  al_hash_chain :: bool
  al_prev_hash :: "str option"
  al_seq :: int
  al_dropped :: nat
  al_pending :: bytes
  al_file :: bytes
  al_tip :: "bytes option"

text \<open>
  What happens in one call: the lock is refused with an exception; \<open>flush\<close> fails after that
  many bytes; \<open>fsync\<close> fails; the tip file cannot be replaced.
\<close>

record audit_io =
  io_lock :: "exn option"
  io_flush :: "nat option"
  io_fsync :: bool
  io_tip :: bool

definition is_bspace :: "char \<Rightarrow> bool" where
  "is_bspace c \<longleftrightarrow> code c = 32 \<or> (9 \<le> code c \<and> code c \<le> 13)"

definition bstrip :: "bytes \<Rightarrow> bytes" where
  "bstrip b = rev (dropWhile is_bspace (rev (dropWhile is_bspace b)))"

definition last_line :: "bytes list \<Rightarrow> bytes option" where
  "last_line lines = find (\<lambda>l. l \<noteq> []) (map bstrip (rev lines))"

text \<open>\<open>_scan_tail_state\<close>: the last non-blank line of the tail, else of the whole file.\<close>

definition scan_tail_state :: "audit_env \<Rightarrow> bytes \<Rightarrow> (str option \<times> int) res" where
  "scan_tail_state env file =
     (if file = [] then Inr (None, 0)
      else
        let size = length file; chunk = min size TAIL_CHUNK; tail = drop (size - chunk) file;
            found = (case last_line (split_on newline tail) of
                       Some l \<Rightarrow> Some l
                     | None \<Rightarrow> last_line (split_on newline file))
        in (case found of
              None \<Rightarrow> Inr (None, 0)
            | Some l \<Rightarrow> bindE (seq_after l) (\<lambda>seq. Inr (Some (ae_sha256 env l), seq))))"

section \<open>Writing\<close>

definition tip_line :: "str \<Rightarrow> int \<Rightarrow> bytes" where
  "tip_line h seq = h @ '' '' @ show_int seq @ [newline]"

definition chain_fields :: "audit_state \<Rightarrow> payload \<Rightarrow> payload" where
  "chain_fields s record =
     (let record = (if al_hash_chain s
                    then dict_put ''seq'' (PInt (al_seq s))
                      (dict_put ''prev_hash'' (PStr (case al_prev_hash s of None \<Rightarrow> [] | Some h \<Rightarrow> h)) record)
                    else record)
      in if al_dropped s \<noteq> 0 then dict_put ''dropped_audit_records'' (PInt (int (al_dropped s))) record
         else record)"

definition write_line :: "audit_env \<Rightarrow> audit_io \<Rightarrow> bytes \<Rightarrow> (audit_state, unit) prog" where
  "write_line env io line = (\<lambda>s.
     let buffer = al_pending s @ line @ [newline] in
     (case io_flush io of
        Some k \<Rightarrow> (Inr (), s\<lparr>al_file := al_file s @ take k buffer, al_pending := drop k buffer,
                        al_dropped := al_dropped s + 1\<rparr>)
      | None \<Rightarrow>
          let s = s\<lparr>al_file := al_file s @ buffer, al_pending := []\<rparr> in
          if \<not> io_fsync io then (Inr (), s\<lparr>al_dropped := al_dropped s + 1\<rparr>)
          else
            let s = s\<lparr>al_dropped := 0, al_seq := al_seq s + 1\<rparr> in
            if \<not> al_hash_chain s then (Inr (), s)
            else
              let h = ae_sha256 env line; s = s\<lparr>al_prev_hash := Some h\<rparr> in
              (Inr (), if io_tip io then s\<lparr>al_tip := Some (tip_line h (al_seq s - 1))\<rparr> else s)))"

definition write_record :: "audit_env \<Rightarrow> audit_io \<Rightarrow> payload \<Rightarrow> (audit_state, unit) prog" where
  "write_record env io record = (\<lambda>s.
     case serialise (chain_fields s record) of
       Inl e \<Rightarrow> (Inl e, s)
     | Inr line \<Rightarrow>
         if \<not> utf8_ok line then (Inl UnicodeError, s) else write_line env io line s)"

definition envelope :: "audit_env \<Rightarrow> str \<Rightarrow> str \<Rightarrow> payload" where
  "envelope env event outcome =
     [(''ts'', PStr (ae_now env)), (''event'', PStr event), (''actor'', PStr (ae_actor env)),
      (''outcome'', PStr outcome)]"

definition emit :: "audit_env \<Rightarrow> audit_io \<Rightarrow> str \<Rightarrow> str \<Rightarrow> payload \<Rightarrow> (audit_state, unit) prog" where
  "emit env io event outcome payload =
     (if outcome \<notin> set VALID_OUTCOMES then raiseP AuditLogError
      else thenP (liftP (check_payload event payload))
        (bindP (getP (\<lambda>s. s)) (\<lambda>s.
         if al_hash_chain s then
           (case io_lock io of
              Some e \<Rightarrow> raiseP e
            | None \<Rightarrow>
                bindP (liftP (scan_tail_state env (al_file s))) (\<lambda>(prev, seq).
                thenP (modifyP (\<lambda>s. s\<lparr>al_prev_hash := prev, al_seq := seq\<rparr>))
                  (write_record env io (dict_update (envelope env event outcome) payload))))
         else write_record env io (dict_update (envelope env event outcome) payload))))"

text \<open>\<open>AuditLog(path, hash_chain=...)\<close> on a log with these contents.\<close>

definition fresh_log :: "bool \<Rightarrow> bytes \<Rightarrow> bytes option \<Rightarrow> audit_state" where
  "fresh_log hash_chain file tip =
     \<lparr>al_hash_chain = hash_chain, al_prev_hash = None, al_seq = 0, al_dropped = 0, al_pending = [],
      al_file = file, al_tip = tip\<rparr>"

definition open_log :: "audit_env \<Rightarrow> audit_io \<Rightarrow> bool \<Rightarrow> bytes \<Rightarrow> bytes option \<Rightarrow> unit res \<times> audit_state" where
  "open_log env io hash_chain file tip =
     (let announce = emit env io ''audit_log_opened'' OUTCOME_OK [(''hash_chain'', PBool hash_chain)] in
      if hash_chain then
        bindP (liftP (scan_tail_state env file)) (\<lambda>(prev, seq).
          thenP (modifyP (\<lambda>s. s\<lparr>al_prev_hash := prev, al_seq := seq\<rparr>)) announce)
          (fresh_log hash_chain file tip)
      else announce (fresh_log hash_chain file tip))"

text \<open>\<open>emit_best_effort\<close>: no exception leaves it.\<close>

definition emit_best_effort ::
    "audit_env \<Rightarrow> audit_io \<Rightarrow> str \<Rightarrow> str \<Rightarrow> payload \<Rightarrow> (audit_state, unit) prog" where
  "emit_best_effort env io event outcome payload =
     catchP (emit env io event outcome payload) (\<lambda>_. retP ())"

section \<open>Verifying\<close>

definition decode_ascii_replace :: "bytes \<Rightarrow> str" where
  "decode_ascii_replace b = concat (map (\<lambda>c. if code c < 128 then [c] else replacement) b)"

datatype walk = Stop bool nat | Walked "str option" int nat

text \<open>One line; \<open>obj.get\<close> of a value that is no object raises.\<close>

definition verify_line :: "audit_env \<Rightarrow> str option \<Rightarrow> int \<Rightarrow> nat \<Rightarrow> bytes \<Rightarrow> walk res" where
  "verify_line env prev expected cnt line =
     (case loads (decode_replace line) of
        Inl e \<Rightarrow> if e = JSONDecodeError then Inr (Stop False cnt) else Inl e
      | Inr (JObj ps) \<Rightarrow>
          (let stored = (case map_of ps ''prev_hash'' of None \<Rightarrow> JNull | Some v \<Rightarrow> v) in
           if stored = JNull then
             (if prev \<noteq> None then Inr (Stop False cnt) else Inr (Walked prev expected cnt))
           else if stored \<noteq> JStr (case prev of None \<Rightarrow> [] | Some h \<Rightarrow> h) then Inr (Stop False cnt)
           else
             (case Option.bind (map_of ps ''seq'') py_int of
                Some seq \<Rightarrow>
                  if seq \<noteq> expected then Inr (Stop False cnt)
                  else Inr (Walked (Some (ae_sha256 env line)) (seq + 1) cnt)
              | None \<Rightarrow> Inr (Walked (Some (ae_sha256 env line)) expected cnt)))
      | Inr _ \<Rightarrow> Inl AttributeError)"

fun verify_lines :: "audit_env \<Rightarrow> str option \<Rightarrow> int \<Rightarrow> nat \<Rightarrow> bytes list \<Rightarrow> walk res" where
  "verify_lines env prev expected cnt [] = Inr (Walked prev expected cnt)"
| "verify_lines env prev expected cnt (l # ls) =
     (if decode_replace l = [] then verify_lines env prev expected cnt ls
      else bindE (verify_line env prev expected (cnt + 1) l) (\<lambda>w. case w of
          Stop ok n \<Rightarrow> Inr (Stop ok n)
        | Walked prev' expected' n \<Rightarrow> verify_lines env prev' expected' n ls))"

definition verify_tip :: "bytes option \<Rightarrow> str \<Rightarrow> int \<Rightarrow> bool" where
  "verify_tip tip prev_hash expected_seq = (case tip of
       None \<Rightarrow> True
     | Some b \<Rightarrow>
         (let fields = words (strip (decode_ascii_replace (take 256 b)));
              tip_hash = (case fields of [] \<Rightarrow> [] | f # _ \<Rightarrow> f)
          in if py_len tip_hash \<noteq> 64 \<or> tip_hash \<noteq> prev_hash then False
             else (case fields of
                 _ # n # _ \<Rightarrow> \<not> (isdigit n \<and> int (digits_val n) \<noteq> expected_seq - 1)
               | _ \<Rightarrow> True)))"

definition verify_chain :: "audit_env \<Rightarrow> bytes \<Rightarrow> bytes option \<Rightarrow> (bool \<times> nat) res" where
  "verify_chain env file tip =
     (if file = [] then Inr (True, 0)
      else bindE (verify_lines env None 0 0 (split_on newline file)) (\<lambda>w. case w of
          Stop ok n \<Rightarrow> Inr (ok, n)
        | Walked None expected n \<Rightarrow> Inr (True, n)
        | Walked (Some h) expected n \<Rightarrow> Inr (verify_tip tip h expected, n)))"

section \<open>Lines\<close>

definition no_newline :: "bytes \<Rightarrow> bool" where
  "no_newline l \<longleftrightarrow> newline \<notin> set l"

definition file_of :: "bytes list \<Rightarrow> bytes" where
  "file_of ls = concat (map (\<lambda>l. l @ [newline]) ls)"

lemma split_file_of: "list_all no_newline ls \<Longrightarrow> split_on newline (file_of ls @ r) = ls @ split_on newline r"
  by (induction ls) (simp_all add: file_of_def split_on_append split_on_no_sep no_newline_def)

lemma file_of_snoc: "file_of (ls @ [l]) = file_of ls @ l @ [newline]"
  by (simp add: file_of_def)

text \<open>A record line: one printed JSON object.\<close>

definition line_ok :: "bytes \<Rightarrow> bool" where
  "line_ok l \<longleftrightarrow> no_newline l \<and> utf8_ok l \<and> length l < TAIL_CHUNK \<and>
     (\<exists>m. l = CHR ''{'' # m @ [CHR ''}''])"

lemma bstrip_line: "line_ok l \<Longrightarrow> bstrip l = l"
  by (auto simp: line_ok_def bstrip_def is_bspace_def)

lemma last_line_snoc: "line_ok l \<Longrightarrow> last_line (ls @ [l, []]) = Some l"
proof -
  assume l: "line_ok l"
  then have "bstrip l \<noteq> []" by (auto simp: bstrip_line) (simp add: line_ok_def)
  then show ?thesis using l by (simp add: last_line_def bstrip_line) (simp add: bstrip_def)
qed

text \<open>The tail chunk always holds the last record.\<close>

lemma tail_of_file:
  assumes "line_ok l" "list_all no_newline ls"
  shows "\<exists>front. split_on newline (drop (length (file_of (ls @ [l])) - TAIL_CHUNK) (file_of (ls @ [l])))
    = front @ [l, []]"
proof -
  let ?n = "length (file_of (ls @ [l])) - TAIL_CHUNK"
  have "length l < TAIL_CHUNK" using assms(1) by (simp add: line_ok_def)
  then have n: "?n \<le> length (file_of ls)" unfolding file_of_snoc length_append by simp
  then have d: "drop ?n (file_of (ls @ [l])) = drop ?n (file_of ls) @ l @ [newline]"
    by (simp add: file_of_snoc)
  have nl: "newline \<notin> set l" using assms(1) by (simp add: line_ok_def no_newline_def)
  show ?thesis
  proof (cases "drop ?n (file_of ls) = []")
    case True
    then show ?thesis using nl by (simp add: d split_on_append split_on_no_sep)
  next
    case False
    then have "ls \<noteq> []" by (auto simp: file_of_def)
    then obtain ls' l' where "ls = ls' @ [l']" by (metis rev_exhaust)
    then have "file_of ls \<noteq> [] \<and> last (file_of ls) = newline" by (simp add: file_of_def)
    then obtain X where X: "drop ?n (file_of ls) = X @ [newline]"
      using False by (metis append_butlast_last_id last_drop length_drop length_greater_0_conv zero_less_diff)
    then show ?thesis using nl by (simp add: d split_on_append split_on_no_sep)
  qed
qed

lemma scan_tail_file:
  assumes "line_ok l" "list_all no_newline ls"
  shows "scan_tail_state env (file_of (ls @ [l])) =
    bindE (seq_after l) (\<lambda>seq. Inr (Some (ae_sha256 env l), seq))"
proof -
  have ne: "file_of (ls @ [l]) \<noteq> []" by (simp add: file_of_snoc)
  have m: "length (file_of (ls @ [l])) - min (length (file_of (ls @ [l]))) TAIL_CHUNK
      = length (file_of (ls @ [l])) - TAIL_CHUNK" by simp
  obtain front where "split_on newline (drop (length (file_of (ls @ [l])) - TAIL_CHUNK) (file_of (ls @ [l])))
      = front @ [l, []]"
    using tail_of_file [OF assms] by blast
  then show ?thesis using ne last_line_snoc [OF assms(1)]
    by (simp add: scan_tail_state_def Let_def m)
qed

section \<open>The chain\<close>

definition record_of :: "str \<Rightarrow> int \<Rightarrow> bytes \<Rightarrow> bool" where
  "record_of prev n l \<longleftrightarrow> line_ok l \<and> (\<exists>ps. loads l = Inr (JObj ps) \<and>
     map_of ps ''prev_hash'' = Some (JStr prev) \<and> map_of ps ''seq'' = Some (JInt n))"

fun chained :: "audit_env \<Rightarrow> str \<Rightarrow> int \<Rightarrow> bytes list \<Rightarrow> bool" where
  "chained env prev n [] \<longleftrightarrow> True"
| "chained env prev n (l # ls) \<longleftrightarrow> record_of prev n l \<and> chained env (ae_sha256 env l) (n + 1) ls"

text \<open>The hash the next record must name.\<close>

definition head_hash :: "audit_env \<Rightarrow> str \<Rightarrow> bytes list \<Rightarrow> str" where
  "head_hash env prev ls = (if ls = [] then prev else ae_sha256 env (last ls))"

lemma chained_append:
  "chained env prev n (ls @ ms) \<longleftrightarrow>
   chained env prev n ls \<and> chained env (head_hash env prev ls) (n + int (length ls)) ms"
  by (induction ls arbitrary: prev n) (auto simp: head_hash_def algebra_simps)

lemma chained_lines: "chained env prev n ls \<Longrightarrow> list_all line_ok ls"
  by (induction ls arbitrary: prev n) (auto simp: record_of_def)

lemma line_ok_no_newline: "list_all line_ok ls \<Longrightarrow> list_all no_newline ls"
  by (auto simp: list_all_iff line_ok_def)

lemma verify_chained:
  assumes "chained env p n ls" "\<And>b. ae_sha256 env b \<noteq> []"
  shows "verify_lines env (if p = [] then None else Some p) n cnt ls = Inr (Walked
     (if ls = [] then (if p = [] then None else Some p) else Some (head_hash env p ls)) (n + int (length ls))
     (cnt + length ls))"
  using assms
proof (induction ls arbitrary: n p cnt)
  case (Cons l ls)
  then obtain ps where l: "line_ok l" "loads l = Inr (JObj ps)" "map_of ps ''prev_hash'' = Some (JStr p)"
      "map_of ps ''seq'' = Some (JInt n)"
    by (auto simp: record_of_def)
  have d: "decode_replace l = l" "l \<noteq> []" using l(1) by (auto simp: line_ok_def decode_replace_ok)
  have v: "verify_line env (if p = [] then None else Some p) n (cnt + 1) l =
      Inr (Walked (Some (ae_sha256 env l)) (n + 1) (cnt + 1))"
    using l d by (simp add: verify_line_def Let_def py_int_def)
  have "chained env (ae_sha256 env l) (n + 1) ls" using Cons.prems(1) by simp
  from Cons.IH [OF this Cons.prems(2), of "cnt + 1"] v d show ?case
    using Cons.prems(2) by (simp add: head_hash_def)
qed simp

section \<open>A record that was written\<close>

lemma show_int_printable: "list_all (\<lambda>c. 32 \<le> code c) (show_int i)"
  using show_nat_digits [of "nat (- i)"] show_nat_digits [of "nat i"]
  by (auto simp: show_int_def list_all_iff is_digit_code)

lemma esc_printable: "list_all (\<lambda>c. 32 \<le> code c) (esc_char c)"
proof -
  have "n < 16 \<Longrightarrow> 32 \<le> code (lower_char (hex_digit n))" for n
    by (auto simp: hex_digit_def lower_char_def)
  then show ?thesis by (auto simp: esc_char_def Let_def)
qed

lemma quote_printable: "list_all (\<lambda>c. 32 \<le> code c) (quote s)"
proof -
  have "list_all (\<lambda>c. 32 \<le> code c) (concat (map esc_char s))"
    using esc_printable by (induction s) auto
  then show ?thesis by (simp add: quote_def)
qed

lemma join_printable:
  "list_all (list_all (\<lambda>c. 32 \<le> code c)) ws \<Longrightarrow> list_all (\<lambda>c. 32 \<le> code c) (join_with '','' ws)"
  by (induction "'',''" ws rule: join_with.induct) auto

lemma dumps_ordered_printable: "json_ok j \<Longrightarrow> list_all (\<lambda>c. 32 \<le> code c) (dumps_ordered j)"
proof (induction j rule: json_ok.induct)
  case (3 xs)
  then have "list_all (\<lambda>c. 32 \<le> code c) (join_with '','' (map dumps_ordered xs))"
    by (intro join_printable) (auto simp: list_all_iff)
  then show ?case by simp
next
  case (4 ps)
  then have "list_all (\<lambda>c. 32 \<le> code c)
      (join_with '','' (map (\<lambda>p. quote (fst p) @ '':'' @ dumps_ordered (snd p)) ps))"
    using quote_printable by (intro join_printable) (auto simp: list_all_iff)
  then show ?case by simp
qed (use show_int_printable quote_printable in auto)

lemma dumps_line:
  assumes "json_ok (JObj ps)" "utf8_ok (dumps (JObj ps))" "length (dumps (JObj ps)) < TAIL_CHUNK"
  shows "line_ok (dumps (JObj ps))"
proof -
  have "list_all (\<lambda>c. 32 \<le> code c) (dumps (JObj ps))"
    unfolding dumps_def by (rule dumps_ordered_printable [OF json_ok_canon [OF assms(1)]])
  moreover have "code newline = 10" by (simp add: newline_def)
  ultimately have "no_newline (dumps (JObj ps))" by (auto simp: no_newline_def list_all_iff)
  then show ?thesis using assms(2,3) by (simp add: line_ok_def dumps_def)
qed

lemma map_of_canon_obj:
  "distinct (map fst ps) \<Longrightarrow> \<exists>qs. canon (JObj ps) = JObj qs \<and> (\<forall>k. map_of qs k = map_option canon (map_of ps k))"
proof -
  assume d: "distinct (map fst ps)"
  let ?qs = "map (\<lambda>p. (fst p, canon (snd p))) ps"
  have "map_of ?qs k = map_option canon (map_of ps k)" for k by (induction ps) auto
  moreover have "map_of (sort_key fst ?qs) = map_of ?qs"
    using d by (intro map_of_sort_key) (simp add: comp_def)
  ultimately show ?thesis by simp
qed

lemma map_of_dict_put: "map_of (dict_put k v ps) = (map_of ps)(k \<mapsto> v)"
  by (induction ps) (auto simp: fun_eq_iff)

lemma set_dict_put: "set (dict_put k v ps) \<subseteq> insert (k, v) (set ps)"
  by (induction ps) auto

lemma keys_dict_put: "set (map fst (dict_put k v ps)) = insert k (set (map fst ps))"
  by (induction ps) auto

lemma distinct_dict_put: "distinct (map fst ps) \<Longrightarrow> distinct (map fst (dict_put k v ps))"
  by (induction ps) (auto simp: keys_dict_put simp del: set_map)

text \<open>Values that print as JSON the parser reads back: no float, no repeated key, no huge integer.\<close>

definition value_ok :: "pyobj \<Rightarrow> bool" where
  "value_ok v \<longleftrightarrow> (\<exists>j. py_json v = Inr j \<and> json_ok j)"

definition record_ok :: "payload \<Rightarrow> bool" where
  "record_ok d \<longleftrightarrow> distinct (map fst d) \<and> (\<forall>p \<in> set d. value_ok (snd p))"

lemma record_ok_put: "record_ok d \<Longrightarrow> value_ok v \<Longrightarrow> record_ok (dict_put k v d)"
  using set_dict_put [of k v d] by (auto simp: record_ok_def distinct_dict_put)

lemma record_ok_update:
  "record_ok d \<Longrightarrow> \<forall>p \<in> set ps. value_ok (snd p) \<Longrightarrow> record_ok (dict_update d ps)"
  unfolding dict_update_def by (induction ps arbitrary: d) (auto simp: record_ok_put)

lemma value_ok_atoms [simp]: "value_ok (PStr s)" "value_ok (PBool b)"
    "\<bar>i\<bar> < 10 ^ 20 \<Longrightarrow> value_ok (PInt i)"
  using short_int [of i] by (simp_all add: value_ok_def)

lemma kwargs_json:
  assumes "record_ok d"
  shows "\<exists>ps. py_json (kwargs d) = Inr (JObj ps) \<and> json_ok (JObj ps) \<and>
    (\<forall>k v j. map_of d k = Some v \<longrightarrow> py_json v = Inr j \<longrightarrow> map_of ps k = Some j)"
proof -
  let ?ps = "map (\<lambda>p. (fst p, case py_json (snd p) of Inr j \<Rightarrow> j | Inl _ \<Rightarrow> JNull)) d"
  have v: "py_json (snd p) = Inr (case py_json (snd p) of Inr j \<Rightarrow> j | Inl _ \<Rightarrow> JNull)"
    "json_ok (case py_json (snd p) of Inr j \<Rightarrow> j | Inl _ \<Rightarrow> JNull)" if "p \<in> set d" for p
    using assms that by (auto simp: record_ok_def value_ok_def)
  have "mapE (\<lambda>p. bindE (json_key (fst p)) (\<lambda>k. bindE (py_json (snd p)) (\<lambda>v. Inr (k, v))))
      (map (\<lambda>p. (PStr (fst p), snd p)) d) = Inr ?ps"
    using v(1) by (simp add: mapE_list_all2 list_all2_map1 list_all2_map2 list_all2_same)
  then have "py_json (kwargs d) = Inr (JObj ?ps)" by (simp add: kwargs_def)
  moreover have "json_ok (JObj ?ps)"
    using assms v(2) by (simp add: record_ok_def comp_def list_all_iff)
  moreover have "map_of d k = Some w \<Longrightarrow> py_json w = Inr j \<Longrightarrow> map_of ?ps k = Some j" for k w j
    by (induction d) (auto split: if_splits)
  ultimately show ?thesis by blast
qed

lemma record_line:
  assumes d: "record_ok d" and f: "map_of d ''prev_hash'' = Some (PStr prev)" "map_of d ''seq'' = Some (PInt n)"
    and l: "serialise d = Inr l" "utf8_ok l" "length l < TAIL_CHUNK"
  shows "record_of prev n l"
proof -
  obtain ps where ps: "py_json (kwargs d) = Inr (JObj ps)" "json_ok (JObj ps)"
    "map_of ps ''prev_hash'' = Some (JStr prev)" "map_of ps ''seq'' = Some (JInt n)"
    using kwargs_json [OF d] f by fastforce
  have l': "l = dumps (JObj ps)" using l(1) ps(1) by (simp add: serialise_def)
  obtain qs where qs: "canon (JObj ps) = JObj qs" "\<And>k. map_of qs k = map_option canon (map_of ps k)"
    using map_of_canon_obj [of ps] ps(2) by auto
  have "loads l = Inr (JObj qs)" using loads_dumps [OF ps(2)] by (simp add: l' qs(1) del: canon.simps)
  moreover have "map_of qs ''prev_hash'' = Some (JStr prev)" "map_of qs ''seq'' = Some (JInt n)"
    using ps(3,4) by (simp_all add: qs(2))
  ultimately show ?thesis
    using dumps_line [OF ps(2)] l(2,3) by (auto simp: record_of_def l')
qed

section \<open>Emitting\<close>

definition env_ok :: "audit_env \<Rightarrow> bool" where
  "env_ok env \<longleftrightarrow> (\<forall>b. length (ae_sha256 env b) = 64 \<and> list_all (\<lambda>c. is_upper_hex (upper_char c)) (ae_sha256 env b))"

lemma sha_nonempty: "env_ok env \<Longrightarrow> ae_sha256 env b \<noteq> []"
  by (metis env_ok_def list.size(3) zero_neq_numeral)

definition audit_inv :: "audit_env \<Rightarrow> audit_state \<Rightarrow> bytes list \<Rightarrow> bool" where
  "audit_inv env s ls \<longleftrightarrow> al_hash_chain s \<and> al_pending s = [] \<and> al_file s = file_of ls \<and> chained env [] 0 ls"

lemma length_file_of: "length ls \<le> length (file_of ls)"
  by (induction ls) (simp_all add: file_of_def)

lemma record_seq_after: "record_of prev n l \<Longrightarrow> 0 \<le> n \<Longrightarrow> seq_after l = Inr (n + 1)"
  by (auto simp: record_of_def seq_after_def loads_bytes_def py_int_def line_ok_def)

lemma chained_scan:
  assumes "chained env [] 0 ls"
  shows "scan_tail_state env (file_of ls) =
    Inr (if ls = [] then None else Some (ae_sha256 env (last ls)), int (length ls))"
proof (cases ls rule: rev_cases)
  case Nil then show ?thesis by (simp add: file_of_def scan_tail_state_def)
next
  case (snoc ks l)
  have r: "record_of (head_hash env [] ks) (int (length ks)) l"
    using assms by (simp add: snoc chained_append)
  then have "line_ok l" by (simp add: record_of_def)
  moreover have "list_all no_newline ks"
    using line_ok_no_newline [OF chained_lines [OF assms]] by (simp add: snoc)
  ultimately show ?thesis
    using scan_tail_file [of l ks env] record_seq_after [OF r] by (simp add: snoc)
qed

definition payload_ok :: "audit_env \<Rightarrow> payload \<Rightarrow> bool" where
  "payload_ok env p \<longleftrightarrow> distinct (map fst p) \<and> (\<forall>q \<in> set p. value_ok (snd q))"

lemma record_ok_envelope: "record_ok (envelope env event outcome)"
  by (simp add: envelope_def record_ok_def)

lemma chain_fields_record:
  assumes "record_ok d" "al_hash_chain s" "\<bar>al_seq s\<bar> < 10 ^ 20" "int (al_dropped s) < 10 ^ 20"
  shows "record_ok (chain_fields s d)"
    "map_of (chain_fields s d) ''prev_hash'' = Some (PStr (case al_prev_hash s of None \<Rightarrow> [] | Some h \<Rightarrow> h))"
    "map_of (chain_fields s d) ''seq'' = Some (PInt (al_seq s))"
  using assms by (auto simp: chain_fields_def Let_def map_of_dict_put intro!: record_ok_put split: option.splits)

text \<open>A call that returns has written a record that links to the log it found.\<close>

lemma emit_line:
  assumes chain: "al_hash_chain s" and scan: "scan_tail_state env (al_file s) = Inr (prev, seq)"
    and pay: "\<forall>q \<in> set payload. value_ok (snd q)"
    and run: "emit env io event outcome payload s = (Inr (), t)"
    and room: "\<bar>seq\<bar> < 10 ^ 20" "int (al_dropped s) < 10 ^ 20"
  obtains l s1 where "write_line env io l s1 = (Inr (), t)" "al_file s1 = al_file s"
    "al_pending s1 = al_pending s" "al_hash_chain s1" "al_seq s1 = seq" "al_dropped s1 = al_dropped s"
    "length l < TAIL_CHUNK \<Longrightarrow> record_of (case prev of None \<Rightarrow> [] | Some h \<Rightarrow> h) seq l"
proof -
  define s1 where "s1 = s\<lparr>al_prev_hash := prev, al_seq := seq\<rparr>"
  define d where "d = chain_fields s1 (dict_update (envelope env event outcome) payload)"
  have w: "write_record env io (dict_update (envelope env event outcome) payload) s1 = (Inr (), t)"
    using run chain scan
    by (auto simp: emit_def s1_def thenP_def bindP_lift bindP_def check_payload_def
        split: if_splits option.splits sum.splits)
  obtain l where l: "serialise d = Inr l" "utf8_ok l" "write_line env io l s1 = (Inr (), t)"
    using w by (auto simp: write_record_def d_def split: sum.splits if_splits)
  have d: "record_ok d" "map_of d ''prev_hash'' = Some (PStr (case prev of None \<Rightarrow> [] | Some h \<Rightarrow> h))"
      "map_of d ''seq'' = Some (PInt seq)"
    using chain_fields_record [of "dict_update (envelope env event outcome) payload" s1] chain room pay
    by (simp_all add: d_def s1_def record_ok_update record_ok_envelope)
  show thesis
    by (rule that [OF l(3)]) (use chain record_line [OF d l(1,2)] in \<open>simp_all add: s1_def\<close>)
qed

lemma emit_line_chained:
  assumes inv: "al_hash_chain s" "al_file s = file_of ls" "chained env [] 0 ls"
    and pay: "\<forall>q \<in> set payload. value_ok (snd q)"
    and run: "emit env io event outcome payload s = (Inr (), t)"
    and room: "int (length (al_file s)) < 10 ^ 20" "int (al_dropped s) < 10 ^ 20"
  obtains l s1 where "write_line env io l s1 = (Inr (), t)" "al_file s1 = al_file s"
    "al_pending s1 = al_pending s" "al_hash_chain s1" "al_seq s1 = int (length ls)" "al_dropped s1 = al_dropped s"
    "length l < TAIL_CHUNK \<Longrightarrow> record_of (head_hash env [] ls) (int (length ls)) l"
proof -
  define prev where "prev = (if ls = [] then None else Some (ae_sha256 env (last ls)))"
  have h: "(case prev of None \<Rightarrow> [] | Some h \<Rightarrow> h) = head_hash env [] ls"
    by (simp add: prev_def head_hash_def)
  have scan: "scan_tail_state env (al_file s) = Inr (prev, int (length ls))"
    using chained_scan [OF inv(3)] by (simp add: inv(2) prev_def)
  have "\<bar>int (length ls)\<bar> < 10 ^ 20" using length_file_of [of ls] room(1) by (simp add: inv(2))
  then show thesis by (rule emit_line [OF inv(1) scan pay run _ room(2)]) (use that h in auto)
qed

text \<open>
  A call that returns with a complete write appends exactly one record to a chain and keeps it
  one; with the tip replaced too, the tip names it.
\<close>

lemma emit_appends:
  assumes inv: "audit_inv env s ls" and pay: "\<forall>q \<in> set payload. value_ok (snd q)"
    and run: "emit env io event outcome payload s = (Inr (), t)" and flush: "io_flush io = None"
    and short: "length (al_file t) \<le> length (al_file s) + TAIL_CHUNK"
    and room: "int (length (al_file s)) < 10 ^ 20" "int (al_dropped s) < 10 ^ 20"
  obtains l where "audit_inv env t (ls @ [l])"
    "io_fsync io \<Longrightarrow> io_tip io \<Longrightarrow> al_tip t = Some (tip_line (ae_sha256 env l) (int (length ls)))"
proof -
  have s: "al_pending s = []" "al_file s = file_of ls" "chained env [] 0 ls"
    using inv by (auto simp: audit_inv_def)
  obtain l s1 where l: "write_line env io l s1 = (Inr (), t)" "al_file s1 = al_file s"
      "al_pending s1 = al_pending s" "al_hash_chain s1" "al_seq s1 = int (length ls)"
      "length l < TAIL_CHUNK \<Longrightarrow> record_of (head_hash env [] ls) (int (length ls)) l"
    by (rule emit_line_chained [OF _ s(2,3) pay run room]) (use inv in \<open>auto simp: audit_inv_def\<close>)
  have t: "al_file t = file_of (ls @ [l])" "al_pending t = []" "al_hash_chain t"
      "io_fsync io \<Longrightarrow> io_tip io \<Longrightarrow> al_tip t = Some (tip_line (ae_sha256 env l) (int (length ls)))"
    using l s flush by (auto simp: write_line_def Let_def file_of_snoc split: if_splits)
  have "length l < TAIL_CHUNK" using short t(1) s(2) by (simp add: file_of_snoc)
  then have "audit_inv env t (ls @ [l])"
    using t s l(6) by (simp add: audit_inv_def chained_append)
  then show thesis using t(4) by (rule that)
qed

text \<open>A call that raises leaves the file, the tip and the buffer as they were.\<close>

lemma emit_raises:
  assumes "emit env io event outcome payload s = (Inl e, t)"
  shows "al_file t = al_file s \<and> al_tip t = al_tip s \<and> al_pending t = al_pending s \<and>
    al_hash_chain t = al_hash_chain s \<and> al_dropped t = al_dropped s"
proof -
  have w: "write_record env io d u = (Inl e, t) \<Longrightarrow> t = u" for d u
    by (auto simp: write_record_def write_line_def Let_def split: sum.splits if_splits option.splits)
  show ?thesis using assms
    by (auto simp: emit_def thenP_def bindP_lift bindP_def
        split: if_splits option.splits sum.splits prod.splits dest!: w)
qed

section \<open>Runs of complete writes\<close>

text \<open>
  The states of a hash-chained log that starts empty: every call whose \<open>flush\<close> completes
  (whether or not it is refused, the lock is taken, \<open>fsync\<close> or the tip fails), and every
  reopening. Records stay below the tail chunk, as the source has it.
\<close>

definition step_ok :: "audit_io \<Rightarrow> payload \<Rightarrow> audit_state \<Rightarrow> audit_state \<Rightarrow> bool" where
  "step_ok io payload s t \<longleftrightarrow> io_flush io = None \<and> (\<forall>q \<in> set payload. value_ok (snd q)) \<and>
     length (al_file t) \<le> length (al_file s) + TAIL_CHUNK \<and> int (length (al_file s)) < 10 ^ 20 \<and>
     int (al_dropped s) < 10 ^ 20"

inductive audit_run :: "audit_env \<Rightarrow> audit_state \<Rightarrow> bool" where
  run_created: "audit_run env (fresh_log True [] None)"
| run_emit: "audit_run env s \<Longrightarrow> emit env io event outcome payload s = (r, t) \<Longrightarrow>
    step_ok io payload s t \<Longrightarrow> audit_run env t"
| run_reopen: "audit_run env s \<Longrightarrow> audit_run env (fresh_log True (al_file s) (al_tip s))"

inductive_cases audit_runE: "audit_run env s"

lemma audit_run_inv: "audit_run env s \<Longrightarrow> \<exists>ls. audit_inv env s ls"
proof (induction rule: audit_run.induct)
  case (run_created env)
  have "audit_inv env (fresh_log True [] None) []" by (simp add: audit_inv_def fresh_log_def file_of_def)
  then show ?case by blast
next
  case (run_emit env s io event outcome payload r t)
  then obtain ls where inv: "audit_inv env s ls" by blast
  show ?case
  proof (cases r)
    case (Inl e)
    then have "audit_inv env t ls"
      using emit_raises [of env io event outcome payload s e t] run_emit.hyps(2) inv by (simp add: audit_inv_def)
    then show ?thesis by blast
  next
    case (Inr u)
    then have e: "emit env io event outcome payload s = (Inr (), t)" using run_emit.hyps(2) by simp
    show ?thesis
      using emit_appends [OF inv _ e] run_emit.hyps(3) unfolding step_ok_def by metis
  qed
next
  case (run_reopen env s)
  then show ?case by (auto simp: audit_inv_def fresh_log_def)
qed

text \<open>\<open>open_log\<close> is a reopening followed by a call, up to the two recovered fields.\<close>

lemma verify_lines_blank: "verify_lines env p n c (ls @ [[]]) = verify_lines env p n c ls"
proof (induction ls arbitrary: p n c)
  case Nil
  have "decode_replace [] = []" by (simp add: decode_replace.simps)
  then show ?case by simp
next
  case (Cons l ls)
  then show ?case by (auto intro!: bindE_cong split: walk.splits)
qed

lemma verify_file:
  assumes env: "env_ok env" and c: "chained env [] 0 ls"
  shows "verify_chain env (file_of ls) tip = Inr (if ls = [] then True
    else verify_tip tip (ae_sha256 env (last ls)) (int (length ls)), length ls)"
proof (cases "ls = []")
  case True then show ?thesis by (simp add: verify_chain_def file_of_def)
next
  case False
  then have ne: "file_of ls \<noteq> []" by (auto simp: file_of_def neq_Nil_conv)
  have "split_on newline (file_of ls) = ls @ [[]]"
    using split_file_of [OF line_ok_no_newline [OF chained_lines [OF c]], of "[]"] by simp
  then show ?thesis
    using verify_chained [OF c sha_nonempty [OF env], of 0] False ne
    by (simp add: verify_chain_def verify_lines_blank head_hash_def)
qed

lemma words_two:
  assumes "a \<noteq> []" "b \<noteq> []" "list_all (\<lambda>c. \<not> is_space c) a" "list_all (\<lambda>c. \<not> is_space c) b" "is_space sp"
  shows "words (a @ sp # b) = [a, b]"
  by (simp add: words_Cons [OF assms(1,3,5)] words_single [OF assms(2,4)])

lemma not_space_tokens:
  "is_upper_hex (upper_char c) \<Longrightarrow> \<not> is_space c \<and> code c < 128"
  "is_digit c \<Longrightarrow> \<not> is_space c \<and> code c < 128"
  by (auto simp: is_upper_hex_def is_digit_def upper_char_def is_space_def split: if_splits)

lemma decode_ascii_id: "list_all (\<lambda>c. code c < 128) b \<Longrightarrow> decode_ascii_replace b = b"
  by (induction b) (auto simp: decode_ascii_replace_def)

lemma strip_one:
  "\<not> is_space c \<Longrightarrow> \<not> is_space y \<Longrightarrow> is_space sp \<Longrightarrow> strip (c # m @ [y, sp]) = c # m @ [y]"
  by (simp add: strip_def lstrip_def rstrip_def)

lemma verify_tip_written:
  assumes env: "env_ok env" and n: "0 \<le> n" "n < 10 ^ 20"
  shows "verify_tip (Some (tip_line (ae_sha256 env l) n)) (ae_sha256 env l) (n + 1)"
proof -
  let ?h = "ae_sha256 env l" and ?n = "show_int n"
  have h: "length ?h = 64" "list_all (\<lambda>c. \<not> is_space c) ?h" "list_all (\<lambda>c. code c < 128) ?h"
    using env not_space_tokens(1) by (auto simp: env_ok_def list_all_iff)
  have sn: "?n = show_nat (nat n)" using n by (simp add: show_int_def)
  have d: "list_all (\<lambda>c. \<not> is_space c) ?n" "list_all (\<lambda>c. code c < 128) ?n" "?n \<noteq> []"
    using show_nat_digits [of "nat n"] not_space_tokens(2) by (auto simp: sn list_all_iff)
  have len: "length ?n \<le> 21" using length_show_int [of n 20] n by simp
  have b: "decode_ascii_replace (take 256 (tip_line ?h n)) = ?h @ CHR '' '' # ?n @ [newline]"
    using len h(1,3) d(2) by (simp add: tip_line_def decode_ascii_id newline_def)
  obtain c r where c: "?h = c # r" using h(1) by (cases ?h) auto
  obtain x y where x: "?n = x @ [y]" using d(3) by (metis rev_exhaust)
  have "strip (?h @ CHR '' '' # ?n @ [newline]) = ?h @ CHR '' '' # ?n"
  proof -
    have "\<not> is_space c" "\<not> is_space y" "is_space newline"
      using c x h(2) d(1) by (simp_all) (simp add: is_space_def newline_def)
    then show ?thesis using strip_one [of c y newline "r @ CHR '' '' # x"] by (simp add: c x)
  qed
  moreover have "words (?h @ CHR '' '' # ?n) = [?h, ?n]"
    using h d by (intro words_two) (auto simp: is_space_def)
  moreover have "py_len ?h = 64" using h(1,3) by (simp add: py_len_ascii)
  ultimately show ?thesis
    using n digits_val_show [of "nat n"] by (simp add: verify_tip_def b Let_def sn)
qed

section \<open>The tip pins the log\<close>

text \<open>A line of a chain, for whoever wrote it: it names its predecessor.\<close>

definition names_previous :: "bytes \<Rightarrow> bool" where
  "names_previous l \<longleftrightarrow> (\<exists>ps v. loads (decode_replace l) = Inr (JObj ps) \<and>
     map_of ps ''prev_hash'' = Some v \<and> v \<noteq> JNull)"

definition stored_hash :: "bytes \<Rightarrow> json option" where
  "stored_hash l = (case loads (decode_replace l) of Inr (JObj ps) \<Rightarrow> map_of ps ''prev_hash'' | _ \<Rightarrow> None)"

lemma verify_line_Walked:
  assumes "verify_line env prev n cnt l = Inr (Walked prev' n' cnt')" "names_previous l"
  shows "prev' = Some (ae_sha256 env l)" "stored_hash l = Some (JStr (case prev of None \<Rightarrow> [] | Some h \<Rightarrow> h))"
  using assms by (auto simp: verify_line_def names_previous_def stored_hash_def Let_def
      split: if_splits option.splits sum.splits)

lemma verify_lines_append:
  "verify_lines env prev n cnt (xs @ ys) = bindE (verify_lines env prev n cnt xs) (\<lambda>w. case w of
     Stop ok m \<Rightarrow> Inr (Stop ok m) | Walked p m k \<Rightarrow> verify_lines env p m k ys)"
proof (induction xs arbitrary: prev n cnt)
  case (Cons x xs)
  then show ?case
    by (cases "verify_line env prev n (cnt + 1) x") (auto split: walk.splits)
qed simp

lemma verify_lines_snoc:
  assumes "decode_replace z \<noteq> []" "verify_lines env prev n cnt (zs @ [z]) = Inr (Walked q m k)"
  shows "\<exists>p a b. verify_lines env prev n cnt zs = Inr (Walked p a b) \<and>
    verify_line env p a (b + 1) z = Inr (Walked q m k)"
proof -
  obtain w where w: "verify_lines env prev n cnt zs = Inr w"
    using assms(2) by (auto simp: verify_lines_append)
  then obtain p a b where p: "w = Walked p a b" using assms(2) by (cases w) (auto simp: verify_lines_append)
  obtain v where "verify_line env p a (b + 1) z = Inr v"
    using assms w p by (auto simp: verify_lines_append)
  then show ?thesis using assms w p by (cases v) (auto simp: verify_lines_append)
qed

lemma stop_false: "verify_lines env prev n cnt ls = Inr (Stop ok m) \<Longrightarrow> \<not> ok"
proof (induction ls arbitrary: prev n cnt)
  case (Cons l ls)
  have "verify_line env prev n (cnt + 1) l = Inr (Stop ok m) \<Longrightarrow> \<not> ok"
    by (auto simp: verify_line_def Let_def split: sum.splits json.splits if_splits option.splits)
  then show ?case using Cons
    by (cases "verify_line env prev n (cnt + 1) l"; cases "projr (verify_line env prev n (cnt + 1) l)")
      (auto split: if_splits)
qed simp

text \<open>The lines \<open>verify_chain\<close> looks at.\<close>

definition log_lines :: "bytes \<Rightarrow> bytes list" where
  "log_lines file = filter (\<lambda>l. decode_replace l \<noteq> []) (split_on newline file)"

lemma verify_lines_filter:
  "verify_lines env prev n cnt ls = verify_lines env prev n cnt (filter (\<lambda>l. decode_replace l \<noteq> []) ls)"
  by (induction ls arbitrary: prev n cnt) (auto intro!: bindE_cong split: walk.splits)

lemma walked_unique:
  assumes inj: "inj_on (ae_sha256 env) (set xs \<union> set ys)" and env: "env_ok env"
    and "verify_lines env None 0 0 xs = Inr (Walked (Some h) n k)"
    and "verify_lines env None 0 0 ys = Inr (Walked (Some h) m j)"
    and "list_all names_previous xs" "list_all names_previous ys"
    and "\<forall>l \<in> set xs \<union> set ys. decode_replace l \<noteq> []"
  shows "xs = ys"
  using assms(1,3-)
proof (induction xs arbitrary: ys h n k m j rule: rev_induct)
  case Nil
  then show ?case by simp
next
  case (snoc x xs)
  have last: "\<exists>p a b. verify_lines env None 0 0 zs = Inr (Walked p a b) \<and> stored_hash z =
        Some (JStr (case p of None \<Rightarrow> [] | Some g \<Rightarrow> g)) \<and> h = ae_sha256 env z"
    if "verify_lines env None 0 0 (zs @ [z]) = Inr (Walked (Some h) q r)" "names_previous z" "decode_replace z \<noteq> []"
    for zs z q r
    using verify_lines_snoc [OF that(3,1)] verify_line_Walked that(2) by (metis option.inject)
  obtain p a b where x: "verify_lines env None 0 0 xs = Inr (Walked p a b)" "h = ae_sha256 env x"
      "stored_hash x = Some (JStr (case p of None \<Rightarrow> [] | Some g \<Rightarrow> g))"
    using last [OF snoc.prems(2)] snoc.prems(4,6) by auto
  have "ys \<noteq> []" using snoc.prems(3) by auto
  then obtain zs y where ys: "ys = zs @ [y]" by (metis rev_exhaust)
  obtain p' a' b' where y: "verify_lines env None 0 0 zs = Inr (Walked p' a' b')" "h = ae_sha256 env y"
      "stored_hash y = Some (JStr (case p' of None \<Rightarrow> [] | Some g \<Rightarrow> g))"
    using last [of zs y] snoc.prems(3,5,6) by (auto simp: ys)
  have eq: "x = y" using snoc.prems(1) x(2) y(2) by (auto simp: ys dest: inj_onD)
  have none: "zs' = []" if "verify_lines env None 0 0 zs' = Inr (Walked None c d)" "list_all names_previous zs'"
      "\<forall>l \<in> set zs'. decode_replace l \<noteq> []" for zs' c d
  proof (rule ccontr)
    assume "zs' \<noteq> []"
    then obtain us u where "zs' = us @ [u]" by (metis rev_exhaust)
    with that verify_lines_snoc [of u env None 0 0 us None c d] verify_line_Walked(1)
    show False by fastforce
  qed
  have sha: "\<exists>u. p = Some (ae_sha256 env u)" if "p = Some g" "verify_lines env None 0 0 zs' = Inr (Walked p c d)"
    "list_all names_previous zs'" "\<forall>l \<in> set zs'. decode_replace l \<noteq> []" for p g zs' c d
  proof -
    from that have "zs' \<noteq> []" by auto
    then obtain us u where "zs' = us @ [u]" by (metis rev_exhaust)
    with that verify_lines_snoc [of u env None 0 0 us p c d] verify_line_Walked(1)
    show ?thesis by fastforce
  qed
  have "xs = zs"
  proof (cases p)
    case None
    then have "p' = None"
      using x(3) y(3) eq sha [of p' _ zs a' b'] y(1) snoc.prems(5,6) sha_nonempty [OF env]
      by (cases p') (auto simp: ys dest: sym)
    then have "zs = []" using none [of zs a' b'] y(1) snoc.prems(5,6) by (auto simp: ys)
    moreover have "xs = []" using none [of xs a b] x(1) None snoc.prems(4,6) by auto
    ultimately show ?thesis by simp
  next
    case (Some g)
    then have "p' = Some g"
      using x(3) y(3) eq sha [of p g xs a b] x(1) snoc.prems(4,6) sha_nonempty [OF env]
      by (cases p') (auto simp: ys dest: sym)
    moreover have "inj_on (ae_sha256 env) (set xs \<union> set zs)"
      using snoc.prems(1) by (rule inj_on_subset) (auto simp: ys)
    ultimately show ?thesis using snoc.IH [of zs g a b a' b'] x(1) y(1) Some snoc.prems(4-6) by (auto simp: ys)
  qed
  then show ?case using eq ys by simp
qed

section \<open>A failed flush\<close>

text \<open>
  The record of a \<open>flush\<close> that wrote nothing stays in the buffer and goes out with the next
  one, which was numbered and linked without knowing of it.
\<close>

lemma two_records_same_seq:
  assumes env: "env_ok env" and c: "chained env [] 0 ls" and r: "record_of (head_hash env [] ls) (int (length ls)) l"
    "record_of (head_hash env [] ls) (int (length ls)) l'"
  shows "verify_chain env (file_of (ls @ [l, l'])) tip = Inr (False, length ls + 2)"
proof -
  have c1: "chained env [] 0 (ls @ [l])" using c r(1) by (simp add: chained_append)
  have nn: "list_all no_newline (ls @ [l, l'])"
    using chained_lines [OF c1] r(2) by (auto simp: list_all_iff line_ok_def record_of_def)
  have sp: "split_on newline (file_of (ls @ [l, l'])) = (ls @ [l]) @ [l', []]"
    using split_file_of [OF nn, of "[]"] by simp
  have v: "verify_lines env None 0 0 (ls @ [l]) = Inr (Walked (Some (ae_sha256 env l)) (int (length ls) + 1) (length ls + 1))"
    using verify_chained [OF c1 sha_nonempty [OF env], of 0] by (simp add: head_hash_def)
  obtain ps where l': "line_ok l'" "loads l' = Inr (JObj ps)"
      "map_of ps ''prev_hash'' = Some (JStr (head_hash env [] ls))" "map_of ps ''seq'' = Some (JInt (int (length ls)))"
    using r(2) by (auto simp: record_of_def)
  then have "decode_replace l' = l'" "l' \<noteq> []" by (auto simp: line_ok_def decode_replace_ok)
  then have "verify_line env (Some (ae_sha256 env l)) (int (length ls) + 1) (length ls + 2) l' =
      Inr (Stop False (length ls + 2))"
    using l' by (auto simp: verify_line_def Let_def py_int_def)
  then have "verify_lines env None 0 0 ((ls @ [l]) @ [l', []]) = Inr (Stop False (length ls + 2))"
    unfolding verify_lines_append [of env None 0 0 "ls @ [l]"] v
    using \<open>decode_replace l' = l'\<close> \<open>l' \<noteq> []\<close> by simp
  moreover have "file_of (ls @ [l, l']) \<noteq> []" by (simp add: file_of_def)
  ultimately show ?thesis by (simp add: verify_chain_def sp)
qed

section \<open>A log that was not chained before\<close>

definition plain_record :: "bytes \<Rightarrow> bool" where
  "plain_record l \<longleftrightarrow> line_ok l \<and> (\<exists>ps. loads l = Inr (JObj ps) \<and> map_of ps ''prev_hash'' = None \<and>
     map_of ps ''seq'' = None)"

lemma verify_plain:
  "list_all plain_record ls \<Longrightarrow> verify_lines env None n cnt ls = Inr (Walked None n (cnt + length ls))"
proof (induction ls arbitrary: cnt)
  case (Cons l ls)
  then have "line_ok l" and v: "verify_line env None n (cnt + 1) l = Inr (Walked None n (cnt + 1))"
    by (auto simp: plain_record_def verify_line_def line_ok_def decode_replace_ok)
  then have "decode_replace l \<noteq> []" by (auto simp: line_ok_def decode_replace_ok)
  with v Cons.IH [of "cnt + 1"] Cons.prems show ?case by simp
qed simp

lemma chained_after_plain:
  assumes env: "env_ok env" and p: "list_all plain_record ls" and r: "record_of h n l" "h \<noteq> []"
  shows "verify_chain env (file_of (ls @ [l])) tip = Inr (False, length ls + 1)"
proof -
  have lo: "list_all line_ok (ls @ [l])"
    using p r(1) by (auto simp: list_all_iff plain_record_def record_of_def)
  have sp: "split_on newline (file_of (ls @ [l])) = ls @ [l, []]"
    using split_file_of [OF line_ok_no_newline [OF lo], of "[]"] by simp
  obtain ps where l: "line_ok l" "loads l = Inr (JObj ps)" "map_of ps ''prev_hash'' = Some (JStr h)"
    using r(1) by (auto simp: record_of_def)
  then have d: "decode_replace l = l" "l \<noteq> []" by (auto simp: line_ok_def decode_replace_ok)
  have "verify_line env None 0 (length ls + 1) l = Inr (Stop False (length ls + 1))"
    using l d r(2) by (simp add: verify_line_def Let_def)
  then have "verify_lines env None 0 0 (ls @ [l, []]) = Inr (Stop False (length ls + 1))"
    using d verify_plain [OF p, of env 0 0] by (simp add: verify_lines_append)
  moreover have "file_of (ls @ [l]) \<noteq> []" by (simp add: file_of_def)
  ultimately show ?thesis by (simp add: verify_chain_def sp)
qed

lemma plain_scan:
  assumes "list_all plain_record (ks @ [k])"
  shows "scan_tail_state env (file_of (ks @ [k])) = Inr (Some (ae_sha256 env k), 0)"
proof -
  have k: "plain_record k" "list_all line_ok ks"
    using assms by (auto simp: plain_record_def list_all_iff)
  then have "seq_after k = Inr 0" "line_ok k"
    by (auto simp: plain_record_def seq_after_def loads_bytes_def line_ok_def)
  then show ?thesis using scan_tail_file [of k ks env] line_ok_no_newline [OF k(2)] by simp
qed

lemma plain_demo:
  "line_ok ''{}''" "loads ''{}'' = Inr (JObj [])"
proof -
  have "loads (dumps (JObj [])) = Inr (JObj [])" using loads_dumps [of "JObj []"] by simp
  then show "loads ''{}'' = Inr (JObj [])" by (simp add: dumps_def)
  show "line_ok ''{}''" by (simp add: line_ok_def no_newline_def newline_def TAIL_CHUNK_def ascii_text list_all_iff)
qed

section \<open>A concrete log\<close>

definition demo_env :: audit_env where
  "demo_env = \<lparr>ae_sha256 = (\<lambda>b. replicate 64 (CHR ''a'')), ae_now = ''2026-01-01T00:00:00Z'', ae_actor = ''alice''\<rparr>"

definition good_io :: audit_io where
  "good_io = \<lparr>io_lock = None, io_flush = None, io_fsync = True, io_tip = True\<rparr>"

lemma demo_env_ok: "env_ok demo_env"
  by (simp add: env_ok_def demo_env_def upper_char_def is_upper_hex_def list_all_iff)

definition demo_payload :: payload where
  "demo_payload = [(''hash_chain'', PBool True)]"

lemma demo_payload_ok: "\<forall>q \<in> set demo_payload. value_ok (snd q)"
  by (simp add: demo_payload_def)

lemma demo_check: "check_payload ''audit_log_opened'' demo_payload = Inr ()"
proof -
  have "is_forbidden_key ''hash_chain'' = False"
    by (simp add: is_forbidden_key_def FORBIDDEN_KEYS_def lower_char_def)
  then show ?thesis
    by (simp add: check_payload_def ALLOWED_EVENTS_def kwargs_def demo_payload_def forbidden_name_def
        RESERVED_ENVELOPE_KEYS_def contains_secret_marker_def)
qed

lemma demo_emit:
  assumes chain: "al_hash_chain s" and scan: "scan_tail_state demo_env (al_file s) = Inr (prev, seq)"
    and p: "prev = None \<or> prev = Some (replicate 64 (CHR ''a''))" and n: "0 \<le> seq" "seq < 10 ^ 19"
    and d: "int (al_dropped s) < 10 ^ 19" and lock: "io_lock io = None"
  shows "\<exists>l. length l < 4000 \<and> emit demo_env io ''audit_log_opened'' OUTCOME_OK demo_payload s =
    write_line demo_env io l (s\<lparr>al_prev_hash := prev, al_seq := seq\<rparr>)"
proof -
  let ?s = "s\<lparr>al_prev_hash := prev, al_seq := seq\<rparr>"
  let ?h = "case prev of None \<Rightarrow> [] | Some h \<Rightarrow> h"
  let ?d = "chain_fields ?s (dict_update (envelope demo_env ''audit_log_opened'' OUTCOME_OK) demo_payload)"
  have up: "dict_update (envelope demo_env ''audit_log_opened'' OUTCOME_OK) demo_payload =
    [(''ts'', PStr ''2026-01-01T00:00:00Z''), (''event'', PStr ''audit_log_opened''), (''actor'', PStr ''alice''),
     (''outcome'', PStr ''ok''), (''hash_chain'', PBool True)]"
    by (simp add: dict_update_def envelope_def demo_env_def OUTCOME_OK_def demo_payload_def)
  have h: "length ?h \<le> 64" "utf8_ok ?h" using p by (auto intro!: ascii_text simp: list_all_iff)
  have w: "length (show_int seq) \<le> 21" "length (show_int (int (al_dropped s))) \<le> 21"
    using length_show_int [of seq 20] length_show_int [of "int (al_dropped s)" 20] n d by simp_all
  let ?js = "[(''ts'', JStr ''2026-01-01T00:00:00Z''), (''event'', JStr ''audit_log_opened''), (''actor'', JStr ''alice''),
     (''outcome'', JStr ''ok''), (''hash_chain'', JBool True), (''prev_hash'', JStr ?h), (''seq'', JInt seq)]"
  obtain js where js: "serialise ?d = Inr (dumps (JObj js))" "json_text (JObj js)" "json_weight (JObj js) < 4000"
  proof (cases "al_dropped s = 0")
    case True
    then have "serialise ?d = Inr (dumps (JObj ?js))"
      using chain by (simp add: serialise_def chain_fields_def up kwargs_def)
    then show thesis by (rule that) (use h w in simp_all)
  next
    case False
    then have "serialise ?d = Inr (dumps (JObj (?js @ [(''dropped_audit_records'', JInt (int (al_dropped s)))])))"
      using chain by (simp add: serialise_def chain_fields_def up kwargs_def)
    then show thesis by (rule that) (use h w in simp_all)
  qed
  have "length (dumps (JObj js)) < 4000" using length_dumps [of "JObj js"] js(3) by linarith
  moreover have "utf8_ok (dumps (JObj js))" using js(2) by (rule utf8_ok_dumps)
  ultimately show ?thesis
    using chain scan lock demo_check js(1)
    by (intro exI [of _ "dumps (JObj js)"])
      (simp add: emit_def VALID_OUTCOMES_def thenP_def bindP_lift bindP_def write_record_def)
qed

lemma demo_second:
  assumes "al_file s = []" "al_hash_chain s" "int (al_dropped s) < 10 ^ 19" "io_lock io = None"
  shows "\<exists>l. length l < 4000 \<and> emit demo_env io ''audit_log_opened'' OUTCOME_OK demo_payload s =
    write_line demo_env io l (s\<lparr>al_prev_hash := None, al_seq := 0\<rparr>)"
  using demo_emit [of s None 0 io] assms by (simp add: scan_tail_state_def)

lemma demo_first:
  "\<exists>t. emit demo_env good_io ''audit_log_opened'' OUTCOME_OK demo_payload (fresh_log True [] None) = (Inr (), t) \<and>
     step_ok good_io demo_payload (fresh_log True [] None) t"
proof -
  have "scan_tail_state demo_env (al_file (fresh_log True [] None)) = Inr (None, 0)"
    by (simp add: fresh_log_def scan_tail_state_def)
  then obtain l where "length l < 4000" "emit demo_env good_io ''audit_log_opened'' OUTCOME_OK demo_payload
      (fresh_log True [] None) = write_line demo_env good_io l ((fresh_log True [] None)\<lparr>al_prev_hash := None, al_seq := 0\<rparr>)"
    using demo_emit [of "fresh_log True [] None" None 0 good_io] by (auto simp: fresh_log_def good_io_def)
  then show ?thesis
    using demo_payload_ok by (simp add: write_line_def good_io_def fresh_log_def Let_def step_ok_def TAIL_CHUNK_def)
qed

text \<open>\<open>verify_tip\<close> accepts the demonstration log against the tip its own \<open>emit\<close> wrote.\<close>

lemma demo_log:
  obtains f t l where "verify_chain demo_env f (Some t) = Inr (True, 1)" "log_lines f = [l]" "names_previous l"
proof -
  obtain u where u: "emit demo_env good_io ''audit_log_opened'' OUTCOME_OK demo_payload (fresh_log True [] None) = (Inr (), u)"
      "step_ok good_io demo_payload (fresh_log True [] None) u"
    using demo_first by blast
  have inv: "audit_inv demo_env (fresh_log True [] None) []" by (simp add: audit_inv_def fresh_log_def file_of_def)
  from u(2) have ok: "\<forall>q \<in> set demo_payload. value_ok (snd q)" "io_flush good_io = None"
      "length (al_file u) \<le> length (al_file (fresh_log True [] None)) + TAIL_CHUNK"
      "int (length (al_file (fresh_log True [] None))) < 10 ^ 20" "int (al_dropped (fresh_log True [] None)) < 10 ^ 20"
    by (simp_all add: step_ok_def)
  obtain l where l: "audit_inv demo_env u ([] @ [l])"
      "io_fsync good_io \<Longrightarrow> io_tip good_io \<Longrightarrow> al_tip u = Some (tip_line (ae_sha256 demo_env l) (int (length ([] :: bytes list))))"
    using emit_appends [OF inv ok(1) u(1) ok(2-5)] by blast
  have c: "al_file u = file_of [l]" "chained demo_env [] 0 [l]" "al_tip u = Some (tip_line (ae_sha256 demo_env l) 0)"
    using l by (simp_all add: audit_inv_def good_io_def)
  then have r: "line_ok l" "record_of [] 0 l" by (simp_all add: record_of_def)
  have "log_lines (al_file u) = [l]"
    using split_file_of [of "[l]" "[]"] r(1) line_ok_no_newline [of "[l]"]
    by (simp add: c(1) log_lines_def) (auto simp: line_ok_def decode_replace_ok decode_replace.simps [of "[]"])
  moreover have "names_previous l"
    using r by (auto simp: record_of_def names_previous_def line_ok_def decode_replace_ok)
  moreover have "verify_chain demo_env (al_file u) (al_tip u) = Inr (True, 1)"
    using verify_file [OF demo_env_ok c(2), of "al_tip u"] verify_tip_written [OF demo_env_ok, of 0 l]
    by (simp add: c(1,3))
  ultimately show thesis using that c(3) by metis
qed

section \<open>Properties\<close>

text \<open>
  C1. A log written by complete writes verifies: in every state of a hash-chained log that was
  created empty and since then saw any calls (accepted or refused, with failing lock, \<open>fsync\<close>
  or tip) and reopenings, the file passes \<open>verify_chain\<close>; and after a call that went through
  entirely it passes with its tip, with one more record counted.
\<close>

theorem audit_run_verifies:
  assumes "env_ok env" and "audit_run env s" and "emit env io event outcome payload s = (Inr (), t)"
    and "step_ok io payload s t" and "io_fsync io" and "io_tip io"
  shows "\<exists>n. verify_chain env (al_file s) None = Inr (True, n) \<and>
    verify_chain env (al_file t) (al_tip t) = Inr (True, n + 1)"
proof -
  obtain ls where inv: "audit_inv env s ls" using audit_run_inv [OF assms(2)] by blast
  then have s: "al_file s = file_of ls" "chained env [] 0 ls" by (auto simp: audit_inv_def)
  obtain l where l: "audit_inv env t (ls @ [l])"
      "al_tip t = Some (tip_line (ae_sha256 env l) (int (length ls)))"
    using emit_appends [OF inv _ assms(3)] assms(4-6) unfolding step_ok_def by metis
  have n: "int (length ls) < 10 ^ 20"
    using assms(4) length_file_of [of ls] by (simp add: step_ok_def s(1))
  have "verify_chain env (al_file s) None = Inr (True, length ls)"
    using verify_file [OF assms(1) s(2), of None] by (simp add: s(1) verify_tip_def)
  moreover have "verify_chain env (al_file t) (al_tip t) = Inr (True, length ls + 1)"
    using l verify_file [OF assms(1), of "ls @ [l]" "al_tip t"] verify_tip_written [OF assms(1) _ n, of l]
    by (simp add: audit_inv_def add.commute)
  ultimately show ?thesis by blast
qed

theorem audit_run_verifies_witness:
  "\<exists>t n. emit demo_env good_io ''audit_log_opened'' OUTCOME_OK demo_payload (fresh_log True [] None) = (Inr (), t) \<and>
     verify_chain demo_env (al_file t) (al_tip t) = Inr (True, n + 1)"
proof -
  obtain t where t: "emit demo_env good_io ''audit_log_opened'' OUTCOME_OK demo_payload (fresh_log True [] None) = (Inr (), t)"
      "step_ok good_io demo_payload (fresh_log True [] None) t"
    using demo_first by blast
  from audit_run_verifies [OF demo_env_ok run_created t] show ?thesis
    using t(1) by (auto simp: good_io_def)
qed

text \<open>
  C8. The tip pins the whole log: two non-blank logs of chained records that verify against the
  same tip hold the same records in the same order, if SHA-256 has no collision among them. So
  an edited, inserted, reordered or removed record is found as long as the tip is authentic.
\<close>

theorem tip_pins_log:
  assumes "env_ok env"
    and "verify_chain env f (Some t) = Inr (True, n)" and "verify_chain env g (Some t) = Inr (True, m)"
    and "log_lines f \<noteq> []" and "log_lines g \<noteq> []"
    and "list_all names_previous (log_lines f)" and "list_all names_previous (log_lines g)"
    and "inj_on (ae_sha256 env) (set (log_lines f) \<union> set (log_lines g))"
  shows "log_lines f = log_lines g"
proof -
  have walked: "\<exists>h a b. verify_lines env None 0 0 (log_lines x) = Inr (Walked (Some h) a b) \<and>
      h = (case words (strip (decode_ascii_replace (take 256 t))) of [] \<Rightarrow> [] | w # _ \<Rightarrow> w)"
    if x: "verify_chain env x (Some t) = Inr (True, k)" "log_lines x \<noteq> []" "list_all names_previous (log_lines x)" for x k
  proof -
    obtain ls l where ls: "log_lines x = ls @ [l]" using x(2) by (metis rev_exhaust)
    have "l \<in> set (log_lines x)" using ls by simp
    then have l: "names_previous l" "decode_replace l \<noteq> []"
      using x(3) ls by (auto simp: log_lines_def)
    have "x \<noteq> []"
    proof
      assume "x = []"
      moreover have "decode_replace [] = []" by (simp add: decode_replace.simps)
      ultimately show False using x(2) by (simp add: log_lines_def)
    qed
    obtain w where w: "verify_lines env None 0 0 (log_lines x) = Inr w"
      "(case w of Stop ok n \<Rightarrow> Inr (ok, n) | Walked None e n \<Rightarrow> Inr (True, n)
        | Walked (Some h) e n \<Rightarrow> Inr (verify_tip (Some t) h e, n)) = (Inr (True, k) :: (bool \<times> nat) res)"
      using x(1) \<open>x \<noteq> []\<close> verify_lines_filter [of env None 0 0 "split_on newline x"]
      by (auto simp: verify_chain_def log_lines_def)
    show ?thesis
    proof (cases w)
      case (Stop ok j)
      then show ?thesis using w stop_false by fastforce
    next
      case (Walked p e j)
      then obtain p' a b where "verify_line env p' a (b + 1) l = Inr (Walked p e j)"
        using w(1) ls verify_lines_snoc [OF l(2)] by metis
      then have "p = Some (ae_sha256 env l)" using verify_line_Walked(1) l(1) by blast
      then show ?thesis using w Walked
        by (auto simp: verify_tip_def Let_def split: if_splits)
    qed
  qed
  obtain h a b where f: "verify_lines env None 0 0 (log_lines f) = Inr (Walked (Some h) a b)"
      "h = (case words (strip (decode_ascii_replace (take 256 t))) of [] \<Rightarrow> [] | w # _ \<Rightarrow> w)"
    using walked [OF assms(2,4,6)] by blast
  obtain c d where g: "verify_lines env None 0 0 (log_lines g) = Inr (Walked (Some h) c d)"
    using walked [OF assms(3,5,7)] f(2) by blast
  show ?thesis
    by (rule walked_unique [OF assms(8,1) f(1) g assms(6,7)]) (auto simp: log_lines_def)
qed

theorem tip_pins_log_witness: "\<exists>f l. log_lines f = [l] \<and> log_lines f = log_lines f"
proof -
  obtain f t l where f: "verify_chain demo_env f (Some t) = Inr (True, 1)" "log_lines f = [l]" "names_previous l"
    by (rule demo_log)
  have "log_lines f = log_lines f"
    by (rule tip_pins_log [OF demo_env_ok f(1) f(1)]) (simp_all add: f(2,3))
  with f(2) show ?thesis by blast
qed

text \<open>
  A record whose \<open>flush\<close> failed breaks the chain although both calls return: the bytes stay
  in the writer's buffer, the next call numbers and links its record without them, and writes
  both. On any log that verified before, \<open>verify_chain\<close> then reports tampering.
\<close>

theorem failed_flush_breaks_chain:
  assumes "env_ok env" and "audit_run env s"
    and "io_flush io1 = Some 0" and "emit env io1 ev1 out1 pl1 s = (Inr (), s1)"
    and "io_flush io2 = None" and "emit env io2 ev2 out2 pl2 s1 = (Inr (), t)"
    and "\<forall>q \<in> set pl1 \<union> set pl2. value_ok (snd q)"
    and "length (al_file t) \<le> length (al_file s) + TAIL_CHUNK"
    and "int (length (al_file s)) < 10 ^ 20" and "int (al_dropped s) + 1 < 10 ^ 20"
  shows "\<exists>n. verify_chain env (al_file s) None = Inr (True, n) \<and>
    verify_chain env (al_file t) (al_tip t) = Inr (False, n + 2)"
proof -
  obtain ls where "audit_inv env s ls" using audit_run_inv [OF assms(2)] by blast
  then have s: "al_hash_chain s" "al_pending s = []" "al_file s = file_of ls" "chained env [] 0 ls"
    by (auto simp: audit_inv_def)
  have pl: "\<forall>q \<in> set pl1. value_ok (snd q)" "\<forall>q \<in> set pl2. value_ok (snd q)"
    using assms(7) by simp_all
  obtain l u where l: "write_line env io1 l u = (Inr (), s1)" "al_file u = al_file s" "al_pending u = al_pending s"
      "al_hash_chain u" "al_dropped u = al_dropped s"
      "length l < TAIL_CHUNK \<Longrightarrow> record_of (head_hash env [] ls) (int (length ls)) l"
    by (rule emit_line_chained [OF s(1,3,4) pl(1) assms(4,9)]) (use assms(10) in auto)
  have s1: "al_hash_chain s1" "al_file s1 = file_of ls" "al_pending s1 = l @ [newline]" "al_dropped s1 \<le> al_dropped u + 1"
    using l(1-4) s assms(3) by (auto simp: write_line_def Let_def)
  have room: "int (length (al_file s1)) < 10 ^ 20" "int (al_dropped s1) < 10 ^ 20"
    using s1(2,4) l(5) s(3) assms(9,10) by simp_all
  obtain l' u' where l': "write_line env io2 l' u' = (Inr (), t)" "al_file u' = al_file s1" "al_pending u' = al_pending s1"
      "length l' < TAIL_CHUNK \<Longrightarrow> record_of (head_hash env [] ls) (int (length ls)) l'"
    by (rule emit_line_chained [OF s1(1,2) s(4) pl(2) assms(6) room]) blast
  have t: "al_file t = file_of (ls @ [l, l'])"
    using l' s1 assms(5) by (auto simp: write_line_def Let_def file_of_def split: if_splits)
  have "length l < TAIL_CHUNK" "length l' < TAIL_CHUNK"
    using assms(8) by (simp_all add: t s(3) file_of_def)
  then have "verify_chain env (al_file t) (al_tip t) = Inr (False, length ls + 2)"
    using two_records_same_seq [OF assms(1) s(4)] l(6) l'(4) by (simp add: t)
  moreover have "verify_chain env (al_file s) None = Inr (True, length ls)"
    using verify_file [OF assms(1) s(4), of None] by (simp add: s(3) verify_tip_def)
  ultimately show ?thesis by blast
qed

theorem failed_flush_breaks_chain_witness:
  "\<exists>(t :: audit_state) n. verify_chain demo_env (al_file t) (al_tip t) = Inr (False, n + 2)"
proof -
  let ?s = "fresh_log True [] None" and ?io = "good_io\<lparr>io_flush := Some 0\<rparr>"
  obtain l where l: "length l < 4000" "emit demo_env ?io ''audit_log_opened'' OUTCOME_OK demo_payload ?s =
      write_line demo_env ?io l (?s\<lparr>al_prev_hash := None, al_seq := 0\<rparr>)"
    using demo_second [of ?s ?io] by (auto simp: fresh_log_def good_io_def)
  define s1 where "s1 = snd (write_line demo_env ?io l (?s\<lparr>al_prev_hash := None, al_seq := 0\<rparr>))"
  have s1: "emit demo_env ?io ''audit_log_opened'' OUTCOME_OK demo_payload ?s = (Inr (), s1)"
      "al_file s1 = []" "al_hash_chain s1" "al_dropped s1 = 1" "al_pending s1 = l @ [newline]"
    using l(2) by (simp_all add: s1_def write_line_def Let_def fresh_log_def)
  obtain k where k: "length k < 4000" "emit demo_env good_io ''audit_log_opened'' OUTCOME_OK demo_payload s1 =
      write_line demo_env good_io k (s1\<lparr>al_prev_hash := None, al_seq := 0\<rparr>)"
    using demo_second [of s1 good_io] s1(2-4) by (auto simp: good_io_def)
  define t where "t = snd (write_line demo_env good_io k (s1\<lparr>al_prev_hash := None, al_seq := 0\<rparr>))"
  have t: "emit demo_env good_io ''audit_log_opened'' OUTCOME_OK demo_payload s1 = (Inr (), t)"
      "length (al_file t) \<le> length (al_file ?s) + TAIL_CHUNK"
    using k l(1) s1(2,3,5) by (simp_all add: t_def write_line_def Let_def good_io_def fresh_log_def TAIL_CHUNK_def)
  have "\<exists>n. verify_chain demo_env (al_file ?s) None = Inr (True, n) \<and>
      verify_chain demo_env (al_file t) (al_tip t) = Inr (False, n + 2)"
    by (rule failed_flush_breaks_chain [OF demo_env_ok run_created _ s1(1) _ t(1) _ t(2)])
      (use demo_payload_ok in \<open>simp_all add: good_io_def fresh_log_def\<close>)
  then show ?thesis by blast
qed

text \<open>
  Switching the chain on over a log with unchained records makes \<open>verify_chain\<close> reject the
  log: the first chained record links to the hash of the last plain line, where the walk expects
  the empty string.
\<close>

theorem chain_over_plain_log_fails:
  assumes "env_ok env" and "list_all plain_record ls" and "ls \<noteq> []"
    and "al_hash_chain s" and "al_pending s = []" and "al_file s = file_of ls"
    and "emit env io event outcome payload s = (Inr (), t)" and "io_flush io = None"
    and "\<forall>q \<in> set payload. value_ok (snd q)" and "int (al_dropped s) < 10 ^ 20"
    and "length (al_file t) \<le> length (al_file s) + TAIL_CHUNK"
  shows "verify_chain env (al_file t) tip = Inr (False, length ls + 1)"
proof -
  obtain ks k where k: "ls = ks @ [k]" using assms(3) by (metis rev_exhaust)
  have scan: "scan_tail_state env (al_file s) = Inr (Some (ae_sha256 env k), 0)"
    unfolding assms(6) k by (rule plain_scan) (use assms(2) k in simp)
  obtain l u where l: "write_line env io l u = (Inr (), t)" "al_file u = al_file s" "al_pending u = al_pending s"
      "length l < TAIL_CHUNK \<Longrightarrow> record_of (ae_sha256 env k) 0 l"
    by (rule emit_line [OF assms(4) scan assms(9,7) _ assms(10)]) auto
  have t: "al_file t = file_of (ls @ [l])"
    using l assms(5,6,8) by (auto simp: write_line_def Let_def file_of_snoc split: if_splits)
  then have "length l < TAIL_CHUNK" using assms(6,11) by (simp add: file_of_snoc)
  then show ?thesis
    using chained_after_plain [OF assms(1,2) l(4) sha_nonempty [OF assms(1)]] by (simp add: t)
qed

theorem chain_over_plain_log_fails_witness:
  "\<exists>t :: audit_state. verify_chain demo_env (al_file t) None = Inr (False, 2)"
proof -
  have p: "list_all plain_record [''{}'']"
    by (simp add: plain_record_def plain_demo)
  let ?s = "fresh_log True (file_of [''{}'']) None"
  have "scan_tail_state demo_env (file_of ([] @ [''{}''])) = Inr (Some (replicate 64 (CHR ''a'')), 0)"
    using plain_scan [of "[]" "''{}''" demo_env] p by (simp add: demo_env_def)
  then obtain k where k: "length k < 4000" "emit demo_env good_io ''audit_log_opened'' OUTCOME_OK demo_payload ?s =
      write_line demo_env good_io k (?s\<lparr>al_prev_hash := Some (replicate 64 (CHR ''a'')), al_seq := 0\<rparr>)"
    using demo_emit [of ?s "Some (replicate 64 (CHR ''a''))" 0 good_io] by (auto simp: fresh_log_def good_io_def)
  define t where "t = snd (write_line demo_env good_io k (?s\<lparr>al_prev_hash := Some (replicate 64 (CHR ''a'')), al_seq := 0\<rparr>))"
  have t: "emit demo_env good_io ''audit_log_opened'' OUTCOME_OK demo_payload ?s = (Inr (), t)"
      "length (al_file t) \<le> length (al_file ?s) + TAIL_CHUNK"
    using k by (simp_all add: t_def write_line_def Let_def good_io_def fresh_log_def TAIL_CHUNK_def)
  have "verify_chain demo_env (al_file t) None = Inr (False, length [''{}''] + 1)"
    by (rule chain_over_plain_log_fails [OF demo_env_ok p _ _ _ _ t(1)])
      (use t(2) demo_payload_ok in \<open>simp_all add: fresh_log_def good_io_def\<close>)
  then have "verify_chain demo_env (al_file t) None = Inr (False, 2)" by (simp add: numeral_2_eq_2)
  then show ?thesis by blast
qed

end
