(* ===== verification/Files.thy ===== *)
theory Files
  imports Prelude "HOL-Library.Sublist"
begin

unbundle bit_operations_syntax

text \<open>
  \<open>storage/permissions.py\<close> on POSIX: the managed directories and files and their modes.
  The file system is what \<open>lstat\<close> sees at each path; a path is the list of its components.
  The lemmas show what \<open>ensure_dir\<close> leaves behind, that it never passes a symbolic link,
  and which nodes \<open>is_safe_for_secrets\<close> accepts.
\<close>

section \<open>The file system\<close>

text \<open>A symbolic link dangles or leads to a directory or to something else.\<close>

datatype link_target = Dangling | ToDir | ToOther

datatype node =
    Dir nat
  | File nat bytes
  | Link link_target

type_synonym path = "str list"

record file_system =
  fs_node :: "path \<rightharpoonup> node"
  fs_umask :: nat
  fs_open_ok :: "path \<Rightarrow> bool"

fun node_mode :: "node \<Rightarrow> nat" where
  "node_mode (Dir m) = m"
| "node_mode (File m _) = m"
| "node_mode (Link _) = 511"

definition is_link :: "file_system \<Rightarrow> path \<Rightarrow> bool" where
  "is_link fs p \<longleftrightarrow> (case fs_node fs p of Some (Link _) \<Rightarrow> True | _ \<Rightarrow> False)"

definition path_exists :: "file_system \<Rightarrow> path \<Rightarrow> bool" where
  "path_exists fs p \<longleftrightarrow> (case fs_node fs p of None \<Rightarrow> False | Some (Link t) \<Rightarrow> t \<noteq> Dangling | Some _ \<Rightarrow> True)"

definition path_is_dir :: "file_system \<Rightarrow> path \<Rightarrow> bool" where
  "path_is_dir fs p \<longleftrightarrow> (case fs_node fs p of Some (Link t) \<Rightarrow> t = ToDir | Some (Dir _) \<Rightarrow> True | _ \<Rightarrow> False)"

definition put_node :: "path \<Rightarrow> node \<Rightarrow> file_system \<Rightarrow> file_system" where
  "put_node p n fs = fs\<lparr>fs_node := (fs_node fs)(p \<mapsto> n)\<rparr>"

text \<open>\<open>mode & ~umask\<close>.\<close>

definition masked :: "nat \<Rightarrow> nat \<Rightarrow> nat" where
  "masked mode umask = mode XOR (mode AND umask)"

definition os_mkdir :: "path \<Rightarrow> nat \<Rightarrow> (file_system, unit) prog" where
  "os_mkdir p mode = (\<lambda>fs.
     if fs_node fs p \<noteq> None then (Inl FileExistsError, fs)
     else if \<not> path_is_dir fs (butlast p) then (Inl FileNotFoundError, fs)
     else (Inr (), put_node p (Dir (masked mode (fs_umask fs))) fs))"

section \<open>Permissions\<close>

definition S_IWOTH :: nat where "S_IWOTH = 2"
definition S_IWGRP :: nat where "S_IWGRP = 16"
definition S_IROTH :: nat where "S_IROTH = 4"
definition S_IRGRP :: nat where "S_IRGRP = 32"

lemmas mode_bits = S_IWOTH_def S_IWGRP_def S_IROTH_def S_IRGRP_def

text \<open>\<open>0o700\<close> and \<open>0o600\<close>.\<close>

definition DIR_MODE :: nat where "DIR_MODE = 448"
definition FILE_MODE :: nat where "FILE_MODE = 384"

definition reject_symlink :: "path \<Rightarrow> (file_system, unit) prog" where
  "reject_symlink p = (\<lambda>fs. (if is_link fs p then Inl RuntimeError else Inr (), fs))"

definition fchmod_nofollow :: "path \<Rightarrow> nat \<Rightarrow> (file_system, unit) prog" where
  "fchmod_nofollow p mode = (\<lambda>fs.
     if \<not> fs_open_ok fs p then (Inl RuntimeError, fs)
     else (case fs_node fs p of
        Some (Dir _) \<Rightarrow> (Inr (), put_node p (Dir mode) fs)
      | Some (File _ b) \<Rightarrow> (Inr (), put_node p (File mode b) fs)
      | _ \<Rightarrow> (Inl RuntimeError, fs)))"

text \<open>The \<open>while not current.exists()\<close> loop: the missing directories, deepest first.\<close>

function missing_dirs :: "file_system \<Rightarrow> path \<Rightarrow> path list res" where
  "missing_dirs fs current =
     (if path_exists fs current then Inr []
      else if current = [] then Inr [current]
      else if is_link fs (butlast current) then Inl RuntimeError
      else bindE (missing_dirs fs (butlast current)) (\<lambda>ds. Inr (current # ds)))"
  by pat_completeness auto
termination by (relation "measure (\<lambda>(fs, p). length p)") auto

declare missing_dirs.simps [simp del]

definition make_missing :: "nat \<Rightarrow> path \<Rightarrow> (file_system, unit) prog" where
  "make_missing mode d =
     thenP (reject_symlink d)
       (catchP (os_mkdir d mode) (\<lambda>e.
          if e \<noteq> FileExistsError then raiseP e
          else thenP (reject_symlink d)
            (bindP (getP (\<lambda>fs. path_is_dir fs d)) (\<lambda>dir. if dir then retP () else raiseP FileExistsError))))"

definition finish_dir :: "path \<Rightarrow> nat \<Rightarrow> (file_system, unit) prog" where
  "finish_dir p mode =
     bindP (getP (\<lambda>fs. path_exists fs p \<and> \<not> path_is_dir fs p)) (\<lambda>other.
     if other then raiseP NotADirectoryError else fchmod_nofollow p mode)"

definition ensure_dir :: "path \<Rightarrow> nat \<Rightarrow> (file_system, unit) prog" where
  "ensure_dir p mode =
     thenP (reject_symlink p)
     (bindP (\<lambda>fs. (missing_dirs fs p, fs)) (\<lambda>missing.
      thenP (mapP (make_missing mode) (rev missing)) (finish_dir p mode)))"

definition ensure_file_mode :: "path \<Rightarrow> nat \<Rightarrow> (file_system, unit) prog" where
  "ensure_file_mode p mode =
     bindP (getP (\<lambda>fs. path_exists fs p)) (\<lambda>ex.
     if ex then fchmod_nofollow p mode else raiseP FileNotFoundError)"

text \<open>The nodes below a directory, in whatever order \<open>rglob\<close> lists them.\<close>

definition reject_symlink_tree :: "path list \<Rightarrow> path \<Rightarrow> (file_system, unit) prog" where
  "reject_symlink_tree children p =
     thenP (reject_symlink p)
     (bindP (getP (\<lambda>fs. path_exists fs p)) (\<lambda>ex.
      if ex then bindP (mapP reject_symlink children) (\<lambda>_. retP ()) else retP ()))"

datatype permission_status =
    STATUS_OK
  | SYMLINK
  | GROUP_READABLE
  | WORLD_READABLE
  | GROUP_WRITABLE
  | WORLD_WRITABLE
  | NOT_FOUND

fun permission_value :: "permission_status \<Rightarrow> str" where
  "permission_value STATUS_OK = ''ok''"
| "permission_value SYMLINK = ''symlink''"
| "permission_value GROUP_READABLE = ''group_readable''"
| "permission_value WORLD_READABLE = ''world_readable''"
| "permission_value GROUP_WRITABLE = ''group_writable''"
| "permission_value WORLD_WRITABLE = ''world_writable''"
| "permission_value NOT_FOUND = ''not_found''"

record permission_report =
  pr_status :: permission_status
  pr_mode :: nat

definition permission_report_of :: "file_system \<Rightarrow> path \<Rightarrow> permission_report" where
  "permission_report_of fs p = (case fs_node fs p of
       None \<Rightarrow> \<lparr>pr_status = NOT_FOUND, pr_mode = 0\<rparr>
     | Some (Link _) \<Rightarrow> \<lparr>pr_status = SYMLINK, pr_mode = 0\<rparr>
     | Some n \<Rightarrow>
         let mode = node_mode n in
         \<lparr>pr_status =
            (if mode AND S_IWOTH \<noteq> 0 then WORLD_WRITABLE
             else if mode AND S_IWGRP \<noteq> 0 then GROUP_WRITABLE
             else if mode AND S_IROTH \<noteq> 0 then WORLD_READABLE
             else if mode AND S_IRGRP \<noteq> 0 then GROUP_READABLE
             else STATUS_OK),
          pr_mode = mode\<rparr>)"

definition is_safe_for_secrets :: "file_system \<Rightarrow> path \<Rightarrow> bool" where
  "is_safe_for_secrets fs p \<longleftrightarrow> pr_status (permission_report_of fs p) = STATUS_OK"

section \<open>What the operations keep\<close>

lemma preserves_mapP_set:
  "(\<And>x. x \<in> set xs \<Longrightarrow> preserves P (f x)) \<Longrightarrow> preserves P (mapP f xs)"
  by (induction xs) (auto intro!: preserves_intros)

lemma preserves_reject [preserves_intros]: "preserves P (reject_symlink p)"
  by (simp add: preserves_def reject_symlink_def)

lemma missing_dirs_prefix: "missing_dirs fs p = Inr ds \<Longrightarrow> d \<in> set ds \<Longrightarrow> prefix d p"
proof (induction fs p arbitrary: ds rule: missing_dirs.induct)
  case (1 fs current)
  show ?case
  proof (cases "d = current")
    case False
    then obtain es where "missing_dirs fs (butlast current) = Inr es" "d \<in> set es" "\<not> path_exists fs current"
        "current \<noteq> []" "\<not> is_link fs (butlast current)"
      using 1(2,3) by (subst (asm) missing_dirs.simps) (auto split: if_splits)
    then have "prefix d (butlast current)" using 1(1) by blast
    then show ?thesis using prefix_order.trans prefixeq_butlast by blast
  qed simp
qed

text \<open>
  Relative to a first state: apart from \<open>p\<close> only directories on the way to \<open>p\<close> are new, each
  with the mode it was asked for.
\<close>

definition only_new_dirs :: "path \<Rightarrow> nat \<Rightarrow> file_system \<Rightarrow> file_system \<Rightarrow> bool" where
  "only_new_dirs p mode fs0 fs \<longleftrightarrow> fs_umask fs = fs_umask fs0 \<and> fs_open_ok fs = fs_open_ok fs0 \<and>
     (\<forall>q. q \<noteq> p \<longrightarrow> fs_node fs q = fs_node fs0 q \<or>
        (fs_node fs0 q = None \<and> prefix q p \<and> fs_node fs q = Some (Dir (masked mode (fs_umask fs0))))) \<and>
     (is_link fs0 p \<longrightarrow> fs_node fs p = fs_node fs0 p)"

lemma only_new_dirs_refl [simp]: "only_new_dirs p mode fs fs"
  by (simp add: only_new_dirs_def)

lemma mkdir_keeps:
  assumes "prefix d p"
  shows "preserves (only_new_dirs p mode fs0) (os_mkdir d mode)"
proof -
  have "only_new_dirs p mode fs0 (put_node d (Dir (masked mode (fs_umask fs))) fs)"
    if "only_new_dirs p mode fs0 fs" "fs_node fs d = None" for fs
  proof -
    have "d \<noteq> p \<Longrightarrow> fs_node fs0 d = None" using that by (auto simp: only_new_dirs_def)
    moreover have "is_link fs0 p \<Longrightarrow> d \<noteq> p"
      using that by (auto simp: only_new_dirs_def is_link_def)
    ultimately show ?thesis using that(1) assms by (auto simp: only_new_dirs_def put_node_def)
  qed
  then show ?thesis by (auto simp: preserves_def os_mkdir_def)
qed

lemma make_missing_keeps: "prefix d p \<Longrightarrow> preserves (only_new_dirs p mode fs0) (make_missing mode d)"
  unfolding make_missing_def by (intro preserves_intros mkdir_keeps)

lemma fchmod_keeps: "preserves (only_new_dirs p mode fs0) (fchmod_nofollow p mode')"
  by (auto simp: preserves_def fchmod_nofollow_def only_new_dirs_def put_node_def is_link_def
      split: option.splits node.splits)

lemma ensure_dir_keeps: "only_new_dirs p mode fs (snd (ensure_dir p mode fs))"
proof (cases "is_link fs p")
  case True
  then show ?thesis by (simp add: ensure_dir_def thenP_def bindP_def reject_symlink_def)
next
  case link: False
  show ?thesis
  proof (cases "missing_dirs fs p")
    case (Inl e)
    with link show ?thesis by (simp add: ensure_dir_def thenP_def bindP_def reject_symlink_def)
  next
    case (Inr missing)
    have "preserves (only_new_dirs p mode fs) (thenP (mapP (make_missing mode) (rev missing)) (finish_dir p mode))"
      unfolding finish_dir_def using missing_dirs_prefix [OF Inr]
      by (intro preserves_intros preserves_mapP_set make_missing_keeps fchmod_keeps) auto
    then have "only_new_dirs p mode fs (snd (thenP (mapP (make_missing mode) (rev missing)) (finish_dir p mode) fs))"
      unfolding preserves_def using only_new_dirs_refl by blast
    moreover have "ensure_dir p mode fs = thenP (mapP (make_missing mode) (rev missing)) (finish_dir p mode) fs"
      unfolding ensure_dir_def
      by (subst thenP_run(2) [of _ _ "()" fs]) (use link Inr in \<open>simp_all add: reject_symlink_def bindP_def\<close>)
    ultimately show ?thesis by simp
  qed
qed

lemma finish_dir_made: "finish_dir p mode fs = (Inr (), fs') \<Longrightarrow> fs_node fs' p = Some (Dir mode)"
  by (auto simp: finish_dir_def fchmod_nofollow_def path_exists_def path_is_dir_def put_node_def
      split: option.splits node.splits if_splits)

lemma ensure_dir_made: "ensure_dir p mode fs = (Inr (), fs') \<Longrightarrow> fs_node fs' p = Some (Dir mode)"
  unfolding ensure_dir_def thenP_eq_Inr bindP_eq_Inr using finish_dir_made by blast

lemma and_or_zero: "(m :: nat) AND (a OR b) = 0 \<longleftrightarrow> m AND a = 0 \<and> m AND b = 0"
proof -
  have "m AND (a OR b) = (m AND a) OR (m AND b)" by (rule bit_eqI) (auto simp: bit_simps)
  then show ?thesis by (simp add: or_eq_0_iff)
qed

lemma and_zero_bits: "(mode :: nat) AND 54 = 0 \<longleftrightarrow>
    mode AND S_IWOTH = 0 \<and> mode AND S_IWGRP = 0 \<and> mode AND S_IROTH = 0 \<and> mode AND S_IRGRP = 0"
proof -
  have "(54 :: nat) = S_IWOTH OR (S_IWGRP OR (S_IROTH OR S_IRGRP))" by (simp add: mode_bits)
  then show ?thesis by (simp only: and_or_zero)
qed

lemma is_safe_iff: "is_safe_for_secrets fs p \<longleftrightarrow>
    (\<exists>n. fs_node fs p = Some n \<and> \<not> is_link fs p \<and> node_mode n AND 54 = 0)"
  by (auto simp: is_safe_for_secrets_def permission_report_of_def is_link_def and_zero_bits Let_def
      split: option.splits node.splits if_splits)

lemma masked_zero: "mode AND k = 0 \<Longrightarrow> masked mode umask AND k = 0" for mode k :: nat
proof -
  assume "mode AND k = 0"
  then have "\<not> (bit mode n \<and> bit k n)" for n by (metis bit_and_iff bit_0_eq bot_apply bot_bool_def)
  then show ?thesis by (intro bit_eqI) (auto simp: masked_def bit_simps)
qed

section \<open>Properties\<close>

text \<open>
  \<open>ensure_dir\<close> with a private mode makes a private directory and nothing else: when it
  returns, the path is a directory that \<open>is_safe_for_secrets\<close> accepts, and whether it returns or
  raises, every other path is as it was or is a new private directory on the way, and no
  symbolic link has been changed.
\<close>

theorem ensure_dir_private:
  assumes "mode AND 54 = 0" and "ensure_dir p mode fs = (r, fs')"
  shows "(r = Inr () \<longrightarrow> fs_node fs' p = Some (Dir mode) \<and> is_safe_for_secrets fs' p) \<and>
    (\<forall>q. q \<noteq> p \<longrightarrow> fs_node fs' q = fs_node fs q \<or>
       (fs_node fs q = None \<and> prefix q p \<and> path_is_dir fs' q \<and> is_safe_for_secrets fs' q)) \<and>
    (is_link fs p \<longrightarrow> r = Inl RuntimeError \<and> fs_node fs' p = fs_node fs p)"
proof (intro conjI impI allI)
  show "fs_node fs' p = Some (Dir mode)" if "r = Inr ()" using ensure_dir_made assms(2) that by blast
  then show "is_safe_for_secrets fs' p" if "r = Inr ()" using assms(1) that by (simp add: is_safe_iff is_link_def)
  have k: "only_new_dirs p mode fs fs'" using ensure_dir_keeps [of p mode fs] assms(2) by simp
  show "fs_node fs' q = fs_node fs q \<or> (fs_node fs q = None \<and> prefix q p \<and> path_is_dir fs' q \<and> is_safe_for_secrets fs' q)"
    if "q \<noteq> p" for q
    using k that masked_zero [OF assms(1)]
    by (auto simp: only_new_dirs_def is_safe_iff is_link_def path_is_dir_def)
  assume l: "is_link fs p"
  then show "fs_node fs' p = fs_node fs p" using k by (simp add: only_new_dirs_def)
  show "r = Inl RuntimeError"
    using assms(2) l by (simp add: ensure_dir_def thenP_def bindP_def reject_symlink_def)
qed

definition demo_fs :: file_system where
  "demo_fs = \<lparr>fs_node = [[] \<mapsto> Dir 493, [''home''] \<mapsto> Dir 493], fs_umask = 18, fs_open_ok = (\<lambda>_. True)\<rparr>"

theorem ensure_dir_private_witness:
  "\<exists>fs'. ensure_dir [''home'', ''a'', ''b''] DIR_MODE demo_fs = (Inr (), fs') \<and>
     is_safe_for_secrets fs' [''home'', ''a'', ''b'']"
proof -
  have "missing_dirs demo_fs [''home'', ''a'', ''b''] = Inr [[''home'', ''a'', ''b''], [''home'', ''a'']]"
    by (simp add: missing_dirs.simps demo_fs_def path_exists_def is_link_def)
  then have "\<exists>fs'. ensure_dir [''home'', ''a'', ''b''] DIR_MODE demo_fs = (Inr (), fs')"
    by (simp add: ensure_dir_def thenP_def bindP_def reject_symlink_def make_missing_def catchP_def os_mkdir_def
        finish_dir_def demo_fs_def is_link_def path_is_dir_def path_exists_def put_node_def fchmod_nofollow_def)
  then obtain fs' where r: "ensure_dir [''home'', ''a'', ''b''] DIR_MODE demo_fs = (Inr (), fs')" ..
  have "DIR_MODE AND 54 = 0" by (simp add: DIR_MODE_def)
  from ensure_dir_private [OF this r] r show ?thesis by blast
qed

end
