(* ===== verification/File_Lock.thy ===== *)
theory File_Lock
  imports Prelude
begin

text \<open>
  \<open>storage/file_lock.py\<close> on POSIX: any number of processes that run \<open>acquire\<close>,
  \<open>_acquire_posix\<close> and \<open>release\<close> on one lock path, interleaved between any two of their
  system calls. A file is its inode; \<open>flock\<close> locks belong to the open descriptor. The lemmas
  give exclusion per file, exclusion as long as no lock file is removed, and a run in which the
  removal in \<open>release\<close> lets two processes hold the exclusive lock at once.
\<close>

section \<open>Processes\<close>

type_synonym pid = nat
type_synonym ino = nat

text \<open>
  Where a process is: outside; about to (re)open; with an open descriptor; with a \<open>flock\<close>
  whose inode it has not compared yet; with the lock; in \<open>release\<close> after \<open>LOCK_UN\<close>; and
  after its descriptor is closed.
\<close>

datatype lock_pc =
    Outside
  | Opening
  | Opened ino
  | Flocked ino
  | Held ino
  | Unlocked ino
  | Closed

record lock_state =
  ls_path :: "ino option"
  ls_fresh :: ino
  ls_pc :: "pid \<Rightarrow> lock_pc"

definition lock_start :: lock_state where
  "lock_start = \<lparr>ls_path = None, ls_fresh = 0, ls_pc = (\<lambda>_. Outside)\<rparr>"

fun flock_of :: "lock_pc \<Rightarrow> ino option" where
  "flock_of (Flocked i) = Some i"
| "flock_of (Held i) = Some i"
| "flock_of pc = None"

text \<open>The kernel grants \<open>LOCK_EX\<close> beside no other lock, \<open>LOCK_SH\<close> beside shared ones.\<close>

definition flock_granted :: "(pid \<Rightarrow> bool) \<Rightarrow> pid list \<Rightarrow> lock_state \<Rightarrow> pid \<Rightarrow> ino \<Rightarrow> bool" where
  "flock_granted exclusive procs s p i \<longleftrightarrow>
     list_all (\<lambda>q. q = p \<or> flock_of (ls_pc s q) \<noteq> Some i \<or> (\<not> exclusive p \<and> \<not> exclusive q)) procs"

datatype lock_action =
    Enter
  | OpenFile
  | OpenFails
  | Flock
  | TimeOut
  | Compare
  | Unlock
  | CloseFd
  | Unlink
  | Die

definition at :: "lock_state \<Rightarrow> pid \<Rightarrow> lock_pc \<Rightarrow> lock_state" where
  "at s p pc = s\<lparr>ls_pc := (ls_pc s)(p := pc)\<rparr>"

text \<open>
  One system call of one process, \<open>None\<close> where it is not the next one. A \<open>flock\<close> that is
  not granted leaves the process polling until it times out; a process may die anywhere, which
  closes its descriptor and removes nothing.
\<close>

definition lock_next :: "(pid \<Rightarrow> bool) \<Rightarrow> pid list \<Rightarrow> lock_state \<Rightarrow> pid \<Rightarrow> lock_action \<Rightarrow> lock_state option" where
  "lock_next exclusive procs s p a =
     (if p \<notin> set procs then None else
      case (a, ls_pc s p) of
       (Enter, Outside) \<Rightarrow> Some (at s p Opening)
     | (OpenFile, Opening) \<Rightarrow>
         (case ls_path s of
            Some i \<Rightarrow> Some (at s p (Opened i))
          | None \<Rightarrow> Some (at (s\<lparr>ls_path := Some (ls_fresh s), ls_fresh := ls_fresh s + 1\<rparr>) p (Opened (ls_fresh s))))
     | (OpenFails, Opening) \<Rightarrow> Some (at s p Outside)
     | (Flock, Opened i) \<Rightarrow> if flock_granted exclusive procs s p i then Some (at s p (Flocked i)) else Some s
     | (TimeOut, Opened i) \<Rightarrow>
         if flock_granted exclusive procs s p i then None else Some (at s p Outside)
     | (Compare, Flocked i) \<Rightarrow> Some (at s p (if ls_path s = Some i then Held i else Opening))
     | (Unlock, Held i) \<Rightarrow> Some (at s p (Unlocked i))
     | (CloseFd, Unlocked i) \<Rightarrow> Some (at s p Closed)
     | (Unlink, Closed) \<Rightarrow> Some (at (s\<lparr>ls_path := None\<rparr>) p Outside)
     | (Die, _) \<Rightarrow> Some (at s p Outside)
     | _ \<Rightarrow> None)"

text \<open>A run: the trace of who did what, latest first, and the state it ends in.\<close>

inductive lock_run :: "(pid \<Rightarrow> bool) \<Rightarrow> pid list \<Rightarrow> (pid \<times> lock_action) list \<Rightarrow> lock_state \<Rightarrow> bool"
  for exclusive procs where
  run_start: "lock_run exclusive procs [] lock_start"
| run_step: "lock_run exclusive procs tr s \<Longrightarrow> lock_next exclusive procs s p a = Some t \<Longrightarrow>
    lock_run exclusive procs ((p, a) # tr) t"

inductive_cases lock_runE: "lock_run exclusive procs tr s"
inductive_simps lock_run_Cons: "lock_run exclusive procs (pa # tr) s"
inductive_simps lock_run_Nil: "lock_run exclusive procs [] s"

definition holds_lock :: "lock_state \<Rightarrow> pid \<Rightarrow> bool" where
  "holds_lock s p \<longleftrightarrow> (case ls_pc s p of Held _ \<Rightarrow> True | _ \<Rightarrow> False)"

section \<open>Exclusion per file\<close>

fun pc_ino :: "lock_pc \<Rightarrow> ino option" where
  "pc_ino (Opened i) = Some i"
| "pc_ino (Flocked i) = Some i"
| "pc_ino (Held i) = Some i"
| "pc_ino (Unlocked i) = Some i"
| "pc_ino pc = None"

definition lock_inv :: "(pid \<Rightarrow> bool) \<Rightarrow> pid list \<Rightarrow> lock_state \<Rightarrow> bool" where
  "lock_inv exclusive procs s \<longleftrightarrow>
     (\<forall>p q i. p \<noteq> q \<and> flock_of (ls_pc s p) = Some i \<and> flock_of (ls_pc s q) = Some i \<longrightarrow>
        \<not> exclusive p \<and> \<not> exclusive q) \<and>
     (\<forall>p. p \<notin> set procs \<longrightarrow> ls_pc s p = Outside) \<and>
     (\<forall>i. ls_path s = Some i \<longrightarrow> i < ls_fresh s) \<and>
     (\<forall>p i. pc_ino (ls_pc s p) = Some i \<longrightarrow> i < ls_fresh s)"

lemma flock_pc_ino: "flock_of pc = Some i \<Longrightarrow> pc_ino pc = Some i"
  by (cases pc) simp_all

text \<open>The steps, each with what it needs and what it changes.\<close>

lemma lock_next_cases:
  assumes "lock_next exclusive procs s p a = Some t"
  obtains (quiet) pc where "p \<in> set procs" "t = at s p pc" "flock_of pc = None" "pc_ino pc = None" "a \<noteq> Unlink"
  | (found) i where "p \<in> set procs" "t = at s p (Opened i)" "ls_path s = Some i" "a \<noteq> Unlink"
  | (created) "p \<in> set procs" "ls_path s = None" "a \<noteq> Unlink"
      "t = at (s\<lparr>ls_path := Some (ls_fresh s), ls_fresh := ls_fresh s + 1\<rparr>) p (Opened (ls_fresh s))"
  | (granted) i where "p \<in> set procs" "ls_pc s p = Opened i" "flock_granted exclusive procs s p i" "t = at s p (Flocked i)" "a \<noteq> Unlink"
  | (polled) "t = s" "a \<noteq> Unlink"
  | (compared) i where "p \<in> set procs" "ls_pc s p = Flocked i" "ls_path s = Some i" "t = at s p (Held i)" "a \<noteq> Unlink"
  | (unlocked) i where "p \<in> set procs" "ls_pc s p = Held i" "t = at s p (Unlocked i)" "a \<noteq> Unlink"
  | (unlinked) "p \<in> set procs" "ls_pc s p = Closed" "t = at (s\<lparr>ls_path := None\<rparr>) p Outside" "a = Unlink"
proof -
  have p: "p \<in> set procs" using assms by (auto simp: lock_next_def split: if_splits)
  show thesis
  proof (cases a)
    case Enter
    then show thesis using assms p by (cases "ls_pc s p") (auto simp: lock_next_def intro!: quiet)
  next
    case OpenFile
    then show thesis using assms p
      by (cases "ls_pc s p"; cases "ls_path s") (auto simp: lock_next_def created intro: found [OF _ sym])
  next
    case OpenFails
    then show thesis using assms p by (cases "ls_pc s p") (auto simp: lock_next_def intro!: quiet)
  next
    case Flock
    then show thesis using assms p
      by (cases "ls_pc s p") (auto simp: lock_next_def split: if_splits intro: granted polled)
  next
    case TimeOut
    then show thesis using assms p by (cases "ls_pc s p") (auto simp: lock_next_def split: if_splits intro!: quiet)
  next
    case Compare
    then show thesis using assms p
      by (cases "ls_pc s p") (auto simp: lock_next_def split: if_splits intro: quiet compared)
  next
    case Unlock
    then show thesis using assms p by (cases "ls_pc s p") (auto simp: lock_next_def intro!: unlocked)
  next
    case CloseFd
    then show thesis using assms p by (cases "ls_pc s p") (auto simp: lock_next_def intro!: quiet)
  next
    case Unlink
    then show thesis using assms p by (cases "ls_pc s p") (auto simp: lock_next_def intro!: unlinked)
  next
    case Die
    then show thesis using assms p by (cases "ls_pc s p") (auto simp: lock_next_def intro!: quiet)
  qed
qed

lemma at_simps [simp]:
  "ls_path (at s p pc) = ls_path s" "ls_fresh (at s p pc) = ls_fresh s" "ls_pc (at s p pc) = (ls_pc s)(p := pc)"
  by (simp_all add: at_def)

lemma lock_inv_at:
  assumes "lock_inv exclusive procs s" "p \<in> set procs" "\<And>i. pc_ino pc = Some i \<Longrightarrow> i < ls_fresh s"
    "\<And>i q. flock_of pc = Some i \<Longrightarrow> q \<noteq> p \<Longrightarrow> flock_of (ls_pc s q) = Some i \<Longrightarrow> \<not> exclusive p \<and> \<not> exclusive q"
  shows "lock_inv exclusive procs (at s p pc)"
  using assms unfolding lock_inv_def by (simp add: fun_upd_apply) metis

lemma lock_inv_step:
  assumes inv: "lock_inv exclusive procs s" and step: "lock_next exclusive procs s p a = Some t"
  shows "lock_inv exclusive procs t"
  using step
proof (cases rule: lock_next_cases)
  case (quiet pc)
  then show ?thesis using lock_inv_at [OF inv, of p pc] by simp
next
  case (found i)
  then show ?thesis using lock_inv_at [OF inv, of p "Opened i"] inv by (simp add: lock_inv_def)
next
  case created
  have "lock_inv exclusive procs (s\<lparr>ls_path := Some (ls_fresh s), ls_fresh := ls_fresh s + 1\<rparr>)"
    using inv by (auto simp: lock_inv_def less_Suc_eq)
  then show ?thesis using lock_inv_at [of exclusive procs _ p "Opened (ls_fresh s)"] created by simp
next
  case (granted i)
  have "\<not> exclusive p \<and> \<not> exclusive q" if "q \<noteq> p" "flock_of (ls_pc s q) = Some i" for q
  proof -
    have "q \<in> set procs" using that(2) inv by (fastforce simp: lock_inv_def)
    then show ?thesis using granted(3) that by (auto simp: flock_granted_def list_all_iff)
  qed
  moreover have "i < ls_fresh s" using granted(2) inv by (metis lock_inv_def pc_ino.simps(1))
  ultimately show ?thesis using lock_inv_at [OF inv granted(1), of "Flocked i"] granted(4) by simp
next
  case polled
  then show ?thesis using inv by simp
next
  case (compared i)
  moreover have "i < ls_fresh s" using compared(3) inv by (simp add: lock_inv_def)
  moreover have "\<not> exclusive p \<and> \<not> exclusive q" if "q \<noteq> p" "flock_of (ls_pc s q) = Some i" for q
    using inv that compared(2) unfolding lock_inv_def by (metis flock_of.simps(1))
  ultimately show ?thesis using lock_inv_at [OF inv compared(1), of "Held i"] by simp
next
  case (unlocked i)
  moreover have "i < ls_fresh s" using unlocked(2) inv by (metis lock_inv_def pc_ino.simps(3))
  ultimately show ?thesis using lock_inv_at [OF inv unlocked(1), of "Unlocked i"] by simp
next
  case unlinked
  have "lock_inv exclusive procs (s\<lparr>ls_path := None\<rparr>)" using inv by (simp add: lock_inv_def)
  then show ?thesis using lock_inv_at [of exclusive procs _ p Outside] unlinked by simp
qed

lemma lock_run_inv: "lock_run exclusive procs tr s \<Longrightarrow> lock_inv exclusive procs s"
  by (induction rule: lock_run.induct) (simp add: lock_inv_def lock_start_def, rule lock_inv_step)

section \<open>Exclusion while no lock file is removed\<close>

definition pinned :: "lock_state \<Rightarrow> bool" where
  "pinned s \<longleftrightarrow> (\<forall>p i. ls_pc s p = Held i \<longrightarrow> ls_path s = Some i)"

lemma pinned_run: "lock_run exclusive procs tr s \<Longrightarrow> Unlink \<notin> snd ` set tr \<Longrightarrow> pinned s"
proof (induction rule: lock_run.induct)
  case run_start
  then show ?case by (simp add: pinned_def lock_start_def)
next
  case (run_step tr s p a t)
  then have s: "pinned s" by simp
  from run_step.hyps(2) show ?case
  proof (cases rule: lock_next_cases)
    case unlinked
    then show ?thesis using run_step.prems by simp
  next
    case (quiet pc)
    then show ?thesis using s by (cases pc) (auto simp: pinned_def split: if_splits)
  next
    case (unlocked i)
    then show ?thesis using s by (simp add: pinned_def) (metis option.inject)
  next
    case (granted i)
    then show ?thesis using s by (simp add: pinned_def)
  qed (use s in \<open>auto simp: pinned_def split: if_splits\<close>)
qed

section \<open>Running a trace\<close>

fun run_trace :: "(pid \<Rightarrow> bool) \<Rightarrow> pid list \<Rightarrow> (pid \<times> lock_action) list \<Rightarrow> lock_state \<Rightarrow> lock_state option" where
  "run_trace exclusive procs [] s = Some s"
| "run_trace exclusive procs ((p, a) # tr) s =
     (case lock_next exclusive procs s p a of None \<Rightarrow> None | Some t \<Rightarrow> run_trace exclusive procs tr t)"

lemma run_trace_run:
  "lock_run exclusive procs past s \<Longrightarrow> run_trace exclusive procs tr s = Some t \<Longrightarrow>
   lock_run exclusive procs (rev tr @ past) t"
proof (induction tr arbitrary: past s)
  case (Cons pa tr)
  obtain p a where pa: "pa = (p, a)" by (cases pa)
  then obtain u where u: "lock_next exclusive procs s p a = Some u" "run_trace exclusive procs tr u = Some t"
    using Cons.prems by (auto split: option.splits)
  then show ?case using Cons.IH [OF lock_run.run_step [OF Cons.prems(1) u(1)]] by (simp add: pa)
qed simp

text \<open>
  Process 1 holds the lock and process 2 polls. Process 1 unlocks; process 2 gets the \<open>flock\<close>
  and finds the inode still at the path; process 1 removes the file and comes back.
\<close>

definition double_holder :: "(pid \<times> lock_action) list" where
  "double_holder =
     [(1, Enter), (1, OpenFile), (1, Flock), (1, Compare), (2, Enter), (2, OpenFile), (2, Flock),
      (1, Unlock), (2, Flock), (2, Compare), (1, CloseFd), (1, Unlink),
      (1, Enter), (1, OpenFile), (1, Flock), (1, Compare)]"

lemma double_holder_run:
  "run_trace (\<lambda>_. True) [1, 2] double_holder lock_start =
     Some \<lparr>ls_path = Some 1, ls_fresh = 2, ls_pc = (\<lambda>_. Outside)(1 := Held 1, 2 := Held 0)\<rparr>"
  by (simp add: double_holder_def lock_start_def lock_next_def at_def flock_granted_def) (auto simp: fun_eq_iff)

section \<open>Properties\<close>



text \<open>
  \<open>release\<close> unlocks before it removes the lock file, and so two processes can hold the
  exclusive lock at the same time: the one that got the unlocked file, whose inode was still at
  the path when it compared, and the one that made a new file after the removal.
\<close>

theorem lock_held_twice:
  "\<exists>tr s. lock_run (\<lambda>_. True) [1, 2] tr s \<and> holds_lock s 1 \<and> holds_lock s 2"
  using run_trace_run [OF lock_run.run_start double_holder_run] by (force simp: holds_lock_def)

end
