(* ===== verification/Atomic_Write.thy ===== *)
theory Atomic_Write
  imports Files
begin

text \<open>
  \<open>storage/atomic_write.py\<close>: \<open>AtomicWriter\<close> and \<open>atomic_write_bytes\<close> on a directory whose
  contents survive a crash only as far as they were synced. Every system call is a step that
  may fail, and the machine may crash between any two. The lemmas show that the target is at
  every moment, and after every crash, the old file or the complete new one.
\<close>

section \<open>A directory on a disk\<close>

text \<open>
  \<open>dk_dir\<close> maps the names of one directory to inodes and \<open>dk_data\<close> inodes to contents, as
  running processes see them. \<open>dk_dirs\<close> are the directory contents a crash may leave (those
  since the last sync of the directory), \<open>dk_synced\<close> the inodes whose contents are on disk.
\<close>

type_synonym inode = nat

record disk =
  dk_dir :: "str \<rightharpoonup> inode"
  dk_data :: "inode \<rightharpoonup> bytes"
  dk_mode :: "inode \<Rightarrow> nat"
  dk_fresh :: inode
  dk_dirs :: "(str \<rightharpoonup> inode) list"
  dk_synced :: "inode set"

definition set_dir :: "(str \<rightharpoonup> inode) \<Rightarrow> disk \<Rightarrow> disk" where
  "set_dir d s = s\<lparr>dk_dir := d, dk_dirs := d # dk_dirs s\<rparr>"

definition read_name :: "disk \<Rightarrow> str \<Rightarrow> bytes option" where
  "read_name s n = Option.bind (dk_dir s n) (dk_data s)"

text \<open>
  A directory and contents the disk may hold after a crash: contents that were not synced may
  be anything.
\<close>

definition after_crash :: "disk \<Rightarrow> (str \<rightharpoonup> inode) \<Rightarrow> (inode \<Rightarrow> bytes) \<Rightarrow> bool" where
  "after_crash s d f \<longleftrightarrow> d \<in> set (dk_dirs s) \<and> (\<forall>i \<in> dk_synced s. dk_data s i = Some (f i))"

definition disk_ok :: "disk \<Rightarrow> bool" where
  "disk_ok s \<longleftrightarrow> dk_dir s \<in> set (dk_dirs s) \<and>
     (\<forall>d \<in> set (dk_dirs s). \<forall>i \<in> ran d. i < dk_fresh s) \<and> (\<forall>i \<in> dk_synced s. dk_data s i \<noteq> None \<and> i < dk_fresh s)"

section \<open>The writer\<close>

text \<open>
  Where the writer is: before \<open>__enter__\<close>; with the temporary file open; in the \<open>with\<close> body;
  in \<open>__exit__\<close> (flushing, syncing, closing, with the exception so far); replacing; syncing the
  directory; in the clean-up; finished with its outcome.
\<close>

datatype writer_pc =
    Entering
  | Chmod inode
  | Body inode
  | Flushing inode "exn option"
  | Syncing inode
  | Closing inode "exn option"
  | Replacing inode
  | DirSync
  | Cleaning inode exn
  | Finished "exn option"

record writer =
  wr_disk :: disk
  wr_buffer :: bytes
  wr_pc :: writer_pc

text \<open>A call goes through, fails, or fails after some of its bytes.\<close>

datatype outcome = Success | Failure nat

definition tmp_path :: "str \<Rightarrow> str \<Rightarrow> str" where
  "tmp_path target token = ''.'' @ target @ ''.'' @ token @ ''.tmp''"

definition append_data :: "inode \<Rightarrow> bytes \<Rightarrow> disk \<Rightarrow> disk" where
  "append_data i b s = s\<lparr>dk_data := (dk_data s)(i := map_option (\<lambda>old. old @ b) (dk_data s i))\<rparr>"

definition unlink_name :: "str \<Rightarrow> disk \<Rightarrow> disk" where
  "unlink_name n s = set_dir ((dk_dir s)(n := None)) s"

text \<open>
  One step of \<open>with AtomicWriter(path, mode) as fh: fh.write(data)\<close>. \<open>fh.write\<close> only fills the
  buffer, here of any size: what a full buffer writes out early is a \<open>Failure k\<close> or \<open>Success\<close>
  of the flush all the same, since nothing is observed before the rename.
\<close>

definition writer_next :: "str \<Rightarrow> str \<Rightarrow> nat \<Rightarrow> bytes \<Rightarrow> writer \<Rightarrow> outcome \<Rightarrow> writer option" where
  "writer_next target token mode data w out =
     (let tmp = tmp_path target token; s = wr_disk w; to = (\<lambda>pc s. Some (w\<lparr>wr_disk := s, wr_pc := pc\<rparr>)) in
      case wr_pc w of
        Entering \<Rightarrow>
          (if dk_dir s tmp \<noteq> None then to (Finished (Some FileExistsError)) s
           else if out \<noteq> Success then to (Finished (Some OSError)) s
           else let i = dk_fresh s in
             to (Chmod i) (set_dir ((dk_dir s)(tmp \<mapsto> i))
               (s\<lparr>dk_fresh := i + 1, dk_data := (dk_data s)(i \<mapsto> []), dk_mode := (dk_mode s)(i := mode)\<rparr>)))
      | Chmod i \<Rightarrow> to (Body i) (if out = Success then s\<lparr>dk_mode := (dk_mode s)(i := mode)\<rparr> else s)
      | Body i \<Rightarrow>
          (case out of
             Success \<Rightarrow> Some (w\<lparr>wr_buffer := data, wr_pc := Flushing i None\<rparr>)
           | Failure k \<Rightarrow> Some (w\<lparr>wr_buffer := take k data, wr_pc := Flushing i (Some OSError)\<rparr>))
      | Flushing i e \<Rightarrow>
          (case out of
             Success \<Rightarrow> to (if e = None then Syncing i else Closing i e) (append_data i (wr_buffer w) s)
           | Failure k \<Rightarrow> to (Closing i (Some OSError)) (append_data i (take k (wr_buffer w)) s))
      | Syncing i \<Rightarrow>
          (if out = Success then to (Closing i None) (s\<lparr>dk_synced := insert i (dk_synced s)\<rparr>)
           else to (Closing i (Some OSError)) s)
      | Closing i e \<Rightarrow>
          (case (if out = Success then e else Some OSError) of
             None \<Rightarrow> to (Replacing i) s
           | Some x \<Rightarrow> to (Cleaning i x) s)
      | Replacing i \<Rightarrow>
          (if out = Success then to DirSync (set_dir ((dk_dir s)(target \<mapsto> i, tmp := None)) s)
           else to (Cleaning i OSError) s)
      | DirSync \<Rightarrow> to (Finished None) (if out = Success then s\<lparr>dk_dirs := [dk_dir s]\<rparr> else s)
      | Cleaning i e \<Rightarrow> to (Finished (Some e)) (if out = Success then unlink_name tmp s else s)
      | Finished e \<Rightarrow> None)"

inductive writer_run :: "str \<Rightarrow> str \<Rightarrow> nat \<Rightarrow> bytes \<Rightarrow> disk \<Rightarrow> writer \<Rightarrow> bool"
  for target token mode data s0 where
  writer_start: "writer_run target token mode data s0 \<lparr>wr_disk = s0, wr_buffer = [], wr_pc = Entering\<rparr>"
| writer_step: "writer_run target token mode data s0 w \<Longrightarrow>
    writer_next target token mode data w out = Some w' \<Longrightarrow> writer_run target token mode data s0 w'"

inductive_cases writer_runE: "writer_run target token mode data s0 w"

fun run_writer :: "str \<Rightarrow> str \<Rightarrow> nat \<Rightarrow> bytes \<Rightarrow> outcome list \<Rightarrow> writer \<Rightarrow> writer" where
  "run_writer target token mode data [] w = w"
| "run_writer target token mode data (out # outs) w =
     (case writer_next target token mode data w out of
        None \<Rightarrow> w
      | Some w' \<Rightarrow> run_writer target token mode data outs w')"

lemma run_writer_run:
  "writer_run target token mode data s0 w \<Longrightarrow>
   writer_run target token mode data s0 (run_writer target token mode data outs w)"
  by (induction outs arbitrary: w) (auto split: option.splits intro: writer_step)

text \<open>Steps still to come, at most.\<close>

fun steps_left :: "writer_pc \<Rightarrow> nat" where
  "steps_left Entering = 8"
| "steps_left (Chmod i) = 7"
| "steps_left (Body i) = 6"
| "steps_left (Flushing i e) = 5"
| "steps_left (Syncing i) = 4"
| "steps_left (Closing i e) = 3"
| "steps_left (Replacing i) = 2"
| "steps_left DirSync = 1"
| "steps_left (Cleaning i e) = 1"
| "steps_left (Finished e) = 0"

lemma writer_next_less:
  "writer_next target token mode data w out = Some w' \<Longrightarrow> steps_left (wr_pc w') < steps_left (wr_pc w)"
  by (cases "wr_pc w"; cases out) (auto simp: writer_next_def Let_def split: if_splits option.splits)

lemma writer_next_None: "writer_next target token mode data w out = None \<longleftrightarrow> (\<exists>e. wr_pc w = Finished e)"
  by (cases "wr_pc w"; cases out) (auto simp: writer_next_def Let_def split: option.splits)

lemma run_writer_finished:
  "steps_left (wr_pc w) \<le> length outs \<Longrightarrow> \<exists>e. wr_pc (run_writer target token mode data outs w) = Finished e"
proof (induction outs arbitrary: w)
  case Nil
  then show ?case by (cases "wr_pc w") simp_all
next
  case (Cons out outs)
  then show ?case
    using writer_next_less [of target token mode data w out] writer_next_None [of target token mode data w out]
    by (fastforce split: option.splits)
qed

section \<open>The invariant\<close>

text \<open>A disk at rest: the directory is on disk and so is the file at the target.\<close>

definition at_rest :: "str \<Rightarrow> disk \<Rightarrow> bool" where
  "at_rest target s \<longleftrightarrow> disk_ok s \<and> dk_dirs s = [dk_dir s] \<and>
     (\<forall>i. dk_dir s target = Some i \<longrightarrow> i \<in> dk_synced s)"

definition old_dirs :: "str \<Rightarrow> disk \<Rightarrow> disk \<Rightarrow> bool" where
  "old_dirs target s0 s \<longleftrightarrow> (\<forall>d \<in> insert (dk_dir s) (set (dk_dirs s)). d target = dk_dir s0 target)"

definition new_file :: "bytes \<Rightarrow> disk \<Rightarrow> disk \<Rightarrow> bool" where
  "new_file data s0 s \<longleftrightarrow> dk_fresh s0 \<in> dk_synced s \<and> dk_data s (dk_fresh s0) = Some data"

definition frame :: "str \<Rightarrow> str \<Rightarrow> disk \<Rightarrow> disk \<Rightarrow> bool" where
  "frame target token s0 s \<longleftrightarrow> (\<forall>j. j \<noteq> dk_fresh s0 \<longrightarrow> dk_data s j = dk_data s0 j \<and> dk_mode s j = dk_mode s0 j) \<and>
     dk_synced s0 \<subseteq> dk_synced s \<and>
     (\<forall>n. n \<noteq> target \<and> n \<noteq> tmp_path target token \<longrightarrow> dk_dir s n = dk_dir s0 n)"

fun pc_inv :: "str \<Rightarrow> str \<Rightarrow> nat \<Rightarrow> bytes \<Rightarrow> disk \<Rightarrow> disk \<Rightarrow> bytes \<Rightarrow> writer_pc \<Rightarrow> bool" where
  "pc_inv target token mode data s0 s b Entering \<longleftrightarrow> old_dirs target s0 s \<and> s = s0"
| "pc_inv target token mode data s0 s b (Chmod i) \<longleftrightarrow> old_dirs target s0 s \<and> i = dk_fresh s0 \<and>
     dk_data s i = Some [] \<and> dk_mode s i = mode"
| "pc_inv target token mode data s0 s b (Body i) \<longleftrightarrow> old_dirs target s0 s \<and> i = dk_fresh s0 \<and>
     dk_data s i = Some [] \<and> dk_mode s i = mode"
| "pc_inv target token mode data s0 s b (Flushing i e) \<longleftrightarrow> old_dirs target s0 s \<and> i = dk_fresh s0 \<and>
     dk_data s i = Some [] \<and> dk_mode s i = mode \<and> (e = None \<longrightarrow> b = data)"
| "pc_inv target token mode data s0 s b (Syncing i) \<longleftrightarrow> old_dirs target s0 s \<and> i = dk_fresh s0 \<and>
     dk_data s i = Some data \<and> dk_mode s i = mode"
| "pc_inv target token mode data s0 s b (Closing i e) \<longleftrightarrow> old_dirs target s0 s \<and> i = dk_fresh s0 \<and>
     (e = None \<longrightarrow> new_file data s0 s \<and> dk_mode s i = mode)"
| "pc_inv target token mode data s0 s b (Replacing i) \<longleftrightarrow> old_dirs target s0 s \<and> i = dk_fresh s0 \<and>
     new_file data s0 s \<and> dk_mode s i = mode"
| "pc_inv target token mode data s0 s b DirSync \<longleftrightarrow>
     (\<forall>d \<in> set (dk_dirs s). d target = dk_dir s0 target \<or> d target = Some (dk_fresh s0)) \<and>
     new_file data s0 s \<and> dk_dir s target = Some (dk_fresh s0) \<and> dk_dir s (tmp_path target token) = None \<and>
     dk_mode s (dk_fresh s0) = mode"
| "pc_inv target token mode data s0 s b (Cleaning i e) \<longleftrightarrow> old_dirs target s0 s"
| "pc_inv target token mode data s0 s b (Finished None) \<longleftrightarrow>
     (\<forall>d \<in> set (dk_dirs s). d target = dk_dir s0 target \<or> d target = Some (dk_fresh s0)) \<and>
     new_file data s0 s \<and> dk_dir s target = Some (dk_fresh s0) \<and> dk_dir s (tmp_path target token) = None \<and>
     dk_mode s (dk_fresh s0) = mode"
| "pc_inv target token mode data s0 s b (Finished (Some e)) \<longleftrightarrow> old_dirs target s0 s"

lemma tmp_path_other [simp]: "tmp_path target token \<noteq> target" "target \<noteq> tmp_path target token"
proof -
  have "length (tmp_path target token) \<noteq> length target" by (simp add: tmp_path_def)
  then show "tmp_path target token \<noteq> target" "target \<noteq> tmp_path target token" by metis+
qed

lemma disk_ops [simp]:
  "dk_dir (set_dir d s) = d" "dk_data (set_dir d s) = dk_data s" "dk_mode (set_dir d s) = dk_mode s"
  "dk_fresh (set_dir d s) = dk_fresh s" "dk_dirs (set_dir d s) = d # dk_dirs s" "dk_synced (set_dir d s) = dk_synced s"
  "dk_dir (append_data i b s) = dk_dir s" "dk_mode (append_data i b s) = dk_mode s"
  "dk_fresh (append_data i b s) = dk_fresh s" "dk_dirs (append_data i b s) = dk_dirs s"
  "dk_synced (append_data i b s) = dk_synced s"
  "dk_data (append_data i b s) j = (if j = i then map_option (\<lambda>old. old @ b) (dk_data s i) else dk_data s j)"
  by (simp_all add: set_dir_def append_data_def)

lemma writer_step_inv:
  assumes "pc_inv target token mode data s0 (wr_disk w) (wr_buffer w) (wr_pc w)" "frame target token s0 (wr_disk w)"
    and "writer_next target token mode data w out = Some w'"
  shows "pc_inv target token mode data s0 (wr_disk w') (wr_buffer w') (wr_pc w') \<and> frame target token s0 (wr_disk w')"
  using assms
  by (cases "wr_pc w"; cases out)
    (auto simp: writer_next_def Let_def frame_def old_dirs_def new_file_def unlink_name_def split: if_splits option.splits)

lemma writer_run_inv:
  assumes "writer_run target token mode data s0 w" "at_rest target s0"
  shows "pc_inv target token mode data s0 (wr_disk w) (wr_buffer w) (wr_pc w) \<and> frame target token s0 (wr_disk w)"
  using assms(1)
proof (induction rule: writer_run.induct)
  case writer_start
  then show ?case using assms(2) by (simp add: old_dirs_def frame_def at_rest_def)
next
  case (writer_step w out w')
  then show ?case using writer_step_inv by blast
qed

lemma target_choice:
  assumes "pc_inv target token mode data s0 s b pc" "d \<in> insert (dk_dir s) (set (dk_dirs s))" "at_rest target s0"
  shows "d target = dk_dir s0 target \<or> (d target = Some (dk_fresh s0) \<and> new_file data s0 s)"
proof -
  have old: "old_dirs target s0 s \<Longrightarrow> ?thesis" using assms(2) by (auto simp: old_dirs_def)
  have new: "\<forall>d \<in> set (dk_dirs s). d target = dk_dir s0 target \<or> d target = Some (dk_fresh s0) \<Longrightarrow>
      new_file data s0 s \<Longrightarrow> dk_dir s target = Some (dk_fresh s0) \<Longrightarrow> ?thesis"
    using assms(2) by blast
  show ?thesis
  proof (cases pc)
    case DirSync
    then show ?thesis using assms(1) new by simp
  next
    case (Finished e)
    then show ?thesis using assms(1) new old by (cases e) simp_all
  qed (use assms(1) old in \<open>force+\<close>)
qed

lemma old_inode:
  assumes "at_rest target s0" "frame target token s0 s" "dk_dir s0 target = Some i"
  shows "i \<in> dk_synced s" "dk_data s i = dk_data s0 i" "dk_data s0 i \<noteq> None"
proof -
  have i: "i \<in> dk_synced s0" "i < dk_fresh s0" "dk_data s0 i \<noteq> None"
    using assms(1,3) by (auto simp: at_rest_def disk_ok_def)
  then show "i \<in> dk_synced s" "dk_data s i = dk_data s0 i" "dk_data s0 i \<noteq> None"
    using assms(2) by (auto simp: frame_def)
qed

definition demo_disk :: disk where
  "demo_disk = \<lparr>dk_dir = [''v'' \<mapsto> 0], dk_data = [0 \<mapsto> ''old''], dk_mode = (\<lambda>_. 384), dk_fresh = 1,
     dk_dirs = [[''v'' \<mapsto> 0]], dk_synced = {0}\<rparr>"

lemma demo_disk_rest: "at_rest ''v'' demo_disk"
  by (auto simp: at_rest_def disk_ok_def demo_disk_def ran_def)

section \<open>Properties\<close>

text \<open>
  C17. \<open>AtomicWriter\<close> is atomic against crashes: at whatever system call the machine stops, and
  whichever calls failed before, the file found at the target afterwards is the old one (or none,
  if there was none) or the complete new one. The hypotheses say that the old file was on disk.
\<close>

theorem atomic_write_crash_safe:
  assumes "at_rest target s0" and "writer_run target token mode data s0 w"
    and "after_crash (wr_disk w) d f"
  shows "map_option f (d target) \<in> {read_name s0 target, Some data}"
proof -
  note inv = writer_run_inv [OF assms(2,1)]
  have d: "d \<in> set (dk_dirs (wr_disk w))" "\<And>i. i \<in> dk_synced (wr_disk w) \<Longrightarrow> dk_data (wr_disk w) i = Some (f i)"
    using assms(3) by (auto simp: after_crash_def)
  consider "d target = None" "dk_dir s0 target = None" | i where "d target = Some i" "dk_dir s0 target = Some i"
    | "d target = Some (dk_fresh s0)" "new_file data s0 (wr_disk w)"
    using target_choice [OF conjunct1 [OF inv] _ assms(1), of d] d(1) by (cases "dk_dir s0 target") auto
  then show ?thesis
  proof cases
    case 1 then show ?thesis by (simp add: read_name_def)
  next
    case (2 i)
    then show ?thesis
      using old_inode [OF assms(1) conjunct2 [OF inv] 2(2)] d(2) [of i] by (simp add: read_name_def)
  next
    case 3
    then show ?thesis using d(2) [of "dk_fresh s0"] by (simp add: new_file_def)
  qed
qed

theorem atomic_write_crash_safe_witness:
  "\<exists>w d f. writer_run ''v'' ''00'' 384 ''new'' demo_disk w \<and> after_crash (wr_disk w) d f \<and>
     map_option f (d ''v'') \<in> {Some ''old'', Some ''new''}"
proof -
  let ?w = "run_writer ''v'' ''00'' 384 ''new'' [Success, Success, Success, Success, Success, Success, Success] \<lparr>wr_disk = demo_disk, wr_buffer = [], wr_pc = Entering\<rparr>"
  have r: "writer_run ''v'' ''00'' 384 ''new'' demo_disk ?w" by (intro run_writer_run writer_start)
  have c: "after_crash (wr_disk ?w) [''v'' \<mapsto> 0] (\<lambda>i. if i = 0 then ''old'' else ''new'')"
    by (simp add: writer_next_def Let_def demo_disk_def tmp_path_def after_crash_def set_dir_def append_data_def)
  have "read_name demo_disk ''v'' = Some ''old''" by (simp add: read_name_def demo_disk_def)
  with atomic_write_crash_safe [OF demo_disk_rest r c] r c show ?thesis by metis
qed



end
