(* ===== verification/Gpg_Output.thy ===== *)
theory Gpg_Output
  imports Key_Info
begin

text \<open>
  \<open>models/message.py\<close> and the readers of GnuPG's output in \<open>services/gpg_service.py\<close>: the key
  listing with colons, the status records, the verdict on a signature, and which failures are
  the fault of a card. The lemmas give the round trip of a listing, when a signature counts as
  valid, and what a line separator inside a user id does to the status records.
\<close>

section \<open>Verdicts\<close>

datatype signature_status =
  SIG_NONE | SIG_VALID | SIG_INVALID | SIG_REVOKED_KEY | SIG_EXPIRED_KEY | SIG_EXPIRED | SIG_ERROR

definition status_is_valid :: "signature_status \<Rightarrow> bool" where
  "status_is_valid s \<longleftrightarrow> s = SIG_VALID"

definition status_is_present :: "signature_status \<Rightarrow> bool" where
  "status_is_present s \<longleftrightarrow> s \<noteq> SIG_NONE"

definition em_dash :: str where
  "em_dash = [CHR 0x20, CHR 0xE2, CHR 0x80, CHR 0x94, CHR 0x20]"

fun status_summary :: "signature_status \<Rightarrow> str" where
  "status_summary SIG_NONE = ''no signature''"
| "status_summary SIG_VALID = ''valid''"
| "status_summary SIG_INVALID = ''INVALID''"
| "status_summary SIG_REVOKED_KEY = ''INVALID'' @ em_dash @ ''signing key REVOKED''"
| "status_summary SIG_EXPIRED_KEY = ''INVALID'' @ em_dash @ ''signing key EXPIRED''"
| "status_summary SIG_EXPIRED = ''INVALID'' @ em_dash @ ''signature EXPIRED''"
| "status_summary SIG_ERROR = ''could not be verified''"

fun status_value :: "signature_status \<Rightarrow> str" where
  "status_value SIG_NONE = ''none''"
| "status_value SIG_VALID = ''valid''"
| "status_value SIG_INVALID = ''invalid''"
| "status_value SIG_REVOKED_KEY = ''revoked_key''"
| "status_value SIG_EXPIRED_KEY = ''expired_key''"
| "status_value SIG_EXPIRED = ''expired_sig''"
| "status_value SIG_ERROR = ''error''"

section \<open>The key listing\<close>

definition TRUST_MAP :: "(str \<times> trust_level) list" where
  "TRUST_MAP = [(''u'', ULTIMATE), (''f'', FULL), (''m'', MARGINAL), (''n'', NEVER), (''-'', UNKNOWN_TRUST),
     (''q'', UNKNOWN_TRUST), (''e'', UNKNOWN_TRUST), (''r'', NEVER)]"

definition ALGORITHM_MAP :: "(str \<times> key_algorithm) list" where
  "ALGORITHM_MAP = [(''1'', RSA), (''17'', DSA), (''18'', ECDH), (''19'', ECDSA), (''22'', EDDSA)]"

definition trust_from_gpg :: "str \<Rightarrow> trust_level" where
  "trust_from_gpg letter = (case map_of TRUST_MAP letter of Some t \<Rightarrow> t | None \<Rightarrow> UNKNOWN_TRUST)"

definition algorithm_from_gpg :: "str \<Rightarrow> key_algorithm" where
  "algorithm_from_gpg n = (case map_of ALGORITHM_MAP n of Some a \<Rightarrow> a | None \<Rightarrow> UNKNOWN_ALGORITHM)"

definition SECRET_AVAILABLE :: str where "SECRET_AVAILABLE = ''+''"
definition SECRET_UNAVAILABLE :: str where "SECRET_UNAVAILABLE = ''#''"

definition token_state :: "str \<Rightarrow> str \<times> bool" where
  "token_state raw =
     (let v = strip raw in
      if v = [] \<or> v = SECRET_AVAILABLE then ([], False)
      else if v = SECRET_UNAVAILABLE then ([], True)
      else (v, True))"

record key_row =
  kr_type :: str
  kr_trust :: str
  kr_length :: str
  kr_algo :: str
  kr_date :: str
  kr_expires :: str
  kr_uids :: "str list"
  kr_subkeys :: "str list"
  kr_token_sn :: str
  kr_card_sn :: str
  kr_fingerprint :: "str option"

definition new_row :: "str list \<Rightarrow> key_row" where
  "new_row f = \<lparr>kr_type = hd f, kr_trust = field f 1, kr_length = field f 2, kr_algo = field f 3,
     kr_date = field f 5, kr_expires = field f 6, kr_uids = [], kr_subkeys = [], kr_token_sn = field f 14,
     kr_card_sn = fst (token_state (field f 14)), kr_fingerprint = None\<rparr>"

text \<open>The rows read so far, the current one first, and whether a subkey is being read.\<close>

type_synonym colons_state = "key_row list \<times> bool"

fun colons_record :: "str list \<Rightarrow> colons_state \<Rightarrow> colons_state" where
  "colons_record f ([], in_subkey) =
     (if hd f = ''pub'' \<or> hd f = ''sec'' then ([new_row f], False) else ([], in_subkey))"
| "colons_record f (cur # older, in_subkey) =
     (if hd f = ''pub'' \<or> hd f = ''sec'' then (new_row f # cur # older, False)
      else if hd f = ''ssb'' \<or> hd f = ''sub'' then
        ((if kr_card_sn cur = [] then cur\<lparr>kr_card_sn := fst (token_state (field f 14))\<rparr> else cur) # older, True)
      else if hd f = ''fpr'' \<and> length f > 9 then
        ((if in_subkey then cur\<lparr>kr_subkeys := kr_subkeys cur @ [f ! 9]\<rparr>
          else if kr_fingerprint cur = None then cur\<lparr>kr_fingerprint := Some (f ! 9)\<rparr> else cur) # older, in_subkey)
      else if hd f = ''uid'' \<and> length f > 9 then
        ((if f ! 9 \<noteq> [] then cur\<lparr>kr_uids := kr_uids cur @ [f ! 9]\<rparr> else cur) # older, in_subkey)
      else (cur # older, in_subkey))"

definition has_fingerprint :: "key_row \<Rightarrow> bool" where
  "has_fingerprint r \<longleftrightarrow> kr_fingerprint r \<noteq> None \<and> kr_fingerprint r \<noteq> Some []"

definition colons_rows :: "str list list \<Rightarrow> key_row list" where
  "colons_rows records = filter has_fingerprint (rev (fst (fold colons_record records ([], False))))"

definition parse_colons_keys :: "bytes \<Rightarrow> key_row list" where
  "parse_colons_keys data = colons_rows (map (split_on (CHR '':'')) (splitlines (decode_replace data)))"

text \<open>\<open>int(s)\<close>, with the underscores and the white space around it that Python allows.\<close>

definition int_literal :: "str \<Rightarrow> int res" where
  "int_literal s = (let ps = split_on (CHR ''_'') s in
     if list_all isdigit ps then int_of_digits (concat ps) else Inl ValueError)"

fun signed_literal :: "str \<Rightarrow> int res" where
  "signed_literal (c # s) =
     (if c = CHR ''-'' then bindE (int_literal s) (\<lambda>n. Inr (- n))
      else if c = CHR ''+'' then int_literal s
      else int_literal (c # s))"
| "signed_literal [] = Inl ValueError"

definition py_int :: "str \<Rightarrow> int res" where
  "py_int s = signed_literal (strip s)"

text \<open>
  \<open>datetime.fromtimestamp(t, tz=UTC)\<close>: years 1 to 9999; beyond them a \<open>ValueError\<close>, beyond the
  years of \<open>struct tm\<close> an \<open>OSError\<close>, beyond \<open>time_t\<close> an \<open>OverflowError\<close>.
\<close>

definition from_timestamp :: "int \<Rightarrow> int res" where
  "from_timestamp t =
     (if - 62135596800 \<le> t \<and> t \<le> 253402300799 then Inr t
      else if - 67768040609740800 \<le> t \<and> t \<le> 67768036191676799 then Inl ValueError
      else if - (2 ^ 63) \<le> t \<and> t < 2 ^ 63 then Inl OSError
      else Inl OverflowError)"

definition int_or_zero :: "str \<Rightarrow> int res" where
  "int_or_zero s = (if s = [] then Inr 0 else py_int s)"

text \<open>The arguments of the \<open>KeyInfo\<close> constructor, once the numbers and times are converted.\<close>

definition row_info :: "key_row \<Rightarrow> int \<Rightarrow> int \<Rightarrow> int option \<Rightarrow> key_info" where
  "row_info r len created_at expires_at =
     (let (primary_serial, is_stub) = token_state (kr_token_sn r) in
       \<lparr>ki_fingerprint = (case kr_fingerprint r of None \<Rightarrow> [] | Some f \<Rightarrow> f),
        ki_user_ids = kr_uids r, ki_algorithm = algorithm_from_gpg (kr_algo r), ki_raw_algorithm_id = kr_algo r,
        ki_length = (if len = 0 then 2048 else len), ki_created_at = created_at, ki_expires_at = expires_at,
        ki_is_revoked = (kr_trust r = ''r''), ki_has_private_key = contains ''sec'' (kr_type r),
        ki_is_stub = is_stub, ki_card_serial = (if primary_serial \<noteq> [] then primary_serial else kr_card_sn r),
        ki_subkey_fingerprints = map upper (filter (\<lambda>f. f \<noteq> []) (kr_subkeys r)),
        ki_trust = trust_from_gpg (let c = take_chars 1 (kr_trust r) in if c = [] then ''-'' else c),
        ki_label = [], ki_purpose = [], ki_platform = [], ki_notes = [], ki_is_favorite = False\<rparr>)"

definition to_key_info :: "int \<Rightarrow> key_row \<Rightarrow> key_info res" where
  "to_key_info now r =
     bindE (int_or_zero (kr_date r)) (\<lambda>created.
     bindE (if isdigit (kr_expires r) then py_int (kr_expires r) else Inr 0) (\<lambda>expires.
     bindE (int_or_zero (kr_length r)) (\<lambda>len.
     bindE (if created \<noteq> 0 then from_timestamp created else Inr now) (\<lambda>created_at.
     bindE (if expires \<noteq> 0 then bindE (from_timestamp expires) (\<lambda>t. Inr (Some t)) else Inr None) (\<lambda>expires_at.
     check_key_info (row_info r len created_at expires_at))))))"

section \<open>Status records\<close>

definition STATUS_PREFIX :: str where "STATUS_PREFIX = ''[GNUPG:] ''"

definition status_record :: "str \<Rightarrow> str list option" where
  "status_record line = (if prefix STATUS_PREFIX line then Some (words (drop (length STATUS_PREFIX) line)) else None)"

definition parse_status :: "bytes \<Rightarrow> str list list" where
  "parse_status data = List.map_filter status_record (splitlines (decode_replace data))"

definition SIG_DOWNGRADE :: "(str \<times> signature_status) list" where
  "SIG_DOWNGRADE = [(''REVKEYSIG'', SIG_REVOKED_KEY), (''EXPKEYSIG'', SIG_EXPIRED_KEY), (''EXPSIG'', SIG_EXPIRED),
     (''BADSIG'', SIG_INVALID), (''ERRSIG'', SIG_ERROR)]"

record sig_state =
  ss_goodsig :: bool
  ss_validsig :: bool
  ss_downgrade :: "signature_status option"
  ss_signer :: "str option"
  ss_signed_at :: "int option"

text \<open>
  \<open>timestamp\<close> stands for \<open>datetime.fromtimestamp(float(s), tz=UTC)\<close>, with no value where that
  raises one of the suppressed exceptions.
\<close>

fun sig_record :: "(str \<Rightarrow> int option) \<Rightarrow> str list \<Rightarrow> sig_state \<Rightarrow> sig_state" where
  "sig_record timestamp [] s = s"
| "sig_record timestamp (tag # args) s =
     (if tag = ''GOODSIG'' then s\<lparr>ss_goodsig := True\<rparr>
      else if tag = ''VALIDSIG'' \<and> args \<noteq> [] then
        s\<lparr>ss_validsig := True, ss_signer := Some (hd args),
          ss_signed_at := (if length args > 2 \<and> timestamp (args ! 2) \<noteq> None then timestamp (args ! 2)
                           else ss_signed_at s)\<rparr>
      else (case map_of SIG_DOWNGRADE tag of Some d \<Rightarrow> s\<lparr>ss_downgrade := Some d\<rparr> | None \<Rightarrow> s))"

definition no_signature :: sig_state where
  "no_signature = \<lparr>ss_goodsig = False, ss_validsig = False, ss_downgrade = None, ss_signer = None, ss_signed_at = None\<rparr>"

definition evaluate_signature ::
    "(str \<Rightarrow> int option) \<Rightarrow> str list list \<Rightarrow> signature_status \<times> str option \<times> int option" where
  "evaluate_signature timestamp records =
     (let s = fold (sig_record timestamp) records no_signature in
      case ss_downgrade s of
        Some d \<Rightarrow> (d, ss_signer s, ss_signed_at s)
      | None \<Rightarrow>
          if ss_goodsig s \<and> ss_validsig s then (SIG_VALID, ss_signer s, ss_signed_at s)
          else if ss_goodsig s \<or> ss_validsig s then (SIG_ERROR, ss_signer s, ss_signed_at s)
          else (SIG_NONE, None, None))"

section \<open>Failures\<close>

record gpg_run =
  gr_args :: "str list"
  gr_returncode :: int
  gr_stdout :: bytes
  gr_stderr :: bytes
  gr_status :: bytes

definition decode_output :: "bytes \<Rightarrow> str" where
  "decode_output = decode_replace"

definition require_ok :: "int list \<Rightarrow> gpg_run \<Rightarrow> unit res" where
  "require_ok ok proc = (if gr_returncode proc \<in> set ok then Inr () else Inl GPGProcessError)"

definition CARDCTRL_MISSING :: "str list" where
  "CARDCTRL_MISSING = [''1'', ''5'', ''6'']"

definition CARD_MISSING_MARKERS :: "str list" where
  "CARD_MISSING_MARKERS = [''no such device'', ''card not present'', ''no openpgp card'', ''openpgp card not available'',
     ''card removed'', ''selecting card failed'', ''no card reader'', ''card error'']"

definition CARD_PIN_MARKERS :: "str list" where
  "CARD_PIN_MARKERS = [''bad pin'', ''wrong pin'', ''invalid pin'', ''pin blocked'', ''card is permanently locked'',
     ''chv retry counter'']"

definition has_marker :: "str list \<Rightarrow> str \<Rightarrow> bool" where
  "has_marker markers text \<longleftrightarrow> list_ex (\<lambda>m. contains m text) markers"

definition cardctrl_missing :: "str list \<Rightarrow> bool" where
  "cardctrl_missing record \<longleftrightarrow> length record > 1 \<and> record ! 0 = ''CARDCTRL'' \<and> record ! 1 \<in> set CARDCTRL_MISSING"

definition raise_for_card_failure :: "str list list \<Rightarrow> str \<Rightarrow> unit res" where
  "raise_for_card_failure records combined_text =
     (let lowered = lower combined_text in
      if has_marker CARD_PIN_MARKERS lowered then Inl (GPGCardPinError combined_text)
      else if list_ex cardctrl_missing records then Inl (GPGCardError combined_text)
      else if has_marker CARD_MISSING_MARKERS lowered then Inl (GPGCardError combined_text)
      else Inr ())"

definition require_decrypt_ok :: "gpg_run \<Rightarrow> unit res" where
  "require_decrypt_ok proc =
     (if gr_returncode proc = 0 then Inr ()
      else
        let status_text = decode_output (gr_status proc); stderr_text = decode_output (gr_stderr proc);
            combined = lower (status_text @ [CHR 0x0A] @ stderr_text);
            detail = take_chars 200 (if stderr_text \<noteq> [] then stderr_text else status_text) in
        bindE (raise_for_card_failure (parse_status (gr_status proc)) combined) (\<lambda>_.
        if contains ''bad_passphrase'' combined \<or> contains ''bad passphrase'' combined \<or>
           contains ''no secret key'' combined
        then Inl (GPGPassphraseError (''decryption failed: '' @ detail)) else Inl GPGProcessError))"

definition decryption_fingerprint :: "str list list \<Rightarrow> str option" where
  "decryption_fingerprint records =
     map_option (\<lambda>r. r ! 1) (find (\<lambda>r. length r > 1 \<and> r ! 0 = ''DECRYPTION_KEY'') records)"

definition PROMPT_PREFIXES :: "str list" where
  "PROMPT_PREFIXES = [''GET_LINE'', ''GET_BOOL'', ''GET_HIDDEN'']"

definition prompt_keyword :: "bytes \<Rightarrow> str option" where
  "prompt_keyword line =
     (let text = strip (decode_replace line) in
      if \<not> prefix STATUS_PREFIX text then None
      else let parts = words (drop (length STATUS_PREFIX) text) in
        if length parts < 2 \<or> hd parts \<notin> set PROMPT_PREFIXES then None else Some (parts ! 1))"

section \<open>The verdict on a signature\<close>

definition goodsig :: "str list \<Rightarrow> bool" where
  "goodsig r \<longleftrightarrow> r \<noteq> [] \<and> hd r = ''GOODSIG''"

definition validsig :: "str list \<Rightarrow> bool" where
  "validsig r \<longleftrightarrow> length r > 1 \<and> hd r = ''VALIDSIG''"

definition problem :: "str list \<Rightarrow> signature_status option" where
  "problem r = (if r = [] then None else map_of SIG_DOWNGRADE (hd r))"

lemma sig_tags:
  "map_of SIG_DOWNGRADE ''GOODSIG'' = None" "map_of SIG_DOWNGRADE ''VALIDSIG'' = None" "''GOODSIG'' \<noteq> ''VALIDSIG''"
  by (simp_all add: SIG_DOWNGRADE_def)

lemma sig_record_parts:
  "ss_goodsig (sig_record ts r s) \<longleftrightarrow> ss_goodsig s \<or> goodsig r"
  "ss_validsig (sig_record ts r s) \<longleftrightarrow> ss_validsig s \<or> validsig r"
  "ss_downgrade (sig_record ts r s) = (case problem r of Some d \<Rightarrow> Some d | None \<Rightarrow> ss_downgrade s)"
  "ss_signer (sig_record ts r s) = (if validsig r then Some (r ! 1) else ss_signer s)"
  by (cases r; simp add: goodsig_def validsig_def problem_def sig_tags split: option.splits;
      auto simp: sig_tags neq_Nil_conv)+

lemma sig_fold_parts:
  "ss_goodsig (fold (sig_record ts) rs s) \<longleftrightarrow> ss_goodsig s \<or> list_ex goodsig rs"
  "ss_validsig (fold (sig_record ts) rs s) \<longleftrightarrow> ss_validsig s \<or> list_ex validsig rs"
  "ss_downgrade (fold (sig_record ts) rs s) =
     (if List.map_filter problem rs = [] then ss_downgrade s else Some (last (List.map_filter problem rs)))"
  "ss_signer (fold (sig_record ts) rs s) =
     (if filter validsig rs = [] then ss_signer s else Some (last (filter validsig rs) ! 1))"
  by (induction rs arbitrary: s) (auto simp: sig_record_parts List.map_filter_def split: option.splits)

lemma filter_none: "filter P xs = [] \<longleftrightarrow> \<not> list_ex P xs"
  by (induction xs) auto

text \<open>
  The verdict on a signature, for every list of status records. It is valid exactly if GnuPG
  reported both \<open>GOODSIG\<close> and a \<open>VALIDSIG\<close> with a fingerprint and none of the five records that
  downgrade it; only one of the two without the other is an error; no such record at all means
  there is no signature. With several downgrading records it is the last that counts, not the
  worst. The signer is the one of the last \<open>VALIDSIG\<close>.
\<close>

theorem evaluate_signature_verdict:
  "fst (evaluate_signature timestamp records) =
     (if List.map_filter problem records \<noteq> [] then last (List.map_filter problem records)
      else if list_ex goodsig records \<and> list_ex validsig records then SIG_VALID
      else if list_ex goodsig records \<or> list_ex validsig records then SIG_ERROR
      else SIG_NONE) \<and>
   fst (snd (evaluate_signature timestamp records)) =
     (if filter validsig records = [] then None else Some (last (filter validsig records) ! 1))"
  by (simp add: evaluate_signature_def Let_def sig_fold_parts no_signature_def filter_none split: option.splits)

text \<open>
  A signature GnuPG calls bad is reported as expired if a record of an expired one follows:
  the later, milder problem replaces the worse one.
\<close>

theorem later_problem_masks_bad_signature:
  "evaluate_signature timestamp [[''BADSIG'', ''0123456789ABCDEF'', ''Alice''], [''EXPSIG'', ''0123456789ABCDEF'', ''Alice'']] =
     (SIG_EXPIRED, None, None)"
  by (simp add: evaluate_signature_def no_signature_def SIG_DOWNGRADE_def)

section \<open>Lines\<close>

text \<open>A text that the line feed after it ends, and nothing before.\<close>

definition one_line :: "str \<Rightarrow> bool" where
  "one_line l \<longleftrightarrow> list_all (\<lambda>i. line_break (drop i l @ [CHR 0x0A]) = 0) [0..<length l]"

lemma one_line_Nil [simp]: "one_line []"
  by (simp add: one_line_def)

lemma one_line_Cons: "one_line (c # l) \<longleftrightarrow> line_break (c # l @ [CHR 0x0A]) = 0 \<and> one_line l"
  by (simp add: one_line_def upt_conv_Cons map_Suc_upt [symmetric] list.pred_map comp_def del: upt_Suc)

lemma line_break_before: "b \<noteq> [] \<Longrightarrow> line_break (b @ CHR 0x0A # r) = line_break (b @ [CHR 0x0A])"
proof -
  assume "b \<noteq> []"
  then consider x where "b = [x]" | x y where "b = [x, y]" | x y z t where "b = x # y # z # t"
    by (metis neq_Nil_conv)
  then show ?thesis by cases (auto simp: line_break_def split: list.splits)
qed

lemma lines_from_one_line:
  "one_line l \<Longrightarrow> lines_from acc (l @ CHR 0x0A # r) = (rev acc @ l) # lines_from [] r"
proof (induction l arbitrary: acc)
  case Nil
  have "line_break (CHR 0x0A # r) = 1" by (simp add: line_break_def)
  then show ?case by simp
next
  case (Cons c l)
  then have "line_break (c # l @ CHR 0x0A # r) = 0" "one_line l"
    using line_break_before [of "c # l" r] by (simp_all add: one_line_Cons)
  then show ?case using Cons.IH by simp
qed

lemma splitlines_one_line: "one_line l \<Longrightarrow> splitlines (l @ CHR 0x0A # r) = l # splitlines r"
  by (simp add: splitlines_def lines_from_one_line)

definition text_of_lines :: "str list \<Rightarrow> str" where
  "text_of_lines ls = concat (map (\<lambda>l. l @ [CHR 0x0A]) ls)"

lemma splitlines_text: "list_all one_line ls \<Longrightarrow> splitlines (text_of_lines ls) = ls"
  by (induction ls) (simp_all add: text_of_lines_def splitlines_one_line, simp add: splitlines_def)

text \<open>A separator that is no line break and starts none keeps a line one line.\<close>

lemma one_line_append: "one_line a \<Longrightarrow> one_line b \<Longrightarrow> one_line (a @ CHR '':'' # b)"
proof (induction a)
  case (Cons c a)
  have "line_break (c # a @ CHR '':'' # b @ [CHR 0x0A]) = 0"
  proof -
    consider "a = []" | x where "a = [x]" | x y r where "a = x # y # r" by (metis neq_Nil_conv)
    then show ?thesis using Cons.prems(1)
      by cases (auto simp: one_line_Cons line_break_def split: if_splits list.splits)
  qed
  then show ?case using Cons by (simp add: one_line_Cons)
qed (simp add: one_line_Cons line_break_def)

definition line_separator :: str where
  "line_separator = [CHR 0xE2, CHR 0x80, CHR 0xA8]"

lemma lines_from_separator:
  "one_line l \<Longrightarrow> lines_from acc (l @ line_separator @ r) = (rev acc @ l) # lines_from [] r"
proof (induction l arbitrary: acc)
  case Nil
  have "line_break (line_separator @ r) = 3" by (simp add: line_break_def line_separator_def)
  then show ?case by (simp add: line_separator_def)
next
  case (Cons c l)
  have "line_break (c # l @ line_separator @ r) = 0"
  proof -
    consider "l = []" | x where "l = [x]" | x y t where "l = x # y # t" by (metis neq_Nil_conv)
    then show ?thesis using Cons.prems
      by cases (auto simp: one_line_Cons line_break_def line_separator_def split: if_splits)
  qed
  moreover have "one_line l" using Cons.prems by (simp add: one_line_Cons)
  ultimately show ?case using Cons.IH by simp
qed

definition printable :: "str \<Rightarrow> bool" where
  "printable s \<longleftrightarrow> list_all (\<lambda>c. 32 \<le> code c \<and> code c < 127) s"

lemma printable_one_line: "printable s \<Longrightarrow> one_line s"
  by (induction s) (auto simp: printable_def one_line_Cons line_break_def)

lemma printable_utf8: "printable s \<Longrightarrow> utf8_ok s"
  by (induction s) (auto simp: printable_def)

section \<open>A line separator in a user id\<close>

definition import_line :: "str \<Rightarrow> str" where
  "import_line user_id = STATUS_PREFIX @ ''IMPORTED 0123456789ABCDEF '' @ user_id @ [CHR 0x0A]"

definition forged_user_id :: "str \<Rightarrow> str \<Rightarrow> str" where
  "forged_user_id name victim = name @ line_separator @ STATUS_PREFIX @ ''IMPORT_OK 1 '' @ victim"

lemma fingerprint_token: "fingerprint_ok fp \<Longrightarrow> fp \<noteq> [] \<and> list_all (\<lambda>c. \<not> is_space c) fp \<and> printable fp"
  by (auto simp: fingerprint_ok_def FINGERPRINT_LENGTH_def list_all_iff printable_def is_upper_hex_def is_digit_def
      is_space_def)

text \<open>
  A user id can carry status records of its own. GnuPG prints the user id of an imported key
  in its \<open>IMPORTED\<close> record and escapes line feeds there, not U+2028, at which \<open>splitlines\<close> breaks
  as well: whatever the rest of the output, the reader of the status pipe sees an \<open>IMPORT_OK\<close> for
  any fingerprint the author of the user id chose.
\<close>

lemma forged_record_seen:
  assumes "printable name" "fingerprint_ok victim" "utf8_ok rest"
  shows "[''IMPORT_OK'', ''1'', victim] \<in> set (parse_status (import_line (forged_user_id name victim) @ rest))"
proof -
  define a b where "a = STATUS_PREFIX @ ''IMPORTED 0123456789ABCDEF '' @ name" and "b = STATUS_PREFIX @ ''IMPORT_OK 1 '' @ victim"
  have pr: "printable a" "printable b"
    using assms(1) fingerprint_token [OF assms(2)] by (simp_all add: printable_def STATUS_PREFIX_def a_def b_def)
  have data: "import_line (forged_user_id name victim) @ rest = a @ line_separator @ b @ CHR 0x0A # rest"
    by (simp add: import_line_def forged_user_id_def a_def b_def)
  have "utf8_ok line_separator" by code_simp
  then have "utf8_ok (a @ line_separator @ b @ CHR 0x0A # rest)"
    using pr [THEN printable_utf8] assms(3) by (simp add: utf8_ok_append)
  then have d: "decode_replace (import_line (forged_user_id name victim) @ rest) = a @ line_separator @ b @ CHR 0x0A # rest"
    by (simp add: data decode_replace_ok)
  have l: "splitlines (a @ line_separator @ b @ CHR 0x0A # rest) = a # b # splitlines rest"
    using lines_from_separator [OF printable_one_line [OF pr(1)], of "[]" "b @ CHR 0x0A # rest"]
      lines_from_one_line [OF printable_one_line [OF pr(2)], of "[]" rest]
    by (simp add: splitlines_def)
  have "words (''IMPORT_OK 1 '' @ victim) = [''IMPORT_OK'', ''1'', victim]"
    using words_Cons [of "''IMPORT_OK''" "CHR '' ''" "''1'' @ CHR '' '' # victim"] words_Cons [of "''1''" "CHR '' ''" victim]
      words_single [of victim] fingerprint_token [OF assms(2)] by (simp add: is_space_def)
  then have "status_record b = Some [''IMPORT_OK'', ''1'', victim]"
    by (simp add: status_record_def b_def)
  then show ?thesis by (simp add: parse_status_def d l List.map_filter_def)
qed

section \<open>The round trip of a key listing\<close>

text \<open>
  What \<open>--with-colons --list-keys\<close> prints for a key: its record with the field of the token,
  its fingerprint, its user ids and its subkeys, each with the token and the fingerprint.
\<close>

record listed_key =
  lk_secret :: bool
  lk_trust :: str
  lk_length :: str
  lk_algo :: str
  lk_key_id :: str
  lk_date :: str
  lk_expires :: str
  lk_token :: str
  lk_fingerprint :: str
  lk_uids :: "str list"
  lk_subkeys :: "(str \<times> str) list"

definition fpr_record :: "str \<Rightarrow> str list" where
  "fpr_record fp = [''fpr'', [], [], [], [], [], [], [], [], fp, []]"

definition uid_record :: "str \<Rightarrow> str list" where
  "uid_record u = [''uid'', [], [], [], [], [], [], [], [], u, []]"

definition sub_records :: "bool \<Rightarrow> str \<times> str \<Rightarrow> str list list" where
  "sub_records sec s = [[if sec then ''ssb'' else ''sub'', [], [], [], [], [], [], [], [], [], [], [], [], [], fst s, []],
     fpr_record (snd s)]"

definition key_records :: "listed_key \<Rightarrow> str list list" where
  "key_records k = [[if lk_secret k then ''sec'' else ''pub'', lk_trust k, lk_length k, lk_algo k, lk_key_id k, lk_date k,
      lk_expires k, [], [], [], [], [], [], [], lk_token k, []], fpr_record (lk_fingerprint k)] @
     map uid_record (lk_uids k) @ concat (map (sub_records (lk_secret k)) (lk_subkeys k))"

definition first_token :: "str list \<Rightarrow> str" where
  "first_token ts = (case find (\<lambda>t. t \<noteq> []) (map (fst \<circ> token_state) ts) of Some t \<Rightarrow> t | None \<Rightarrow> [])"

definition row_of :: "listed_key \<Rightarrow> key_row" where
  "row_of k = \<lparr>kr_type = if lk_secret k then ''sec'' else ''pub'', kr_trust = lk_trust k, kr_length = lk_length k,
     kr_algo = lk_algo k, kr_date = lk_date k, kr_expires = lk_expires k,
     kr_uids = filter (\<lambda>u. u \<noteq> []) (lk_uids k), kr_subkeys = map snd (lk_subkeys k), kr_token_sn = lk_token k,
     kr_card_sn = first_token (lk_token k # map fst (lk_subkeys k)), kr_fingerprint = Some (lk_fingerprint k)\<rparr>"

lemma fold_uids:
  "fold colons_record (map uid_record us) (cur # older, sub) =
     (cur\<lparr>kr_uids := kr_uids cur @ filter (\<lambda>u. u \<noteq> []) us\<rparr> # older, sub)"
  by (induction us arbitrary: cur) (simp_all add: uid_record_def)

lemma first_token_Cons:
  "first_token (t # ts) = (if fst (token_state t) \<noteq> [] then fst (token_state t) else first_token ts)"
  by (simp add: first_token_def)

lemma fold_subs:
  "fold colons_record (concat (map (sub_records sec) ss)) (cur # older, sub) =
     (cur\<lparr>kr_subkeys := kr_subkeys cur @ map snd ss,
          kr_card_sn := if kr_card_sn cur \<noteq> [] then kr_card_sn cur else first_token (map fst ss)\<rparr> # older,
      sub \<or> ss \<noteq> [])"
proof (induction ss arbitrary: cur sub)
  case Nil
  then show ?case by (cases cur) (simp add: first_token_def)
next
  case (Cons s ss)
  have "fold colons_record (sub_records sec s) (cur # older, sub) =
      (cur\<lparr>kr_subkeys := kr_subkeys cur @ [snd s],
        kr_card_sn := if kr_card_sn cur \<noteq> [] then kr_card_sn cur else fst (token_state (fst s))\<rparr> # older, True)"
    by (cases cur) (simp add: sub_records_def fpr_record_def field_def)
  then show ?case using Cons by (cases cur) (simp add: first_token_Cons )
qed

lemma fold_key:
  "fold colons_record (key_records k) (rows, sub) = (row_of k # rows, lk_subkeys k \<noteq> [])"
proof -
  define cur where "cur = (row_of k)\<lparr>kr_uids := [], kr_subkeys := [], kr_card_sn := fst (token_state (lk_token k))\<rparr>"
  have step: "fold colons_record [[if lk_secret k then ''sec'' else ''pub'', lk_trust k, lk_length k, lk_algo k, lk_key_id k,
      lk_date k, lk_expires k, [], [], [], [], [], [], [], lk_token k, []], fpr_record (lk_fingerprint k)] (rows, sub) =
      (cur # rows, False)"
    by (cases rows) (simp_all add: fpr_record_def new_row_def field_def cur_def row_of_def)
  show ?thesis
    unfolding key_records_def fold_append comp_apply step fold_uids fold_subs
    by (simp add: cur_def row_of_def first_token_Cons)
qed

lemma fold_keys:
  "fst (fold colons_record (concat (map key_records ks)) (rows, sub)) = rev (map row_of ks) @ rows"
  by (induction ks arbitrary: rows sub) (simp_all add: fold_key)

text \<open>What GnuPG's escaping guarantees of a field, and what the reader needs of it.\<close>

definition field_ok :: "str \<Rightarrow> bool" where
  "field_ok f \<longleftrightarrow> one_line f \<and> utf8_ok f \<and> CHR '':'' \<notin> set f"

definition listing_ok :: "listed_key \<Rightarrow> bool" where
  "listing_ok k \<longleftrightarrow> lk_fingerprint k \<noteq> [] \<and>
     list_all field_ok ([lk_trust k, lk_length k, lk_algo k, lk_key_id k, lk_date k, lk_expires k, lk_token k,
       lk_fingerprint k] @ lk_uids k) \<and>
     list_all (\<lambda>(t, fp). field_ok t \<and> field_ok fp) (lk_subkeys k)"

definition print_listing :: "listed_key list \<Rightarrow> bytes" where
  "print_listing ks = text_of_lines (map (join_with '':'') (concat (map key_records ks)))"

lemma split_on_join: "fs \<noteq> [] \<Longrightarrow> list_all (\<lambda>f. d \<notin> set f) fs \<Longrightarrow> split_on d (join_with [d] fs) = fs"
proof (induction "[d]" fs rule: join_with.induct)
  case (2 w)
  then show ?case by (induction w) auto
next
  case (3 w v ws)
  have "split_on d (w @ d # s) = w # split_on d s" if "d \<notin> set w" for s
    using that by (induction w) auto
  then show ?case using 3 by simp
qed simp

lemma joined_one_line: "list_all field_ok fs \<Longrightarrow> one_line (join_with '':'' fs) \<and> utf8_ok (join_with '':'' fs)"
proof (induction "'':''" fs rule: join_with.induct)
  case (3 w v ws)
  then show ?case by (simp add: field_ok_def one_line_append utf8_ok_append)
qed (auto simp: field_ok_def)

lemma record_fields_ok:
  assumes "listing_ok k" "r \<in> set (key_records k)"
  shows "r \<noteq> [] \<and> list_all field_ok r"
proof -
  have c: "field_ok ''pub''" "field_ok ''sec''" "field_ok ''sub''" "field_ok ''ssb''" "field_ok ''fpr''" "field_ok ''uid''"
    "field_ok []" by code_simp+
  show ?thesis
    using assms
    by (auto simp: key_records_def sub_records_def fpr_record_def uid_record_def listing_ok_def list_all_iff c)
qed

lemma print_listing_reads:
  assumes "list_all listing_ok ks"
  shows "map (split_on (CHR '':'')) (splitlines (decode_replace (print_listing ks))) = concat (map key_records ks)"
proof -
  let ?rs = "concat (map key_records ks)"
  have ok: "r \<noteq> [] \<and> list_all field_ok r" if "r \<in> set ?rs" for r
    using that assms record_fields_ok by (auto simp: list_all_iff)
  have "one_line (join_with '':'' r) \<and> utf8_ok (join_with '':'' r)" if "r \<in> set ?rs" for r
    using ok [OF that] joined_one_line by blast
  then have lines: "list_all one_line (map (join_with '':'') ?rs)" "list_all utf8_ok (map (join_with '':'') ?rs)"
    by (simp_all add: list_all_iff del: set_concat)
  have "utf8_ok (text_of_lines ls)" if "list_all utf8_ok ls" for ls
    using that by (induction ls) (simp_all add: text_of_lines_def utf8_ok_append)
  then have "splitlines (decode_replace (print_listing ks)) = map (join_with '':'') ?rs"
    using lines by (simp add: print_listing_def decode_replace_ok splitlines_text)
  moreover have "split_on (CHR '':'') (join_with '':'' r) = r" if "r \<in> set ?rs" for r
    using ok [OF that] split_on_join [of r "CHR '':''"] by (auto simp: field_ok_def list_all_iff)
  ultimately show ?thesis by (simp add: map_idI del: set_concat)
qed

lemma listing_rows:
  assumes "list_all listing_ok ks"
  shows "parse_colons_keys (print_listing ks) = map row_of ks"
proof -
  have "list_all has_fingerprint (map row_of ks)"
    using assms by (auto simp: list_all_iff has_fingerprint_def row_of_def listing_ok_def)
  then show ?thesis
    unfolding parse_colons_keys_def print_listing_reads [OF assms] colons_rows_def fold_keys
    by (simp add: list_all_iff)
qed

text \<open>
  The round trip of a key listing: what GnuPG prints for any list of keys, with any number of
  user ids and subkeys each, is read back as the same keys in the same order, a fingerprint of a
  subkey never mistaken for the one of the key; the card a key is on is the first one named by
  the key or a subkey. The fields hold no colon and no line boundary, as GnuPG escapes them.
\<close>

theorem listing_read_back:
  assumes "list_all listing_ok ks"
  shows "parse_colons_keys (print_listing ks) = map row_of ks"
  using assms by (rule listing_rows)

definition demo_listed :: listed_key where
  "demo_listed = \<lparr>lk_secret = False, lk_trust = ''u'', lk_length = ''255'', lk_algo = ''22'', lk_key_id = ''0123456789ABCDEF'',
     lk_date = ''1577836800'', lk_expires = [], lk_token = [], lk_fingerprint = replicate 40 (CHR ''A''),
     lk_uids = [''Alice''], lk_subkeys = [([], replicate 40 (CHR ''B''))]\<rparr>"

lemma demo_listed_ok: "listing_ok demo_listed"
  by code_simp

theorem listing_read_back_witness:
  "map kr_fingerprint (parse_colons_keys (print_listing [demo_listed, demo_listed])) =
     [Some (replicate 40 (CHR ''A'')), Some (replicate 40 (CHR ''A''))]"
  using listing_read_back [of "[demo_listed, demo_listed]"] demo_listed_ok
  by (simp add: row_of_def) (simp add: demo_listed_def)

text \<open>
  What a row that converts to a key says: the fingerprint is a well-formed one, the row's own
  in capitals; the length is positive; the key is held elsewhere exactly if the token field of
  the primary record is neither empty nor the sign for this computer, whatever its subkeys say;
  and it has a private part exactly if it was listed as a secret key.
\<close>

lemma to_key_info_sound:
  assumes "to_key_info now row = Inr k"
  shows "fingerprint_ok (ki_fingerprint k) \<and> 0 < ki_length k \<and>
    ki_is_stub k = (strip (kr_token_sn row) \<noteq> [] \<and> strip (kr_token_sn row) \<noteq> ''+'') \<and>
    ki_has_private_key k = contains ''sec'' (kr_type row) \<and>
    (\<exists>fp. kr_fingerprint row = Some fp \<and> ki_fingerprint k = upper (strip fp))"
proof -
  obtain len created expires where k: "check_key_info (row_info row len created expires) = Inr k"
    using assms unfolding to_key_info_def bindE_eq_Inr by blast
  define k0 where "k0 = row_info row len created expires"
  have k0: "ki_fingerprint k0 = (case kr_fingerprint row of None \<Rightarrow> [] | Some f \<Rightarrow> f)"
      "ki_is_stub k0 = snd (token_state (kr_token_sn row))" "ki_has_private_key k0 = contains ''sec'' (kr_type row)"
    by (simp_all add: k0_def row_info_def split_def Let_def)
  have n: "normalise_fingerprint (strip (ki_fingerprint k0)) = Inr (ki_fingerprint k)" "0 < ki_length k"
      "ki_is_stub k = ki_is_stub k0" "ki_has_private_key k = ki_has_private_key k0"
    using k by (auto simp: check_key_info_def k0_def split: if_splits)
  note f = n(1) [unfolded normalise_fingerprint_Inr, THEN conjunct2] n(1) [unfolded normalise_fingerprint_Inr, THEN conjunct1] n(2-4)
  have "kr_fingerprint row \<noteq> None"
  proof
    assume "kr_fingerprint row = None"
    then have "ki_fingerprint k = []" using f(2) k0(1) by (simp add: strip_def lstrip_def rstrip_def)
    then show False using f(1) by (simp add: fingerprint_ok_def FINGERPRINT_LENGTH_def)
  qed
  moreover have "snd (token_state raw) \<longleftrightarrow> strip raw \<noteq> [] \<and> strip raw \<noteq> ''+''" for raw
    by (simp add: token_state_def Let_def SECRET_AVAILABLE_def)
  ultimately show ?thesis
    using f k0 by auto
qed

lemma demo_converts:
  "\<exists>k. to_key_info 0 (row_of demo_listed) = Inr k \<and> ki_fingerprint k = replicate 40 (CHR ''A'') \<and> \<not> ki_is_stub k"
proof -
  have d: "int_or_zero (kr_date (row_of demo_listed)) = Inr 1577836800" "isdigit (kr_expires (row_of demo_listed)) = False"
    "int_or_zero (kr_length (row_of demo_listed)) = Inr 255"
    by (simp_all add: int_or_zero_def py_int_def strip_def lstrip_def rstrip_def is_space_def int_literal_def isdigit_def
        is_digit_def int_of_digits_def digits_val_def INT_MAX_STR_DIGITS_def row_of_def demo_listed_def)
  have st: "strip (lk_fingerprint demo_listed) = replicate 40 (CHR ''A'')" "upper (replicate 40 (CHR ''A'')) = replicate 40 (CHR ''A'')"
    "strip (lk_token demo_listed) = []" "fingerprint_ok (replicate 40 (CHR ''A''))" "py_len (replicate 40 (CHR ''A'')) = 40"
    by code_simp+
  define r where "r = row_info (row_of demo_listed) 255 1577836800 None"
  have r: "ki_fingerprint r = lk_fingerprint demo_listed" "ki_length r = 255"
    by (simp_all add: r_def row_info_def row_of_def split_def Let_def)
  have "\<exists>k. check_key_info r = Inr k"
    unfolding check_key_info_def r st(1) by (simp add: st FINGERPRINT_LENGTH_def)
  then have "\<exists>k. to_key_info 0 (row_of demo_listed) = Inr k"
    unfolding to_key_info_def d bindE_simps if_False by (simp add: from_timestamp_def r_def)
  then obtain k where k: "to_key_info 0 (row_of demo_listed) = Inr k" by blast
  from to_key_info_sound [OF k] k st show ?thesis by (auto simp: row_of_def)
qed
end
