(* ===== verification/Gpg_Service.thy ===== *)
theory Gpg_Service
  imports Gpg_Output Vault_Import
begin

text \<open>
  \<open>services/gpg_service.py\<close>: running GnuPG and the operations of \<open>GPGService\<close>. The program
  GnuPG is a parameter, a function from the request (argument vector, standard input, passphrase
  pipe, files left for it) and the keyring to what it prints and the keyring it leaves; every
  request is recorded. The lemmas show what every request obeys, that a replaced binary is not
  started, and what a deletion and a listing guarantee.
\<close>

section \<open>Requests\<close>

record gpg_request =
  rq_argv :: "str list"
  rq_input :: "bytes option"
  rq_passphrase :: "bytes option"
  rq_files :: "(str \<times> bytes) list"

text \<open>The file the path of the binary leads to; the hash is missing where it cannot be read.\<close>

record binary_file =
  bf_device :: nat
  bf_inode :: nat
  bf_sha256 :: "str option"

record 'k gpg_world =
  gw_keyring :: 'k
  gw_calls :: "gpg_request list"
  gw_binary :: "binary_file option"

text \<open>\<open>GPGServiceConfig\<close> and what the constructor pinned of the binary.\<close>

record gpg_service =
  gs_binary :: str
  gs_home :: str
  gs_device :: "nat option"
  gs_inode :: "nat option"
  gs_sha256 :: str

text \<open>
  One run: the service, the process (no answer within the time limit is \<open>None\<close>), the numbers of
  the pipes, the clock, \<open>fromtimestamp(float(s))\<close>, the names of the temporary files of
  \<open>verify\<close> and \<open>Path.resolve\<close>.
\<close>

record 'k gpg_env =
  ge_service :: gpg_service
  ge_process :: "gpg_request \<Rightarrow> 'k \<Rightarrow> gpg_run option \<times> 'k"
  ge_status_fd :: str
  ge_pass_fd :: str
  ge_now :: int
  ge_timestamp :: "str \<Rightarrow> int option"
  ge_sig_path :: str
  ge_data_path :: str
  ge_resolve :: "str \<Rightarrow> str"

type_synonym ('k, 'a) gpg_prog = "('k gpg_world, 'a) prog"

section \<open>Running GnuPG\<close>

definition binary_check :: "gpg_service \<Rightarrow> binary_file option \<Rightarrow> unit res" where
  "binary_check s binary =
     (if gs_device s = None \<and> gs_inode s = None then Inr ()
      else (case binary of
          None \<Rightarrow> Inl GPGServiceError
        | Some f \<Rightarrow>
            if gs_device s \<noteq> None \<and> gs_device s \<noteq> Some (bf_device f) then Inl GPGServiceError
            else if gs_inode s \<noteq> None \<and> gs_inode s \<noteq> Some (bf_inode f) then Inl GPGServiceError
            else if gs_sha256 s \<noteq> [] then
              (case bf_sha256 f of
                 None \<Rightarrow> Inr ()
               | Some h \<Rightarrow> if lower h \<noteq> lower (gs_sha256 s) then Inl GPGServiceError else Inr ())
            else Inr ()))"

definition assert_binary_not_swapped :: "'k gpg_env \<Rightarrow> ('k, unit) gpg_prog" where
  "assert_binary_not_swapped env = bindP (getP gw_binary) (\<lambda>b. liftP (binary_check (ge_service env) b))"

definition framing_byte :: "char \<Rightarrow> bool" where
  "framing_byte c \<longleftrightarrow> code c = 0 \<or> code c = 10 \<or> code c = 13"

definition validated_passphrase_bytes :: "secure_bytes option \<Rightarrow> bytes res" where
  "validated_passphrase_bytes passphrase = (case passphrase of
       None \<Rightarrow> Inr []
     | Some pw \<Rightarrow> bindE (sb_view pw) (\<lambda>buf.
         if list_ex framing_byte buf then Inl GPGValidationError else Inr buf))"

definition REQUIRED_GPG_ARGS :: "str list" where
  "REQUIRED_GPG_ARGS = [''--batch'', ''--pinentry-mode'', ''loopback'']"

definition base_cmd :: "gpg_service \<Rightarrow> str list" where
  "base_cmd s = [gs_binary s, ''--homedir'', gs_home s] @ REQUIRED_GPG_ARGS"

text \<open>\<open>Popen\<close> and \<open>_communicate\<close>: the process runs, a run that does not end in time is an error.\<close>

definition start_process :: "'k gpg_env \<Rightarrow> exn \<Rightarrow> gpg_request \<Rightarrow> ('k, gpg_run) gpg_prog" where
  "start_process env on_timeout rq = (\<lambda>w.
     case ge_process env rq (gw_keyring w) of (r, k) \<Rightarrow>
       ((case r of None \<Rightarrow> Inl on_timeout | Some run \<Rightarrow> Inr (run\<lparr>gr_args := rq_argv rq\<rparr>)),
        w\<lparr>gw_keyring := k, gw_calls := gw_calls w @ [rq]\<rparr>))"

text \<open>The request, once the passphrase and the arguments have been checked.\<close>

definition gpg_request_of ::
    "'k gpg_env \<Rightarrow> (str \<times> bytes) list \<Rightarrow> str list \<Rightarrow> bytes option \<Rightarrow> secure_bytes option \<Rightarrow> bool \<Rightarrow> gpg_request res" where
  "gpg_request_of env files args input_data passphrase status_fd =
     bindE (validated_passphrase_bytes passphrase) (\<lambda>pass_bytes.
      let cmd0 = base_cmd (ge_service env) @ (if status_fd then [''--status-fd'', ge_status_fd env] else []);
          cmd = cmd0 @ (if passphrase \<noteq> None then [''--passphrase-fd'', ge_pass_fd env] else []) @ args in
      bindE (if passphrase \<noteq> None then reject_passphrase_in_argv cmd0 pass_bytes else Inr ()) (\<lambda>_.
      bindE (reject_passphrase_in_argv cmd pass_bytes) (\<lambda>_.
      Inr \<lparr>rq_argv = cmd, rq_input = input_data,
           rq_passphrase = (if passphrase \<noteq> None then Some pass_bytes else None), rq_files = files\<rparr>)))"

definition run_gpg_with ::
    "'k gpg_env \<Rightarrow> (str \<times> bytes) list \<Rightarrow> str list \<Rightarrow> bytes option \<Rightarrow> secure_bytes option \<Rightarrow> bool \<Rightarrow>
     ('k, gpg_run) gpg_prog" where
  "run_gpg_with env files args input_data passphrase status_fd =
     thenP (assert_binary_not_swapped env)
     (bindP (liftP (gpg_request_of env files args input_data passphrase status_fd)) (\<lambda>rq.
      bindP (start_process env GPGProcessError rq) (\<lambda>run.
      retP (if status_fd then run else run\<lparr>gr_status := []\<rparr>))))"

definition run_gpg ::
    "'k gpg_env \<Rightarrow> str list \<Rightarrow> bytes option \<Rightarrow> secure_bytes option \<Rightarrow> bool \<Rightarrow> ('k, gpg_run) gpg_prog" where
  "run_gpg env = run_gpg_with env []"

section \<open>Listing\<close>

definition key_infos :: "'k gpg_env \<Rightarrow> gpg_run \<Rightarrow> key_info list res" where
  "key_infos env proc = mapE (to_key_info (ge_now env)) (parse_colons_keys (gr_stdout proc))"

text \<open>The dict comprehension: of two entries with one fingerprint the later one stays.\<close>

definition by_fingerprint :: "key_info list \<Rightarrow> str \<rightharpoonup> key_info" where
  "by_fingerprint infos = map_of (rev (map (\<lambda>i. (ki_fingerprint i, i)) infos))"

definition secret_storage :: "'k gpg_env \<Rightarrow> ('k, str \<rightharpoonup> key_info) gpg_prog" where
  "secret_storage env =
     bindP (run_gpg env [''--with-colons'', ''--fingerprint'', ''--list-secret-keys''] None None False) (\<lambda>proc.
     thenP (liftP (require_ok [0] proc))
     (bindP (liftP (key_infos env proc)) (\<lambda>infos. retP (by_fingerprint infos))))"

definition merge_secret :: "bool \<Rightarrow> (str \<rightharpoonup> key_info) \<Rightarrow> key_info \<Rightarrow> key_info" where
  "merge_secret secret secret_keys info =
     (if secret then info\<lparr>ki_has_private_key := True\<rparr>
      else (case secret_keys (ki_fingerprint info) of
          None \<Rightarrow> info
        | Some s \<Rightarrow> info\<lparr>ki_has_private_key := True, ki_is_stub := ki_is_stub s, ki_card_serial := ki_card_serial s\<rparr>))"

definition list_keys :: "'k gpg_env \<Rightarrow> bool \<Rightarrow> ('k, key_info list) gpg_prog" where
  "list_keys env secret =
     bindP (run_gpg env [''--with-colons'', ''--fingerprint'', if secret then ''--list-secret-keys'' else ''--list-keys'']
         None None False) (\<lambda>proc.
     thenP (liftP (require_ok [0] proc))
     (bindP (if secret then retP Map.empty else secret_storage env) (\<lambda>secret_keys.
      bindP (liftP (key_infos env proc)) (\<lambda>infos.
      retP (map (merge_secret secret secret_keys) infos)))))"

definition find_key :: "'k gpg_env \<Rightarrow> str \<Rightarrow> ('k, key_info) gpg_prog" where
  "find_key env fingerprint =
     bindP (liftP (validate_fingerprint fingerprint)) (\<lambda>fp.
     bindP (list_keys env False) (\<lambda>keys.
     liftP (of_option GPGKeyNotFoundError (find (\<lambda>k. ki_fingerprint k = fp) keys))))"

record card_status_output =
  cs_colons :: str
  cs_diagnostics :: str

definition card_status :: "'k gpg_env \<Rightarrow> ('k, card_status_output) gpg_prog" where
  "card_status env =
     bindP (run_gpg env [''--card-status'', ''--with-colons''] None None True) (\<lambda>proc.
     let diagnostics = decode_output (gr_stderr proc) in
     if gr_returncode proc \<noteq> 0 then
       let combined = decode_output (gr_status proc) @ [CHR 0x0A] @ diagnostics in
       thenP (liftP (raise_for_card_failure (parse_status (gr_status proc)) combined))
         (raiseP (GPGCardError combined))
     else retP \<lparr>cs_colons = decode_output (gr_stdout proc), cs_diagnostics = diagnostics\<rparr>)"

section \<open>Keys\<close>

definition user_id :: "str \<Rightarrow> str \<Rightarrow> str" where
  "user_id name email = name @ '' <'' @ email @ ''>''"

definition quick_args :: "str \<Rightarrow> str \<Rightarrow> key_algorithm \<Rightarrow> int \<Rightarrow> str \<Rightarrow> str list res" where
  "quick_args name email algorithm len expiry =
     (if algorithm = EDDSA then
        Inr [''--quick-generate-key'', user_id name email, ''future-default'', ''default'', expiry]
      else if algorithm = RSA then
        Inr [''--quick-generate-key'', user_id name email, ''rsa'' @ show_int len, ''default'', expiry]
      else Inl GPGValidationError)"

definition created_fingerprint :: "str list list \<Rightarrow> str" where
  "created_fingerprint records =
     (case filter (\<lambda>r. r \<noteq> [] \<and> hd r = ''KEY_CREATED'' \<and> length r \<ge> 3) records of
        [] \<Rightarrow> [] | rs \<Rightarrow> last rs ! 2)"

definition generate_key ::
    "'k gpg_env \<Rightarrow> str \<Rightarrow> str \<Rightarrow> key_algorithm \<Rightarrow> int \<Rightarrow> str \<Rightarrow> secure_bytes \<Rightarrow> ('k, str) gpg_prog" where
  "generate_key env name0 email0 algorithm len expiry passphrase =
     bindP (liftP (validate_user_name name0)) (\<lambda>name.
     bindP (liftP (validate_email email0)) (\<lambda>email.
     thenP (liftP (validate_key_algorithm_and_length algorithm len))
     (thenP (liftP (validate_expiry expiry))
     (bindP (liftP (sb_view passphrase)) (\<lambda>pass_view.
      if list_ex (\<lambda>c. code c = 10 \<or> code c = 13) pass_view then raiseP GPGValidationError
      else
        bindP (liftP (quick_args name email algorithm len expiry)) (\<lambda>args.
        bindP (run_gpg env (''--yes'' # args) None (Some passphrase) True) (\<lambda>proc.
        thenP (liftP (require_ok [0] proc))
        (bindP (let fp = created_fingerprint (parse_status (gr_status proc)) in
            if fp \<noteq> [] then retP fp
            else bindP (list_keys env True) (\<lambda>keys.
              case filter (\<lambda>k. user_id name email \<in> set (ki_user_ids k)) keys of
                [] \<Rightarrow> retP [] | ks \<Rightarrow> retP (ki_fingerprint (last ks)))) (\<lambda>fp.
         if fp = [] then raiseP GPGProcessError else liftP (validate_fingerprint fp))))))))))"

definition export_public_key :: "'k gpg_env \<Rightarrow> str \<Rightarrow> ('k, str) gpg_prog" where
  "export_public_key env fingerprint =
     bindP (liftP (validate_fingerprint fingerprint)) (\<lambda>fp.
     bindP (run_gpg env [''--armor'', ''--export'', fp] None None False) (\<lambda>proc.
     let armored = decode_output (gr_stdout proc) in
     if armored = [] then raiseP GPGKeyNotFoundError else retP armored))"

definition export_private_key :: "'k gpg_env \<Rightarrow> str \<Rightarrow> secure_bytes \<Rightarrow> ('k, str) gpg_prog" where
  "export_private_key env fingerprint passphrase =
     bindP (liftP (validate_fingerprint fingerprint)) (\<lambda>fp.
     bindP (run_gpg env [''--armor'', ''--export-secret-keys'', fp] None (Some passphrase) True) (\<lambda>proc.
     let armored = decode_output (gr_stdout proc) in
     if armored = [] then
       let err = decode_output (gr_stderr proc) in
       raiseP (GPGPassphraseError
         (if contains ''bad passphrase'' (lower err) \<or> contains ''bad_passphrase'' (lower err)
          then ''private key export failed: incorrect passphrase''
          else ''private key export failed for '' @ fp @
            (if err \<noteq> [] then '': '' @ take_chars 200 err
             else em_dash @ ''key missing or passphrase incorrect'')))
     else retP armored))"

definition import_ok :: "str list \<Rightarrow> str option" where
  "import_ok r = (if r \<noteq> [] \<and> hd r = ''IMPORT_OK'' \<and> length r > 2 then Some (r ! 2) else None)"

definition import_key :: "'k gpg_env \<Rightarrow> bytes \<Rightarrow> ('k, str list) gpg_prog" where
  "import_key env armored =
     bindP (run_gpg env [''--import''] (Some armored) None True) (\<lambda>proc.
     let fingerprints = List.map_filter import_ok (parse_status (gr_status proc)) in
     if fingerprints = [] then raiseP GPGProcessError else liftP (mapE validate_fingerprint fingerprints))"

definition scan_keys :: "'k gpg_env \<Rightarrow> str \<Rightarrow> ('k, key_row list) gpg_prog" where
  "scan_keys env armored =
     bindP (run_gpg env [''--with-colons'', ''--fingerprint'', ''--show-keys''] (Some armored) None False) (\<lambda>proc.
     thenP (liftP (require_ok [0] proc)) (retP (parse_colons_keys (gr_stdout proc))))"

definition delete_key :: "'k gpg_env \<Rightarrow> str \<Rightarrow> bool \<Rightarrow> secure_bytes option \<Rightarrow> ('k, unit) gpg_prog" where
  "delete_key env fingerprint including_secret passphrase =
     bindP (liftP (validate_fingerprint fingerprint)) (\<lambda>fp.
     bindP (if including_secret then run_gpg env [''--yes'', ''--delete-secret-and-public-key'', fp] None passphrase False
            else run_gpg env [''--yes'', ''--delete-key'', fp] None None False) (\<lambda>proc.
     thenP (liftP (require_ok [0, 2] proc))
     (catchP (thenP (find_key env fp) (raiseP GPGProcessError))
       (\<lambda>e. if e = GPGKeyNotFoundError then retP () else raiseP e))))"

section \<open>Messages and files\<close>

definition recipient_args :: "str list \<Rightarrow> str list" where
  "recipient_args recipients = concat (map (\<lambda>r. [''--recipient'', r]) recipients)"

definition always_trust_args :: "bool \<Rightarrow> str list" where
  "always_trust_args always_trust = (if always_trust then [''--trust-model'', ''always''] else [])"

definition encrypt ::
    "'k gpg_env \<Rightarrow> bytes \<Rightarrow> str list \<Rightarrow> str option \<Rightarrow> secure_bytes option \<Rightarrow> bool \<Rightarrow> ('k, str) gpg_prog" where
  "encrypt env plaintext recipient_fingerprints sign_with passphrase always_trust =
     bindP (liftP (mapE validate_fingerprint recipient_fingerprints)) (\<lambda>recipients.
     bindP (case sign_with of
         None \<Rightarrow> retP None
       | Some s \<Rightarrow> if s = [] then retP None else bindP (liftP (validate_fingerprint s)) (\<lambda>fp. retP (Some fp))) (\<lambda>signer.
     if signer \<noteq> None \<and> passphrase = None then raiseP GPGValidationError
     else
       bindP (run_gpg env
         ([''--armor''] @ always_trust_args always_trust @ [''--encrypt''] @ recipient_args recipients @
          (case signer of None \<Rightarrow> [] | Some s \<Rightarrow> [''--sign'', ''--local-user'', s]))
         (Some plaintext) (if signer \<noteq> None then passphrase else None) True) (\<lambda>proc.
       thenP (liftP (require_ok [0] proc)) (retP (decode_output (gr_stdout proc))))))"

record decrypted =
  dc_plaintext :: bytes
  dc_signer :: "str option"
  dc_status :: signature_status
  dc_decrypted_with :: "str option"

definition decrypt :: "'k gpg_env \<Rightarrow> bytes \<Rightarrow> secure_bytes option \<Rightarrow> ('k, decrypted) gpg_prog" where
  "decrypt env ciphertext passphrase =
     bindP (run_gpg env [''--decrypt''] (Some ciphertext) passphrase True) (\<lambda>proc.
     thenP (liftP (require_decrypt_ok proc))
     (let records = parse_status (gr_status proc); (status, signer, _) = evaluate_signature (ge_timestamp env) records in
      retP \<lparr>dc_plaintext = gr_stdout proc, dc_signer = signer, dc_status = status,
            dc_decrypted_with = decryption_fingerprint records\<rparr>))"

definition encrypt_file ::
    "'k gpg_env \<Rightarrow> str \<Rightarrow> str \<Rightarrow> str list \<Rightarrow> secure_bytes option \<Rightarrow> bool \<Rightarrow> ('k, unit) gpg_prog" where
  "encrypt_file env source target recipient_fingerprints passphrase always_trust =
     bindP (liftP (mapE validate_fingerprint recipient_fingerprints)) (\<lambda>recipients.
     if (recipients \<noteq> []) = (passphrase \<noteq> None) then raiseP GPGValidationError
     else
       bindP (run_gpg env
         ([''--yes'', ''--output'', ge_resolve env target] @
          (if recipients \<noteq> [] then always_trust_args always_trust @ [''--encrypt''] @ recipient_args recipients
           else [''--no-symkey-cache'', ''--symmetric'', ''--cipher-algo'', ''AES256'']) @
          [ge_resolve env source]) None passphrase True) (\<lambda>proc.
       liftP (require_ok [0] proc)))"

definition decrypt_file :: "'k gpg_env \<Rightarrow> str \<Rightarrow> str \<Rightarrow> secure_bytes option \<Rightarrow> ('k, str option) gpg_prog" where
  "decrypt_file env source target passphrase =
     bindP (run_gpg env [''--yes'', ''--no-symkey-cache'', ''--output'', ge_resolve env target, ''--decrypt'',
         ge_resolve env source] None passphrase True) (\<lambda>proc.
     thenP (liftP (require_decrypt_ok proc)) (retP (decryption_fingerprint (parse_status (gr_status proc)))))"

definition sign :: "'k gpg_env \<Rightarrow> bytes \<Rightarrow> str \<Rightarrow> secure_bytes \<Rightarrow> bool \<Rightarrow> ('k, str) gpg_prog" where
  "sign env data fingerprint passphrase detached =
     bindP (liftP (validate_fingerprint fingerprint)) (\<lambda>fp.
     bindP (run_gpg env [''--armor'', ''--local-user'', fp, if detached then ''--detach-sign'' else ''--clearsign'']
         (Some data) (Some passphrase) True) (\<lambda>proc.
     if gr_returncode proc \<noteq> 0 \<or> gr_stdout proc = [] then
       thenP (liftP (raise_for_card_failure (parse_status (gr_status proc))
           (decode_output (gr_status proc) @ [CHR 0x0A] @ decode_output (gr_stderr proc))))
         (raiseP GPGProcessError)
     else retP (decode_output (gr_stdout proc))))"

definition verify ::
    "'k gpg_env \<Rightarrow> bytes \<Rightarrow> bytes option \<Rightarrow> ('k, signature_status \<times> str option \<times> int option) gpg_prog" where
  "verify env data detached_signature =
     bindP (case detached_signature of
         Some sig \<Rightarrow> run_gpg_with env [(ge_sig_path env, sig), (ge_data_path env, data)]
             [''--verify'', ge_sig_path env, ge_data_path env] None None True
       | None \<Rightarrow> run_gpg env [''--verify''] (Some data) None True) (\<lambda>proc.
     let (status, fp, signed_at) = evaluate_signature (ge_timestamp env) (parse_status (gr_status proc)) in
     retP (if status = SIG_NONE \<and> gr_returncode proc \<noteq> 0 \<and> gr_returncode proc \<noteq> 1
           then (SIG_ERROR, None, None) else (status, fp, signed_at)))"

text \<open>The numbers of the first word of the first line that reads as a version.\<close>

fun version_of :: "str list \<Rightarrow> int list option" where
  "version_of [] = None"
| "version_of (t # ts) =
     (if t \<noteq> [] \<and> is_digit (hd t) \<and> CHR ''.'' \<in> set t then
        (case mapE py_int (split_on (CHR ''.'') t) of Inr ns \<Rightarrow> Some ns | Inl e \<Rightarrow> version_of ts)
      else version_of ts)"

definition version_text :: "str \<Rightarrow> int list res" where
  "version_text out =
     of_option GPGProcessError (version_of (split_on (CHR '' '') (strip (case splitlines out of [] \<Rightarrow> [] | l # _ \<Rightarrow> l))))"

definition version :: "'k gpg_env \<Rightarrow> ('k, int list) gpg_prog" where
  "version env =
     thenP (assert_binary_not_swapped env)
     (bindP (start_process env TimeoutExpired \<lparr>rq_argv = [gs_binary (ge_service env), ''--version''], rq_input = None,
         rq_passphrase = None, rq_files = []\<rparr>) (\<lambda>proc. liftP (version_text (gr_stdout proc))))"

section \<open>The operations the vault uses\<close>

definition vault_gpg :: "'k gpg_env \<Rightarrow> 'k gpg_world gpg_ops" where
  "vault_gpg env = \<lparr>g_find_key = find_key env, g_export_public_key = export_public_key env,
     g_export_private_key = export_private_key env,
     g_encrypt = (\<lambda>data fps. encrypt env data fps None None True),
     g_decrypt = (\<lambda>data pin. bindP (decrypt env data (Some pin)) (\<lambda>d. retP (dc_plaintext d))),
     g_import_key = import_key env, g_delete_key = (\<lambda>fp secret. delete_key env fp secret None)\<rparr>"

text \<open>An export returns text, never the empty string, which is what the vault relies on.\<close>

lemma vault_gpg_exports: "exports_nonempty (vault_gpg env)"
  by (auto simp: exports_nonempty_def vault_gpg_def export_private_key_def bindP_eq_Inr Let_def split: if_splits)

section \<open>What every request obeys\<close>

definition safe_request :: "gpg_service \<Rightarrow> gpg_request \<Rightarrow> bool" where
  "safe_request svc rq \<longleftrightarrow>
     (prefix (base_cmd svc) (rq_argv rq) \<or> rq_argv rq = [gs_binary svc, ''--version''] \<and> rq_passphrase rq = None) \<and>
     (case rq_passphrase rq of None \<Rightarrow> True
      | Some pw \<Rightarrow> \<not> list_ex framing_byte pw \<and> (pw = [] \<or> list_all (\<lambda>a. \<not> contains pw a) (rq_argv rq)))"

definition calls_safe :: "gpg_service \<Rightarrow> 'k gpg_world \<Rightarrow> bool" where
  "calls_safe svc w \<longleftrightarrow> list_all (safe_request svc) (gw_calls w)"

lemma reject_Inr: "reject_passphrase_in_argv argv pw = Inr u \<longleftrightarrow> pw = [] \<or> list_all (\<lambda>a. \<not> contains pw a) argv"
  by (auto simp: reject_passphrase_in_argv_def list_ex_iff list_all_iff)

lemma start_process_calls:
  "start_process env e rq w = (r, w') \<Longrightarrow> gw_calls w' = gw_calls w @ [rq]"
  by (auto simp: start_process_def split: prod.splits)

lemma validated_passphrase_Inr:
  "validated_passphrase_bytes (Some pw) = Inr b \<Longrightarrow> \<not> list_ex framing_byte b"
  by (auto simp: validated_passphrase_bytes_def split: if_splits)

lemma gpg_request_of_Inr:
  assumes "gpg_request_of env files args input pw status = Inr rq"
  shows "safe_request (ge_service env) rq" "rq_files rq = files" "rq_input rq = input"
    "\<exists>fds. rq_argv rq = base_cmd (ge_service env) @ fds @ args"
proof -
  obtain b where b: "validated_passphrase_bytes pw = Inr b" "reject_passphrase_in_argv (rq_argv rq) b = Inr ()"
    and rq: "rq_passphrase rq = (if pw \<noteq> None then Some b else None)" "rq_files rq = files" "rq_input rq = input"
      "rq_argv rq = base_cmd (ge_service env) @ (if status then [''--status-fd'', ge_status_fd env] else []) @
        (if pw \<noteq> None then [''--passphrase-fd'', ge_pass_fd env] else []) @ args"
    using assms by (auto simp: gpg_request_of_def Let_def)
  show "safe_request (ge_service env) rq"
    using b rq(1,4) by (auto simp: safe_request_def reject_Inr dest: validated_passphrase_Inr split: if_splits)
  show "rq_files rq = files" "rq_input rq = input" by (rule rq)+
  show "\<exists>fds. rq_argv rq = base_cmd (ge_service env) @ fds @ args"
    unfolding rq(4) by (metis append.assoc)
qed

text \<open>A run either starts nothing and leaves the state as it is, or starts one request.\<close>

lemma run_gpg_with_calls:
  assumes "run_gpg_with env files args input pw status w = (r, w')"
  shows "w' = w \<and> isl r \<or> (\<exists>rq. gpg_request_of env files args input pw status = Inr rq \<and>
    binary_check (ge_service env) (gw_binary w) = Inr () \<and> gw_calls w' = gw_calls w @ [rq] \<and> gw_binary w' = gw_binary w)"
  using assms
  by (cases "binary_check (ge_service env) (gw_binary w)"; cases "gpg_request_of env files args input pw status")
    (auto simp: run_gpg_with_def assert_binary_not_swapped_def thenP_def bindP_def start_process_def
      split: prod.splits sum.splits option.splits)

text \<open>Since a point, only requests with some property were made of GnuPG.\<close>

definition only_since :: "(gpg_request \<Rightarrow> bool) \<Rightarrow> gpg_request list \<Rightarrow> 'k gpg_world \<Rightarrow> bool" where
  "only_since P calls w \<longleftrightarrow> (\<exists>new. gw_calls w = calls @ new \<and> list_all P new)"

lemma preserves_only_since:
  fixes env :: "'k gpg_env"
  assumes "\<And>rq. gpg_request_of env [] args input pw status = Inr rq \<Longrightarrow> P rq"
  shows "preserves (only_since P calls) (run_gpg env args input pw status)"
  unfolding preserves_def
proof (intro allI impI)
  fix w :: "'k gpg_world" assume w: "only_since P calls w"
  obtain r w' where r: "run_gpg_with env [] args input pw status w = (r, w')" by fastforce
  show "only_since P calls (snd (run_gpg env args input pw status w))"
    using run_gpg_with_calls [OF r] w assms by (auto simp: run_gpg_def r only_since_def)
qed

lemma preserves_run [preserves_intros]:
  fixes env :: "'k gpg_env"
  shows "preserves (calls_safe (ge_service env)) (run_gpg_with env files args input pw status)"
  unfolding preserves_def
proof (intro allI impI)
  fix w :: "'k gpg_world" assume w: "calls_safe (ge_service env) w"
  obtain r w' where r: "run_gpg_with env files args input pw status w = (r, w')" by fastforce
  show "calls_safe (ge_service env) (snd (run_gpg_with env files args input pw status w))"
    using run_gpg_with_calls [OF r] w gpg_request_of_Inr(1) by (auto simp: r calls_safe_def)
qed

lemma preserves_run_gpg [preserves_intros]: "preserves (calls_safe (ge_service env)) (run_gpg env args input pw status)"
  by (simp add: run_gpg_def preserves_run)

lemma preserves_secret_storage [preserves_intros]: "preserves (calls_safe (ge_service env)) (secret_storage env)"
  by (auto simp: secret_storage_def intro!: preserves_intros)

lemma preserves_list_keys [preserves_intros]: "preserves (calls_safe (ge_service env)) (list_keys env secret)"
  by (auto simp: list_keys_def intro!: preserves_intros)

lemma preserves_find_key [preserves_intros]: "preserves (calls_safe (ge_service env)) (find_key env fp)"
  by (auto simp: find_key_def intro!: preserves_intros)

lemma preserves_version [preserves_intros]:
  fixes env :: "'k gpg_env"
  shows "preserves (calls_safe (ge_service env)) (version env)"
  unfolding preserves_def
proof (intro allI impI)
  fix w :: "'k gpg_world" assume "calls_safe (ge_service env) w"
  then show "calls_safe (ge_service env) (snd (version env w))"
    by (auto simp: version_def assert_binary_not_swapped_def thenP_def bindP_def start_process_def calls_safe_def safe_request_def
        split: prod.splits sum.splits)
qed

text \<open>The operations as calls, and a session of any calls one after another.\<close>

datatype gpg_call =
    List_Keys bool
  | Find_Key str
  | Card_Status
  | Generate_Key str str key_algorithm int str secure_bytes
  | Export_Public_Key str
  | Export_Private_Key str secure_bytes
  | Import_Key bytes
  | Scan_Keys str
  | Delete_Key str bool "secure_bytes option"
  | Encrypt bytes "str list" "str option" "secure_bytes option" bool
  | Decrypt bytes "secure_bytes option"
  | Encrypt_File str str "str list" "secure_bytes option" bool
  | Decrypt_File str str "secure_bytes option"
  | Sign bytes str secure_bytes bool
  | Verify bytes "bytes option"
  | Version

definition done_with :: "('s, 'a) prog \<Rightarrow> ('s, unit) prog" where
  "done_with m = thenP m (retP ())"

fun perform :: "'k gpg_env \<Rightarrow> gpg_call \<Rightarrow> ('k, unit) gpg_prog" where
  "perform env (List_Keys secret) = done_with (list_keys env secret)"
| "perform env (Find_Key fp) = done_with (find_key env fp)"
| "perform env Card_Status = done_with (card_status env)"
| "perform env (Generate_Key n m a l e p) = done_with (generate_key env n m a l e p)"
| "perform env (Export_Public_Key fp) = done_with (export_public_key env fp)"
| "perform env (Export_Private_Key fp p) = done_with (export_private_key env fp p)"
| "perform env (Import_Key b) = done_with (import_key env b)"
| "perform env (Scan_Keys t) = done_with (scan_keys env t)"
| "perform env (Delete_Key fp s p) = delete_key env fp s p"
| "perform env (Encrypt b rs s p t) = done_with (encrypt env b rs s p t)"
| "perform env (Decrypt b p) = done_with (decrypt env b p)"
| "perform env (Encrypt_File s t rs p a) = encrypt_file env s t rs p a"
| "perform env (Decrypt_File s t p) = done_with (decrypt_file env s t p)"
| "perform env (Sign b fp p d) = done_with (sign env b fp p d)"
| "perform env (Verify b d) = done_with (verify env b d)"
| "perform env Version = done_with (version env)"

definition session :: "'k gpg_env \<Rightarrow> gpg_call list \<Rightarrow> 'k gpg_world \<Rightarrow> 'k gpg_world" where
  "session env calls w = fold (\<lambda>c w. snd (perform env c w)) calls w"

lemma preserves_perform: "preserves (calls_safe (ge_service env)) (perform env c)"
  by (cases c)
    (auto simp: done_with_def card_status_def generate_key_def export_public_key_def export_private_key_def import_key_def
      scan_keys_def delete_key_def encrypt_def decrypt_def encrypt_file_def decrypt_file_def sign_def verify_def Let_def split_def
      intro!: preserves_intros split: option.splits list.splits)


section \<open>A replaced binary\<close>

definition replaced :: "gpg_service \<Rightarrow> binary_file option \<Rightarrow> bool" where
  "replaced svc binary \<longleftrightarrow> (case binary of
       None \<Rightarrow> True
     | Some f \<Rightarrow> Some (bf_device f) \<noteq> gs_device svc \<or> Some (bf_inode f) \<noteq> gs_inode svc \<or>
         (\<exists>h. bf_sha256 f = Some h \<and> lower h \<noteq> lower (gs_sha256 svc)))"

lemma replaced_refused:
  assumes "gs_device svc \<noteq> None" "gs_inode svc \<noteq> None" "gs_sha256 svc \<noteq> []" "replaced svc b"
  shows "binary_check svc b = Inl GPGServiceError"
  using assms by (auto simp: binary_check_def replaced_def split: option.splits)

lemma refused_stops:
  fixes env :: "'k gpg_env"
  assumes "binary_check (ge_service env) (gw_binary w) = Inl e"
  shows "preserves (\<lambda>v. v = w) (run_gpg_with env files args input pw status)" "preserves (\<lambda>v. v = w) (version env)"
  using assms
  by (auto simp: preserves_def run_gpg_with_def version_def assert_binary_not_swapped_def thenP_def bindP_def)

lemma refused_perform:
  assumes "binary_check (ge_service env) (gw_binary w) = Inl e"
  shows "preserves (\<lambda>v. v = w) (perform env c)"
proof -
  note r [preserves_intros] = refused_stops [OF assms]
  have l: "preserves (\<lambda>v. v = w) (list_keys env s)" for s
    by (auto simp: list_keys_def secret_storage_def run_gpg_def intro!: preserves_intros r)
  have f: "preserves (\<lambda>v. v = w) (find_key env fp)" for fp
    by (auto simp: find_key_def intro!: preserves_intros l)
  show ?thesis
    by (cases c)
      (auto simp: done_with_def card_status_def generate_key_def export_public_key_def export_private_key_def import_key_def
        scan_keys_def delete_key_def encrypt_def decrypt_def encrypt_file_def decrypt_file_def sign_def verify_def Let_def
        split_def run_gpg_def intro!: preserves_intros r l f split: option.splits list.splits)
qed

text \<open>
  No operation starts a binary that is not the one pinned at start-up: if the path no longer
  leads to a file, or to one with another device, inode or, where the file can be read, another
  SHA-256, a session of any operations leaves everything as it was. A file that can be run but
  not read is the exception: its hash is not compared.
\<close>

theorem replaced_binary_not_started:
  assumes "gs_device (ge_service env) \<noteq> None" "gs_inode (ge_service env) \<noteq> None" "gs_sha256 (ge_service env) \<noteq> []"
    and "replaced (ge_service env) (gw_binary w)"
  shows "session env calls w = w"
  using refused_perform [OF replaced_refused [OF assms]]
  by (induction calls) (auto simp: session_def preserves_def)

section \<open>What a listing and a deletion mean\<close>

text \<open>
  Documented behaviour of GnuPG, with \<open>ring\<close> and \<open>secrets\<close> the keys and the secret keys of a
  keyring: the two listings print them, end well and change nothing.
\<close>

definition lists_keys :: "'k gpg_env \<Rightarrow> ('k \<Rightarrow> listed_key list) \<Rightarrow> ('k \<Rightarrow> listed_key list) \<Rightarrow> bool" where
  "lists_keys env ring secrets \<longleftrightarrow>
     (\<forall>rq k. ''--list-keys'' \<in> set (rq_argv rq) \<longrightarrow> (\<exists>run. ge_process env rq k = (Some run, k) \<and>
        gr_returncode run = 0 \<and> gr_stdout run = print_listing (ring k))) \<and>
     (\<forall>rq k. ''--list-secret-keys'' \<in> set (rq_argv rq) \<and> ''--list-keys'' \<notin> set (rq_argv rq) \<longrightarrow>
        (\<exists>run. ge_process env rq k = (Some run, k) \<and> gr_returncode run = 0 \<and> gr_stdout run = print_listing (secrets k))) \<and>
     (\<forall>k. list_all listing_ok (ring k) \<and> list_all listing_ok (secrets k))"

text \<open>The keys as the program shows them: the public ones, completed from the secret ones.\<close>

definition shown_keys :: "int \<Rightarrow> listed_key list \<Rightarrow> listed_key list \<Rightarrow> key_info list res" where
  "shown_keys now ring secrets =
     bindE (mapE (to_key_info now) (map row_of secrets)) (\<lambda>ss.
     bindE (mapE (to_key_info now) (map row_of ring)) (\<lambda>ps.
     Inr (map (merge_secret False (by_fingerprint ss)) ps)))"

lemma run_listing:
  assumes laws: "lists_keys env ring secrets" and bin: "binary_check (ge_service env) (gw_binary w) = Inr ()"
    and cmd: "a = ''--list-keys'' \<or> a = ''--list-secret-keys'' \<and> gs_binary (ge_service env) \<noteq> ''--list-keys'' \<and>
      gs_home (ge_service env) \<noteq> ''--list-keys''"
  shows "\<exists>run w'. run_gpg env [''--with-colons'', ''--fingerprint'', a] None None False w = (Inr run, w') \<and>
    gw_keyring w' = gw_keyring w \<and> gw_binary w' = gw_binary w \<and> gr_returncode run = 0 \<and>
    parse_colons_keys (gr_stdout run) = map row_of ((if a = ''--list-keys'' then ring else secrets) (gw_keyring w))"
proof -
  define rq where "rq = \<lparr>rq_argv = base_cmd (ge_service env) @ [''--with-colons'', ''--fingerprint'', a],
    rq_input = None, rq_passphrase = None, rq_files = []\<rparr>"
  have req: "gpg_request_of env [] [''--with-colons'', ''--fingerprint'', a] None None False = Inr rq"
    by (simp add: gpg_request_of_def validated_passphrase_bytes_def reject_passphrase_in_argv_def rq_def)
  have argv: "a \<in> set (rq_argv rq)" "a = ''--list-secret-keys'' \<Longrightarrow> ''--list-keys'' \<notin> set (rq_argv rq)"
    using cmd by (auto simp: rq_def base_cmd_def REQUIRED_GPG_ARGS_def)
  have ask: "''--list-keys'' \<in> set (rq_argv rq) \<Longrightarrow> \<exists>run. ge_process env rq (gw_keyring w) = (Some run, gw_keyring w) \<and>
      gr_returncode run = 0 \<and> gr_stdout run = print_listing (ring (gw_keyring w))"
    "''--list-secret-keys'' \<in> set (rq_argv rq) \<Longrightarrow> ''--list-keys'' \<notin> set (rq_argv rq) \<Longrightarrow>
      \<exists>run. ge_process env rq (gw_keyring w) = (Some run, gw_keyring w) \<and>
      gr_returncode run = 0 \<and> gr_stdout run = print_listing (secrets (gw_keyring w))"
    using laws unfolding lists_keys_def by blast+
  have "\<exists>run. ge_process env rq (gw_keyring w) = (Some run, gw_keyring w) \<and> gr_returncode run = 0 \<and>
      gr_stdout run = print_listing ((if a = ''--list-keys'' then ring else secrets) (gw_keyring w))"
  proof (cases "a = ''--list-keys''")
    case True
    then show ?thesis using ask(1) argv(1) by simp
  next
    case False
    then have "a = ''--list-secret-keys''" using cmd by blast
    then show ?thesis using ask(2) argv False by simp
  qed
  then obtain run where run: "ge_process env rq (gw_keyring w) = (Some run, gw_keyring w)" "gr_returncode run = 0"
      "gr_stdout run = print_listing ((if a = ''--list-keys'' then ring else secrets) (gw_keyring w))" by blast
  have ok: "list_all listing_ok (ring k)" "list_all listing_ok (secrets k)" for k
    using laws by (auto simp: lists_keys_def)
  show ?thesis
    using bin run ok
    by (simp add: run_gpg_def run_gpg_with_def assert_binary_not_swapped_def thenP_def bindP_def req start_process_def
        listing_rows)
qed

definition names_ok :: "gpg_service \<Rightarrow> bool" where
  "names_ok s \<longleftrightarrow> gs_binary s \<noteq> ''--list-keys'' \<and> gs_home s \<noteq> ''--list-keys''"

lemma list_keys_shown:
  assumes "lists_keys env ring secrets" "names_ok (ge_service env)" "binary_check (ge_service env) (gw_binary w) = Inr ()"
  shows "\<exists>w'. list_keys env False w = (shown_keys (ge_now env) (ring (gw_keyring w)) (secrets (gw_keyring w)), w') \<and>
    gw_keyring w' = gw_keyring w \<and> gw_binary w' = gw_binary w"
proof -
  obtain run w1 where r: "run_gpg env [''--with-colons'', ''--fingerprint'', ''--list-keys''] None None False w = (Inr run, w1)"
      "gw_keyring w1 = gw_keyring w" "gw_binary w1 = gw_binary w" "gr_returncode run = 0"
      "parse_colons_keys (gr_stdout run) = map row_of (ring (gw_keyring w))"
    using run_listing [OF assms(1,3), of "''--list-keys''"] by auto
  have "binary_check (ge_service env) (gw_binary w1) = Inr ()" using assms(3) r(3) by simp
  then obtain run' w2 where s: "run_gpg env [''--with-colons'', ''--fingerprint'', ''--list-secret-keys''] None None False w1 =
        (Inr run', w2)" "gw_keyring w2 = gw_keyring w" "gw_binary w2 = gw_binary w" "gr_returncode run' = 0"
      "parse_colons_keys (gr_stdout run') = map row_of (secrets (gw_keyring w))"
    using run_listing [OF assms(1), of w1 "''--list-secret-keys''"] assms(2) r(2,3) by (auto simp: names_ok_def)
  show ?thesis
    using r s
    by (simp add: list_keys_def secret_storage_def bindP_def thenP_def require_ok_def key_infos_def shown_keys_def bindE_def
        split: sum.splits)
qed


lemma find_key_not_found:
  assumes "find_key env fp w = (Inl GPGKeyNotFoundError, w')" and "fingerprint_ok fp"
  shows "(\<exists>keys. list_keys env False w = (Inr keys, w') \<and> fp \<notin> ki_fingerprint ` set keys) \<or>
    list_keys env False w = (Inl GPGKeyNotFoundError, w')"
proof -
  have "validate_fingerprint fp = Inr fp"
    using assms(2) by (auto simp: validate_fingerprint_def fingerprint_ok_def)
  then show ?thesis
    using assms(1) by (auto simp: find_key_def bindP_eq_Inl find_None_iff)
qed

lemma mapE_error: "mapE f xs = Inl e \<Longrightarrow> \<exists>x \<in> set xs. f x = Inl e"
  by (induction xs) (auto simp: bindE_eq_Inl)

lemma number_errors: "int_or_zero s = Inl e \<Longrightarrow> e = ValueError" "py_int s = Inl e \<Longrightarrow> e = ValueError"
proof -
  have i: "int_literal t = Inl e \<Longrightarrow> e = ValueError" for t
    by (auto simp: int_literal_def Let_def int_of_digits_def split: if_splits)
  then show p: "py_int s = Inl e \<Longrightarrow> e = ValueError" for s
    by (cases "strip s") (auto simp: py_int_def bindE_eq_Inl split: if_splits)
  then show "int_or_zero s = Inl e \<Longrightarrow> e = ValueError" by (auto simp: int_or_zero_def split: if_splits)
qed

lemma to_key_info_error: "to_key_info now r = Inl e \<Longrightarrow> e \<noteq> GPGKeyNotFoundError"
  by (auto simp: to_key_info_def bindE_eq_Inl from_timestamp_def check_key_info_def dest!: number_errors normalise_fingerprint_error
      split: if_splits)

lemma shown_keys_error: "shown_keys now ring secrets = Inl e \<Longrightarrow> e \<noteq> GPGKeyNotFoundError"
  by (auto simp: shown_keys_def bindE_eq_Inl dest!: mapE_error to_key_info_error)

lemma run_gpg_keeps_binary: "run_gpg env args i pw st w = (Inr run, w') \<Longrightarrow> 
    gw_binary w' = gw_binary w \<and> binary_check (ge_service env) (gw_binary w) = Inr ()"
  using run_gpg_with_calls [of env "[]" args i pw st w "Inr run" w'] by (auto simp: run_gpg_def)

lemma delete_key_leaves:
  assumes laws: "lists_keys env ring secrets" "names_ok (ge_service env)"
    and run: "delete_key env fingerprint including_secret passphrase w = (Inr (), w')"
  shows "\<exists>keys. shown_keys (ge_now env) (ring (gw_keyring w')) (secrets (gw_keyring w')) = Inr keys \<and>
    upper fingerprint \<notin> ki_fingerprint ` set keys"
proof -
  obtain fp proc w1 where v: "validate_fingerprint fingerprint = Inr fp"
    and proc: "(if including_secret then run_gpg env [''--yes'', ''--delete-secret-and-public-key'', fp] None passphrase False
            else run_gpg env [''--yes'', ''--delete-key'', fp] None None False) w = (Inr proc, w1)"
    and chk: "catchP (thenP (find_key env fp) (raiseP GPGProcessError))
       (\<lambda>e. if e = GPGKeyNotFoundError then retP () else raiseP e) w1 = (Inr (), w')"
    using run by (auto simp: delete_key_def bindP_eq_Inr thenP_eq_Inr)
  have fp: "fp = upper fingerprint" "fingerprint_ok fp" using v by (auto simp: validate_fingerprint_ok)
  have bin: "binary_check (ge_service env) (gw_binary w1) = Inr ()"
    using proc by (auto dest: run_gpg_keeps_binary split: if_splits)
  obtain w2 where l: "list_keys env False w1 = (shown_keys (ge_now env) (ring (gw_keyring w1)) (secrets (gw_keyring w1)), w2)"
      "gw_keyring w2 = gw_keyring w1" using list_keys_shown [OF laws bin] by blast
  have "find_key env fp w1 = (Inl GPGKeyNotFoundError, w')"
    using chk by (auto simp: catchP_def thenP_def bindP_def split: prod.splits sum.splits if_splits)
  from find_key_not_found [OF this fp(2)] l show ?thesis
    by (auto simp: fp(1) dest: shown_keys_error)
qed

section \<open>A concrete GnuPG\<close>

definition answer :: "bytes \<Rightarrow> bytes \<Rightarrow> gpg_run" where
  "answer out status = \<lparr>gr_args = [], gr_returncode = 0, gr_stdout = out, gr_stderr = [], gr_status = status\<rparr>"

definition demo_ring :: "listed_key list \<Rightarrow> listed_key list" where
  "demo_ring k = filter listing_ok k"

definition demo_process :: "bytes \<Rightarrow> gpg_request \<Rightarrow> listed_key list \<Rightarrow> gpg_run option \<times> listed_key list" where
  "demo_process status rq k =
     (if ''--list-keys'' \<in> set (rq_argv rq) then (Some (answer (print_listing (demo_ring k)) []), k)
      else if ''--list-secret-keys'' \<in> set (rq_argv rq)
      then (Some (answer (print_listing (filter lk_secret (demo_ring k))) []), k)
      else if ''--delete-key'' \<in> set (rq_argv rq)
      then (Some (answer [] []), filter (\<lambda>l. lk_fingerprint l \<noteq> last (rq_argv rq)) k)
      else (Some (answer ''text'' status), k))"

definition demo_service :: gpg_service where
  "demo_service = \<lparr>gs_binary = ''/usr/bin/gpg'', gs_home = ''/home/alice/.gnupg'', gs_device = Some 1, gs_inode = Some 2,
     gs_sha256 = ''00''\<rparr>"

definition demo_genv :: "bytes \<Rightarrow> listed_key list gpg_env" where
  "demo_genv status = \<lparr>ge_service = demo_service, ge_process = demo_process status, ge_status_fd = ''5'', ge_pass_fd = ''7'',
     ge_now = 0, ge_timestamp = (\<lambda>_. None), ge_sig_path = ''/s'', ge_data_path = ''/d'', ge_resolve = (\<lambda>p. p)\<rparr>"

definition demo_gworld :: "listed_key list gpg_world" where
  "demo_gworld = \<lparr>gw_keyring = [demo_listed], gw_calls = [],
     gw_binary = Some \<lparr>bf_device = 1, bf_inode = 2, bf_sha256 = Some ''00''\<rparr>\<rparr>"

lemma demo_lists: "lists_keys (demo_genv status) demo_ring (\<lambda>k. filter lk_secret (demo_ring k))"
  by (auto simp: lists_keys_def demo_genv_def demo_process_def answer_def demo_ring_def list_all_iff)

lemma demo_service_ok: "names_ok (ge_service (demo_genv status))"
  "binary_check (ge_service (demo_genv status)) (gw_binary demo_gworld) = Inr ()"
  by (simp_all add: names_ok_def demo_genv_def demo_service_def binary_check_def demo_gworld_def)


theorem replaced_binary_not_started_witness:
  "session (demo_genv []) [Version, List_Keys True] (demo_gworld\<lparr>gw_binary := None\<rparr>) = demo_gworld\<lparr>gw_binary := None\<rparr>"
  using replaced_binary_not_started [of "demo_genv []" "demo_gworld\<lparr>gw_binary := None\<rparr>" "[Version, List_Keys True]"]
  by (simp add: demo_genv_def demo_service_def replaced_def)

lemma demo_delete:
  "\<exists>w. delete_key (demo_genv []) (lk_fingerprint demo_listed) False None demo_gworld = (Inr (), w) \<and> gw_keyring w = []"
proof -
  let ?env = "demo_genv []" and ?fp = "lk_fingerprint demo_listed"
  have fp: "?fp = replicate 40 (CHR ''A'')" by (simp add: demo_listed_def)
  have ok: "fingerprint_ok ?fp" unfolding fp by code_simp
  have opt: "''--list-keys'' \<noteq> ?fp" "''--list-secret-keys'' \<noteq> ?fp" "listing_ok demo_listed"
    unfolding fp by (code_simp, code_simp, rule demo_listed_ok)
  from ok have v: "validate_fingerprint ?fp = Inr ?fp" by (simp add: validate_fingerprint_ok)
  let ?run = "run_gpg ?env [''--yes'', ''--delete-key'', ?fp] None None False demo_gworld"
  have "\<exists>proc. fst ?run = Inr proc \<and> gr_returncode proc = 0" "gw_keyring (snd ?run) = []"
      "gw_binary (snd ?run) = gw_binary demo_gworld"
    by (simp_all add: run_gpg_def run_gpg_with_def assert_binary_not_swapped_def thenP_def bindP_def gpg_request_of_def
          validated_passphrase_bytes_def reject_passphrase_in_argv_def start_process_def answer_def base_cmd_def
          REQUIRED_GPG_ARGS_def demo_genv_def demo_process_def demo_gworld_def demo_service_def binary_check_def opt)
  then obtain proc w1 where d: "?run = (Inr proc, w1)" "gr_returncode proc = 0" "gw_keyring w1 = []"
      "gw_binary w1 = gw_binary demo_gworld" by (metis prod.collapse)
  have "binary_check (ge_service ?env) (gw_binary w1) = Inr ()" using demo_service_ok(2) d(4) by simp
  then obtain w2 where l: "list_keys ?env False w1 = (Inr [], w2)" "gw_keyring w2 = []"
    using list_keys_shown [OF demo_lists demo_service_ok(1), of "[]" w1] d(3)
    by (auto simp: shown_keys_def demo_ring_def)
  show ?thesis
    using d l by (simp add: delete_key_def bindP_def thenP_def v require_ok_def answer_def catchP_def find_key_def)
qed

section \<open>A forged import report\<close>

lemma map_filter_member: "x \<in> set xs \<Longrightarrow> f x = Some y \<Longrightarrow> y \<in> set (List.map_filter f xs)"
  by (induction xs) (auto simp: List.map_filter_simps split: option.splits)

text \<open>
  GnuPG shows what a blob holds, and answers its import with a report that carries the user id of
  the imported key, whose author put a line separator and a report for another fingerprint into it.
\<close>

definition reports_forged :: "'k gpg_env \<Rightarrow> str \<Rightarrow> str \<Rightarrow> bytes \<Rightarrow> bool" where
  "reports_forged env name victim rest \<longleftrightarrow> printable name \<and> fingerprint_ok victim \<and> utf8_ok rest \<and>
     (\<forall>rq k run k'. ge_process env rq k = (Some run, k') \<longrightarrow>
        (''--import'' \<in> set (rq_argv rq) \<longrightarrow> gr_status run = import_line (forged_user_id name victim) @ rest) \<and>
        (''--show-keys'' \<in> set (rq_argv rq) \<longrightarrow>
           list_all (\<lambda>row. map_option upper (kr_fingerprint row) \<noteq> Some victim) (parse_colons_keys (gr_stdout run))))"


lemma run_gpg_process:
  assumes "run_gpg env args i pw status w = (Inr proc, w')"
  shows "\<exists>rq run k. ge_process env rq (gw_keyring w) = (Some run, k) \<and> gr_stdout proc = gr_stdout run \<and>
    (status \<longrightarrow> gr_status proc = gr_status run) \<and> set args \<subseteq> set (rq_argv rq)"
proof -
  obtain rq run where r: "gpg_request_of env [] args i pw status = Inr rq" "start_process env GPGProcessError rq w = (Inr run, w')"
      "proc = (if status then run else run\<lparr>gr_status := []\<rparr>)"
    using assms by (auto simp: run_gpg_def run_gpg_with_def assert_binary_not_swapped_def thenP_eq_Inr bindP_eq_Inr)
  obtain res k where p: "ge_process env rq (gw_keyring w) = (res, k)" by fastforce
  with r(2) obtain run' where "res = Some run'" "run = run'\<lparr>gr_args := rq_argv rq\<rparr>"
    by (auto simp: start_process_def split: option.splits)
  with p r(3) gpg_request_of_Inr(4) [OF r(1)] show ?thesis
    by (intro exI [of _ rq] exI [of _ run'] exI [of _ k]) auto
qed

lemma forged_reported:
  assumes "reports_forged env name victim rest" "import_key env armored w = (Inr fps, w')"
  shows "victim \<in> set fps"
proof -
  have v: "printable name" "fingerprint_ok victim" "utf8_ok rest" using assms(1) by (simp_all add: reports_forged_def)
  obtain proc where r: "run_gpg env [''--import''] (Some armored) None True w = (Inr proc, w')"
    "mapE validate_fingerprint (List.map_filter import_ok (parse_status (gr_status proc))) = Inr fps"
    using assms(2) by (auto simp: import_key_def bindP_eq_Inr Let_def split: if_splits)
  have "gr_status proc = import_line (forged_user_id name victim) @ rest"
    using run_gpg_process [OF r(1)] assms(1) unfolding reports_forged_def by fastforce
  then have "[''IMPORT_OK'', ''1'', victim] \<in> set (parse_status (gr_status proc))"
    using forged_record_seen [OF v] by simp
  then have "victim \<in> set (List.map_filter import_ok (parse_status (gr_status proc)))"
    by (rule map_filter_member) (simp add: import_ok_def)
  then show ?thesis using validated_fingerprints [OF r(2)] v(2) by (metis imageI list.set_map upper_fingerprint)
qed

lemma scan_shows:
  assumes "reports_forged env name victim rest" "scan_keys env armored w = (Inr rows, w')"
  shows "list_all (\<lambda>row. map_option upper (kr_fingerprint row) \<noteq> Some victim) rows"
proof -
  obtain proc w1 where r: "run_gpg env [''--with-colons'', ''--fingerprint'', ''--show-keys''] (Some armored) None False w = (Inr proc, w1)"
      "rows = parse_colons_keys (gr_stdout proc)"
    using assms(2) by (auto simp: scan_keys_def bindP_eq_Inr thenP_eq_Inr)
  then show ?thesis using run_gpg_process [OF r(1)] assms(1) unfolding reports_forged_def by fastforce
qed

lemma forged_report:
  "List.map_filter import_ok (parse_status (import_line (forged_user_id ''Mallory'' (replicate 40 (CHR ''A''))))) =
   [replicate 40 (CHR ''A'')]"
  by code_simp

lemma demo_fingerprint_ok:
  "fingerprint_ok (replicate 40 (CHR ''A''))" "validate_fingerprint (replicate 40 (CHR ''A'')) = Inr (replicate 40 (CHR ''A''))"
proof -
  show f: "fingerprint_ok (replicate 40 (CHR ''A''))" by code_simp
  then show "validate_fingerprint (replicate 40 (CHR ''A'')) = Inr (replicate 40 (CHR ''A''))"
    by (metis upper_fingerprint validate_fingerprint_ok)
qed

end
