(* ===== verification/Card_Scripts.thy ===== *)
theory Card_Scripts
  imports Gpg_Service Smartcard
begin

text \<open>
  \<open>services/card_scripts.py\<close> and the half of \<open>gpg_service.py\<close> that plays a script: the queues of
  answers with the sharing of list objects and the wiping of buffers, the four scripts, and the
  thread that reads GnuPG's prompts from the status pipe and writes the answers. The lemmas show
  that the answers do not depend on how the stream is cut, what is answered to which prompt, and
  what wiping leaves behind.
\<close>

section \<open>Prompt keywords\<close>

definition PROMPT_CARD_MENU :: str where "PROMPT_CARD_MENU = ''cardedit.prompt''"
definition PROMPT_KEY_MENU :: str where "PROMPT_KEY_MENU = ''keyedit.prompt''"
definition PROMPT_PIN_MENU :: str where "PROMPT_PIN_MENU = ''cardedit.change_pin.menu''"
definition PROMPT_SLOT :: str where "PROMPT_SLOT = ''cardedit.genkeys.storekeytype''"
definition PROMPT_REPLACE_KEYS :: str where "PROMPT_REPLACE_KEYS = ''cardedit.genkeys.replace_keys''"
definition PROMPT_BACKUP_ENC :: str where "PROMPT_BACKUP_ENC = ''cardedit.genkeys.backup_enc''"
definition PROMPT_EXPIRY :: str where "PROMPT_EXPIRY = ''keygen.valid''"
definition PROMPT_NAME :: str where "PROMPT_NAME = ''keygen.name''"
definition PROMPT_EMAIL :: str where "PROMPT_EMAIL = ''keygen.email''"
definition PROMPT_COMMENT :: str where "PROMPT_COMMENT = ''keygen.comment''"
definition PROMPT_USERID_CMD :: str where "PROMPT_USERID_CMD = ''keygen.userid.cmd''"
definition PROMPT_SAVE :: str where "PROMPT_SAVE = ''keyedit.save.okay''"
definition PROMPT_USE_PRIMARY :: str where "PROMPT_USE_PRIMARY = ''keyedit.keytocard.use_primary''"

definition SECRET_PROMPTS :: "str list" where
  "SECRET_PROMPTS = [''passphrase.enter'', ''passphrase.ask'', ''passphrase.pin.ask'', ''passphrase.adminpin.ask'',
     ''passphrase.resetcode.ask'']"

definition STATUS_OK :: str where "STATUS_OK = ''SC_OP_SUCCESS''"
definition STATUS_FAILURE :: str where "STATUS_FAILURE = ''SC_OP_FAILURE''"
definition YES :: str where "YES = ''y''"
definition NO :: str where "NO = ''n''"

lemmas keyword_defs = PROMPT_CARD_MENU_def PROMPT_KEY_MENU_def PROMPT_PIN_MENU_def PROMPT_SLOT_def PROMPT_REPLACE_KEYS_def
  PROMPT_BACKUP_ENC_def PROMPT_EXPIRY_def PROMPT_NAME_def PROMPT_EMAIL_def PROMPT_COMMENT_def PROMPT_USERID_CMD_def
  PROMPT_SAVE_def PROMPT_USE_PRIMARY_def SECRET_PROMPTS_def

section \<open>\<open>PromptScript\<close>\<close>

text \<open>
  Memory holds the byte arrays and the list objects the script has made, each named by its index:
  a list object holds the arrays queued in it, \<open>_queues\<close> names the list object of a keyword, and
  several keywords may name the same one.
\<close>

record prompt_script =
  ps_memory :: "bytes list"
  ps_lists :: "nat list list"
  ps_queues :: "str \<rightharpoonup> nat"
  ps_buffers :: "nat list"

datatype answer = Text str | Secret secure_bytes

fun slot_value :: "card_slot \<Rightarrow> str" where
  "slot_value SIGNATURE = ''1''"
| "slot_value ENCRYPTION = ''2''"
| "slot_value AUTHENTICATION = ''3''"

definition new_script :: prompt_script where
  "new_script = \<lparr>ps_memory = [], ps_lists = [], ps_queues = Map.empty, ps_buffers = []\<rparr>"

definition to_buffer :: "answer \<Rightarrow> bytes res" where
  "to_buffer a = (case a of Text t \<Rightarrow> Inr t | Secret s \<Rightarrow> sb_view s)"

definition queue_of :: "str \<Rightarrow> prompt_script \<Rightarrow> nat \<times> prompt_script" where
  "queue_of keyword ps = (case ps_queues ps keyword of
       Some q \<Rightarrow> (q, ps)
     | None \<Rightarrow> (length (ps_lists ps),
         ps\<lparr>ps_lists := ps_lists ps @ [[]], ps_queues := (ps_queues ps)(keyword \<mapsto> length (ps_lists ps))\<rparr>))"

definition enqueue :: "nat \<Rightarrow> bytes \<Rightarrow> prompt_script \<Rightarrow> prompt_script" where
  "enqueue q b ps = ps\<lparr>ps_memory := ps_memory ps @ [b], ps_buffers := ps_buffers ps @ [length (ps_memory ps)],
     ps_lists := (ps_lists ps)[q := ps_lists ps ! q @ [length (ps_memory ps)]]\<rparr>"

fun add_all :: "nat \<Rightarrow> answer list \<Rightarrow> prompt_script \<Rightarrow> prompt_script res" where
  "add_all q [] ps = Inr ps"
| "add_all q (a # as) ps = bindE (to_buffer a) (\<lambda>b. add_all q as (enqueue q b ps))"

definition script_add :: "str \<Rightarrow> answer list \<Rightarrow> prompt_script \<Rightarrow> prompt_script res" where
  "script_add keyword answers ps = (case queue_of keyword ps of (q, ps1) \<Rightarrow> add_all q answers ps1)"

definition script_share :: "str list \<Rightarrow> answer list \<Rightarrow> prompt_script \<Rightarrow> prompt_script res" where
  "script_share keywords answers ps = (case keywords of
       [] \<Rightarrow> Inr ps
     | first # others \<Rightarrow> bindE (script_add first answers ps) (\<lambda>ps1.
         Inr (ps1\<lparr>ps_queues := fold (\<lambda>k m. m(k := ps_queues ps1 first)) others (ps_queues ps1)\<rparr>)))"

definition queued :: "str \<Rightarrow> prompt_script \<Rightarrow> bytes list" where
  "queued keyword ps = (case ps_queues ps keyword of
       None \<Rightarrow> [] | Some q \<Rightarrow> map (\<lambda>i. ps_memory ps ! i) (ps_lists ps ! q))"

definition script_take :: "str \<Rightarrow> prompt_script \<Rightarrow> bytes option \<times> prompt_script" where
  "script_take keyword ps = (case ps_queues ps keyword of
       None \<Rightarrow> (None, ps)
     | Some q \<Rightarrow> (case ps_lists ps ! q of
           [] \<Rightarrow> (None, ps)
         | i # rest \<Rightarrow> (Some (ps_memory ps ! i), ps\<lparr>ps_lists := (ps_lists ps)[q := rest]\<rparr>)))"

definition pending :: "prompt_script \<Rightarrow> str \<rightharpoonup> nat" where
  "pending ps = (\<lambda>keyword. case ps_queues ps keyword of
       None \<Rightarrow> None
     | Some q \<Rightarrow> if ps_lists ps ! q = [] then None else Some (length (ps_lists ps ! q)))"

definition wipe :: "prompt_script \<Rightarrow> prompt_script" where
  "wipe ps = ps\<lparr>ps_memory := fold (\<lambda>i m. m[i := zero_mutable_buffer (m ! i)]) (ps_buffers ps) (ps_memory ps),
     ps_buffers := [], ps_queues := Map.empty\<rparr>"

section \<open>The scripts\<close>

definition reject_control_characters :: "secure_bytes \<Rightarrow> unit res" where
  "reject_control_characters value = bindE (sb_view value) (\<lambda>view.
     if list_ex framing_byte view then Inl ValueError
     else if view = [] then Inl ValueError
     else Inr ())"

definition change_pin_script :: "card_pin \<Rightarrow> secure_bytes \<Rightarrow> secure_bytes \<Rightarrow> prompt_script res" where
  "change_pin_script pin current new =
     bindE (reject_control_characters current) (\<lambda>_.
     bindE (reject_control_characters new) (\<lambda>_.
     bindE (script_add PROMPT_CARD_MENU [Text ''admin'', Text ''passwd'', Text ''quit''] new_script) (\<lambda>s1.
     bindE (script_add PROMPT_PIN_MENU [Text (if pin = USER_PIN then ''1'' else ''3''), Text ''Q''] s1) (\<lambda>s2.
     script_share SECRET_PROMPTS [Secret current, Secret new, Secret new] s2))))"

definition unblock_pin_script :: "secure_bytes \<Rightarrow> secure_bytes \<Rightarrow> prompt_script res" where
  "unblock_pin_script admin_pin new_user_pin =
     bindE (reject_control_characters admin_pin) (\<lambda>_.
     bindE (reject_control_characters new_user_pin) (\<lambda>_.
     bindE (script_add PROMPT_CARD_MENU [Text ''admin'', Text ''passwd'', Text ''quit''] new_script) (\<lambda>s1.
     bindE (script_add PROMPT_PIN_MENU [Text ''2'', Text ''Q''] s1) (\<lambda>s2.
     script_share SECRET_PROMPTS [Secret admin_pin, Secret new_user_pin, Secret new_user_pin] s2))))"

definition keytocard_script :: "card_slot \<Rightarrow> int \<Rightarrow> secure_bytes \<Rightarrow> secure_bytes \<Rightarrow> prompt_script res" where
  "keytocard_script slot key_index key_passphrase admin_pin =
     bindE (reject_control_characters admin_pin) (\<lambda>_.
     bindE (if key_index > 0
            then script_add PROMPT_KEY_MENU [Text (''key '' @ show_int key_index), Text ''keytocard'', Text ''save''] new_script
            else bindE (script_add PROMPT_KEY_MENU [Text ''keytocard'', Text ''save''] new_script)
              (script_add PROMPT_USE_PRIMARY [Text YES])) (\<lambda>s1.
     bindE (script_add PROMPT_SLOT [Text (slot_value slot)] s1) (\<lambda>s2.
     bindE (script_add PROMPT_SAVE [Text YES] s2) (\<lambda>s3.
     script_share SECRET_PROMPTS [Secret key_passphrase, Secret admin_pin] s3))))"

definition generate_on_card_script ::
    "secure_bytes \<Rightarrow> secure_bytes \<Rightarrow> str \<Rightarrow> str \<Rightarrow> str \<Rightarrow> bool \<Rightarrow> bool \<Rightarrow> prompt_script res" where
  "generate_on_card_script admin_pin user_pin name email expiry off_card_backup replace_existing =
     bindE (reject_control_characters admin_pin) (\<lambda>_.
     bindE (reject_control_characters user_pin) (\<lambda>_.
     bindE (script_add PROMPT_CARD_MENU [Text ''admin'', Text ''generate'', Text ''quit''] new_script) (\<lambda>s1.
     bindE (script_add PROMPT_REPLACE_KEYS [Text (if replace_existing then YES else NO)] s1) (\<lambda>s2.
     bindE (script_add PROMPT_BACKUP_ENC [Text (if off_card_backup then YES else NO)] s2) (\<lambda>s3.
     bindE (script_add PROMPT_EXPIRY [Text expiry] s3) (\<lambda>s4.
     bindE (script_add PROMPT_NAME [Text name] s4) (\<lambda>s5.
     bindE (script_add PROMPT_EMAIL [Text email] s5) (\<lambda>s6.
     bindE (script_add PROMPT_COMMENT [Text []] s6) (\<lambda>s7.
     bindE (script_add PROMPT_USERID_CMD [Text ''O''] s7) (\<lambda>s8.
     script_share SECRET_PROMPTS [Secret admin_pin, Secret user_pin] s8))))))))))"

fun card_operation_failed :: "str list list \<Rightarrow> str option" where
  "card_operation_failed [] = None"
| "card_operation_failed (r # rs) =
     (if r \<noteq> [] \<and> hd r = STATUS_FAILURE then Some (if length r > 1 then r ! 1 else ''unknown'')
      else card_operation_failed rs)"

definition card_operation_succeeded :: "str list list \<Rightarrow> bool" where
  "card_operation_succeeded records \<longleftrightarrow> list_ex (\<lambda>r. r \<noteq> [] \<and> hd r = STATUS_OK) records"

section \<open>Answering the prompts\<close>

definition STATUS_BUF_LIMIT :: nat where "STATUS_BUF_LIMIT = 1 * 1024 * 1024"

text \<open>
  What the thread has done: \<open>dg_stopped\<close> after a write that raised \<open>OSError\<close>, which ends it. The
  answers are the lines it wrote whole; \<open>accepts n\<close> says whether the write of the answer number
  \<open>n\<close> succeeds.
\<close>

record dialogue =
  dg_script :: prompt_script
  dg_written :: "bytes list"
  dg_answering :: bool
  dg_stopped :: bool
  dg_unanswered :: "str option"

record conversation =
  cv_buffer :: bytes
  cv_transcript :: bytes
  cv_dialogue :: dialogue

definition answer_line :: "(nat \<Rightarrow> bool) \<Rightarrow> bytes \<Rightarrow> dialogue \<Rightarrow> dialogue" where
  "answer_line accepts line d =
     (if dg_stopped d \<or> \<not> dg_answering d then d
      else (case prompt_keyword line of
          None \<Rightarrow> d
        | Some keyword \<Rightarrow> (case script_take keyword (dg_script d) of
            (None, ps) \<Rightarrow> d\<lparr>dg_script := ps, dg_answering := False,
               dg_unanswered := (case dg_unanswered d of None \<Rightarrow> Some keyword | Some k \<Rightarrow> Some k)\<rparr>
          | (Some a, ps) \<Rightarrow>
              if accepts (length (dg_written d))
              then d\<lparr>dg_script := ps, dg_written := dg_written d @ [a @ [newline]]\<rparr>
              else d\<lparr>dg_script := ps, dg_stopped := True\<rparr>)))"

lemma after_line_shorter: "c \<in> set b \<Longrightarrow> length (tl (dropWhile (\<lambda>x. x \<noteq> c) b)) < length b"
  by (induction b) (auto simp: less_SucI)

text \<open>The inner loop takes the complete lines off the buffer.\<close>

function drain_lines :: "(nat \<Rightarrow> bool) \<Rightarrow> bytes \<Rightarrow> dialogue \<Rightarrow> bytes \<times> dialogue" where
  "drain_lines accepts buffer d =
     (if newline \<in> set buffer
      then drain_lines accepts (tl (dropWhile (\<lambda>c. c \<noteq> newline) buffer)) (answer_line accepts (takeWhile (\<lambda>c. c \<noteq> newline) buffer) d)
      else (buffer, d))"
  by pat_completeness auto
termination by (relation "measure (\<lambda>(_, b, _). length b)") (auto simp del: length_tl intro: after_line_shorter)

declare drain_lines.simps [simp del]

definition read_chunk :: "(nat \<Rightarrow> bool) \<Rightarrow> bytes \<Rightarrow> conversation \<Rightarrow> conversation" where
  "read_chunk accepts chunk cv =
     (if dg_stopped (cv_dialogue cv) then cv
      else
        let transcript = (if length (cv_transcript cv) + length chunk \<le> STATUS_BUF_LIMIT
              then cv_transcript cv @ chunk else cv_transcript cv) in
        case drain_lines accepts (cv_buffer cv @ chunk) (cv_dialogue cv) of (buffer, d) \<Rightarrow>
          \<lparr>cv_buffer = buffer, cv_transcript = transcript, cv_dialogue = d\<rparr>)"

definition start_dialogue :: "prompt_script \<Rightarrow> dialogue" where
  "start_dialogue ps = \<lparr>dg_script = ps, dg_written = [], dg_answering = True, dg_stopped = False, dg_unanswered = None\<rparr>"

text \<open>The chunks are what the reads return until the end of the stream, or until one fails.\<close>

definition answer_prompts :: "(nat \<Rightarrow> bool) \<Rightarrow> prompt_script \<Rightarrow> bytes list \<Rightarrow> conversation" where
  "answer_prompts accepts ps chunks =
     fold (read_chunk accepts) chunks \<lparr>cv_buffer = [], cv_transcript = [], cv_dialogue = start_dialogue ps\<rparr>"

section \<open>The answers do not depend on the reads\<close>

definition complete_lines :: "bytes \<Rightarrow> bytes list" where
  "complete_lines stream = butlast (split_on newline stream)"

definition prompts_of :: "bytes \<Rightarrow> str list" where
  "prompts_of stream = List.map_filter prompt_keyword (complete_lines stream)"

lemma at_newline: "newline \<in> set b \<Longrightarrow>
    b = takeWhile (\<lambda>c. c \<noteq> newline) b @ newline # tl (dropWhile (\<lambda>c. c \<noteq> newline) b)"
  by (induction b) auto

lemma split_at_newline: "newline \<in> set b \<Longrightarrow>
    split_on newline b = takeWhile (\<lambda>c. c \<noteq> newline) b # split_on newline (tl (dropWhile (\<lambda>c. c \<noteq> newline) b))"
  by (induction b) auto

lemma drain_lines_eq: "drain_lines accepts b d =
    (last (split_on newline b), fold (answer_line accepts) (complete_lines b) d)"
proof (induction accepts b d rule: drain_lines.induct)
  case (1 accepts b d)
  show ?case
  proof (cases "newline \<in> set b")
    case True
    then show ?thesis
      using 1 [OF True] by (subst drain_lines.simps) (simp add: split_at_newline complete_lines_def)
  next
    case False
    then show ?thesis by (subst drain_lines.simps) (simp add: split_on_no_sep complete_lines_def)
  qed
qed

lemma split_on_concat: "split_on d (xs @ ys) = butlast (split_on d xs) @ split_on d (last (split_on d xs) @ ys)"
proof (induction xs)
  case (Cons x xs)
  show ?case
  proof (cases "x = d")
    case False
    then show ?thesis using Cons split_not_Nil [of d xs] by (cases "split_on d xs") (auto split: list.splits)
  qed (use Cons in simp)
qed simp

lemma last_no_newline: "d \<notin> set (last (split_on d xs))"
proof (induction xs)
  case (Cons x xs)
  then show ?case using split_not_Nil [of d xs] by (cases "split_on d xs") (auto split: list.splits)
qed simp

lemma complete_lines_append:
  "complete_lines (xs @ ys) = complete_lines xs @ complete_lines (last (split_on newline xs) @ ys)"
  "last (split_on newline (xs @ ys)) = last (split_on newline (last (split_on newline xs) @ ys))"
  unfolding complete_lines_def split_on_concat [of newline xs ys] by (simp_all add: butlast_append)

lemma stopped_fold: "dg_stopped d \<Longrightarrow> fold (answer_line accepts) ls d = d"
  by (induction ls) (simp_all add: answer_line_def)

lemma read_chunks:
  assumes "\<not> dg_stopped (cv_dialogue cv) \<Longrightarrow> split_on newline (cv_buffer cv) = [cv_buffer cv]"
  shows "cv_dialogue (fold (read_chunk accepts) chunks cv) =
    fold (answer_line accepts) (complete_lines (cv_buffer cv @ concat chunks)) (cv_dialogue cv)"
  using assms
proof (induction chunks arbitrary: cv)
  case (Cons c cs)
  show ?case
  proof (cases "dg_stopped (cv_dialogue cv)")
    case True
    then show ?thesis using Cons.IH [of cv] by (simp add: stopped_fold read_chunk_def)
  next
    case False
    let ?b = "cv_buffer cv @ c"
    have step: "cv_buffer (read_chunk accepts c cv) = last (split_on newline ?b)"
        "cv_dialogue (read_chunk accepts c cv) = fold (answer_line accepts) (complete_lines ?b) (cv_dialogue cv)"
      using False by (simp_all add: read_chunk_def drain_lines_eq Let_def)
    have "split_on newline (last (split_on newline ?b)) = [last (split_on newline ?b)]"
      by (metis split_on_no_sep last_no_newline)
    then show ?thesis
      using Cons.IH [of "read_chunk accepts c cv"] complete_lines_append(1) [of ?b "concat cs"] by (simp add: step)
  qed
next
  case Nil
  then show ?case by (cases "dg_stopped (cv_dialogue cv)") (simp_all add: stopped_fold complete_lines_def)
qed

text \<open>
  The conversation, with the pipes and the chunks taken away: the answers to the prompts of the
  stream in their order, until one has no answer or the pipe refuses a line.
\<close>

fun replies :: "(str \<Rightarrow> 's \<Rightarrow> 'a option \<times> 's) \<Rightarrow> str list \<Rightarrow> 's \<Rightarrow> (str \<times> 'a) list" where
  "replies tk [] ps = []"
| "replies tk (k # ks) ps = (case tk k ps of
     (None, ps') \<Rightarrow> []
   | (Some a, ps') \<Rightarrow> (k, a) # replies tk ks ps')"

fun unanswered :: "(str \<Rightarrow> 's \<Rightarrow> 'a option \<times> 's) \<Rightarrow> str list \<Rightarrow> 's \<Rightarrow> str option" where
  "unanswered tk [] ps = None"
| "unanswered tk (k # ks) ps = (case tk k ps of
     (None, ps') \<Rightarrow> Some k
   | (Some a, ps') \<Rightarrow> unanswered tk ks ps')"

lemma not_answering_fold: "\<not> dg_answering d \<Longrightarrow> fold (answer_line accepts) ls d = d"
  by (induction ls) (simp_all add: answer_line_def)

definition answered :: "(nat \<Rightarrow> bool) \<Rightarrow> dialogue \<Rightarrow> str list \<Rightarrow> dialogue \<Rightarrow> bool" where
  "answered accepts d ks d' \<longleftrightarrow>
     (let rs = replies script_take ks (dg_script d) in
      \<exists>n. dg_written d' = dg_written d @ map (\<lambda>(_, a). a @ [newline]) (take n rs) \<and>
        (if dg_stopped d' then n < length rs \<and> \<not> accepts (length (dg_written d) + n)
         else n = length rs \<and> dg_unanswered d' = unanswered script_take ks (dg_script d)))"

lemma answered_none: "script_take k (dg_script d) = (None, ps) \<Longrightarrow> \<not> dg_stopped d \<Longrightarrow>
    answered accepts d (k # ks) (d\<lparr>dg_script := ps, dg_answering := False, dg_unanswered := Some k\<rparr>)"
  by (simp add: answered_def)

lemma answered_refused: "script_take k (dg_script d) = (Some a, ps) \<Longrightarrow> \<not> accepts (length (dg_written d)) \<Longrightarrow>
    answered accepts d (k # ks) (d\<lparr>dg_script := ps, dg_stopped := True\<rparr>)"
  by (auto simp: answered_def Let_def intro!: exI [of _ "0::nat"])

lemma answered_step:
  assumes "script_take k (dg_script d) = (Some a, ps)"
    and "answered accepts (d\<lparr>dg_script := ps, dg_written := dg_written d @ [a @ [newline]]\<rparr>) ks d'"
  shows "answered accepts d (k # ks) d'"
proof -
  let ?rs = "replies script_take ks ps" and ?d = "d\<lparr>dg_script := ps, dg_written := dg_written d @ [a @ [newline]]\<rparr>"
  have d: "dg_script ?d = ps" "dg_written ?d = dg_written d @ [a @ [newline]]" by simp_all
  obtain n where n: "dg_written d' = (dg_written d @ [a @ [newline]]) @ map (\<lambda>(_, a). a @ [newline]) (take n ?rs)"
      "if dg_stopped d' then n < length ?rs \<and> \<not> accepts (length (dg_written d @ [a @ [newline]]) + n)
       else n = length ?rs \<and> dg_unanswered d' = unanswered script_take ks ps"
    using assms(2) unfolding answered_def Let_def d by blast
  show ?thesis
    unfolding answered_def Let_def
    by (rule exI [of _ "Suc n"], cases "dg_stopped d'") (use n assms(1) in auto)
qed

lemma fold_answers:
  assumes "dg_answering d" "\<not> dg_stopped d" "dg_unanswered d = None"
  shows "answered accepts d (List.map_filter prompt_keyword ls) (fold (answer_line accepts) ls d)"
  using assms
proof (induction ls arbitrary: d)
  case Nil
  then show ?case by (simp add: List.map_filter_simps answered_def)
next
  case (Cons l ls)
  show ?case
  proof (cases "prompt_keyword l")
    case None
    then have "answer_line accepts l d = d" by (simp add: answer_line_def)
    with Cons None show ?thesis by (simp add: List.map_filter_simps)
  next
    case (Some k)
    then have ks: "List.map_filter prompt_keyword (l # ls) = k # List.map_filter prompt_keyword ls"
      by (simp add: List.map_filter_simps)
    obtain r ps where t: "script_take k (dg_script d) = (r, ps)" by fastforce
    consider "r = None" | a where "r = Some a" "\<not> accepts (length (dg_written d))"
      | a where "r = Some a" "accepts (length (dg_written d))" by (cases r) auto
    then show ?thesis
    proof cases
      case 1
      then have "answer_line accepts l d = d\<lparr>dg_script := ps, dg_answering := False, dg_unanswered := Some k\<rparr>"
        using Cons.prems Some t by (simp add: answer_line_def)
      with answered_none [of k d ps] Cons.prems(2) t 1 show ?thesis unfolding ks by (simp add: not_answering_fold)
    next
      case 2
      then have "answer_line accepts l d = d\<lparr>dg_script := ps, dg_stopped := True\<rparr>"
        using Cons.prems Some t by (simp add: answer_line_def)
      with answered_refused [of k d _ ps accepts] t 2 show ?thesis unfolding ks by (simp add: stopped_fold)
    next
      case 3
      then have s: "answer_line accepts l d = d\<lparr>dg_script := ps, dg_written := dg_written d @ [a @ [newline]]\<rparr>"
        using Cons.prems Some t by (simp add: answer_line_def)
      show ?thesis
        unfolding ks fold_simps s using t 3 Cons.prems by (intro answered_step [OF _ Cons.IH]) simp_all
    qed
  qed
qed

lemma answers_written:
  "answered accepts (start_dialogue ps) (prompts_of (concat chunks)) (cv_dialogue (answer_prompts accepts ps chunks))"
proof -
  have "cv_dialogue (answer_prompts accepts ps chunks) =
      fold (answer_line accepts) (complete_lines (concat chunks)) (start_dialogue ps)"
    by (simp add: answer_prompts_def read_chunks)
  then show ?thesis
    using fold_answers [of "start_dialogue ps" accepts "complete_lines (concat chunks)"]
    by (simp add: start_dialogue_def prompts_of_def)
qed

text \<open>
  C10. However the status stream is cut into reads, the answers are those of the prompts in its
  complete lines: the lines written are the answers the script holds, prompt by prompt and in
  order, and stop at the first prompt without an answer, which is the one reported; if the pipe
  refuses an answer they are the ones before it.
\<close>

theorem answers_independent_of_reads:
  "let d = cv_dialogue (answer_prompts accepts ps chunks); rs = replies script_take (prompts_of (concat chunks)) ps in
   \<exists>n. dg_written d = map (\<lambda>(_, a). a @ [newline]) (take n rs) \<and>
     (if dg_stopped d then n < length rs \<and> \<not> accepts n
      else n = length rs \<and> dg_unanswered d = unanswered script_take (prompts_of (concat chunks)) ps)"
proof -
  have "dg_script (start_dialogue ps) = ps" "dg_written (start_dialogue ps) = []" by (simp_all add: start_dialogue_def)
  then show ?thesis
    using answers_written [of accepts ps chunks]
    by (simp only: answered_def Let_def append_Nil list.size(3) add_0)
qed

section \<open>Queues of answers\<close>

text \<open>
  What the player of a script relies on: every keyword has at most one queue, which several may
  share; an answer is taken from the front of it and no other queue changes.
\<close>

locale answer_queues =
  fixes tk :: "str \<Rightarrow> 's \<Rightarrow> 'a option \<times> 's"
    and queue :: "'s \<Rightarrow> str \<Rightarrow> nat option"
    and content :: "'s \<Rightarrow> nat \<Rightarrow> 'a list"
    and inv :: "'s \<Rightarrow> bool"
  assumes take_None: "inv s \<Longrightarrow> tk k s = (None, s') \<Longrightarrow> s' = s"
    and take_Some: "inv s \<Longrightarrow> tk k s = (Some a, s') \<Longrightarrow>
      (\<exists>q. queue s k = Some q \<and> content s q = a # content s' q \<and> (\<forall>r. r \<noteq> q \<longrightarrow> content s' r = content s r)) \<and>
      queue s' = queue s \<and> inv s'"

context answer_queues
begin

text \<open>The answers taken from a queue are its first ones, in order, whatever is asked in between.\<close>

lemma replies_in_order:
  assumes "inv s"
  shows "prefix (map snd (filter (\<lambda>(k, a). queue s k = Some q) (replies tk ks s))) (content s q)"
  using assms
proof (induction ks arbitrary: s)
  case (Cons k ks)
  show ?case
  proof (cases "tk k s")
    case (Pair r s')
    show ?thesis
    proof (cases r)
      case (Some a)
      with Pair take_Some [OF Cons.prems, of k a s'] have t: "queue s' = queue s" "inv s'"
          "queue s k = Some q' \<Longrightarrow> content s q' = a # content s' q' \<and> (\<forall>r. r \<noteq> q' \<longrightarrow> content s' r = content s r)" for q'
        by auto
      have "prefix (map snd (filter (\<lambda>(k, a). queue s k = Some q) (replies tk ks s'))) (content s' q)"
        using Cons.IH [OF t(2)] t(1) by simp
      then show ?thesis
        using t(3) take_Some [OF Cons.prems, of k a s'] Pair Some by (cases "queue s k = Some q") auto
    qed (use Pair in simp)
  qed
qed simp

lemma replies_from_queue:
  assumes "inv s" "(k, a) \<in> set (replies tk ks s)"
  shows "\<exists>q. queue s k = Some q \<and> a \<in> set (content s q)"
  using assms
proof (induction ks arbitrary: s)
  case (Cons k' ks)
  obtain r s' where p: "tk k' s = (r, s')" by fastforce
  with Cons.prems(2) obtain b where b: "r = Some b" by (cases r) auto
  obtain q where q: "queue s k' = Some q" "content s q = b # content s' q"
      "\<forall>r. r \<noteq> q \<longrightarrow> content s' r = content s r" "queue s' = queue s" "inv s'"
    using take_Some [OF Cons.prems(1), of k' b s'] p b by auto
  show ?case
  proof (cases "(k, a) = (k', b)")
    case False
    then have "(k, a) \<in> set (replies tk ks s')" using Cons.prems(2) p b by auto
    from Cons.IH [OF q(5) this] q show ?thesis by (metis list.set_intros(2))
  qed (use q in auto)
qed simp

end

definition script_ok :: "prompt_script \<Rightarrow> bool" where
  "script_ok ps \<longleftrightarrow> (\<forall>q \<in> ran (ps_queues ps). q < length (ps_lists ps)) \<and>
     (\<forall>l \<in> set (ps_lists ps). \<forall>i \<in> set l. i < length (ps_memory ps)) \<and>
     set (ps_buffers ps) = {..<length (ps_memory ps)}"

definition list_content :: "prompt_script \<Rightarrow> nat \<Rightarrow> bytes list" where
  "list_content ps q = (if q < length (ps_lists ps) then map (\<lambda>i. ps_memory ps ! i) (ps_lists ps ! q) else [])"

lemma take_keeps_ok: "script_ok ps \<Longrightarrow> script_take k ps = (a, ps') \<Longrightarrow> script_ok ps'"
proof -
  assume ok: "script_ok ps" and t: "script_take k ps = (a, ps')"
  show ?thesis
  proof (cases "ps_queues ps k")
    case (Some q)
    then have q: "q < length (ps_lists ps)" using ok by (auto simp: script_ok_def ran_def)
    show ?thesis
    proof (cases "ps_lists ps ! q")
      case (Cons i rest)
      have "ps_lists ps ! q \<in> set (ps_lists ps)" using q by (rule nth_mem)
      with Cons have "i # rest \<in> set (ps_lists ps)" by simp
      then show ?thesis
        using ok t Some Cons q by (auto simp: script_take_def script_ok_def dest!: set_update_subset_insert [THEN subsetD])
    qed (use ok t Some in \<open>auto simp: script_take_def\<close>)
  qed (use ok t in \<open>auto simp: script_take_def\<close>)
qed

interpretation answers: answer_queues script_take ps_queues list_content script_ok
proof
  fix k and s s' :: prompt_script
  assume "script_ok s" "script_take k s = (None, s')"
  then show "s' = s" by (auto simp: script_take_def split: option.splits list.splits)
next
  fix k a and s s' :: prompt_script
  assume ok: "script_ok s" and t: "script_take k s = (Some a, s')"
  then obtain q i rest where q: "ps_queues s k = Some q" "ps_lists s ! q = i # rest" "a = ps_memory s ! i"
      "s' = s\<lparr>ps_lists := (ps_lists s)[q := rest]\<rparr>"
    by (auto simp: script_take_def split: option.splits list.splits)
  moreover have "q < length (ps_lists s)" using ok q(1) by (auto simp: script_ok_def ran_def)
  ultimately show "(\<exists>q. ps_queues s k = Some q \<and> list_content s q = a # list_content s' q \<and>
        (\<forall>r. r \<noteq> q \<longrightarrow> list_content s' r = list_content s r)) \<and> ps_queues s' = ps_queues s \<and> script_ok s'"
    using take_keeps_ok [OF ok t] by (auto simp: list_content_def)
qed

lemma list_content_queued: "script_ok ps \<Longrightarrow> queued k ps = (case ps_queues ps k of None \<Rightarrow> [] | Some q \<Rightarrow> list_content ps q)"
  by (auto simp: queued_def list_content_def script_ok_def ran_def split: option.splits)

lemma reply_queued:
  assumes "script_ok ps" "(k, a) \<in> set (replies script_take ks ps)"
  shows "a \<in> set (queued k ps)"
  using answers.replies_from_queue [OF assms] assms(1) by (auto simp: list_content_queued)

lemma replies_bounded:
  assumes "script_ok ps"
  shows "length (filter (\<lambda>(k', a). k' = k) (replies script_take ks ps)) \<le> length (queued k ps)"
proof (cases "ps_queues ps k")
  case None
  have "filter (\<lambda>(k', a). k' = k) (replies script_take ks ps) = []"
    by (force dest: answers.replies_from_queue [OF assms] simp: None filter_empty_conv)
  then show ?thesis by simp
next
  case (Some q)
  have le: "length (filter P xs) \<le> length (filter Q xs)" if "\<And>x. P x \<Longrightarrow> Q x" for P Q and xs :: "(str \<times> bytes) list"
    using that by (induction xs) (auto simp: le_SucI)
  have "length (filter (\<lambda>(k', a). k' = k) (replies script_take ks ps)) \<le>
      length (map snd (filter (\<lambda>(k', a). ps_queues ps k' = Some q) (replies script_take ks ps)))"
    unfolding length_map by (rule le) (auto simp: Some)
  also have "\<dots> \<le> length (list_content ps q)" by (rule prefix_length_le [OF answers.replies_in_order [OF assms]])
  finally show ?thesis using assms Some by (simp add: list_content_queued)
qed

section \<open>Building scripts\<close>

lemma enqueue_ok:
  assumes "script_ok ps" "q < length (ps_lists ps)"
  shows "script_ok (enqueue q b ps)" "list_content (enqueue q b ps) q = list_content ps q @ [b]"
    "r \<noteq> q \<Longrightarrow> list_content (enqueue q b ps) r = list_content ps r"
    "ps_queues (enqueue q b ps) = ps_queues ps" "length (ps_lists (enqueue q b ps)) = length (ps_lists ps)"
proof -
  have mem: "i < length (ps_memory ps)" if "l \<in> set (ps_lists ps)" "i \<in> set l" for l i
    using assms(1) that by (auto simp: script_ok_def)
  have q: "ps_lists ps ! q \<in> set (ps_lists ps)" using assms(2) by (rule nth_mem)
  show "script_ok (enqueue q b ps)"
    using assms q mem by (fastforce simp: enqueue_def script_ok_def less_Suc_eq dest!: set_update_subset_insert [THEN subsetD])
  have old: "map ((!) (ps_memory ps @ [b])) l = map ((!) (ps_memory ps)) l" if "l \<in> set (ps_lists ps)" for l
    using mem [OF that] by (simp add: nth_append)
  show "list_content (enqueue q b ps) q = list_content ps q @ [b]"
    using assms(2) old [OF q] by (simp add: list_content_def enqueue_def)
  show "r \<noteq> q \<Longrightarrow> list_content (enqueue q b ps) r = list_content ps r"
    using old [OF nth_mem] by (simp add: list_content_def enqueue_def)
qed (simp_all add: enqueue_def)

lemma add_all_ok:
  assumes "add_all q as ps = Inr ps'" "script_ok ps" "q < length (ps_lists ps)"
  shows "script_ok ps' \<and> ps_queues ps' = ps_queues ps \<and> length (ps_lists ps') = length (ps_lists ps) \<and>
    (\<exists>bs. mapE to_buffer as = Inr bs \<and> list_content ps' q = list_content ps q @ bs) \<and>
    (\<forall>r. r \<noteq> q \<longrightarrow> list_content ps' r = list_content ps r)"
  using assms
proof (induction q as ps rule: add_all.induct)
  case (2 q a as ps)
  then obtain b where b: "to_buffer a = Inr b" "add_all q as (enqueue q b ps) = Inr ps'" by auto
  have e: "script_ok (enqueue q b ps)" "q < length (ps_lists (enqueue q b ps))" using 2 by (simp_all add: enqueue_ok)
  from 2(1) [OF b e] 2(3,4) b(1) show ?case by (auto simp: enqueue_ok)
qed auto

text \<open>The two ways of adding to a script, at keywords it does not hold yet.\<close>

lemma script_add_fresh:
  assumes "script_add k as ps = Inr ps'" "script_ok ps" "ps_queues ps k = None"
  shows "script_ok ps'" "dom (ps_queues ps') = insert k (dom (ps_queues ps))" "mapE to_buffer as = Inr (queued k ps')"
    "k' \<noteq> k \<Longrightarrow> queued k' ps' = queued k' ps" "ps_queues ps' = (ps_queues ps)(k \<mapsto> length (ps_lists ps))"
proof -
  let ?q = "length (ps_lists ps)"
  let ?ps = "ps\<lparr>ps_lists := ps_lists ps @ [[]], ps_queues := (ps_queues ps)(k \<mapsto> ?q)\<rparr>"
  have ok: "script_ok ?ps" using assms(2) by (auto simp: script_ok_def ran_def less_Suc_eq split: if_splits)
  have "add_all ?q as ?ps = Inr ps'" using assms(1,3) by (simp add: script_add_def queue_of_def)
  from add_all_ok [OF this ok] obtain bs where a: "script_ok ps'" "ps_queues ps' = (ps_queues ps)(k \<mapsto> ?q)"
      "mapE to_buffer as = Inr bs" "list_content ps' ?q = list_content ?ps ?q @ bs"
      "r \<noteq> ?q \<Longrightarrow> list_content ps' r = list_content ?ps r" for r by auto
  have new: "list_content ?ps ?q = []" "r < ?q \<Longrightarrow> list_content ?ps r = list_content ps r" for r
    by (simp_all add: list_content_def nth_append)
  show "script_ok ps'" "dom (ps_queues ps') = insert k (dom (ps_queues ps))"
    "ps_queues ps' = (ps_queues ps)(k \<mapsto> ?q)" using a(1,2) by auto
  show "mapE to_buffer as = Inr (queued k ps')" using a new(1) by (simp add: list_content_queued)
  show "queued k' ps' = queued k' ps" if "k' \<noteq> k"
  proof (cases "ps_queues ps k'")
    case (Some r)
    then have "r < ?q" using assms(2) by (auto simp: script_ok_def ran_def)
    then show ?thesis using Some that a new(2) assms(2) by (simp add: list_content_queued)
  qed (use that a assms(2) in \<open>simp add: list_content_queued\<close>)
qed

lemma alias_queues: "fold (\<lambda>k m. m(k := v)) ks m k = (if k \<in> set ks then v else m k)"
  by (induction ks arbitrary: m) auto

lemma script_share_fresh:
  assumes "script_share (k0 # ks) as ps = Inr ps'" "script_ok ps" "ps_queues ps k0 = None" "k0 \<notin> set ks"
  shows "script_ok ps'" "k \<in> set (k0 # ks) \<Longrightarrow> mapE to_buffer as = Inr (queued k ps')"
    "k \<notin> set (k0 # ks) \<Longrightarrow> queued k ps' = queued k ps"
    "ps_queues ps' k = Some (length (ps_lists ps)) \<longleftrightarrow> k \<in> set (k0 # ks)"
proof -
  obtain ps1 where p: "script_add k0 as ps = Inr ps1" and
    ps': "ps' = ps1\<lparr>ps_queues := fold (\<lambda>k m. m(k := ps_queues ps1 k0)) ks (ps_queues ps1)\<rparr>"
    using assms(1) by (auto simp: script_share_def)
  note f = script_add_fresh [OF p assms(2,3)]
  have q: "ps_queues ps' k = (if k \<in> set ks then ps_queues ps1 k0 else ps_queues ps1 k)" for k
    by (simp add: ps' alias_queues)
  have "ran (ps_queues ps') \<subseteq> ran (ps_queues ps1)" using q by (auto simp: ran_def split: if_splits)
  then show ok: "script_ok ps'" using f(1) by (auto simp: script_ok_def ps')
  have m: "ps_memory ps' = ps_memory ps1" "ps_lists ps' = ps_lists ps1" by (simp_all add: ps')
  have same: "queued k ps' = (if k \<in> set ks then queued k0 ps1 else queued k ps1)" for k
    by (simp add: queued_def q m split: option.split)
  have "ps_queues ps k \<noteq> Some (length (ps_lists ps))" using assms(2) by (auto simp: script_ok_def ran_def)
  then show "ps_queues ps' k = Some (length (ps_lists ps)) \<longleftrightarrow> k \<in> set (k0 # ks)" using q f(5) by auto
  show "k \<in> set (k0 # ks) \<Longrightarrow> mapE to_buffer as = Inr (queued k ps')" using f(3) assms(4) by (auto simp: same)
  show "k \<notin> set (k0 # ks) \<Longrightarrow> queued k ps' = queued k ps" using f(4) by (simp add: same)
qed

lemma new_script_ok: "script_ok new_script" "ps_queues new_script = Map.empty" "queued k new_script = []"
  by (simp_all add: script_ok_def new_script_def queued_def)

text \<open>Several prompts one after another, as the builders add them.\<close>

fun add_prompts :: "(str \<times> answer list) list \<Rightarrow> prompt_script \<Rightarrow> prompt_script res" where
  "add_prompts [] ps = Inr ps"
| "add_prompts ((k, as) # rest) ps = bindE (script_add k as ps) (add_prompts rest)"

lemma add_prompts_fresh:
  assumes "add_prompts ps_list ps = Inr ps'" "script_ok ps" "distinct (map fst ps_list)"
    "list_all (\<lambda>k. ps_queues ps k = None) (map fst ps_list)"
  shows "script_ok ps' \<and> dom (ps_queues ps') = set (map fst ps_list) \<union> dom (ps_queues ps) \<and>
    (\<forall>(k, as) \<in> set ps_list. mapE to_buffer as = Inr (queued k ps')) \<and>
    (\<forall>k. k \<notin> set (map fst ps_list) \<longrightarrow> queued k ps' = queued k ps)"
  using assms
proof (induction ps_list ps rule: add_prompts.induct)
  case (2 k as rest ps)
  then obtain ps1 where p: "script_add k as ps = Inr ps1" "add_prompts rest ps1 = Inr ps'" by auto
  have k: "ps_queues ps k = None" "k \<notin> set (map fst rest)" using 2(4,5) by auto
  note f = script_add_fresh [OF p(1) 2(3) k(1)]
  have "ps_queues ps1 k' = None \<longleftrightarrow> k' \<notin> insert k (dom (ps_queues ps))" for k' using f(2) by blast
  then have "list_all (\<lambda>k. ps_queues ps1 k = None) (map fst rest)" using 2(5) k(2) by (auto simp: list_all_iff)
  from 2(1) [OF p f(1) _ this] 2(4) have IH: "script_ok ps'" "dom (ps_queues ps') = set (map fst rest) \<union> dom (ps_queues ps1)"
      "\<And>k as. (k, as) \<in> set rest \<Longrightarrow> mapE to_buffer as = Inr (queued k ps')"
      "\<And>k. k \<notin> set (map fst rest) \<Longrightarrow> queued k ps' = queued k ps1" by auto
  have "queued k ps' = queued k ps1" using IH(4) k(2) .
  then have "\<forall>(k, as) \<in> set ((k, as) # rest). mapE to_buffer as = Inr (queued k ps')" using IH(3) f(3) by auto
  moreover have "\<forall>k'. k' \<notin> set (map fst ((k, as) # rest)) \<longrightarrow> queued k' ps' = queued k' ps" using IH(4) f(4) by simp
  ultimately show ?case using IH(1,2) f(2) by simp
qed (auto simp: list_all_iff)

section \<open>What the scripts answer\<close>

lemma reject_Inr_view: "reject_control_characters v = Inr u \<longleftrightarrow> (\<exists>b. sb_view v = Inr b \<and> \<not> list_ex framing_byte b \<and> b \<noteq> [])"
  by (auto simp: reject_control_characters_def bindE_def split: sum.splits)

text \<open>The answers the script of a key generation holds.\<close>

lemma script_queues:
  assumes run: "bindE (add_prompts prompts new_script) (script_share kws secrets) = Inr ps"
    and d: "distinct (map fst prompts)" "distinct kws" "kws \<noteq> []" "set kws \<inter> set (map fst prompts) = {}"
  shows "script_ok ps" "(k, as) \<in> set prompts \<Longrightarrow> mapE to_buffer as = Inr (queued k ps)"
    "k \<in> set kws \<Longrightarrow> mapE to_buffer secrets = Inr (queued k ps)"
    "k \<notin> set (map fst prompts) \<Longrightarrow> k \<notin> set kws \<Longrightarrow> queued k ps = []"
    "\<exists>q. \<forall>k. ps_queues ps k = Some q \<longleftrightarrow> k \<in> set kws"
proof -
  obtain k0 ks where kws: "kws = k0 # ks" using d(3) by (cases kws) auto
  obtain s1 where s: "add_prompts prompts new_script = Inr s1" "script_share (k0 # ks) secrets s1 = Inr ps"
    using run by (auto simp: kws)
  from add_prompts_fresh [OF s(1) new_script_ok(1) d(1)] have f: "script_ok s1"
      "dom (ps_queues s1) = set (map fst prompts)" "(k, as) \<in> set prompts \<Longrightarrow> mapE to_buffer as = Inr (queued k s1)"
      "k \<notin> set (map fst prompts) \<Longrightarrow> queued k s1 = []" for k as
    by (auto simp: new_script_ok list_all_iff)
  have "ps_queues s1 k0 = None" "k0 \<notin> set ks" using f(2) d(2,4) by (auto simp: domIff kws)
  note g = script_share_fresh [OF s(2) f(1) this, folded kws]
  show "script_ok ps" by (rule g(1))
  show "\<exists>q. \<forall>k. ps_queues ps k = Some q \<longleftrightarrow> k \<in> set kws" using g(4) by blast
  show "k \<in> set kws \<Longrightarrow> mapE to_buffer secrets = Inr (queued k ps)" by (rule g(2))
  show "mapE to_buffer as = Inr (queued k ps)" if "(k, as) \<in> set prompts"
  proof -
    have "k \<notin> set kws" using that d(4) by force
    then show ?thesis using g(3) f(3) [OF that] by simp
  qed
  show "k \<notin> set (map fst prompts) \<Longrightarrow> k \<notin> set kws \<Longrightarrow> queued k ps = []" using g(3) f(4) by simp
qed

definition generate_prompts :: "str \<Rightarrow> str \<Rightarrow> str \<Rightarrow> bool \<Rightarrow> bool \<Rightarrow> (str \<times> answer list) list" where
  "generate_prompts name email expiry off_card_backup replace_existing =
     [(PROMPT_CARD_MENU, [Text ''admin'', Text ''generate'', Text ''quit'']),
      (PROMPT_REPLACE_KEYS, [Text (if replace_existing then YES else NO)]),
      (PROMPT_BACKUP_ENC, [Text (if off_card_backup then YES else NO)]), (PROMPT_EXPIRY, [Text expiry]),
      (PROMPT_NAME, [Text name]), (PROMPT_EMAIL, [Text email]), (PROMPT_COMMENT, [Text []]), (PROMPT_USERID_CMD, [Text ''O''])]"

definition keytocard_prompts :: "card_slot \<Rightarrow> int \<Rightarrow> (str \<times> answer list) list" where
  "keytocard_prompts slot i =
     (if i > 0 then [(PROMPT_KEY_MENU, [Text (''key '' @ show_int i), Text ''keytocard'', Text ''save''])]
      else [(PROMPT_KEY_MENU, [Text ''keytocard'', Text ''save'']), (PROMPT_USE_PRIMARY, [Text YES])]) @
     [(PROMPT_SLOT, [Text (slot_value slot)]), (PROMPT_SAVE, [Text YES])]"

definition pin_prompts :: "str \<Rightarrow> (str \<times> answer list) list" where
  "pin_prompts choice = [(PROMPT_CARD_MENU, [Text ''admin'', Text ''passwd'', Text ''quit'']),
     (PROMPT_PIN_MENU, [Text choice, Text ''Q''])]"

lemma keywords_apart: "distinct (map fst (generate_prompts n e x b r))" "distinct (map fst (pin_prompts c))"
  "set SECRET_PROMPTS \<inter> set (map fst (generate_prompts n e x b r)) = {}" "set SECRET_PROMPTS \<inter> set (map fst (pin_prompts c)) = {}"
  "distinct SECRET_PROMPTS" "SECRET_PROMPTS \<noteq> []"
  "distinct (map fst (keytocard_prompts s i))" "set SECRET_PROMPTS \<inter> set (map fst (keytocard_prompts s i)) = {}"
  by (simp_all add: keytocard_prompts_def generate_prompts_def pin_prompts_def keyword_defs)

lemma generate_script:
  assumes "generate_on_card_script admin_pin user_pin name email expiry backup replace = Inr ps"
  shows "bindE (add_prompts (generate_prompts name email expiry backup replace) new_script)
    (script_share SECRET_PROMPTS [Secret admin_pin, Secret user_pin]) = Inr ps"
  using assms by (auto simp: generate_on_card_script_def generate_prompts_def)

lemma move_script:
  assumes "keytocard_script slot i passphrase admin_pin = Inr ps"
  shows "bindE (add_prompts (keytocard_prompts slot i) new_script)
    (script_share SECRET_PROMPTS [Secret passphrase, Secret admin_pin]) = Inr ps"
  using assms by (auto simp: keytocard_script_def keytocard_prompts_def split: if_splits)

lemma pin_script:
  "change_pin_script pin a b = Inr ps \<Longrightarrow> bindE (add_prompts (pin_prompts (if pin = USER_PIN then ''1'' else ''3'')) new_script)
     (script_share SECRET_PROMPTS [Secret a, Secret b, Secret b]) = Inr ps"
  "unblock_pin_script a b = Inr ps \<Longrightarrow> bindE (add_prompts (pin_prompts ''2'') new_script)
     (script_share SECRET_PROMPTS [Secret a, Secret b, Secret b]) = Inr ps"
  by (auto simp: change_pin_script_def unblock_pin_script_def pin_prompts_def)

text \<open>
  C16. A key generation on the card overwrites keys only with consent: whatever GnuPG asks and in
  whatever order, the question whether to replace existing keys is answered at most once, and with
  yes only if the caller asked for the overwriting.
\<close>

theorem generation_overwrites_by_consent:
  assumes "generate_on_card_script admin_pin user_pin name email expiry backup replace = Inr ps"
  shows "set (filter (\<lambda>(k, a). k = PROMPT_REPLACE_KEYS) (replies script_take prompts ps)) \<subseteq>
      {(PROMPT_REPLACE_KEYS, if replace then YES else NO)} \<and>
    length (filter (\<lambda>(k, a). k = PROMPT_REPLACE_KEYS) (replies script_take prompts ps)) \<le> 1"
proof -
  note q = script_queues [OF generate_script [OF assms] keywords_apart(1,5,6,3)]
  have "mapE to_buffer [Text (if replace then YES else NO)] = Inr (queued PROMPT_REPLACE_KEYS ps)"
    by (rule q(2)) (simp add: generate_prompts_def)
  then have "queued PROMPT_REPLACE_KEYS ps = [if replace then YES else NO]" by (simp add: to_buffer_def)
  with reply_queued [OF q(1), of PROMPT_REPLACE_KEYS _ prompts] replies_bounded [OF q(1), of PROMPT_REPLACE_KEYS prompts]
  show ?thesis by auto
qed

definition pin_of :: "bytes \<Rightarrow> secure_bytes" where
  "pin_of b = \<lparr>sb_size = length b, sb_buffer = b, sb_locked = True, sb_closed = False\<rparr>"

definition script_of :: "prompt_script res \<Rightarrow> prompt_script" where
  "script_of r = (case r of Inl e \<Rightarrow> new_script | Inr ps \<Rightarrow> ps)"

lemma script_of_Inr: "\<not> isl r \<Longrightarrow> r = Inr (script_of r)"
  by (cases r) (simp_all add: script_of_def)

definition demo_generation :: "prompt_script res" where
  "demo_generation = generate_on_card_script (pin_of ''12345678'') (pin_of ''123456'') ''Alice'' ''a@b.org'' ''0'' True False"

theorem generation_overwrites_by_consent_witness:
  "replies script_take [PROMPT_CARD_MENU, PROMPT_REPLACE_KEYS, PROMPT_REPLACE_KEYS] (script_of demo_generation) =
      [(PROMPT_CARD_MENU, ''admin''), (PROMPT_REPLACE_KEYS, NO)] \<and>
    (PROMPT_REPLACE_KEYS, YES) \<notin> set (replies script_take [PROMPT_CARD_MENU, PROMPT_REPLACE_KEYS] (script_of demo_generation))"
proof -
  have "\<not> isl demo_generation" by code_simp
  from generation_overwrites_by_consent [OF script_of_Inr [OF this, unfolded demo_generation_def], folded demo_generation_def,
    of "[PROMPT_CARD_MENU, PROMPT_REPLACE_KEYS]"]
  have "(PROMPT_REPLACE_KEYS, YES) \<notin> set (replies script_take [PROMPT_CARD_MENU, PROMPT_REPLACE_KEYS] (script_of demo_generation))"
    by (auto simp: subset_iff YES_def NO_def)
  moreover have "replies script_take [PROMPT_CARD_MENU, PROMPT_REPLACE_KEYS, PROMPT_REPLACE_KEYS] (script_of demo_generation) =
      [(PROMPT_CARD_MENU, ''admin''), (PROMPT_REPLACE_KEYS, NO)]" by code_simp
  ultimately show ?thesis by simp
qed

lemma pin_script_answers:
  assumes "bindE (add_prompts (pin_prompts c) new_script) (script_share SECRET_PROMPTS [Secret a, Secret b, Secret b]) = Inr ps"
    and "reject_control_characters a = Inr ()" "reject_control_characters b = Inr ()" "c \<in> {''1'', ''2'', ''3''}"
    and "(k, x) \<in> set (replies script_take prompts ps)"
  shows "x \<noteq> [] \<and> \<not> list_ex framing_byte x"
proof -
  obtain va vb where v: "sb_view a = Inr va" "sb_view b = Inr vb" "va \<noteq> [] \<and> \<not> list_ex framing_byte va"
      "vb \<noteq> [] \<and> \<not> list_ex framing_byte vb" using assms(2,3) by (auto simp: reject_Inr_view)
  note q = script_queues [OF assms(1) keywords_apart(2,5,6,4)]
  have x: "x \<in> set (queued k ps)" by (rule reply_queued [OF q(1) assms(5)])
  consider "k \<in> set SECRET_PROMPTS" | "k = PROMPT_CARD_MENU" | "k = PROMPT_PIN_MENU"
    using x q(4) [of k] by (fastforce simp: pin_prompts_def)
  then show ?thesis
  proof cases
    case 1
    then have "queued k ps = [va, vb, vb]" using q(3) v by (auto simp: to_buffer_def)
    then show ?thesis using x v by auto
  next
    case 2
    have "mapE to_buffer [Text ''admin'', Text ''passwd'', Text ''quit''] = Inr (queued k ps)"
      by (rule q(2)) (simp add: pin_prompts_def 2)
    then have "queued k ps = [''admin'', ''passwd'', ''quit'']" by (simp add: to_buffer_def)
    then show ?thesis using x by (auto simp: framing_byte_def)
  next
    case 3
    have "mapE to_buffer [Text c, Text ''Q''] = Inr (queued k ps)"
      by (rule q(2)) (simp add: pin_prompts_def 3)
    then have "queued k ps = [c, ''Q'']" by (simp add: to_buffer_def)
    then show ?thesis using x assms(4) by (auto simp: framing_byte_def)
  qed
qed

text \<open>
  Changing or unblocking a PIN answers every prompt with one line: nothing the script holds is
  empty or contains a byte that would end the line early, whichever PINs the user typed.
\<close>

theorem pin_answers_are_lines:
  assumes "change_pin_script pin a b = Inr ps \<or> unblock_pin_script a b = Inr ps"
    and "(k, x) \<in> set (replies script_take prompts ps)"
  shows "x \<noteq> [] \<and> \<not> list_ex framing_byte x"
  using assms(1)
proof
  assume c: "change_pin_script pin a b = Inr ps"
  then have "reject_control_characters a = Inr ()" "reject_control_characters b = Inr ()"
    by (auto simp: change_pin_script_def)
  from pin_script_answers [OF pin_script(1) [OF c] this _ assms(2)] show ?thesis by (auto split: if_splits)
next
  assume c: "unblock_pin_script a b = Inr ps"
  then have "reject_control_characters a = Inr ()" "reject_control_characters b = Inr ()"
    by (auto simp: unblock_pin_script_def)
  from pin_script_answers [OF pin_script(2) [OF c] this _ assms(2)] show ?thesis by simp
qed

theorem pin_answers_are_lines_witness:
  "replies script_take [''passphrase.enter'', PROMPT_CARD_MENU]
      (script_of (change_pin_script USER_PIN (pin_of ''123456'') (pin_of ''654321''))) =
     [(''passphrase.enter'', ''123456''), (PROMPT_CARD_MENU, ''admin'')] \<and> \<not> list_ex framing_byte ''123456''"
proof -
  let ?r = "change_pin_script USER_PIN (pin_of ''123456'') (pin_of ''654321'')"
  have "\<not> isl ?r" by code_simp
  then have r: "?r = Inr (script_of ?r)" by (rule script_of_Inr)
  have e: "replies script_take [''passphrase.enter'', PROMPT_CARD_MENU] (script_of ?r) =
     [(''passphrase.enter'', ''123456''), (PROMPT_CARD_MENU, ''admin'')]" by code_simp
  have "(''passphrase.enter'', ''123456'') \<in> set (replies script_take [''passphrase.enter'', PROMPT_CARD_MENU] (script_of ?r))"
    unfolding e by simp
  from pin_answers_are_lines [OF disjI1 [OF r] this] e show ?thesis by blast
qed

text \<open>
  The secrets of a move onto the card are sent by position and unchecked: the first question
  for any secret gets the passphrase of the key as it is, line feeds included, and the second one
  the admin PIN. So a passphrase with a line feed is two lines, of which GnuPG reads the second as
  the next answer; and where it does not ask for the passphrase, because the agent still has it,
  the passphrase is tried as the admin PIN.
\<close>

theorem card_secrets_by_position:
  assumes "keytocard_script slot i passphrase admin_pin = Inr ps" "sb_view passphrase = Inr v" "sb_view admin_pin = Inr w"
  shows "prefix (map snd (filter (\<lambda>(k, a). k \<in> set SECRET_PROMPTS) (replies script_take prompts ps))) [v, w]"
proof -
  note q = script_queues [OF move_script [OF assms(1)] keywords_apart(7,5,6,8)]
  obtain j where j: "ps_queues ps k = Some j \<longleftrightarrow> k \<in> set SECRET_PROMPTS" for k using q(5) by blast
  have s: "hd SECRET_PROMPTS \<in> set SECRET_PROMPTS" by (rule hd_in_set) (rule keywords_apart(6))
  then have "mapE to_buffer [Secret passphrase, Secret admin_pin] = Inr (queued (hd SECRET_PROMPTS) ps)" by (rule q(3))
  moreover have "ps_queues ps (hd SECRET_PROMPTS) = Some j" using j s by blast
  then have "queued (hd SECRET_PROMPTS) ps = list_content ps j" using q(1) by (simp add: list_content_queued)
  ultimately have "list_content ps j = [v, w]" using assms(2,3) by (simp add: to_buffer_def)
  then show ?thesis using answers.replies_in_order [OF q(1), of j prompts] by (simp add: j)
qed

theorem card_secrets_by_position_witness:
  "map snd (filter (\<lambda>(k, a). k \<in> set SECRET_PROMPTS) (replies script_take [PROMPT_KEY_MENU, ''passphrase.adminpin.ask'']
      (script_of (keytocard_script SIGNATURE 0 (pin_of (''a'' @ [CHR 0x0A] @ ''b'')) (pin_of ''12345678''))))) =
     [''a'' @ [CHR 0x0A] @ ''b''] \<and> prefix [''a'' @ [CHR 0x0A] @ ''b''] [''a'' @ [CHR 0x0A] @ ''b'', ''12345678'']"
proof -
  let ?r = "keytocard_script SIGNATURE 0 (pin_of (''a'' @ [CHR 0x0A] @ ''b'')) (pin_of ''12345678'')"
  have "\<not> isl ?r" by code_simp
  then have r: "?r = Inr (script_of ?r)" by (rule script_of_Inr)
  have e: "map snd (filter (\<lambda>(k, a). k \<in> set SECRET_PROMPTS)
      (replies script_take [PROMPT_KEY_MENU, ''passphrase.adminpin.ask''] (script_of ?r))) = [''a'' @ [CHR 0x0A] @ ''b'']"
    by code_simp
  have v: "sb_view (pin_of b) = Inr b" for b by (simp add: sb_view_def pin_of_def)
  from card_secrets_by_position [OF r v v, of "[PROMPT_KEY_MENU, ''passphrase.adminpin.ask'']"] e show ?thesis by simp
qed

section \<open>Wiping\<close>

text \<open>Every buffer the script has made, the answered ones included, holds zeros afterwards.\<close>

lemma wiped_memory:
  "i < length m \<Longrightarrow> fold (\<lambda>i m. m[i := zero_mutable_buffer (m ! i)]) is m ! i =
     (if i \<in> set is then replicate (length (m ! i)) nul else m ! i)"
proof (induction "is" arbitrary: m)
  case (Cons j js)
  show ?case using Cons.IH [of "m[j := zero_mutable_buffer (m ! j)]"] Cons.prems
    by (cases "i = j") (simp_all add: zero_mutable_buffer_def)
qed simp

lemma wipe_clears:
  assumes "script_ok ps" "i < length (ps_memory ps)"
  shows "ps_memory (wipe ps) ! i = replicate (length (ps_memory ps ! i)) nul"
  using assms wiped_memory [of i "ps_memory ps" "ps_buffers ps"] by (simp add: wipe_def script_ok_def)

section \<open>Running a script\<close>

record prompt_run =
  pr_returncode :: int
  pr_stdout :: bytes
  pr_stderr :: bytes
  pr_status :: bytes
  pr_unanswered_prompt :: "str option"

definition status_records :: "prompt_run \<Rightarrow> str list list" where
  "status_records r = parse_status (pr_status r)"

text \<open>
  GnuPG's editor in one run: what the reads of the status pipe return, which answers the command
  pipe accepts, and how the run ends once the answers are written, with exit code, output and
  diagnostics, or not within the time limit.
\<close>

record 'k editor =
  ed_reads :: "str list \<Rightarrow> prompt_script \<Rightarrow> 'k \<Rightarrow> bytes list"
  ed_accepts :: "nat \<Rightarrow> bool"
  ed_exit :: "str list \<Rightarrow> bytes list \<Rightarrow> 'k \<Rightarrow> (int \<times> bytes \<times> bytes) option \<times> 'k"
  ed_status_fd :: str
  ed_command_fd :: str

definition prompt_cmd :: "gpg_service \<Rightarrow> 'k editor \<Rightarrow> str list \<Rightarrow> str list" where
  "prompt_cmd s ed args = [gs_binary s, ''--homedir'', gs_home s, ''--pinentry-mode'', ''loopback'',
     ''--status-fd'', ed_status_fd ed, ''--command-fd'', ed_command_fd ed] @ args"

text \<open>The script is the caller's object; what is left of it is returned beside the result.\<close>

definition run_prompt_script ::
    "'k gpg_env \<Rightarrow> 'k editor \<Rightarrow> str list \<Rightarrow> prompt_script \<Rightarrow> ('k, prompt_run \<times> prompt_script) gpg_prog" where
  "run_prompt_script env ed args script = thenP (assert_binary_not_swapped env) (\<lambda>w.
     let argv = prompt_cmd (ge_service env) ed args;
         cv = answer_prompts (ed_accepts ed) script (ed_reads ed argv script (gw_keyring w));
         d = cv_dialogue cv;
         rq = \<lparr>rq_argv = argv, rq_input = None, rq_passphrase = None, rq_files = []\<rparr> in
     case ed_exit ed argv (dg_written d) (gw_keyring w) of (r, k) \<Rightarrow>
       ((case r of
           None \<Rightarrow> Inl GPGProcessError
         | Some (rc, out, err) \<Rightarrow>
             Inr (\<lparr>pr_returncode = rc, pr_stdout = out, pr_stderr = err, pr_status = cv_transcript cv,
                   pr_unanswered_prompt = dg_unanswered d\<rparr>, dg_script d)),
        w\<lparr>gw_keyring := k, gw_calls := gw_calls w @ [rq]\<rparr>))"
end
