(* ===== verification/Key_Unlock.thy ===== *)
theory Key_Unlock
  imports Vault_Keyslots
begin

text \<open>
  \<open>models/key_unlock.py\<close> and \<open>security/key_unlock.py\<close>: the unlock slots of a GPG key with every
  validator, and the sealing of the key's passphrase under a passphrase of the user or under the
  secret a token derives. The lemmas show that a slot that was made hands back the secret it was
  made of, that nothing else opens as such a slot, and that it is no slot of another kind.
\<close>

section \<open>The models\<close>

definition MAX_KEY_UNLOCK_SLOTS :: nat where "MAX_KEY_UNLOCK_SLOTS = 8"
definition MAX_UNLOCK_SLOT_LABEL_LENGTH :: nat where "MAX_UNLOCK_SLOT_LABEL_LENGTH = 96"
definition MAX_WRAPPED_SECRET_LENGTH :: nat where "MAX_WRAPPED_SECRET_LENGTH = 256"
definition MAX_CREDENTIAL_ID_LENGTH :: nat where "MAX_CREDENTIAL_ID_LENGTH = 1023"
definition PRF_SALT_LEN :: nat where "PRF_SALT_LEN = 32"
definition UNLOCK_FORMAT_TAG :: str where "UNLOCK_FORMAT_TAG = ''gpg-meister-key-unlock/1''"

datatype unlock_slot_type = BY_PASSPHRASE | FIDO

fun unlock_type_value :: "unlock_slot_type \<Rightarrow> str" where
  "unlock_type_value BY_PASSPHRASE = ''passphrase''"
| "unlock_type_value FIDO = ''fido''"

record fido_credential =
  fc_credential_id_b64 :: str
  fc_salt_b64 :: str
  fc_rp_id :: str
  fc_resident :: bool
  fc_user_verification :: bool
  fc_label :: str

definition validate_credential_id :: "str \<Rightarrow> unit res" where
  "validate_credential_id v = (case b64decode v of
       None \<Rightarrow> Inl ValueError
     | Some raw \<Rightarrow>
         if raw = [] then Inl ValueError
         else if length raw > MAX_CREDENTIAL_ID_LENGTH then Inl ValueError
         else Inr ())"

definition validate_prf_salt :: "str \<Rightarrow> unit res" where
  "validate_prf_salt v = (case b64decode v of
       None \<Rightarrow> Inl ValueError
     | Some raw \<Rightarrow> if length raw \<noteq> PRF_SALT_LEN then Inl ValueError else Inr ())"

definition check_fido_credential :: "fido_credential \<Rightarrow> fido_credential res" where
  "check_fido_credential c =
     bindE (validate_credential_id (fc_credential_id_b64 c)) (\<lambda>_.
     bindE (validate_prf_salt (fc_salt_b64 c)) (\<lambda>_.
     if py_len (fc_rp_id c) < 1 \<or> py_len (fc_rp_id c) > 253 then Inl ValueError
     else if py_len (fc_label c) > MAX_UNLOCK_SLOT_LABEL_LENGTH then Inl ValueError
     else Inr c))"

definition fc_credential_id :: "fido_credential \<Rightarrow> bytes res" where
  "fc_credential_id c = of_option ValueError (b64decode (fc_credential_id_b64 c))"

definition fc_salt :: "fido_credential \<Rightarrow> bytes res" where
  "fc_salt c = of_option ValueError (b64decode (fc_salt_b64 c))"

record key_unlock_slot =
  us_type :: unlock_slot_type
  us_wrapped_secret_b64 :: str
  us_nonce_b64 :: str
  us_kdf :: "kdf_fields option"
  us_fido :: "fido_credential option"
  us_label :: str

definition validate_unlock_shape :: "key_unlock_slot \<Rightarrow> unit res" where
  "validate_unlock_shape s =
     (if us_type s = BY_PASSPHRASE then
        if us_kdf s = None then Inl ValueError
        else if us_fido s \<noteq> None then Inl ValueError
        else Inr ()
      else
        if us_fido s = None then Inl ValueError
        else if us_kdf s \<noteq> None then Inl ValueError
        else Inr ())"

definition check_key_unlock_slot :: "key_unlock_slot \<Rightarrow> key_unlock_slot res" where
  "check_key_unlock_slot s =
     bindE (validate_wrapped MAX_WRAPPED_SECRET_LENGTH (us_wrapped_secret_b64 s)) (\<lambda>_.
     bindE (validate_nonce_b64 (us_nonce_b64 s)) (\<lambda>_.
     if py_len (us_label s) > MAX_UNLOCK_SLOT_LABEL_LENGTH then Inl ValueError
     else bindE (validate_unlock_shape s) (\<lambda>_. Inr s)))"

definition us_wrapped_secret :: "key_unlock_slot \<Rightarrow> bytes res" where
  "us_wrapped_secret s = of_option ValueError (b64decode (us_wrapped_secret_b64 s))"

definition us_nonce :: "key_unlock_slot \<Rightarrow> bytes res" where
  "us_nonce s = of_option ValueError (b64decode (us_nonce_b64 s))"

definition unlock_slots_of :: "key_unlock_slot list \<Rightarrow> unlock_slot_type \<Rightarrow> key_unlock_slot list" where
  "unlock_slots_of slots t = filter (\<lambda>s. us_type s = t) slots"

definition has_emergency_passphrase :: "key_unlock_slot list \<Rightarrow> bool" where
  "has_emergency_passphrase slots \<longleftrightarrow> unlock_slots_of slots BY_PASSPHRASE \<noteq> []"

section \<open>Sealing the passphrase of a key\<close>

definition KEY_SECRET_RAW_LEN :: nat where "KEY_SECRET_RAW_LEN = 32"
definition KEY_SECRET_TEXT_LEN :: nat where "KEY_SECRET_TEXT_LEN = 44"
definition MAX_KEY_SECRET_LEN :: nat where "MAX_KEY_SECRET_LEN = 200"
definition TOKEN_SECRET_LEN :: nat where "TOKEN_SECRET_LEN = KEY_LEN"

definition FRAMING_BYTES :: "char list" where "FRAMING_BYTES = [CHR 0x00, CHR 0x0A, CHR 0x0D]"

definition unlock_associated_data :: "unlock_slot_type \<Rightarrow> bytes" where
  "unlock_associated_data t = UNLOCK_FORMAT_TAG @ '':slot:'' @ unlock_type_value t"

definition generate_key_secret :: "crypto \<Rightarrow> draw \<Rightarrow> secure_bytes" where
  "generate_key_secret cr token_bytes = sb_from_bytes (cr_mlock cr) (b64encode (token_bytes KEY_SECRET_RAW_LEN))"

definition check_secret :: "secure_bytes \<Rightarrow> unit res" where
  "check_secret secret =
     (if \<not> (0 < sb_size secret \<and> sb_size secret \<le> MAX_KEY_SECRET_LEN) then Inl ValueError
      else bindE (sb_view secret) (\<lambda>view.
        if list_ex (\<lambda>b. b \<in> set FRAMING_BYTES) view then Inl ValueError else Inr ()))"

definition secret_from_bytes :: "bool \<Rightarrow> bytes \<Rightarrow> secure_bytes res" where
  "secret_from_bytes mlock_ok raw =
     (if \<not> (0 < length raw \<and> length raw \<le> MAX_KEY_SECRET_LEN) then Inl DecryptionError
      else Inr (sb_from_bytes mlock_ok raw))"

definition seal_with_passphrase ::
    "crypto \<Rightarrow> draw \<Rightarrow> draw \<Rightarrow> secure_bytes \<Rightarrow> secure_bytes \<Rightarrow> kdf_params \<Rightarrow> cipher_algorithm \<Rightarrow> key_unlock_slot res" where
  "seal_with_passphrase cr salt_bytes nonce_bytes secret passphrase params cipher =
     bindE (check_secret secret) (\<lambda>_.
     bindE (generate_salt salt_bytes (kp_salt_len params)) (\<lambda>salt.
     let nonce = generate_nonce nonce_bytes in
     bindE (derive_key (cr_argon2 cr) (cr_mlock cr) passphrase salt params) (\<lambda>key.
     bindE (fst (sb_with key (\<lambda>slot_key.
       bindE (sb_view secret) (\<lambda>plaintext.
       aead_encrypt (cr_aead cr) plaintext slot_key nonce (unlock_associated_data BY_PASSPHRASE) cipher)))) (\<lambda>wrapped.
     bindE (kdf_fields_from_params params salt) (\<lambda>kdf.
     check_key_unlock_slot \<lparr>us_type = BY_PASSPHRASE, us_wrapped_secret_b64 = b64encode wrapped,
       us_nonce_b64 = b64encode nonce, us_kdf = Some kdf, us_fido = None, us_label = ''Emergency passphrase''\<rparr>)))))"

definition unseal_with_passphrase ::
    "crypto \<Rightarrow> key_unlock_slot \<Rightarrow> secure_bytes \<Rightarrow> kdf_params \<Rightarrow> cipher_algorithm \<Rightarrow> secure_bytes res" where
  "unseal_with_passphrase cr slot passphrase params cipher = (case us_kdf slot of
       None \<Rightarrow> Inl ValueError
     | Some kdf \<Rightarrow>
         if us_type slot \<noteq> BY_PASSPHRASE then Inl ValueError
         else
           bindE (kf_salt kdf) (\<lambda>salt.
           bindE (derive_key (cr_argon2 cr) (cr_mlock cr) passphrase salt params) (\<lambda>key.
           bindE (fst (sb_with key (\<lambda>slot_key.
             bindE (us_wrapped_secret slot) (\<lambda>ciphertext.
             bindE (us_nonce slot) (\<lambda>nonce.
             aead_decrypt (cr_aead cr) ciphertext slot_key nonce (unlock_associated_data BY_PASSPHRASE) cipher)))))
           (secret_from_bytes (cr_mlock cr)))))"

definition check_token_secret :: "secure_bytes \<Rightarrow> unit res" where
  "check_token_secret token_secret = (if sb_size token_secret \<noteq> TOKEN_SECRET_LEN then Inl ValueError else Inr ())"

definition seal_with_token ::
    "crypto \<Rightarrow> draw \<Rightarrow> secure_bytes \<Rightarrow> secure_bytes \<Rightarrow> fido_credential \<Rightarrow> cipher_algorithm \<Rightarrow> key_unlock_slot res" where
  "seal_with_token cr nonce_bytes secret token_secret credential cipher =
     bindE (check_secret secret) (\<lambda>_.
     bindE (check_token_secret token_secret) (\<lambda>_.
     let nonce = generate_nonce nonce_bytes in
     bindE (sb_view secret) (\<lambda>plaintext.
     bindE (aead_encrypt (cr_aead cr) plaintext token_secret nonce (unlock_associated_data FIDO) cipher) (\<lambda>wrapped.
     check_key_unlock_slot \<lparr>us_type = FIDO, us_wrapped_secret_b64 = b64encode wrapped, us_nonce_b64 = b64encode nonce,
       us_kdf = None, us_fido = Some credential, us_label = fc_label credential\<rparr>))))"

definition unseal_with_token :: "crypto \<Rightarrow> key_unlock_slot \<Rightarrow> secure_bytes \<Rightarrow> cipher_algorithm \<Rightarrow> secure_bytes res" where
  "unseal_with_token cr slot token_secret cipher =
     (if us_type slot \<noteq> FIDO \<or> us_fido slot = None then Inl ValueError
      else
        bindE (check_token_secret token_secret) (\<lambda>_.
        bindE (us_wrapped_secret slot) (\<lambda>ciphertext.
        bindE (us_nonce slot) (\<lambda>nonce.
        bindE (aead_decrypt (cr_aead cr) ciphertext token_secret nonce (unlock_associated_data FIDO) cipher)
          (secret_from_bytes (cr_mlock cr))))))"

section \<open>What a slot opens to\<close>

lemma check_key_unlock_slot_Inr: "check_key_unlock_slot s = Inr s' \<Longrightarrow> s' = s"
  by (auto simp: check_key_unlock_slot_def split: if_splits)

lemma secret_from_bytes_Inr: "secret_from_bytes m raw = Inr s \<longleftrightarrow>
    raw \<noteq> [] \<and> length raw \<le> MAX_KEY_SECRET_LEN \<and> s = sb_from_bytes m raw"
  by (auto simp: secret_from_bytes_def)

text \<open>A secret that passes the check: open, of a length that fits, one line.\<close>

definition secret_ok :: "secure_bytes \<Rightarrow> bool" where
  "secret_ok s \<longleftrightarrow> \<not> sb_closed s \<and> key_bytes s \<noteq> [] \<and> length (key_bytes s) \<le> MAX_KEY_SECRET_LEN \<and>
     list_all (\<lambda>b. b \<notin> set FRAMING_BYTES) (key_bytes s)"

lemma check_secret_view: "check_secret s = Inr u \<Longrightarrow> sb_view s = Inr (key_bytes s)"
  by (auto simp: check_secret_def sb_view_def key_bytes_def split: if_splits)

lemma check_secret_bytes: "check_secret s = Inr u \<Longrightarrow> length (sb_buffer s) \<ge> sb_size s \<Longrightarrow>
    key_bytes s \<noteq> [] \<and> length (key_bytes s) \<le> MAX_KEY_SECRET_LEN"
  by (auto simp: check_secret_def key_bytes_def split: if_splits)

lemma seal_passphrase_Inr:
  "seal_with_passphrase cr sr nr secret pw params c = Inr slot \<Longrightarrow>
   \<exists>raw kdf. derived cr pw (sr (nat (kp_salt_len params))) params = Some raw \<and> length raw = KEY_LEN \<and>
     check_secret secret = Inr () \<and> length (nr NONCE_LEN) = NONCE_LEN \<and>
     kdf_fields_from_params params (sr (nat (kp_salt_len params))) = Inr kdf \<and>
     slot = \<lparr>us_type = BY_PASSPHRASE, us_wrapped_secret_b64 = b64encode (seal (cr_aead cr) c raw (nr NONCE_LEN)
       (unlock_associated_data BY_PASSPHRASE) (key_bytes secret)), us_nonce_b64 = b64encode (nr NONCE_LEN),
       us_kdf = Some kdf, us_fido = None, us_label = ''Emergency passphrase''\<rparr>"
  by (auto simp: seal_with_passphrase_def Let_def generate_nonce_def derive_key_derived aead_encrypt_Inr
      derived_def kdf_params_ok_def salt_len_ok_def generate_salt_def check_secret_view dest!: check_key_unlock_slot_Inr split: if_splits)

lemma unseal_passphrase_Inr:
  "unseal_with_passphrase cr slot pw params c = Inr k \<longleftrightarrow>
   us_type slot = BY_PASSPHRASE \<and> (\<exists>kdf salt raw ct n pt. us_kdf slot = Some kdf \<and> kf_salt kdf = Inr salt \<and>
      derived cr pw salt params = Some raw \<and> length raw = KEY_LEN \<and>
      us_wrapped_secret slot = Inr ct \<and> us_nonce slot = Inr n \<and> length n = NONCE_LEN \<and>
      unseal (cr_aead cr) c raw n (unlock_associated_data BY_PASSPHRASE) ct = Some pt \<and>
      pt \<noteq> [] \<and> length pt \<le> MAX_KEY_SECRET_LEN \<and> k = sb_from_bytes (cr_mlock cr) pt)"
  by (auto simp: unseal_with_passphrase_def derive_key_derived aead_decrypt_Inr secret_from_bytes_Inr split: option.splits)

text \<open>A slot of the emergency passphrase, opened with the parameters read back from it.\<close>

lemma unseal_sealed_passphrase:
  assumes lib: "aead_correct (cr_aead cr)" and inv: "length (sb_buffer secret) \<ge> sb_size secret"
    and s: "seal_with_passphrase cr sr nr secret pw params c = Inr slot"
  shows "us_type slot = BY_PASSPHRASE \<and> (\<exists>kdf. us_kdf slot = Some kdf \<and> kdf_fields_to_params kdf = Inr params) \<and>
    unseal_with_passphrase cr slot pw params c = Inr (sb_from_bytes (cr_mlock cr) (key_bytes secret))"
proof -
  let ?salt = "sr (nat (kp_salt_len params))" and ?nonce = "nr NONCE_LEN"
  obtain raw kdf where r: "derived cr pw ?salt params = Some raw" "length raw = KEY_LEN" "check_secret secret = Inr ()"
      "length ?nonce = NONCE_LEN" "kdf_fields_from_params params ?salt = Inr kdf"
    and slot: "slot = \<lparr>us_type = BY_PASSPHRASE, us_wrapped_secret_b64 = b64encode (seal (cr_aead cr) c raw ?nonce
       (unlock_associated_data BY_PASSPHRASE) (key_bytes secret)), us_nonce_b64 = b64encode ?nonce,
       us_kdf = Some kdf, us_fido = None, us_label = ''Emergency passphrase''\<rparr>"
    using seal_passphrase_Inr [OF s] by blast
  have p: "kdf_params_ok params" "int (length ?salt) = kp_salt_len params" using r(1) by (auto simp: derived_def split: if_splits)
  note ps = to_params_from_params [OF r(5) p]
  show ?thesis
    using ps r lib check_secret_bytes [OF r(3) inv]
    by (simp add: unseal_passphrase_Inr slot us_wrapped_secret_def us_nonce_def aead_correct_def)
qed

lemma seal_token_Inr:
  "seal_with_token cr nr secret ts cred c = Inr slot \<Longrightarrow>
   check_secret secret = Inr () \<and> usable_key ts \<and> length (nr NONCE_LEN) = NONCE_LEN \<and>
   slot = \<lparr>us_type = FIDO, us_wrapped_secret_b64 = b64encode (seal (cr_aead cr) c (key_bytes ts) (nr NONCE_LEN)
       (unlock_associated_data FIDO) (key_bytes secret)), us_nonce_b64 = b64encode (nr NONCE_LEN),
       us_kdf = None, us_fido = Some cred, us_label = fc_label cred\<rparr>"
  by (auto simp: seal_with_token_def Let_def generate_nonce_def aead_encrypt_Inr check_secret_view
      dest!: check_key_unlock_slot_Inr)

lemma unseal_token_Inr:
  "unseal_with_token cr slot ts c = Inr k \<longleftrightarrow>
   us_type slot = FIDO \<and> us_fido slot \<noteq> None \<and> usable_key ts \<and> (\<exists>ct n pt. us_wrapped_secret slot = Inr ct \<and>
      us_nonce slot = Inr n \<and> length n = NONCE_LEN \<and>
      unseal (cr_aead cr) c (key_bytes ts) n (unlock_associated_data FIDO) ct = Some pt \<and>
      pt \<noteq> [] \<and> length pt \<le> MAX_KEY_SECRET_LEN \<and> k = sb_from_bytes (cr_mlock cr) pt)"
  by (auto simp: unseal_with_token_def aead_decrypt_Inr secret_from_bytes_Inr check_token_secret_def TOKEN_SECRET_LEN_def
      usable_key_def)

text \<open>A token slot opens with whatever buffer holds the token's secret.\<close>

lemma unseal_sealed_token:
  assumes "aead_correct (cr_aead cr)" "length (sb_buffer secret) \<ge> sb_size secret"
    and "seal_with_token cr nr secret ts cred c = Inr slot" "usable_key ts'" "key_bytes ts' = key_bytes ts"
  shows "us_type slot = FIDO \<and> us_fido slot = Some cred \<and>
    unseal_with_token cr slot ts' c = Inr (sb_from_bytes (cr_mlock cr) (key_bytes secret))"
  using seal_token_Inr [OF assms(3)] assms(1,4,5) check_secret_bytes [OF _ assms(2)]
  by (simp add: unseal_token_Inr us_wrapped_secret_def us_nonce_def aead_correct_def)

text \<open>The domain separators of the unlock slots and of the vault slots are all different.\<close>

lemma unlock_domains: "unlock_associated_data s = unlock_associated_data t \<longleftrightarrow> s = t"
  "unlock_associated_data s \<noteq> slot_associated_data v"
  by (cases s; cases t; simp add: unlock_associated_data_def)
    (cases s; cases v; simp add: unlock_associated_data_def slot_associated_data_def UNLOCK_FORMAT_TAG_def VAULT_FORMAT_TAG_def)

text \<open>The generated secret is one line of base64 and passes its own check.\<close>

lemma generated_secret:
  assumes "length (draw KEY_SECRET_RAW_LEN) = KEY_SECRET_RAW_LEN"
  shows "check_secret (generate_key_secret cr draw) = Inr ()"
    "length (key_bytes (generate_key_secret cr draw)) = KEY_SECRET_TEXT_LEN"
proof -
  have "length (b64encode (draw KEY_SECRET_RAW_LEN)) = KEY_SECRET_TEXT_LEN"
    using assms by (simp add: length_b64encode KEY_SECRET_RAW_LEN_def KEY_SECRET_TEXT_LEN_def)
  moreover have "list_all (\<lambda>b. b \<notin> set FRAMING_BYTES) (b64encode (draw KEY_SECRET_RAW_LEN))"
    using b64encode_alphabet [of "draw KEY_SECRET_RAW_LEN"] is_b64_printable
    by (fastforce simp: list_all_iff FRAMING_BYTES_def)
  ultimately show "check_secret (generate_key_secret cr draw) = Inr ()"
    "length (key_bytes (generate_key_secret cr draw)) = KEY_SECRET_TEXT_LEN"
    by (auto simp: check_secret_def generate_key_secret_def sb_from_bytes_eq sb_view_def list_ex_iff list_all_iff
        KEY_SECRET_TEXT_LEN_def MAX_KEY_SECRET_LEN_def key_bytes_def)
qed
end
