(* ===== verification/Metadata_Store.thy ===== *)
theory Metadata_Store
  imports Key_Unlock Prelude "HOL-Library.List_Lexorder" "HOL-Library.Char_ord"
begin

text \<open>
  \<open>storage/metadata_store.py\<close>: the four tables as lists of rows in the order of their row ids and
  one function per statement, each run in a transaction that commits or leaves the tables as they
  were. The lemmas show what a lookup returns after each update, that the row ids stay unique and
  increasing, and that a key never has more unlock slots than the cap.
\<close>

section \<open>Tables\<close>

record meta_row =
  mr_fingerprint :: str
  mr_label :: str
  mr_purpose :: str
  mr_platform :: str
  mr_notes :: str
  mr_favorite :: bool
  mr_import_timestamp :: str
  mr_last_used_timestamp :: "str option"

record vault_row =
  vr_id :: nat
  vr_filename :: str
  vr_creation_timestamp :: str
  vr_key_count :: nat
  vr_description :: str

record slot_row =
  sr_id :: nat
  sr_fingerprint :: str
  sr_slot_type :: str
  sr_slot_json :: str
  sr_creation_timestamp :: str

text \<open>The next row ids are those of \<open>AUTOINCREMENT\<close>: an id is not used twice.\<close>

record metadata =
  md_keys :: "meta_row list"
  md_vaults :: "vault_row list"
  md_slots :: "slot_row list"
  md_preferences :: "(str \<times> str) list"
  md_next_vault :: nat
  md_next_slot :: nat
  md_ticks :: nat

text \<open>
  Around the statements: the time at each of them, whether SQLite commits it, and what pydantic
  makes of a slot as JSON and back (\<open>None\<close> where that is a \<open>ValidationError\<close>).
\<close>

record store_env =
  se_now :: "nat \<Rightarrow> str"
  se_commits :: "nat \<Rightarrow> bool"
  se_dump :: "key_unlock_slot \<Rightarrow> str"
  se_load :: "str \<Rightarrow> key_unlock_slot option"

definition empty_store :: metadata where
  "empty_store = \<lparr>md_keys = [], md_vaults = [], md_slots = [], md_preferences = [], md_next_vault = 1, md_next_slot = 1,
     md_ticks = 0\<rparr>"

text \<open>\<open>with self._tx()\<close>: an exception, of the statement or of the commit, rolls back.\<close>

definition tx :: "store_env \<Rightarrow> (str \<Rightarrow> metadata \<Rightarrow> ('a \<times> metadata) res) \<Rightarrow> (metadata, 'a) prog" where
  "tx env body = (\<lambda>m.
     let t = md_ticks m; m0 = m\<lparr>md_ticks := Suc t\<rparr> in
     case body (se_now env t) m0 of
       Inl e \<Rightarrow> (Inl e, m0)
     | Inr (x, m1) \<Rightarrow> if se_commits env t then (Inr x, m1) else (Inl DatabaseError, m0))"

section \<open>\<open>key_metadata\<close>\<close>

definition or_empty :: "str option \<Rightarrow> str" where
  "or_empty v = (case v of None \<Rightarrow> [] | Some s \<Rightarrow> s)"

definition coalesce :: "'a option \<Rightarrow> 'a \<Rightarrow> 'a" where
  "coalesce v old = (case v of None \<Rightarrow> old | Some x \<Rightarrow> x)"

record key_context =
  kx_label :: "str option"
  kx_purpose :: "str option"
  kx_platform :: "str option"
  kx_notes :: "str option"

definition new_meta_row :: "str \<Rightarrow> key_context \<Rightarrow> str \<Rightarrow> meta_row" where
  "new_meta_row fp c now = \<lparr>mr_fingerprint = fp, mr_label = or_empty (kx_label c), mr_purpose = or_empty (kx_purpose c),
     mr_platform = or_empty (kx_platform c), mr_notes = or_empty (kx_notes c), mr_favorite = False,
     mr_import_timestamp = now, mr_last_used_timestamp = None\<rparr>"

definition updated_row :: "key_context \<Rightarrow> meta_row \<Rightarrow> meta_row" where
  "updated_row c r = r\<lparr>mr_label := coalesce (kx_label c) (mr_label r), mr_purpose := coalesce (kx_purpose c) (mr_purpose r),
     mr_platform := coalesce (kx_platform c) (mr_platform r), mr_notes := coalesce (kx_notes c) (mr_notes r)\<rparr>"

text \<open>\<open>UPDATE \<dots> WHERE fingerprint = ?\<close>.\<close>

definition update_meta :: "str \<Rightarrow> (meta_row \<Rightarrow> meta_row) \<Rightarrow> metadata \<Rightarrow> metadata" where
  "update_meta fp f m = m\<lparr>md_keys := map (\<lambda>r. if mr_fingerprint r = fp then f r else r) (md_keys m)\<rparr>"

definition upsert_key :: "store_env \<Rightarrow> str \<Rightarrow> key_context \<Rightarrow> (metadata, unit) prog" where
  "upsert_key env fp c = tx env (\<lambda>now m. Inr ((),
     if fp \<in> set (map mr_fingerprint (md_keys m)) then update_meta fp (updated_row c) m
     else m\<lparr>md_keys := md_keys m @ [new_meta_row fp c now]\<rparr>))"

definition touch_key :: "store_env \<Rightarrow> str \<Rightarrow> (metadata, unit) prog" where
  "touch_key env fp = tx env (\<lambda>now m. Inr ((), update_meta fp (\<lambda>r. r\<lparr>mr_last_used_timestamp := Some now\<rparr>) m))"

definition store_set_favorite :: "store_env \<Rightarrow> str \<Rightarrow> bool \<Rightarrow> (metadata, unit) prog" where
  "store_set_favorite env fp favorite = tx env (\<lambda>now m. Inr ((), update_meta fp (\<lambda>r. r\<lparr>mr_favorite := favorite\<rparr>) m))"

definition store_delete_key :: "store_env \<Rightarrow> str \<Rightarrow> (metadata, unit) prog" where
  "store_delete_key env fp = tx env (\<lambda>now m.
     Inr ((), m\<lparr>md_keys := filter (\<lambda>r. mr_fingerprint r \<noteq> fp) (md_keys m)\<rparr>))"

definition get_key :: "str \<Rightarrow> metadata \<Rightarrow> meta_row option" where
  "get_key fp m = find (\<lambda>r. mr_fingerprint r = fp) (md_keys m)"

text \<open>\<open>ORDER BY c DESC\<close>: SQLite's sorter keeps the order of the rows with equal keys.\<close>

definition order_desc :: "('a \<Rightarrow> str) \<Rightarrow> 'a list \<Rightarrow> 'a list" where
  "order_desc key rows = rev (sort_key key (rev rows))"

definition store_list_keys :: "metadata \<Rightarrow> meta_row list" where
  "store_list_keys m = order_desc mr_import_timestamp (md_keys m)"

section \<open>\<open>vault_record\<close>\<close>

definition store_add_vault_record :: "store_env \<Rightarrow> str \<Rightarrow> nat \<Rightarrow> str \<Rightarrow> (metadata, nat) prog" where
  "store_add_vault_record env filename key_count description = tx env (\<lambda>now m.
     Inr (md_next_vault m, m\<lparr>md_vaults := md_vaults m @ [\<lparr>vr_id = md_next_vault m, vr_filename = filename,
         vr_creation_timestamp = now, vr_key_count = key_count, vr_description = description\<rparr>],
       md_next_vault := Suc (md_next_vault m)\<rparr>))"

definition list_vault_records :: "metadata \<Rightarrow> vault_row list" where
  "list_vault_records m = order_desc vr_creation_timestamp (md_vaults m)"

definition latest_vault_timestamp :: "metadata \<Rightarrow> str option" where
  "latest_vault_timestamp m =
     (case order_desc vr_creation_timestamp (md_vaults m) of [] \<Rightarrow> None | r # _ \<Rightarrow> Some (vr_creation_timestamp r))"

section \<open>\<open>key_unlock_slot\<close>\<close>

definition slots_of_key :: "str \<Rightarrow> metadata \<Rightarrow> slot_row list" where
  "slots_of_key fp m = filter (\<lambda>r. sr_fingerprint r = fp) (md_slots m)"

definition add_unlock_slot :: "store_env \<Rightarrow> str \<Rightarrow> key_unlock_slot \<Rightarrow> (metadata, nat) prog" where
  "add_unlock_slot env fingerprint slot = bindP (liftP (normalise_fingerprint fingerprint)) (\<lambda>fpr. tx env (\<lambda>now m.
     if length (slots_of_key fpr m) \<ge> MAX_KEY_UNLOCK_SLOTS then Inl MetadataStoreError
     else Inr (md_next_slot m, m\<lparr>md_slots := md_slots m @ [\<lparr>sr_id = md_next_slot m, sr_fingerprint = fpr,
         sr_slot_type = unlock_type_value (us_type slot), sr_slot_json = se_dump env slot, sr_creation_timestamp = now\<rparr>],
       md_next_slot := Suc (md_next_slot m)\<rparr>)))"

definition loaded :: "store_env \<Rightarrow> slot_row \<Rightarrow> (nat \<times> key_unlock_slot) option" where
  "loaded env r = map_option (Pair (sr_id r)) (se_load env (sr_slot_json r))"

definition unlock_slots :: "store_env \<Rightarrow> str \<Rightarrow> metadata \<Rightarrow> (nat \<times> key_unlock_slot) list res" where
  "unlock_slots env fingerprint m = bindE (normalise_fingerprint fingerprint) (\<lambda>fpr.
     Inr (List.map_filter (loaded env) (sort_key sr_id (slots_of_key fpr m))))"

definition has_unlock_slots :: "str \<Rightarrow> metadata \<Rightarrow> bool res" where
  "has_unlock_slots fingerprint m = bindE (normalise_fingerprint fingerprint) (\<lambda>fpr. Inr (slots_of_key fpr m \<noteq> []))"

definition delete_unlock_slot :: "store_env \<Rightarrow> nat \<Rightarrow> (metadata, unit) prog" where
  "delete_unlock_slot env slot_id = tx env (\<lambda>now m.
     Inr ((), m\<lparr>md_slots := filter (\<lambda>r. sr_id r \<noteq> slot_id) (md_slots m)\<rparr>))"

definition delete_unlock_slots :: "store_env \<Rightarrow> str \<Rightarrow> (metadata, unit) prog" where
  "delete_unlock_slots env fingerprint = tx env (\<lambda>now m. bindE (normalise_fingerprint fingerprint) (\<lambda>fpr.
     Inr ((), m\<lparr>md_slots := filter (\<lambda>r. sr_fingerprint r \<noteq> fpr) (md_slots m)\<rparr>)))"

section \<open>\<open>app_preferences\<close>\<close>

definition set_preference :: "store_env \<Rightarrow> str \<Rightarrow> str \<Rightarrow> (metadata, unit) prog" where
  "set_preference env key val = tx env (\<lambda>now m. Inr ((), m\<lparr>md_preferences :=
     (if key \<in> set (map fst (md_preferences m))
      then map (\<lambda>(k, v). (k, if k = key then val else v)) (md_preferences m)
      else md_preferences m @ [(key, val)])\<rparr>))"

definition get_preference :: "str \<Rightarrow> str option \<Rightarrow> metadata \<Rightarrow> str option" where
  "get_preference key fallback m = (case map_of (md_preferences m) key of None \<Rightarrow> fallback | Some v \<Rightarrow> Some v)"

definition delete_preference :: "store_env \<Rightarrow> str \<Rightarrow> (metadata, unit) prog" where
  "delete_preference env key = tx env (\<lambda>now m.
     Inr ((), m\<lparr>md_preferences := filter (\<lambda>(k, v). k \<noteq> key) (md_preferences m)\<rparr>))"

section \<open>What the store keeps\<close>

text \<open>
  The constraints of the schema and the cap: fingerprints and preference keys are unique, the row
  ids increase in the order of the rows and stay below the next one, and no key has more unlock
  slots than \<open>MAX_KEY_UNLOCK_SLOTS\<close>.
\<close>

definition store_ok :: "metadata \<Rightarrow> bool" where
  "store_ok m \<longleftrightarrow> distinct (map mr_fingerprint (md_keys m)) \<and> distinct (map fst (md_preferences m)) \<and>
     sorted_wrt (<) (map vr_id (md_vaults m)) \<and> (\<forall>r \<in> set (md_vaults m). vr_id r < md_next_vault m) \<and>
     sorted_wrt (<) (map sr_id (md_slots m)) \<and> (\<forall>r \<in> set (md_slots m). sr_id r < md_next_slot m) \<and>
     (\<forall>fp. length (slots_of_key fp m) \<le> MAX_KEY_UNLOCK_SLOTS)"

datatype store_call =
    Upsert_Key str key_context
  | Touch_Key str
  | Set_Favorite str bool
  | Delete_Key str
  | Add_Vault_Record str nat str
  | Add_Unlock_Slot str key_unlock_slot
  | Delete_Unlock_Slot nat
  | Delete_Unlock_Slots str
  | Set_Preference str str
  | Delete_Preference str

definition quietly :: "('s, 'a) prog \<Rightarrow> 's \<Rightarrow> 's" where
  "quietly m s = snd (m s)"

fun store_step :: "store_env \<Rightarrow> store_call \<Rightarrow> metadata \<Rightarrow> metadata" where
  "store_step env (Upsert_Key fp c) = quietly (upsert_key env fp c)"
| "store_step env (Touch_Key fp) = quietly (touch_key env fp)"
| "store_step env (Set_Favorite fp b) = quietly (store_set_favorite env fp b)"
| "store_step env (Delete_Key fp) = quietly (store_delete_key env fp)"
| "store_step env (Add_Vault_Record f n d) = quietly (store_add_vault_record env f n d)"
| "store_step env (Add_Unlock_Slot fp s) = quietly (add_unlock_slot env fp s)"
| "store_step env (Delete_Unlock_Slot i) = quietly (delete_unlock_slot env i)"
| "store_step env (Delete_Unlock_Slots fp) = quietly (delete_unlock_slots env fp)"
| "store_step env (Set_Preference k v) = quietly (set_preference env k v)"
| "store_step env (Delete_Preference k) = quietly (delete_preference env k)"

lemma store_ok_tick [simp]: "store_ok (m\<lparr>md_ticks := t\<rparr>) \<longleftrightarrow> store_ok m"
  by (simp add: store_ok_def slots_of_key_def)

lemma tx_preserves [preserves_intros]:
  assumes "\<And>now m x m1. store_ok m \<Longrightarrow> body now m = Inr (x, m1) \<Longrightarrow> store_ok m1"
  shows "preserves store_ok (tx env body)"
proof -
  have "store_ok m \<Longrightarrow> body now (m\<lparr>md_ticks := t\<rparr>) = Inr (x, m1) \<Longrightarrow> store_ok m1" for m now t x m1
    using assms [of "m\<lparr>md_ticks := t\<rparr>"] by simp
  then show ?thesis by (auto simp: preserves_def tx_def Let_def split: sum.splits)
qed

lemma fewer: "length (filter (\<lambda>x. Q x \<and> P x) xs) \<le> length (filter P xs)"
  by (induction xs) auto

lemma update_meta_ok: "(\<And>r. mr_fingerprint (f r) = mr_fingerprint r) \<Longrightarrow> store_ok m \<Longrightarrow> store_ok (update_meta fp f m)"
  by (simp add: store_ok_def slots_of_key_def update_meta_def comp_def if_distrib cong: if_cong)

lemma sorted_wrt_filtered: "sorted_wrt P (map f xs) \<Longrightarrow> sorted_wrt P (map f (filter Q xs))"
  by (induction xs) auto

lemma distinct_filtered: "distinct (map f xs) \<Longrightarrow> distinct (map f (filter Q xs))"
  by (induction xs) auto

lemma dropped_slots_ok: "store_ok m \<Longrightarrow> store_ok (m\<lparr>md_slots := filter Q (md_slots m)\<rparr>)"
  using le_trans [OF fewer, of "\<lambda>r. sr_fingerprint r = fp" "md_slots m" "MAX_KEY_UNLOCK_SLOTS" Q for fp]
  by (simp add: store_ok_def slots_of_key_def sorted_wrt_filtered)

lemma added_slot_ok:
  assumes "store_ok m" "length (slots_of_key (sr_fingerprint r) m) < MAX_KEY_UNLOCK_SLOTS" "sr_id r = md_next_slot m"
  shows "store_ok (m\<lparr>md_slots := md_slots m @ [r], md_next_slot := Suc (md_next_slot m)\<rparr>)"
  using assms by (auto simp: store_ok_def slots_of_key_def sorted_wrt_append less_Suc_eq)

lemma store_ops_ok [preserves_intros]:
  "preserves store_ok (upsert_key env fp c)" "preserves store_ok (touch_key env fp)"
  "preserves store_ok (store_set_favorite env fp b)" "preserves store_ok (store_delete_key env fp)"
  "preserves store_ok (store_add_vault_record env f n d)" "preserves store_ok (add_unlock_slot env fp s)"
  "preserves store_ok (delete_unlock_slot env i)" "preserves store_ok (delete_unlock_slots env fp)"
  "preserves store_ok (set_preference env k v)" "preserves store_ok (delete_preference env k)"
proof -
  show "preserves store_ok (upsert_key env fp c)" unfolding upsert_key_def
  proof (rule tx_preserves)
    fix now m x m1
    assume ok: "store_ok m" and r: "Inr ((), if fp \<in> set (map mr_fingerprint (md_keys m)) then update_meta fp (updated_row c) m
      else m\<lparr>md_keys := md_keys m @ [new_meta_row fp c now]\<rparr>) = Inr (x, m1)"
    have "store_ok (update_meta fp (updated_row c) m)" using ok by (intro update_meta_ok) (simp_all add: updated_row_def)
    then show "store_ok m1" using ok r by (auto simp: store_ok_def slots_of_key_def new_meta_row_def split: if_splits)
  qed
  show "preserves store_ok (touch_key env fp)" "preserves store_ok (store_set_favorite env fp b)"
    unfolding touch_key_def store_set_favorite_def by (rule tx_preserves, auto intro!: update_meta_ok)+
  show "preserves store_ok (store_delete_key env fp)" unfolding store_delete_key_def
    by (rule tx_preserves) (auto simp: store_ok_def slots_of_key_def distinct_filtered)
  show "preserves store_ok (store_add_vault_record env f n d)" unfolding store_add_vault_record_def
    by (rule tx_preserves) (auto simp: store_ok_def slots_of_key_def sorted_wrt_append less_Suc_eq)
  show "preserves store_ok (add_unlock_slot env fp s)" unfolding add_unlock_slot_def
    by (intro preserves_intros) (auto split: if_splits intro!: added_slot_ok)
  show "preserves store_ok (delete_unlock_slot env i)" "preserves store_ok (delete_unlock_slots env fp)"
    unfolding delete_unlock_slot_def delete_unlock_slots_def by (rule tx_preserves, auto intro!: dropped_slots_ok)+
  show "preserves store_ok (set_preference env k v)" unfolding set_preference_def
  proof (rule tx_preserves)
    fix now m x m1
    assume ok: "store_ok m" and r: "Inr ((), m\<lparr>md_preferences := if k \<in> set (map fst (md_preferences m))
        then map (\<lambda>(k', v'). (k', if k' = k then v else v')) (md_preferences m) else md_preferences m @ [(k, v)]\<rparr>) = Inr (x, m1)"
    have "fst \<circ> (\<lambda>(k', v'). (k', if k' = k then v else v')) = fst" by auto
    then show "store_ok m1" using ok r by (auto simp: store_ok_def slots_of_key_def split: if_splits)
  qed
  show "preserves store_ok (delete_preference env k)" unfolding delete_preference_def
    by (rule tx_preserves) (auto simp: store_ok_def slots_of_key_def distinct_filtered)
qed


section \<open>Reading back\<close>

lemma committed:
  "tx env body m = (Inr x, m') \<Longrightarrow> \<exists>m1. body (se_now env (md_ticks m)) (m\<lparr>md_ticks := Suc (md_ticks m)\<rparr>) = Inr (x, m1) \<and> m' = m1"
  by (auto simp: tx_def Let_def split: sum.splits if_splits)

lemma rolled_back: "tx env body m = (Inl e, m') \<Longrightarrow> m' = m\<lparr>md_ticks := Suc (md_ticks m)\<rparr>"
  by (auto simp: tx_def Let_def split: sum.splits if_splits)

lemma find_append: "find P (xs @ ys) = (case find P xs of None \<Rightarrow> find P ys | Some x \<Rightarrow> Some x)"
  by (induction xs) auto

lemma find_map: "(\<And>x. P (f x) = P x) \<Longrightarrow> find P (map f xs) = map_option f (find P xs)"
  by (induction xs) auto

lemma get_key_update:
  assumes "\<And>r. mr_fingerprint (f r) = mr_fingerprint r"
  shows "get_key g (update_meta fp f m) = (if g = fp then map_option f (get_key g m) else get_key g m)"
proof -
  have "get_key g (update_meta fp f m) = map_option (\<lambda>r. if mr_fingerprint r = fp then f r else r) (get_key g m)"
    by (simp add: get_key_def update_meta_def find_map assms if_distrib cong: if_cong)
  moreover have "get_key g m = Some r \<Longrightarrow> mr_fingerprint r = g" for r by (auto simp: get_key_def find_Some_iff)
  ultimately show ?thesis by (cases "get_key g m") auto
qed

text \<open>What the user typed for a key is read back, the fields left alone keep their text.\<close>

lemma upsert_get:
  assumes "upsert_key env fp c m = (Inr (), m')"
  shows "get_key g m' = (if g \<noteq> fp then get_key g m
    else Some (case get_key fp m of None \<Rightarrow> new_meta_row fp c (se_now env (md_ticks m)) | Some r \<Rightarrow> updated_row c r))"
proof -
  let ?m = "m\<lparr>md_ticks := Suc (md_ticks m)\<rparr>"
  have m': "m' = (if fp \<in> set (map mr_fingerprint (md_keys m)) then update_meta fp (updated_row c) ?m
      else ?m\<lparr>md_keys := md_keys ?m @ [new_meta_row fp c (se_now env (md_ticks m))]\<rparr>)"
    using committed [OF assms [unfolded upsert_key_def]] by auto
  have t: "get_key h ?m = get_key h m" for h by (simp add: get_key_def)
  have mem: "fp \<in> set (map mr_fingerprint (md_keys m)) \<longleftrightarrow> get_key fp m \<noteq> None"
    by (auto simp: get_key_def find_None_iff)
  show ?thesis
  proof (cases "get_key fp m")
    case None
    then have "md_keys m' = md_keys m @ [new_meta_row fp c (se_now env (md_ticks m))]" using m' mem by simp
    then show ?thesis using None by (auto simp: get_key_def find_append new_meta_row_def split: option.split)
  next
    case (Some r)
    have "mr_fingerprint (updated_row c r) = mr_fingerprint r" for r by (simp add: updated_row_def)
    from get_key_update [of "updated_row c", OF this] show ?thesis using m' mem Some by (simp add: t)
  qed
qed

section \<open>The store of the unlock slots\<close>

text \<open>
  What the unlock service relies on: a slot that was added is read back last, under an id of its
  own; an addition that fails changes nothing; a deletion takes the slot of its id.
\<close>

locale slot_store =
  fixes add :: "'e \<Rightarrow> str \<Rightarrow> key_unlock_slot \<Rightarrow> ('s, nat) prog"
    and slots :: "'e \<Rightarrow> str \<Rightarrow> 's \<Rightarrow> (nat \<times> key_unlock_slot) list"
    and delete :: "'e \<Rightarrow> nat \<Rightarrow> ('s, unit) prog"
    and ok :: "'e \<Rightarrow> 's \<Rightarrow> bool"
  assumes add_Inr: "ok e s \<Longrightarrow> fingerprint_ok fp \<Longrightarrow> add e fp x s = (Inr i, s') \<Longrightarrow>
      ok e s' \<and> slots e fp s' = slots e fp s @ [(i, x)] \<and> i \<notin> fst ` set (slots e fp s)"
    and add_Inl: "ok e s \<Longrightarrow> fingerprint_ok fp \<Longrightarrow> add e fp x s = (Inl err, s') \<Longrightarrow> ok e s' \<and> slots e fp s' = slots e fp s"
    and delete_Inr: "ok e s \<Longrightarrow> delete e i s = (Inr (), s') \<Longrightarrow>
      ok e s' \<and> slots e fp s' = filter (\<lambda>(j, x). j \<noteq> i) (slots e fp s)"

context slot_store
begin

lemma delete_all:
  assumes "ok e s" "mapP (delete e) is s = (Inr us, s')"
  shows "ok e s' \<and> slots e fp s' = filter (\<lambda>(j, x). j \<notin> set is) (slots e fp s)"
  using assms
proof (induction "is" arbitrary: s us)
  case (Cons i "is")
  then obtain s1 vs where s: "delete e i s = (Inr (), s1)" "mapP (delete e) is s1 = (Inr vs, s')"
    by (auto simp: bindP_eq_Inr)
  note d = delete_Inr [OF Cons.prems(1) s(1), of fp]
  have "filter (\<lambda>(j, x). j \<notin> set is) (filter (\<lambda>(j, x). j \<noteq> i) xs) = filter (\<lambda>(j, x). j \<notin> set (i # is)) xs" for xs :: "(nat \<times> key_unlock_slot) list"
    by (induction xs) auto
  then show ?case using Cons.IH [OF _ s(2)] d by simp
qed simp

end

lemma unlock_slots_ok:
  assumes "store_ok m" "fingerprint_ok fp"
  shows "unlock_slots env fp m = Inr (List.map_filter (loaded env) (slots_of_key fp m))"
proof -
  have "sorted (map sr_id (slots_of_key fp m))"
    using assms(1) sorted_wrt_filtered [of "(<)" sr_id "md_slots m" "\<lambda>r. sr_fingerprint r = fp"]
    by (auto simp: store_ok_def slots_of_key_def intro: strict_sorted_imp_sorted)
  then have "sort_key sr_id (slots_of_key fp m) = slots_of_key fp m" by (rule sort_key_id_if_sorted)
  then show ?thesis using assms(2) by (simp add: unlock_slots_def)
qed

text \<open>The documented behaviour of pydantic: the JSON of a slot is read back as that slot.\<close>

definition slots_read_back :: "store_env \<Rightarrow> bool" where
  "slots_read_back env \<longleftrightarrow> (\<forall>s. se_load env (se_dump env s) = Some s)"

definition stored_slots :: "store_env \<Rightarrow> str \<Rightarrow> metadata \<Rightarrow> (nat \<times> key_unlock_slot) list" where
  "stored_slots env fp m = List.map_filter (loaded env) (slots_of_key fp m)"

definition slot_store_ok :: "store_env \<Rightarrow> metadata \<Rightarrow> bool" where
  "slot_store_ok env m \<longleftrightarrow> store_ok m \<and> slots_read_back env"

lemma stored_slots_tick [simp]: "stored_slots env fp (m\<lparr>md_ticks := t\<rparr>) = stored_slots env fp m"
  by (simp add: stored_slots_def slots_of_key_def)

lemma map_filter_append: "List.map_filter f (xs @ ys) = List.map_filter f xs @ List.map_filter f ys"
  by (induction xs) (auto simp: List.map_filter_simps split: option.split)

interpretation unlocks: slot_store add_unlock_slot stored_slots delete_unlock_slot slot_store_ok
proof
  fix env fp x i and m m' :: metadata
  assume ok: "slot_store_ok env m" and fp: "fingerprint_ok fp" and r: "add_unlock_slot env fp x m = (Inr i, m')"
  let ?row = "\<lparr>sr_id = md_next_slot m, sr_fingerprint = fp, sr_slot_type = unlock_type_value (us_type x),
      sr_slot_json = se_dump env x, sr_creation_timestamp = se_now env (md_ticks m)\<rparr>"
  have "preserves store_ok (add_unlock_slot env fp x)" by (rule store_ops_ok)
  then have ok': "store_ok m'" using ok r by (auto simp: preserves_def slot_store_ok_def dest: spec [of _ m])
  have a: "i = md_next_slot m" "md_slots m' = md_slots m @ [?row]"
    using r fp by (auto simp: add_unlock_slot_def bindP_def dest!: committed split: if_splits)
  have "i \<notin> fst ` set (stored_slots env fp m)"
    using ok a(1) by (force simp: slot_store_ok_def store_ok_def stored_slots_def slots_of_key_def List.map_filter_def loaded_def)
  moreover have "stored_slots env fp m' = stored_slots env fp m @ [(i, x)]"
    using ok a by (simp add: stored_slots_def slots_of_key_def map_filter_append List.map_filter_simps loaded_def
        slot_store_ok_def slots_read_back_def)
  ultimately show "slot_store_ok env m' \<and> stored_slots env fp m' = stored_slots env fp m @ [(i, x)] \<and>
      i \<notin> fst ` set (stored_slots env fp m)" using ok ok' by (simp add: slot_store_ok_def)
next
  fix env fp x e and m m' :: metadata
  assume ok: "slot_store_ok env m" and fp: "fingerprint_ok fp" and r: "add_unlock_slot env fp x m = (Inl e, m')"
  then have "m' = m\<lparr>md_ticks := Suc (md_ticks m)\<rparr>"
    by (auto simp: add_unlock_slot_def bindP_def dest: rolled_back)
  then show "slot_store_ok env m' \<and> stored_slots env fp m' = stored_slots env fp m"
    using ok by (simp add: slot_store_ok_def)
next
  fix env fp i and m m' :: metadata
  assume ok: "slot_store_ok env m" and r: "delete_unlock_slot env i m = (Inr (), m')"
  have "preserves store_ok (delete_unlock_slot env i)" by (rule store_ops_ok)
  then have ok': "store_ok m'" using ok r by (auto simp: preserves_def slot_store_ok_def dest: spec [of _ m])
  have "md_slots m' = filter (\<lambda>r. sr_id r \<noteq> i) (md_slots m)"
    using r by (auto simp: delete_unlock_slot_def dest!: committed)
  moreover have f: "List.map_filter (loaded env) (filter (\<lambda>r. sr_id r \<noteq> i) rows) =
      filter (\<lambda>(j, x). j \<noteq> i) (List.map_filter (loaded env) rows)" for rows
    by (induction rows) (auto simp: List.map_filter_simps loaded_def split: option.split)
  ultimately have "stored_slots env fp m' = filter (\<lambda>(j, x). j \<noteq> i) (stored_slots env fp m)"
    by (simp add: stored_slots_def slots_of_key_def conj_commute flip: f)
  then show "slot_store_ok env m' \<and> stored_slots env fp m' = filter (\<lambda>(j, x). j \<noteq> i) (stored_slots env fp m)"
    using ok ok' by (simp add: slot_store_ok_def)
qed
end
