(* ===== verification/App_State.thy ===== *)
theory App_State
  imports Metadata_Store Gpg_Service
begin

text \<open>
  The state the services above \<open>GPGService\<close> share, one part per object they are constructed with:
  the keyring behind \<open>GPGService\<close>, the metadata store, the audit log and the token behind
  \<open>FidoService\<close>. Each part is an interpretation of \<open>state_part\<close>; an operation of a part is run
  on the whole with \<open>zoomP\<close>.
\<close>

record ('k, 'l, 't) app_world =
  aw_gpg :: "'k gpg_world"
  aw_store :: metadata
  aw_audit :: 'l
  aw_token :: 't

text \<open>
  What the services are constructed with: \<open>GPGService\<close>, the store, the audit log, \<open>FidoService\<close>,
  the libraries, the KDF parameters and the draws of \<open>secrets.token_bytes\<close>. The metadata store and
  the unlock service may be absent.
\<close>

record ('k, 'l, 't) app_env =
  ae_gpg :: "'k gpg_env"
  ae_store :: store_env
  ae_emit :: "str \<Rightarrow> str \<Rightarrow> audit_payload \<Rightarrow> ('l, unit) prog"
  ae_enroll :: "secure_bytes \<Rightarrow> str \<Rightarrow> ('t, fido_credential \<times> secure_bytes) prog"
  ae_derive :: "fido_credential \<Rightarrow> secure_bytes \<Rightarrow> ('t, secure_bytes) prog"
  ae_crypto :: crypto
  ae_kdf :: kdf_params
  ae_secret :: draw
  ae_salt :: draw
  ae_nonce :: draw
  ae_token_nonce :: draw
  ae_has_metadata :: bool
  ae_has_unlock :: bool

type_synonym ('k, 'l, 't, 'a) app_prog = "(('k, 'l, 't) app_world, 'a) prog"

definition put_gpg :: "'k gpg_world \<Rightarrow> ('k, 'l, 't) app_world \<Rightarrow> ('k, 'l, 't) app_world" where
  "put_gpg g w = w\<lparr>aw_gpg := g\<rparr>"

definition put_store :: "metadata \<Rightarrow> ('k, 'l, 't) app_world \<Rightarrow> ('k, 'l, 't) app_world" where
  "put_store m w = w\<lparr>aw_store := m\<rparr>"

definition put_audit :: "'l \<Rightarrow> ('k, 'l, 't) app_world \<Rightarrow> ('k, 'l, 't) app_world" where
  "put_audit l w = w\<lparr>aw_audit := l\<rparr>"

definition put_token :: "'t \<Rightarrow> ('k, 'l, 't) app_world \<Rightarrow> ('k, 'l, 't) app_world" where
  "put_token t w = w\<lparr>aw_token := t\<rparr>"

lemmas put_defs = put_gpg_def put_store_def put_audit_def put_token_def

interpretation gpg_part: state_part aw_gpg put_gpg
  by unfold_locales (simp_all add: put_gpg_def)

interpretation store_part: state_part aw_store put_store
  by unfold_locales (simp_all add: put_store_def)

interpretation audit_part: state_part aw_audit put_audit
  by unfold_locales (simp_all add: put_audit_def)

interpretation token_part: state_part aw_token put_token
  by unfold_locales (simp_all add: put_token_def)

lemma parts_apart [simp]:
  "aw_store (put_gpg g w) = aw_store w" "aw_audit (put_gpg g w) = aw_audit w" "aw_token (put_gpg g w) = aw_token w"
  "aw_gpg (put_store m w) = aw_gpg w" "aw_audit (put_store m w) = aw_audit w" "aw_token (put_store m w) = aw_token w"
  "aw_gpg (put_audit l w) = aw_gpg w" "aw_store (put_audit l w) = aw_store w" "aw_token (put_audit l w) = aw_token w"
  "aw_gpg (put_token t w) = aw_gpg w" "aw_store (put_token t w) = aw_store w" "aw_audit (put_token t w) = aw_audit w"
  by (simp_all add: put_defs)

abbreviation on_gpg_service :: "('k gpg_world, 'a) prog \<Rightarrow> ('k, 'l, 't, 'a) app_prog" where
  "on_gpg_service \<equiv> zoomP aw_gpg put_gpg"

abbreviation on_store :: "(metadata, 'a) prog \<Rightarrow> ('k, 'l, 't, 'a) app_prog" where
  "on_store \<equiv> zoomP aw_store put_store"

abbreviation on_token :: "('t, 'a) prog \<Rightarrow> ('k, 'l, 't, 'a) app_prog" where
  "on_token \<equiv> zoomP aw_token put_token"

text \<open>\<open>self._audit.emit\<close>, and \<open>emit_best_effort\<close>, which no exception leaves.\<close>

definition emit_event :: "('k, 'l, 't) app_env \<Rightarrow> str \<Rightarrow> str \<Rightarrow> audit_payload \<Rightarrow> ('k, 'l, 't, unit) app_prog" where
  "emit_event env event outcome payload = zoomP aw_audit put_audit (ae_emit env event outcome payload)"

definition try_emit :: "('k, 'l, 't) app_env \<Rightarrow> str \<Rightarrow> str \<Rightarrow> audit_payload \<Rightarrow> ('k, 'l, 't, unit) app_prog" where
  "try_emit env event outcome payload = catchP (emit_event env event outcome payload) (\<lambda>_. retP ())"

text \<open>The exceptions derived from \<open>ServiceError\<close>.\<close>

fun is_service_error :: "exn \<Rightarrow> bool" where
  "is_service_error e \<longleftrightarrow> (case e of
     ServiceError \<Rightarrow> True | VaultServiceError \<Rightarrow> True | VaultChecksumMismatchError \<Rightarrow> True | ConfigServiceError \<Rightarrow> True
   | KeyUnlockError \<Rightarrow> True | NoUnlockMethodError \<Rightarrow> True | FidoServiceError \<Rightarrow> True
   | FidoUnavailableError \<Rightarrow> True | FidoPinError \<Rightarrow> True | FidoTouchError \<Rightarrow> True | FidoCredentialError \<Rightarrow> True
   | GPGServiceError \<Rightarrow> True | GPGValidationError \<Rightarrow> True | GPGPassphraseError _ \<Rightarrow> True | GPGKeyNotFoundError \<Rightarrow> True
   | GPGProcessError \<Rightarrow> True | GPGCardError _ \<Rightarrow> True | GPGCardPinError _ \<Rightarrow> True | _ \<Rightarrow> False)"

lemma emit_event_parts:
  "emit_event env ev out pl w = (r, w') \<Longrightarrow> aw_gpg w' = aw_gpg w \<and> aw_store w' = aw_store w \<and> aw_token w' = aw_token w"
  by (auto simp: emit_event_def audit_part.zoom_eq)

lemma try_emit_parts:
  assumes "try_emit env ev out pl w = (r, w')"
  shows "r = Inr () \<and> aw_gpg w' = aw_gpg w \<and> aw_store w' = aw_store w \<and> aw_token w' = aw_token w"
proof -
  obtain x u where "emit_event env ev out pl w = (x, u)" by fastforce
  with emit_event_parts [OF this] assms show ?thesis by (auto simp: try_emit_def catchP_def split: sum.splits)
qed

end
