(* ===== verification/Key_Unlock_Service.thy ===== *)
theory Key_Unlock_Service
  imports App_State "HOL-Library.Countable"
begin

text \<open>
  \<open>services/key_unlock_service.py\<close>: enrolling tokens for keys and recovering their passphrases.
  \<open>FidoService\<close> is the pair \<open>ae_enroll\<close>, \<open>ae_derive\<close>. The lemmas show that a key that was created
  opens with every method that was asked for, that the slots of a key are stored all or not at
  all, and that an error of the token itself ends the search for a slot that opens.
\<close>

definition PROBE_DATA :: bytes where "PROBE_DATA = ''gpg-meister unlock verification''"

record unlock_methods =
  um_token_labels :: "str list"
  um_has_passphrase :: bool

definition has_token :: "unlock_methods \<Rightarrow> bool" where
  "has_token m \<longleftrightarrow> um_token_labels m \<noteq> []"

definition is_token_only :: "unlock_methods \<Rightarrow> bool" where
  "is_token_only m \<longleftrightarrow> has_token m \<and> \<not> um_has_passphrase m"

definition is_managed :: "unlock_methods \<Rightarrow> bool" where
  "is_managed m \<longleftrightarrow> has_token m \<or> um_has_passphrase m"

definition methods_for :: "('k, 'l, 't) app_env \<Rightarrow> str \<Rightarrow> ('k, 'l, 't, unlock_methods) app_prog" where
  "methods_for env fingerprint = bindP (getP (\<lambda>w. unlock_slots (ae_store env) fingerprint (aw_store w))) (\<lambda>r.
     bindP (liftP r) (\<lambda>rows. let slots = map snd rows in
     retP \<lparr>um_token_labels = map (\<lambda>s. if us_label s \<noteq> [] then us_label s else ''Security key'') (unlock_slots_of slots FIDO),
           um_has_passphrase = has_emergency_passphrase slots\<rparr>))"

definition build_slots ::
    "('k, 'l, 't) app_env \<Rightarrow> secure_bytes \<Rightarrow> secure_bytes \<Rightarrow> fido_credential \<Rightarrow> secure_bytes option \<Rightarrow> key_unlock_slot list res" where
  "build_slots env secret token_secret credential emergency_passphrase =
     bindE (seal_with_token (ae_crypto env) (ae_token_nonce env) secret token_secret credential CHACHA20_POLY1305) (\<lambda>slot.
     case emergency_passphrase of
       None \<Rightarrow> Inr [slot]
     | Some pw \<Rightarrow> bindE (seal_with_passphrase (ae_crypto env) (ae_salt env) (ae_nonce env) secret pw (ae_kdf env)
         CHACHA20_POLY1305) (\<lambda>s. Inr [slot, s]))"

text \<open>The additions of \<open>_persist\<close>, with the ids stored so far for its handler.\<close>

fun store_slots ::
    "('k, 'l, 't) app_env \<Rightarrow> str \<Rightarrow> str \<Rightarrow> nat list \<Rightarrow> key_unlock_slot list \<Rightarrow> ('k, 'l, 't, unit) app_prog" where
  "store_slots env fp event stored [] = retP ()"
| "store_slots env fp event stored (s # ss) = (\<lambda>w.
     case on_store (add_unlock_slot (ae_store env) fp s) w of
       (Inr i, w1) \<Rightarrow> store_slots env fp event (stored @ [i]) ss w1
     | (Inl e, w1) \<Rightarrow>
         thenP (on_store (mapP (delete_unlock_slot (ae_store env)) stored))
         (thenP (try_emit env event FAILED [(''reason'', PStr ''store'')]) (raiseP e)) w1)"

definition persist :: "('k, 'l, 't) app_env \<Rightarrow> str \<Rightarrow> key_unlock_slot list \<Rightarrow> str \<Rightarrow> ('k, 'l, 't, unit) app_prog" where
  "persist env fp slots event =
     thenP (store_slots env fp event [] slots) (try_emit env event OK [(''slot_count'', PInt (int (length slots)))])"

definition discard_unopenable_key :: "('k, 'l, 't) app_env \<Rightarrow> str \<Rightarrow> secure_bytes \<Rightarrow> ('k, 'l, 't, unit) app_prog" where
  "discard_unopenable_key env fp secret =
     catchP (on_gpg_service (delete_key (ae_gpg env) fp True (Some secret)))
       (\<lambda>_. try_emit env ''key_created_with_token'' FAILED [(''reason'', PStr ''orphan_key'')])"

definition create_key_with_token ::
    "('k, 'l, 't) app_env \<Rightarrow> str \<Rightarrow> str \<Rightarrow> key_algorithm \<Rightarrow> int \<Rightarrow> str \<Rightarrow> secure_bytes \<Rightarrow> secure_bytes option \<Rightarrow>
     ('k, 'l, 't, str) app_prog" where
  "create_key_with_token env name email algorithm len expiry pin emergency_passphrase =
     thenP (liftP (validate_user_name name))
     (thenP (liftP (validate_email email))
     (thenP (liftP (validate_key_algorithm_and_length algorithm len))
     (thenP (liftP (validate_expiry expiry))
     (bindP (on_token (ae_enroll env pin (name @ '' <'' @ email @ ''>''))) (\<lambda>(credential, token_secret).
      let secret = generate_key_secret (ae_crypto env) (ae_secret env) in
      bindP (liftP (build_slots env secret token_secret credential emergency_passphrase)) (\<lambda>slots.
      bindP (on_gpg_service (generate_key (ae_gpg env) name email algorithm len expiry secret)) (\<lambda>fp.
      thenP (catchP (persist env fp slots ''key_created_with_token'')
          (\<lambda>e. thenP (discard_unopenable_key env fp secret) (raiseP e)))
        (retP fp))))))))"

definition verify_passphrase :: "('k, 'l, 't) app_env \<Rightarrow> str \<Rightarrow> secure_bytes \<Rightarrow> ('k, 'l, 't, unit) app_prog" where
  "verify_passphrase env fp passphrase =
     catchP (thenP (on_gpg_service (sign (ae_gpg env) PROBE_DATA fp passphrase True)) (retP ()))
       (\<lambda>e. raiseP (if is_service_error e then KeyUnlockError else e))"

definition bind_existing_key ::
    "('k, 'l, 't) app_env \<Rightarrow> str \<Rightarrow> secure_bytes \<Rightarrow> secure_bytes \<Rightarrow> ('k, 'l, 't, unit) app_prog" where
  "bind_existing_key env fingerprint passphrase pin =
     bindP (liftP (normalise_fingerprint fingerprint)) (\<lambda>fpr.
     thenP (liftP (check_secret passphrase))
     (thenP (verify_passphrase env fpr passphrase)
     (bindP (on_token (ae_enroll env pin (drop (length fpr - 16) fpr))) (\<lambda>(credential, token_secret).
      bindP (liftP (seal_with_token (ae_crypto env) (ae_token_nonce env) passphrase token_secret credential
          CHACHA20_POLY1305)) (\<lambda>slot.
      persist env fpr [slot] ''key_bound_to_token'')))))"

definition is_fatal_token_error :: "exn \<Rightarrow> bool" where
  "is_fatal_token_error e \<longleftrightarrow> e = FidoPinError \<or> e = FidoTouchError \<or> e = FidoUnavailableError"

fun try_token_slots ::
    "('k, 'l, 't) app_env \<Rightarrow> secure_bytes \<Rightarrow> key_unlock_slot list \<Rightarrow> ('k, 'l, 't, secure_bytes) app_prog" where
  "try_token_slots env pin [] =
     thenP (try_emit env ''key_unlocked_with_token'' FAILED []) (raiseP KeyUnlockError)"
| "try_token_slots env pin (s # ss) = (case us_fido s of
       None \<Rightarrow> try_token_slots env pin ss
     | Some credential \<Rightarrow> (\<lambda>w.
         case bindP (on_token (ae_derive env credential pin))
             (\<lambda>ts. liftP (unseal_with_token (ae_crypto env) s ts CHACHA20_POLY1305)) w of
           (Inr secret, w1) \<Rightarrow> thenP (try_emit env ''key_unlocked_with_token'' OK []) (retP secret) w1
         | (Inl e, w1) \<Rightarrow>
             if e = DecryptionError then try_token_slots env pin ss w1
             else if is_service_error e \<and> \<not> is_fatal_token_error e then try_token_slots env pin ss w1
             else (Inl e, w1)))"

definition unlock_with_token :: "('k, 'l, 't) app_env \<Rightarrow> str \<Rightarrow> secure_bytes \<Rightarrow> ('k, 'l, 't, secure_bytes) app_prog" where
  "unlock_with_token env fingerprint pin = bindP (getP (\<lambda>w. unlock_slots (ae_store env) fingerprint (aw_store w))) (\<lambda>r.
     bindP (liftP r) (\<lambda>rows. let slots = filter (\<lambda>s. us_type s = FIDO) (map snd rows) in
     if slots = [] then raiseP NoUnlockMethodError else try_token_slots env pin slots))"

fun try_passphrase_fallbacks ::
    "('k, 'l, 't) app_env \<Rightarrow> secure_bytes \<Rightarrow> key_unlock_slot list \<Rightarrow> ('k, 'l, 't, secure_bytes) app_prog" where
  "try_passphrase_fallbacks env pw [] =
     thenP (try_emit env ''key_unlocked_with_passphrase'' FAILED []) (raiseP KeyUnlockError)"
| "try_passphrase_fallbacks env pw (s # ss) = (case us_kdf s of
       None \<Rightarrow> try_passphrase_fallbacks env pw ss
     | Some kdf \<Rightarrow> (case bindE (kdf_fields_to_params kdf) (\<lambda>params. unseal_with_passphrase (ae_crypto env) s pw params
           CHACHA20_POLY1305) of
           Inr secret \<Rightarrow> thenP (try_emit env ''key_unlocked_with_passphrase'' OK []) (retP secret)
         | Inl e \<Rightarrow> if e = DecryptionError then try_passphrase_fallbacks env pw ss else raiseP e))"

definition unlock_with_passphrase :: "('k, 'l, 't) app_env \<Rightarrow> str \<Rightarrow> secure_bytes \<Rightarrow> ('k, 'l, 't, secure_bytes) app_prog" where
  "unlock_with_passphrase env fingerprint passphrase =
     bindP (getP (\<lambda>w. unlock_slots (ae_store env) fingerprint (aw_store w))) (\<lambda>r.
     bindP (liftP r) (\<lambda>rows.
     let slots = filter (\<lambda>s. us_type s = BY_PASSPHRASE \<and> us_kdf s \<noteq> None) (map snd rows) in
     if slots = [] then raiseP NoUnlockMethodError else try_passphrase_fallbacks env passphrase slots))"

definition forget_key :: "('k, 'l, 't) app_env \<Rightarrow> str \<Rightarrow> ('k, 'l, 't, unit) app_prog" where
  "forget_key env fingerprint =
     thenP (on_store (delete_unlock_slots (ae_store env) fingerprint)) (try_emit env ''key_unlock_forgotten'' OK [])"

section \<open>The slots of a key are stored all or not at all\<close>

lemma store_slots_Inr:
  assumes "store_slots env fp event stored ss w = (Inr u, w')" "slot_store_ok (ae_store env) (aw_store w)" "fingerprint_ok fp"
  shows "slot_store_ok (ae_store env) (aw_store w') \<and> aw_gpg w' = aw_gpg w \<and> aw_token w' = aw_token w \<and>
    map snd (stored_slots (ae_store env) fp (aw_store w')) = map snd (stored_slots (ae_store env) fp (aw_store w)) @ ss"
  using assms
proof (induction ss arbitrary: stored w)
  case (Cons s ss)
  obtain r m where a: "add_unlock_slot (ae_store env) fp s (aw_store w) = (r, m)" by fastforce
  show ?case
  proof (cases r)
    case (Inl e)
    then have False
      using Cons.prems(1) a
      by (auto simp: zoomP_def thenP_def bindP_def split: prod.splits sum.splits)
    then show ?thesis ..
  next
    case (Inr i)
    with a Cons.prems(1) have "store_slots env fp event (stored @ [i]) ss (put_store m w) = (Inr u, w')" by (simp add: zoomP_def)
    from Cons.IH [OF this] unlocks.add_Inr [OF Cons.prems(2,3) a [unfolded Inr]] Cons.prems(3) show ?thesis by simp
  qed
qed simp

lemma persist_Inr:
  assumes "persist env fp slots event w = (Inr u, w')" "slot_store_ok (ae_store env) (aw_store w)" "fingerprint_ok fp"
  shows "slot_store_ok (ae_store env) (aw_store w') \<and> aw_gpg w' = aw_gpg w \<and> aw_token w' = aw_token w \<and>
    map snd (stored_slots (ae_store env) fp (aw_store w')) = map snd (stored_slots (ae_store env) fp (aw_store w)) @ slots"
proof -
  obtain w1 v where s: "store_slots env fp event [] slots w = (Inr v, w1)"
      "try_emit env event OK [(''slot_count'', PInt (int (length slots)))] w1 = (Inr u, w')"
    using assms(1) by (auto simp: persist_def thenP_eq_Inr)
  from store_slots_Inr [OF s(1) assms(2,3)] try_emit_parts [OF s(2)] show ?thesis by simp
qed

lemma store_slots_Inl:
  assumes "store_slots env fp event stored ss w = (Inl e, w')" "slot_store_ok (ae_store env) (aw_store w)" "fingerprint_ok fp"
    and "\<forall>t. se_commits (ae_store env) t"
  shows "stored_slots (ae_store env) fp (aw_store w') =
    filter (\<lambda>(j, x). j \<notin> set stored) (stored_slots (ae_store env) fp (aw_store w))"
  using assms(1-3)
proof (induction ss arbitrary: stored w)
  case (Cons s ss)
  obtain r m where a: "add_unlock_slot (ae_store env) fp s (aw_store w) = (r, m)" by fastforce
  show ?case
  proof (cases r)
    case (Inl x)
    note k = unlocks.add_Inl [OF Cons.prems(2,3) a [unfolded Inl]]
    have del: "\<exists>m1. delete_unlock_slot (ae_store env) i m0 = (Inr (), m1)" for i m0
      using assms(4) by (simp add: delete_unlock_slot_def tx_def Let_def)
    have "\<exists>us m1. mapP (delete_unlock_slot (ae_store env)) is m0 = (Inr us, m1)" for "is" m0
    proof (induction "is" arbitrary: m0)
      case (Cons i js)
      obtain m1 where d: "delete_unlock_slot (ae_store env) i m0 = (Inr (), m1)" using del by blast
      from Cons.IH [of m1] d show ?case by (auto simp: bindP_def)
    qed simp
    then obtain us m1 where d: "mapP (delete_unlock_slot (ae_store env)) stored m = (Inr us, m1)" by blast
    obtain r2 w2 where t: "try_emit env event FAILED [(''reason'', PStr ''store'')] (put_store m1 (put_store m w)) = (r2, w2)"
      by fastforce
    have "aw_store w' = m1"
      using Cons.prems(1) a Inl d t try_emit_parts [OF t] by (auto simp: zoomP_def thenP_def bindP_def)
    then show ?thesis using unlocks.delete_all [OF conjunct1 [OF k] d, of fp] k by simp
  next
    case (Inr i)
    note k = unlocks.add_Inr [OF Cons.prems(2,3) a [unfolded Inr]]
    from a Inr Cons.prems(1) have "store_slots env fp event (stored @ [i]) ss (put_store m w) = (Inl e, w')"
      by (simp add: zoomP_def)
    from Cons.IH [OF this] k Cons.prems(3)
    have "stored_slots (ae_store env) fp (aw_store w') =
        filter (\<lambda>(j, x). j \<notin> set (stored @ [i])) (stored_slots (ae_store env) fp (aw_store w) @ [(i, s)])" by simp
    also have "\<dots> = filter (\<lambda>(j, x). j \<notin> set stored) (stored_slots (ae_store env) fp (aw_store w))"
    proof -
      have "j \<noteq> i" if "(j, x) \<in> set (stored_slots (ae_store env) fp (aw_store w))" for j x using k that by force
      then have "filter (\<lambda>(j, x). j \<notin> set (stored @ [i])) (stored_slots (ae_store env) fp (aw_store w)) =
          filter (\<lambda>(j, x). j \<notin> set stored) (stored_slots (ae_store env) fp (aw_store w))"
        by (intro filter_cong) auto
      then show ?thesis by simp
    qed
    finally show ?thesis .
  qed
qed (simp add: store_ok_def)

text \<open>
  C24. The slots of a key are written all or not at all: if storing them fails, at whichever of
  them, the key has the unlock slots it had before, as long as SQLite commits; so no key the user
  wanted a fallback for is left with the token alone.
\<close>

theorem failed_enrolment_leaves_no_slot:
  assumes "persist env fp slots event w = (Inl e, w')" "slot_store_ok (ae_store env) (aw_store w)" "fingerprint_ok fp"
    and "\<forall>t. se_commits (ae_store env) t"
  shows "stored_slots (ae_store env) fp (aw_store w') = stored_slots (ae_store env) fp (aw_store w)"
proof -
  have "store_slots env fp event [] slots w = (Inl e, w')"
    using assms(1) by (auto simp: persist_def thenP_def bindP_def split: prod.splits sum.splits dest: try_emit_parts)
  from store_slots_Inl [OF this assms(2-4)] show ?thesis by (simp add: split_def)
qed

section \<open>A created key opens\<close>

lemma preserves_calls:
  fixes env :: "'k gpg_env"
  shows "preserves (\<lambda>w. rq \<in> set (gw_calls w)) (run_gpg env args i pw st)"
  unfolding preserves_def run_gpg_def
proof (intro allI impI)
  fix w :: "'k gpg_world" assume w: "rq \<in> set (gw_calls w)"
  obtain r w' where r: "run_gpg_with env [] args i pw st w = (r, w')" by fastforce
  from run_gpg_with_calls [OF r] w show "rq \<in> set (gw_calls (snd (run_gpg_with env [] args i pw st w)))" by (auto simp: r)
qed

lemma generated_key:
  assumes "generate_key env name email algorithm len expiry passphrase w = (Inr fp, w')"
  shows "fingerprint_ok fp" "\<exists>rq \<in> set (gw_calls w'). ''--quick-generate-key'' \<in> set (rq_argv rq) \<and>
    rq_passphrase rq = Some (key_bytes passphrase)"
proof -
  obtain n e view args proc w1 f where v: "sb_view passphrase = Inr view" and q: "quick_args n e algorithm len expiry = Inr args"
    and r: "run_gpg env (''--yes'' # args) None (Some passphrase) True w = (Inr proc, w1)"
    and f: "(let fp = created_fingerprint (parse_status (gr_status proc)) in
            if fp \<noteq> [] then retP fp
            else bindP (list_keys env True) (\<lambda>keys.
              case filter (\<lambda>k. user_id n e \<in> set (ki_user_ids k)) keys of
                [] \<Rightarrow> retP [] | ks \<Rightarrow> retP (ki_fingerprint (last ks)))) w1 = (Inr f, w')"
      "validate_fingerprint f = Inr fp"
    using assms by (auto simp: generate_key_def bindP_eq_Inr thenP_eq_Inr raiseP_def split: if_splits)
  show "fingerprint_ok fp" using f(2) by (auto simp: validate_fingerprint_ok)
  obtain rq where rq: "gpg_request_of env [] (''--yes'' # args) None (Some passphrase) True = Inr rq" "rq \<in> set (gw_calls w1)"
    using run_gpg_with_calls [of env "[]" "''--yes'' # args" None "Some passphrase" True w] r by (auto simp: run_gpg_def)
  have "''--quick-generate-key'' \<in> set args" using q by (auto simp: quick_args_def split: if_splits)
  moreover have "rq_passphrase rq = Some (key_bytes passphrase)" "set args \<subseteq> set (rq_argv rq)"
    using rq(1) by (auto simp: gpg_request_of_def Let_def validated_passphrase_bytes_def sb_view_def key_bytes_def split: if_splits)
  moreover have "rq \<in> set (gw_calls w')"
  proof -
    have l: "preserves (\<lambda>w. rq \<in> set (gw_calls w)) (list_keys env True)"
      by (auto simp: list_keys_def intro!: preserves_intros preserves_calls)
    show ?thesis
    proof (cases "created_fingerprint (parse_status (gr_status proc)) = []")
      case True
      obtain x w2 where lk: "list_keys env True w1 = (x, w2)" by fastforce
      then have "w' = w2" using f(1) True by (auto simp: bindP_def split: sum.splits list.splits)
      with preservesD [OF l rq(2) lk] show ?thesis by simp
    next
      case False
      then show ?thesis using f(1) rq(2) by simp
    qed
  qed
  ultimately show "\<exists>rq \<in> set (gw_calls w'). ''--quick-generate-key'' \<in> set (rq_argv rq) \<and>
    rq_passphrase rq = Some (key_bytes passphrase)" by blast
qed

text \<open>
  Documented behaviour of a token: right after the enrolment it derives the secret the enrolment
  returned, for as long as it is plugged in.
\<close>

definition token_stable :: "('k, 'l, 't) app_env \<Rightarrow> bool" where
  "token_stable env \<longleftrightarrow> (\<forall>pin user t cred ts t1. ae_enroll env pin user t = (Inr (cred, ts), t1) \<longrightarrow>
     (\<exists>ts' t2. ae_derive env cred pin t1 = (Inr ts', t2) \<and> key_bytes ts' = key_bytes ts \<and> usable_key ts'))"

lemma created_slots:
  assumes "create_key_with_token env name email algorithm len expiry pin emergency w = (Inr fp, w')"
    and "slot_store_ok (ae_store env) (aw_store w)"
  defines "secret \<equiv> generate_key_secret (ae_crypto env) (ae_secret env)"
  obtains cred ts t1 slots where "ae_enroll env pin (name @ '' <'' @ email @ ''>'') (aw_token w) = (Inr (cred, ts), t1)"
    "aw_token w' = t1" "build_slots env secret ts cred emergency = Inr slots" "fingerprint_ok fp"
    "slot_store_ok (ae_store env) (aw_store w')"
    "map snd (stored_slots (ae_store env) fp (aw_store w')) = map snd (stored_slots (ae_store env) fp (aw_store w)) @ slots"
    "\<exists>rq \<in> set (gw_calls (aw_gpg w')). ''--quick-generate-key'' \<in> set (rq_argv rq) \<and>
       rq_passphrase rq = Some (key_bytes secret)"
proof -
  obtain cred ts t1 slots g w2 where r: "ae_enroll env pin (name @ '' <'' @ email @ ''>'') (aw_token w) = (Inr (cred, ts), t1)"
      "build_slots env secret ts cred emergency = Inr slots"
      "generate_key (ae_gpg env) name email algorithm len expiry secret (aw_gpg w) = (Inr fp, g)"
      "catchP (persist env fp slots ''key_created_with_token'') (\<lambda>e. thenP (discard_unopenable_key env fp secret) (raiseP e))
         (put_gpg g (put_token t1 w)) = (Inr (), w')"
    using assms(1) unfolding secret_def [symmetric]
    by (auto simp: create_key_with_token_def bindP_eq_Inr thenP_eq_Inr gpg_part.zoom_eq token_part.zoom_eq Let_def
        secret_def [symmetric])
  have p: "persist env fp slots ''key_created_with_token'' (put_gpg g (put_token t1 w)) = (Inr (), w')"
    using r(4) by (subst (asm) catchP_reraise) (auto intro: thenP_raise_fails)
  note k = generated_key [OF r(3)]
  from persist_Inr [OF p _ k(1)] assms(2) k(2) r(1,2) k(1) show ?thesis by (auto intro: that)
qed

text \<open>
  C7. A key created with a token opens with it and with the emergency passphrase: right after
  \<open>create_key_with_token\<close> returned, both ways hand back one and the same secret, and it is the
  passphrase GnuPG was given when it made the key.
\<close>

theorem created_key_opens:
  assumes libs: "aead_correct (cr_aead (ae_crypto env))" "token_stable env" "slot_store_ok (ae_store env) (aw_store w)"
    and create: "create_key_with_token env name email algorithm len expiry pin (Some emergency) w = (Inr fp, w')"
    and new: "stored_slots (ae_store env) fp (aw_store w) = []"
  shows "\<exists>k k'. fst (unlock_with_passphrase env fp emergency w') = Inr k \<and> fst (unlock_with_token env fp pin w') = Inr k' \<and>
    key_bytes k' = key_bytes k \<and> (\<exists>rq \<in> set (gw_calls (aw_gpg w')). ''--quick-generate-key'' \<in> set (rq_argv rq) \<and>
       rq_passphrase rq = Some (key_bytes k))"
proof -
  let ?secret = "generate_key_secret (ae_crypto env) (ae_secret env)" and ?cr = "ae_crypto env"
  obtain cred ts t1 slots where c: "ae_enroll env pin (name @ '' <'' @ email @ ''>'') (aw_token w) = (Inr (cred, ts), t1)"
    "aw_token w' = t1" "build_slots env ?secret ts cred (Some emergency) = Inr slots" "fingerprint_ok fp"
    "slot_store_ok (ae_store env) (aw_store w')" "map snd (stored_slots (ae_store env) fp (aw_store w')) = slots"
    "\<exists>rq \<in> set (gw_calls (aw_gpg w')). ''--quick-generate-key'' \<in> set (rq_argv rq) \<and>
       rq_passphrase rq = Some (key_bytes ?secret)"
    using created_slots [OF create libs(3)] new by (metis append_Nil list.simps(8))
  obtain s1 s2 where s: "seal_with_token ?cr (ae_token_nonce env) ?secret ts cred CHACHA20_POLY1305 = Inr s1"
      "seal_with_passphrase ?cr (ae_salt env) (ae_nonce env) ?secret emergency (ae_kdf env) CHACHA20_POLY1305 = Inr s2"
      "slots = [s1, s2]"
    using c(3) by (auto simp: build_slots_def)
  have len: "sb_size ?secret \<le> length (sb_buffer ?secret)" by (simp add: generate_key_secret_def sb_from_bytes_eq)
  obtain ts' t2 where d: "ae_derive env cred pin t1 = (Inr ts', t2)" "key_bytes ts' = key_bytes ts" "usable_key ts'"
    using libs(2) c(1) unfolding token_stable_def by blast
  note o1 = unseal_sealed_token [OF libs(1) len s(1) d(3,2)] and o2 = unseal_sealed_passphrase [OF libs(1) len s(2)]
  have rows: "unlock_slots (ae_store env) fp (aw_store w') = Inr (stored_slots (ae_store env) fp (aw_store w'))"
    using unlock_slots_ok [of "aw_store w'" fp "ae_store env"] c(4,5) by (simp add: slot_store_ok_def stored_slots_def)
  have ret: "fst (thenP (try_emit env ev out pl) (retP x) v) = Inr x" for ev out pl v and x :: secure_bytes
    by (cases "try_emit env ev out pl v") (auto simp: thenP_def bindP_def dest: try_emit_parts split: sum.splits)
  obtain kdf where k: "us_kdf s2 = Some kdf" "kdf_fields_to_params kdf = Inr (ae_kdf env)" using o2 by blast
  have "fst (unlock_with_passphrase env fp emergency w') = Inr (sb_from_bytes (cr_mlock ?cr) (key_bytes ?secret))"
    using o1 o2 c(6) s(3) k by (simp add: unlock_with_passphrase_def rows ret bindP_lift)
  moreover have "fst (unlock_with_token env fp pin w') = Inr (sb_from_bytes (cr_mlock ?cr) (key_bytes ?secret))"
    using o1 o2 c(2,6) s(3) d(1) by (simp add: unlock_with_token_def rows ret bindP_lift bindP_run zoomP_def)
  ultimately show ?thesis using c(7) by auto
qed

lemma try_slots_fatal:
  assumes "is_fatal_token_error e" "\<And>cred t. ae_derive env cred pin t = (Inl e, g t)"
    and "try_token_slots env pin ss w = (r, w')"
  shows "isl r \<and> (aw_token w' = aw_token w \<or> aw_token w' = g (aw_token w))"
  using assms(3)
proof (induction ss arbitrary: w)
  case Nil
  obtain x u where t: "try_emit env ''key_unlocked_with_token'' FAILED [] w = (x, u)" by fastforce
  with Nil try_emit_parts [OF t] show ?case by (auto simp: thenP_def bindP_def)
next
  case (Cons s ss)
  show ?case
  proof (cases "us_fido s")
    case None
    with Cons show ?thesis by simp
  next
    case (Some cred)
    with Cons.prems assms(1,2) show ?thesis by (auto simp: zoomP_def bindP_def is_fatal_token_error_def)
  qed
qed

text \<open>
  A wrong PIN costs one attempt: however many tokens are enrolled for the key, when the token
  answers with an error of its own, a rejected PIN, a missing touch or no token at all, unlocking
  fails after at most one derivation.
\<close>

theorem wrong_pin_costs_one_attempt:
  assumes "is_fatal_token_error e" "\<And>cred t. ae_derive env cred pin t = (Inl e, g t)"
    and "unlock_with_token env fp pin w = (r, w')"
  shows "isl r \<and> (aw_token w' = aw_token w \<or> aw_token w' = g (aw_token w))"
  using assms(3) try_slots_fatal [OF assms(1,2)]
  by (auto simp: unlock_with_token_def bindP_lift raiseP_def Let_def split: sum.splits if_splits)

section \<open>A concrete application\<close>

definition demo_cred :: fido_credential where
  "demo_cred = \<lparr>fc_credential_id_b64 = b64encode ''id'', fc_salt_b64 = b64encode (replicate 32 (CHR 0x05)),
     fc_rp_id = ''gpg-meister.local'', fc_resident = True, fc_user_verification = True, fc_label = ''Key''\<rparr>"

text \<open>A slot as text: its fields as one number, in digits.\<close>

type_synonym slot_fields = "bool \<times> str \<times> str \<times> (str \<times> int \<times> int \<times> int \<times> int) option \<times>
  (str \<times> str \<times> str \<times> bool \<times> bool \<times> str) option \<times> str"

definition slot_tuple :: "key_unlock_slot \<Rightarrow> slot_fields" where
  "slot_tuple s = (us_type s = FIDO, us_wrapped_secret_b64 s, us_nonce_b64 s,
     map_option (\<lambda>k. (kf_salt_b64 k, kf_time_cost k, kf_memory_cost k, kf_parallelism k, kf_hash_len k)) (us_kdf s),
     map_option (\<lambda>c. (fc_credential_id_b64 c, fc_salt_b64 c, fc_rp_id c, fc_resident c, fc_user_verification c, fc_label c))
       (us_fido s), us_label s)"

definition tuple_slot :: "slot_fields \<Rightarrow> key_unlock_slot" where
  "tuple_slot = (\<lambda>(t, w, n, k, f, l). \<lparr>us_type = (if t then FIDO else BY_PASSPHRASE), us_wrapped_secret_b64 = w, us_nonce_b64 = n,
     us_kdf = map_option (\<lambda>(s, tc, mc, p, h). \<lparr>kf_algorithm = ARGON2ID, kf_salt_b64 = s, kf_time_cost = tc,
       kf_memory_cost = mc, kf_parallelism = p, kf_hash_len = h\<rparr>) k,
     us_fido = map_option (\<lambda>(i, s, r, rs, uv, lb). \<lparr>fc_credential_id_b64 = i, fc_salt_b64 = s, fc_rp_id = r, fc_resident = rs,
       fc_user_verification = uv, fc_label = lb\<rparr>) f, us_label = l\<rparr>)"

lemma tuple_slot_tuple: "tuple_slot (slot_tuple s) = s"
proof -
  have "a = ARGON2ID" for a :: kdf_algorithm by (cases a) simp
  then have k: "\<lparr>kf_algorithm = ARGON2ID, kf_salt_b64 = kf_salt_b64 k, kf_time_cost = kf_time_cost k,
      kf_memory_cost = kf_memory_cost k, kf_parallelism = kf_parallelism k, kf_hash_len = kf_hash_len k\<rparr> = k" for k :: kdf_fields
    by (intro kdf_fields.equality) (simp_all add: eq_commute [of ARGON2ID])
  show ?thesis
    by (intro key_unlock_slot.equality; cases "us_type s"; cases "us_kdf s"; cases "us_fido s")
      (simp_all add: slot_tuple_def tuple_slot_def k)
qed

definition demo_senv :: store_env where
  "demo_senv = \<lparr>se_now = (\<lambda>_. ''2026-01-01T00:00:00Z''), se_commits = (\<lambda>_. True),
     se_dump = (\<lambda>s. show_nat (to_nat (slot_tuple s))), se_load = (\<lambda>t. Some (tuple_slot (from_nat (digits_val t))))\<rparr>"

lemma demo_reads_back: "slots_read_back demo_senv"
  by (simp add: slots_read_back_def demo_senv_def show_nat_props tuple_slot_tuple)

definition demo_token_key :: secure_bytes where
  "demo_token_key = sb_from_bytes True (replicate 32 (CHR 0x07))"

definition demo_app :: "(nat \<Rightarrow> exn + secure_bytes) \<Rightarrow> (listed_key list, str list, nat) app_env" where
  "demo_app token = \<lparr>ae_gpg = demo_genv (STATUS_PREFIX @ ''KEY_CREATED B '' @ replicate 40 (CHR ''B'')), ae_store = demo_senv,
     ae_emit = (\<lambda>ev out pl l. (Inr (), l @ [ev])), ae_enroll = (\<lambda>pin user t. (Inr (demo_cred, demo_token_key), t)),
     ae_derive = (\<lambda>cred pin t. (token t, Suc t)), ae_crypto = demo_crypto, ae_kdf = demo_params, ae_secret = demo_draw,
     ae_salt = demo_draw, ae_nonce = demo_draw, ae_token_nonce = demo_draw, ae_has_metadata = True, ae_has_unlock = True\<rparr>"

definition demo_aworld :: "(listed_key list, str list, nat) app_world" where
  "demo_aworld = \<lparr>aw_gpg = demo_gworld, aw_store = empty_store, aw_audit = [], aw_token = 0\<rparr>"

lemma demo_store_ok: "slot_store_ok (ae_store (demo_app tk)) (aw_store demo_aworld)" "stored_slots env fp (aw_store demo_aworld) = []"
  using demo_reads_back
  by (simp_all add: slot_store_ok_def demo_app_def demo_aworld_def store_ok_def empty_store_def slots_of_key_def
      stored_slots_def List.map_filter_simps)

lemma demo_token_stable: "token_stable (demo_app (\<lambda>_. Inr demo_token_key))"
  by (auto simp: token_stable_def demo_app_def demo_token_key_def KEY_LEN_def)

lemma demo_secret: "check_secret (generate_key_secret demo_crypto demo_draw) = Inr ()"
  "length (key_bytes (generate_key_secret demo_crypto demo_draw)) = 44"
  using generated_secret [of demo_draw demo_crypto] by (simp_all add: KEY_SECRET_TEXT_LEN_def)

lemma demo_slots: "\<exists>s1 s2. build_slots (demo_app tk) (generate_key_secret demo_crypto demo_draw) demo_token_key demo_cred
    (Some demo_passphrase) = Inr [s1, s2]"
proof -
  let ?secret = "generate_key_secret demo_crypto demo_draw"
  have sec: "check_secret ?secret = Inr ()" "sb_view ?secret = Inr (key_bytes ?secret)"
    using demo_secret(1) check_secret_view by auto
  have n: "generate_nonce demo_draw = demo_draw NONCE_LEN" by (simp add: generate_nonce_def)
  let ?w1 = "seal (cr_aead demo_crypto) CHACHA20_POLY1305 (key_bytes demo_token_key) (demo_draw NONCE_LEN)
      (unlock_associated_data FIDO) (key_bytes ?secret)"
  have w1: "?w1 \<noteq> []" "length ?w1 \<le> MAX_WRAPPED_SECRET_LENGTH"
    using demo_secret(2) by (simp_all add: demo_crypto_def tagged_lib_def tagged_seal_def unary_length demo_token_key_def
        unlock_associated_data_def UNLOCK_FORMAT_TAG_def NONCE_LEN_def MAX_WRAPPED_SECRET_LENGTH_def)
  have tok: "check_token_secret demo_token_key = Inr ()" "aead_encrypt (cr_aead demo_crypto) (key_bytes ?secret) demo_token_key
      (demo_draw NONCE_LEN) (unlock_associated_data FIDO) CHACHA20_POLY1305 = Inr ?w1"
    by (simp_all add: check_token_secret_def demo_token_key_def TOKEN_SECRET_LEN_def KEY_LEN_def aead_encrypt_Inr)
  have "\<exists>s1. check_key_unlock_slot \<lparr>us_type = FIDO, us_wrapped_secret_b64 = b64encode ?w1,
      us_nonce_b64 = b64encode (demo_draw NONCE_LEN), us_kdf = None, us_fido = Some demo_cred, us_label = fc_label demo_cred\<rparr> = Inr s1"
    using w1 by (simp add: check_key_unlock_slot_def validate_wrapped_def validate_nonce_b64_def validate_unlock_shape_def
        demo_cred_def py_len_def MAX_UNLOCK_SLOT_LABEL_LENGTH_def)
  then obtain s1 where s1: "seal_with_token demo_crypto demo_draw ?secret demo_token_key demo_cred CHACHA20_POLY1305 = Inr s1"
    by (auto simp: seal_with_token_def sec tok n Let_def)
  obtain raw where raw: "derived demo_crypto demo_passphrase (demo_draw 16) demo_params = Some raw" "length raw = KEY_LEN"
    using demo_derived [of "demo_draw 16"] by auto
  let ?w2 = "seal (cr_aead demo_crypto) CHACHA20_POLY1305 raw (demo_draw NONCE_LEN)
      (unlock_associated_data BY_PASSPHRASE) (key_bytes ?secret)"
  have w2: "?w2 \<noteq> []" "length ?w2 \<le> MAX_WRAPPED_SECRET_LENGTH"
    using demo_secret(2) raw(2) by (simp_all add: demo_crypto_def tagged_lib_def tagged_seal_def unary_length KEY_LEN_def
        unlock_associated_data_def UNLOCK_FORMAT_TAG_def NONCE_LEN_def MAX_WRAPPED_SECRET_LENGTH_def)
  obtain kdf where kdf: "kdf_fields_from_params demo_params (demo_draw 16) = Inr kdf"
    by (simp add: kdf_fields_from_params_def check_kdf_fields_def validate_salt_def)
      (simp add: demo_params_def kdf_limits cost_ok_defs)
  have "\<exists>s2. check_key_unlock_slot \<lparr>us_type = BY_PASSPHRASE, us_wrapped_secret_b64 = b64encode ?w2,
      us_nonce_b64 = b64encode (demo_draw NONCE_LEN), us_kdf = Some kdf, us_fido = None, us_label = ''Emergency passphrase''\<rparr> = Inr s2"
    using w2 by (simp add: check_key_unlock_slot_def validate_wrapped_def validate_nonce_b64_def validate_unlock_shape_def
        py_len_def MAX_UNLOCK_SLOT_LABEL_LENGTH_def)
  moreover have "generate_salt demo_draw (kp_salt_len demo_params) = Inr (demo_draw 16)"
    by (simp add: generate_salt_def demo_params_def MIN_SALT_LEN_def)
  moreover have "derive_key (cr_argon2 demo_crypto) (cr_mlock demo_crypto) demo_passphrase (demo_draw 16) demo_params =
      Inr (sb_from_bytes (cr_mlock demo_crypto) raw)"
    using raw(1) by (simp add: derive_key_derived)
  moreover have "aead_encrypt (cr_aead demo_crypto) (key_bytes ?secret) (sb_from_bytes m raw)
      (demo_draw NONCE_LEN) (unlock_associated_data BY_PASSPHRASE) CHACHA20_POLY1305 = Inr ?w2" for m
    using raw(2) by (simp add: aead_encrypt_Inr)
  ultimately obtain s2 where
    "seal_with_passphrase demo_crypto demo_draw demo_draw ?secret demo_passphrase demo_params CHACHA20_POLY1305 = Inr s2"
    using sec kdf by (auto simp: seal_with_passphrase_def n Let_def)
  with s1 show ?thesis by (simp add: build_slots_def demo_app_def)
qed

lemma demo_generates: "fst (generate_key (demo_genv (STATUS_PREFIX @ ''KEY_CREATED B '' @ replicate 40 (CHR ''B''))) ''Alice'' ''a@b.org''
    EDDSA 255 ''0'' (generate_key_secret demo_crypto demo_draw) demo_gworld) = Inr (replicate 40 (CHR ''B''))"
  by code_simp

lemma demo_add:
  assumes "normalise_fingerprint fp = Inr fp" "length (slots_of_key fp m) < MAX_KEY_UNLOCK_SLOTS"
  shows "\<exists>i m'. add_unlock_slot demo_senv fp s m = (Inr i, m') \<and> length (slots_of_key fp m') = Suc (length (slots_of_key fp m))"
proof -
  have "se_commits demo_senv t" for t by (simp add: demo_senv_def)
  then show ?thesis using assms by (simp add: add_unlock_slot_def bindP_def tx_def Let_def slots_of_key_def)
qed

lemma demo_persist:
  assumes "normalise_fingerprint fp = Inr fp"
  shows "fst (persist (demo_app tk) fp [s1, s2] ev (put_gpg g (put_token t demo_aworld))) = Inr ()"
proof -
  let ?w = "put_gpg g (put_token t demo_aworld)"
  have "length (slots_of_key fp (aw_store ?w)) = 0" by (simp add: demo_aworld_def empty_store_def slots_of_key_def)
  then obtain i m1 where a: "add_unlock_slot demo_senv fp s1 (aw_store ?w) = (Inr i, m1)" "length (slots_of_key fp m1) = 1"
    using demo_add [OF assms, of "aw_store ?w" s1] by (auto simp: MAX_KEY_UNLOCK_SLOTS_def)
  obtain j m2 where b: "add_unlock_slot demo_senv fp s2 m1 = (Inr j, m2)"
    using demo_add [OF assms, of m1 s2] a(2) by (auto simp: MAX_KEY_UNLOCK_SLOTS_def)
  have s: "store_slots (demo_app tk) fp ev [] [s1, s2] ?w = (Inr (), put_store m2 (put_store m1 ?w))"
    using a(1) b by (simp add: zoomP_def demo_app_def)
  obtain r w2 where "try_emit (demo_app tk) ev OK [(''slot_count'', PInt 2)] (put_store m2 (put_store m1 ?w)) = (r, w2)" by fastforce
  with s try_emit_parts [OF this] show ?thesis by (simp add: persist_def thenP_def bindP_def)
qed

lemma demo_create: "\<exists>w'. create_key_with_token (demo_app tk) ''Alice'' ''a@b.org'' EDDSA 255 ''0'' demo_passphrase
    (Some demo_passphrase) demo_aworld = (Inr (replicate 40 (CHR ''B'')), w')"
proof -
  let ?fp = "replicate 40 (CHR ''B'')" and ?secret = "generate_key_secret demo_crypto demo_draw"
  have v: "validate_user_name ''Alice'' = Inr ''Alice''" "validate_email ''a@b.org'' = Inr ''a@b.org''"
    "validate_key_algorithm_and_length EDDSA 255 = Inr ()" "validate_expiry ''0'' = Inr ''0''" by code_simp+
  have "fingerprint_ok ?fp" by code_simp
  then have n: "normalise_fingerprint ?fp = Inr ?fp" by simp
  obtain s1 s2 where s: "build_slots (demo_app tk) ?secret demo_token_key demo_cred (Some demo_passphrase) = Inr [s1, s2]"
    using demo_slots by blast
  obtain g where g: "generate_key (ae_gpg (demo_app tk)) ''Alice'' ''a@b.org'' EDDSA 255 ''0'' ?secret demo_gworld = (Inr ?fp, g)"
  proof
    have gp: "ae_gpg (demo_app tk) = demo_genv (STATUS_PREFIX @ ''KEY_CREATED B '' @ replicate 40 (CHR ''B''))"
      by (simp only: demo_app_def app_env.select_convs)
    show "generate_key (ae_gpg (demo_app tk)) ''Alice'' ''a@b.org'' EDDSA 255 ''0'' ?secret demo_gworld = (Inr ?fp,
        snd (generate_key (ae_gpg (demo_app tk)) ''Alice'' ''a@b.org'' EDDSA 255 ''0'' ?secret demo_gworld))"
      unfolding gp by (rule prod_eqI) (simp_all only: demo_generates fst_conv snd_conv)
  qed
  obtain w' where p: "persist (demo_app tk) ?fp [s1, s2] ''key_created_with_token'' (put_gpg g (put_token 0 demo_aworld)) = (Inr (), w')"
    using demo_persist [OF n, of tk s1 s2 "''key_created_with_token''" g 0] by (metis prod.collapse)
  have e: "ae_enroll (demo_app tk) demo_passphrase u t = (Inr (demo_cred, demo_token_key), t)" for u t by (simp add: demo_app_def)
  have c: "ae_crypto (demo_app tk) = demo_crypto" "ae_secret (demo_app tk) = demo_draw" by (simp_all add: demo_app_def)
  have w: "aw_gpg demo_aworld = demo_gworld" "aw_token demo_aworld = 0" by (simp_all add: demo_aworld_def)
  show ?thesis
    by (simp only: create_key_with_token_def v thenP_def bindP_def zoomP_def e c w s g p Let_def catchP_def
        prog_simps prod.case sum.case simp_thms parts_apart) simp
qed

theorem created_key_opens_witness:
  "\<exists>w k. fst (unlock_with_passphrase (demo_app (\<lambda>_. Inr demo_token_key)) (replicate 40 (CHR ''B'')) demo_passphrase w) = Inr k"
proof -
  let ?env = "demo_app (\<lambda>_. Inr demo_token_key)"
  obtain w' where w: "create_key_with_token ?env ''Alice'' ''a@b.org'' EDDSA 255 ''0'' demo_passphrase
    (Some demo_passphrase) demo_aworld = (Inr (replicate 40 (CHR ''B'')), w')" using demo_create by blast
  have "aead_correct (cr_aead (ae_crypto ?env))" by (simp add: demo_app_def)
  from created_key_opens [OF this demo_token_stable demo_store_ok(1) w demo_store_ok(2)] show ?thesis by blast
qed

theorem wrong_pin_costs_one_attempt_witness:
  "aw_token (snd (unlock_with_token (demo_app (\<lambda>_. Inl FidoPinError)) (replicate 40 (CHR ''B'')) demo_passphrase demo_aworld))
     \<in> {0, 1}"
proof -
  let ?env = "demo_app (\<lambda>_. Inl FidoPinError)"
  obtain r w' where r: "unlock_with_token ?env (replicate 40 (CHR ''B'')) demo_passphrase demo_aworld = (r, w')" by fastforce
  have t: "aw_token demo_aworld = 0" by (simp add: demo_aworld_def)
  have "is_fatal_token_error FidoPinError" "ae_derive ?env cred demo_passphrase t = (Inl FidoPinError, Suc t)" for cred t
    by (simp_all add: is_fatal_token_error_def demo_app_def)
  from wrong_pin_costs_one_attempt [of FidoPinError ?env demo_passphrase Suc, OF this r] show ?thesis
    by (auto simp: r t)
qed

theorem failed_enrolment_leaves_no_slot_witness:
  "\<exists>e w'. persist (demo_app (\<lambda>_. Inr demo_token_key)) (replicate 40 (CHR ''B'')) (replicate 9 undefined) ''key_bound_to_token''
     demo_aworld = (Inl e, w') \<and> stored_slots demo_senv (replicate 40 (CHR ''B'')) (aw_store w') = []"
proof -
  let ?env = "demo_app (\<lambda>_. Inr demo_token_key)" and ?fp = "replicate 40 (CHR ''B'')"
  have env: "ae_store ?env = demo_senv" "\<forall>t. se_commits (ae_store ?env) t" by (simp_all add: demo_app_def demo_senv_def)
  have fp: "fingerprint_ok ?fp" by code_simp
  obtain r w' where p: "persist ?env ?fp (replicate 9 undefined) ''key_bound_to_token'' demo_aworld = (r, w')" by fastforce
  have "\<exists>e. r = Inl e"
  proof (cases r)
    case (Inr u)
    from persist_Inr [OF p [unfolded this] demo_store_ok(1) fp] have
      k: "store_ok (aw_store w')" "length (stored_slots demo_senv ?fp (aw_store w')) = 9"
      using demo_store_ok(2) [of demo_senv ?fp] by (simp add: slot_store_ok_def, metis length_map length_replicate env(1) append_Nil list.map(1))
    have "length (stored_slots demo_senv ?fp (aw_store w')) \<le> length (slots_of_key ?fp (aw_store w'))"
      by (simp add: stored_slots_def List.map_filter_def)
    also have "\<dots> \<le> 8" using k(1) by (simp add: store_ok_def MAX_KEY_UNLOCK_SLOTS_def)
    finally show ?thesis using k(2) by simp
  qed simp
  then obtain e where "persist ?env ?fp (replicate 9 undefined) ''key_bound_to_token'' demo_aworld = (Inl e, w')" using p by blast
  from failed_enrolment_leaves_no_slot [OF this demo_store_ok(1) fp env(2)] this show ?thesis
    using demo_store_ok(2) by (metis env(1))
qed
end
