(* ===== verification/Message_Service.thy ===== *)
theory Message_Service
  imports Key_Service
begin

text \<open>
  \<open>services/message_service.py\<close>: encrypting, decrypting, signing and verifying messages, with the
  audit events, the recipient policy and the trust of a signer. The lemmas show that plaintext
  reaches GnuPG for vetted recipients only, and whose trust a signature is shown with.
\<close>

record encrypt_result =
  er_armored_ciphertext :: str
  er_recipient_fingerprints :: "str list"
  er_signing_fingerprint :: "str option"
  er_created_at :: int

record decrypt_result =
  dr_plaintext :: bytes
  dr_signer_fingerprint :: "str option"
  dr_signature_status :: signature_status
  dr_signer_trust :: trust_level
  dr_decrypted_with_fingerprint :: "str option"

record sign_result =
  sg_armored_signature :: str
  sg_signing_fingerprint :: str
  sg_detached :: bool
  sg_created_at :: int

record verify_result =
  vr_signature_status :: signature_status
  vr_signer_fingerprint :: "str option"
  vr_signer_trust :: trust_level
  vr_signed_at :: "int option"
  vr_failure_reason :: "str option"

definition dr_signature_valid :: "decrypt_result \<Rightarrow> bool" where
  "dr_signature_valid r \<longleftrightarrow> status_is_valid (dr_signature_status r)"

definition vr_signature_valid :: "verify_result \<Rightarrow> bool" where
  "vr_signature_valid r \<longleftrightarrow> status_is_valid (vr_signature_status r)"

section \<open>Policies\<close>

fun trust_value :: "trust_level \<Rightarrow> str" where
  "trust_value UNKNOWN_TRUST = ''unknown''"
| "trust_value NEVER = ''never''"
| "trust_value MARGINAL = ''marginal''"
| "trust_value FULL = ''full''"
| "trust_value ULTIMATE = ''ultimate''"

definition check_recipient :: "int \<Rightarrow> bool \<Rightarrow> key_info \<Rightarrow> unit res" where
  "check_recipient now trust_confirmed key =
     (if ki_is_revoked key then Inl ValueError
      else if is_expired now key then Inl ValueError
      else if ki_algorithm key \<in> {DSA, UNKNOWN_ALGORITHM} then Inl ValueError
      else if ki_algorithm key = RSA \<and> ki_length key < 2048 then Inl ValueError
      else if ki_trust key \<in> {UNKNOWN_TRUST, NEVER} \<and> \<not> trust_confirmed then Inl ValueError
      else Inr ())"

fun check_recipients :: "'k gpg_env \<Rightarrow> bool \<Rightarrow> str list \<Rightarrow> ('k, unit) gpg_prog" where
  "check_recipients env trust_confirmed [] = retP ()"
| "check_recipients env trust_confirmed (fp # fps) = bindP (find_key env fp) (\<lambda>key.
     thenP (liftP (check_recipient (ge_now env) trust_confirmed key)) (check_recipients env trust_confirmed fps))"

definition enforce_recipient_policy :: "'k gpg_env \<Rightarrow> str list \<Rightarrow> bool \<Rightarrow> ('k, unit) gpg_prog" where
  "enforce_recipient_policy env recipients trust_confirmed =
     (if recipients = [] then raiseP ValueError else check_recipients env trust_confirmed recipients)"

definition resolve_signer_trust :: "'k gpg_env \<Rightarrow> str option \<Rightarrow> ('k, trust_level) gpg_prog" where
  "resolve_signer_trust env signer = (case signer of
       None \<Rightarrow> retP UNKNOWN_TRUST
     | Some s \<Rightarrow> if s = [] then retP UNKNOWN_TRUST
         else catchP (bindP (find_key env s) (\<lambda>k. retP (ki_trust k))) (\<lambda>_. retP UNKNOWN_TRUST))"

definition validate_text_payload :: "bytes \<Rightarrow> unit res" where
  "validate_text_payload data =
     (if \<not> utf8_ok data then Inl ValueError else if CHR 0x00 \<in> set data then Inl ValueError else Inr ())"

section \<open>The service\<close>

definition optional_fingerprint :: "str option \<Rightarrow> str option res" where
  "optional_fingerprint sign_with = (case sign_with of
       None \<Rightarrow> Inr None
     | Some s \<Rightarrow> if s = [] then Inr None else bindE (validate_fingerprint s) (\<lambda>fp. Inr (Some fp)))"

definition emit_signed :: "('k, 'l, 't) app_env \<Rightarrow> str \<Rightarrow> str option \<Rightarrow> audit_payload \<Rightarrow> ('k, 'l, 't, unit) app_prog" where
  "emit_signed env outcome signer payload = (case signer of
       None \<Rightarrow> retP ()
     | Some s \<Rightarrow> emit_event env ''message_signed'' outcome ((''fingerprint'', PStr s) # payload))"

definition message_encrypt ::
    "('k, 'l, 't) app_env \<Rightarrow> bytes \<Rightarrow> str list \<Rightarrow> str option \<Rightarrow> secure_bytes option \<Rightarrow> bool \<Rightarrow> bool \<Rightarrow>
     ('k, 'l, 't, encrypt_result) app_prog" where
  "message_encrypt env plaintext recipient_fingerprints sign_with passphrase always_trust trust_confirmed =
     bindP (liftP (mapE validate_fingerprint recipient_fingerprints)) (\<lambda>recipients.
     bindP (liftP (optional_fingerprint sign_with)) (\<lambda>signer.
     thenP (on_gpg_service (enforce_recipient_policy (ae_gpg env) recipients trust_confirmed))
     (if always_trust \<and> \<not> trust_confirmed then raiseP ValueError
      else
        bindP (catchP (on_gpg_service (encrypt (ae_gpg env) plaintext recipients signer passphrase always_trust))
          (\<lambda>e. thenP (emit_signed env FAILED signer [(''reason'', PStr (exn_name e))]) (raiseP e))) (\<lambda>armored.
        thenP (emit_signed env OK signer [(''recipient_count'', PInt (int (length recipients)))])
          (retP \<lparr>er_armored_ciphertext = armored, er_recipient_fingerprints = recipients, er_signing_fingerprint = signer,
                 er_created_at = ge_now (ae_gpg env)\<rparr>)))))"

definition message_decrypt ::
    "('k, 'l, 't) app_env \<Rightarrow> bytes \<Rightarrow> secure_bytes option \<Rightarrow> ('k, 'l, 't, decrypt_result) app_prog" where
  "message_decrypt env ciphertext passphrase =
     bindP (catchP (on_gpg_service (decrypt (ae_gpg env) ciphertext passphrase))
       (\<lambda>e. thenP (emit_event env ''message_decrypt_failed'' FAILED [(''reason'', PStr (exn_name e))]) (raiseP e))) (\<lambda>d.
     bindP (on_gpg_service (resolve_signer_trust (ae_gpg env) (dc_signer d))) (\<lambda>signer_trust.
     thenP (emit_event env ''message_decrypted'' OK
         [(''byte_count'', PInt (int (length (dc_plaintext d)))), (''signer'', PStr (or_empty (dc_signer d))),
          (''signature_status'', PStr (status_value (dc_status d))),
          (''signer_trust'', PStr (if or_empty (dc_signer d) \<noteq> [] then trust_value signer_trust else [])),
          (''decrypted_with'', PStr (or_empty (dc_decrypted_with d)))])
     (retP \<lparr>dr_plaintext = dc_plaintext d, dr_signer_fingerprint = dc_signer d, dr_signature_status = dc_status d,
            dr_signer_trust = signer_trust, dr_decrypted_with_fingerprint = dc_decrypted_with d\<rparr>)))"

definition message_sign ::
    "('k, 'l, 't) app_env \<Rightarrow> bytes \<Rightarrow> str \<Rightarrow> secure_bytes \<Rightarrow> bool \<Rightarrow> ('k, 'l, 't, sign_result) app_prog" where
  "message_sign env data fingerprint passphrase detached =
     thenP (liftP (validate_text_payload data))
     (bindP (catchP (on_gpg_service (sign (ae_gpg env) data fingerprint passphrase detached))
       (\<lambda>e. thenP (emit_event env ''message_signed'' FAILED
          [(''fingerprint'', PStr fingerprint), (''reason'', PStr (exn_name e))]) (raiseP e))) (\<lambda>armored.
     thenP (emit_event env ''message_signed'' OK [(''fingerprint'', PStr fingerprint), (''detached'', PBool detached)])
     (retP \<lparr>sg_armored_signature = armored, sg_signing_fingerprint = fingerprint, sg_detached = detached,
            sg_created_at = ge_now (ae_gpg env)\<rparr>)))"

definition message_verify ::
    "('k, 'l, 't) app_env \<Rightarrow> bytes \<Rightarrow> bytes option \<Rightarrow> ('k, 'l, 't, verify_result) app_prog" where
  "message_verify env data detached_signature =
     thenP (liftP (validate_text_payload data))
     (bindP (on_gpg_service (verify (ae_gpg env) data detached_signature)) (\<lambda>(status, signer, signed_at).
      bindP (on_gpg_service (resolve_signer_trust (ae_gpg env) signer)) (\<lambda>signer_trust.
      retP \<lparr>vr_signature_status = status, vr_signer_fingerprint = signer, vr_signer_trust = signer_trust,
            vr_signed_at = signed_at, vr_failure_reason = (if status_is_valid status then None else Some (status_summary status))\<rparr>)))"


section \<open>Who plaintext is encrypted to\<close>

text \<open>What a listing shows, for the keyring and the clock of a state.\<close>

abbreviation shown :: "'k gpg_env \<Rightarrow> ('k \<Rightarrow> listed_key list) \<Rightarrow> ('k \<Rightarrow> listed_key list) \<Rightarrow> 'k gpg_world \<Rightarrow> key_info list res" where
  "shown env ring secrets w \<equiv> shown_keys (ge_now env) (ring (gw_keyring w)) (secrets (gw_keyring w))"

lemma find_key_shown:
  assumes laws: "lists_keys env ring secrets" "names_ok (ge_service env)"
    and run: "find_key env fp w = (r, w')"
  shows "gw_keyring w' = gw_keyring w"
    "r = Inr k \<Longrightarrow> \<exists>keys. shown env ring secrets w = Inr keys \<and> find (\<lambda>k. ki_fingerprint k = upper fp) keys = Some k"
    "binary_check (ge_service env) (gw_binary w) = Inr () \<Longrightarrow> fingerprint_ok (upper fp) \<Longrightarrow>
      r = bindE (shown env ring secrets w) (\<lambda>keys. of_option GPGKeyNotFoundError (find (\<lambda>k. ki_fingerprint k = upper fp) keys))"
proof -
  have "gw_keyring w' = gw_keyring w \<and> (r = Inr k \<longrightarrow> (\<exists>keys. shown env ring secrets w = Inr keys \<and>
      find (\<lambda>k. ki_fingerprint k = upper fp) keys = Some k)) \<and>
    (binary_check (ge_service env) (gw_binary w) = Inr () \<longrightarrow> fingerprint_ok (upper fp) \<longrightarrow>
      r = bindE (shown env ring secrets w) (\<lambda>keys. of_option GPGKeyNotFoundError (find (\<lambda>k. ki_fingerprint k = upper fp) keys)))"
  proof (cases "validate_fingerprint fp")
    case (Inl e)
    moreover from this have "\<not> fingerprint_ok (upper fp)" using validate_fingerprint_ok [of fp "upper fp"] by auto
    ultimately show ?thesis using run by (auto simp: find_key_def bindP_def)
  next
    case (Inr f)
    then have f: "f = upper fp" by (simp add: validate_fingerprint_ok)
    show ?thesis
    proof (cases "binary_check (ge_service env) (gw_binary w)")
      case (Inl e)
      then have "list_keys env False w = (Inl e, w)"
        by (simp add: list_keys_def run_gpg_def run_gpg_with_def assert_binary_not_swapped_def thenP_def bindP_def)
      then show ?thesis using run \<open>validate_fingerprint fp = Inr f\<close> Inl by (auto simp: find_key_def bindP_def)
    next
      case (Inr u)
      then obtain w2 where "list_keys env False w = (shown env ring secrets w, w2)" "gw_keyring w2 = gw_keyring w"
        using list_keys_shown [OF laws, of w] by auto
      then show ?thesis using run \<open>validate_fingerprint fp = Inr f\<close> f
        by (cases "shown env ring secrets w") (auto simp: find_key_def bindP_def split: option.splits)
    qed
  qed
  then show "gw_keyring w' = gw_keyring w"
    "r = Inr k \<Longrightarrow> \<exists>keys. shown env ring secrets w = Inr keys \<and> find (\<lambda>k. ki_fingerprint k = upper fp) keys = Some k"
    "binary_check (ge_service env) (gw_binary w) = Inr () \<Longrightarrow> fingerprint_ok (upper fp) \<Longrightarrow>
      r = bindE (shown env ring secrets w) (\<lambda>keys. of_option GPGKeyNotFoundError (find (\<lambda>k. ki_fingerprint k = upper fp) keys))"
    by blast+
qed

text \<open>A key that may be encrypted to.\<close>

definition vetted :: "int \<Rightarrow> bool \<Rightarrow> key_info \<Rightarrow> bool" where
  "vetted now confirmed k \<longleftrightarrow> \<not> ki_is_revoked k \<and> \<not> is_expired now k \<and>
     (ki_algorithm k \<in> {ECDSA, EDDSA, ECDH} \<or> ki_algorithm k = RSA \<and> 2048 \<le> ki_length k) \<and>
     (confirmed \<or> ki_trust k \<in> {MARGINAL, FULL, ULTIMATE})"

lemma check_recipient_vetted: "check_recipient now confirmed k = Inr u \<longleftrightarrow> vetted now confirmed k"
  by (cases "ki_algorithm k"; cases "ki_trust k") (auto simp: check_recipient_def vetted_def)

lemma check_recipients_vetted:
  assumes laws: "lists_keys env ring secrets" "names_ok (ge_service env)"
    and run: "check_recipients env confirmed fps w = (Inr u, w')"
  shows "gw_keyring w' = gw_keyring w \<and> (\<forall>fp \<in> set fps. \<exists>keys k. shown env ring secrets w = Inr keys \<and> k \<in> set keys \<and>
    ki_fingerprint k = upper fp \<and> vetted (ge_now env) confirmed k)"
  using run
proof (induction fps arbitrary: w)
  case (Cons fp fps)
  then obtain k w1 where k: "find_key env fp w = (Inr k, w1)" "vetted (ge_now env) confirmed k"
    "check_recipients env confirmed fps w1 = (Inr u, w')"
    by (auto simp: bindP_eq_Inr thenP_eq_Inr check_recipient_vetted)
  note f = find_key_shown [OF laws k(1)]
  from Cons.IH [OF k(3)] f(1) f(2) [OF refl] k(2) show ?case by (auto simp: find_Some_iff) (metis nth_mem)
qed simp

text \<open>What was asked of GnuPG after a point, if none of it carried input.\<close>

abbreviation no_input_since :: "gpg_request list \<Rightarrow> 'k gpg_world \<Rightarrow> bool" where
  "no_input_since \<equiv> only_since (\<lambda>rq. rq_input rq = None)"

lemma run_gpg_no_input [preserves_intros]: "preserves (no_input_since calls) (run_gpg env args None pw status)"
  by (rule preserves_only_since) (auto dest: gpg_request_of_Inr(3))

lemma find_key_no_input [preserves_intros]: "preserves (no_input_since calls) (find_key env fp)"
  by (auto simp: find_key_def list_keys_def secret_storage_def intro!: preserves_intros)

lemma policy_no_input: "preserves (no_input_since calls) (enforce_recipient_policy env fps confirmed)"
proof -
  have "preserves (no_input_since calls) (check_recipients env confirmed fps)"
    by (induction fps) (simp_all only: check_recipients.simps preserves_intros)
  then show ?thesis by (auto simp: enforce_recipient_policy_def intro!: preserves_intros)
qed


lemma mapE_validated:
  "mapE validate_fingerprint fps = Inr fs \<Longrightarrow> fs = map upper fps \<and> mapE validate_fingerprint fs = Inr fs"
proof (induction fps arbitrary: fs)
  case (Cons fp fps)
  then obtain f gs where f: "validate_fingerprint fp = Inr f" "mapE validate_fingerprint fps = Inr gs" "fs = f # gs" by auto
  then have v: "f = upper fp" "validate_fingerprint f = Inr f" by (auto simp: validate_fingerprint_ok o_def)
  note gs = Cons.IH [OF f(2)]
  show ?case unfolding f(3) by (simp only: mapE.simps v(2) bindE_simps gs [THEN conjunct2]) (simp add: v(1) gs)
qed simp

text \<open>The request of an encryption: it carries the plaintext and names the recipients.\<close>

definition encrypts :: "bytes \<Rightarrow> str list \<Rightarrow> gpg_request \<Rightarrow> bool" where
  "encrypts plaintext fps rq \<longleftrightarrow> rq_input rq = Some plaintext \<and>
     (\<exists>options signing. rq_argv rq = options @ [''--encrypt''] @ recipient_args fps @ signing \<and>
        (signing = [] \<or> (\<exists>s. signing = [''--sign'', ''--local-user'', s])))"

lemma encrypt_calls:
  assumes "encrypt env plaintext fps signer pw always_trust w = (r, w')" "mapE validate_fingerprint fps = Inr fps"
  shows "gw_calls w' = gw_calls w \<and> isl r \<or> (\<exists>rq. gw_calls w' = gw_calls w @ [rq] \<and> encrypts plaintext fps rq)"
proof -
  define args where "args s = [''--armor''] @ always_trust_args always_trust @ [''--encrypt''] @ recipient_args fps @
    (case s of None \<Rightarrow> [] | Some s \<Rightarrow> [''--sign'', ''--local-user'', s])" for s
  have step: "gw_calls w1 = gw_calls w \<and> isl x \<or> (\<exists>rq. gw_calls w1 = gw_calls w @ [rq] \<and> encrypts plaintext fps rq)"
    if "run_gpg env (args s) (Some plaintext) p True w = (x, w1)" for s p x w1
  proof -
    from run_gpg_with_calls [OF that [unfolded run_gpg_def]] consider "w1 = w" "isl x" |
      rq where "gpg_request_of env [] (args s) (Some plaintext) p True = Inr rq" "gw_calls w1 = gw_calls w @ [rq]" by blast
    then show ?thesis
    proof cases
      case (2 rq)
      from gpg_request_of_Inr(3,4) [OF 2(1)] obtain fds where
        "rq_input rq = Some plaintext" "rq_argv rq = base_cmd (ge_service env) @ fds @ args s" by blast
      then have "encrypts plaintext fps rq"
        unfolding encrypts_def args_def
        by (intro conjI exI [of _ "base_cmd (ge_service env) @ fds @ [''--armor''] @ always_trust_args always_trust"]
            exI [of _ "case s of None \<Rightarrow> [] | Some s \<Rightarrow> [''--sign'', ''--local-user'', s]"]; cases s) simp_all
      with 2(2) show ?thesis by blast
    qed simp
  qed
  have ends: "\<exists>x. run_gpg env as i p True w = (x, w') \<and> (isl x \<longrightarrow> isl r)"
    if "bindP (run_gpg env as i p True) (\<lambda>proc. thenP (liftP (q proc)) (retP (o' proc))) w = (r, w')" for as i p q o'
    using that by (auto simp: bindP_def thenP_def split: prod.splits sum.splits)
  have "w' = w \<and> isl r \<or> (\<exists>s p x. run_gpg env (args s) (Some plaintext) p True w = (x, w') \<and> (isl x \<longrightarrow> isl r))"
  proof (cases "signer = None \<or> signer = Some []")
    case True
    with assms have "bindP (run_gpg env (args None) (Some plaintext) None True)
        (\<lambda>proc. thenP (liftP (require_ok [0] proc)) (retP (decode_output (gr_stdout proc)))) w = (r, w')"
      by (auto simp: encrypt_def bindP_lift args_def)
    from ends [OF this] show ?thesis by blast
  next
    case False
    then obtain s where s: "signer = Some s" "s \<noteq> []" by (cases signer) auto
    show ?thesis
    proof (cases "validate_fingerprint s")
      case (Inl e)
      with assms s have "r = Inl e \<and> w' = w" by (simp add: encrypt_def bindP_lift)
      then show ?thesis by simp
    next
      case (Inr f)
      show ?thesis
      proof (cases pw)
        case None
        with assms s Inr show ?thesis by (auto simp: encrypt_def bindP_lift)
      next
        case (Some y)
        with assms s Inr have "bindP (run_gpg env (args (Some f)) (Some plaintext) pw True)
            (\<lambda>proc. thenP (liftP (require_ok [0] proc)) (retP (decode_output (gr_stdout proc)))) w = (r, w')"
          by (simp add: encrypt_def bindP_lift args_def)
        from ends [OF this] show ?thesis by blast
      qed
    qed
  qed
  with step show ?thesis by blast
qed

text \<open>
  C3. Plaintext reaches GnuPG for vetted recipients only: whatever an encryption returns, each
  process it started that was given any input was given the plaintext, for exactly the recipients
  asked for, and each of them is a key of the keyring that is neither revoked nor expired, has a
  supported algorithm and size, and is trusted unless the user confirmed the trust.
\<close>

theorem plaintext_for_vetted_only:
  assumes laws: "lists_keys (ae_gpg env) ring secrets" "names_ok (ge_service (ae_gpg env))"
    and run: "message_encrypt env plaintext fps sign_with passphrase always_trust confirmed w = (r, w')"
    and rq: "gw_calls (aw_gpg w') = gw_calls (aw_gpg w) @ new" "rq \<in> set new" "rq_input rq \<noteq> None"
  shows "encrypts plaintext (map upper fps) rq \<and> fps \<noteq> [] \<and> (always_trust \<longrightarrow> confirmed) \<and>
    (\<forall>fp \<in> set fps. \<exists>keys k. shown (ae_gpg env) ring secrets (aw_gpg w) = Inr keys \<and> k \<in> set keys \<and>
       ki_fingerprint k = upper fp \<and> vetted (ge_now (ae_gpg env)) confirmed k)"
proof -
  let ?g = "ae_gpg env"
  have "\<exists>recipients. mapE validate_fingerprint fps = Inr recipients"
    using run rq by (cases "mapE validate_fingerprint fps") (auto simp: message_encrypt_def bindP_def)
  then obtain recipients where rc: "mapE validate_fingerprint fps = Inr recipients" by blast
  note fs = mapE_validated [OF rc]
  have "\<exists>signer. optional_fingerprint sign_with = Inr signer"
    using run rq rc by (cases "optional_fingerprint sign_with") (auto simp: message_encrypt_def bindP_def)
  then obtain signer where sg: "optional_fingerprint sign_with = Inr signer" by blast
  obtain p g where pol: "enforce_recipient_policy ?g recipients confirmed (aw_gpg w) = (p, g)" by fastforce
  have "no_input_since (gw_calls (aw_gpg w)) (aw_gpg w)" by (simp add: only_since_def)
  from preservesD [OF policy_no_input this pol] obtain asked where
    asked: "gw_calls g = gw_calls (aw_gpg w) @ asked" "list_all (\<lambda>rq. rq_input rq = None) asked"
    by (auto simp: only_since_def)
  have stop: False if "aw_gpg w' = g" using that rq asked by (auto simp: list_all_iff)
  have "isl p \<or> always_trust \<and> \<not> confirmed \<Longrightarrow> aw_gpg w' = g"
    using run pol by (cases p) (auto simp: message_encrypt_def bindP_def thenP_def rc sg zoomP_def)
  with stop obtain u where p: "p = Inr u" "always_trust \<longrightarrow> confirmed" by (cases p) auto
  obtain x g2 where e: "encrypt ?g plaintext recipients signer passphrase always_trust g = (x, g2)" by fastforce
  have emit: "aw_gpg w2 = aw_gpg w1" if "emit_signed env oc s pl w1 = (y, w2)" for oc s pl w1 w2 y
    using that by (cases s) (auto simp: emit_signed_def dest: emit_event_parts)
  have "aw_gpg w' = g2"
    using run p by (cases x) (auto simp: message_encrypt_def bindP_def thenP_def catchP_def rc sg zoomP_def pol e
        split: prod.splits sum.splits if_splits dest!: emit)
  with stop have g2: "aw_gpg w' = g2" by simp
  from encrypt_calls [OF e] fs obtain rq2 where "gw_calls g2 = gw_calls g @ [rq2]" "encrypts plaintext recipients rq2"
    using stop g2 rq asked by (auto simp: list_all_iff)
  with rq asked g2 have enc: "encrypts plaintext recipients rq" by (auto simp: list_all_iff)
  have "recipients \<noteq> []" "check_recipients ?g confirmed recipients (aw_gpg w) = (Inr u, g)"
    using pol p(1) by (auto simp: enforce_recipient_policy_def split: if_splits)
  with check_recipients_vetted [OF laws this(2)] enc p(2) fs show ?thesis by (force simp: o_def)
qed


section \<open>Whose trust a signature is shown with\<close>

lemma resolve_never_raises: "\<exists>t w'. resolve_signer_trust env signer w = (Inr t, w')"
  by (cases signer; cases "find_key env (the signer) w"; cases "fst (find_key env (the signer) w)")
    (auto simp: resolve_signer_trust_def catchP_def bindP_def)

text \<open>The trust of the shown key whose primary fingerprint is the signer's, unknown where there is none.\<close>

definition primary_trust :: "key_info list res \<Rightarrow> str option \<Rightarrow> trust_level" where
  "primary_trust keys signer = (case keys of
       Inl _ \<Rightarrow> UNKNOWN_TRUST
     | Inr ks \<Rightarrow> (case signer of
         None \<Rightarrow> UNKNOWN_TRUST
       | Some s \<Rightarrow> if \<not> fingerprint_ok (upper s) then UNKNOWN_TRUST
           else (case find (\<lambda>k. ki_fingerprint k = upper s) ks of None \<Rightarrow> UNKNOWN_TRUST | Some k \<Rightarrow> ki_trust k)))"

lemma resolve_primary_trust:
  assumes laws: "lists_keys env ring secrets" "names_ok (ge_service env)"
    and bin: "binary_check (ge_service env) (gw_binary w) = Inr ()"
    and run: "resolve_signer_trust env signer w = (r, w')"
  shows "r = Inr (primary_trust (shown env ring secrets w) signer) \<and> gw_keyring w' = gw_keyring w"
proof (cases "signer = None \<or> signer = Some []")
  case True
  then show ?thesis
    using run by (auto simp: resolve_signer_trust_def primary_trust_def fingerprint_ok_def FINGERPRINT_LENGTH_def split: sum.splits)
next
  case False
  then obtain s where s: "signer = Some s" "s \<noteq> []" by (cases signer) auto
  obtain x w1 where f: "find_key env s w = (x, w1)" by fastforce
  have r: "r = Inr (case x of Inl _ \<Rightarrow> UNKNOWN_TRUST | Inr k \<Rightarrow> ki_trust k)" "w' = w1"
    using run s f by (auto simp: resolve_signer_trust_def catchP_def bindP_def split: sum.splits)
  note fk = find_key_shown [OF laws f]
  show ?thesis
  proof (cases "fingerprint_ok (upper s)")
    case True
    then have "x = bindE (shown env ring secrets w) (\<lambda>keys. of_option GPGKeyNotFoundError (find (\<lambda>k. ki_fingerprint k = upper s) keys))"
      by (rule fk(3) [OF bin])
    then show ?thesis
      using r fk(1) s True by (auto simp: primary_trust_def split: sum.splits option.splits)
  next
    case False
    then have "x = Inl ValueError \<or> (\<exists>e. x = Inl e)"
      using f validate_fingerprint_ok [of s "upper s"]
      by (cases "validate_fingerprint s") (auto simp: find_key_def bindP_def validate_fingerprint_ok)
    with r fk(1) s False show ?thesis by (auto simp: primary_trust_def split: sum.splits)
  qed
qed

lemma verify_keeps_binary:
  assumes "verify env data sig w = (Inr x, w')"
  shows "gw_binary w' = gw_binary w \<and> binary_check (ge_service env) (gw_binary w) = Inr ()"
proof -
  have *: "gw_binary w1 = gw_binary w \<and> binary_check (ge_service env) (gw_binary w) = Inr ()"
    if "run_gpg_with env files args i pw st w = (Inr run, w1)" for files args i pw st run w1
    using run_gpg_with_calls [OF that] by auto
  show ?thesis
    using assms by (cases sig) (auto simp: verify_def bindP_eq_Inr run_gpg_def Let_def split_def dest: *)
qed

text \<open>
  A verified message is shown with the trust of the key whose primary fingerprint is the
  signer's: \<open>message_verify\<close> gives the trust of that key of the keyring as it is afterwards, and
  unknown trust where no key has it as its primary one, so also for every signature of a signing
  subkey, whatever the trust of the key it belongs to; and it gives a reason exactly where the
  signature is not fully valid.
\<close>

theorem verified_with_primary_trust:
  assumes laws: "lists_keys (ae_gpg env) ring secrets" "names_ok (ge_service (ae_gpg env))"
    and run: "message_verify env data detached_signature w = (Inr r, w')"
  shows "vr_signer_trust r = primary_trust (shown (ae_gpg env) ring secrets (aw_gpg w')) (vr_signer_fingerprint r) \<and>
    (vr_failure_reason r = None \<longleftrightarrow> vr_signature_valid r)"
proof -
  obtain st signer at g1 tr g2 where v: "verify (ae_gpg env) data detached_signature (aw_gpg w) = (Inr (st, signer, at), g1)"
    and t: "resolve_signer_trust (ae_gpg env) signer g1 = (Inr tr, g2)"
    and r: "r = \<lparr>vr_signature_status = st, vr_signer_fingerprint = signer, vr_signer_trust = tr, vr_signed_at = at,
      vr_failure_reason = (if status_is_valid st then None else Some (status_summary st))\<rparr>" "aw_gpg w' = g2"
    using run by (auto simp: message_verify_def bindP_eq_Inr thenP_eq_Inr gpg_part.zoom_eq)
  have "binary_check (ge_service (ae_gpg env)) (gw_binary g1) = Inr ()" using verify_keeps_binary [OF v] by simp
  from resolve_primary_trust [OF laws this t] r show ?thesis by (simp add: vr_signature_valid_def)
qed

section \<open>Every decryption is recorded\<close>

definition keeps_events :: "('k, (str \<times> str \<times> audit_payload) list, 't) app_env \<Rightarrow> bool" where
  "keeps_events env \<longleftrightarrow> (\<forall>ev out pl l. ae_emit env ev out pl l = (Inr (), l @ [(ev, out, pl)]))"

lemma keeps_events_emit:
  "keeps_events env \<Longrightarrow> emit_event env ev out pl w = (Inr (), put_audit (aw_audit w @ [(ev, out, pl)]) w)"
  by (simp add: emit_event_def zoomP_def keeps_events_def)

text \<open>
  Every decryption comes to its record: with an audit log that accepts events, an attempt ends
  with exactly one new event, the success if it returns a message and the failure if it raises,
  whatever GnuPG does, also when it does not end in time and when the signer is not found.
\<close>

theorem decryption_is_recorded:
  assumes "keeps_events env" "message_decrypt env ciphertext passphrase w = (r, w')"
  shows "\<exists>payload. aw_audit w' = aw_audit w @
    [if isl r then (''message_decrypt_failed'', FAILED, payload) else (''message_decrypted'', OK, payload)]"
proof -
  obtain x g where d: "decrypt (ae_gpg env) ciphertext passphrase (aw_gpg w) = (x, g)" by fastforce
  show ?thesis
  proof (cases x)
    case (Inl e)
    then show ?thesis
      using assms(2) by (auto simp: message_decrypt_def bindP_def catchP_def thenP_def zoomP_def d keeps_events_emit [OF assms(1)])
  next
    case (Inr d')
    obtain t g2 where "resolve_signer_trust (ae_gpg env) (dc_signer d') g = (Inr t, g2)"
      using resolve_never_raises by blast
    then show ?thesis
      using assms(2) Inr by (auto simp: message_decrypt_def bindP_def catchP_def thenP_def zoomP_def d keeps_events_emit [OF assms(1)])
  qed
qed


section \<open>Concrete runs\<close>

lemma converted_fields:
  assumes "to_key_info now row = Inr k"
  shows "ki_algorithm k = algorithm_from_gpg (kr_algo row)" "ki_is_revoked k = (kr_trust row = ''r'')"
    "ki_trust k = trust_from_gpg (let c = take_chars 1 (kr_trust row) in if c = [] then ''-'' else c)"
    "\<not> isdigit (kr_expires row) \<Longrightarrow> ki_expires_at k = None"
proof -
  obtain t len created expires where k: "check_key_info (row_info row len created expires) = Inr k"
      and t: "(if isdigit (kr_expires row) then py_int (kr_expires row) else Inr 0) = Inr t"
        "(if t \<noteq> 0 then bindE (from_timestamp t) (\<lambda>t. Inr (Some t)) else Inr None) = Inr expires"
    using assms unfolding to_key_info_def bindE_eq_Inr by blast
  have e: "\<not> isdigit (kr_expires row) \<longrightarrow> expires = None" using t by auto
  define k0 where "k0 = row_info row len created expires"
  have "ki_algorithm k0 = algorithm_from_gpg (kr_algo row)" "ki_is_revoked k0 = (kr_trust row = ''r'')" "ki_expires_at k0 = expires"
    "ki_trust k0 = trust_from_gpg (let c = take_chars 1 (kr_trust row) in if c = [] then ''-'' else c)"
    by (simp_all add: k0_def row_info_def split_def Let_def)
  moreover have "ki_algorithm k = ki_algorithm k0" "ki_is_revoked k = ki_is_revoked k0" "ki_trust k = ki_trust k0"
    "ki_expires_at k = ki_expires_at k0"
    using k by (auto simp: check_key_info_def k0_def [symmetric] split: if_splits)
  ultimately show "ki_algorithm k = algorithm_from_gpg (kr_algo row)" "ki_is_revoked k = (kr_trust row = ''r'')"
    "ki_trust k = trust_from_gpg (let c = take_chars 1 (kr_trust row) in if c = [] then ''-'' else c)"
    "\<not> isdigit (kr_expires row) \<Longrightarrow> ki_expires_at k = None"
    using e by auto
qed

lemma demo_vetted:
  assumes "to_key_info 0 (row_of demo_listed) = Inr k"
  shows "vetted 0 False k"
proof -
  have "algorithm_from_gpg ''22'' = EDDSA" "trust_from_gpg (let c = take_chars 1 ''u'' in if c = [] then ''-'' else c) = ULTIMATE"
    by code_simp+
  with converted_fields [OF assms] show ?thesis
    by (simp add: vetted_def is_expired_def row_of_def demo_listed_def isdigit_def)
qed

lemma demo_shown:
  obtains k where "shown_keys 0 [demo_listed] [] = Inr [k]" "ki_fingerprint k = replicate 40 (CHR ''A'')" "vetted 0 False k"
proof -
  obtain k0 where k0: "to_key_info 0 (row_of demo_listed) = Inr k0" "ki_fingerprint k0 = replicate 40 (CHR ''A'')"
    using demo_converts by blast
  then show ?thesis
    using that [of k0] demo_vetted [OF k0(1)] by (simp add: shown_keys_def merge_secret_def by_fingerprint_def)
qed

lemma demo_find:
  assumes "gw_binary w = gw_binary demo_gworld" "gw_keyring w = [demo_listed]"
  obtains k w' where "find_key (demo_genv []) (replicate 40 (CHR ''A'')) w = (Inr k, w')" "vetted 0 False k"
    "gw_binary w' = gw_binary demo_gworld" "gw_keyring w' = [demo_listed]"
proof -
  obtain k w' where f: "find_key (demo_genv []) (replicate 40 (CHR ''A'')) w = (Inr k, w')" "gw_binary w' = gw_binary demo_gworld"
      "gw_keyring w' = [demo_listed]" using context_find [OF assms] by blast
  obtain k1 where k1: "shown_keys 0 [demo_listed] [] = Inr [k1]" "vetted 0 False k1" using demo_shown .
  have "\<not> lk_secret demo_listed" by (simp add: demo_listed_def)
  then have "shown (demo_genv []) demo_ring (\<lambda>k. filter lk_secret (demo_ring k)) w = Inr [k1]"
    using k1 by (simp add: assms(2) demo_ring_def demo_listed_ok demo_genv_def)
  with find_key_shown(2) [OF demo_lists demo_service_ok(1) f(1) refl] have "k = k1" by (auto simp: find_Some_iff)
  with f k1 that show ?thesis by blast
qed


lemma demo_encrypts:
  assumes "gw_binary w = gw_binary demo_gworld"
  obtains out w' where "encrypt (demo_genv []) ''hi'' [replicate 40 (CHR ''A'')] None None False w = (Inr out, w')"
proof -
  let ?fp = "replicate 40 (CHR ''A'')"
  have o: "''--list-keys'' \<noteq> ?fp" "''--list-secret-keys'' \<noteq> ?fp" "''--delete-key'' \<noteq> ?fp" by code_simp+
  have "binary_check demo_service (gw_binary w) = Inr ()"
    using demo_service_ok(2) [of "[]"] assms by (simp add: demo_genv_def)
  then have "\<exists>out w'. encrypt (demo_genv []) ''hi'' [?fp] None None False w = (Inr out, w')"
    using o by (simp add: encrypt_def demo_fingerprint_ok bindP_def run_gpg_def run_gpg_with_def assert_binary_not_swapped_def
        thenP_def gpg_request_of_def validated_passphrase_bytes_def reject_passphrase_in_argv_def start_process_def answer_def
        base_cmd_def REQUIRED_GPG_ARGS_def demo_genv_def demo_process_def demo_service_def require_ok_def recipient_args_def
        always_trust_args_def Let_def)
  then show ?thesis using that by blast
qed

theorem plaintext_for_vetted_only_witness:
  "\<exists>r w' rq. message_encrypt context_env ''hi'' [replicate 40 (CHR ''A'')] None None False False demo_aworld = (r, w') \<and>
     rq \<in> set (gw_calls (aw_gpg w')) \<and> encrypts ''hi'' [replicate 40 (CHR ''A'')] rq"
proof -
  let ?fp = "replicate 40 (CHR ''A'')"
  have w0: "gw_binary (aw_gpg demo_aworld) = gw_binary demo_gworld" "gw_keyring (aw_gpg demo_aworld) = [demo_listed]"
    "gw_calls (aw_gpg demo_aworld) = []" by (simp_all add: demo_aworld_def demo_gworld_def)
  obtain k g where f: "find_key (demo_genv []) ?fp (aw_gpg demo_aworld) = (Inr k, g)" "vetted 0 False k"
      "gw_binary g = gw_binary demo_gworld" by (rule demo_find [OF w0(1,2)])
  have "ge_now (demo_genv []) = 0" by (simp add: demo_genv_def)
  with f have p: "enforce_recipient_policy (demo_genv []) [?fp] False (aw_gpg demo_aworld) = (Inr (), g)"
    using check_recipient_vetted [of 0 False k "()"] by (simp add: enforce_recipient_policy_def bindP_def thenP_def)
  obtain out g2 where e: "encrypt (demo_genv []) ''hi'' [?fp] None None False g = (Inr out, g2)" by (rule demo_encrypts [OF f(3)])
  obtain r w' where r: "message_encrypt context_env ''hi'' [?fp] None None False False demo_aworld = (r, w')" "aw_gpg w' = g2"
    by (simp add: message_encrypt_def optional_fingerprint_def demo_fingerprint_ok bindP_def thenP_def zoomP_def p e catchP_def
        emit_signed_def context_env_parts(1))
  have "mapE validate_fingerprint [?fp] = Inr [?fp]" by (simp add: demo_fingerprint_ok)
  from encrypt_calls [OF e this] obtain rq where rq: "gw_calls g2 = gw_calls g @ [rq]" "encrypts ''hi'' [?fp] rq" by auto
  have laws: "lists_keys (ae_gpg context_env) demo_ring (\<lambda>k. filter lk_secret (demo_ring k))"
    "names_ok (ge_service (ae_gpg context_env))"
    using demo_lists demo_service_ok(1) by (simp_all only: context_env_parts(1))
  have "upper ?fp = ?fp" by code_simp
  with plaintext_for_vetted_only [OF laws r(1), of "gw_calls g2" rq] r rq w0(3) show ?thesis
    by (auto simp: encrypts_def)
qed

definition signed_env :: "(listed_key list, str list, nat) app_env" where
  "signed_env = (demo_app (\<lambda>_. Inl FidoUnavailableError))\<lparr>ae_gpg := demo_genv
     (STATUS_PREFIX @ ''GOODSIG 0123 Alice'' @ [newline] @ STATUS_PREFIX @ ''VALIDSIG '' @ replicate 40 (CHR ''A''))\<rparr>"

theorem verified_with_primary_trust_witness:
  "\<exists>r w'. message_verify signed_env ''hi'' None demo_aworld = (Inr r, w') \<and> vr_signature_valid r \<and> vr_signer_trust r \<noteq> UNKNOWN_TRUST"
proof -
  let ?fp = "replicate 40 (CHR ''A'')"
  let ?status = "STATUS_PREFIX @ ''GOODSIG 0123 Alice'' @ [newline] @ STATUS_PREFIX @ ''VALIDSIG '' @ ?fp"
  have e: "ae_gpg signed_env = demo_genv ?status" "ge_timestamp (demo_genv ?status) = (\<lambda>_. None)"
    by (simp_all add: signed_env_def demo_genv_def)
  have s: "evaluate_signature (\<lambda>_. None) (parse_status ?status) = (SIG_VALID, Some ?fp, None)" by code_simp
  have "\<exists>g. verify (demo_genv ?status) ''hi'' None demo_gworld = (Inr (SIG_VALID, Some ?fp, None), g) \<and> gw_keyring g = [demo_listed]"
    using s by (simp add: verify_def bindP_def run_gpg_def run_gpg_with_def assert_binary_not_swapped_def
        thenP_def gpg_request_of_def validated_passphrase_bytes_def reject_passphrase_in_argv_def start_process_def answer_def
        base_cmd_def REQUIRED_GPG_ARGS_def demo_genv_def demo_process_def demo_service_def demo_gworld_def binary_check_def Let_def)
  then obtain g where v: "verify (demo_genv ?status) ''hi'' None demo_gworld = (Inr (SIG_VALID, Some ?fp, None), g)"
    "gw_keyring g = [demo_listed]" by blast
  obtain t g2 where t: "resolve_signer_trust (demo_genv ?status) (Some ?fp) g = (Inr t, g2)" using resolve_never_raises by blast
  have laws: "lists_keys (ae_gpg signed_env) demo_ring (\<lambda>k. filter lk_secret (demo_ring k))"
    "names_ok (ge_service (ae_gpg signed_env))"
    using demo_lists demo_service_ok(1) by (simp_all only: e(1))
  have b: "binary_check (ge_service (demo_genv ?status)) (gw_binary g) = Inr ()" using verify_keeps_binary [OF v(1)] by simp
  have k2: "gw_keyring g2 = [demo_listed]"
    using resolve_primary_trust [OF demo_lists demo_service_ok(1) b t] v(2) by simp
  have "validate_text_payload ''hi'' = Inr ()" by code_simp
  then have run: "message_verify signed_env ''hi'' None demo_aworld = (Inr \<lparr>vr_signature_status = SIG_VALID,
      vr_signer_fingerprint = Some ?fp, vr_signer_trust = t, vr_signed_at = None, vr_failure_reason = None\<rparr>, put_gpg g2 demo_aworld)"
    using v(1) t by (simp add: message_verify_def thenP_def bindP_def zoomP_def e(1) demo_aworld_def put_gpg_def status_is_valid_def)
  obtain k where k: "shown_keys 0 [demo_listed] [] = Inr [k]" "ki_fingerprint k = ?fp" "vetted 0 False k" by (rule demo_shown)
  have "\<not> lk_secret demo_listed" "upper ?fp = ?fp" by (simp add: demo_listed_def, code_simp)
  with verified_with_primary_trust [OF laws run] k k2 demo_fingerprint_ok(1) have "t = ki_trust k"
    by (simp add: primary_trust_def demo_ring_def demo_listed_ok e(1)) (simp add: demo_genv_def)
  with run k(3) show ?thesis by (auto simp: vr_signature_valid_def status_is_valid_def vetted_def)
qed

definition recording_env :: "(listed_key list, (str \<times> str \<times> audit_payload) list, nat) app_env" where
  "recording_env = \<lparr>ae_gpg = demo_genv [], ae_store = demo_senv, ae_emit = (\<lambda>ev out pl l. (Inr (), l @ [(ev, out, pl)])),
     ae_enroll = (\<lambda>_ _ t. (Inl FidoUnavailableError, t)), ae_derive = (\<lambda>_ _ t. (Inl FidoUnavailableError, t)),
     ae_crypto = demo_crypto, ae_kdf = demo_params, ae_secret = demo_draw, ae_salt = demo_draw, ae_nonce = demo_draw,
     ae_token_nonce = demo_draw, ae_has_metadata = True, ae_has_unlock = True\<rparr>"

theorem decryption_is_recorded_witness:
  "length (aw_audit (snd (message_decrypt recording_env ''message'' None
     \<lparr>aw_gpg = demo_gworld, aw_store = empty_store, aw_audit = [], aw_token = 0\<rparr>))) = 1"
proof -
  let ?w = "\<lparr>aw_gpg = demo_gworld, aw_store = empty_store, aw_audit = [], aw_token = 0\<rparr>"
  have "keeps_events recording_env" by (simp add: keeps_events_def recording_env_def)
  from decryption_is_recorded [OF this, of "''message''" None ?w] show ?thesis
    by (cases "message_decrypt recording_env ''message'' None ?w") auto
qed

end
