(* ===== verification/Smartcard_Service.thy ===== *)
theory Smartcard_Service
  imports Card_Scripts Message_Service
begin

text \<open>
  \<open>services/smartcard_service.py\<close>: whether a card is there and why not, the keys on it, learning
  them, and the operations that change the card, each a scripted session of GnuPG's editor. The
  lemmas show that an occupied slot is left alone unless the caller allows the overwriting, what a
  learn step reports, and which card operations are recorded.
\<close>

section \<open>Presence\<close>

definition UNAVAILABLE_REASONS :: "(str \<times> str) list" where
  "UNAVAILABLE_REASONS =
     [(''no smartcard daemon'',
       ''GnuPG's smartcard daemon is missing. Install the 'scdaemon' package '' @
       ''(on Debian/Ubuntu: sudo apt install scdaemon), then plug the token in again.''),
      (''no card reader'',
       ''No smartcard reader was found. If the token is plugged in, its smartcard '' @
       ''interface may be switched off'' @ em_dash @ ''check with 'ykman info'.''),
      (''no such device'',
       ''A reader is present but no card responded. If this is a YubiKey, its CCID '' @
       ''(smartcard) interface may be disabled'' @ em_dash @ ''check with 'ykman info'.''),
      (''selecting card failed'',
       ''The card could not be selected. Another program may be holding it'' @ em_dash @ ''close '' @
       ''other GnuPG or smartcard applications and try again.''),
      (''card error'', ''The reader reported a card error. Re-insert the token and try again.'')]"

definition unavailable_reason :: "str \<Rightarrow> str" where
  "unavailable_reason diagnostics = (case find (\<lambda>(marker, _). contains marker (lower diagnostics)) UNAVAILABLE_REASONS of
       None \<Rightarrow> [] | Some (_, reason) \<Rightarrow> reason)"

text \<open>The exceptions derived from \<open>GPGServiceError\<close>.\<close>

definition is_gpg_service_error :: "exn \<Rightarrow> bool" where
  "is_gpg_service_error e \<longleftrightarrow> (case e of
     GPGServiceError \<Rightarrow> True | GPGValidationError \<Rightarrow> True | GPGPassphraseError _ \<Rightarrow> True | GPGKeyNotFoundError \<Rightarrow> True
   | GPGProcessError \<Rightarrow> True | GPGCardError _ \<Rightarrow> True | GPGCardPinError _ \<Rightarrow> True | _ \<Rightarrow> False)"

text \<open>The two handlers of \<open>probe\<close> give the reason why there is no card, other exceptions pass.\<close>

definition no_card_reason :: "exn \<Rightarrow> str res" where
  "no_card_reason e = (case e of
     GPGCardError d \<Rightarrow> Inr (unavailable_reason d)
   | GPGCardPinError d \<Rightarrow> Inr (unavailable_reason d)
   | _ \<Rightarrow> if is_gpg_service_error e then Inr [] else Inl e)"

definition probe :: "'k gpg_env \<Rightarrow> ('k, card_info option \<times> str) gpg_prog" where
  "probe env =
     bindP (catchP (bindP (card_status env) (\<lambda>out. retP (Inr out))) (\<lambda>e. bindP (liftP (no_card_reason e)) (\<lambda>r. retP (Inl r)))) (\<lambda>x.
     case x of
       Inl reason \<Rightarrow> retP (None, reason)
     | Inr out \<Rightarrow> bindP (liftP (parse_card_status (cs_colons out))) (\<lambda>card. retP (case card of
           None \<Rightarrow> (None, unavailable_reason (cs_diagnostics out))
         | Some c \<Rightarrow> (Some c, []))))"

definition detect :: "'k gpg_env \<Rightarrow> ('k, card_info option) gpg_prog" where
  "detect env = bindP (probe env) (\<lambda>p. retP (fst p))"

section \<open>Inventory and learning\<close>

definition card_keys :: "'k gpg_env \<Rightarrow> ('k, key_info list) gpg_prog" where
  "card_keys env = bindP (list_keys env True) (\<lambda>keys. retP (filter is_on_smartcard keys))"

definition has_card_keys :: "'k gpg_env \<Rightarrow> ('k, bool) gpg_prog" where
  "has_card_keys env = bindP (card_keys env) (\<lambda>keys. retP (keys \<noteq> []))"

record card_sync_result =
  cy_card :: "card_info option"
  cy_linked_fingerprints :: "str list"
  cy_missing_fingerprints :: "str list"
  cy_keys :: "key_info list"
  cy_unavailable_reason :: str

definition cy_card_present :: "card_sync_result \<Rightarrow> bool" where
  "cy_card_present r \<longleftrightarrow> cy_card r \<noteq> None"

definition needs_public_key_import :: "card_sync_result \<Rightarrow> bool" where
  "needs_public_key_import r \<longleftrightarrow> cy_missing_fingerprints r \<noteq> []"

definition probe_keys :: "('k, 'l, 't) app_env \<Rightarrow> ('k, 'l, 't, (card_info option \<times> str) \<times> key_info list) app_prog" where
  "probe_keys env = on_gpg_service (bindP (probe (ae_gpg env)) (\<lambda>p. bindP (card_keys (ae_gpg env)) (\<lambda>keys. retP (p, keys))))"

definition sync :: "('k, 'l, 't) app_env \<Rightarrow> ('k, 'l, 't, card_sync_result) app_prog" where
  "sync env =
     bindP (catchP (probe_keys env)
       (\<lambda>e. thenP (try_emit env ''smartcard_keys_synced'' FAILED [(''reason'', PStr (exn_name e))]) (raiseP e))) (\<lambda>((card, reason), keys).
     case card of
       None \<Rightarrow> thenP (try_emit env ''smartcard_detected'' OK [(''card_present'', PStr ''False'')])
         (retP \<lparr>cy_card = None, cy_linked_fingerprints = [], cy_missing_fingerprints = [], cy_keys = keys,
                cy_unavailable_reason = reason\<rparr>)
     | Some c \<Rightarrow>
         let known = set (concat (map all_fingerprints keys));
             linked = filter (\<lambda>f. f \<in> known) (key_fingerprints c);
             missing = filter (\<lambda>f. f \<notin> known) (key_fingerprints c) in
         thenP (try_emit env ''smartcard_keys_synced'' OK
             [(''linked_count'', PInt (int (length linked))), (''missing_count'', PInt (int (length missing)))])
           (retP \<lparr>cy_card = Some c, cy_linked_fingerprints = linked, cy_missing_fingerprints = missing, cy_keys = keys,
                  cy_unavailable_reason = []\<rparr>))"

section \<open>Changing the card\<close>

definition stopped_text :: "str \<Rightarrow> str \<Rightarrow> str" where
  "stopped_text operation prompt = operation @ '' was stopped: this GnuPG version asked something unexpected ('' @ prompt @
     ''). Check the card status before retrying, and use `gpg --card-edit` in a terminal for this operation.''"

definition failed_text :: "str \<Rightarrow> str \<Rightarrow> str option \<Rightarrow> str" where
  "failed_text operation stderr failure = operation @ '' failed: '' @
     or_else (take_chars 200 stderr) (case failure of None \<Rightarrow> ''None'' | Some f \<Rightarrow> f)"

definition rejected_pin :: "str \<Rightarrow> bool" where
  "rejected_pin lowered \<longleftrightarrow> contains ''pin'' lowered \<and>
     (contains ''bad'' lowered \<or> contains ''wrong'' lowered \<or> contains ''block'' lowered)"

text \<open>
  \<open>_run_card_script\<close>. The script is the caller's object: where the session came to an end it is
  returned as \<open>wipe\<close> left it.
\<close>

definition run_card_script ::
    "('k, 'l, 't) app_env \<Rightarrow> 'k editor \<Rightarrow> str list \<Rightarrow> prompt_script \<Rightarrow> str \<Rightarrow> str \<Rightarrow> audit_payload \<Rightarrow>
     ('k, 'l, 't, prompt_script) app_prog" where
  "run_card_script env ed args script operation event payload =
     bindP (on_gpg_service (run_prompt_script (ae_gpg env) ed args script)) (\<lambda>(result, played).
     let leftover = card (dom (pending played)); wiped = wipe played in
     case pr_unanswered_prompt result of
       Some prompt \<Rightarrow>
         thenP (try_emit env event FAILED ((''reason'', PStr ''unexpected_prompt'') # payload))
           (raiseP (GPGCardError (stopped_text operation prompt)))
     | None \<Rightarrow>
         let stderr = decode_output (pr_stderr result); failure = card_operation_failed (status_records result) in
         if failure \<noteq> None \<or> pr_returncode result \<noteq> 0 then
           thenP (try_emit env event FAILED ((''reason'', PStr (or_else (or_empty failure) ''process'')) # payload))
             (raiseP (if rejected_pin (lower stderr) then GPGCardPinError (operation @ '' failed: the card rejected the PIN'')
                      else GPGCardError (failed_text operation stderr failure)))
         else
           thenP (try_emit env event OK ((''unused_answers'', PInt (int leftover)) # payload)) (retP wiped))"

fun card_pin_value :: "card_pin \<Rightarrow> str" where
  "card_pin_value USER_PIN = ''user''"
| "card_pin_value ADMIN_PIN = ''admin''"

definition change_pin ::
    "('k, 'l, 't) app_env \<Rightarrow> 'k editor \<Rightarrow> card_pin \<Rightarrow> secure_bytes \<Rightarrow> secure_bytes \<Rightarrow> ('k, 'l, 't, prompt_script) app_prog" where
  "change_pin env ed pin current new =
     bindP (liftP (change_pin_script pin current new)) (\<lambda>script.
     run_card_script env ed [''--card-edit''] script (card_pin_value pin @ '' PIN change'') ''smartcard_pin_changed'' [])"

definition unblock_user_pin ::
    "('k, 'l, 't) app_env \<Rightarrow> 'k editor \<Rightarrow> secure_bytes \<Rightarrow> secure_bytes \<Rightarrow> ('k, 'l, 't, prompt_script) app_prog" where
  "unblock_user_pin env ed admin_pin new_user_pin =
     bindP (liftP (unblock_pin_script admin_pin new_user_pin)) (\<lambda>script.
     run_card_script env ed [''--card-edit''] script ''PIN unblock'' ''smartcard_pin_changed'' [])"

definition require_free_slot :: "'k gpg_env \<Rightarrow> card_slot \<Rightarrow> bool \<Rightarrow> ('k, unit) gpg_prog" where
  "require_free_slot env slot allow_overwrite =
     (if allow_overwrite then retP ()
      else bindP (detect env) (\<lambda>card. case card of
          None \<Rightarrow> raiseP (GPGCardError (''no smartcard is available'' @ em_dash @ ''insert your token and try again''))
        | Some c \<Rightarrow> if slot_fingerprint c slot \<noteq> []
            then raiseP (GPGCardError (''the '' @ lower (slot_name slot) @
              '' slot already holds a key; overwriting it would destroy that key''))
            else retP ()))"

definition move_key_to_card ::
    "('k, 'l, 't) app_env \<Rightarrow> 'k editor \<Rightarrow> str \<Rightarrow> card_slot \<Rightarrow> secure_bytes \<Rightarrow> secure_bytes \<Rightarrow> int \<Rightarrow> bool \<Rightarrow>
     ('k, 'l, 't, prompt_script) app_prog" where
  "move_key_to_card env ed fingerprint slot key_passphrase admin_pin key_index allow_overwrite =
     bindP (liftP (validate_fingerprint fingerprint)) (\<lambda>fp.
     if key_index < 0 then raiseP (GPGCardError ''invalid subkey selection'')
     else thenP (on_gpg_service (require_free_slot (ae_gpg env) slot allow_overwrite))
       (bindP (liftP (keytocard_script slot key_index key_passphrase admin_pin)) (\<lambda>script.
        run_card_script env ed [''--edit-key'', fp] script ''moving the key onto the card'' ''smartcard_key_moved''
          [(''fingerprint'', PStr fp), (''slot'', PStr (slot_value slot))])))"

definition require_empty_card :: "'k gpg_env \<Rightarrow> bool \<Rightarrow> ('k, unit) gpg_prog" where
  "require_empty_card env allow_overwrite =
     (if allow_overwrite then retP ()
      else bindP (detect env) (\<lambda>card.
        if card \<noteq> None \<and> occupied_slots (the card) \<noteq> []
        then raiseP (GPGCardError (''this card already holds keys'' @ em_dash @ ''generating new ones would destroy them''))
        else retP ()))"

definition generate_key_on_card ::
    "('k, 'l, 't) app_env \<Rightarrow> 'k editor \<Rightarrow> secure_bytes \<Rightarrow> secure_bytes \<Rightarrow> str \<Rightarrow> str \<Rightarrow> str \<Rightarrow> bool \<Rightarrow> bool \<Rightarrow>
     ('k, 'l, 't, prompt_script) app_prog" where
  "generate_key_on_card env ed admin_pin user_pin name email expiry off_card_backup allow_overwrite =
     bindP (liftP (validate_user_name name)) (\<lambda>clean_name.
     bindP (liftP (validate_email email)) (\<lambda>clean_email.
     thenP (if expiry \<noteq> ''0'' then bindP (liftP (validate_expiry expiry)) (\<lambda>_. retP ()) else retP ())
     (thenP (on_gpg_service (require_empty_card (ae_gpg env) allow_overwrite))
     (bindP (liftP (generate_on_card_script admin_pin user_pin clean_name clean_email expiry off_card_backup allow_overwrite)) (\<lambda>script.
      run_card_script env ed [''--card-edit''] script ''generating keys on the card'' ''smartcard_key_generated'' [])))))"


section \<open>What is asked before the card is changed\<close>

text \<open>Only the editor is run without \<open>--batch\<close>, so that it can ask.\<close>

abbreviation in_batch :: "gpg_request \<Rightarrow> bool" where
  "in_batch rq \<equiv> ''--batch'' \<in> set (rq_argv rq)"

lemma card_status_batch: "preserves (only_since in_batch calls) (card_status env)"
proof -
  have "in_batch rq" if "gpg_request_of env [] args input pw status = Inr rq" for args input pw status rq
    using gpg_request_of_Inr(4) [OF that] by (auto simp: base_cmd_def REQUIRED_GPG_ARGS_def)
  then have run: "preserves (only_since in_batch calls) (run_gpg env args input pw status)" for args input pw status
    by (rule preserves_only_since)
  show ?thesis by (auto simp: card_status_def Let_def intro!: preserves_intros run)
qed

lemma detect_batch: "preserves (only_since in_batch calls) (detect env)"
  unfolding detect_def probe_def
  by (intro preserves_intros card_status_batch) (auto split: sum.split intro!: preserves_intros)

lemma run_prompt_script_calls:
  assumes "run_prompt_script env ed args script w = (r, w')"
  shows "w' = w \<or> (\<exists>rq. gw_calls w' = gw_calls w @ [rq] \<and> rq_argv rq = prompt_cmd (ge_service env) ed args)"
  using assms
  by (cases "binary_check (ge_service env) (gw_binary w)")
    (auto simp: run_prompt_script_def assert_binary_not_swapped_def thenP_def bindP_def Let_def split: prod.splits)

lemma run_card_script_gpg:
  assumes "run_card_script env ed args script operation event payload w = (r, w')"
  shows "aw_gpg w' = snd (run_prompt_script (ae_gpg env) ed args script (aw_gpg w))"
proof -
  obtain x g where x: "run_prompt_script (ae_gpg env) ed args script (aw_gpg w) = (x, g)" by fastforce
  have emit: "aw_gpg w2 = aw_gpg w1" if "try_emit env ev oc pl w1 = (y, w2)" for ev oc pl w1 w2 y
    using try_emit_parts [OF that] by simp
  show ?thesis
    using assms
    by (cases x) (auto simp: run_card_script_def bindP_def zoomP_def x thenP_def Let_def split: prod.splits option.splits sum.splits if_splits
        dest!: emit)
qed


text \<open>Reading the card keeps the batch requests; what the editor is given comes last.\<close>

lemma card_change_calls:
  assumes run: "bindP (on_gpg_service check) (\<lambda>_. bindP (liftP script) (\<lambda>ps.
      run_card_script env ed args ps operation event payload)) w = (r, w')"
    and batch: "\<And>calls. preserves (only_since in_batch calls) check"
    and rq: "gw_calls (aw_gpg w') = gw_calls (aw_gpg w) @ new" "rq \<in> set new" "\<not> in_batch rq"
  shows "rq_argv rq = prompt_cmd (ge_service (ae_gpg env)) ed args \<and> (\<exists>x g. check (aw_gpg w) = (Inr x, g))"
proof -
  obtain x g where c: "check (aw_gpg w) = (x, g)" by fastforce
  have "only_since in_batch (gw_calls (aw_gpg w)) (aw_gpg w)" by (simp add: only_since_def)
  from preservesD [OF batch this c] obtain asked where
    asked: "gw_calls g = gw_calls (aw_gpg w) @ asked" "list_all in_batch asked" by (auto simp: only_since_def)
  have stop: False if "aw_gpg w' = g" using that rq asked by (auto simp: list_all_iff)
  have "x \<noteq> Inl e" "script \<noteq> Inl e" for e
    using run c stop by (auto simp: bindP_def zoomP_def split: sum.splits)
  then obtain y ps where x: "x = Inr y" "script = Inr ps" by (metis sum.exhaust)
  then have "run_card_script env ed args ps operation event payload (put_gpg g w) = (r, w')"
    using run c by (simp add: bindP_def zoomP_def)
  from run_card_script_gpg [OF this] obtain z where
    "run_prompt_script (ae_gpg env) ed args ps g = (z, aw_gpg w')" by (metis gpg_part.get_put prod.collapse)
  from run_prompt_script_calls [OF this] stop rq asked x(1) c show ?thesis by (auto simp: list_all_iff)
qed

lemma detect_Inr:
  assumes "detect env w = (Inr (Some c), w')"
  shows "\<exists>out g. card_status env w = (Inr out, g) \<and> parse_card_status (cs_colons out) = Inr (Some c)"
proof -
  obtain x g where s: "card_status env w = (x, g)" by fastforce
  then show ?thesis
    using assms by (cases x) (auto simp: detect_def probe_def bindP_def catchP_def split: sum.splits option.splits prod.splits)
qed

text \<open>
  C20. A key is moved onto a free slot only: without the caller's permission to overwrite, GnuPG's
  editor is started, for the key named and with it as the only process that may ask something, only
  after the card was read and showed the slot empty, whatever the outcome of the move.
\<close>

theorem move_needs_free_slot:
  assumes "move_key_to_card env ed fingerprint slot key_passphrase admin_pin key_index overwrite w = (r, w')"
    and "gw_calls (aw_gpg w') = gw_calls (aw_gpg w) @ new" "rq \<in> set new" "\<not> in_batch rq"
  shows "rq_argv rq = prompt_cmd (ge_service (ae_gpg env)) ed [''--edit-key'', upper fingerprint] \<and> fingerprint_ok (upper fingerprint) \<and>
    (overwrite \<or> (\<exists>out g c. card_status (ae_gpg env) (aw_gpg w) = (Inr out, g) \<and>
       parse_card_status (cs_colons out) = Inr (Some c) \<and> slot_fingerprint c slot = []))"
proof -
  let ?check = "require_free_slot (ae_gpg env) slot overwrite"
  have same: "w' \<noteq> w" using assms(2,3) by auto
  obtain fp where v: "validate_fingerprint fingerprint = Inr fp"
    using assms(1) same by (cases "validate_fingerprint fingerprint") (simp_all add: move_key_to_card_def bindP_lift)
  have i: "\<not> key_index < 0"
    using assms(1) same v by (cases "key_index < 0") (simp_all add: move_key_to_card_def bindP_lift)
  then have run: "bindP (on_gpg_service ?check) (\<lambda>_. bindP (liftP (keytocard_script slot key_index key_passphrase admin_pin)) (\<lambda>ps.
      run_card_script env ed [''--edit-key'', fp] ps ''moving the key onto the card'' ''smartcard_key_moved''
        [(''fingerprint'', PStr fp), (''slot'', PStr (slot_value slot))])) w = (r, w')"
    using assms(1) v i by (simp add: move_key_to_card_def bindP_lift thenP_def)
  have batch: "preserves (only_since in_batch calls) ?check" for calls
    unfolding require_free_slot_def by (auto intro!: preserves_intros detect_batch split: option.split)
  note c = card_change_calls [OF run batch assms(2-4)]
  obtain g where "?check (aw_gpg w) = (Inr (), g)" using c by auto
  then have "overwrite \<or> (\<exists>card. detect (ae_gpg env) (aw_gpg w) = (Inr (Some card), g) \<and> slot_fingerprint card slot = [])"
    by (cases overwrite) (auto simp: require_free_slot_def bindP_eq_Inr split: option.splits if_splits)
  moreover have "fp = upper fingerprint" "fingerprint_ok fp" using v by (auto simp: validate_fingerprint_ok)
  ultimately show ?thesis using c detect_Inr [of "ae_gpg env" "aw_gpg w" _ g] by blast
qed

text \<open>
  Keys are generated on an empty card only: without the permission to overwrite, the editor is
  started only if the card could not be read or showed no occupied slot.
\<close>

lemma generation_needs_empty_card:
  assumes "generate_key_on_card env ed admin_pin user_pin name email expiry backup overwrite w = (r, w')"
    and "gw_calls (aw_gpg w') = gw_calls (aw_gpg w) @ new" "rq \<in> set new" "\<not> in_batch rq"
  shows "rq_argv rq = prompt_cmd (ge_service (ae_gpg env)) ed [''--card-edit''] \<and>
    (overwrite \<or> (\<exists>card g. detect (ae_gpg env) (aw_gpg w) = (Inr card, g) \<and> (\<forall>c. card = Some c \<longrightarrow> occupied_slots c = [])))"
proof -
  let ?check = "require_empty_card (ae_gpg env) overwrite"
  have same: "w' = w \<Longrightarrow> False" using assms by auto
  obtain n where n: "validate_user_name name = Inr n"
    using assms(1) same by (cases "validate_user_name name") (auto simp: generate_key_on_card_def bindP_def)
  obtain m where m: "validate_email email = Inr m"
    using assms(1) same n by (cases "validate_email email") (auto simp: generate_key_on_card_def bindP_def)
  have x: "expiry = ''0'' \<or> (\<exists>x. validate_expiry expiry = Inr x)"
    using assms(1) same n m
    by (cases "validate_expiry expiry"; cases "expiry = ''0''") (auto simp: generate_key_on_card_def bindP_def thenP_def)
  have run: "bindP (on_gpg_service ?check) (\<lambda>_. bindP (liftP (generate_on_card_script admin_pin user_pin n m expiry backup overwrite)) (\<lambda>ps.
      run_card_script env ed [''--card-edit''] ps ''generating keys on the card'' ''smartcard_key_generated'' [])) w = (r, w')"
    using assms(1) n m x by (cases "expiry = ''0''") (auto simp: generate_key_on_card_def bindP_lift thenP_def)
  have batch: "preserves (only_since in_batch calls) ?check" for calls
    unfolding require_empty_card_def by (auto intro!: preserves_intros detect_batch)
  note c = card_change_calls [OF run batch assms(2-4)]
  obtain g where "?check (aw_gpg w) = (Inr (), g)" using c by auto
  then have "overwrite \<or> (\<exists>card. detect (ae_gpg env) (aw_gpg w) = (Inr card, g) \<and> (\<forall>c. card = Some c \<longrightarrow> occupied_slots c = []))"
    by (cases overwrite) (auto simp: require_empty_card_def bindP_eq_Inr split: if_splits)
  with c show ?thesis by auto
qed


section \<open>Which card operations are recorded\<close>

lemma answer_prompts_ok:
  assumes "script_ok script"
  shows "script_ok (dg_script (cv_dialogue (answer_prompts accepts script chunks)))"
proof -
  have line: "script_ok (dg_script (answer_line acc l d))" if "script_ok (dg_script d)" for acc l d
    using that take_keeps_ok [OF that]
    by (auto simp: answer_line_def split: option.splits prod.splits)
  have drain: "script_ok (dg_script d) \<Longrightarrow> script_ok (dg_script (snd (drain_lines acc b d)))" for acc b d
  proof (induction acc b d rule: drain_lines.induct)
    case (1 acc b d)
    show ?case
    proof (cases "newline \<in> set b")
      case True
      from 1(1) [OF this line [OF 1(2)]] True show ?thesis by (subst drain_lines.simps) simp
    qed (use 1(2) in \<open>subst drain_lines.simps, simp\<close>)
  qed
  have chunk: "script_ok (dg_script (cv_dialogue (read_chunk accepts c cv)))" if "script_ok (dg_script (cv_dialogue cv))" for c cv
    using drain [OF that, of accepts "cv_buffer cv @ c"] that by (auto simp: read_chunk_def Let_def split: prod.splits)
  have "script_ok (dg_script (cv_dialogue cv)) \<Longrightarrow> script_ok (dg_script (cv_dialogue (fold (read_chunk accepts) chunks cv)))" for cv
    by (induction chunks arbitrary: cv) (simp_all add: chunk)
  then show ?thesis using assms by (simp add: answer_prompts_def start_dialogue_def)
qed

lemma played_script_ok:
  assumes "run_prompt_script env ed args script w = (Inr (result, played), w')" "script_ok script"
  shows "script_ok played"
  using assms answer_prompts_ok [OF assms(2)]
  by (auto simp: run_prompt_script_def assert_binary_not_swapped_def thenP_def bindP_def Let_def
      split: prod.splits sum.splits option.splits)

lemma wiped_all:
  assumes "script_ok ps"
  shows "list_all (list_all (\<lambda>c. c = nul)) (ps_memory (wipe ps))"
proof -
  have "length (fold (\<lambda>i m. m[i := zero_mutable_buffer (m ! i)]) is m) = length m" for "is" and m :: "bytes list"
    by (induction "is" arbitrary: m) simp_all
  then have "length (ps_memory (wipe ps)) = length (ps_memory ps)" by (simp add: wipe_def)
  then show ?thesis using wipe_clears [OF assms] by (auto simp: list_all_iff in_set_conv_nth)
qed

text \<open>
  C25. An operation on the card is recorded once its session came to an end: with an audit log that
  accepts events there is exactly one new event, the success if the operation returns and the
  failure if it raises, and where it returns the PINs the script held are overwritten. A session
  that does not end in time, or is never started, leaves no event.
\<close>

theorem card_session_recorded:
  assumes "keeps_events env" "script_ok script"
    and run: "run_card_script env ed args script operation event payload w = (r, w')"
  shows "(\<exists>e g. run_prompt_script (ae_gpg env) ed args script (aw_gpg w) = (Inl e, g) \<and> r = Inl e \<and> aw_audit w' = aw_audit w) \<or>
    (\<exists>data. aw_audit w' = aw_audit w @ [(event, if isl r then FAILED else OK, data)] \<and>
       (\<forall>wiped. r = Inr wiped \<longrightarrow> list_all (list_all (\<lambda>c. c = nul)) (ps_memory wiped)))"
proof -
  obtain x g where x: "run_prompt_script (ae_gpg env) ed args script (aw_gpg w) = (x, g)" by fastforce
  have emit: "try_emit env ev oc pl v = (Inr (), put_audit (aw_audit v @ [(ev, oc, pl)]) v)" for ev oc pl v
    by (simp add: try_emit_def catchP_def keeps_events_emit [OF assms(1)])
  show ?thesis
  proof (cases x)
    case (Inl e)
    then show ?thesis using run x by (auto simp: run_card_script_def bindP_def zoomP_def)
  next
    case (Inr p)
    obtain result played where p: "p = (result, played)" by fastforce
    have "script_ok played" using played_script_ok [OF x [unfolded Inr p] assms(2)] .
    then have wiped: "list_all (list_all (\<lambda>c. c = nul)) (ps_memory (wipe played))" by (rule wiped_all)
    show ?thesis
      using run x Inr p wiped
      by (auto simp: run_card_script_def bindP_def zoomP_def Let_def thenP_def emit split: option.splits if_splits)
  qed
qed


section \<open>A concrete card\<close>

text \<open>A card with empty slots, and an editor that ends its sessions without asking.\<close>

definition card_process :: "gpg_request \<Rightarrow> listed_key list \<Rightarrow> gpg_run option \<times> listed_key list" where
  "card_process rq k = (if ''--card-status'' \<in> set (rq_argv rq) then (Some (Gpg_Service.answer ''serial:12345678:'' []), k) else demo_process [] rq k)"

definition card_env :: "(listed_key list, (str \<times> str \<times> audit_payload) list, nat) app_env" where
  "card_env = recording_env\<lparr>ae_gpg := (demo_genv [])\<lparr>ge_process := card_process\<rparr>\<rparr>"

definition card_world :: "(listed_key list, (str \<times> str \<times> audit_payload) list, nat) app_world" where
  "card_world = \<lparr>aw_gpg = demo_gworld, aw_store = empty_store, aw_audit = [], aw_token = 0\<rparr>"

definition quiet_editor :: "listed_key list editor" where
  "quiet_editor = \<lparr>ed_reads = (\<lambda>_ _ _. []), ed_accepts = (\<lambda>_. True), ed_exit = (\<lambda>_ _ k. (Some (0, [], []), k)),
     ed_status_fd = ''5'', ed_command_fd = ''6''\<rparr>"

lemma card_env_gpg: "ae_gpg card_env = (demo_genv [])\<lparr>ge_process := card_process\<rparr>" "keeps_events card_env"
  by (simp_all add: card_env_def keeps_events_def recording_env_def)

lemma card_reads:
  obtains c g where "card_status (ae_gpg card_env) demo_gworld = (Inr \<lparr>cs_colons = ''serial:12345678:'', cs_diagnostics = []\<rparr>, g)"
    "gw_binary g = gw_binary demo_gworld" "parse_card_status ''serial:12345678:'' = Inr (Some c)" "occupied_slots c = []"
proof -
  have d: "decode_output ''serial:12345678:'' = ''serial:12345678:''" "decode_output [] = []" by code_simp+
  have s: "splitlines ''serial:12345678:'' = [''serial:12345678:'']" by (simp add: splitlines_def line_break_def)
  have "\<exists>g. card_status (ae_gpg card_env) demo_gworld = (Inr \<lparr>cs_colons = ''serial:12345678:'', cs_diagnostics = []\<rparr>, g) \<and>
      gw_binary g = gw_binary demo_gworld"
    by (simp add: card_status_def card_env_gpg bindP_def run_gpg_def run_gpg_with_def assert_binary_not_swapped_def thenP_def
        gpg_request_of_def validated_passphrase_bytes_def reject_passphrase_in_argv_def start_process_def Gpg_Service.answer_def
        base_cmd_def REQUIRED_GPG_ARGS_def demo_genv_def card_process_def demo_service_def demo_gworld_def binary_check_def Let_def d)
  moreover have "\<exists>c. parse_card_status ''serial:12345678:'' = Inr (Some c) \<and> occupied_slots c = []"
    using s by (simp add: parse_card_status_def card_line_def split_record_def strip_def lstrip_def rstrip_def is_space_def
        lower_char_def upper_char_def field_def no_card_def Let_def card_info.defs occupied_slots_def slot_fingerprint_def card_slots_def)
  ultimately show ?thesis using that by blast
qed


lemma card_runs:
  assumes "gw_binary (aw_gpg w) = gw_binary demo_gworld"
  shows "\<exists>ps w'. run_card_script card_env quiet_editor args script operation event payload w = (Inr ps, w') \<and>
    gw_calls (aw_gpg w') = gw_calls (aw_gpg w) @ [\<lparr>rq_argv = prompt_cmd demo_service quiet_editor args, rq_input = None,
      rq_passphrase = None, rq_files = []\<rparr>]"
proof -
  have env: "ge_service (ae_gpg card_env) = demo_service" "binary_check demo_service (gw_binary demo_gworld) = Inr ()"
    using demo_service_ok(2) [of "[]"] by (simp_all add: card_env_gpg demo_genv_def)
  have st: "parse_status [] = []" "decode_output [] = []" by code_simp+
  have emit: "try_emit card_env ev oc pl v = (Inr (), put_audit (aw_audit v @ [(ev, oc, pl)]) v)" for ev oc pl v
    by (simp add: try_emit_def catchP_def keeps_events_emit [OF card_env_gpg(2)])
  show ?thesis
    by (simp add: run_card_script_def bindP_def zoomP_def run_prompt_script_def thenP_def assert_binary_not_swapped_def env assms
        quiet_editor_def answer_prompts_def start_dialogue_def Let_def status_records_def st card_operation_failed.simps emit)
qed

theorem move_needs_free_slot_witness:
  "\<exists>r w' rq. move_key_to_card card_env quiet_editor (replicate 40 (CHR ''A'')) SIGNATURE (pin_of ''secret'') (pin_of ''12345678'') 0
      False card_world = (r, w') \<and> rq \<in> set (gw_calls (aw_gpg w')) \<and>
     rq_argv rq = prompt_cmd demo_service quiet_editor [''--edit-key'', replicate 40 (CHR ''A'')]"
proof -
  let ?fp = "replicate 40 (CHR ''A'')" and ?args = "[''--edit-key'', replicate 40 (CHR ''A'')]"
  let ?script = "keytocard_script SIGNATURE 0 (pin_of ''secret'') (pin_of ''12345678'')"
  obtain c g where c: "card_status (ae_gpg card_env) demo_gworld = (Inr \<lparr>cs_colons = ''serial:12345678:'', cs_diagnostics = []\<rparr>, g)"
    "gw_binary g = gw_binary demo_gworld" "parse_card_status ''serial:12345678:'' = Inr (Some c)" "occupied_slots c = []"
    by (rule card_reads)
  have free: "slot_fingerprint c SIGNATURE = []" using c(4) by (auto simp: occupied_slots_def card_slots_def split: if_splits)
  have check: "require_free_slot (ae_gpg card_env) SIGNATURE False demo_gworld = (Inr (), g)"
    by (simp add: require_free_slot_def detect_def probe_def bindP_def catchP_def c free)
  have "\<not> isl ?script" by code_simp
  then obtain script where ps: "?script = Inr script" by (cases ?script) auto
  have w: "aw_gpg card_world = demo_gworld" by (simp add: card_world_def)
  obtain ps w' where run: "run_card_script card_env quiet_editor ?args script ''moving the key onto the card''
      ''smartcard_key_moved'' [(''fingerprint'', PStr ?fp), (''slot'', PStr (slot_value SIGNATURE))] (put_gpg g card_world) = (Inr ps, w')"
    "gw_calls (aw_gpg w') = gw_calls g @ [\<lparr>rq_argv = prompt_cmd demo_service quiet_editor ?args, rq_input = None,
      rq_passphrase = None, rq_files = []\<rparr>]"
    using card_runs [of "put_gpg g card_world" ?args script] c(2) by auto metis
  have "move_key_to_card card_env quiet_editor ?fp SIGNATURE (pin_of ''secret'') (pin_of ''12345678'') 0 False card_world = (Inr ps, w')"
    using run(1) ps by (simp add: move_key_to_card_def demo_fingerprint_ok bindP_def thenP_def zoomP_def w check)
  moreover have "\<not> in_batch \<lparr>rq_argv = prompt_cmd demo_service quiet_editor ?args, rq_input = None, rq_passphrase = None, rq_files = []\<rparr>"
    by code_simp
  ultimately show ?thesis using move_needs_free_slot run(2) by fastforce
qed

theorem card_session_recorded_witness:
  "\<exists>r w'. run_card_script card_env quiet_editor [''--card-edit''] new_script ''PIN unblock'' ''smartcard_pin_changed'' [] card_world = (r, w') \<and>
     length (aw_audit w') \<le> 1"
proof -
  obtain r w' where r: "run_card_script card_env quiet_editor [''--card-edit''] new_script ''PIN unblock'' ''smartcard_pin_changed'' []
    card_world = (r, w')" by fastforce
  have "aw_audit card_world = []" by (simp add: card_world_def)
  with card_session_recorded [OF card_env_gpg(2) new_script_ok(1) r] r show ?thesis by auto
qed

end
