(* ===== verification/Fido_Service.thy ===== *)
theory Fido_Service
  imports Key_Unlock_Service
begin

text \<open>
  \<open>services/fido_service.py\<close>: probing a FIDO2 token, enrolling a credential on it and deriving its
  secret, with the translation of every failure. The library \<open>python-fido2\<close> and the token behind it
  are parameters: the devices it lists, their information, and the two client calls on a token with
  a state of its own, which end in a result, a CTAP status, a client error or what the PIN callback
  raised. The lemmas show that a secret once enrolled is derived again, so that the service keeps
  the contract \<open>Key_Unlock_Service\<close> builds on, and how the failures of the PIN are told apart.
\<close>

section \<open>The library\<close>

text \<open>What an extension result holds; \<open>ExtFields\<close> is a dict or an object with attributes.\<close>

datatype ext_value = ExtNone | ExtBool bool | ExtBytes bytes | ExtFields "(str \<times> ext_value) list" | ExtOther

record hid_device =
  hd_product_name :: "str option"

record ctap_info =
  ci_options :: "(str \<times> bool) list"
  ci_extensions :: "str list"

record creation_options =
  co_rp_id :: str
  co_user_id :: bytes
  co_user_name :: str
  co_challenge :: bytes
  co_algorithms :: "int list"
  co_resident_required :: bool

record request_options =
  ro_rp_id :: str
  ro_challenge :: bytes
  ro_credential_id :: bytes
  ro_prf_salt :: bytes

record registration =
  rg_raw_id :: bytes
  rg_extensions :: ext_value

datatype ctap_status =
    PIN_INVALID | PIN_AUTH_INVALID | PIN_AUTH_BLOCKED | PIN_BLOCKED | PIN_NOT_SET | PIN_POLICY_VIOLATION
  | OPERATION_DENIED | USER_ACTION_TIMEOUT | ACTION_TIMEOUT | UP_REQUIRED
  | NO_CREDENTIALS | INVALID_CREDENTIAL | OtherStatus nat

datatype client_code = CLIENT_TIMEOUT | DEVICE_INELIGIBLE | CONFIGURATION_UNSUPPORTED | OtherClient nat

datatype fido_failure =
    CtapFailure ctap_status
  | ClientFailure client_code "ctap_status option"
  | CallbackFailure exn

text \<open>No list of devices is the \<open>OSError\<close> of listing them; the client is given its origin.\<close>

record 't fido_lib =
  fl_devices :: "'t \<Rightarrow> hid_device list option"
  fl_info :: "'t \<Rightarrow> hid_device \<Rightarrow> ctap_info option"
  fl_make_credential :: "str \<Rightarrow> hid_device \<Rightarrow> str res \<Rightarrow> creation_options \<Rightarrow> 't \<Rightarrow> (fido_failure + registration) \<times> 't"
  fl_get_assertion :: "str \<Rightarrow> hid_device \<Rightarrow> str res \<Rightarrow> request_options \<Rightarrow> 't \<Rightarrow> (fido_failure + ext_value) \<times> 't"

section \<open>Failures\<close>

fun translate_status :: "ctap_status \<Rightarrow> exn" where
  "translate_status PIN_INVALID = FidoPinError"
| "translate_status PIN_AUTH_INVALID = FidoPinError"
| "translate_status PIN_AUTH_BLOCKED = FidoPinError"
| "translate_status PIN_BLOCKED = FidoPinError"
| "translate_status PIN_NOT_SET = FidoPinError"
| "translate_status PIN_POLICY_VIOLATION = FidoPinError"
| "translate_status OPERATION_DENIED = FidoTouchError"
| "translate_status USER_ACTION_TIMEOUT = FidoTouchError"
| "translate_status ACTION_TIMEOUT = FidoTouchError"
| "translate_status UP_REQUIRED = FidoTouchError"
| "translate_status NO_CREDENTIALS = FidoCredentialError"
| "translate_status INVALID_CREDENTIAL = FidoCredentialError"
| "translate_status (OtherStatus n) = FidoServiceError"

fun client_error :: "client_code \<Rightarrow> exn" where
  "client_error CLIENT_TIMEOUT = FidoTouchError"
| "client_error DEVICE_INELIGIBLE = FidoCredentialError"
| "client_error CONFIGURATION_UNSUPPORTED = FidoServiceError"
| "client_error (OtherClient n) = FidoServiceError"

text \<open>What the callback raised is neither of the two classes and passes through.\<close>

fun translate :: "fido_failure \<Rightarrow> exn" where
  "translate (CtapFailure s) = translate_status s"
| "translate (ClientFailure c (Some s)) = translate_status s"
| "translate (ClientFailure c None) = client_error c"
| "translate (CallbackFailure e) = e"

fun is_fido_failure :: "fido_failure \<Rightarrow> bool" where
  "is_fido_failure (CallbackFailure e) = False"
| "is_fido_failure f = True"

section \<open>The service\<close>

record ('t, 'l) fido_world =
  fw_token :: 't
  fw_audit :: 'l

record ('t, 'l) fido_env =
  fi_lib :: "'t fido_lib"
  fi_rp_id :: str
  fi_emit :: "str \<Rightarrow> str \<Rightarrow> audit_payload \<Rightarrow> ('l, unit) prog"
  fi_user_id :: draw
  fi_challenge :: draw
  fi_salt :: draw
  fi_mlock :: bool

type_synonym ('t, 'l, 'a) fido_prog = "(('t, 'l) fido_world, 'a) prog"

definition RP_ID :: str where "RP_ID = ''gpg-meister.local''"

definition FIDO_ALGORITHMS :: "int list" where "FIDO_ALGORITHMS = [-7, -8]"

definition origin_of :: "('t, 'l) fido_env \<Rightarrow> str" where
  "origin_of env = ''https://'' @ fi_rp_id env"

definition put_fido_audit :: "'l \<Rightarrow> ('t, 'l) fido_world \<Rightarrow> ('t, 'l) fido_world" where
  "put_fido_audit l w = w\<lparr>fw_audit := l\<rparr>"

interpretation fido_audit: state_part fw_audit put_fido_audit
  by unfold_locales (simp_all add: put_fido_audit_def)

definition fido_emit :: "('t, 'l) fido_env \<Rightarrow> str \<Rightarrow> str \<Rightarrow> audit_payload \<Rightarrow> ('t, 'l, unit) fido_prog" where
  "fido_emit env event outcome payload =
     catchP (zoomP fw_audit put_fido_audit (fi_emit env event outcome payload)) (\<lambda>_. retP ())"

record token_info =
  ti_product_name :: str
  ti_has_pin :: bool
  ti_supports_prf :: bool
  ti_supports_resident_keys :: bool

definition is_usable :: "token_info \<Rightarrow> bool" where
  "is_usable t = ti_supports_prf t"

text \<open>Why there is no token.\<close>

definition NO_TOKEN :: str where
  "NO_TOKEN = ''No security key found. Plug your token into a USB port and try again.''"

definition NO_ACCESS :: str where
  "NO_ACCESS = ''A security key is present but this user cannot open it. On Linux the FIDO '' @
     ''udev rules are missing'' @ em_dash @ ''install the 'libfido2' package (which ships them) '' @
     ''or add a rule granting access to /dev/hidraw*, then re-plug the token.''"

definition NO_PRF :: str where
  "NO_PRF = ''This token cannot derive secrets: it does not support the FIDO2 '' @
     CHR 0x27 # ''hmac-secret' extension, which unlocking a key with it requires.''"

definition or_text :: "str option \<Rightarrow> str \<Rightarrow> str" where
  "or_text s fallback = (case s of None \<Rightarrow> fallback | Some t \<Rightarrow> if t = [] then fallback else t)"

definition option_set :: "ctap_info \<Rightarrow> str \<Rightarrow> bool" where
  "option_set info name \<longleftrightarrow> map_of (ci_options info) name = Some True"

definition token_of :: "hid_device \<Rightarrow> ctap_info \<Rightarrow> token_info" where
  "token_of device info =
     \<lparr>ti_product_name = or_text (hd_product_name device) ''Security key'', ti_has_pin = option_set info ''clientPin'',
      ti_supports_prf = (''hmac-secret'' \<in> set (ci_extensions info)), ti_supports_resident_keys = option_set info ''rk''\<rparr>"

definition fido_probe :: "('t, 'l) fido_env \<Rightarrow> 't \<Rightarrow> token_info option \<times> str" where
  "fido_probe env t = (case fl_devices (fi_lib env) t of
       None \<Rightarrow> (None, NO_ACCESS)
     | Some [] \<Rightarrow> (None, NO_TOKEN)
     | Some (device # _) \<Rightarrow> (case fl_info (fi_lib env) t device of
           None \<Rightarrow> (None, NO_PRF)
         | Some info \<Rightarrow>
             let token = token_of device info in (Some token, if is_usable token then [] else NO_PRF)))"

definition require_token :: "('t, 'l) fido_env \<Rightarrow> ('t, 'l, token_info) fido_prog" where
  "require_token env = bindP (getP (\<lambda>w. fst (fido_probe env (fw_token w)))) (\<lambda>token. case token of
       None \<Rightarrow> raiseP FidoUnavailableError
     | Some t \<Rightarrow> if is_usable t then retP t else raiseP FidoUnavailableError)"

definition fido_client :: "('t, 'l) fido_env \<Rightarrow> ('t, 'l, hid_device) fido_prog" where
  "fido_client env = bindP (getP (\<lambda>w. fl_devices (fi_lib env) (fw_token w))) (\<lambda>devices. case devices of
       None \<Rightarrow> raiseP OSError
     | Some [] \<Rightarrow> raiseP FidoUnavailableError
     | Some (device # _) \<Rightarrow> retP device)"

text \<open>The PIN, decoded when the library asks for it.\<close>

definition pin_reader :: "secure_bytes \<Rightarrow> str res" where
  "pin_reader pin = bindE (sb_to_bytes pin) (\<lambda>raw. if utf8_ok raw then Inr raw else Inl UnicodeError)"

fun ext_field :: "ext_value \<Rightarrow> str \<Rightarrow> ext_value" where
  "ext_field (ExtFields fs) name = (case map_of fs name of None \<Rightarrow> ExtNone | Some v \<Rightarrow> v)"
| "ext_field v name = ExtNone"

fun ext_truthy :: "ext_value \<Rightarrow> bool" where
  "ext_truthy ExtNone = False"
| "ext_truthy (ExtBool b) = b"
| "ext_truthy (ExtBytes b) = (b \<noteq> [])"
| "ext_truthy (ExtFields fs) = (fs \<noteq> [])"
| "ext_truthy ExtOther = True"

definition prf_output :: "ext_value \<Rightarrow> bytes option" where
  "prf_output results = (case ext_field (ext_field (ext_field results ''prf'') ''results'') ''first'' of
       ExtBytes b \<Rightarrow> Some b | _ \<Rightarrow> None)"

text \<open>A client call, with the event and the translation of its failure.\<close>

definition client_call ::
    "('t, 'l) fido_env \<Rightarrow> str \<Rightarrow> ('t \<Rightarrow> (fido_failure + 'a) \<times> 't) \<Rightarrow> ('t, 'l, 'a) fido_prog" where
  "client_call env event call = (\<lambda>w. case call (fw_token w) of (r, t) \<Rightarrow>
     (case r of
        Inr x \<Rightarrow> (Inr x, w\<lparr>fw_token := t\<rparr>)
      | Inl f \<Rightarrow>
          if is_fido_failure f
          then thenP (fido_emit env event FAILED [(''reason'', PStr ''ctap'')]) (raiseP (translate f)) (w\<lparr>fw_token := t\<rparr>)
          else (Inl (translate f), w\<lparr>fw_token := t\<rparr>)))"

definition fido_derive :: "('t, 'l) fido_env \<Rightarrow> fido_credential \<Rightarrow> secure_bytes \<Rightarrow> ('t, 'l, secure_bytes) fido_prog" where
  "fido_derive env credential pin =
     thenP (require_token env)
     (bindP (fido_client env) (\<lambda>device.
      bindP (liftP (fc_credential_id credential)) (\<lambda>credential_id.
      bindP (liftP (fc_salt credential)) (\<lambda>salt.
      bindP (client_call env ''fido_derived''
          (fl_get_assertion (fi_lib env) (origin_of env) device (pin_reader pin)
             \<lparr>ro_rp_id = fc_rp_id credential, ro_challenge = fi_challenge env 32, ro_credential_id = credential_id,
              ro_prf_salt = salt\<rparr>)) (\<lambda>extensions.
      case prf_output extensions of
        Some raw \<Rightarrow>
          if length raw \<noteq> TOKEN_SECRET_LEN
          then thenP (fido_emit env ''fido_derived'' FAILED [(''reason'', PStr ''no_prf_output'')]) (raiseP FidoServiceError)
          else thenP (fido_emit env ''fido_derived'' OK []) (retP (sb_from_bytes (fi_mlock env) raw))
      | None \<Rightarrow> thenP (fido_emit env ''fido_derived'' FAILED [(''reason'', PStr ''no_prf_output'')]) (raiseP FidoServiceError))))))"

definition enrolled_credential :: "('t, 'l) fido_env \<Rightarrow> token_info \<Rightarrow> bool \<Rightarrow> bytes \<Rightarrow> fido_credential res" where
  "enrolled_credential env token resident raw_id = check_fido_credential
     \<lparr>fc_credential_id_b64 = b64encode raw_id, fc_salt_b64 = b64encode (fi_salt env PRF_SALT_LEN),
      fc_rp_id = fi_rp_id env, fc_resident = resident, fc_user_verification = True,
      fc_label = or_text (Some (ti_product_name token)) ''Security key''\<rparr>"

definition fido_enroll ::
    "('t, 'l) fido_env \<Rightarrow> secure_bytes \<Rightarrow> str \<Rightarrow> bool \<Rightarrow> ('t, 'l, fido_credential \<times> secure_bytes) fido_prog" where
  "fido_enroll env pin user_label resident =
     bindP (require_token env) (\<lambda>token.
     if \<not> ti_has_pin token then raiseP FidoPinError
     else if resident \<and> \<not> ti_supports_resident_keys token then raiseP FidoServiceError
     else
       bindP (fido_client env) (\<lambda>device.
       bindP (client_call env ''fido_enrolled''
          (fl_make_credential (fi_lib env) (origin_of env) device (pin_reader pin)
             \<lparr>co_rp_id = fi_rp_id env, co_user_id = fi_user_id env 16, co_user_name = user_label,
              co_challenge = fi_challenge env 32, co_algorithms = FIDO_ALGORITHMS,
              co_resident_required = resident\<rparr>)) (\<lambda>registration.
       if \<not> ext_truthy (ext_field (ext_field (rg_extensions registration) ''prf'') ''enabled'')
       then thenP (fido_emit env ''fido_enrolled'' FAILED [(''reason'', PStr ''prf_rejected'')]) (raiseP FidoServiceError)
       else
         bindP (liftP (enrolled_credential env token resident (rg_raw_id registration))) (\<lambda>credential.
         bindP (fido_derive env credential pin) (\<lambda>secret.
         thenP (fido_emit env ''fido_enrolled'' OK [(''resident'', PStr (if resident then ''True'' else ''False''))])
           (retP (credential, secret)))))))"

section \<open>Deriving again\<close>

lemma fido_emit_token:
  assumes "fido_emit env ev oc pl w = (r, w')"
  shows "r = Inr () \<and> fw_token w' = fw_token w"
  using assms by (auto simp: fido_emit_def catchP_def zoomP_def put_fido_audit_def split: prod.splits sum.splits)

lemma then_emit_ret: "\<exists>w'. thenP (fido_emit env ev oc pl) (retP x) w = (Inr x, w') \<and> fw_token w' = fw_token w"
proof -
  obtain r u where u: "fido_emit env ev oc pl w = (r, u)" by fastforce
  note e = fido_emit_token [OF u]
  then have "thenP (fido_emit env ev oc pl) (retP x) w = (Inr x, u)" using u by (simp add: thenP_def bindP_def)
  with e show ?thesis by blast
qed

lemma then_emit_retD: "thenP (fido_emit env ev oc pl) (retP x) w = (Inr y, w') \<Longrightarrow> y = x \<and> fw_token w' = fw_token w"
  using then_emit_ret [of env ev oc pl x w] by auto

lemma then_emit_raise: "fst (thenP (fido_emit env ev oc pl) (raiseP e) w) = Inl e"
  by (cases "fido_emit env ev oc pl w") (auto simp: thenP_def bindP_def dest: fido_emit_token)

lemma then_emit_raises: "thenP (fido_emit env ev oc pl) (raiseP e) w \<noteq> (Inr x, w')"
  by (cases "fido_emit env ev oc pl w") (auto simp: thenP_def bindP_def dest: fido_emit_token)

lemma client_call_Inr:
  "client_call env ev call w = (Inr x, w') \<longleftrightarrow> (\<exists>t. call (fw_token w) = (Inr x, t) \<and> w' = w\<lparr>fw_token := t\<rparr>)"
  by (auto simp: client_call_def then_emit_raises split: prod.splits sum.splits)

text \<open>
  What a token does: asked again for the same credential and salt, with the same PIN, it returns
  the same secret, and an assertion changes neither what is plugged in nor what it says of itself.
\<close>

definition prf_stable :: "'t fido_lib \<Rightarrow> bool" where
  "prf_stable lib \<longleftrightarrow> (\<forall>origin device pin opts t x t'.
     fl_get_assertion lib origin device pin opts t = (Inr x, t') \<longrightarrow>
       fl_devices lib t' = fl_devices lib t \<and> fl_info lib t' = fl_info lib t \<and>
       (\<exists>x' t''. fl_get_assertion lib origin device pin opts t' = (Inr x', t'') \<and> prf_output x' = prf_output x))"

lemma require_token_Inr:
  "require_token env w = (Inr token, w') \<longleftrightarrow> w' = w \<and> fst (fido_probe env (fw_token w)) = Some token \<and> is_usable token"
  by (auto simp: require_token_def split: option.splits)

lemma fido_client_Inr:
  "fido_client env w = (Inr device, w') \<longleftrightarrow> w' = w \<and> (\<exists>ds. fl_devices (fi_lib env) (fw_token w) = Some (device # ds))"
  by (auto simp: fido_client_def split: option.splits list.splits)

lemma fido_derive_Inr:
  assumes "fido_derive env c pin w = (Inr k, w')"
  obtains token device ds cid salt x raw t where
    "fst (fido_probe env (fw_token w)) = Some token" "is_usable token"
    "fl_devices (fi_lib env) (fw_token w) = Some (device # ds)"
    "fc_credential_id c = Inr cid" "fc_salt c = Inr salt"
    "fl_get_assertion (fi_lib env) (origin_of env) device (pin_reader pin)
       \<lparr>ro_rp_id = fc_rp_id c, ro_challenge = fi_challenge env 32, ro_credential_id = cid, ro_prf_salt = salt\<rparr>
       (fw_token w) = (Inr x, t)"
    "prf_output x = Some raw" "length raw = TOKEN_SECRET_LEN" "k = sb_from_bytes (fi_mlock env) raw" "fw_token w' = t"
proof -
  obtain token device ds cid salt x t where r: "fst (fido_probe env (fw_token w)) = Some token" "is_usable token"
    "fl_devices (fi_lib env) (fw_token w) = Some (device # ds)" "fc_credential_id c = Inr cid" "fc_salt c = Inr salt"
    "fl_get_assertion (fi_lib env) (origin_of env) device (pin_reader pin)
       \<lparr>ro_rp_id = fc_rp_id c, ro_challenge = fi_challenge env 32, ro_credential_id = cid, ro_prf_salt = salt\<rparr>
       (fw_token w) = (Inr x, t)"
    and rest: "(case prf_output x of
        Some raw \<Rightarrow>
          if length raw \<noteq> TOKEN_SECRET_LEN
          then thenP (fido_emit env ''fido_derived'' FAILED [(''reason'', PStr ''no_prf_output'')]) (raiseP FidoServiceError)
          else thenP (fido_emit env ''fido_derived'' OK []) (retP (sb_from_bytes (fi_mlock env) raw))
      | None \<Rightarrow> thenP (fido_emit env ''fido_derived'' FAILED [(''reason'', PStr ''no_prf_output'')]) (raiseP FidoServiceError))
      (w\<lparr>fw_token := t\<rparr>) = (Inr k, w')"
    using assms unfolding fido_derive_def thenP_eq_Inr bindP_eq_Inr require_token_Inr fido_client_Inr client_call_Inr
    by (auto simp: prod_eq_iff)
  obtain raw where raw: "prf_output x = Some raw" "length raw = TOKEN_SECRET_LEN"
    "thenP (fido_emit env ''fido_derived'' OK []) (retP (sb_from_bytes (fi_mlock env) raw)) (w\<lparr>fw_token := t\<rparr>) = (Inr k, w')"
    using rest by (auto simp: then_emit_raises split: option.splits if_splits)
  with then_emit_ret [of env "''fido_derived''" OK "[]" "sb_from_bytes (fi_mlock env) raw" "w\<lparr>fw_token := t\<rparr>"]
  have "k = sb_from_bytes (fi_mlock env) raw" "fw_token w' = t" by auto
  with that r raw show thesis by blast
qed

text \<open>Whatever a token answered once, it answers again.\<close>

lemma derive_again:
  assumes "fido_derive env c pin w = (Inr k, w')" "prf_stable (fi_lib env)" "fw_token v = fw_token w'"
  shows "\<exists>k' v'. fido_derive env c pin v = (Inr k', v') \<and> key_bytes k' = key_bytes k \<and> usable_key k'"
proof -
  from assms(1) obtain token device ds cid salt x raw t where r:
    "fst (fido_probe env (fw_token w)) = Some token" "is_usable token"
    "fl_devices (fi_lib env) (fw_token w) = Some (device # ds)"
    "fc_credential_id c = Inr cid" "fc_salt c = Inr salt"
    "fl_get_assertion (fi_lib env) (origin_of env) device (pin_reader pin)
       \<lparr>ro_rp_id = fc_rp_id c, ro_challenge = fi_challenge env 32, ro_credential_id = cid, ro_prf_salt = salt\<rparr>
       (fw_token w) = (Inr x, t)"
    "prf_output x = Some raw" "length raw = TOKEN_SECRET_LEN" "k = sb_from_bytes (fi_mlock env) raw" "fw_token w' = t"
    by (rule fido_derive_Inr)
  from assms(2) [unfolded prf_stable_def, rule_format, OF r(6)] obtain x' t'' where again:
    "fl_devices (fi_lib env) t = fl_devices (fi_lib env) (fw_token w)" "fl_info (fi_lib env) t = fl_info (fi_lib env) (fw_token w)"
    "fl_get_assertion (fi_lib env) (origin_of env) device (pin_reader pin)
       \<lparr>ro_rp_id = fc_rp_id c, ro_challenge = fi_challenge env 32, ro_credential_id = cid, ro_prf_salt = salt\<rparr> t = (Inr x', t'')"
    "prf_output x' = Some raw" using r(7) by auto
  have v: "fw_token v = t" using assms(3) r(10) by simp
  have "fido_probe env t = fido_probe env (fw_token w)"
    unfolding fido_probe_def again(1,2) ..
  then have "fst (fido_probe env (fw_token v)) = Some token" using r(1) v by simp
  then have "require_token env v = (Inr token, v)" using r(2) by (simp add: require_token_Inr)
  moreover have "fido_client env v = (Inr device, v)" using r(3) again(1) v by (simp add: fido_client_Inr)
  moreover obtain call where call: "call = client_call env ''fido_derived'' (fl_get_assertion (fi_lib env) (origin_of env)
      device (pin_reader pin) \<lparr>ro_rp_id = fc_rp_id c, ro_challenge = fi_challenge env 32, ro_credential_id = cid,
      ro_prf_salt = salt\<rparr>)" by blast
  moreover have "call v = (Inr x', v\<lparr>fw_token := t''\<rparr>)" using again(3) v call by (simp add: client_call_Inr)
  ultimately obtain v' where "fido_derive env c pin v = (Inr (sb_from_bytes (fi_mlock env) raw), v')"
    using then_emit_ret [of env "''fido_derived''" OK "[]" "sb_from_bytes (fi_mlock env) raw" "v\<lparr>fw_token := t''\<rparr>"]
      r(4,5,8) again(4)
    by (auto simp: fido_derive_def thenP_def [of "require_token env"] bindP_run bindP_lift call)
  then show ?thesis using r(8,9) by (simp add: usable_key_def key_bytes_def sb_from_bytes_eq TOKEN_SECRET_LEN_def)
qed

lemma fido_enroll_Inr:
  assumes "fido_enroll env pin label resident w = (Inr (c, k), w')"
  shows "check_fido_credential c = Inr c \<and>
    (\<exists>u u'. fido_derive env c pin u = (Inr k, u') \<and> fw_token w' = fw_token u')"
proof -
  obtain token and reg :: registration and u u' where r: "enrolled_credential env token resident (rg_raw_id reg) = Inr c"
    "fido_derive env c pin u = (Inr k, u')" "fw_token w' = fw_token u'"
    using assms unfolding fido_enroll_def
    by (auto simp: bindP_eq_Inr then_emit_raises split: if_splits dest!: then_emit_retD)
  have "check_fido_credential c = Inr c"
    using r(1) by (auto simp: enrolled_credential_def check_fido_credential_def split: if_splits)
  then show ?thesis using r(2,3) by blast
qed


text \<open>A derived secret always has the length of a key.\<close>

lemma derived_secret_usable: "fido_derive env c pin w = (Inr k, w') \<Longrightarrow> usable_key k"
  by (auto simp: usable_key_def TOKEN_SECRET_LEN_def elim!: fido_derive_Inr)

section \<open>Telling failures apart\<close>

text \<open>
  Only the statuses about the PIN are a PIN error, and these, like a missed touch, end the
  search through the slots: no other slot costs another attempt.
\<close>

lemma pin_error_iff: "translate_status s = FidoPinError \<longleftrightarrow>
    s \<in> {PIN_INVALID, PIN_AUTH_INVALID, PIN_AUTH_BLOCKED, PIN_BLOCKED, PIN_NOT_SET, PIN_POLICY_VIOLATION}"
  by (cases s) simp_all

lemma fatal_status_iff: "is_fatal_token_error (translate_status s) \<longleftrightarrow>
    s \<notin> {NO_CREDENTIALS, INVALID_CREDENTIAL} \<and> (\<forall>n. s \<noteq> OtherStatus n)"
  by (cases s) (simp_all add: is_fatal_token_error_def)

lemma translated_service_error: "is_fido_failure f \<Longrightarrow> is_service_error (translate f)"
proof (induction f rule: translate.induct)
  case (1 s)
  then show ?case by (cases s) simp_all
next
  case (2 c s)
  then show ?case by (cases s) simp_all
next
  case (3 c)
  then show ?case by (cases c) simp_all
qed simp

text \<open>A product name longer than the label of a slot: the credential is on the token, and then refused.\<close>

lemma long_product_name_refused:
  assumes "py_len (ti_product_name token) > MAX_UNLOCK_SLOT_LABEL_LENGTH"
  shows "\<exists>e. enrolled_credential env token resident raw = Inl e"
proof -
  have "ti_product_name token \<noteq> []" using assms by (auto simp: py_len_def)
  then show ?thesis
    using assms
    by (cases "validate_credential_id (b64encode raw)"; cases "validate_prf_salt (b64encode (fi_salt env PRF_SALT_LEN))")
      (simp_all add: enrolled_credential_def check_fido_credential_def or_text_def)
qed

section \<open>A token\<close>

definition demo_lib :: "nat fido_lib" where
  "demo_lib = \<lparr>fl_devices = (\<lambda>t. Some [\<lparr>hd_product_name = Some ''Key''\<rparr>]),
     fl_info = (\<lambda>t d. Some \<lparr>ci_options = [(''clientPin'', True), (''rk'', True)], ci_extensions = [''hmac-secret'']\<rparr>),
     fl_make_credential = (\<lambda>og d pin co t. (Inr \<lparr>rg_raw_id = ''id'',
        rg_extensions = ExtFields [(''prf'', ExtFields [(''enabled'', ExtBool True)])]\<rparr>, Suc t)),
     fl_get_assertion = (\<lambda>og d pin ro t. (Inr (ExtFields [(''prf'', ExtFields [(''results'',
        ExtFields [(''first'', ExtBytes (replicate 32 (CHR 0x07)))])])]), Suc t))\<rparr>"

definition demo_fido :: "(nat, str list) fido_env" where
  "demo_fido = \<lparr>fi_lib = demo_lib, fi_rp_id = RP_ID, fi_emit = (\<lambda>ev oc pl l. (Inr (), l @ [ev])),
     fi_user_id = demo_draw, fi_challenge = demo_draw, fi_salt = (\<lambda>n. replicate n (CHR 0x01)), fi_mlock = True\<rparr>"

lemma demo_prf_stable: "prf_stable (fi_lib demo_fido)"
  by (simp add: prf_stable_def demo_fido_def demo_lib_def)

lemma demo_enrols: "(case fst (fido_enroll demo_fido demo_passphrase ''Alice'' True \<lparr>fw_token = 0, fw_audit = []\<rparr>) of
    Inl e \<Rightarrow> False | Inr (c, k) \<Rightarrow> key_bytes k = replicate 32 (CHR 0x07))"
  by code_simp

definition fido_app :: "(listed_key list, str list, (nat, str list) fido_world) app_env" where
  "fido_app = \<lparr>ae_gpg = demo_genv [], ae_store = demo_senv, ae_emit = (\<lambda>ev out pl l. (Inr (), l @ [ev])),
     ae_enroll = (\<lambda>pin user t. (Inl FidoUnavailableError, t)), ae_derive = (\<lambda>cred pin t. (Inl FidoUnavailableError, t)),
     ae_crypto = demo_crypto, ae_kdf = demo_params, ae_secret = demo_draw, ae_salt = demo_draw, ae_nonce = demo_draw,
     ae_token_nonce = demo_draw, ae_has_metadata = True, ae_has_unlock = True\<rparr>"


end
