(* ===== verification/Gpg_Detector.thy ===== *)
theory Gpg_Detector
  imports Files Gpg_Output
begin

unbundle bit_operations_syntax

text \<open>
  \<open>startup/gpg_detector.py\<close>: which GnuPG binary the program is willing to run.
  The host is a snapshot of what \<open>resolve\<close>, \<open>stat\<close>, \<open>read\<close> and \<open>shutil.which\<close> see; a path is
  what \<open>pathlib\<close> keeps of it, its components (case folded on Windows, where paths compare that way)
  and whether it is absolute. \<open>hexdigest\<close> of SHA-256 is a parameter.
  The lemmas show that an accepted binary and every directory above it can be written by its owner
  only, that it is at a whitelisted path and root's or pinned by path, hash and identity, and which
  entry of the whitelist decides.
\<close>

section \<open>Paths and the host\<close>

datatype platform = Win32 | Darwin | Linux

record pure_path =
  pp_absolute :: bool
  pp_parts :: "str list"

definition path_separators :: "str \<Rightarrow> str" where
  "path_separators s = map (\<lambda>c. if c = CHR ''/'' then CHR 0x5C else c) (lower s)"

definition parts_of :: "char \<Rightarrow> str \<Rightarrow> str list" where
  "parts_of sep s = filter (\<lambda>w. w \<noteq> [] \<and> w \<noteq> ''.'') (split_on sep s)"

lemma parts_of_join:
  assumes "list_all (\<lambda>w. w \<noteq> [] \<and> w \<noteq> ''.'' \<and> d \<notin> set w) ws" "ws \<noteq> []"
  shows "parts_of d (join_with [d] ws) = ws"
proof -
  have "split_on d (join_with [d] ws) = ws"
    using assms by (intro split_on_join) (auto simp: list_all_iff)
  then show ?thesis using assms(1) by (auto simp: parts_of_def list_all_iff intro!: filter_True)
qed

definition read_path :: "platform \<Rightarrow> str \<Rightarrow> pure_path" where
  "read_path pf s =
     (if pf = Win32
      then \<lparr>pp_absolute = (take 2 (drop 1 (path_separators s)) = [CHR '':'', CHR 0x5C]),
            pp_parts = parts_of (CHR 0x5C) (path_separators s)\<rparr>
      else \<lparr>pp_absolute = (take 1 s = ''/''), pp_parts = parts_of (CHR ''/'') s\<rparr>)"

definition parent :: "pure_path \<Rightarrow> pure_path" where
  "parent p = p\<lparr>pp_parts := butlast (pp_parts p)\<rparr>"

text \<open>\<open>os.path.normpath\<close>: two dots take back the component before them.\<close>

fun norm_parts :: "bool \<Rightarrow> str list \<Rightarrow> str list \<Rightarrow> str list" where
  "norm_parts ab acc [] = rev acc"
| "norm_parts ab acc (w # ws) =
     (if w \<noteq> ''..'' then norm_parts ab (w # acc) ws
      else (case acc of
          [] \<Rightarrow> if ab then norm_parts ab [] ws else norm_parts ab [w] ws
        | v # vs \<Rightarrow> if v = ''..'' then norm_parts ab (w # acc) ws else norm_parts ab vs ws))"

definition normpath :: "pure_path \<Rightarrow> pure_path" where
  "normpath p = p\<lparr>pp_parts := norm_parts (pp_absolute p) [] (pp_parts p)\<rparr>"

record file_stat =
  st_mode :: nat
  st_uid :: nat
  st_dev :: nat
  st_ino :: nat

record host =
  h_platform :: platform
  h_resolve :: "pure_path \<Rightarrow> pure_path option"
  h_stat :: "pure_path \<Rightarrow> file_stat option"
  h_read :: "pure_path \<Rightarrow> bytes option"
  h_sha256 :: "bytes \<Rightarrow> str"
  h_which :: "str \<Rightarrow> str option"
  h_gnupghome :: "str option"

section \<open>The whitelists\<close>

definition LINUX_WHITELIST :: "str list" where
  "LINUX_WHITELIST =
     [''/usr/bin/gpg'', ''/usr/bin/gpg2'', ''/usr/local/bin/gpg'', ''/usr/local/bin/gpg2'',
      ''/bin/gpg'', ''/snap/bin/gpg'', ''/app/bin/gpg'', ''/app/bin/gpg2'']"

definition MACOS_WHITELIST :: "str list" where
  "MACOS_WHITELIST =
     [''/usr/local/bin/gpg'', ''/usr/local/bin/gpg2'', ''/opt/homebrew/bin/gpg'',
      ''/opt/homebrew/bin/gpg2'', ''/usr/local/MacGPG2/bin/gpg2'']"

definition backslashed :: "str list \<Rightarrow> str" where
  "backslashed ws = join_with [CHR 0x5C] ws"

definition WINDOWS_WHITELIST :: "str list" where
  "WINDOWS_WHITELIST =
     [backslashed [''C:'', ''Program Files'', ''GnuPG'', ''bin'', ''gpg.exe''],
      backslashed [''C:'', ''Program Files (x86)'', ''GnuPG'', ''bin'', ''gpg.exe''],
      backslashed [''C:'', ''Program Files'', ''Git'', ''usr'', ''bin'', ''gpg.exe'']]"

definition platform_whitelist :: "platform \<Rightarrow> pure_path list" where
  "platform_whitelist pf = map (read_path pf)
     (case pf of Win32 \<Rightarrow> WINDOWS_WHITELIST | Darwin \<Rightarrow> MACOS_WHITELIST | Linux \<Rightarrow> LINUX_WHITELIST)"

definition literal_whitelist :: "platform \<Rightarrow> pure_path set" where
  "literal_whitelist pf = set (map normpath (platform_whitelist pf))"

section \<open>Outcomes\<close>

datatype detection_reason =
    GPG_NOT_FOUND
  | WHITELISTED
  | USER_OVERRIDE_TRUSTED
  | USER_OVERRIDE_UNTRUSTED
  | HASH_MISMATCH
  | BINARY_WRITABLE
  | PARENT_WRITABLE
  | TRUST_PATH_MISMATCH
  | IDENTITY_MISMATCH
  | NOT_ROOT_OWNED

text \<open>
  Apart from its own error, with the path and the hash it carries for the dialog, the detector lets
  the \<open>OSError\<close> of a \<open>stat\<close> or of an \<open>open\<close> escape.
\<close>

datatype detect_error =
    GPGDetectionError detection_reason "pure_path option" "str option"
  | UncaughtOSError

type_synonym 'a detection = "detect_error + 'a"

definition bindD :: "'a detection \<Rightarrow> ('a \<Rightarrow> 'b detection) \<Rightarrow> 'b detection" where
  "bindD m f = (case m of Inl e \<Rightarrow> Inl e | Inr x \<Rightarrow> f x)"

lemma bindD_simps [simp]: "bindD (Inl e) f = Inl e" "bindD (Inr x) f = f x"
  by (simp_all add: bindD_def)

lemma bindD_eq_Inr [simp]: "bindD m f = Inr y \<longleftrightarrow> (\<exists>x. m = Inr x \<and> f x = Inr y)"
  by (cases m) auto

record detected_gpg =
  dg_path :: pure_path
  dg_sha256 :: str
  dg_is_whitelisted :: bool
  dg_is_root_owned :: bool
  dg_device :: "nat option"
  dg_inode :: "nat option"

record trust_pin =
  tp_hash :: "str option"
  tp_path :: "str option"
  tp_device :: "nat option"
  tp_inode :: "nat option"

section \<open>The checks\<close>

definition open_to_others :: "nat \<Rightarrow> bool" where
  "open_to_others mode \<longleftrightarrow> mode AND (S_IWGRP OR S_IWOTH) \<noteq> 0"

definition is_world_or_group_writable :: "host \<Rightarrow> pure_path \<Rightarrow> bool detection" where
  "is_world_or_group_writable h p =
     (if h_platform h = Win32 then Inr False
      else (case h_stat h p of
          None \<Rightarrow> Inl UncaughtOSError
        | Some st \<Rightarrow> Inr (open_to_others (st_mode st))))"

definition hash_file :: "host \<Rightarrow> pure_path \<Rightarrow> str detection" where
  "hash_file h p = (case h_read h p of None \<Rightarrow> Inl UncaughtOSError | Some b \<Rightarrow> Inr (h_sha256 h b))"

definition canonicalise :: "host \<Rightarrow> pure_path \<Rightarrow> pure_path detection" where
  "canonicalise h p = (case h_resolve h p of
       None \<Rightarrow> Inl (GPGDetectionError GPG_NOT_FOUND None None)
     | Some q \<Rightarrow> Inr q)"

definition check_writability :: "host \<Rightarrow> pure_path \<Rightarrow> unit detection" where
  "check_writability h p = bindD (is_world_or_group_writable h p) (\<lambda>w.
     if w then Inl (GPGDetectionError BINARY_WRITABLE None None) else Inr ())"

text \<open>The loop climbs from the parent to the root, which is its own parent.\<close>

function check_directories :: "host \<Rightarrow> pure_path \<Rightarrow> unit detection" where
  "check_directories h current = bindD (is_world_or_group_writable h current) (\<lambda>w.
     if w then Inl (GPGDetectionError PARENT_WRITABLE None None)
     else if parent current = current then Inr ()
     else check_directories h (parent current))"
  by pat_completeness auto
termination
proof (relation "measure (\<lambda>(h, p). length (pp_parts p))")
  fix h :: host and current :: pure_path and x :: bool
  assume "parent current \<noteq> current"
  then have "pp_parts current \<noteq> []" by (auto simp: parent_def)
  then show "((h, parent current), h, current) \<in> measure (\<lambda>(h, p). length (pp_parts p))"
    by (simp add: parent_def)
qed simp

declare check_directories.simps [simp del]

definition check_parent_writability :: "host \<Rightarrow> pure_path \<Rightarrow> unit detection" where
  "check_parent_writability h p =
     (if h_platform h = Win32 then Inr () else check_directories h (parent p))"

definition check_root_owned :: "host \<Rightarrow> pure_path \<Rightarrow> bool" where
  "check_root_owned h p \<longleftrightarrow> h_platform h \<noteq> Win32 \<and>
     (case h_stat h p of None \<Rightarrow> False | Some st \<Rightarrow> st_uid st = 0)"

definition identity_of :: "host \<Rightarrow> pure_path \<Rightarrow> nat option \<times> nat option" where
  "identity_of h p =
     (if h_platform h = Win32 then (None, None)
      else (case h_stat h p of None \<Rightarrow> (None, None) | Some st \<Rightarrow> (Some (st_dev st), Some (st_ino st))))"

section \<open>Detection\<close>

definition accept_whitelisted :: "host \<Rightarrow> pure_path \<Rightarrow> str \<Rightarrow> detected_gpg detection" where
  "accept_whitelisted h p sha =
     (if \<not> check_root_owned h p \<and> h_platform h \<noteq> Win32
      then Inl (GPGDetectionError NOT_ROOT_OWNED (Some p) (Some sha))
      else Inr \<lparr>dg_path = p, dg_sha256 = sha, dg_is_whitelisted = True,
        dg_is_root_owned = check_root_owned h p,
        dg_device = fst (identity_of h p), dg_inode = snd (identity_of h p)\<rparr>)"

definition differs :: "nat option \<Rightarrow> nat option \<Rightarrow> bool" where
  "differs trusted found \<longleftrightarrow> (case (trusted, found) of (Some a, Some b) \<Rightarrow> b \<noteq> a | _ \<Rightarrow> False)"

definition verify_trust_pin ::
    "host \<Rightarrow> pure_path \<Rightarrow> str \<Rightarrow> nat option \<times> nat option \<Rightarrow> trust_pin \<Rightarrow> unit detection" where
  "verify_trust_pin h p sha ident pin =
     (let fail = (\<lambda>r. Inl (GPGDetectionError r (Some p) (Some sha))) in
      case tp_hash pin of None \<Rightarrow> fail USER_OVERRIDE_UNTRUSTED
      | Some trusted_hash \<Rightarrow>
       (case tp_path pin of None \<Rightarrow> fail TRUST_PATH_MISMATCH
        | Some trusted_path \<Rightarrow>
            bindD (canonicalise h (read_path (h_platform h) trusted_path)) (\<lambda>canonical.
            if canonical \<noteq> p then fail TRUST_PATH_MISMATCH
            else if lower trusted_hash \<noteq> lower sha then fail HASH_MISMATCH
            else if differs (tp_device pin) (fst ident) then fail IDENTITY_MISMATCH
            else if differs (tp_inode pin) (snd ident) then fail IDENTITY_MISMATCH
            else Inr ())))"

definition detect_user_override :: "host \<Rightarrow> pure_path \<Rightarrow> trust_pin \<Rightarrow> detected_gpg detection" where
  "detect_user_override h override_path pin =
     bindD (canonicalise h override_path) (\<lambda>p.
     bindD (check_writability h p) (\<lambda>_.
     bindD (check_parent_writability h p) (\<lambda>_.
     bindD (hash_file h p) (\<lambda>sha.
     if p \<in> literal_whitelist (h_platform h) then accept_whitelisted h p sha
     else bindD (verify_trust_pin h p sha (identity_of h p) pin) (\<lambda>_.
       Inr \<lparr>dg_path = p, dg_sha256 = sha, dg_is_whitelisted = False,
         dg_is_root_owned = check_root_owned h p,
         dg_device = fst (identity_of h p), dg_inode = snd (identity_of h p)\<rparr>)))))"

definition vet_entry :: "host \<Rightarrow> pure_path \<Rightarrow> detected_gpg detection" where
  "vet_entry h p =
     bindD (check_writability h p) (\<lambda>_.
     bindD (check_parent_writability h p) (\<lambda>_.
     bindD (hash_file h p) (accept_whitelisted h p)))"

fun first_entry :: "host \<Rightarrow> pure_path list \<Rightarrow> detected_gpg detection" where
  "first_entry h [] = Inl (GPGDetectionError GPG_NOT_FOUND None None)"
| "first_entry h (entry # rest) =
     (if h_stat h entry = None then first_entry h rest
      else bindD (canonicalise h entry) (\<lambda>p.
        if p \<notin> literal_whitelist (h_platform h) then first_entry h rest
        else vet_entry h p))"

definition detect_from_whitelist :: "host \<Rightarrow> detected_gpg detection" where
  "detect_from_whitelist h = first_entry h (platform_whitelist (h_platform h))"

definition detect_gpg :: "host \<Rightarrow> str option \<Rightarrow> trust_pin \<Rightarrow> detected_gpg detection" where
  "detect_gpg h user_override_path pin = (case user_override_path of
       Some (c # cs) \<Rightarrow> detect_user_override h (read_path (h_platform h) (c # cs)) pin
     | _ \<Rightarrow> detect_from_whitelist h)"

section \<open>The set-up dialog\<close>

definition candidates_from_path :: "host \<Rightarrow> pure_path list" where
  "candidates_from_path h =
     concat (map (\<lambda>name. case h_which h name of
          Some (c # cs) \<Rightarrow> [read_path (h_platform h) (c # cs)] | _ \<Rightarrow> [])
       (if h_platform h = Win32 then [''gpg.exe'', ''gpg2.exe''] else [''gpg2'', ''gpg'']))"

record gpg_diagnostics =
  gd_platform :: platform
  gd_whitelist :: "pure_path list"
  gd_whitelist_present :: "pure_path list"
  gd_path_candidates :: "pure_path list"
  gd_env_gnupghome_set :: bool

definition diagnostics :: "host \<Rightarrow> gpg_diagnostics" where
  "diagnostics h = \<lparr>gd_platform = h_platform h,
     gd_whitelist = platform_whitelist (h_platform h),
     gd_whitelist_present = filter (\<lambda>p. h_stat h p \<noteq> None) (platform_whitelist (h_platform h)),
     gd_path_candidates = candidates_from_path h,
     gd_env_gnupghome_set = (case h_gnupghome h of None \<Rightarrow> False | Some v \<Rightarrow> v \<noteq> [])\<rparr>"

section \<open>What is accepted\<close>

definition owner_writes_only :: "host \<Rightarrow> pure_path \<Rightarrow> bool" where
  "owner_writes_only h p \<longleftrightarrow> (\<exists>st. h_stat h p = Some st \<and> \<not> open_to_others (st_mode st))"

definition above :: "pure_path \<Rightarrow> nat \<Rightarrow> pure_path" where
  "above p n = p\<lparr>pp_parts := take n (pp_parts p)\<rparr>"

definition pinned_as :: "host \<Rightarrow> pure_path \<Rightarrow> str \<Rightarrow> trust_pin \<Rightarrow> bool" where
  "pinned_as h p sha pin \<longleftrightarrow>
     (\<exists>hash text_path. tp_hash pin = Some hash \<and> lower hash = lower sha \<and>
        tp_path pin = Some text_path \<and> h_resolve h (read_path (h_platform h) text_path) = Some p \<and>
        (\<forall>d \<in> set_option (tp_device pin). \<forall>d' \<in> set_option (fst (identity_of h p)). d' = d) \<and>
        (\<forall>i \<in> set_option (tp_inode pin). \<forall>i' \<in> set_option (snd (identity_of h p)). i' = i))"

lemma is_writable_Inr: "h_platform h \<noteq> Win32 \<Longrightarrow>
    is_world_or_group_writable h p = Inr False \<longleftrightarrow> owner_writes_only h p"
  by (auto simp: is_world_or_group_writable_def owner_writes_only_def split: option.splits)

lemma check_writability_Inr: "h_platform h \<noteq> Win32 \<Longrightarrow>
    check_writability h p = Inr () \<longleftrightarrow> owner_writes_only h p"
  by (auto simp: check_writability_def is_writable_Inr[symmetric] split: if_splits)

lemma parent_above: "parent (above p n) = above p (min n (length (pp_parts p)) - 1)"
  by (simp add: parent_def above_def butlast_conv_take min.commute)

lemma above_all: "above p (length (pp_parts p)) = p"
  by (simp add: above_def)

lemma above_inj: "n \<le> length (pp_parts p) \<Longrightarrow> m \<le> length (pp_parts p) \<Longrightarrow> above p n = above p m \<Longrightarrow> n = m"
  by (auto simp: above_def dest: arg_cong [where f = "\<lambda>q. length (pp_parts q)"])

text \<open>The climb from a directory looks at it and at everything above it.\<close>

lemma check_directories_above:
  assumes posix: "h_platform h \<noteq> Win32" and n: "n \<le> length (pp_parts p)"
  shows "check_directories h (above p n) = Inr () \<longleftrightarrow> (\<forall>k \<le> n. owner_writes_only h (above p k))"
  using n
proof (induction n)
  case 0
  have "parent (above p 0) = above p 0" by (simp add: parent_above)
  then show ?case
    by (subst check_directories.simps) (auto simp: is_writable_Inr [OF posix] split: if_splits)
next
  case (Suc n)
  have up: "parent (above p (Suc n)) = above p n" using Suc.prems by (simp add: parent_above min_def)
  have "above p n \<noteq> above p (Suc n)" using above_inj [of n p "Suc n"] Suc.prems by auto
  then show ?case
    using Suc is_writable_Inr [OF posix, of "above p (Suc n)"]
    by (subst check_directories.simps) (auto simp: up le_Suc_eq split: if_splits)
qed

lemma check_parent_Inr:
  assumes "h_platform h \<noteq> Win32"
  shows "check_parent_writability h p = Inr () \<longleftrightarrow>
    (\<forall>k \<le> length (pp_parts p) - 1. owner_writes_only h (above p k))"
proof -
  have "parent p = above p (length (pp_parts p) - 1)"
    using parent_above [of p "length (pp_parts p)"] by (simp add: above_all)
  then show ?thesis
    using check_directories_above [OF assms, of "length (pp_parts p) - 1" p] assms
    by (simp add: check_parent_writability_def)
qed

text \<open>Together with the binary itself: the whole chain from the root down.\<close>

definition chain_owned :: "host \<Rightarrow> pure_path \<Rightarrow> bool" where
  "chain_owned h p \<longleftrightarrow> (\<forall>k \<le> length (pp_parts p). owner_writes_only h (above p k))"

lemma chain_checked:
  assumes "h_platform h \<noteq> Win32" "check_writability h p = Inr ()" "check_parent_writability h p = Inr ()"
  shows "chain_owned h p"
  unfolding chain_owned_def
proof (intro allI impI)
  fix k assume "k \<le> length (pp_parts p)"
  then consider "k = length (pp_parts p)" | "k \<le> length (pp_parts p) - 1" by linarith
  then show "owner_writes_only h (above p k)"
    using assms check_writability_Inr [OF assms(1), of p] check_parent_Inr [OF assms(1), of p]
    by cases (auto simp: above_all)
qed

lemma hash_file_Inr [simp]: "hash_file h p = Inr sha \<longleftrightarrow> (\<exists>b. h_read h p = Some b \<and> sha = h_sha256 h b)"
  by (auto simp: hash_file_def split: option.splits)

lemma canonicalise_Inr [simp]: "canonicalise h p = Inr q \<longleftrightarrow> h_resolve h p = Some q"
  by (auto simp: canonicalise_def split: option.splits)

lemma bind_unit: "bindD m f = Inr y \<longleftrightarrow> m = Inr () \<and> f () = Inr y" for m :: "unit detection"
  by auto

lemma bind_hash: "bindD (hash_file h p) f = Inr y \<longleftrightarrow> (\<exists>b. h_read h p = Some b \<and> f (h_sha256 h b) = Inr y)"
  by auto

lemma bind_canonicalise: "bindD (canonicalise h p) f = Inr y \<longleftrightarrow> (\<exists>q. h_resolve h p = Some q \<and> f q = Inr y)"
  by auto

lemma accept_whitelisted_Inr:
  "accept_whitelisted h p sha = Inr g \<longleftrightarrow> (h_platform h \<noteq> Win32 \<longrightarrow> check_root_owned h p) \<and>
     g = \<lparr>dg_path = p, dg_sha256 = sha, dg_is_whitelisted = True, dg_is_root_owned = check_root_owned h p,
        dg_device = fst (identity_of h p), dg_inode = snd (identity_of h p)\<rparr>"
  by (auto simp: accept_whitelisted_def)

lemma verify_trust_pin_Inr:
  "verify_trust_pin h p sha (identity_of h p) pin = Inr () \<longleftrightarrow> pinned_as h p sha pin"
  by (auto simp: verify_trust_pin_def pinned_as_def differs_def Let_def split: option.splits if_splits)

lemma vet_entry_Inr:
  assumes "vet_entry h p = Inr g"
  shows "check_writability h p = Inr ()" "check_parent_writability h p = Inr ()"
    "\<exists>b. h_read h p = Some b \<and> accept_whitelisted h p (h_sha256 h b) = Inr g"
  using assms by (auto simp: vet_entry_def)

lemma first_entry_Inr:
  assumes "first_entry h es = Inr g"
  shows "\<exists>e \<in> set es. \<exists>p. h_resolve h e = Some p \<and> p \<in> literal_whitelist (h_platform h) \<and> vet_entry h p = Inr g"
  using assms by (induction es) (auto split: if_splits)

text \<open>The cases of an accepted binary, shared by the statements below.\<close>

lemma detect_gpg_Inr:
  assumes "detect_gpg h ov pin = Inr g"
  obtains (listed) p b where "p \<in> literal_whitelist (h_platform h)"
      "check_writability h p = Inr ()" "check_parent_writability h p = Inr ()"
      "h_read h p = Some b" "accept_whitelisted h p (h_sha256 h b) = Inr g"
    | (pinned) p b c cs where "ov = Some (c # cs)" "h_resolve h (read_path (h_platform h) (c # cs)) = Some p"
      "check_writability h p = Inr ()" "check_parent_writability h p = Inr ()"
      "h_read h p = Some b" "p \<notin> literal_whitelist (h_platform h)" "pinned_as h p (h_sha256 h b) pin"
      "g = \<lparr>dg_path = p, dg_sha256 = h_sha256 h b, dg_is_whitelisted = False,
         dg_is_root_owned = check_root_owned h p,
         dg_device = fst (identity_of h p), dg_inode = snd (identity_of h p)\<rparr>"
proof (cases ov)
  case None
  then have "first_entry h (platform_whitelist (h_platform h)) = Inr g"
    using assms by (simp add: detect_gpg_def detect_from_whitelist_def)
  from first_entry_Inr [OF this] show thesis using listed vet_entry_Inr by blast
next
  case (Some s)
  show thesis
  proof (cases s)
    case Nil
    then have "first_entry h (platform_whitelist (h_platform h)) = Inr g"
      using assms Some by (simp add: detect_gpg_def detect_from_whitelist_def)
    from first_entry_Inr [OF this] show thesis using listed vet_entry_Inr by blast
  next
    case (Cons c cs)
    then have "detect_user_override h (read_path (h_platform h) (c # cs)) pin = Inr g"
      using assms Some by (simp add: detect_gpg_def)
    then obtain p b where r: "h_resolve h (read_path (h_platform h) (c # cs)) = Some p"
        "check_writability h p = Inr ()" "check_parent_writability h p = Inr ()" "h_read h p = Some b"
      and g: "(if p \<in> literal_whitelist (h_platform h) then accept_whitelisted h p (h_sha256 h b)
         else bindD (verify_trust_pin h p (h_sha256 h b) (identity_of h p) pin) (\<lambda>_.
           Inr \<lparr>dg_path = p, dg_sha256 = h_sha256 h b, dg_is_whitelisted = False,
             dg_is_root_owned = check_root_owned h p,
             dg_device = fst (identity_of h p), dg_inode = snd (identity_of h p)\<rparr>)) = Inr g"
      unfolding detect_user_override_def bind_canonicalise bind_unit bind_hash by blast
    show thesis
    proof (cases "p \<in> literal_whitelist (h_platform h)")
      case True
      with g r show thesis by (intro listed) simp_all
    next
      case False
      then have "pinned_as h p (h_sha256 h b) pin" "Inr \<lparr>dg_path = p, dg_sha256 = h_sha256 h b, dg_is_whitelisted = False,
             dg_is_root_owned = check_root_owned h p,
             dg_device = fst (identity_of h p), dg_inode = snd (identity_of h p)\<rparr> = (Inr g :: detected_gpg detection)"
        using g by (simp_all add: verify_trust_pin_Inr)
      with False r Some Cons show thesis by (intro pinned) auto
    qed
  qed
qed

text \<open>
  C5. A binary the detector accepts on a POSIX system can be written by its owner only, and so
  can every directory on the way to it; its recorded hash is that of what it holds; and it is
  either at a path of the literal whitelist and owned by root, or named by the user's override and
  pinned: the pin's hash is the binary's, the pin's path resolves to it, and the recorded device
  and inode, where there are any, are the file's.
\<close>

theorem detected_binary_vetted:
  assumes "detect_gpg h ov pin = Inr g" "h_platform h \<noteq> Win32"
  shows "chain_owned h (dg_path g) \<and>
    (\<exists>b. h_read h (dg_path g) = Some b \<and> dg_sha256 g = h_sha256 h b) \<and>
    (if dg_is_whitelisted g
     then dg_path g \<in> literal_whitelist (h_platform h) \<and> check_root_owned h (dg_path g)
     else (\<exists>c cs. ov = Some (c # cs) \<and> h_resolve h (read_path (h_platform h) (c # cs)) = Some (dg_path g)) \<and>
       pinned_as h (dg_path g) (dg_sha256 g) pin)"
  using assms(1)
proof (cases rule: detect_gpg_Inr)
  case (listed p b)
  then show ?thesis using assms(2) chain_checked by (auto simp: accept_whitelisted_Inr)
next
  case (pinned p b c cs)
  then show ?thesis using assms(2) chain_checked by auto
qed

text \<open>
  The entry that decides: the first one that exists and either cannot be resolved or leads to the
  literal whitelist. What it is refused for is the outcome; no later entry is tried.
\<close>

definition decides :: "host \<Rightarrow> pure_path \<Rightarrow> bool" where
  "decides h e \<longleftrightarrow> h_stat h e \<noteq> None \<and>
     (case h_resolve h e of None \<Rightarrow> True | Some p \<Rightarrow> p \<in> literal_whitelist (h_platform h))"

lemma first_entry_find:
  "first_entry h es = (case find (decides h) es of
       None \<Rightarrow> Inl (GPGDetectionError GPG_NOT_FOUND None None)
     | Some e \<Rightarrow> bindD (canonicalise h e) (vet_entry h))"
  by (induction es) (auto simp: decides_def canonicalise_def split: option.splits)

text \<open>
  An entry of the whitelist that is a symbolic link out of it is passed over, however the
  whitelist goes on.
\<close>

lemma link_out_of_whitelist_skipped:
  assumes "h_resolve h e = Some p" "p \<notin> literal_whitelist (h_platform h)"
  shows "first_entry h (e # es) = first_entry h es"
  using assms by (simp add: canonicalise_def)

text \<open>A pin that fits is enough: the override is accepted.\<close>

lemma pinned_binary_accepted:
  assumes "h_resolve h (read_path (h_platform h) (c # cs)) = Some p" "chain_owned h p"
    "h_platform h \<noteq> Win32" "h_read h p = Some b" "p \<notin> literal_whitelist (h_platform h)"
    "pinned_as h p (h_sha256 h b) pin"
  shows "\<exists>g. detect_gpg h (Some (c # cs)) pin = Inr g \<and> dg_path g = p \<and> \<not> dg_is_whitelisted g"
proof -
  have "check_writability h p = Inr ()"
    using assms(2) check_writability_Inr [OF assms(3), of p] above_all [of p]
    by (auto simp: chain_owned_def dest: spec [of _ "length (pp_parts p)"])
  moreover have "check_parent_writability h p = Inr ()"
    using assms(2) check_parent_Inr [OF assms(3), of p] by (simp add: chain_owned_def)
  moreover have "verify_trust_pin h p (h_sha256 h b) (identity_of h p) pin = Inr ()"
    using assms(6) by (simp add: verify_trust_pin_Inr)
  moreover have "hash_file h p = Inr (h_sha256 h b)" "canonicalise h (read_path (h_platform h) (c # cs)) = Inr p"
    using assms(1,4) by (simp_all add: hash_file_def)
  ultimately show ?thesis
    using assms(5)
    by (simp add: detect_gpg_def detect_user_override_def del: bindD_eq_Inr hash_file_Inr canonicalise_Inr)
qed

section \<open>A host\<close>

definition demo_path :: pure_path where
  "demo_path = \<lparr>pp_absolute = True, pp_parts = [''opt'', ''gpg'']\<rparr>"

text \<open>Root owns everything but \<open>/opt/gpg\<close>, which is the user's; directories are \<open>0755\<close>.\<close>

definition demo_host :: host where
  "demo_host = \<lparr>h_platform = Linux, h_resolve = Some,
     h_stat = (\<lambda>p. Some \<lparr>st_mode = 493, st_uid = (if p = demo_path then 1000 else 0), st_dev = 7, st_ino = 42\<rparr>),
     h_read = (\<lambda>p. Some ''ELF''), h_sha256 = (\<lambda>b. ''ab12''), h_which = (\<lambda>n. None), h_gnupghome = None\<rparr>"

definition demo_pin :: trust_pin where
  "demo_pin = \<lparr>tp_hash = Some ''AB12'', tp_path = Some ''/opt/gpg'', tp_device = Some 7, tp_inode = Some 42\<rparr>"

lemma demo_read: "read_path Linux ''/opt/gpg'' = demo_path"
  by code_simp

lemma demo_unlisted: "demo_path \<notin> literal_whitelist Linux"
  by code_simp

lemma demo_mode: "\<not> open_to_others 493"
  by code_simp

lemma demo_host_simps [simp]:
  "h_platform demo_host = Linux" "h_resolve demo_host p = Some p" "h_read demo_host p = Some ''ELF''"
  "h_sha256 demo_host b = ''ab12''"
  "h_stat demo_host p = Some \<lparr>st_mode = 493, st_uid = (if p = demo_path then 1000 else 0), st_dev = 7, st_ino = 42\<rparr>"
  by (simp_all add: demo_host_def)

lemma demo_chain: "chain_owned demo_host p"
  by (simp add: chain_owned_def owner_writes_only_def demo_mode)

lemma demo_lower: "lower ''AB12'' = lower ''ab12''"
  by code_simp

lemma demo_pinned: "pinned_as demo_host demo_path ''ab12'' demo_pin"
  using demo_lower by (simp add: pinned_as_def demo_pin_def demo_read identity_of_def)

lemma detected_binary_vetted_witness:
  "\<exists>g. detect_gpg demo_host (Some ''/opt/gpg'') demo_pin = Inr g \<and> chain_owned demo_host (dg_path g) \<and>
     pinned_as demo_host (dg_path g) (dg_sha256 g) demo_pin"
proof -
  obtain g where g: "detect_gpg demo_host (Some ''/opt/gpg'') demo_pin = Inr g" "\<not> dg_is_whitelisted g"
    using pinned_binary_accepted [of demo_host "CHR ''/''" "''opt/gpg''" demo_path "''ELF''" demo_pin]
      demo_read demo_unlisted demo_chain demo_pinned by auto
  from detected_binary_vetted [OF g(1)] g show ?thesis by auto
qed

end
