(* ===== verification/Folder_Archive.thy ===== *)
theory Folder_Archive
  imports Gpg_Detector
begin

text \<open>
  The archives of \<open>services/folder_service.py\<close>: the checks of \<open>_archive_root\<close>, unpacking into a
  staging directory (\<open>_extract\<close>), and what \<open>_pack\<close> puts into an archive. A \<open>TarError\<close> in the
  middle of a member stands for the \<open>ValueError\<close> that \<open>_unpack\<close> makes of it. \<open>Path.resolve\<close>, the
  name \<open>mkdtemp\<close> draws and the order in which \<open>tarfile\<close> walks a directory are parameters.
  The lemmas show that unpacking touches nothing outside the one new folder and leaves nothing
  behind when it fails, which folders come back from their archive and which do not.
\<close>

section \<open>Archives\<close>

datatype member_kind = RegularFile | Folder | OtherKind

text \<open>The data of a member, and whether the archive holds all of it.\<close>

record tar_member =
  tm_name :: str
  tm_kind :: member_kind
  tm_data :: "(bytes \<times> bool) option"

definition member_parts :: "tar_member \<Rightarrow> str list" where
  "member_parts m = pp_parts (read_path Linux (tm_name m))"

definition member_root :: "tar_member \<Rightarrow> str res" where
  "member_root m =
     (if tm_kind m = OtherKind then Inl ValueError
      else if pp_absolute (read_path Linux (tm_name m)) \<or> ''..'' \<in> set (member_parts m) \<or>
        CHR 0x5C \<in> set (tm_name m) then Inl ValueError
      else (case member_parts m of [] \<Rightarrow> Inl IndexError | w # ws \<Rightarrow> Inr w))"

definition archive_root :: "tar_member list \<Rightarrow> str res" where
  "archive_root members = (case members of
       [] \<Rightarrow> Inl ValueError
     | m # _ \<Rightarrow> bindE (mapE member_root members) (\<lambda>roots.
         if length (remdups roots) \<noteq> 1 then Inl ValueError
         else if tm_kind m \<noteq> Folder \<or> tm_name m \<noteq> hd roots then Inl ValueError
         else Inr (hd roots)))"

section \<open>Directories and files\<close>

text \<open>Where the way to a path ends: at something that is missing or that is no directory.\<close>

definition walk_error :: "file_system \<Rightarrow> path \<Rightarrow> exn option" where
  "walk_error fs p = (case find (\<lambda>k. \<not> path_is_dir fs (take k p)) [0..<length p] of
       None \<Rightarrow> None
     | Some k \<Rightarrow> Some (if path_exists fs (take k p) then NotADirectoryError else FileNotFoundError))"

definition posix_mkdir :: "path \<Rightarrow> nat \<Rightarrow> (file_system, unit) prog" where
  "posix_mkdir p mode = (\<lambda>fs. case walk_error fs p of
       Some e \<Rightarrow> (Inl e, fs)
     | None \<Rightarrow> if fs_node fs p \<noteq> None then (Inl FileExistsError, fs)
         else (Inr (), put_node p (Dir (masked mode (fs_umask fs))) fs))"

definition accept_directory :: "path \<Rightarrow> exn \<Rightarrow> (file_system, unit) prog" where
  "accept_directory p e = bindP (getP (\<lambda>fs. path_is_dir fs p)) (\<lambda>d. if d then retP () else raiseP e)"

text \<open>\<open>Path.mkdir\<close> with \<open>exist_ok\<close>, and with \<open>parents\<close> as well.\<close>

definition mkdir_exist_ok :: "path \<Rightarrow> (file_system, unit) prog" where
  "mkdir_exist_ok p = catchP (posix_mkdir p 511) (\<lambda>e.
     if e = FileNotFoundError then raiseP e else accept_directory p e)"

function mkdir_parents :: "path \<Rightarrow> (file_system, unit) prog" where
  "mkdir_parents p = catchP (posix_mkdir p 511) (\<lambda>e.
     if e = FileNotFoundError
     then if p = [] then raiseP e else thenP (mkdir_parents (butlast p)) (mkdir_exist_ok p)
     else accept_directory p e)"
  by pat_completeness auto
termination by (relation "measure length") auto

declare mkdir_parents.simps [simp del]

text \<open>\<open>open(path, "xb")\<close> and the copy; \<open>0o666\<close> under the umask.\<close>

definition write_new :: "path \<Rightarrow> bytes \<Rightarrow> (file_system, unit) prog" where
  "write_new p data = (\<lambda>fs. case walk_error fs p of
       Some e \<Rightarrow> (Inl e, fs)
     | None \<Rightarrow> if fs_node fs p \<noteq> None then (Inl FileExistsError, fs)
         else if \<not> fs_open_ok fs p then (Inl OSError, fs)
         else (Inr (), put_node p (File (masked 438 (fs_umask fs)) data) fs))"

text \<open>\<open>rename\<close> onto a free name, and \<open>rmtree\<close>.\<close>

definition rename_dir :: "path \<Rightarrow> path \<Rightarrow> (file_system, unit) prog" where
  "rename_dir a b = (\<lambda>fs.
     if fs_node fs a = None then (Inl FileNotFoundError, fs)
     else if fs_node fs b \<noteq> None then (Inl OSError, fs)
     else (Inr (), fs\<lparr>fs_node := (\<lambda>q. if prefix b q then fs_node fs (a @ drop (length b) q)
                        else if prefix a q then None else fs_node fs q)\<rparr>))"

definition rmtree :: "path \<Rightarrow> (file_system, unit) prog" where
  "rmtree a = modifyP (\<lambda>fs. fs\<lparr>fs_node := (\<lambda>q. if prefix a q then None else fs_node fs q)\<rparr>)"

section \<open>Unpacking\<close>

definition write_member :: "path \<Rightarrow> tar_member \<Rightarrow> (file_system, unit) prog" where
  "write_member p m =
     (if tm_kind m = Folder then mkdir_parents p
      else thenP (mkdir_parents (butlast p)) (case tm_data m of
          None \<Rightarrow> raiseP ValueError
        | Some (data, complete) \<Rightarrow> thenP (write_new p data) (if complete then retP () else raiseP ValueError)))"

definition extract_member :: "(file_system \<Rightarrow> path \<Rightarrow> path) \<Rightarrow> path \<Rightarrow> tar_member \<Rightarrow> (file_system, unit) prog" where
  "extract_member rs staging m =
     (if CHR 0x00 \<in> set (tm_name m) then raiseP ValueError
      else bindP (getP (\<lambda>fs. rs fs (staging @ member_parts m))) (\<lambda>p.
        if \<not> prefix staging p then raiseP ValueError else write_member p m))"

definition extract_archive ::
    "(file_system \<Rightarrow> path \<Rightarrow> path) \<Rightarrow> str \<Rightarrow> tar_member list \<Rightarrow> path \<Rightarrow> (file_system, path) prog" where
  "extract_archive rs tmp members destination =
     bindP (liftP (archive_root members)) (\<lambda>root.
     let final = destination @ [root]; staging = destination @ [tmp] in
     bindP (getP (\<lambda>fs. path_exists fs final)) (\<lambda>ex.
     if ex then raiseP ValueError
     else thenP (posix_mkdir staging 448)
       (thenP (finallyP
          (thenP (mapP (extract_member rs staging) members) (rename_dir (staging @ [root]) final))
          (rmtree staging))
        (retP final))))"

section \<open>Packing\<close>

text \<open>
  \<open>tarfile\<close> writes a file whose inode it has seen as a link to the first name, and the filter of
  \<open>_pack\<close> drops every link.
\<close>

fun pack_members :: "file_system \<Rightarrow> (path \<Rightarrow> nat) \<Rightarrow> path \<Rightarrow> nat list \<Rightarrow> path list \<Rightarrow> tar_member list" where
  "pack_members fs inode folder seen [] = []"
| "pack_members fs inode folder seen (p # ps) =
     (let name = join_with ''/'' (last folder # drop (length folder) p) in
      case fs_node fs p of
        Some (Dir _) \<Rightarrow> \<lparr>tm_name = name, tm_kind = Folder, tm_data = None\<rparr> # pack_members fs inode folder seen ps
      | Some (File _ b) \<Rightarrow>
          if inode p \<in> set seen then pack_members fs inode folder seen ps
          else \<lparr>tm_name = name, tm_kind = RegularFile, tm_data = Some (b, True)\<rparr> #
            pack_members fs inode folder (inode p # seen) ps
      | _ \<Rightarrow> pack_members fs inode folder seen ps)"

definition count_files :: "tar_member list \<Rightarrow> nat" where
  "count_files members = length (filter (\<lambda>m. tm_kind m = RegularFile) members)"

section \<open>What unpacking touches\<close>

definition real_dir :: "file_system \<Rightarrow> path \<Rightarrow> bool" where
  "real_dir fs p \<longleftrightarrow> (case fs_node fs p of Some (Dir _) \<Rightarrow> True | _ \<Rightarrow> False)"

lemma real_dir_iff: "real_dir fs p \<longleftrightarrow> (\<exists>m. fs_node fs p = Some (Dir m))"
  by (auto simp: real_dir_def split: option.splits node.splits)

lemma real_dir_is_dir: "real_dir fs p \<Longrightarrow> path_is_dir fs p"
  by (auto simp: real_dir_iff path_is_dir_def)

text \<open>What \<open>resolve\<close> promises: a path with no symbolic link on it is its own resolution.\<close>

definition resolves_plain :: "(file_system \<Rightarrow> path \<Rightarrow> path) \<Rightarrow> bool" where
  "resolves_plain rs \<longleftrightarrow> (\<forall>fs p. (\<forall>k \<le> length p. \<not> is_link fs (take k p)) \<longrightarrow> rs fs p = p)"

text \<open>Relative to a first state: only the staging directory differs, and it holds no link.\<close>

definition staged :: "path \<Rightarrow> file_system \<Rightarrow> file_system \<Rightarrow> bool" where
  "staged staging fs0 fs \<longleftrightarrow>
     (\<forall>q. \<not> prefix staging q \<longrightarrow> fs_node fs q = fs_node fs0 q) \<and>
     (\<forall>q. prefix staging q \<longrightarrow> \<not> is_link fs q) \<and>
     (\<forall>k \<le> length staging. real_dir fs (take k staging))"

lemma put_below_staged:
  assumes "staged staging fs0 fs" "prefix staging p" "fs_node fs p = None" "n = Dir m \<or> n = File m b"
  shows "staged staging fs0 (put_node p n fs)"
proof -
  have "p \<noteq> take k staging" if "k \<le> length staging" for k
    using assms(1,3) that by (auto simp: staged_def real_dir_iff)
  then show ?thesis
    using assms by (auto simp: staged_def put_node_def is_link_def real_dir_iff)
qed

lemma posix_mkdir_staged: "prefix staging p \<Longrightarrow> preserves (staged staging fs0) (posix_mkdir p mode)"
  using put_below_staged by (fastforce simp: preserves_def posix_mkdir_def split: option.splits)

lemma write_new_staged: "prefix staging p \<Longrightarrow> preserves (staged staging fs0) (write_new p data)"
  using put_below_staged by (fastforce simp: preserves_def write_new_def split: option.splits)

lemma accept_directory_staged: "preserves (staged staging fs0) (accept_directory p e)"
  unfolding accept_directory_def by (intro preserves_intros)

lemma mkdir_exist_ok_staged: "prefix staging p \<Longrightarrow> preserves (staged staging fs0) (mkdir_exist_ok p)"
  unfolding mkdir_exist_ok_def by (intro preserves_intros posix_mkdir_staged accept_directory_staged)

text \<open>The staging directory itself is there, so the climb of \<open>mkdir\<close> never leaves it.\<close>

lemma mkdir_there:
  assumes "\<forall>k \<le> length p. real_dir fs (take k p)"
  shows "mkdir_parents p fs = (Inr (), fs)"
proof -
  have "walk_error fs p = None"
    using assms real_dir_is_dir by (auto simp: walk_error_def find_None_iff split: option.splits)
  moreover have "path_is_dir fs p" "fs_node fs p \<noteq> None"
    using assms real_dir_is_dir [of fs p] by (auto simp: real_dir_iff dest: spec [of _ "length p"])
  ultimately show ?thesis
    by (subst mkdir_parents.simps) (simp add: catchP_def posix_mkdir_def accept_directory_def)
qed

lemma mkdir_parents_staged: "prefix staging p \<Longrightarrow> preserves (staged staging fs0) (mkdir_parents p)"
proof (induction p rule: mkdir_parents.induct)
  case (1 p)
  show ?case
  proof (cases "p = staging")
    case True
    then show ?thesis using mkdir_there by (auto simp: preserves_def staged_def)
  next
    case False
    then have below: "p \<noteq> []" "prefix staging (butlast p)"
      using 1(2) by (auto simp: prefix_def butlast_append)
    from below show ?thesis
      by (subst mkdir_parents.simps)
        (intro preserves_intros posix_mkdir_staged 1 accept_directory_staged mkdir_exist_ok_staged; simp)
  qed
qed

lemma write_member_staged:
  assumes "prefix staging p" "p \<noteq> staging"
  shows "preserves (staged staging fs0) (write_member p m)"
proof -
  have "prefix staging (butlast p)" using assms by (auto simp: prefix_def butlast_append)
  then show ?thesis
    unfolding write_member_def using assms
    by (auto intro!: preserves_intros mkdir_parents_staged write_new_staged split: option.splits)
qed

lemma staged_plain:
  assumes "staged staging fs0 fs" "resolves_plain rs"
  shows "rs fs (staging @ ws) = staging @ ws"
proof -
  have "\<not> is_link fs (take k (staging @ ws))" for k
  proof (cases "k \<le> length staging")
    case True
    then show ?thesis using assms(1) by (auto simp: staged_def real_dir_iff is_link_def)
  next
    case False
    then have "prefix staging (take k (staging @ ws))" by (simp add: prefix_def)
    then show ?thesis using assms(1) by (simp add: staged_def)
  qed
  then show ?thesis using assms(2) by (simp add: resolves_plain_def)
qed

lemma extract_member_staged:
  assumes "resolves_plain rs" "member_parts m \<noteq> []"
  shows "preserves (staged staging fs0) (extract_member rs staging m)"
proof -
  have "staged staging fs0 (snd (extract_member rs staging m fs))" if "staged staging fs0 fs" for fs
    using that staged_plain [OF that assms(1), of "member_parts m"] assms(2)
      write_member_staged [of staging "staging @ member_parts m" fs0 m]
    by (simp add: extract_member_def preserves_def)
  then show ?thesis by (simp add: preserves_def)
qed

lemma mapE_member:
  assumes "mapE f xs = Inr ys" "x \<in> set xs"
  shows "\<exists>y. f x = Inr y"
  using assms by (induction xs arbitrary: ys) auto

lemma archive_root_Inr:
  assumes "archive_root members = Inr root"
  shows "member_root (hd members) = Inr root" "tm_name (hd members) = root" "tm_kind (hd members) = Folder"
    "m \<in> set members \<Longrightarrow> \<exists>w. member_root m = Inr w"
  using assms mapE_member by (auto simp: archive_root_def split: list.splits if_splits)

lemma member_root_Inr:
  assumes "member_root m = Inr w"
  shows "member_parts m \<noteq> []" "w = hd (member_parts m)" "''..'' \<notin> set (member_parts m)" "tm_kind m \<noteq> OtherKind"
    "CHR 0x5C \<notin> set (tm_name m)"
  using assms by (auto simp: member_root_def split: if_splits list.splits)

lemma split_on_parts: "w \<in> set (split_on d s) \<Longrightarrow> d \<notin> set w"
  by (induction s arbitrary: w) (auto split: if_splits list.splits)

lemma member_parts_name:
  assumes "w \<in> set (member_parts m)"
  shows "w \<noteq> []" "w \<noteq> ''.''" "CHR ''/'' \<notin> set w"
  using assms split_on_parts by (auto simp: member_parts_def read_path_def parts_of_def)

lemma members_staged:
  assumes "resolves_plain rs" "archive_root members = Inr root"
  shows "preserves (staged staging fs0) (mapP (extract_member rs staging) members)"
proof (intro preserves_mapP_set extract_member_staged [OF assms(1)])
  fix m assume "m \<in> set members"
  then obtain w where "member_root m = Inr w" using archive_root_Inr(4) [OF assms(2)] by blast
  then show "member_parts m \<noteq> []" by (rule member_root_Inr(1))
qed

lemma staged_start:
  assumes "posix_mkdir staging mode fs = (Inr (), fs1)" "\<forall>k < length staging. real_dir fs (take k staging)"
    "\<forall>q. prefix staging q \<longrightarrow> fs_node fs q = None"
  shows "staged staging fs fs1"
proof -
  have fs1: "fs1 = put_node staging (Dir (masked mode (fs_umask fs))) fs"
    using assms(1) by (auto simp: posix_mkdir_def split: option.splits if_splits)
  have "real_dir fs1 (take k staging)" if "k \<le> length staging" for k
    using assms(2) that by (cases "k = length staging") (auto simp: fs1 put_node_def real_dir_iff)
  moreover have "\<not> is_link fs1 q" if "prefix staging q" for q
    using assms(3) that by (auto simp: fs1 put_node_def is_link_def)
  ultimately show ?thesis by (auto simp: staged_def fs1 put_node_def)
qed

text \<open>Removing the staging directory gives back the first state.\<close>

lemma rmtree_staged:
  assumes "staged staging fs0 fs" "\<forall>q. prefix staging q \<longrightarrow> fs_node fs0 q = None"
  shows "fs_node (snd (rmtree staging fs)) = fs_node fs0"
  using assms by (auto simp: rmtree_def staged_def fun_eq_iff)

lemma unpack_body:
  assumes "thenP (mapP (extract_member rs staging) members) (rename_dir (staging @ [root]) final) fs1 = (rb, fs2)"
    "staged staging fs0 fs1" "resolves_plain rs" "archive_root members = Inr root"
  obtains (failed) e where "rb = Inl e" "staged staging fs0 fs2"
    | (renamed) fs where "rb = Inr ()" "staged staging fs0 fs" "rename_dir (staging @ [root]) final fs = (Inr (), fs2)"
proof -
  obtain rm fs where rm: "mapP (extract_member rs staging) members fs1 = (rm, fs)" by fastforce
  have st: "staged staging fs0 fs"
    using preservesD [OF members_staged [OF assms(3,4)] assms(2) rm] .
  show thesis
  proof (cases rm)
    case (Inl e)
    then have "rb = Inl e" "fs = fs2" using assms(1) rm by (auto simp: monad_simps)
    with failed st show thesis by simp
  next
    case (Inr u)
    then have "rename_dir (staging @ [root]) final fs = (rb, fs2)" using assms(1) rm by (simp add: monad_simps)
    then show thesis
      using failed renamed st by (cases rb) (auto simp: rename_dir_def split: if_splits)
  qed
qed

lemma renamed_out:
  assumes "rename_dir (staging @ [root]) final fs = (Inr (), fs2)" "staged staging fs0 fs"
    "\<forall>q. prefix staging q \<longrightarrow> fs_node fs0 q = None" "final = destination @ [root]" "staging = destination @ [tmp]"
  shows "fs_node fs0 final = None \<and>
    (\<forall>q. \<not> prefix final q \<longrightarrow> fs_node (snd (rmtree staging fs2)) q = fs_node fs0 q) \<and>
    (\<forall>q. prefix final q \<longrightarrow> \<not> is_link (snd (rmtree staging fs2)) q)"
proof -
  have fs2: "fs_node fs2 = (\<lambda>q. if prefix final q then fs_node fs (staging @ [root] @ drop (length final) q)
      else if prefix (staging @ [root]) q then None else fs_node fs q)" and free: "fs_node fs final = None"
    using assms(1) by (auto simp: rename_dir_def split: if_splits)
  have "real_dir fs staging" using assms(2) by (auto simp: staged_def dest: spec [of _ "length staging"])
  then have "root \<noteq> tmp" using free assms(4,5) by (auto simp: real_dir_iff)
  then have apart: "prefix staging q \<Longrightarrow> \<not> prefix final q" for q
    using assms(4,5) by (auto simp: prefix_def)
  have up: "prefix staging q" if "prefix (staging @ [root]) q" for q
    using that by (auto simp: prefix_def)
  have "fs_node fs0 final = None"
  proof -
    have "\<not> prefix staging final" using apart [of final] by blast
    then have "fs_node fs final = fs_node fs0 final" using assms(2) unfolding staged_def by blast
    with free show ?thesis by simp
  qed
  moreover have "fs_node (snd (rmtree staging fs2)) q = fs_node fs0 q" if "\<not> prefix final q" for q
    using assms(2,3) that up by (auto simp: rmtree_def fs2 staged_def)
  moreover have "\<not> is_link (snd (rmtree staging fs2)) q" if "prefix final q" for q
  proof -
    have "\<not> is_link fs (staging @ [root] @ drop (length final) q)"
      using assms(2) by (simp add: staged_def prefix_def)
    then show ?thesis using that apart by (auto simp: rmtree_def fs2 is_link_def)
  qed
  ultimately show ?thesis by blast
qed

text \<open>
  Whatever archive is unpacked into a directory, nothing outside the one new folder changes.
  When unpacking fails, every path is as it was. When it returns, the archive had one top-level
  folder whose name is a single component other than the two dots, no path had that name in the
  destination, every path that is not below it is as it was, and none below it is a symbolic link.
\<close>

lemma unpacking_stays_inside:
  assumes "extract_archive rs tmp members destination fs = (r, fs')" "resolves_plain rs"
    "\<forall>k \<le> length destination. real_dir fs (take k destination)"
    "\<forall>q. prefix (destination @ [tmp]) q \<longrightarrow> fs_node fs q = None"
  shows "case r of
      Inl e \<Rightarrow> fs_node fs' = fs_node fs
    | Inr final \<Rightarrow> \<exists>root. archive_root members = Inr root \<and> final = destination @ [root] \<and>
        root \<noteq> [] \<and> root \<noteq> ''..'' \<and> CHR ''/'' \<notin> set root \<and> fs_node fs final = None \<and>
        (\<forall>q. \<not> prefix final q \<longrightarrow> fs_node fs' q = fs_node fs q) \<and>
        (\<forall>q. prefix final q \<longrightarrow> \<not> is_link fs' q)"
proof (cases "archive_root members")
  case (Inl e)
  then show ?thesis using assms(1) by (auto simp: extract_archive_def bindP_def)
next
  case (Inr root)
  let ?final = "destination @ [root]" and ?staging = "destination @ [tmp]"
  let ?body = "thenP (mapP (extract_member rs ?staging) members) (rename_dir (?staging @ [root]) ?final)"
  have run: "(if path_exists fs ?final then raiseP ValueError
      else thenP (posix_mkdir ?staging 448) (thenP (finallyP ?body (rmtree ?staging)) (retP ?final))) fs = (r, fs')"
    using assms(1) Inr by (simp add: extract_archive_def bindP_lift Let_def)
  obtain rd fs1 where mk: "posix_mkdir ?staging 448 fs = (rd, fs1)" by fastforce
  consider (early) e where "r = Inl e" "fs' = fs" | (made) "rd = Inr ()" "\<not> path_exists fs ?final"
    using run mk by (cases rd) (auto simp: monad_simps posix_mkdir_def split: if_splits option.splits)
  then show ?thesis
  proof cases
    case early
    then show ?thesis by simp
  next
    case made
    have st: "staged ?staging fs fs1"
      using staged_start [of ?staging 448 fs fs1] mk made assms(3,4) by simp
    obtain rb fs2 where body: "?body fs1 = (rb, fs2)" by fastforce
    have fin: "finallyP ?body (rmtree ?staging) fs1 = (rb, snd (rmtree ?staging fs2))"
      using body by (simp add: finallyP_def rmtree_def)
    have r: "fs' = snd (rmtree ?staging fs2)" "r = (case rb of Inl e \<Rightarrow> Inl e | Inr _ \<Rightarrow> Inr ?final)"
      using run made mk fin by (cases rb; simp add: monad_simps)+
    from body st assms(2) Inr show ?thesis
    proof (cases rule: unpack_body)
      case (failed e)
      then show ?thesis using r rmtree_staged [of ?staging fs fs2] assms(4) by simp
    next
      case (renamed fsm)
      note m = member_root_Inr [OF archive_root_Inr(1) [OF Inr]]
      have "root \<in> set (member_parts (hd members))" using m(1,2) by simp
      then have "root \<noteq> [] \<and> root \<noteq> ''..'' \<and> CHR ''/'' \<notin> set root"
        using m(3) member_parts_name by blast
      then show ?thesis
        using renamed_out [OF renamed(3,2) assms(4) refl refl] r renamed(1) Inr by simp
    qed
  qed
qed

definition demo_archive :: "tar_member list" where
  "demo_archive = [\<lparr>tm_name = ''a'', tm_kind = Folder, tm_data = None\<rparr>,
     \<lparr>tm_name = ''a/b/c'', tm_kind = RegularFile, tm_data = Some (''hi'', True)\<rparr>]"

lemma demo_unpacked: "fst (extract_archive (\<lambda>fs p. p) ''tmp'' demo_archive [''home''] demo_fs) = Inr [''home'', ''a'']"
  by code_simp

lemma unpacking_stays_inside_witness:
  "\<exists>fs'. extract_archive (\<lambda>fs p. p) ''tmp'' demo_archive [''home''] demo_fs = (Inr [''home'', ''a''], fs') \<and>
     fs_node fs' [''home''] = fs_node demo_fs [''home''] \<and> \<not> is_link fs' [''home'', ''a'']"
proof -
  obtain fs' where r: "extract_archive (\<lambda>fs p. p) ''tmp'' demo_archive [''home''] demo_fs = (Inr [''home'', ''a''], fs')"
    using demo_unpacked by (cases "extract_archive (\<lambda>fs p. p) ''tmp'' demo_archive [''home''] demo_fs") auto
  have "real_dir demo_fs (take k [''home''])" for k
    by (cases k) (simp_all add: demo_fs_def real_dir_iff)
  moreover have "fs_node demo_fs q = None" if "prefix ([''home''] @ [''tmp'']) q" for q
    using that by (auto simp: demo_fs_def prefix_def)
  moreover have "resolves_plain (\<lambda>fs p. p)" by (simp add: resolves_plain_def)
  ultimately show ?thesis using unpacking_stays_inside [OF r] r by auto
qed

section \<open>Which folders come back\<close>

definition packed_name :: "path \<Rightarrow> path \<Rightarrow> str" where
  "packed_name folder p = join_with ''/'' (last folder # drop (length folder) p)"

lemma pack_member_name:
  assumes "m \<in> set (pack_members fs inode folder seen ps)"
  shows "tm_kind m \<noteq> OtherKind \<and> (\<exists>p \<in> set ps. tm_name m = packed_name folder p)"
  using assms
  by (induction ps arbitrary: seen) (auto simp: packed_name_def Let_def split: option.splits node.splits if_splits)

text \<open>A name a POSIX file system allows for a component.\<close>

definition component_ok :: "str \<Rightarrow> bool" where
  "component_ok w \<longleftrightarrow> w \<noteq> [] \<and> w \<noteq> ''.'' \<and> w \<noteq> ''..'' \<and> CHR ''/'' \<notin> set w"

lemma packed_parts:
  assumes "component_ok (last folder)" "list_all component_ok (drop (length folder) p)"
  shows "read_path Linux (packed_name folder p) =
    \<lparr>pp_absolute = False, pp_parts = last folder # drop (length folder) p\<rparr>"
proof -
  have parts: "parts_of (CHR ''/'') (packed_name folder p) = last folder # drop (length folder) p"
    unfolding packed_name_def using assms
    by (intro parts_of_join) (auto simp: component_ok_def list_all_iff)
  obtain c cs where c: "last folder = c # cs" "c \<noteq> CHR ''/''"
    using assms(1) by (auto simp: component_ok_def neq_Nil_conv)
  then have "\<exists>t. packed_name folder p = c # t"
    by (cases "drop (length folder) p") (auto simp: packed_name_def)
  then show ?thesis using parts c by (auto simp: read_path_def)
qed

lemma packed_member_root:
  assumes "m \<in> set (pack_members fs inode folder seen ps)" "component_ok (last folder)"
    "\<forall>p \<in> set ps. list_all component_ok (drop (length folder) p)"
  shows "member_root m = (if CHR 0x5C \<in> set (tm_name m) then Inl ValueError else Inr (last folder))"
proof -
  obtain p where p: "p \<in> set ps" "tm_name m = packed_name folder p" "tm_kind m \<noteq> OtherKind"
    using pack_member_name [OF assms(1)] by blast
  then have parts: "read_path Linux (tm_name m) =
      \<lparr>pp_absolute = False, pp_parts = last folder # drop (length folder) p\<rparr>"
    using packed_parts assms(2,3) by simp
  then have "''..'' \<notin> set (member_parts m)"
    using assms(2,3) p(1) by (auto simp: member_parts_def component_ok_def list_all_iff)
  then show ?thesis using parts p(3) by (simp add: member_root_def member_parts_def)
qed

lemma mapE_const:
  assumes "\<forall>x \<in> set xs. f x = Inr c"
  shows "mapE f xs = Inr (replicate (length xs) c)"
  using assms by (induction xs) auto

lemma mapE_fails: "x \<in> set xs \<Longrightarrow> f x = Inl e \<Longrightarrow> mapE f xs \<noteq> Inr ys"
  using mapE_member by fastforce

lemma remdups_replicate: "remdups (replicate n x) = (if n = 0 then [] else [x])"
  by (induction n) auto

lemma archive_root_accepts:
  assumes "mapE member_root (m # ms) = Inr (replicate (length (m # ms)) c)" "tm_kind m = Folder" "tm_name m = c"
  shows "archive_root (m # ms) = Inr c"
proof -
  have "length (remdups (replicate (length (m # ms)) c)) = 1" "hd (replicate (length (m # ms)) c) = c"
    by (simp_all only: remdups_replicate hd_replicate) simp_all
  then show ?thesis
    unfolding archive_root_def list.case assms(1) bindE_simps using assms(2,3) by simp
qed

text \<open>
  C26. The archive of a folder is accepted by the unpacker exactly when no name in it contains a
  backslash. Such names are allowed on POSIX systems and packed without a word, so a folder
  that has one is encrypted into a file the program will not unpack.
\<close>

theorem archive_comes_back_iff:
  assumes "component_ok (last folder)" "\<forall>p \<in> set (folder # rest). list_all component_ok (drop (length folder) p)"
    "fs_node fs folder = Some (Dir mode)"
  shows "archive_root (pack_members fs inode folder [] (folder # rest)) = Inr (last folder) \<longleftrightarrow>
    (\<forall>m \<in> set (pack_members fs inode folder [] (folder # rest)). CHR 0x5C \<notin> set (tm_name m))"
proof -
  let ?ms = "pack_members fs inode folder [] (folder # rest)"
  note root = packed_member_root [OF _ assms(1,2), of _ fs inode "[]"]
  have first: "?ms = \<lparr>tm_name = last folder, tm_kind = Folder, tm_data = None\<rparr> # pack_members fs inode folder [] rest"
    using assms(3) by simp
  show ?thesis
  proof
    assume "archive_root ?ms = Inr (last folder)"
    then show "\<forall>m \<in> set ?ms. CHR 0x5C \<notin> set (tm_name m)"
      using archive_root_Inr(4) member_root_Inr(5) by blast
  next
    assume "\<forall>m \<in> set ?ms. CHR 0x5C \<notin> set (tm_name m)"
    then have "mapE member_root ?ms = Inr (replicate (length ?ms) (last folder))"
      using root by (intro mapE_const) simp
    then show "archive_root ?ms = Inr (last folder)"
      unfolding first by (rule archive_root_accepts) simp_all
  qed
qed

text \<open>The file itself: a regular file with a name of its own and an inode of its own is packed.\<close>

lemma file_packed:
  assumes "fs_node fs p = Some (File mode b)" "p \<in> set ps" "inode p \<notin> set seen"
    "\<forall>q \<in> set ps. inode q = inode p \<longrightarrow> q = p"
  shows "\<exists>m \<in> set (pack_members fs inode folder seen ps). tm_name m = packed_name folder p"
  using assms(2-4)
proof (induction ps arbitrary: seen)
  case (Cons q ps)
  show ?case
  proof (cases "q = p")
    case True
    then show ?thesis using assms(1) Cons.prems by (auto simp: packed_name_def Let_def)
  next
    case False
    then have "inode q \<noteq> inode p" "p \<in> set ps" using Cons.prems by auto
    then show ?thesis
      using Cons.IH [of seen] Cons.IH [of "inode q # seen"] Cons.prems
      by (auto simp: Let_def split: option.splits node.splits)
  qed
qed simp

text \<open>A second name of a file already packed is not packed: its name is lost.\<close>

lemma hard_link_dropped:
  assumes "fs_node fs p = Some (File mode b)" "inode p \<in> set seen"
  shows "pack_members fs inode folder seen (p # ps) = pack_members fs inode folder seen ps"
  using assms by (simp add: Let_def)

definition tree_fs :: file_system where
  "tree_fs = \<lparr>fs_node = [[''d''] \<mapsto> Dir 493, [''d'', ''x''] \<mapsto> File 420 ''1'', [''d'', [CHR 0x5C]] \<mapsto> File 420 ''2''],
     fs_umask = 18, fs_open_ok = (\<lambda>_. True)\<rparr>"

lemma archive_comes_back_iff_witness:
  "archive_root (pack_members tree_fs length [''d''] [] [[''d''], [''d'', ''x'']]) = Inr ''d'' \<and>
   archive_root (pack_members tree_fs length [''d''] [] [[''d''], [''d'', [CHR 0x5C]]]) \<noteq> Inr ''d''"
proof -
  have ok: "component_ok (last [''d''])" "fs_node tree_fs [''d''] = Some (Dir 493)"
    "\<forall>p \<in> set [[''d''], [''d'', ''x'']]. list_all component_ok (drop (length [''d'']) p)"
    "\<forall>p \<in> set [[''d''], [''d'', [CHR 0x5C]]]. list_all component_ok (drop (length [''d'']) p)"
    by (simp_all add: component_ok_def tree_fs_def)
  show ?thesis
    using archive_comes_back_iff [OF ok(1,3,2), of length] archive_comes_back_iff [OF ok(1,4,2), of length]
    by (simp add: tree_fs_def)
qed

end
