(* ===== verification/Startup.thy ===== *)
theory Startup
  imports Gpg_Detector Gpg_Service
begin

text \<open>
  The start of the program around the GnuPG binary: \<open>_resolve_gpg\<close> and \<open>_trust_and_pin_gpg\<close> of
  \<open>app.py\<close>, which ask the user about a binary and pin it, and the constructor of \<open>GPGService\<close>, which
  vets the binary again and keeps the identity and the hash that \<open>Gpg_Service\<close> checks before
  every run. The user's answers and the hosts the detector meets are a list of rounds.
  The lemmas show what a started service runs, that one yes settles an override, and what a yes to
  a whitelisted binary that is not root's comes to.
\<close>

section \<open>Asking and pinning\<close>

record gpg_binary_trust =
  bt_path :: str
  bt_sha256 :: str
  bt_device :: "nat option"
  bt_inode :: "nat option"

text \<open>The two fields of \<open>AppConfig\<close> that matter here.\<close>

record gpg_settings =
  gc_binary_path :: "str option"
  gc_trusted :: "gpg_binary_trust option"

definition settings_pin :: "gpg_settings \<Rightarrow> trust_pin" where
  "settings_pin cfg = (case gc_trusted cfg of
       None \<Rightarrow> \<lparr>tp_hash = None, tp_path = None, tp_device = None, tp_inode = None\<rparr>
     | Some t \<Rightarrow> \<lparr>tp_hash = Some (bt_sha256 t), tp_path = Some (bt_path t),
         tp_device = bt_device t, tp_inode = bt_inode t\<rparr>)"

text \<open>\<open>str(path)\<close>; a Windows path is written in its folded form.\<close>

definition path_text :: "platform \<Rightarrow> pure_path \<Rightarrow> str" where
  "path_text pf p =
     (let sep = (if pf = Win32 then [CHR 0x5C] else ''/'') in
      if pf = Win32 \<and> pp_absolute p \<and> length (pp_parts p) = 1 then hd (pp_parts p) @ sep
      else if pf \<noteq> Win32 \<and> pp_absolute p then sep @ join_with sep (pp_parts p)
      else if pp_parts p = [] then ''.'' else join_with sep (pp_parts p))"

datatype startup_failure =
    FailStartup
  | Declined
  | SaveFailed
  | Crashed detect_error

text \<open>
  One pass of the loop: the host of the first \<open>detect\<close>, the answer to the dialog, the host of
  the second \<open>detect\<close> and whether the settings can be saved.
\<close>

record round =
  rd_found :: host
  rd_accepts :: bool
  rd_again :: host
  rd_saves :: bool

definition trust_and_pin ::
    "round \<Rightarrow> pure_path \<Rightarrow> str \<Rightarrow> gpg_settings \<Rightarrow> startup_failure + gpg_settings" where
  "trust_and_pin r p sha cfg =
     (let h = rd_again r; pf = h_platform h in
      if \<not> rd_accepts r then Inl Declined
      else (case detect_gpg h (Some (path_text pf p))
                \<lparr>tp_hash = Some sha, tp_path = Some (path_text pf p), tp_device = None, tp_inode = None\<rparr> of
          Inl e \<Rightarrow> Inl (Crashed e)
        | Inr g \<Rightarrow>
            if \<not> rd_saves r then Inl SaveFailed
            else Inr (cfg\<lparr>gc_trusted := Some \<lparr>bt_path = path_text pf (dg_path g), bt_sha256 = dg_sha256 g,
              bt_device = dg_device g, bt_inode = dg_inode g\<rparr>\<rparr>)))"

definition interactive_reasons :: "detection_reason list" where
  "interactive_reasons = [USER_OVERRIDE_UNTRUSTED, HASH_MISMATCH, IDENTITY_MISMATCH, NOT_ROOT_OWNED]"

text \<open>\<open>None\<close>: the loop is waiting for one more answer.\<close>

fun resolve_gpg :: "round list \<Rightarrow> gpg_settings \<Rightarrow> (startup_failure + detected_gpg \<times> gpg_settings) option" where
  "resolve_gpg [] cfg = None"
| "resolve_gpg (r # rs) cfg =
     (case detect_gpg (rd_found r) (gc_binary_path cfg) (settings_pin cfg) of
        Inr g \<Rightarrow> Some (Inr (g, cfg))
      | Inl UncaughtOSError \<Rightarrow> Some (Inl (Crashed UncaughtOSError))
      | Inl (GPGDetectionError reason path sha) \<Rightarrow>
          if reason \<notin> set interactive_reasons then Some (Inl FailStartup)
          else (case (path, sha) of
              (Some p, Some s) \<Rightarrow>
                (case trust_and_pin r p s cfg of
                   Inl x \<Rightarrow> Some (Inl x)
                 | Inr cfg' \<Rightarrow> resolve_gpg rs cfg')
            | _ \<Rightarrow> Some (Inl FailStartup)))"

section \<open>Starting the service\<close>

record gpg_service_config =
  sc_binary :: pure_path
  sc_home :: str
  sc_trusted_sha256 :: "str option"
  sc_trusted_device :: "nat option"
  sc_trusted_inode :: "nat option"

datatype service_failure =
    ServiceRefused
  | DetectorRefused detect_error

definition truthy :: "str option \<Rightarrow> bool" where
  "truthy s \<longleftrightarrow> s \<noteq> None \<and> s \<noteq> Some []"

definition revalidate_binary :: "host \<Rightarrow> gpg_service_config \<Rightarrow> service_failure + str" where
  "revalidate_binary h c =
     (let name = path_text (h_platform h) (sc_binary c) in
      case detect_gpg h (Some name)
          \<lparr>tp_hash = sc_trusted_sha256 c,
           tp_path = (if truthy (sc_trusted_sha256 c) then Some name else None),
           tp_device = sc_trusted_device c, tp_inode = sc_trusted_inode c\<rparr> of
        Inl e \<Rightarrow> Inl (DetectorRefused e)
      | Inr g \<Rightarrow>
          if Some (dg_path g) \<noteq> h_resolve h (sc_binary c) then Inl ServiceRefused
          else if truthy (sc_trusted_sha256 c) \<and> lower (dg_sha256 g) \<noteq> lower (the (sc_trusted_sha256 c))
          then Inl ServiceRefused
          else if sc_trusted_device c \<noteq> None \<and> dg_device g \<noteq> sc_trusted_device c then Inl ServiceRefused
          else if sc_trusted_inode c \<noteq> None \<and> dg_inode g \<noteq> sc_trusted_inode c then Inl ServiceRefused
          else Inr (dg_sha256 g))"

definition new_gpg_service :: "host \<Rightarrow> gpg_service_config \<Rightarrow> service_failure + gpg_service" where
  "new_gpg_service h c =
     (if h_stat h (sc_binary c) = None then Inl ServiceRefused
      else (case revalidate_binary h c of
          Inl e \<Rightarrow> Inl e
        | Inr sha \<Rightarrow> Inr \<lparr>gs_binary = path_text (h_platform h) (sc_binary c), gs_home = sc_home c,
            gs_device = map_option st_dev (h_stat h (sc_binary c)),
            gs_inode = map_option st_ino (h_stat h (sc_binary c)), gs_sha256 = sha\<rparr>))"

section \<open>Paths and their text\<close>

definition path_ok :: "pure_path \<Rightarrow> bool" where
  "path_ok p \<longleftrightarrow> list_all (\<lambda>w. w \<noteq> [] \<and> w \<noteq> ''.'' \<and> CHR ''/'' \<notin> set w) (pp_parts p)"

lemma join_starts: "ws \<noteq> [] \<Longrightarrow> hd ws \<noteq> [] \<Longrightarrow> take 1 (join_with d ws) = take 1 (hd ws)"
  by (cases "(d, ws)" rule: join_with.cases) (auto simp: neq_Nil_conv)

text \<open>Writing a path and reading it back.\<close>

lemma read_path_text:
  assumes "path_ok p" "pf \<noteq> Win32"
  shows "read_path pf (path_text pf p) = p"
proof (cases "pp_parts p = []")
  case True
  then show ?thesis
    using assms(2) by (cases p) (auto simp: path_text_def read_path_def parts_of_def Let_def)
next
  case False
  have join: "parts_of (CHR ''/'') (join_with ''/'' (pp_parts p)) = pp_parts p"
    using assms(1) False by (intro parts_of_join) (auto simp: path_ok_def)
  have skip: "parts_of (CHR ''/'') (CHR ''/'' # s) = parts_of (CHR ''/'') s" for s
    by (simp add: parts_of_def)
  obtain w ws where p: "pp_parts p = w # ws" "w \<noteq> []" "CHR ''/'' \<notin> set w"
    using False assms(1) by (auto simp: path_ok_def neq_Nil_conv)
  then have "take 1 (join_with ''/'' (pp_parts p)) \<noteq> ''/''"
    using join_starts [of "pp_parts p" "''/''"] by (cases w) auto
  then show ?thesis
    using assms(2) join skip False by (cases p) (auto simp: path_text_def read_path_def Let_def)
qed

lemma path_text_not_empty:
  assumes "path_ok p" "pf \<noteq> Win32"
  shows "path_text pf p \<noteq> []"
proof
  assume "path_text pf p = []"
  then have "p = read_path pf []" using read_path_text [OF assms] by simp
  then have "pp_parts p = []" "\<not> pp_absolute p" using assms(2) by (simp_all add: read_path_def parts_of_def)
  then have "path_text pf p = ''.''" using assms(2) by (simp add: path_text_def Let_def)
  then show False using \<open>path_text pf p = []\<close> by simp
qed

text \<open>What \<open>resolve\<close> and \<open>stat\<close> promise: a canonical path resolves to itself, and \<open>stat\<close> follows links.\<close>

definition host_ok :: "host \<Rightarrow> bool" where
  "host_ok h \<longleftrightarrow> h_platform h \<noteq> Win32 \<and>
     (\<forall>q p. h_resolve h q = Some p \<longrightarrow> path_ok p \<and> h_resolve h p = Some p \<and> h_stat h q = h_stat h p)"

lemma host_ok_stat: "host_ok h \<Longrightarrow> h_resolve h q = Some p \<Longrightarrow> h_stat h q = h_stat h p"
  unfolding host_ok_def by blast

section \<open>What a prompt is about\<close>

lemma bindD_eq_Inl: "bindD m f = Inl e \<longleftrightarrow> m = Inl e \<or> (\<exists>x. m = Inr x \<and> f x = Inl e)"
  by (cases m) auto

lemma is_writable_no_path: "is_world_or_group_writable h p \<noteq> Inl (GPGDetectionError r (Some q) sha)"
  by (auto simp: is_world_or_group_writable_def split: option.splits)

lemma check_writability_no_path: "check_writability h p \<noteq> Inl (GPGDetectionError r (Some q) sha)"
  using is_writable_no_path by (auto simp: check_writability_def bindD_eq_Inl split: if_splits)

lemma check_directories_no_path: "check_directories h p \<noteq> Inl (GPGDetectionError r (Some q) sha)"
proof (induction h p rule: check_directories.induct)
  case (1 h current)
  then show ?case
    using is_writable_no_path [of h current]
    by (subst check_directories.simps) (auto simp: bindD_eq_Inl split: if_splits)
qed

lemma check_parent_no_path: "check_parent_writability h p \<noteq> Inl (GPGDetectionError r (Some q) sha)"
  using check_directories_no_path by (auto simp: check_parent_writability_def)

lemma hash_file_no_path: "hash_file h p \<noteq> Inl (GPGDetectionError r (Some q) sha)"
  by (auto simp: hash_file_def split: option.splits)

lemma canonicalise_no_path: "canonicalise h p \<noteq> Inl (GPGDetectionError r (Some q) sha)"
  by (auto simp: canonicalise_def split: option.splits)

lemmas no_path = check_writability_no_path check_parent_no_path hash_file_no_path canonicalise_no_path

lemma accept_whitelisted_Inl:
  "accept_whitelisted h p sha = Inl e \<longleftrightarrow>
     \<not> check_root_owned h p \<and> h_platform h \<noteq> Win32 \<and> e = GPGDetectionError NOT_ROOT_OWNED (Some p) (Some sha)"
  by (auto simp: accept_whitelisted_def)

lemma verify_trust_pin_Inl:
  assumes "verify_trust_pin h p sha ident pin = Inl (GPGDetectionError r (Some q) s)"
  shows "q = p \<and> s = Some sha \<and> r \<noteq> NOT_ROOT_OWNED"
  using assms canonicalise_no_path
  by (auto simp: verify_trust_pin_def Let_def bindD_eq_Inl split: option.splits if_splits)

lemma bind_Inl_unit: "bindD m f = Inl e \<longleftrightarrow> m = Inl e \<or> m = Inr () \<and> f () = Inl e" for m :: "unit detection"
  by (auto simp: bindD_eq_Inl)

lemma bind_Inl_hash: "bindD (hash_file h p) f = Inl e \<longleftrightarrow>
    hash_file h p = Inl e \<or> (\<exists>b. h_read h p = Some b \<and> f (h_sha256 h b) = Inl e)"
  by (auto simp: bindD_eq_Inl)

lemma bind_Inl_canonicalise: "bindD (canonicalise h p) f = Inl e \<longleftrightarrow>
    canonicalise h p = Inl e \<or> (\<exists>q. h_resolve h p = Some q \<and> f q = Inl e)"
  by (auto simp: bindD_eq_Inl)

text \<open>
  An error with a path and a hash is about a binary that passed the checks of its mode and
  its directories; whether it is listed tells which of the two prompts it is.
\<close>

definition vetted_binary :: "host \<Rightarrow> pure_path \<Rightarrow> str \<Rightarrow> bool" where
  "vetted_binary h p sha \<longleftrightarrow> check_writability h p = Inr () \<and> check_parent_writability h p = Inr () \<and>
     (\<exists>b. h_read h p = Some b \<and> sha = h_sha256 h b) \<and> (\<exists>q. h_resolve h q = Some p)"

lemma first_entry_Inl:
  assumes "first_entry h es = Inl (GPGDetectionError r (Some p) sha)"
  shows "r = NOT_ROOT_OWNED \<and> p \<in> literal_whitelist (h_platform h) \<and> vetted_binary h p (the sha) \<and> sha \<noteq> None"
  using assms
proof (induction es)
  case (Cons e es)
  show ?case
  proof (cases "h_stat h e = None \<or> (\<exists>q. h_resolve h e = Some q \<and> q \<notin> literal_whitelist (h_platform h))")
    case True
    then have "first_entry h es = Inl (GPGDetectionError r (Some p) sha)"
      using Cons.prems by (auto simp: canonicalise_def split: if_splits)
    then show ?thesis by (rule Cons.IH)
  next
    case False
    then obtain q where q: "h_resolve h e = Some q" "q \<in> literal_whitelist (h_platform h)"
        "vet_entry h q = Inl (GPGDetectionError r (Some p) sha)"
      using Cons.prems by (cases "h_resolve h e") (auto simp: canonicalise_def)
    from q(3) show ?thesis
      using q(1,2) no_path
      by (auto simp: vet_entry_def bind_Inl_unit bind_Inl_hash accept_whitelisted_Inl vetted_binary_def)
  qed
qed simp

lemma detect_user_override_Inl:
  assumes "detect_user_override h q pin = Inl (GPGDetectionError r (Some p) sha)"
  shows "vetted_binary h p (the sha) \<and> sha \<noteq> None \<and> h_resolve h q = Some p \<and>
    (p \<in> literal_whitelist (h_platform h) \<longleftrightarrow> r = NOT_ROOT_OWNED)"
proof -
  obtain q' b where q: "h_resolve h q = Some q'" "check_writability h q' = Inr ()"
      "check_parent_writability h q' = Inr ()" "h_read h q' = Some b"
    and e: "(if q' \<in> literal_whitelist (h_platform h) then accept_whitelisted h q' (h_sha256 h b)
       else bindD (verify_trust_pin h q' (h_sha256 h b) (identity_of h q') pin) (\<lambda>_.
         Inr \<lparr>dg_path = q', dg_sha256 = h_sha256 h b, dg_is_whitelisted = False,
           dg_is_root_owned = check_root_owned h q',
           dg_device = fst (identity_of h q'), dg_inode = snd (identity_of h q')\<rparr>)) =
       Inl (GPGDetectionError r (Some p) sha)"
    using assms
    unfolding detect_user_override_def bind_Inl_canonicalise bind_Inl_unit bind_Inl_hash
    by (simp only: no_path simp_thms) blast
  show ?thesis
  proof (cases "q' \<in> literal_whitelist (h_platform h)")
    case True
    with e q show ?thesis by (auto simp: accept_whitelisted_Inl vetted_binary_def)
  next
    case False
    then have "verify_trust_pin h q' (h_sha256 h b) (identity_of h q') pin = Inl (GPGDetectionError r (Some p) sha)"
      using e by (simp add: bindD_eq_Inl)
    from verify_trust_pin_Inl [OF this] q False show ?thesis by (auto simp: vetted_binary_def)
  qed
qed

lemma prompt_about:
  assumes "detect_gpg h ov pin = Inl (GPGDetectionError r (Some p) (Some sha))"
  shows "vetted_binary h p sha \<and> (p \<in> literal_whitelist (h_platform h) \<longleftrightarrow> r = NOT_ROOT_OWNED) \<and>
    (r \<noteq> NOT_ROOT_OWNED \<longrightarrow> (\<exists>c cs. ov = Some (c # cs) \<and> h_resolve h (read_path (h_platform h) (c # cs)) = Some p))"
proof (cases "ov = None \<or> ov = Some []")
  case True
  then have "first_entry h (platform_whitelist (h_platform h)) = Inl (GPGDetectionError r (Some p) (Some sha))"
    using assms by (auto simp: detect_gpg_def detect_from_whitelist_def)
  from first_entry_Inl [OF this] show ?thesis by simp
next
  case False
  then obtain c cs where c: "ov = Some (c # cs)" by (cases ov) (auto simp: neq_Nil_conv)
  then have "detect_user_override h (read_path (h_platform h) (c # cs)) pin = Inl (GPGDetectionError r (Some p) (Some sha))"
    using assms by (simp add: detect_gpg_def)
  from detect_user_override_Inl [OF this] c show ?thesis by auto
qed

section \<open>What the start comes to\<close>

text \<open>A pin just taken from a vetted binary fits it.\<close>

lemma fresh_pin_fits:
  assumes "vetted_binary h p sha" "host_ok h"
    "tp_hash pin = Some sha" "tp_path pin = Some (path_text (h_platform h) p)"
    "tp_device pin \<in> {None, fst (identity_of h p)}" "tp_inode pin \<in> {None, snd (identity_of h p)}"
  shows "pinned_as h p sha pin"
proof -
  obtain q where "h_resolve h q = Some p" using assms(1) by (auto simp: vetted_binary_def)
  then have "h_resolve h (read_path (h_platform h) (path_text (h_platform h) p)) = Some p"
    using assms(2) read_path_text [of p "h_platform h"] by (auto simp: host_ok_def)
  then show ?thesis using assms(3-6) by (auto simp: pinned_as_def)
qed

lemma vetted_chain: "vetted_binary h p sha \<Longrightarrow> host_ok h \<Longrightarrow> chain_owned h p"
  using chain_checked by (auto simp: vetted_binary_def host_ok_def)

lemma vetted_named:
  assumes "vetted_binary h p sha" "host_ok h"
  obtains c cs where "path_text (h_platform h) p = c # cs"
    "h_resolve h (read_path (h_platform h) (c # cs)) = Some p"
proof -
  obtain q where "h_resolve h q = Some p" using assms(1) by (auto simp: vetted_binary_def)
  then have p: "path_ok p" "h_resolve h p = Some p" "h_platform h \<noteq> Win32"
    using assms(2) by (auto simp: host_ok_def)
  then obtain c cs where "path_text (h_platform h) p = c # cs"
    using path_text_not_empty by (cases "path_text (h_platform h) p") auto
  with p read_path_text [OF p(1,3)] that show thesis by metis
qed

text \<open>
  One yes is enough. When the user's own binary is refused because it is not pinned, or
  because its hash or its identity is not the pinned one, and nothing else changes, then accepting
  the dialog pins its path and its present hash and the next pass of the loop returns it.
\<close>

theorem one_yes_settles:
  assumes "detect_gpg h (gc_binary_path cfg) (settings_pin cfg) = Inl (GPGDetectionError r (Some p) (Some sha))"
    "r \<in> set interactive_reasons" "r \<noteq> NOT_ROOT_OWNED" "host_ok h"
    "r1 = \<lparr>rd_found = h, rd_accepts = True, rd_again = h, rd_saves = True\<rparr>" "rd_found r2 = h"
  shows "\<exists>g cfg'. resolve_gpg [r1, r2] cfg = Some (Inr (g, cfg')) \<and> dg_path g = p \<and>
    gc_binary_path cfg' = gc_binary_path cfg \<and>
    gc_trusted cfg' = Some \<lparr>bt_path = path_text (h_platform h) p, bt_sha256 = sha,
      bt_device = fst (identity_of h p), bt_inode = snd (identity_of h p)\<rparr>"
proof -
  let ?name = "path_text (h_platform h) p"
  let ?pin = "\<lparr>tp_hash = Some sha, tp_path = Some ?name, tp_device = None, tp_inode = None\<rparr>"
  from prompt_about [OF assms(1)] assms(3) obtain c cs where v: "vetted_binary h p sha"
      "p \<notin> literal_whitelist (h_platform h)" "gc_binary_path cfg = Some (c # cs)"
      "h_resolve h (read_path (h_platform h) (c # cs)) = Some p" by auto
  obtain b where b: "h_read h p = Some b" "sha = h_sha256 h b" using v(1) by (auto simp: vetted_binary_def)
  have posix: "h_platform h \<noteq> Win32" using assms(4) by (simp add: host_ok_def)
  note chain = vetted_chain [OF v(1) assms(4)]
  obtain d ds where d: "?name = d # ds" "h_resolve h (read_path (h_platform h) (d # ds)) = Some p"
    using vetted_named [OF v(1) assms(4)] .
  have "pinned_as h p (h_sha256 h b) ?pin"
    using fresh_pin_fits [OF v(1) assms(4)] b(2) by simp
  from pinned_binary_accepted [OF d(2) chain posix b(1) v(2) this]
  obtain g1 where g1: "detect_gpg h (Some ?name) ?pin = Inr g1" "dg_path g1 = p" "\<not> dg_is_whitelisted g1"
    using d(1) by auto
  have "dg_sha256 g1 = sha \<and> dg_device g1 = fst (identity_of h p) \<and> dg_inode g1 = snd (identity_of h p)"
    using g1 b by (cases rule: detect_gpg_Inr [OF g1(1)]) (auto simp: accept_whitelisted_Inr)
  then have step: "trust_and_pin r1 p sha cfg = Inr (cfg\<lparr>gc_trusted := Some \<lparr>bt_path = ?name, bt_sha256 = sha,
      bt_device = fst (identity_of h p), bt_inode = snd (identity_of h p)\<rparr>\<rparr>)" (is "_ = Inr ?cfg")
    using g1 assms(5) by (simp add: trust_and_pin_def Let_def)
  have "pinned_as h p (h_sha256 h b) (settings_pin ?cfg)"
    using fresh_pin_fits [OF v(1) assms(4), of "settings_pin ?cfg"] b(2) by (simp add: settings_pin_def)
  from pinned_binary_accepted [OF v(4) chain posix b(1) v(2) this]
  obtain g where "detect_gpg h (gc_binary_path ?cfg) (settings_pin ?cfg) = Inr g" "dg_path g = p"
    using v(3) by auto
  then have "resolve_gpg [r1, r2] cfg = Some (Inr (g, ?cfg)) \<and> dg_path g = p"
    using assms(1,2,5,6) step by simp
  then show ?thesis by (intro exI [of _ g] exI [of _ ?cfg]) simp
qed

text \<open>
  The other prompt is a dead end: a yes to a whitelisted binary that is not root's runs the
  same check again, and its error ends the program.
\<close>

lemma whitelisted_prompt_crashes:
  assumes "detect_gpg h ov pin = Inl (GPGDetectionError NOT_ROOT_OWNED (Some p) (Some sha))"
    "host_ok h" "rd_accepts r" "rd_again r = h" "\<not> check_root_owned h p"
  shows "trust_and_pin r p sha cfg = Inl (Crashed (GPGDetectionError NOT_ROOT_OWNED (Some p) (Some sha)))"
proof -
  let ?name = "path_text (h_platform h) p"
  from prompt_about [OF assms(1)] have v: "vetted_binary h p sha" "p \<in> literal_whitelist (h_platform h)" by auto
  have posix: "h_platform h \<noteq> Win32" using assms(2) by (simp add: host_ok_def)
  obtain d ds where d: "?name = d # ds" "h_resolve h (read_path (h_platform h) (d # ds)) = Some p"
    using vetted_named [OF v(1) assms(2)] .
  then have "canonicalise h (read_path (h_platform h) (d # ds)) = Inr p" by simp
  moreover obtain b where "hash_file h p = Inr sha" using v(1) by (auto simp: vetted_binary_def)
  ultimately show ?thesis
    using v posix assms(3-5) d(1)
    by (simp add: trust_and_pin_def Let_def detect_gpg_def detect_user_override_def vetted_binary_def
        accept_whitelisted_def del: hash_file_Inr canonicalise_Inr)
qed

definition config_pin :: "host \<Rightarrow> gpg_service_config \<Rightarrow> trust_pin" where
  "config_pin h c = \<lparr>tp_hash = sc_trusted_sha256 c,
     tp_path = (if truthy (sc_trusted_sha256 c) then Some (path_text (h_platform h) (sc_binary c)) else None),
     tp_device = sc_trusted_device c, tp_inode = sc_trusted_inode c\<rparr>"

lemma revalidate_binary_Inr:
  assumes "revalidate_binary h c = Inr sha"
  obtains g where "detect_gpg h (Some (path_text (h_platform h) (sc_binary c))) (config_pin h c) = Inr g"
    "Some (dg_path g) = h_resolve h (sc_binary c)"
    "\<not> (truthy (sc_trusted_sha256 c) \<and> lower (dg_sha256 g) \<noteq> lower (the (sc_trusted_sha256 c)))"
    "\<not> (sc_trusted_device c \<noteq> None \<and> dg_device g \<noteq> sc_trusted_device c)"
    "\<not> (sc_trusted_inode c \<noteq> None \<and> dg_inode g \<noteq> sc_trusted_inode c)" "sha = dg_sha256 g"
proof (cases "detect_gpg h (Some (path_text (h_platform h) (sc_binary c))) (config_pin h c)")
  case (Inl e)
  then show thesis using assms by (simp add: revalidate_binary_def config_pin_def Let_def)
next
  case (Inr g)
  note r = assms [unfolded revalidate_binary_def Let_def, folded config_pin_def, unfolded Inr sum.case]
  show thesis
    by (rule that [of g]) (use Inr r in \<open>(simp split: if_split_asm)+\<close>)
qed

text \<open>
  C21. From the constructor to every later run: on a POSIX host, when the service has started and
  the check before a run passes on a file, then the configured path led to a binary that only its
  owner could write, like every directory above it; the file has that binary's device and inode
  and, where its content can be hashed, its hash; and that binary met the pin of the
  configuration, whether the whitelist has it or not.
\<close>

theorem started_service_runs_vetted:
  assumes "new_gpg_service h c = Inr s" "host_ok h" "path_ok (sc_binary c)"
    "binary_check s (Some f) = Inr ()"
  shows "\<exists>p st b. h_resolve h (sc_binary c) = Some p \<and> chain_owned h p \<and>
    h_stat h p = Some st \<and> h_read h p = Some b \<and>
    bf_device f = st_dev st \<and> bf_inode f = st_ino st \<and>
    (h_sha256 h b \<noteq> [] \<longrightarrow> (\<forall>x. bf_sha256 f = Some x \<longrightarrow> lower x = lower (h_sha256 h b))) \<and>
    (truthy (sc_trusted_sha256 c) \<longrightarrow> lower (the (sc_trusted_sha256 c)) = lower (h_sha256 h b)) \<and>
    sc_trusted_device c \<in> {None, Some (st_dev st)} \<and> sc_trusted_inode c \<in> {None, Some (st_ino st)}"
proof -
  let ?name = "path_text (h_platform h) (sc_binary c)"
  have posix: "h_platform h \<noteq> Win32" using assms(2) by (simp add: host_ok_def)
  obtain sha where sha: "revalidate_binary h c = Inr sha" "h_stat h (sc_binary c) \<noteq> None"
    and s: "gs_device s = map_option st_dev (h_stat h (sc_binary c))"
      "gs_inode s = map_option st_ino (h_stat h (sc_binary c))" "gs_sha256 s = sha"
    using assms(1) by (auto simp: new_gpg_service_def split: if_splits sum.splits)
  obtain g where g: "detect_gpg h (Some ?name) (config_pin h c) = Inr g" "Some (dg_path g) = h_resolve h (sc_binary c)"
    and pin: "\<not> (truthy (sc_trusted_sha256 c) \<and> lower (dg_sha256 g) \<noteq> lower (the (sc_trusted_sha256 c)))"
      "\<not> (sc_trusted_device c \<noteq> None \<and> dg_device g \<noteq> sc_trusted_device c)"
      "\<not> (sc_trusted_inode c \<noteq> None \<and> dg_inode g \<noteq> sc_trusted_inode c)" "sha = dg_sha256 g"
    by (rule revalidate_binary_Inr [OF sha(1)])
  obtain st where st: "h_stat h (dg_path g) = Some st" "h_stat h (sc_binary c) = Some st"
    using sha(2) host_ok_stat [OF assms(2) g(2) [symmetric]] by auto
  have ident: "identity_of h (dg_path g) = (Some (st_dev st), Some (st_ino st))"
    using st posix by (simp add: identity_of_def)
  have "chain_owned h (dg_path g) \<and> (\<exists>b. h_read h (dg_path g) = Some b \<and> dg_sha256 g = h_sha256 h b) \<and>
      dg_device g = Some (st_dev st) \<and> dg_inode g = Some (st_ino st)"
    using ident posix chain_checked
    by (cases rule: detect_gpg_Inr [OF g(1)]) (auto simp: accept_whitelisted_Inr)
  then obtain b where b: "chain_owned h (dg_path g)" "h_read h (dg_path g) = Some b" "dg_sha256 g = h_sha256 h b"
      "dg_device g = Some (st_dev st)" "dg_inode g = Some (st_ino st)" by blast
  have "bf_device f = st_dev st \<and> bf_inode f = st_ino st \<and>
      (sha \<noteq> [] \<longrightarrow> (\<forall>x. bf_sha256 f = Some x \<longrightarrow> lower x = lower sha))"
    using assms(4) s st by (auto simp: binary_check_def split: if_splits option.splits)
  moreover have "truthy (sc_trusted_sha256 c) \<longrightarrow> lower (the (sc_trusted_sha256 c)) = lower (h_sha256 h b)"
    using pin(1) b(3) by simp
  moreover have "sc_trusted_device c \<in> {None, Some (st_dev st)} \<and> sc_trusted_inode c \<in> {None, Some (st_ino st)}"
    using pin(2,3) b(4,5) by auto
  ultimately show ?thesis
    using g(2) [symmetric] st(1) b(1-3) pin(4)
    by (intro exI [of _ "dg_path g"] exI [of _ st] exI [of _ b] conjI) simp_all
qed

section \<open>Two starts\<close>

text \<open>The user's binary, pinned under another hash, on a host where paths are canonical.\<close>

definition demo_start :: host where
  "demo_start = demo_host\<lparr>h_resolve := (\<lambda>p. if p = demo_path then Some p else None),
     h_stat := (\<lambda>p. if h_platform demo_host = Linux then h_stat demo_host demo_path else None)\<rparr>"

definition demo_settings :: gpg_settings where
  "demo_settings = \<lparr>gc_binary_path = Some ''/opt/gpg'', gc_trusted = Some \<lparr>bt_path = ''/opt/gpg'',
     bt_sha256 = ''00'', bt_device = None, bt_inode = None\<rparr>\<rparr>"

lemma demo_start_simps [simp]:
  "h_platform demo_start = Linux" "h_read demo_start p = Some ''ELF''" "h_sha256 demo_start b = ''ab12''"
  "h_stat demo_start p = Some \<lparr>st_mode = 493, st_uid = 1000, st_dev = 7, st_ino = 42\<rparr>"
  "h_resolve demo_start p = (if p = demo_path then Some p else None)"
  by (simp_all add: demo_start_def)

lemma demo_path_ok: "path_ok demo_path"
  by code_simp

lemma demo_start_ok: "host_ok demo_start"
  using demo_path_ok by (auto simp: host_ok_def split: if_splits)

lemma demo_owner: "owner_writes_only demo_start p"
  by (simp add: owner_writes_only_def demo_mode)

lemma demo_start_chain: "chain_owned demo_start p"
  by (simp add: chain_owned_def demo_owner)

lemma demo_text: "path_text Linux demo_path = ''/opt/gpg''"
  by code_simp

lemma demo_start_vetted: "vetted_binary demo_start demo_path ''ab12''"
  unfolding vetted_binary_def
proof (intro conjI)
  show "check_writability demo_start demo_path = Inr ()"
    by (rule iffD2 [OF check_writability_Inr]) (simp_all add: demo_owner)
  show "check_parent_writability demo_start demo_path = Inr ()"
    by (rule iffD2 [OF check_parent_Inr]) (simp_all add: demo_owner)
  show "\<exists>q. h_resolve demo_start q = Some demo_path"
    by (rule exI [of _ demo_path]) simp
qed simp

lemma demo_start_pinned: "pinned_as demo_start demo_path ''ab12'' demo_pin"
  using demo_lower by (simp add: pinned_as_def demo_pin_def demo_read identity_of_def)

lemma demo_mismatch:
  "detect_gpg demo_start (gc_binary_path demo_settings) (settings_pin demo_settings) =
     Inl (GPGDetectionError HASH_MISMATCH (Some demo_path) (Some ''ab12''))"
proof -
  have "check_writability demo_start demo_path = Inr ()" "check_parent_writability demo_start demo_path = Inr ()"
    using demo_start_vetted by (simp_all add: vetted_binary_def)
  moreover have "hash_file demo_start demo_path = Inr ''ab12''"
    "canonicalise demo_start (read_path Linux ''/opt/gpg'') = Inr demo_path"
    by (simp_all add: hash_file_def demo_read canonicalise_def)
  moreover have "lower ''00'' \<noteq> lower ''ab12''" by code_simp
  ultimately show ?thesis
    using demo_unlisted
    by (simp add: detect_gpg_def detect_user_override_def demo_settings_def settings_pin_def verify_trust_pin_def
        Let_def del: hash_file_Inr canonicalise_Inr)
qed

lemma one_yes_settles_witness:
  "\<exists>g cfg'. resolve_gpg [\<lparr>rd_found = demo_start, rd_accepts = True, rd_again = demo_start, rd_saves = True\<rparr>,
       \<lparr>rd_found = demo_start, rd_accepts = False, rd_again = demo_start, rd_saves = True\<rparr>] demo_settings =
     Some (Inr (g, cfg')) \<and> dg_path g = demo_path"
  using one_yes_settles [OF demo_mismatch, of
      "\<lparr>rd_found = demo_start, rd_accepts = True, rd_again = demo_start, rd_saves = True\<rparr>"
      "\<lparr>rd_found = demo_start, rd_accepts = False, rd_again = demo_start, rd_saves = True\<rparr>"] demo_start_ok
  by (auto simp: interactive_reasons_def simp del: resolve_gpg.simps)

definition demo_config :: gpg_service_config where
  "demo_config = \<lparr>sc_binary = demo_path, sc_home = ''/home'', sc_trusted_sha256 = Some ''AB12'',
     sc_trusted_device = Some 7, sc_trusted_inode = Some 42\<rparr>"

lemma demo_service_starts:
  "new_gpg_service demo_start demo_config = Inr \<lparr>gs_binary = ''/opt/gpg'', gs_home = ''/home'',
     gs_device = Some 7, gs_inode = Some 42, gs_sha256 = ''ab12''\<rparr>"
proof -
  obtain g where g: "detect_gpg demo_start (Some ''/opt/gpg'') demo_pin = Inr g" "dg_path g = demo_path"
    using pinned_binary_accepted [of demo_start "CHR ''/''" "''opt/gpg''" demo_path "''ELF''" demo_pin]
      demo_read demo_unlisted demo_start_chain demo_start_pinned by auto
  have "dg_sha256 g = ''ab12'' \<and> dg_device g = Some 7 \<and> dg_inode g = Some 42"
    using g by (cases rule: detect_gpg_Inr [OF g(1)]) (auto simp: accept_whitelisted_Inr identity_of_def)
  then show ?thesis
    using g demo_lower
    by (simp add: new_gpg_service_def revalidate_binary_def demo_config_def demo_text truthy_def demo_pin_def)
qed

lemma started_service_runs_vetted_witness:
  "\<exists>p. h_resolve demo_start demo_path = Some p \<and> chain_owned demo_start p"
proof -
  have "binary_check \<lparr>gs_binary = ''/opt/gpg'', gs_home = ''/home'', gs_device = Some 7, gs_inode = Some 42,
      gs_sha256 = ''ab12''\<rparr> (Some \<lparr>bf_device = 7, bf_inode = 42, bf_sha256 = Some ''ab12''\<rparr>) = Inr ()"
    by (simp add: binary_check_def)
  from started_service_runs_vetted [OF demo_service_starts demo_start_ok _ this]
  show ?thesis using demo_path_ok by (auto simp: demo_config_def)
qed

end
