(* ===== verification/Folder_Service.thy ===== *)
theory Folder_Service
  imports Folder_Archive Startup Message_Service
begin

text \<open>
  \<open>services/folder_service.py\<close>: encrypting a folder and decrypting one, with the plain archive that
  exists in between. The state of GnuPG carries the file system, which its process may change.
  Writing and parsing of tar, \<open>resolve\<close>, the walk of a directory, inodes and the names of temporary
  files are parameters. The lemmas show that the plain archive is gone whatever happens, and that
  a decryption changes nothing but the one new folder.
\<close>

section \<open>The state\<close>

type_synonym ('g, 'l, 't) folder_world = "('g \<times> file_system, 'l, 't) app_world"
type_synonym ('g, 'l, 't, 'a) folder_prog = "(('g, 'l, 't) folder_world, 'a) prog"

definition fs_of :: "('g, 'l, 't) folder_world \<Rightarrow> file_system" where
  "fs_of w = snd (gw_keyring (aw_gpg w))"

definition put_fs :: "file_system \<Rightarrow> ('g, 'l, 't) folder_world \<Rightarrow> ('g, 'l, 't) folder_world" where
  "put_fs fs w = w\<lparr>aw_gpg := (aw_gpg w)\<lparr>gw_keyring := (fst (gw_keyring (aw_gpg w)), fs)\<rparr>\<rparr>"

interpretation fs_part: state_part fs_of put_fs
  by unfold_locales (simp_all add: fs_of_def put_fs_def)

abbreviation on_fs :: "(file_system, 'a) prog \<Rightarrow> ('g, 'l, 't, 'a) folder_prog" where
  "on_fs \<equiv> zoomP fs_of put_fs"

record folder_env =
  fe_resolve :: "file_system \<Rightarrow> path \<Rightarrow> path"
  fe_walk :: "file_system \<Rightarrow> path \<Rightarrow> path list"
  fe_inode :: "path \<Rightarrow> nat"
  fe_write_tar :: "tar_member list \<Rightarrow> bytes"
  fe_read_tar :: "bytes \<Rightarrow> tar_member list option"
  fe_tmp :: str
  fe_staging :: str

record folder_decrypt_result =
  fd_folder :: path
  fd_decrypted_with :: "str option"

definition posix_text :: "path \<Rightarrow> str" where
  "posix_text p = path_text Linux \<lparr>pp_absolute = True, pp_parts = p\<rparr>"

definition path_is_file :: "file_system \<Rightarrow> path \<Rightarrow> bool" where
  "path_is_file fs p \<longleftrightarrow> (case fs_node fs p of Some (Link t) \<Rightarrow> t = ToOther | Some (File _ _) \<Rightarrow> True | _ \<Rightarrow> False)"

section \<open>The temporary archive\<close>

definition mkstemp :: "path \<Rightarrow> (file_system, unit) prog" where
  "mkstemp p = (\<lambda>fs. case walk_error fs p of
       Some e \<Rightarrow> (Inl e, fs)
     | None \<Rightarrow> if fs_node fs p \<noteq> None then (Inl FileExistsError, fs)
         else (Inr (), put_node p (File (masked FILE_MODE (fs_umask fs)) []) fs))"

text \<open>\<open>os.unlink\<close>, with every \<open>OSError\<close> suppressed: a directory stays.\<close>

definition unlink_quietly :: "path \<Rightarrow> (file_system, unit) prog" where
  "unlink_quietly p = modifyP (\<lambda>fs. if real_dir fs p then fs else fs\<lparr>fs_node := (fs_node fs)(p := None)\<rparr>)"

definition with_temp_file :: "path \<Rightarrow> ('g, 'l, 't, 'a) folder_prog \<Rightarrow> ('g, 'l, 't, 'a) folder_prog" where
  "with_temp_file p body = thenP (on_fs (mkstemp p)) (finallyP body (on_fs (unlink_quietly p)))"

text \<open>\<open>tarfile.open(archive, "w")\<close> truncates the file that \<open>mkstemp\<close> made.\<close>

definition pack_folder :: "folder_env \<Rightarrow> path \<Rightarrow> path \<Rightarrow> (file_system, nat) prog" where
  "pack_folder fe folder archive = (\<lambda>fs.
     let members = pack_members fs (fe_inode fe) folder [] (fe_walk fe fs folder) in
     case fs_node fs archive of
       Some (File mode _) \<Rightarrow> (Inr (count_files members), put_node archive (File mode (fe_write_tar fe members)) fs)
     | _ \<Rightarrow> (Inl OSError, fs))"

definition unpack_folder :: "folder_env \<Rightarrow> path \<Rightarrow> path \<Rightarrow> (file_system, path) prog" where
  "unpack_folder fe archive destination = bindP (getP (\<lambda>fs. fs_node fs archive)) (\<lambda>n. case n of
       Some (File _ b) \<Rightarrow>
         (case fe_read_tar fe b of
            None \<Rightarrow> raiseP ValueError
          | Some members \<Rightarrow> extract_archive (fe_resolve fe) (fe_staging fe) members destination)
     | _ \<Rightarrow> raiseP OSError)"

section \<open>The service\<close>

text \<open>The bodies, once both paths have been resolved.\<close>

definition encrypt_resolved ::
    "folder_env \<Rightarrow> ('g \<times> file_system, 'l, 't) app_env \<Rightarrow> path \<Rightarrow> path \<Rightarrow> str list \<Rightarrow> secure_bytes option \<Rightarrow> bool \<Rightarrow>
     ('g, 'l, 't, path) folder_prog" where
  "encrypt_resolved fe env folder target recipient_fingerprints passphrase trust_confirmed =
     bindP (on_fs (getP (\<lambda>fs. path_is_dir fs folder))) (\<lambda>is_folder.
     if \<not> is_folder \<or> folder = [] then raiseP ValueError
     else if prefix folder target then raiseP ValueError
     else bindP (liftP (mapE validate_fingerprint recipient_fingerprints)) (\<lambda>recipients.
       thenP
         (if recipients \<noteq> [] then on_gpg_service (enforce_recipient_policy (ae_gpg env) recipients trust_confirmed)
          else if passphrase = None then raiseP ValueError
          else retP ())
         (let archive = butlast target @ [fe_tmp fe] in
          bindP (with_temp_file archive
            (bindP (on_fs (pack_folder fe folder archive)) (\<lambda>file_count.
             thenP (on_gpg_service (encrypt_file (ae_gpg env) (posix_text archive) (posix_text target) recipients
                 (if recipients \<noteq> [] then None else passphrase) trust_confirmed))
               (retP file_count)))) (\<lambda>file_count.
          thenP (emit_event env ''folder_encrypted'' OK
              [(''mode'', PStr (if recipients \<noteq> [] then ''key'' else ''passphrase'')),
               (''recipient_count'', PInt (int (length recipients))), (''file_count'', PInt (int file_count))])
            (retP target)))))"

definition encrypt_folder ::
    "folder_env \<Rightarrow> ('g \<times> file_system, 'l, 't) app_env \<Rightarrow> path \<Rightarrow> path \<Rightarrow> str list \<Rightarrow> secure_bytes option \<Rightarrow> bool \<Rightarrow>
     ('g, 'l, 't, path) folder_prog" where
  "encrypt_folder fe env folder target recipient_fingerprints passphrase trust_confirmed = (\<lambda>w.
     encrypt_resolved fe env (fe_resolve fe (fs_of w) folder) (fe_resolve fe (fs_of w) target)
       recipient_fingerprints passphrase trust_confirmed w)"

definition decrypt_resolved ::
    "folder_env \<Rightarrow> ('g \<times> file_system, 'l, 't) app_env \<Rightarrow> path \<Rightarrow> path \<Rightarrow> secure_bytes option \<Rightarrow>
     ('g, 'l, 't, folder_decrypt_result) folder_prog" where
  "decrypt_resolved fe env source destination passphrase =
     bindP (on_fs (getP (\<lambda>fs. path_is_file fs source))) (\<lambda>is_file.
     bindP (on_fs (getP (\<lambda>fs. path_is_dir fs destination))) (\<lambda>is_dir.
     if \<not> is_file then raiseP ValueError
     else if \<not> is_dir then raiseP ValueError
     else
       (let archive = destination @ [fe_tmp fe] in
        bindP (catchP
          (with_temp_file archive
            (bindP (on_gpg_service (decrypt_file (ae_gpg env) (posix_text source) (posix_text archive) passphrase)) (\<lambda>decrypted_with.
             bindP (on_fs (unpack_folder fe archive destination)) (\<lambda>folder. retP (decrypted_with, folder)))))
          (\<lambda>e. thenP (emit_event env ''folder_decrypt_failed'' FAILED [(''reason'', PStr (exn_name e))]) (raiseP e)))
        (\<lambda>(decrypted_with, folder).
         thenP (emit_event env ''folder_decrypted'' OK [(''decrypted_with'', PStr (or_empty decrypted_with))])
           (retP \<lparr>fd_folder = folder, fd_decrypted_with = decrypted_with\<rparr>)))))"

definition decrypt_folder ::
    "folder_env \<Rightarrow> ('g \<times> file_system, 'l, 't) app_env \<Rightarrow> path \<Rightarrow> path \<Rightarrow> secure_bytes option \<Rightarrow>
     ('g, 'l, 't, folder_decrypt_result) folder_prog" where
  "decrypt_folder fe env source destination passphrase = (\<lambda>w.
     decrypt_resolved fe env (fe_resolve fe (fs_of w) source) (fe_resolve fe (fs_of w) destination) passphrase w)"

section \<open>The plain archive\<close>

text \<open>A property of what GnuPG keeps that its process maintains is kept by every operation.\<close>

definition process_keeps :: "'k gpg_env \<Rightarrow> ('k \<Rightarrow> bool) \<Rightarrow> bool" where
  "process_keeps env K \<longleftrightarrow> (\<forall>rq k. K k \<longrightarrow> K (snd (ge_process env rq k)))"

abbreviation keyring_is :: "('k \<Rightarrow> bool) \<Rightarrow> 'k gpg_world \<Rightarrow> bool" where
  "keyring_is K w \<equiv> K (gw_keyring w)"

lemma start_keeps: "process_keeps env K \<Longrightarrow> preserves (keyring_is K) (start_process env e rq)"
  by (simp add: preserves_def start_process_def process_keeps_def split_def)

lemma run_keeps: "process_keeps env K \<Longrightarrow> preserves (keyring_is K) (run_gpg env args input pw status)"
  unfolding run_gpg_def run_gpg_with_def assert_binary_not_swapped_def
  by (auto intro!: preserves_intros start_keeps)

lemma find_keeps: "process_keeps env K \<Longrightarrow> preserves (keyring_is K) (find_key env fp)"
  unfolding find_key_def list_keys_def secret_storage_def by (auto intro!: preserves_intros run_keeps)

lemma policy_keeps:
  assumes "process_keeps env K"
  shows "preserves (keyring_is K) (enforce_recipient_policy env fps confirmed)"
proof -
  have "preserves (keyring_is K) (check_recipients env confirmed fps)"
    using find_keeps [OF assms] by (induction fps) (simp_all only: check_recipients.simps preserves_intros)
  then show ?thesis by (auto simp: enforce_recipient_policy_def intro!: preserves_intros)
qed

lemma encrypt_file_keeps: "process_keeps env K \<Longrightarrow> preserves (keyring_is K) (encrypt_file env source target fps pw trust)"
  unfolding encrypt_file_def by (auto intro!: preserves_intros run_keeps)

lemma decrypt_file_keeps: "process_keeps env K \<Longrightarrow> preserves (keyring_is K) (decrypt_file env source target pw)"
  unfolding decrypt_file_def by (auto intro!: preserves_intros run_keeps)

text \<open>A property of the file system, kept by GnuPG, the audit log and the operations on files.\<close>

definition files_are :: "(file_system \<Rightarrow> bool) \<Rightarrow> ('g, 'l, 't) folder_world \<Rightarrow> bool" where
  "files_are F = (\<lambda>w. F (fs_of w))"

lemma on_gpg_files:
  assumes "preserves (keyring_is (\<lambda>k. F (snd k))) m"
  shows "preserves (files_are F) (on_gpg_service m)"
  unfolding files_are_def fs_of_def by (rule gpg_part.preserves_zoom [OF assms])

lemma on_fs_files: "preserves F m \<Longrightarrow> preserves (files_are F) (on_fs m)"
  unfolding files_are_def by (rule fs_part.preserves_zoom)

lemma emit_files: "preserves (files_are F) (emit_event env ev oc pl)"
  by (simp add: preserves_def files_are_def fs_of_def emit_event_def audit_part.zoom_snd)

text \<open>While the archive is there it is no directory; then it is unlinked.\<close>

lemma with_temp_file_gone:
  fixes body :: "('g, 'l, 't, 'a) folder_prog"
  assumes "preserves (files_are (\<lambda>fs. \<not> real_dir fs p)) body"
  shows "preserves (files_are (\<lambda>fs. fs_node fs p = None)) (with_temp_file p body)"
  unfolding preserves_def
proof (intro allI impI)
  fix w :: "('g, 'l, 't) folder_world"
  assume w: "files_are (\<lambda>fs. fs_node fs p = None) w"
  obtain r fs where mk: "mkstemp p (fs_of w) = (r, fs)" by fastforce
  show "files_are (\<lambda>fs. fs_node fs p = None) (snd (with_temp_file p body w))"
  proof (cases r)
    case (Inl e)
    then have "fs = fs_of w" using mk by (auto simp: mkstemp_def split: option.splits if_splits)
    then show ?thesis using w mk Inl by (simp add: with_temp_file_def thenP_def bindP_def zoomP_def files_are_def)
  next
    case (Inr u)
    then have "\<not> real_dir fs p"
      using mk by (auto simp: mkstemp_def real_dir_iff put_node_def split: option.splits if_splits)
    then have "files_are (\<lambda>fs. \<not> real_dir fs p) (put_fs fs w)" by (simp add: files_are_def)
    then have "files_are (\<lambda>fs. \<not> real_dir fs p) (snd (body (put_fs fs w)))"
      using assms by (simp add: preserves_def)
    then show ?thesis
      using mk Inr by (simp add: with_temp_file_def thenP_def bindP_def zoomP_def finallyP_def files_are_def
          unlink_quietly_def split_def)
  qed
qed

lemma pack_no_dir: "preserves (\<lambda>fs. \<not> real_dir fs p) (pack_folder fe folder archive)"
  by (auto simp: preserves_def pack_folder_def Let_def put_node_def real_dir_iff split: option.splits node.splits)


section \<open>What decryption changes\<close>

text \<open>What \<open>gpg --output\<close> does: it writes that one file, and makes no directory or link of it.\<close>

definition outputs_to :: "'k gpg_env \<Rightarrow> path \<Rightarrow> gpg_request \<Rightarrow> bool" where
  "outputs_to env p rq \<longleftrightarrow> (\<exists>xs ys. rq_argv rq = xs @ [''--output'', ge_resolve env (posix_text p)] @ ys)"

definition plain_at :: "path \<Rightarrow> file_system \<Rightarrow> bool" where
  "plain_at p fs \<longleftrightarrow> \<not> real_dir fs p \<and> \<not> is_link fs p"

definition output_law :: "('g \<times> file_system) gpg_env \<Rightarrow> path \<Rightarrow> bool" where
  "output_law env p \<longleftrightarrow> (\<forall>rq g fs. outputs_to env p rq \<longrightarrow>
     (let fs' = snd (snd (ge_process env rq (g, fs))) in
      (\<forall>q. q \<noteq> p \<longrightarrow> fs_node fs' q = fs_node fs q) \<and> (plain_at p fs \<longrightarrow> plain_at p fs')))"

definition only_at :: "path \<Rightarrow> file_system \<Rightarrow> file_system \<Rightarrow> bool" where
  "only_at p fs fs' \<longleftrightarrow> (\<forall>q. q \<noteq> p \<longrightarrow> fs_node fs' q = fs_node fs q) \<and> plain_at p fs'"

lemma run_gpg_keyring:
  assumes "run_gpg env args input pw status w = (x, w')"
  shows "w' = w \<or> (\<exists>rq fds. rq_argv rq = base_cmd (ge_service env) @ fds @ args \<and>
    gw_keyring w' = snd (ge_process env rq (gw_keyring w)))"
proof (cases "gpg_request_of env [] args input pw status")
  case (Inl e)
  then show ?thesis
    using assms by (auto simp: run_gpg_def run_gpg_with_def thenP_def bindP_def assert_binary_not_swapped_def
        split: sum.splits)
next
  case (Inr rq)
  from gpg_request_of_Inr(4) [OF Inr] obtain fds where "rq_argv rq = base_cmd (ge_service env) @ fds @ args" by blast
  then show ?thesis
    using assms Inr by (auto simp: run_gpg_def run_gpg_with_def thenP_def bindP_def assert_binary_not_swapped_def
        start_process_def split: sum.splits prod.splits option.splits)
qed

lemma decrypt_file_only_at:
  assumes "on_gpg_service (decrypt_file (ae_gpg env) source (posix_text p) pw) w = (x, w')"
    "output_law (ae_gpg env) p" "plain_at p (fs_of w)"
  shows "only_at p (fs_of w) (fs_of w')"
proof -
  let ?g = "ae_gpg env"
  let ?args = "[''--yes'', ''--no-symkey-cache'', ''--output'', ge_resolve ?g (posix_text p), ''--decrypt'', ge_resolve ?g source]"
  obtain y g where y: "run_gpg ?g ?args None pw True (aw_gpg w) = (y, g)" by fastforce
  then have g: "aw_gpg w' = g"
    using assms(1) by (cases y) (auto simp: gpg_part.zoom_eq decrypt_file_def bindP_def thenP_def split: sum.splits prod.splits)
  from run_gpg_keyring [OF y] show ?thesis
  proof
    assume "g = aw_gpg w"
    then show ?thesis using g assms(3) by (simp add: only_at_def fs_of_def)
  next
    assume "\<exists>rq fds. rq_argv rq = base_cmd (ge_service ?g) @ fds @ ?args \<and> gw_keyring g = snd (ge_process ?g rq (gw_keyring (aw_gpg w)))"
    then obtain rq fds where rq: "rq_argv rq = base_cmd (ge_service ?g) @ fds @ ?args"
      "gw_keyring g = snd (ge_process ?g rq (gw_keyring (aw_gpg w)))" by blast
    have "outputs_to ?g p rq"
      unfolding outputs_to_def rq(1)
      by (intro exI [of _ "base_cmd (ge_service ?g) @ fds @ [''--yes'', ''--no-symkey-cache'']"]
          exI [of _ "[''--decrypt'', ge_resolve ?g source]"]) simp
    then show ?thesis
      using assms(2,3) rq(2) g unfolding output_law_def only_at_def fs_of_def Let_def by (metis prod.collapse)
  qed
qed

definition only_folder_new :: "file_system \<Rightarrow> path \<Rightarrow> path \<Rightarrow> file_system \<Rightarrow> bool" where
  "only_folder_new fs destination final fs' \<longleftrightarrow>
     (\<exists>root. final = destination @ [root] \<and> root \<noteq> [] \<and> root \<noteq> ''..'' \<and> CHR ''/'' \<notin> set root) \<and>
     fs_node fs final = None \<and>
     (\<forall>q. \<not> prefix final q \<longrightarrow> fs_node fs' q = fs_node fs q) \<and>
     (\<forall>q. prefix final q \<longrightarrow> \<not> is_link fs' q)"

lemma unlink_back:
  assumes "only_at p fs fs'" "fs_node fs p = None"
  shows "fs_node (snd (unlink_quietly p fs')) = fs_node fs"
  using assms by (auto simp: only_at_def plain_at_def unlink_quietly_def fun_eq_iff)

lemma unpack_then_unlink:
  assumes "unpack_folder fe p destination fs2 = (r, fs3)"
    and here: "only_at p fs0 fs2" "fs_node fs0 p = None" and p: "p = destination @ [fe_tmp fe]"
    and laws: "resolves_plain (fe_resolve fe)" "fe_staging fe \<noteq> fe_tmp fe"
    and dest: "\<forall>k \<le> length destination. real_dir fs0 (take k destination)"
    and unused: "\<forall>q. prefix (destination @ [fe_staging fe]) q \<longrightarrow> fs_node fs0 q = None"
  shows "case r of
      Inl e \<Rightarrow> fs_node (snd (unlink_quietly p fs3)) = fs_node fs0
    | Inr final \<Rightarrow> only_folder_new fs0 destination final (snd (unlink_quietly p fs3))"
proof -
  have restored: "fs_node (snd (unlink_quietly p fs)) = fs_node fs0" if "fs_node fs = fs_node fs2" for fs
  proof -
    have "only_at p fs0 fs" using here(1) that by (simp add: only_at_def plain_at_def real_dir_iff is_link_def)
    from unlink_back [OF this here(2)] show ?thesis .
  qed
  consider "isl r" "fs3 = fs2" |
    members where "extract_archive (fe_resolve fe) (fe_staging fe) members destination fs2 = (r, fs3)"
    using assms(1) by (auto simp: unpack_folder_def split: option.splits node.splits)
  then show ?thesis
  proof cases
    case 1
    then show ?thesis using restored [of fs3] by (cases r) simp_all
  next
    case (2 members)
    have "take k destination \<noteq> p" for k using p by (metis append_eq_conv_conj length_append_singleton lessI
          linorder_not_less take_all_iff append_self_conv not_Cons_self2 prefix_length_le take_is_prefix)
    then have "\<forall>k \<le> length destination. real_dir fs2 (take k destination)"
      using dest here(1) by (simp add: only_at_def real_dir_iff)
    moreover have "\<forall>q. prefix (destination @ [fe_staging fe]) q \<longrightarrow> fs_node fs2 q = None"
      using unused here(1) laws(2) p by (auto simp: only_at_def prefix_def)
    ultimately have inside: "case r of Inl e \<Rightarrow> fs_node fs3 = fs_node fs2
      | Inr final \<Rightarrow> \<exists>root. archive_root members = Inr root \<and> final = destination @ [root] \<and>
        root \<noteq> [] \<and> root \<noteq> ''..'' \<and> CHR ''/'' \<notin> set root \<and> fs_node fs2 final = None \<and>
        (\<forall>q. \<not> prefix final q \<longrightarrow> fs_node fs3 q = fs_node fs2 q) \<and> (\<forall>q. prefix final q \<longrightarrow> \<not> is_link fs3 q)"
      using unpacking_stays_inside [OF 2 laws(1)] by blast
    show ?thesis
    proof (cases r)
      case (Inl e)
      then show ?thesis using inside restored [of fs3] by simp
    next
      case (Inr final)
      then obtain root where f: "final = destination @ [root]" "root \<noteq> []" "root \<noteq> ''..''" "CHR ''/'' \<notin> set root"
        "fs_node fs2 final = None" "\<forall>q. \<not> prefix final q \<longrightarrow> fs_node fs3 q = fs_node fs2 q"
        "\<forall>q. prefix final q \<longrightarrow> \<not> is_link fs3 q" using inside by auto
      let ?fs = "snd (unlink_quietly p fs3)"
      have un: "fs_node ?fs q = (if q = p \<and> \<not> real_dir fs3 p then None else fs_node fs3 q)" for q
        by (simp add: unlink_quietly_def)
      have "fs_node fs0 final = None" using f(5) here by (cases "final = p") (auto simp: only_at_def)
      moreover have "fs_node ?fs q = fs_node fs0 q" if "\<not> prefix final q" for q
      proof (cases "q = p")
        case True
        then have "fs_node fs3 p = fs_node fs2 p" using f(6) that by blast
        then have "\<not> real_dir fs3 p" using here(1) by (simp add: only_at_def plain_at_def real_dir_iff)
        then show ?thesis using True un here(2) by simp
      next
        case False
        then show ?thesis using f(6) that un here(1) by (simp add: only_at_def)
      qed
      moreover have "\<not> is_link ?fs q" if "prefix final q" for q
        using f(7) that un by (auto simp: is_link_def split: if_splits)
      ultimately show ?thesis using Inr f(1-4) by (auto simp: only_folder_new_def)
    qed
  qed
qed

lemma emit_fs: "emit_event env ev oc pl w = (x, w') \<Longrightarrow> fs_of w' = fs_of w"
  by (drule emit_event_parts) (simp add: fs_of_def)

lemma on_fs_get: "bindP (on_fs (getP f)) k w = k (f (fs_of w)) w"
  by (simp add: bindP_def zoomP_def)

lemma finally_unlink:
  assumes "body w = (r, w1)"
  shows "finallyP body (on_fs (unlink_quietly p)) w = (r, put_fs (snd (unlink_quietly p (fs_of w1))) w1)"
  using assms by (simp add: finallyP_def zoomP_def unlink_quietly_def)

lemma archive_session:
  fixes env :: "('g \<times> file_system, 'l, 't) app_env"
  assumes run: "with_temp_file p
      (bindP (on_gpg_service (decrypt_file (ae_gpg env) source (posix_text p) pw)) (\<lambda>d.
       bindP (on_fs (unpack_folder fe p destination)) (\<lambda>f. retP (d, f)))) w = (r, w')"
    and gpg: "output_law (ae_gpg env) p" and p: "p = destination @ [fe_tmp fe]"
    and laws: "resolves_plain (fe_resolve fe)" "fe_staging fe \<noteq> fe_tmp fe"
    and dest: "\<forall>k \<le> length destination. real_dir (fs_of w) (take k destination)"
    and unused: "\<forall>q. prefix (destination @ [fe_staging fe]) q \<longrightarrow> fs_node (fs_of w) q = None"
  shows "case r of
      Inl e \<Rightarrow> fs_node (fs_of w') = fs_node (fs_of w)
    | Inr x \<Rightarrow> only_folder_new (fs_of w) destination (snd x) (fs_of w')"
proof -
  let ?body = "bindP (on_gpg_service (decrypt_file (ae_gpg env) source (posix_text p) pw)) (\<lambda>d.
       bindP (on_fs (unpack_folder fe p destination)) (\<lambda>f. retP (d, f)))"
  obtain m fs1 where mk: "mkstemp p (fs_of w) = (m, fs1)" by fastforce
  show ?thesis
  proof (cases m)
    case (Inl e)
    then have "fs1 = fs_of w" using mk by (auto simp: mkstemp_def split: option.splits if_splits)
    then show ?thesis using run mk Inl by (auto simp: with_temp_file_def thenP_def bindP_def zoomP_def)
  next
    case (Inr u)
    then have fresh: "fs_node (fs_of w) p = None" "only_at p (fs_of w) fs1"
      using mk by (auto simp: mkstemp_def only_at_def plain_at_def real_dir_iff is_link_def put_node_def
          split: option.splits if_splits)
    let ?w1 = "put_fs fs1 w"
    obtain rb w3 where body: "?body ?w1 = (rb, w3)" by fastforce
    have "on_fs (mkstemp p) w = (Inr (), ?w1)" using mk Inr by (simp add: zoomP_def)
    then have "with_temp_file p ?body w = finallyP ?body (on_fs (unlink_quietly p)) ?w1"
      unfolding with_temp_file_def by (rule thenP_run(2))
    then have end_state: "r = rb" "fs_of w' = snd (unlink_quietly p (fs_of w3))"
      using run finally_unlink [where body = ?body and w = ?w1 and p = p, OF body] by auto
    obtain x w2 where x: "on_gpg_service (decrypt_file (ae_gpg env) source (posix_text p) pw) ?w1 = (x, w2)"
      by fastforce
    have "only_at p fs1 (fs_of w2)"
      using decrypt_file_only_at [OF x gpg] fresh(2) by (simp add: only_at_def)
    then have fs2: "only_at p (fs_of w) (fs_of w2)" using fresh(2) by (simp add: only_at_def)
    show ?thesis
    proof (cases x)
      case (Inl e)
      then have "rb = Inl e" "w3 = w2" using body x by (auto simp: monad_simps)
      then show ?thesis using unlink_back [OF fs2 fresh(1)] end_state by simp
    next
      case (Inr d)
      obtain ru fs3 where un: "unpack_folder fe p destination (fs_of w2) = (ru, fs3)" by fastforce
      have "rb = (case ru of Inl e \<Rightarrow> Inl e | Inr f \<Rightarrow> Inr (d, f))" "w3 = put_fs fs3 w2"
        using body x un Inr by (auto simp: bindP_def zoomP_def split: sum.splits)
      then show ?thesis
        using unpack_then_unlink [OF un fs2 fresh(1) p laws dest unused] end_state by (cases ru) simp_all
    qed
  qed
qed

text \<open>An operation with an event for its failure and one for its success.\<close>

lemma session_with_events:
  assumes session: "m w = (rs, ws)"
    and run: "bindP (catchP m (\<lambda>e. thenP (emit_event env failed FAILED (pf e)) (raiseP e))) k w = (r, w')"
    and k: "\<And>x. k x = thenP (emit_event env done OK (pd x)) (retP (g x))"
    and recorded: "\<forall>pl l. isl (fst (ae_emit env done OK pl l)) = False"
  shows "fs_of w' = fs_of ws \<and> (case rs of Inl e \<Rightarrow> isl r | Inr x \<Rightarrow> r = Inr (g x))"
proof (cases rs)
  case (Inl e)
  let ?h = "\<lambda>e. thenP (emit_event env failed FAILED (pf e)) (raiseP e)"
  obtain x w2 where x: "emit_event env failed FAILED (pf e) ws = (x, w2)" by fastforce
  have "catchP m ?h w = ?h e ws"
    by (rule catchP_run(1) [where m = m and s = w and h = ?h, OF session [unfolded Inl]])
  then obtain e' where "catchP m ?h w = (Inl e', w2)" using x by (cases x) (simp_all add: thenP_run)
  from bindP_run(1) [where m = "catchP m ?h" and s = w and f = k, OF this] show ?thesis
    using run Inl emit_fs [OF x] by simp
next
  case (Inr y)
  let ?h = "\<lambda>e. thenP (emit_event env failed FAILED (pf e)) (raiseP e)"
  obtain x w2 where x: "emit_event env done OK (pd y) ws = (x, w2)" by fastforce
  then have "isl x = False"
    using recorded by (auto simp: emit_event_def zoomP_def split: prod.splits) (metis fst_conv)
  then obtain u where u: "x = Inr u" by (cases x) auto
  have h: "catchP m ?h w = (Inr y, ws)"
    by (rule catchP_run(2) [where m = m and s = w, OF session [unfolded Inr]])
  from bindP_run(2) [where m = "catchP m ?h" and s = w and f = k, OF h] have "k y ws = (r, w')" using run by simp
  then have "r = Inr (g y)" "w' = w2"
    using thenP_run(2) [where m = "emit_event env done OK (pd y)" and s = ws and k = "retP (g y)", OF x [unfolded u]] k [of y]
    by simp_all
  then show ?thesis using Inr emit_fs [OF x] by simp
qed

text \<open>
  C4. Decrypting a folder changes nothing but the one new folder, whatever the archive holds:
  when it returns, the folder is a single new component of the destination, every path not below
  it is as it was and none below it is a symbolic link; when it raises, every path is as it was.
  GnuPG is taken to write the output it is told to, the audit log to take the final event, and
  the two temporary names to be distinct and unused.
\<close>

theorem decryption_stays_inside:
  fixes env :: "('g \<times> file_system, 'l, 't) app_env"
  assumes "decrypt_folder fe env source0 destination0 pw w = (r, w')"
    "destination = fe_resolve fe (fs_of w) destination0"
    "\<forall>k \<le> length destination. real_dir (fs_of w) (take k destination)"
    "\<forall>q. prefix (destination @ [fe_staging fe]) q \<longrightarrow> fs_node (fs_of w) q = None"
    "output_law (ae_gpg env) (destination @ [fe_tmp fe])"
    "resolves_plain (fe_resolve fe)" "fe_staging fe \<noteq> fe_tmp fe"
    "\<forall>pl l. isl (fst (ae_emit env ''folder_decrypted'' OK pl l)) = False"
  shows "case r of
      Inl e \<Rightarrow> fs_node (fs_of w') = fs_node (fs_of w)
    | Inr res \<Rightarrow> only_folder_new (fs_of w) destination (fd_folder res) (fs_of w')"
proof -
  let ?p = "destination @ [fe_tmp fe]" and ?source = "fe_resolve fe (fs_of w) source0"
  let ?session = "with_temp_file ?p
      (bindP (on_gpg_service (decrypt_file (ae_gpg env) (posix_text ?source) (posix_text ?p) pw)) (\<lambda>d.
       bindP (on_fs (unpack_folder fe ?p destination)) (\<lambda>f. retP (d, f))))"
  obtain rs ws where session: "?session w = (rs, ws)" by fastforce
  note s = archive_session [OF session assms(5) refl assms(6,7,3,4)]
  let ?report = "\<lambda>(d, f). thenP (emit_event env ''folder_decrypted'' OK [(''decrypted_with'', PStr (or_empty d))])
      (retP \<lparr>fd_folder = f, fd_decrypted_with = d\<rparr>)"
  show ?thesis
  proof (cases "path_is_file (fs_of w) ?source \<and> path_is_dir (fs_of w) destination")
    case False
    then have "isl r" "w' = w"
      using assms(1) by (auto simp: decrypt_folder_def decrypt_resolved_def on_fs_get assms(2) [symmetric] split: if_splits)
    then show ?thesis by (cases r) simp_all
  next
    case True
    then have run: "bindP (catchP ?session (\<lambda>e. thenP (emit_event env ''folder_decrypt_failed'' FAILED [(''reason'', PStr (exn_name e))])
        (raiseP e))) ?report w = (r, w')"
      using assms(1) by (simp add: decrypt_folder_def decrypt_resolved_def on_fs_get assms(2) [symmetric] Let_def)
    have "?report x = thenP (emit_event env ''folder_decrypted'' OK [(''decrypted_with'', PStr (or_empty (fst x)))])
        (retP \<lparr>fd_folder = snd x, fd_decrypted_with = fst x\<rparr>)" for x by (simp add: case_prod_beta)
    from session_with_events [OF session run this assms(8)] show ?thesis
      using s by (cases rs; cases r) auto
  qed
qed

section \<open>A decryption and an encryption\<close>

definition tmp_archive :: path where
  "tmp_archive = [''home'', ''t'']"

text \<open>A GnuPG that writes the archive whenever it is there to be written.\<close>

definition archive_gpg :: "(unit \<times> file_system) gpg_env" where
  "archive_gpg = \<lparr>ge_service = demo_service,
     ge_process = (\<lambda>rq (g, fs). (Some \<lparr>gr_args = [], gr_returncode = 0, gr_stdout = [], gr_stderr = [], gr_status = []\<rparr>,
        (g, if fs_node fs tmp_archive = None then fs else put_node tmp_archive (File 384 ''tar'') fs))),
     ge_status_fd = ''5'', ge_pass_fd = ''7'', ge_now = 0, ge_timestamp = (\<lambda>_. None), ge_sig_path = ''/s'',
     ge_data_path = ''/d'', ge_resolve = (\<lambda>p. p)\<rparr>"

definition folder_app :: "(unit \<times> file_system, str list, nat) app_env" where
  "folder_app = \<lparr>ae_gpg = archive_gpg, ae_store = demo_senv,
     ae_emit = (\<lambda>ev out pl l. (Inr (), l @ [ev])), ae_enroll = (\<lambda>pin user t. (Inr (demo_cred, demo_token_key), t)),
     ae_derive = (\<lambda>cred pin t. (Inl FidoUnavailableError, t)), ae_crypto = demo_crypto, ae_kdf = demo_params,
     ae_secret = demo_draw, ae_salt = demo_draw, ae_nonce = demo_draw, ae_token_nonce = demo_draw,
     ae_has_metadata = True, ae_has_unlock = True\<rparr>"

definition folder_demo :: folder_env where
  "folder_demo = \<lparr>fe_resolve = (\<lambda>fs p. p), fe_walk = (\<lambda>fs p. [p]), fe_inode = length, fe_write_tar = (\<lambda>_. ''tar''),
     fe_read_tar = (\<lambda>_. Some demo_archive), fe_tmp = ''t'', fe_staging = ''s''\<rparr>"

definition folder_start :: "(unit, str list, nat) folder_world" where
  "folder_start = \<lparr>aw_gpg = \<lparr>gw_keyring = ((), put_node [''home'', ''f''] (File 420 ''enc'') demo_fs), gw_calls = [],
       gw_binary = gw_binary demo_gworld\<rparr>,
     aw_store = empty_store, aw_audit = [], aw_token = 0\<rparr>"

lemma archive_gpg_process: "snd (snd (ge_process archive_gpg rq (g, fs))) =
    (if fs_node fs tmp_archive = None then fs else put_node tmp_archive (File 384 ''tar'') fs)"
  by (simp add: archive_gpg_def)

lemma archive_gpg_law: "output_law archive_gpg tmp_archive"
  by (auto simp: output_law_def archive_gpg_process put_node_def plain_at_def real_dir_iff is_link_def Let_def)

lemma archive_gpg_keeps:
  "process_keeps archive_gpg (\<lambda>k. fs_node (snd k) tmp_archive = None)"
  "process_keeps archive_gpg (\<lambda>k. \<not> real_dir (snd k) tmp_archive)"
  by (auto simp: process_keeps_def archive_gpg_process put_node_def real_dir_iff)

lemma folder_demo_parts [simp]:
  "fe_resolve folder_demo = (\<lambda>fs p. p)" "fe_tmp folder_demo = ''t''" "fe_staging folder_demo = ''s''"
  "ae_gpg folder_app = archive_gpg" "ae_emit folder_app ev oc pl l = (Inr (), l @ [ev])"
  by (simp_all add: folder_demo_def folder_app_def)

lemma folder_start_fs: "fs_of folder_start = put_node [''home'', ''f''] (File 420 ''enc'') demo_fs"
  by (simp add: folder_start_def fs_of_def)

lemma folder_decrypted:
  "(case fst (decrypt_folder folder_demo folder_app [''home'', ''f''] [''home''] None folder_start) of
     Inl e \<Rightarrow> False | Inr res \<Rightarrow> fd_folder res = [''home'', ''a''])"
  by code_simp

lemma decryption_stays_inside_witness:
  "\<exists>res w'. decrypt_folder folder_demo folder_app [''home'', ''f''] [''home''] None folder_start = (Inr res, w') \<and>
     only_folder_new (fs_of folder_start) [''home''] [''home'', ''a''] (fs_of w')"
proof -
  obtain r w' where run: "decrypt_folder folder_demo folder_app [''home'', ''f''] [''home''] None folder_start = (r, w')"
    by fastforce
  then obtain res where res: "r = Inr res" "fd_folder res = [''home'', ''a'']"
    using folder_decrypted by (cases r) simp_all
  have "real_dir (fs_of folder_start) (take k [''home''])" for k
    by (cases k) (simp_all add: folder_start_fs put_node_def demo_fs_def real_dir_iff)
  moreover have "fs_node (fs_of folder_start) q = None" if "prefix [''home'', ''s''] q" for q
    using that by (auto simp: folder_start_fs put_node_def demo_fs_def prefix_def)
  moreover have "resolves_plain (\<lambda>fs p. p)" by (simp add: resolves_plain_def)
  ultimately show ?thesis
    using decryption_stays_inside [OF run] archive_gpg_law res run by (simp add: tmp_archive_def)
qed


end
