(* ===== verification/App_Paths.thy ===== *)
theory App_Paths
  imports Files Gpg_Detector
begin

text \<open>
  \<open>storage/paths.py\<close>: the directories of the program, from the environment, and \<open>ensure\<close>, which
  creates them. The lemmas show where the directories are and what \<open>ensure\<close> leaves behind: six
  directories of mode 0700, nothing else changed.
\<close>

section \<open>Resolving\<close>

definition APP_DIRNAME :: str where "APP_DIRNAME = ''gpg-meister''"
definition APP_DIRNAME_WINDOWS :: str where "APP_DIRNAME_WINDOWS = ''GPGMeister''"

record app_paths =
  config_dir :: path
  data_dir :: path
  state_dir :: path
  cache_dir :: path

definition gnupg_home :: "app_paths \<Rightarrow> path" where
  "gnupg_home ps = data_dir ps @ [''gnupg'']"

definition vault_dir :: "app_paths \<Rightarrow> path" where
  "vault_dir ps = data_dir ps @ [''vaults'']"

definition config_file :: "app_paths \<Rightarrow> path" where
  "config_file ps = config_dir ps @ [''config.toml'']"

definition metadata_db :: "app_paths \<Rightarrow> path" where
  "metadata_db ps = data_dir ps @ [''metadata.sqlite3'']"

definition audit_log :: "app_paths \<Rightarrow> path" where
  "audit_log ps = state_dir ps @ [''audit.log'']"

definition diagnostic_log :: "app_paths \<Rightarrow> path" where
  "diagnostic_log ps = state_dir ps @ [''diagnostic.log'']"

text \<open>
  The environment: its variables, the home directory, and \<open>Path(s).expanduser()\<close> with whether the
  path is absolute (on Windows only the path counts).
\<close>

record path_env =
  pe_windows :: bool
  pe_var :: "str \<rightharpoonup> str"
  pe_home :: path
  pe_path :: "str \<Rightarrow> path"
  pe_absolute :: "str \<Rightarrow> bool"
  pe_expanded :: "str \<Rightarrow> path"

definition xdg_or_default :: "path_env \<Rightarrow> str \<Rightarrow> path \<Rightarrow> path" where
  "xdg_or_default env var d = (case pe_var env var of
       None \<Rightarrow> d
     | Some v \<Rightarrow> if v \<noteq> [] \<and> pe_absolute env v then pe_expanded env v else d)"

definition resolve_paths :: "path_env \<Rightarrow> app_paths" where
  "resolve_paths env =
     (let home = pe_home env in
      if pe_windows env then
        (let root = (case pe_var env ''APPDATA'' of
               Some v \<Rightarrow> if v \<noteq> [] then pe_path env v else home @ [''AppData'', ''Roaming'']
             | None \<Rightarrow> home @ [''AppData'', ''Roaming'']);
             base = root @ [APP_DIRNAME_WINDOWS] in
         \<lparr>config_dir = base @ [''config''], data_dir = base @ [''data''], state_dir = base @ [''logs''],
          cache_dir = base @ [''cache'']\<rparr>)
      else
        \<lparr>config_dir = xdg_or_default env ''XDG_CONFIG_HOME'' (home @ [''.config'']) @ [APP_DIRNAME],
         data_dir = xdg_or_default env ''XDG_DATA_HOME'' (home @ [''.local'', ''share'']) @ [APP_DIRNAME],
         state_dir = xdg_or_default env ''XDG_STATE_HOME'' (home @ [''.local'', ''state'']) @ [APP_DIRNAME],
         cache_dir = xdg_or_default env ''XDG_CACHE_HOME'' (home @ [''.cache'']) @ [APP_DIRNAME]\<rparr>)"

section \<open>Creating\<close>

definition managed_dirs :: "app_paths \<Rightarrow> path list" where
  "managed_dirs ps = [config_dir ps, data_dir ps, state_dir ps, cache_dir ps, gnupg_home ps, vault_dir ps]"

fun ensure_dirs :: "path list \<Rightarrow> (file_system, unit) prog" where
  "ensure_dirs [] = retP ()"
| "ensure_dirs (d # ds) = thenP (ensure_dir d DIR_MODE) (ensure_dirs ds)"

definition ensure_paths :: "app_paths \<Rightarrow> (file_system, unit) prog" where
  "ensure_paths ps = ensure_dirs (managed_dirs ps)"

lemma ensure_dirs_keeps:
  assumes "ensure_dirs ds fs = (r, fs')" "fs_node fs q \<noteq> None" "q \<notin> set ds"
  shows "fs_node fs' q = fs_node fs q"
  using assms
proof (induction ds arbitrary: fs)
  case (Cons d ds)
  obtain x fs1 where e: "ensure_dir d DIR_MODE fs = (x, fs1)" by fastforce
  have keep: "fs_node fs1 q = fs_node fs q"
    using ensure_dir_keeps [of d DIR_MODE fs] Cons.prems(2,3) by (auto simp: e only_new_dirs_def)
  show ?case
  proof (cases x)
    case (Inl e')
    then show ?thesis using Cons.prems(1) e keep by (simp add: thenP_run)
  next
    case (Inr u)
    then have "ensure_dirs ds fs1 = (r, fs')" using Cons.prems(1) e by (simp add: thenP_run)
    then show ?thesis using Cons.IH [of fs1] Cons.prems(2,3) keep by simp
  qed
qed simp

text \<open>What was made stays, also when a later directory is below it.\<close>

lemma ensure_dirs_dir:
  assumes "ensure_dirs ds fs = (Inr (), fs')" "fs_node fs q = Some (Dir DIR_MODE)"
  shows "fs_node fs' q = Some (Dir DIR_MODE)"
  using assms
proof (induction ds arbitrary: fs)
  case (Cons d ds)
  obtain fs1 where e: "ensure_dir d DIR_MODE fs = (Inr (), fs1)" "ensure_dirs ds fs1 = (Inr (), fs')"
    using Cons.prems(1) by (auto simp: thenP_eq_Inr)
  have "fs_node fs1 q = Some (Dir DIR_MODE)"
  proof (cases "q = d")
    case True
    then show ?thesis using ensure_dir_made [OF e(1)] by simp
  next
    case False
    then show ?thesis using ensure_dir_keeps [of d DIR_MODE fs] Cons.prems(2) by (auto simp: e only_new_dirs_def)
  qed
  then show ?case by (rule Cons.IH [OF e(2)])
qed simp

lemma ensure_dirs_made:
  "ensure_dirs ds fs = (Inr (), fs') \<Longrightarrow> d \<in> set ds \<Longrightarrow> fs_node fs' d = Some (Dir DIR_MODE)"
proof (induction ds arbitrary: fs)
  case (Cons a ds)
  obtain fs1 where e: "ensure_dir a DIR_MODE fs = (Inr (), fs1)" "ensure_dirs ds fs1 = (Inr (), fs')"
    using Cons.prems(1) by (auto simp: thenP_eq_Inr)
  then show ?case
    using Cons.IH [OF e(2)] ensure_dirs_dir [OF e(2) ensure_dir_made [OF e(1)]] Cons.prems(2) by auto
qed simp

text \<open>Whatever happens, a node that was there keeps its kind, and what is new is a directory of the program.\<close>

lemma ensure_dirs_new:
  assumes "ensure_dirs ds fs = (r, fs')" "fs_node fs q = None" "\<forall>d \<in> set ds. \<not> prefix q d"
  shows "fs_node fs' q = None"
  using assms
proof (induction ds arbitrary: fs)
  case (Cons d ds)
  obtain x fs1 where e: "ensure_dir d DIR_MODE fs = (x, fs1)" by fastforce
  have keep: "fs_node fs1 q = None"
    using ensure_dir_keeps [of d DIR_MODE fs] Cons.prems(2,3) by (auto simp: e only_new_dirs_def)
  show ?case
  proof (cases x)
    case (Inl e')
    then show ?thesis using Cons.prems(1) e keep by (simp add: thenP_run)
  next
    case (Inr u)
    then have "ensure_dirs ds fs1 = (r, fs')" using Cons.prems(1) e by (simp add: thenP_run)
    then show ?thesis using Cons.IH [of fs1] Cons.prems(3) keep by simp
  qed
qed simp

lemma ensure_paths_made:
  "ensure_paths ps fs = (Inr (), fs') \<Longrightarrow> d \<in> set (managed_dirs ps) \<Longrightarrow> fs_node fs' d = Some (Dir DIR_MODE)"
  by (simp add: ensure_paths_def ensure_dirs_made)

lemma ensure_paths_safe:
  "ensure_paths ps fs = (Inr (), fs') \<Longrightarrow> d \<in> set (managed_dirs ps) \<Longrightarrow> is_safe_for_secrets fs' d"
proof -
  assume "ensure_paths ps fs = (Inr (), fs')" "d \<in> set (managed_dirs ps)"
  then have "fs_node fs' d = Some (Dir DIR_MODE)" by (rule ensure_paths_made)
  moreover have "(DIR_MODE AND 54 :: nat) = 0" by (simp add: DIR_MODE_def)
  ultimately show ?thesis by (simp add: is_safe_iff is_link_def)
qed

end
