(* ===== verification/Toml.thy ===== *)
theory Toml
  imports Utf8 Gpg_Output
begin

text \<open>
  The TOML writer of \<open>services/config_service.py\<close>, and a reader for the documents it writes: lines
  with one bare key and a boolean, an integer or a basic string, in sections with a bracketed name,
  as TOML 1.0 reads them. The lemmas show that what is written is read back, and that a string
  with the character DEL is the one text that is written and cannot be read.
\<close>

section \<open>Writing\<close>

text \<open>A value of a type that \<open>_format_toml_value\<close> does not know is \<open>TOther\<close>, with whatever it holds.\<close>

datatype toml_value = TBool bool | TInt int | TStr str | TOther str

datatype toml_entry = TValue toml_value | TTable "(str \<times> toml_value) list"

type_synonym toml_object = "(str \<times> toml_entry) list"

definition toml_escape :: "char \<Rightarrow> str" where
  "toml_escape c = (let x = code c in
     if x = 34 then [CHR 0x5C, CHR 0x22]
     else if x = 92 then [CHR 0x5C, CHR 0x5C]
     else if x = 10 then [CHR 0x5C, CHR ''n'']
     else if x = 13 then [CHR 0x5C, CHR ''r'']
     else [c])"

definition control_escape :: "char \<Rightarrow> str" where
  "control_escape c = (let x = code c in
     if x < 32 \<and> x \<noteq> 9 then
       [CHR 0x5C, CHR ''u'', CHR ''0'', CHR ''0'', lower_char (hex_digit (x div 16)), lower_char (hex_digit (x mod 16))]
     else [c])"

definition escaped_text :: "str \<Rightarrow> str" where
  "escaped_text s = concat (map control_escape (concat (map toml_escape s)))"

fun format_toml_value :: "toml_value \<Rightarrow> str res" where
  "format_toml_value (TBool b) = Inr (if b then ''true'' else ''false'')"
| "format_toml_value (TInt i) = Inr (show_int i)"
| "format_toml_value (TStr s) = Inr (CHR 0x22 # escaped_text s @ [CHR 0x22])"
| "format_toml_value (TOther x) = Inl TypeError"

definition toml_line :: "str \<times> toml_value \<Rightarrow> str res" where
  "toml_line p = bindE (format_toml_value (snd p)) (\<lambda>v. Inr (fst p @ '' = '' @ v))"

fun toml_scalars :: "toml_object \<Rightarrow> (str \<times> toml_value) list" where
  "toml_scalars [] = []"
| "toml_scalars ((k, TValue v) # ps) = (k, v) # toml_scalars ps"
| "toml_scalars ((k, TTable t) # ps) = toml_scalars ps"

fun toml_tables :: "toml_object \<Rightarrow> (str \<times> (str \<times> toml_value) list) list" where
  "toml_tables [] = []"
| "toml_tables ((k, TTable t) # ps) = (k, t) # toml_tables ps"
| "toml_tables ((k, TValue v) # ps) = toml_tables ps"

fun dump_tables :: "str list \<Rightarrow> (str \<times> (str \<times> toml_value) list) list \<Rightarrow> str list res" where
  "dump_tables ls [] = Inr ls"
| "dump_tables ls ((name, t) # ts) = bindE (mapE toml_line t) (\<lambda>es.
     dump_tables (ls @ (if ls \<noteq> [] then [[]] else []) @ [''['' @ name @ '']''] @ es) ts)"

definition dump_toml :: "toml_object \<Rightarrow> str res" where
  "dump_toml obj = bindE (mapE toml_line (toml_scalars obj)) (\<lambda>ls.
     bindE (dump_tables ls (toml_tables obj)) (\<lambda>all. Inr (join_with [CHR 0x0A] all @ [CHR 0x0A])))"

section \<open>Reading\<close>

text \<open>A basic string after its opening quote: the text and what follows the closing one.\<close>

fun toml_unescape :: "char \<Rightarrow> char option" where
  "toml_unescape e = (let x = code e in
     if x = 34 \<or> x = 92 then Some e
     else if x = 98 then Some (char_of (8::nat))
     else if x = 116 then Some (char_of (9::nat))
     else if x = 110 then Some (char_of (10::nat))
     else if x = 102 then Some (char_of (12::nat))
     else if x = 114 then Some (char_of (13::nat))
     else None)"

definition scalar_value :: "nat \<Rightarrow> bool" where
  "scalar_value n \<longleftrightarrow> n < 55296 \<or> (57344 \<le> n \<and> n < 1114112)"

function toml_string :: "str \<Rightarrow> (str \<times> str) option" where
  "toml_string [] = None"
| "toml_string (c # cs) =
     (if code c = 34 then Some ([], cs)
      else if code c = 92 then
        (case cs of
           [] \<Rightarrow> None
         | e # r \<Rightarrow>
             if code e = 117 then
               (case hex4 r of
                  Some n \<Rightarrow> if scalar_value n then cons_text (utf8 n) (toml_string (drop 4 r)) else None
                | None \<Rightarrow> None)
             else if code e = 85 then
               (case (hex4 r, hex4 (drop 4 r)) of
                  (Some m, Some n) \<Rightarrow>
                    if scalar_value (m * 65536 + n) then cons_text (utf8 (m * 65536 + n)) (toml_string (drop 8 r)) else None
                | _ \<Rightarrow> None)
             else (case toml_unescape e of
                     None \<Rightarrow> None
                   | Some x \<Rightarrow> cons_text [x] (toml_string r)))
      else if (code c < 32 \<and> code c \<noteq> 9) \<or> code c = 127 then None
      else cons_text [c] (toml_string cs))"
  by pat_completeness auto
termination by (relation "measure length") auto

declare toml_string.simps(2) [simp del]

text \<open>A decimal integer without leading zeros.\<close>

definition toml_int :: "str \<Rightarrow> int option" where
  "toml_int s =
     (let neg = (s \<noteq> [] \<and> hd s = CHR ''-''); ds = (if neg then tl s else s) in
      if ds = [] \<or> \<not> list_all is_digit ds \<or> (length ds > 1 \<and> hd ds = CHR ''0'') then None
      else Some (if neg then - int (digits_val ds) else int (digits_val ds)))"

definition toml_read_value :: "str \<Rightarrow> toml_value option" where
  "toml_read_value s =
     (if s = ''true'' then Some (TBool True)
      else if s = ''false'' then Some (TBool False)
      else (case s of
          [] \<Rightarrow> None
        | c # cs \<Rightarrow>
            if c = CHR 0x22 then (case toml_string cs of Some (t, []) \<Rightarrow> Some (TStr t) | _ \<Rightarrow> None)
            else map_option TInt (toml_int s)))"

definition bare :: "char \<Rightarrow> bool" where
  "bare c \<longleftrightarrow> is_digit c \<or> (65 \<le> code c \<and> code c \<le> 90) \<or> (97 \<le> code c \<and> code c \<le> 122) \<or> code c = 95 \<or> code c = 45"

definition toml_read_line :: "str \<Rightarrow> (str \<times> toml_value) option" where
  "toml_read_line l =
     (let k = takeWhile bare l; r = dropWhile bare l in
      if k = [] \<or> take 3 r \<noteq> '' = '' then None else map_option (Pair k) (toml_read_value (drop 3 r)))"

definition toml_read_header :: "str \<Rightarrow> str option" where
  "toml_read_header l =
     (let name = takeWhile bare (tl l) in
      if name \<noteq> [] \<and> l = ''['' @ name @ '']'' then Some name else None)"

text \<open>The entries before the first section, and the sections.\<close>

fun toml_sections :: "str list \<Rightarrow> ((str \<times> toml_value) list \<times> (str \<times> (str \<times> toml_value) list) list) option" where
  "toml_sections [] = Some ([], [])"
| "toml_sections (l # ls) = (case toml_sections ls of
       None \<Rightarrow> None
     | Some (es, ts) \<Rightarrow>
         if l = [] then Some (es, ts)
         else if hd l = CHR ''['' then map_option (\<lambda>n. ([], (n, es) # ts)) (toml_read_header l)
         else map_option (\<lambda>e. (e # es, ts)) (toml_read_line l))"

definition toml_read :: "str \<Rightarrow> toml_object option" where
  "toml_read text = (case toml_sections (split_on (CHR 0x0A) text) of
       None \<Rightarrow> None
     | Some (es, ts) \<Rightarrow>
         if distinct (map fst es @ map fst ts) \<and> list_all (\<lambda>t. distinct (map fst (snd t))) ts
         then Some (map (\<lambda>(k, v). (k, TValue v)) es @ map (\<lambda>(k, t). (k, TTable t)) ts) else None)"

section \<open>Reading what was written\<close>

definition del :: char where "del = CHR 0x7F"

lemma escaped_Nil [simp]: "escaped_text [] = []"
  by (simp add: escaped_text_def)

lemma escaped_Cons [simp]: "escaped_text (c # s) = concat (map control_escape (toml_escape c)) @ escaped_text s"
  by (simp add: escaped_text_def)

lemma code_char: "code c = n \<Longrightarrow> c = char_of n"
  by (metis char_of_char)

lemma char_literals: "char_of (34::nat) = CHR 0x22" "char_of (92::nat) = CHR 0x5C"
proof -
  have "code (char_of (34::nat)) = code (CHR 0x22)" "code (char_of (92::nat)) = code (CHR 0x5C)" by simp_all
  then show "char_of (34::nat) = CHR 0x22" "char_of (92::nat) = CHR 0x5C" by (simp_all only: of_char_eq_iff)
qed

lemma toml_string_escaped:
  assumes "c \<noteq> del"
  shows "toml_string (concat (map control_escape (toml_escape c)) @ t) = cons_text [c] (toml_string t)"
proof -
  have "code c \<noteq> code del" using assms by (simp only: of_char_eq_iff) simp
  then have nd: "code c \<noteq> 127" by (simp add: del_def)
  consider "code c \<in> {34, 92, 10, 13}" | "code c \<notin> {34, 92, 10, 13}" "code c < 32" "code c \<noteq> 9"
    | "code c \<notin> {34, 92, 10, 13}" "32 \<le> code c \<or> code c = 9" by linarith
  then show ?thesis
  proof cases
    case 1
    then obtain n where n: "code c = n" "n \<in> {34, 92, 10, 13}" by blast
    with code_char [OF n(1)] show ?thesis
      by (auto simp: toml_escape_def control_escape_def toml_string.simps(2) char_literals)
  next
    case 2
    let ?h = "lower_char (hex_digit (code c div 16))" and ?l = "lower_char (hex_digit (code c mod 16))"
    have e: "concat (map control_escape (toml_escape c)) = [CHR 0x5C, CHR ''u'', CHR ''0'', CHR ''0'', ?h, ?l]"
      using 2 by (simp add: toml_escape_def control_escape_def Let_def)
    define r where "r = CHR ''0'' # CHR ''0'' # ?h # ?l # t"
    have h: "hex4 r = Some (code c)" and d: "drop 4 r = t"
      by (simp_all add: r_def hex_val_def [of "CHR ''0''"])
    have u: "scalar_value (code c)" "utf8 (code c) = [c]" using 2 by (simp_all add: utf8_def scalar_value_def)
    have "toml_string (CHR 0x5C # CHR ''u'' # r) = cons_text [c] (toml_string t)"
      by (subst toml_string.simps(2)) (simp add: h d u)
    then show ?thesis by (simp add: e r_def)
  next
    case 3
    then have "concat (map control_escape (toml_escape c)) = [c]" by (auto simp: toml_escape_def control_escape_def Let_def)
    then show ?thesis using 3 nd by (auto simp: toml_string.simps(2))
  qed
qed

lemma toml_string_body: "del \<notin> set s \<Longrightarrow> toml_string (escaped_text s @ CHR 0x22 # rest) = Some (s, rest)"
proof (induction s)
  case Nil
  then show ?case by (simp add: toml_string.simps(2))
next
  case (Cons c s)
  then have "c \<noteq> del" by auto
  then show ?case using Cons toml_string_escaped [of c "escaped_text s @ CHR 0x22 # rest"] by simp
qed

text \<open>DEL is written as it is, and TOML does not allow it.\<close>

lemma toml_string_del: "del \<in> set s \<Longrightarrow> toml_string (escaped_text s @ rest) = None"
proof (induction s)
  case (Cons c s)
  show ?case
  proof (cases "c = del")
    case True
    then show ?thesis by (simp add: toml_escape_def control_escape_def del_def toml_string.simps(2))
  next
    case False
    then show ?thesis using Cons toml_string_escaped [of c "escaped_text s @ rest"] by simp
  qed
qed simp

lemma toml_int_show: "toml_int (show_int i) = Some i"
proof -
  have ds: "show_nat n \<noteq> []" "list_all is_digit (show_nat n)" "digits_val (show_nat n) = n" for n
    using show_nat_props [of n] by auto
  have zero: "\<not> (length (show_nat n) > 1 \<and> hd (show_nat n) = CHR ''0'')" for n
    using show_nat_head [of n] by (cases "n = 0") (auto simp: show_nat.simps [of 0])
  have "hd (show_nat n) \<noteq> CHR ''-''" for n
    using ds [of n] by (cases "show_nat n") (auto simp: is_digit_def)
  then show ?thesis using ds zero by (auto simp: toml_int_def show_int_def Let_def)
qed

fun toml_value_ok :: "toml_value \<Rightarrow> bool" where
  "toml_value_ok (TStr s) \<longleftrightarrow> del \<notin> set s \<and> utf8_ok s"
| "toml_value_ok v \<longleftrightarrow> True"

lemma show_int_start: "\<exists>c cs. show_int i = c # cs \<and> (is_digit c \<or> c = CHR ''-'')"
proof -
  have "\<exists>c cs. show_nat n = c # cs \<and> is_digit c" for n
    using show_nat_props [of n] by (cases "show_nat n") auto
  then show ?thesis by (cases "i < 0") (simp_all add: show_int_def, metis)
qed

lemma read_formatted:
  assumes "format_toml_value v = Inr t" "toml_value_ok v"
  shows "toml_read_value t = Some v"
proof (cases v)
  case (TInt i)
  then have t: "t = show_int i" using assms(1) by simp
  obtain c cs where "show_int i = c # cs" "is_digit c \<or> c = CHR ''-''" using show_int_start by blast
  then have "t \<noteq> ''true''" "t \<noteq> ''false''" "c \<noteq> CHR 0x22" using t by (auto simp: is_digit_def)
  then show ?thesis using t TInt toml_int_show [of i] \<open>show_int i = c # cs\<close> by (simp add: toml_read_value_def)
next
  case (TStr s)
  then have "t = CHR 0x22 # escaped_text s @ [CHR 0x22]" "del \<notin> set s" using assms by auto
  then show ?thesis using toml_string_body [of s "[]"] TStr by (simp add: toml_read_value_def)
qed (use assms in \<open>auto simp: toml_read_value_def split: if_splits\<close>)

definition bare_key :: "str \<Rightarrow> bool" where
  "bare_key k \<longleftrightarrow> k \<noteq> [] \<and> list_all bare k"

lemma takeWhile_bare:
  assumes "bare_key k" "\<not> bare c"
  shows "takeWhile bare (k @ c # r) = k" "dropWhile bare (k @ c # r) = c # r"
  using assms by (auto simp: bare_key_def list_all_iff takeWhile_append2 dropWhile_append2)

lemma not_bare: "\<not> bare (CHR '' '')" "\<not> bare (CHR '']'')" "\<not> bare (CHR ''['')" "\<not> bare (CHR 0x0A)"
  by (simp_all add: bare_def is_digit_def)

lemma bare_key_start: "bare_key k \<Longrightarrow> \<exists>c cs. k = c # cs \<and> bare c"
  by (cases k) (auto simp: bare_key_def)

lemma code_newline: "code (CHR 0x0A) = (10 :: nat)"
  by simp

lemma no_newline_escaped: "CHR 0x0A \<notin> set (escaped_text s)"
proof -
  have "CHR 0x0A \<notin> set (concat (map control_escape (toml_escape c)))" for c
  proof -
    have "code (lower_char (hex_digit n)) \<noteq> 10" if "n < 16" for n
      using that by (auto simp: hex_digit_def lower_char_def)
    then have ne: "n < 16 \<Longrightarrow> CHR 0x0A \<noteq> lower_char (hex_digit n)" for n
      by (metis code_newline)
    have "code c = 10 \<longleftrightarrow> c = CHR 0x0A"
      using of_char_eq_iff [of c "CHR 0x0A", where 'a = nat] by simp
    then show ?thesis
      using ne [of "code c div 16"] ne [of "code c mod 16"]
      by (auto simp: toml_escape_def control_escape_def Let_def)
  qed
  then show ?thesis by (induction s) simp_all
qed

lemma digits_no_newline: "list_all is_digit s \<Longrightarrow> CHR 0x0A \<notin> set s"
  by (auto simp: list_all_iff is_digit_def)

lemma formatted_no_newline: "format_toml_value v = Inr t \<Longrightarrow> CHR 0x0A \<notin> set t"
proof (cases v)
  case (TInt i)
  assume "format_toml_value v = Inr t"
  then show ?thesis
    using TInt show_nat_props digits_no_newline by (auto simp: show_int_def split: if_splits)
qed (auto simp: no_newline_escaped split: if_splits)

lemma read_written_line:
  assumes "toml_line (k, v) = Inr l" "bare_key k" "toml_value_ok v"
  shows "toml_read_line l = Some (k, v)" "l \<noteq> []" "hd l \<noteq> CHR ''[''" "CHR 0x0A \<notin> set l"
proof -
  obtain t where t: "format_toml_value v = Inr t" "l = k @ '' = '' @ t" using assms(1) by (auto simp: toml_line_def)
  note tw = takeWhile_bare [OF assms(2) not_bare(1), of "''= '' @ t"]
  have nk: "k \<noteq> []" using assms(2) by (simp add: bare_key_def)
  show "toml_read_line l = Some (k, v)"
    unfolding toml_read_line_def t(2) Let_def
    using tw nk read_formatted [OF t(1) assms(3)] by simp
  obtain c cs where "k = c # cs" "bare c" using bare_key_start [OF assms(2)] by blast
  then show "l \<noteq> []" "hd l \<noteq> CHR ''[''" using t(2) not_bare(3) by auto
  show "CHR 0x0A \<notin> set l"
    using t formatted_no_newline [OF t(1)] assms(2) not_bare(4) by (auto simp: bare_key_def list_all_iff)
qed

lemma read_written_header: "bare_key n \<Longrightarrow> toml_read_header (''['' @ n @ '']'') = Some n"
  using takeWhile_bare(1) [OF _ not_bare(2), of n "[]"] by (simp add: toml_read_header_def Let_def bare_key_def)

definition entries_ok :: "(str \<times> toml_value) list \<Rightarrow> bool" where
  "entries_ok es \<longleftrightarrow> list_all (\<lambda>p. bare_key (fst p) \<and> toml_value_ok (snd p)) es \<and> distinct (map fst es)"

definition tables_ok :: "(str \<times> (str \<times> toml_value) list) list \<Rightarrow> bool" where
  "tables_ok ts \<longleftrightarrow> list_all (\<lambda>p. bare_key (fst p) \<and> entries_ok (snd p)) ts"

definition toml_ok :: "toml_object \<Rightarrow> bool" where
  "toml_ok obj \<longleftrightarrow> entries_ok (toml_scalars obj) \<and> tables_ok (toml_tables obj) \<and>
     distinct (map fst (toml_scalars obj) @ map fst (toml_tables obj))"

lemma sections_entries:
  assumes "mapE toml_line es = Inr ls" "list_all (\<lambda>p. bare_key (fst p) \<and> toml_value_ok (snd p)) es"
  shows "toml_sections (ls @ rest) = map_option (\<lambda>(es', ts). (es @ es', ts)) (toml_sections rest) \<and>
    list_all (\<lambda>l. CHR 0x0A \<notin> set l) ls"
  using assms
proof (induction es arbitrary: ls)
  case Nil
  then show ?case by (cases "toml_sections rest") auto
next
  case (Cons e es)
  obtain k v where e: "e = (k, v)" by fastforce
  obtain l ls' where l: "toml_line (k, v) = Inr l" "mapE toml_line es = Inr ls'" "ls = l # ls'"
    using Cons.prems(1) e by auto
  have ok: "bare_key k" "toml_value_ok v" using Cons.prems(2) e by simp_all
  note r = read_written_line [OF l(1) ok]
  have "toml_sections (ls' @ rest) = map_option (\<lambda>(es', ts). (es @ es', ts)) (toml_sections rest) \<and>
    list_all (\<lambda>l. CHR 0x0A \<notin> set l) ls'" using Cons.IH [OF l(2)] Cons.prems(2) by simp
  then show ?case using r l(3) e by (cases "toml_sections rest") auto
qed

lemma sections_tables:
  assumes "dump_tables ls ts = Inr all" "tables_ok ts"
  shows "\<exists>more. all = ls @ more \<and> toml_sections more = Some ([], ts) \<and> list_all (\<lambda>l. CHR 0x0A \<notin> set l) more"
  using assms
proof (induction ls ts rule: dump_tables.induct)
  case (2 ls name t ts)
  obtain es where es: "mapE toml_line t = Inr es"
    "dump_tables (ls @ (if ls \<noteq> [] then [[]] else []) @ [''['' @ name @ '']''] @ es) ts = Inr all"
    using "2.prems"(1) by auto
  have ok: "bare_key name" "list_all (\<lambda>p. bare_key (fst p) \<and> toml_value_ok (snd p)) t" "tables_ok ts"
    using "2.prems"(2) by (simp_all add: tables_ok_def entries_ok_def)
  obtain more where more: "all = (ls @ (if ls \<noteq> [] then [[]] else []) @ [''['' @ name @ '']''] @ es) @ more"
    "toml_sections more = Some ([], ts)" "list_all (\<lambda>l. CHR 0x0A \<notin> set l) more"
    using "2.IH" [OF es ok(3)] by blast
  let ?section = "(if ls \<noteq> [] then [[]] else []) @ [''['' @ name @ '']''] @ es @ more"
  have body: "toml_sections (es @ more) = Some (t, ts)" "list_all (\<lambda>l. CHR 0x0A \<notin> set l) es"
    using sections_entries [OF es(1) ok(2), of more] more(2) by simp_all
  have "CHR 0x0A \<notin> set (''['' @ name @ '']'')"
    using ok(1) not_bare(4) by (auto simp: bare_key_def list_all_iff)
  moreover have "toml_sections ?section = Some ([], (name, t) # ts)"
    using body(1) read_written_header [OF ok(1)] by simp
  ultimately have "toml_sections ?section = Some ([], (name, t) # ts) \<and> list_all (\<lambda>l. CHR 0x0A \<notin> set l) ?section"
    using body(2) more(3) by simp
  then show ?case using more(1) by (intro exI [of _ ?section]) simp
qed simp

lemma sections_blank: "toml_sections (ls @ [[]]) = toml_sections ls"
  by (induction ls) simp_all

lemma lines_of_text:
  assumes "list_all (\<lambda>l. CHR 0x0A \<notin> set l) ls"
  shows "toml_sections (split_on (CHR 0x0A) (join_with [CHR 0x0A] ls @ [CHR 0x0A])) = toml_sections ls"
proof (cases "ls = []")
  case False
  have "split_on (CHR 0x0A) (join_with [CHR 0x0A] ls @ [CHR 0x0A]) = ls @ [[]]"
    using split_on_append [of "CHR 0x0A" "join_with [CHR 0x0A] ls" "[]"] split_on_join [OF False] assms by simp
  then show ?thesis by (simp add: sections_blank)
qed simp

lemma dump_read:
  assumes "dump_toml obj = Inr t" "toml_ok obj"
  shows "toml_read t = Some (map (\<lambda>(k, v). (k, TValue v)) (toml_scalars obj) @ map (\<lambda>(k, t). (k, TTable t)) (toml_tables obj))"
proof -
  obtain ls all where d: "mapE toml_line (toml_scalars obj) = Inr ls" "dump_tables ls (toml_tables obj) = Inr all"
    "t = join_with [CHR 0x0A] all @ [CHR 0x0A]"
    using assms(1) by (auto simp: dump_toml_def)
  have ok: "list_all (\<lambda>p. bare_key (fst p) \<and> toml_value_ok (snd p)) (toml_scalars obj)" "tables_ok (toml_tables obj)"
    "distinct (map fst (toml_scalars obj) @ map fst (toml_tables obj))"
    "list_all (\<lambda>t. distinct (map fst (snd t))) (toml_tables obj)"
    using assms(2) by (auto simp: toml_ok_def entries_ok_def tables_ok_def list_all_iff)
  obtain more where more: "all = ls @ more" "toml_sections more = Some ([], toml_tables obj)"
    "list_all (\<lambda>l. CHR 0x0A \<notin> set l) more" using sections_tables [OF d(2) ok(2)] by blast
  note s = sections_entries [OF d(1) ok(1), of more]
  have "toml_sections all = Some (toml_scalars obj, toml_tables obj)" using s more by simp
  moreover have "list_all (\<lambda>l. CHR 0x0A \<notin> set l) all" using s more by simp
  ultimately show ?thesis using d(3) ok(3,4) lines_of_text [of all] by (simp add: toml_read_def)
qed

lemma escaped_ascii: "code c < 128 \<Longrightarrow> list_all (\<lambda>c. code c < 128) (concat (map control_escape (toml_escape c)))"
  by (auto simp: toml_escape_def control_escape_def Let_def hex_digit_ascii)

lemma utf8_ok_escaped: "utf8_ok s \<Longrightarrow> utf8_ok (escaped_text s)"
proof -
  assume s: "utf8_ok s"
  have "escaped_text s = concat (map (\<lambda>c. concat (map control_escape (toml_escape c))) s)"
    by (induction s) simp_all
  then show ?thesis
    using utf8_ok_mapped [where f = "\<lambda>c. concat (map control_escape (toml_escape c))", OF escaped_ascii _ s]
    by (auto simp: toml_escape_def control_escape_def Let_def)
qed

lemma utf8_formatted: "format_toml_value v = Inr t \<Longrightarrow> toml_value_ok v \<Longrightarrow> utf8_ok t"
proof (cases v)
  case (TStr s)
  assume "format_toml_value v = Inr t" "toml_value_ok v"
  then show ?thesis using TStr utf8_ok_escaped [of s] by (auto simp: utf8_ok_append)
qed (auto simp: utf8_ok_int split: if_splits)

lemma bare_ascii: "bare_key k \<Longrightarrow> utf8_ok k"
  by (rule ascii_text) (auto simp: bare_key_def list_all_iff bare_def is_digit_def)

lemma utf8_line: "toml_line (k, v) = Inr l \<Longrightarrow> bare_key k \<Longrightarrow> toml_value_ok v \<Longrightarrow> utf8_ok l"
  using utf8_formatted [of v] bare_ascii [of k] by (auto simp: toml_line_def utf8_ok_append)

lemma utf8_lines:
  "mapE toml_line es = Inr ls \<Longrightarrow> list_all (\<lambda>p. bare_key (fst p) \<and> toml_value_ok (snd p)) es \<Longrightarrow> list_all utf8_ok ls"
proof (induction es arbitrary: ls)
  case (Cons e es)
  then show ?case using utf8_line [of "fst e" "snd e"] by auto
qed simp

lemma utf8_tables: "dump_tables ls ts = Inr all \<Longrightarrow> tables_ok ts \<Longrightarrow> list_all utf8_ok ls \<Longrightarrow> list_all utf8_ok all"
proof (induction ls ts rule: dump_tables.induct)
  case (2 ls name t ts)
  obtain es where es: "mapE toml_line t = Inr es"
    "dump_tables (ls @ (if ls \<noteq> [] then [[]] else []) @ [''['' @ name @ '']''] @ es) ts = Inr all"
    using "2.prems"(1) by auto
  have ok: "bare_key name" "list_all (\<lambda>p. bare_key (fst p) \<and> toml_value_ok (snd p)) t" "tables_ok ts"
    using "2.prems"(2) by (simp_all add: tables_ok_def entries_ok_def)
  have "utf8_ok (''['' @ name @ '']'')" using bare_ascii [OF ok(1)] by (simp add: utf8_ok_append)
  then show ?case using "2.IH" [OF es ok(3)] utf8_lines [OF es(1) ok(2)] "2.prems"(3) by simp
qed simp

lemma utf8_dump:
  assumes "dump_toml obj = Inr t" "toml_ok obj"
  shows "utf8_ok t"
proof -
  obtain ls all where d: "mapE toml_line (toml_scalars obj) = Inr ls" "dump_tables ls (toml_tables obj) = Inr all"
    "t = join_with [CHR 0x0A] all @ [CHR 0x0A]"
    using assms(1) by (auto simp: dump_toml_def)
  have "list_all utf8_ok all"
    using utf8_tables [OF d(2)] utf8_lines [OF d(1)] assms(2) by (simp add: toml_ok_def entries_ok_def)
  then have "utf8_ok (join_with [CHR 0x0A] all)"
    by (induction "[CHR 0x0A]" all rule: join_with.induct) (auto simp: utf8_ok_append)
  then show ?thesis using d(3) by (simp add: utf8_ok_append)
qed

text \<open>One text with DEL in it, and the whole document cannot be read.\<close>

lemma sections_bad:
  "l \<in> set ls \<Longrightarrow> l \<noteq> [] \<Longrightarrow> hd l \<noteq> CHR ''['' \<Longrightarrow> toml_read_line l = None \<Longrightarrow> toml_sections ls = None"
  by (induction ls) (auto split: option.splits)

lemma del_line_unreadable:
  assumes "toml_line (k, TStr s) = Inr l" "bare_key k" "del \<in> set s"
  shows "toml_read_line l = None" "l \<noteq> []" "hd l \<noteq> CHR ''[''"
proof -
  have l: "l = k @ CHR '' '' # ''= '' @ CHR 0x22 # escaped_text s @ [CHR 0x22]"
    using assms(1) by (simp add: toml_line_def)
  note tw = takeWhile_bare [OF assms(2) not_bare(1), of "''= '' @ CHR 0x22 # escaped_text s @ [CHR 0x22]"]
  show "toml_read_line l = None"
    unfolding toml_read_line_def l Let_def tw
    using toml_string_del [OF assms(3), of "[CHR 0x22]"] by (simp add: toml_read_value_def)
  obtain c cs where "k = c # cs" "bare c" using bare_key_start [OF assms(2)] by blast
  then show "l \<noteq> []" "hd l \<noteq> CHR ''[''" using l not_bare(3) by auto
qed

abbreviation bare_keys :: "(str \<times> 'v) list \<Rightarrow> bool" where
  "bare_keys es \<equiv> list_all (\<lambda>e. bare_key (fst e)) es"

lemma bare_no_newline: "bare_key k \<Longrightarrow> CHR 0x0A \<notin> set k"
  using not_bare(4) by (auto simp: bare_key_def list_all_iff)

lemma lines_no_newline: "mapE toml_line es = Inr ls \<Longrightarrow> bare_keys es \<Longrightarrow> l \<in> set ls \<Longrightarrow> CHR 0x0A \<notin> set l"
proof (induction es arbitrary: ls)
  case (Cons e es)
  have "toml_line e = Inr x \<Longrightarrow> CHR 0x0A \<notin> set x" for x
    using Cons.prems(2) formatted_no_newline [of "snd e"] bare_no_newline [of "fst e"] by (auto simp: toml_line_def)
  then show ?case using Cons by auto
qed simp

lemma lines_of_entries: "mapE toml_line es = Inr ls \<Longrightarrow> e \<in> set es \<Longrightarrow> \<exists>l \<in> set ls. toml_line e = Inr l"
  by (induction es arbitrary: ls) auto

lemma tables_lines:
  assumes "dump_tables ls ts = Inr all" "\<forall>(n, t) \<in> set ts. bare_key n \<and> bare_keys t"
    "\<forall>l \<in> set ls. CHR 0x0A \<notin> set l"
  shows "(\<forall>l \<in> set all. CHR 0x0A \<notin> set l) \<and> set ls \<subseteq> set all \<and>
    (\<forall>(n, t) \<in> set ts. \<forall>e \<in> set t. \<exists>l \<in> set all. toml_line e = Inr l)"
  using assms
proof (induction ls ts rule: dump_tables.induct)
  case (2 ls name t ts)
  let ?start = "ls @ (if ls \<noteq> [] then [[]] else []) @ [''['' @ name @ '']'']"
  obtain es where es: "mapE toml_line t = Inr es" "dump_tables (?start @ es) ts = Inr all"
    using "2.prems"(1) by auto
  have "CHR 0x0A \<notin> set name" using "2.prems"(2) bare_no_newline [of name] by simp
  moreover have "bare_keys t" using "2.prems"(2) by simp
  then have "\<forall>l \<in> set es. CHR 0x0A \<notin> set l" using lines_no_newline [OF es(1)] by blast
  moreover have "\<forall>l \<in> set (if ls \<noteq> [] then [[]] else []). CHR 0x0A \<notin> set l" by simp
  moreover have "CHR 0x0A \<notin> set (''['' @ name @ '']'')" using \<open>CHR 0x0A \<notin> set name\<close> by simp
  ultimately have "\<forall>l \<in> set (?start @ es). CHR 0x0A \<notin> set l"
    using "2.prems"(3) by auto
  moreover have "\<forall>(n, t) \<in> set ts. bare_key n \<and> bare_keys t" using "2.prems"(2) by simp
  moreover have "dump_tables (ls @ (if ls \<noteq> [] then [[]] else []) @ [''['' @ name @ '']''] @ es) ts = Inr all"
    using es(2) by (simp only: append_assoc)
  ultimately have IH: "(\<forall>l \<in> set all. CHR 0x0A \<notin> set l) \<and> set (?start @ es) \<subseteq> set all \<and>
      (\<forall>(n, t) \<in> set ts. \<forall>e \<in> set t. \<exists>l \<in> set all. toml_line e = Inr l)"
    using "2.IH" [OF es(1)] unfolding append_assoc by blast
  have "set es \<subseteq> set all" using IH by simp
  then have "\<forall>e \<in> set t. \<exists>l \<in> set all. toml_line e = Inr l"
    using lines_of_entries [OF es(1)] by blast
  then show ?case using IH by simp
qed simp

definition toml_keys_ok :: "toml_object \<Rightarrow> bool" where
  "toml_keys_ok obj \<longleftrightarrow> bare_keys (toml_scalars obj) \<and> (\<forall>(n, t) \<in> set (toml_tables obj). bare_key n \<and> bare_keys t)"

lemma dump_del_unreadable:
  assumes dump: "dump_toml obj = Inr t" and keys: "toml_keys_ok obj" and del: "del \<in> set s"
    and entry: "(k, TStr s) \<in> set (toml_scalars obj) \<or> (\<exists>n es. (n, es) \<in> set (toml_tables obj) \<and> (k, TStr s) \<in> set es)"
  shows "toml_read t = None"
proof -
  obtain ls all where d: "mapE toml_line (toml_scalars obj) = Inr ls" "dump_tables ls (toml_tables obj) = Inr all"
    "t = join_with [CHR 0x0A] all @ [CHR 0x0A]"
    using dump by (auto simp: dump_toml_def)
  have all: "(\<forall>l \<in> set all. CHR 0x0A \<notin> set l) \<and> set ls \<subseteq> set all \<and>
      (\<forall>(n, t) \<in> set (toml_tables obj). \<forall>e \<in> set t. \<exists>l \<in> set all. toml_line e = Inr l)"
    using tables_lines [OF d(2)] lines_no_newline [OF d(1)] keys by (auto simp: toml_keys_ok_def)
  have "\<exists>l \<in> set all. toml_line (k, TStr s) = Inr l"
    using entry all lines_of_entries [OF d(1), of "(k, TStr s)"] by blast
  moreover have "bare_key k" using entry keys by (fastforce simp: toml_keys_ok_def list_all_iff)
  ultimately obtain l where "l \<in> set all" "toml_read_line l = None" "l \<noteq> []" "hd l \<noteq> CHR ''[''"
    using del_line_unreadable [OF _ _ del] by blast
  then have "toml_sections all = None" by (intro sections_bad [of l])
  then show ?thesis using lines_of_text [of all] all d(3) by (simp add: toml_read_def list_all_iff)
qed

end
