(* ===== verification/Settings.thy ===== *)
theory Settings
  imports Toml App_Paths Kdf Vault_Format
begin

text \<open>
  The settings: \<open>models/config.py\<close> and \<open>load\<close>, \<open>save\<close> and the permission checks of
  \<open>services/config_service.py\<close> on POSIX. The library that reads TOML, the coercions of pydantic, the
  case mapping of text that is not ASCII and the atomic write are parameters. The lemmas show that
  settings that were saved are loaded as they were, which saved settings no start can load, and
  what a loaded configuration satisfies.
\<close>

section \<open>The configuration\<close>

datatype appearance_mode = APPEARANCE_SYSTEM | APPEARANCE_LIGHT | APPEARANCE_DARK

datatype app_page = PAGE_KEYS | PAGE_MESSAGES | PAGE_VAULT | PAGE_SETTINGS | PAGE_HELP

fun appearance_value :: "appearance_mode \<Rightarrow> str" where
  "appearance_value APPEARANCE_SYSTEM = ''system''"
| "appearance_value APPEARANCE_LIGHT = ''light''"
| "appearance_value APPEARANCE_DARK = ''dark''"

fun page_value :: "app_page \<Rightarrow> str" where
  "page_value PAGE_KEYS = ''keys''"
| "page_value PAGE_MESSAGES = ''messages''"
| "page_value PAGE_VAULT = ''vault''"
| "page_value PAGE_SETTINGS = ''settings''"
| "page_value PAGE_HELP = ''help''"

fun kdf_profile_value :: "kdf_profile \<Rightarrow> str" where
  "kdf_profile_value HIGH_MEMORY = ''high_memory''"
| "kdf_profile_value BALANCED = ''balanced''"

record audit_config =
  ac_enabled :: bool
  ac_hash_chain :: bool

text \<open>\<open>GPGBinaryTrust\<close> as the file holds it: any integers.\<close>

record binary_trust =
  gt_path :: str
  gt_sha256 :: str
  gt_device :: "int option"
  gt_inode :: "int option"

record app_config =
  cfg_locale :: str
  cfg_appearance :: appearance_mode
  cfg_last_open_page :: app_page
  cfg_gpg_binary_path :: "str option"
  cfg_gpg_trust :: "binary_trust option"
  cfg_cipher :: cipher_algorithm
  cfg_kdf_profile :: kdf_profile
  cfg_clipboard_seconds :: int
  cfg_reminder_days :: int
  cfg_high_contrast :: bool
  cfg_reduce_motion :: bool
  cfg_confirm_delete :: bool
  cfg_audit :: audit_config

definition LOCALE_AUTO :: str where "LOCALE_AUTO = ''auto''"

definition default_config :: app_config where
  "default_config = \<lparr>cfg_locale = LOCALE_AUTO, cfg_appearance = APPEARANCE_SYSTEM, cfg_last_open_page = PAGE_KEYS,
     cfg_gpg_binary_path = None, cfg_gpg_trust = None, cfg_cipher = CHACHA20_POLY1305, cfg_kdf_profile = HIGH_MEMORY,
     cfg_clipboard_seconds = 60, cfg_reminder_days = 30, cfg_high_contrast = False, cfg_reduce_motion = False,
     cfg_confirm_delete = True, cfg_audit = \<lparr>ac_enabled = True, ac_hash_chain = True\<rparr>\<rparr>"

text \<open>
  What the model takes as given: \<open>str.strip\<close>, \<open>lower\<close> and \<open>upper\<close>, which on ASCII text are the
  functions of \<open>Prelude\<close>; how pydantic turns a TOML value into a boolean or an integer;
  \<open>tomllib.loads\<close>; and \<open>atomic_write_bytes\<close>.
\<close>

record config_env =
  ce_strip :: "str \<Rightarrow> str"
  ce_lower :: "str \<Rightarrow> str"
  ce_upper :: "str \<Rightarrow> str"
  ce_bool :: "toml_value \<Rightarrow> bool option"
  ce_int :: "toml_value \<Rightarrow> int option"
  ce_loads :: "str \<Rightarrow> toml_object option"
  ce_write :: "path \<Rightarrow> bytes \<Rightarrow> nat \<Rightarrow> (file_system, unit) prog"

definition tag_letter :: "char \<Rightarrow> bool" where
  "tag_letter c \<longleftrightarrow> is_digit c \<or> (65 \<le> code c \<and> code c \<le> 90) \<or> (97 \<le> code c \<and> code c \<le> 122)"

text \<open>\<open>re.fullmatch(r"[a-z]{2,3}(-[A-Za-z0-9]{2,8})*", s)\<close>.\<close>

definition language_tag :: "str \<Rightarrow> bool" where
  "language_tag s = (let ps = split_on (CHR ''-'') s in
     list_all (\<lambda>c. 97 \<le> code c \<and> code c \<le> 122) (hd ps) \<and> 2 \<le> length (hd ps) \<and> length (hd ps) \<le> 3 \<and>
     list_all (\<lambda>p. list_all tag_letter p \<and> 2 \<le> length p \<and> length p \<le> 8) (tl ps))"

definition validate_locale :: "config_env \<Rightarrow> str \<Rightarrow> str option" where
  "validate_locale env v =
     (let normalized = map (\<lambda>c. if c = CHR ''_'' then CHR ''-'' else c) (ce_strip env v) in
      if ce_lower env normalized = LOCALE_AUTO then Some LOCALE_AUTO
      else (let parts = split_on (CHR ''-'') normalized;
                language = ce_lower env (hd parts);
                suffixes = map (\<lambda>p. if py_len p = 2 then ce_upper env p else p) (tl parts);
                result = join_with ''-'' (language # suffixes) in
            if language_tag result then Some result else None))"

section \<open>Validation\<close>

fun scalar :: "(toml_value \<Rightarrow> 'a option) \<Rightarrow> toml_entry \<Rightarrow> 'a option" where
  "scalar f (TValue v) = f v"
| "scalar f (TTable t) = None"

fun str_value :: "toml_value \<Rightarrow> str option" where
  "str_value (TStr s) = Some s"
| "str_value v = None"

definition member_value :: "('a \<Rightarrow> str) \<Rightarrow> 'a list \<Rightarrow> toml_value \<Rightarrow> 'a option" where
  "member_value value members v = Option.bind (str_value v) (\<lambda>s. find (\<lambda>m. value m = s) members)"

definition bounded :: "int \<Rightarrow> int \<Rightarrow> int option \<Rightarrow> int option" where
  "bounded lo hi v = Option.bind v (\<lambda>i. if lo \<le> i \<and> i \<le> hi then Some i else None)"

text \<open>A field with a default, and one without.\<close>

definition with_default :: "(str \<times> 'e) list \<Rightarrow> str \<Rightarrow> ('e \<Rightarrow> 'a option) \<Rightarrow> 'a \<Rightarrow> 'a option" where
  "with_default obj k conv d = (case map_of obj k of None \<Rightarrow> Some d | Some e \<Rightarrow> conv e)"

definition required_field :: "(str \<times> 'e) list \<Rightarrow> str \<Rightarrow> ('e \<Rightarrow> 'a option) \<Rightarrow> 'a option" where
  "required_field obj k conv = Option.bind (map_of obj k) conv"

definition validate_audit :: "config_env \<Rightarrow> toml_entry \<Rightarrow> audit_config option" where
  "validate_audit env e = (case e of
       TValue v \<Rightarrow> None
     | TTable t \<Rightarrow>
         if \<not> list_all (\<lambda>k. k \<in> {''enabled'', ''hash_chain''}) (map fst t) then None
         else Option.bind (with_default t ''enabled'' (ce_bool env) True) (\<lambda>en.
              Option.bind (with_default t ''hash_chain'' (ce_bool env) True) (\<lambda>hc.
              Some \<lparr>ac_enabled = en, ac_hash_chain = hc\<rparr>)))"

definition validate_trust :: "config_env \<Rightarrow> toml_entry \<Rightarrow> binary_trust option" where
  "validate_trust env e = (case e of
       TValue v \<Rightarrow> None
     | TTable t \<Rightarrow>
         if \<not> list_all (\<lambda>k. k \<in> {''path'', ''sha256'', ''device'', ''inode''}) (map fst t) then None
         else Option.bind (required_field t ''path'' str_value) (\<lambda>p.
              Option.bind (required_field t ''sha256'' str_value) (\<lambda>h.
              Option.bind (with_default t ''device'' (\<lambda>v. map_option Some (ce_int env v)) None) (\<lambda>d.
              Option.bind (with_default t ''inode'' (\<lambda>v. map_option Some (ce_int env v)) None) (\<lambda>i.
              Some \<lparr>gt_path = p, gt_sha256 = h, gt_device = d, gt_inode = i\<rparr>)))))"

definition config_keys :: "str list" where
  "config_keys = [''locale'', ''appearance'', ''last_open_page'', ''gpg_binary_path'', ''gpg_binary_trusted_hash'',
     ''cipher'', ''kdf_profile'', ''clipboard_clear_seconds'', ''backup_reminder_days'', ''high_contrast'',
     ''reduce_motion'', ''require_delete_text_confirmation'', ''audit'']"

definition validate_config :: "config_env \<Rightarrow> toml_object \<Rightarrow> app_config option" where
  "validate_config env obj =
     (let d = default_config in
      if \<not> list_all (\<lambda>k. k \<in> set config_keys) (map fst obj) then None
      else Option.bind (with_default obj ''locale'' (scalar (\<lambda>v. Option.bind (str_value v) (validate_locale env))) (cfg_locale d)) (\<lambda>loc.
      Option.bind (with_default obj ''appearance'' (scalar (member_value appearance_value
        [APPEARANCE_SYSTEM, APPEARANCE_LIGHT, APPEARANCE_DARK])) (cfg_appearance d)) (\<lambda>app.
      Option.bind (with_default obj ''last_open_page'' (scalar (member_value page_value
        [PAGE_KEYS, PAGE_MESSAGES, PAGE_VAULT, PAGE_SETTINGS, PAGE_HELP])) (cfg_last_open_page d)) (\<lambda>page.
      Option.bind (with_default obj ''gpg_binary_path'' (scalar (\<lambda>v. map_option Some (str_value v))) None) (\<lambda>gpg.
      Option.bind (with_default obj ''gpg_binary_trusted_hash'' (\<lambda>e. map_option Some (validate_trust env e)) None) (\<lambda>trust.
      Option.bind (with_default obj ''cipher'' (scalar (member_value cipher_value
        [CHACHA20_POLY1305, AES_256_GCM])) (cfg_cipher d)) (\<lambda>cipher.
      Option.bind (with_default obj ''kdf_profile'' (scalar (member_value kdf_profile_value
        [HIGH_MEMORY, BALANCED])) (cfg_kdf_profile d)) (\<lambda>kdf.
      Option.bind (with_default obj ''clipboard_clear_seconds'' (scalar (\<lambda>v. bounded 0 3600 (ce_int env v))) (cfg_clipboard_seconds d)) (\<lambda>clip.
      Option.bind (with_default obj ''backup_reminder_days'' (scalar (\<lambda>v. bounded 1 365 (ce_int env v))) (cfg_reminder_days d)) (\<lambda>days.
      Option.bind (with_default obj ''high_contrast'' (scalar (ce_bool env)) (cfg_high_contrast d)) (\<lambda>contrast.
      Option.bind (with_default obj ''reduce_motion'' (scalar (ce_bool env)) (cfg_reduce_motion d)) (\<lambda>motion.
      Option.bind (with_default obj ''require_delete_text_confirmation'' (scalar (ce_bool env)) (cfg_confirm_delete d)) (\<lambda>confirm.
      Option.bind (with_default obj ''audit'' (validate_audit env) (cfg_audit d)) (\<lambda>audit.
      Some \<lparr>cfg_locale = loc, cfg_appearance = app, cfg_last_open_page = page, cfg_gpg_binary_path = gpg,
        cfg_gpg_trust = trust, cfg_cipher = cipher, cfg_kdf_profile = kdf, cfg_clipboard_seconds = clip,
        cfg_reminder_days = days, cfg_high_contrast = contrast, cfg_reduce_motion = motion,
        cfg_confirm_delete = confirm, cfg_audit = audit\<rparr>))))))))))))))"

section \<open>Loading and saving\<close>

text \<open>\<open>config.model_dump(mode="json", exclude_none=True)\<close>.\<close>

fun optional :: "str \<Rightarrow> 'v option \<Rightarrow> (str \<times> 'v) list" where
  "optional k None = []"
| "optional k (Some v) = [(k, v)]"

definition trust_entries :: "binary_trust \<Rightarrow> (str \<times> toml_value) list" where
  "trust_entries t = [(''path'', TStr (gt_path t)), (''sha256'', TStr (gt_sha256 t))] @
     optional ''device'' (map_option TInt (gt_device t)) @ optional ''inode'' (map_option TInt (gt_inode t))"

definition dump_config :: "app_config \<Rightarrow> toml_object" where
  "dump_config c =
     [(''locale'', TValue (TStr (cfg_locale c))), (''appearance'', TValue (TStr (appearance_value (cfg_appearance c)))),
      (''last_open_page'', TValue (TStr (page_value (cfg_last_open_page c))))] @
     optional ''gpg_binary_path'' (map_option (\<lambda>s. TValue (TStr s)) (cfg_gpg_binary_path c)) @
     optional ''gpg_binary_trusted_hash'' (map_option (\<lambda>t. TTable (trust_entries t)) (cfg_gpg_trust c)) @
     [(''cipher'', TValue (TStr (cipher_value (cfg_cipher c)))),
      (''kdf_profile'', TValue (TStr (kdf_profile_value (cfg_kdf_profile c)))),
      (''clipboard_clear_seconds'', TValue (TInt (cfg_clipboard_seconds c))),
      (''backup_reminder_days'', TValue (TInt (cfg_reminder_days c))),
      (''high_contrast'', TValue (TBool (cfg_high_contrast c))), (''reduce_motion'', TValue (TBool (cfg_reduce_motion c))),
      (''require_delete_text_confirmation'', TValue (TBool (cfg_confirm_delete c))),
      (''audit'', TTable [(''enabled'', TBool (ac_enabled (cfg_audit c))), (''hash_chain'', TBool (ac_hash_chain (cfg_audit c)))])]"

definition WRITABLE_CONFIG_STATUSES :: "permission_status list" where
  "WRITABLE_CONFIG_STATUSES = [GROUP_WRITABLE, WORLD_WRITABLE, SYMLINK]"

definition ensure_safe_to_load :: "path \<Rightarrow> (file_system, unit) prog" where
  "ensure_safe_to_load p =
     bindP (getP (\<lambda>fs. (path_exists fs p, pr_status (permission_report_of fs p)))) (\<lambda>(ex, status).
       if \<not> ex then retP ()
       else if status \<in> set WRITABLE_CONFIG_STATUSES then raiseP ConfigServiceError
       else if status \<in> {GROUP_READABLE, WORLD_READABLE} then ensure_file_mode p FILE_MODE
       else retP ())"

text \<open>\<open>path.read_bytes()\<close>, where an \<open>OSError\<close> is \<open>None\<close>. Links never get this far.\<close>

definition read_bytes :: "file_system \<Rightarrow> path \<Rightarrow> bytes option" where
  "read_bytes fs p = (if \<not> fs_open_ok fs p then None else case fs_node fs p of Some (File _ b) \<Rightarrow> Some b | _ \<Rightarrow> None)"

definition read_config :: "config_env \<Rightarrow> bytes option \<Rightarrow> app_config res" where
  "read_config env data = (case data of
       None \<Rightarrow> Inl ConfigServiceError
     | Some b \<Rightarrow>
         if \<not> utf8_ok b then Inl ConfigServiceError
         else (case ce_loads env b of
             None \<Rightarrow> Inl ConfigServiceError
           | Some obj \<Rightarrow> of_option ConfigServiceError (validate_config env obj)))"

definition load_config :: "config_env \<Rightarrow> path \<Rightarrow> (file_system, app_config) prog" where
  "load_config env p =
     bindP (getP (\<lambda>fs. path_exists fs p)) (\<lambda>ex.
       if \<not> ex then retP default_config
       else thenP (ensure_safe_to_load p) (\<lambda>fs. (read_config env (read_bytes fs p), fs)))"

definition save_config :: "config_env \<Rightarrow> app_config \<Rightarrow> path \<Rightarrow> (file_system, unit) prog" where
  "save_config env c p =
     thenP (ensure_dir (butlast p) DIR_MODE)
     (thenP (reject_symlink p)
     (bindP (liftP (dump_toml (dump_config c))) (\<lambda>data. ce_write env p data FILE_MODE)))"

text \<open>The status the warning names.\<close>

definition warn_if_world_readable :: "file_system \<Rightarrow> path \<Rightarrow> str option" where
  "warn_if_world_readable fs p =
     (let status = pr_status (permission_report_of fs p) in
      if \<not> path_exists fs p \<or> status \<in> {STATUS_OK, NOT_FOUND} then None else Some (permission_value status))"

section \<open>What the parameters promise\<close>

abbreviation ascii :: "str \<Rightarrow> bool" where
  "ascii s \<equiv> list_all (\<lambda>c. code c < 128) s"

definition text_ok :: "config_env \<Rightarrow> bool" where
  "text_ok env \<longleftrightarrow> (\<forall>s. ascii s \<longrightarrow> ce_strip env s = strip s \<and> ce_lower env s = lower s \<and> ce_upper env s = upper s) \<and>
     (\<forall>s. list_all (\<lambda>c. \<not> (97 \<le> code c \<and> code c \<le> 122)) (ce_upper env s)) \<and>
     (\<forall>s. CHR ''-'' \<notin> set s \<longrightarrow> CHR ''-'' \<notin> set (ce_lower env s) \<and> CHR ''-'' \<notin> set (ce_upper env s))"

text \<open>
  \<open>tomllib\<close> reads what the program writes as TOML 1.0 says; a TOML boolean or integer is a valid
  boolean or integer; a write that succeeds leaves the file with the data and a private mode,
  and one that fails leaves the file alone.
\<close>

definition loads_ok :: "config_env \<Rightarrow> bool" where
  "loads_ok env \<longleftrightarrow> (\<forall>obj t. dump_toml obj = Inr t \<longrightarrow> toml_keys_ok obj \<longrightarrow> ce_loads env t = toml_read t)"

definition coerce_ok :: "config_env \<Rightarrow> bool" where
  "coerce_ok env \<longleftrightarrow> (\<forall>b. ce_bool env (TBool b) = Some b) \<and> (\<forall>i. ce_int env (TInt i) = Some i)"

definition write_ok :: "config_env \<Rightarrow> bool" where
  "write_ok env \<longleftrightarrow> (\<forall>p data mode fs r fs'. ce_write env p data mode fs = (r, fs') \<longrightarrow>
     fs_open_ok fs' = fs_open_ok fs \<and>
     (if r = Inr () then \<exists>m \<in> {mode, masked mode (fs_umask fs)}. fs_node fs' p = Some (File m data)
      else fs_node fs' p = fs_node fs p))"

definition config_env_ok :: "config_env \<Rightarrow> bool" where
  "config_env_ok env \<longleftrightarrow> text_ok env \<and> loads_ok env \<and> coerce_ok env \<and> write_ok env"

section \<open>Locales\<close>

lemma locale_text_laws:
  assumes "text_ok env"
  shows "ascii s \<Longrightarrow> ce_strip env s = strip s" "ascii s \<Longrightarrow> ce_lower env s = lower s" "ascii s \<Longrightarrow> ce_upper env s = upper s"
    "list_all (\<lambda>c. \<not> (97 \<le> code c \<and> code c \<le> 122)) (ce_upper env s)"
    "CHR ''-'' \<notin> set s \<Longrightarrow> CHR ''-'' \<notin> set (ce_lower env s) \<and> CHR ''-'' \<notin> set (ce_upper env s)"
  using assms by (simp_all add: text_ok_def)

lemma alnum_facts: "tag_letter c \<Longrightarrow> code c < 128 \<and> \<not> is_space c \<and> c \<noteq> CHR ''_'' \<and> c \<noteq> CHR ''-''"
  by (auto simp: tag_letter_def is_digit_def is_space_def)

lemma tag_char: "tag_letter c \<or> c = CHR ''-'' \<Longrightarrow> code c < 128 \<and> \<not> is_space c \<and> c \<noteq> CHR ''_''"
  using alnum_facts by (auto simp: is_space_def)

lemma lower_is_alnum: "97 \<le> code c \<and> code c \<le> 122 \<Longrightarrow> tag_letter c"
  by (simp add: tag_letter_def)

lemma split_set: "c \<in> set s \<Longrightarrow> c = d \<or> (\<exists>p \<in> set (split_on d s). c \<in> set p)"
proof (induction s)
  case (Cons x s)
  then show ?case by (cases "split_on d s") auto
qed simp

lemma split_join_id: "join_with [d] (split_on d s) = s"
proof (induction s)
  case (Cons x s)
  obtain w ws where "split_on d s = w # ws" by (cases "split_on d s") auto
  then show ?case using Cons by (cases ws) auto
qed simp

lemma tag_chars: "language_tag s \<Longrightarrow> c \<in> set s \<Longrightarrow> tag_letter c \<or> c = CHR ''-''"
proof -
  assume t: "language_tag s" "c \<in> set s"
  obtain w ws where w: "split_on (CHR ''-'') s = w # ws" by (cases "split_on (CHR ''-'') s") auto
  have "list_all tag_letter p" if "p \<in> set (w # ws)" for p
    using that t(1) lower_is_alnum by (auto simp: language_tag_def w list_all_iff)
  then show ?thesis using split_set [OF t(2), of "CHR ''-''"] w by (auto simp: list_all_iff)
qed

lemma strip_id: "list_all (\<lambda>c. \<not> is_space c) s \<Longrightarrow> strip s = s"
proof -
  assume s: "list_all (\<lambda>c. \<not> is_space c) s"
  then have "dropWhile is_space s = s" "dropWhile is_space (rev s) = rev s"
    by (auto simp: dropWhile_eq_self_iff list_all_iff hd_rev)
  then show ?thesis by (simp add: strip_def lstrip_def rstrip_def)
qed

lemma split_pieces: "p \<in> set (split_on d s) \<Longrightarrow> d \<notin> set p"
proof (induction s arbitrary: p)
  case (Cons c s)
  then show ?case by (cases "split_on d s") (auto split: if_splits)
qed simp

lemma letters_lower: "list_all (\<lambda>c. 97 \<le> code c \<and> code c \<le> 122) s \<Longrightarrow> lower s = s"
  by (induction s) (auto simp: lower_char_def)

lemma no_letters_upper: "list_all (\<lambda>c. \<not> (97 \<le> code c \<and> code c \<le> 122)) s \<Longrightarrow> upper s = s"
  by (induction s) (auto simp: upper_char_def)

text \<open>A tag is ASCII, has no blanks or underscores, and is not the word \<open>auto\<close>.\<close>

lemma tag_text:
  assumes "language_tag t"
  shows "ascii t" "strip t = t" "map (\<lambda>c. if c = CHR ''_'' then CHR ''-'' else c) t = t" "lower t \<noteq> LOCALE_AUTO"
proof -
  have c: "code c < 128 \<and> \<not> is_space c \<and> c \<noteq> CHR ''_''" if "c \<in> set t" for c
    using tag_char tag_chars [OF assms that] by blast
  then show "ascii t" "strip t = t" by (auto simp: list_all_iff intro: strip_id)
  show "map (\<lambda>c. if c = CHR ''_'' then CHR ''-'' else c) t = t" using c by (intro map_idI) auto
  show "lower t \<noteq> LOCALE_AUTO"
  proof
    assume a: "lower t = LOCALE_AUTO"
    have "CHR ''-'' \<notin> set t"
    proof
      assume "CHR ''-'' \<in> set t"
      then have "lower_char (CHR ''-'') \<in> set (lower t)" by simp
      then show False unfolding a by (simp add: lower_char_def LOCALE_AUTO_def)
    qed
    then have "split_on (CHR ''-'') t = [t]" by (rule split_on_no_sep)
    then have "length t \<le> 3" using assms by (simp add: language_tag_def)
    moreover have "length t = 4" using arg_cong [OF a, of length] by (simp add: LOCALE_AUTO_def)
    ultimately show False by simp
  qed
qed

lemma locale_settles:
  assumes env: "text_ok env" and v: "validate_locale env s = Some t"
  shows "validate_locale env t = Some t \<and> (t = LOCALE_AUTO \<or> language_tag t)"
proof (cases "t = LOCALE_AUTO")
  case True
  have "ascii LOCALE_AUTO" "strip LOCALE_AUTO = LOCALE_AUTO" "lower LOCALE_AUTO = LOCALE_AUTO"
    "map (\<lambda>c. if c = CHR ''_'' then CHR ''-'' else c) LOCALE_AUTO = LOCALE_AUTO" by code_simp+
  then show ?thesis using True locale_text_laws(1,2) [OF env, of LOCALE_AUTO] by (simp add: validate_locale_def)
next
  case False
  define n where "n = map (\<lambda>c. if c = CHR ''_'' then CHR ''-'' else c) (ce_strip env s)"
  define ps where "ps = split_on (CHR ''-'') n"
  define suffix where "suffix = (\<lambda>p. if py_len p = 2 then ce_upper env p else p)"
  let ?ws = "ce_lower env (hd ps) # map suffix (tl ps)"
  have t: "t = join_with ''-'' ?ws" "language_tag t"
    using v False by (auto simp: validate_locale_def n_def [symmetric] ps_def [symmetric] suffix_def [symmetric] Let_def split: if_splits)
  have "ps \<noteq> []" by (simp add: ps_def)
  then have pieces: "\<forall>p \<in> set (hd ps # tl ps). CHR ''-'' \<notin> set p" using split_pieces by (simp add: ps_def)
  then have ws: "list_all (\<lambda>w. CHR ''-'' \<notin> set w) ?ws"
    using locale_text_laws(5) [OF env] by (auto simp: list_all_iff suffix_def)
  then have split: "split_on (CHR ''-'') t = ?ws" using split_on_join [of ?ws "CHR ''-''"] by (simp add: t(1))
  have ascii: "ascii w" if "w \<in> set ?ws" for w
    using that t(2) alnum_facts lower_is_alnum by (fastforce simp: language_tag_def split list_all_iff)
  have first: "ce_lower env (hd ?ws) = hd ?ws"
    using t(2) letters_lower ascii [of "hd ?ws"] locale_text_laws(2) [OF env, of "hd ?ws"] by (simp add: language_tag_def split)
  have rest: "suffix w = w" if w: "w \<in> set (tl ?ws)" for w
  proof -
    obtain p where p: "w = suffix p" using w by auto
    show ?thesis
    proof (cases "py_len p = 2")
      case True
      then have "upper w = w" using p locale_text_laws(4) [OF env, of p] by (intro no_letters_upper) (simp add: suffix_def)
      moreover have "ascii w" by (rule ascii) (use w in simp)
      ultimately have "ce_upper env w = w" using locale_text_laws(3) [OF env] by simp
      then show ?thesis by (simp add: suffix_def)
    qed (simp add: p suffix_def)
  qed
  have suffixes: "map suffix (tl ?ws) = tl ?ws" by (intro map_idI) (rule rest)
  have "join_with ''-'' (ce_lower env (hd ?ws) # map suffix (tl ?ws)) = t"
    unfolding first suffixes by (simp add: t(1))
  moreover have "ce_strip env t = t" "ce_lower env t \<noteq> LOCALE_AUTO"
    using tag_text [OF t(2)] locale_text_laws(1,2) [OF env, of t] by simp_all
  ultimately show ?thesis
    using t(2) tag_text(3) [OF t(2)] by (simp add: validate_locale_def Let_def split suffix_def [symmetric])
qed

section \<open>What is written and read\<close>

definition config_ok :: "config_env \<Rightarrow> app_config \<Rightarrow> bool" where
  "config_ok env c \<longleftrightarrow> validate_locale env (cfg_locale c) = Some (cfg_locale c) \<and>
     0 \<le> cfg_clipboard_seconds c \<and> cfg_clipboard_seconds c \<le> 3600 \<and> 1 \<le> cfg_reminder_days c \<and> cfg_reminder_days c \<le> 365"

text \<open>The texts in a configuration that can be anything.\<close>

definition config_texts :: "app_config \<Rightarrow> str list" where
  "config_texts c = (case cfg_gpg_binary_path c of None \<Rightarrow> [] | Some s \<Rightarrow> [s]) @
     (case cfg_gpg_trust c of None \<Rightarrow> [] | Some t \<Rightarrow> [gt_path t, gt_sha256 t])"

definition has_del :: "app_config \<Rightarrow> bool" where
  "has_del c \<longleftrightarrow> (\<exists>s \<in> set (config_texts c). del \<in> set s)"

definition texts_ok :: "app_config \<Rightarrow> bool" where
  "texts_ok c \<longleftrightarrow> list_all utf8_ok (config_texts c)"

lemma optional_all: "list_all P (optional k v) \<longleftrightarrow> (case v of None \<Rightarrow> True | Some x \<Rightarrow> P (k, x))"
  by (cases v) simp_all

lemma dump_parts:
  "toml_scalars (dump_config c) =
     [(''locale'', TStr (cfg_locale c)), (''appearance'', TStr (appearance_value (cfg_appearance c))),
      (''last_open_page'', TStr (page_value (cfg_last_open_page c)))] @
     optional ''gpg_binary_path'' (map_option TStr (cfg_gpg_binary_path c)) @
     [(''cipher'', TStr (cipher_value (cfg_cipher c))), (''kdf_profile'', TStr (kdf_profile_value (cfg_kdf_profile c))),
      (''clipboard_clear_seconds'', TInt (cfg_clipboard_seconds c)), (''backup_reminder_days'', TInt (cfg_reminder_days c)),
      (''high_contrast'', TBool (cfg_high_contrast c)), (''reduce_motion'', TBool (cfg_reduce_motion c)),
      (''require_delete_text_confirmation'', TBool (cfg_confirm_delete c))]"
  "toml_tables (dump_config c) =
     optional ''gpg_binary_trusted_hash'' (map_option trust_entries (cfg_gpg_trust c)) @
     [(''audit'', [(''enabled'', TBool (ac_enabled (cfg_audit c))), (''hash_chain'', TBool (ac_hash_chain (cfg_audit c)))])]"
  by (cases "cfg_gpg_binary_path c"; cases "cfg_gpg_trust c"; simp add: dump_config_def)+

lemmas bare_literal = bare_key_def bare_def is_digit_def

lemma dump_keys: "toml_keys_ok (dump_config c)"
  unfolding toml_keys_ok_def dump_parts
  by (cases "cfg_gpg_trust c")
    (simp_all add: trust_entries_def bare_literal optional_all split: option.splits)

lemma enum_texts:
  "del \<notin> set (appearance_value a) \<and> utf8_ok (appearance_value a)" "del \<notin> set (page_value p) \<and> utf8_ok (page_value p)"
  "del \<notin> set (cipher_value x) \<and> utf8_ok (cipher_value x)" "del \<notin> set (kdf_profile_value k) \<and> utf8_ok (kdf_profile_value k)"
  by (cases a; simp add: del_def) (cases p; simp add: del_def; fail | cases x; simp add: del_def; fail | cases k; simp add: del_def; fail)+

lemma dump_texts_ok:
  assumes "toml_value_ok (TStr (cfg_locale c))" "\<not> has_del c" "texts_ok c"
  shows "toml_ok (dump_config c)"
proof -
  have opt: "cfg_gpg_binary_path c = Some s \<Longrightarrow> toml_value_ok (TStr s)"
    "cfg_gpg_trust c = Some t \<Longrightarrow> toml_value_ok (TStr (gt_path t)) \<and> toml_value_ok (TStr (gt_sha256 t))" for s t
    using assms(2,3) by (auto simp: has_del_def texts_ok_def config_texts_def)
  have trust: "cfg_gpg_trust c = Some t \<Longrightarrow> entries_ok (trust_entries t)" for t
    using opt(2) [of t] by (cases "gt_device t"; cases "gt_inode t")
      (simp_all add: entries_ok_def trust_entries_def bare_literal)
  have "entries_ok (toml_scalars (dump_config c))"
    using opt(1) assms(1) enum_texts unfolding dump_parts entries_ok_def
    by (cases "cfg_gpg_binary_path c") (simp_all add: bare_literal)
  moreover have "tables_ok (toml_tables (dump_config c))"
    using trust unfolding dump_parts tables_ok_def
    by (cases "cfg_gpg_trust c") (simp_all add: bare_literal entries_ok_def)
  moreover have "distinct (map fst (toml_scalars (dump_config c)) @ map fst (toml_tables (dump_config c)))"
    unfolding dump_parts by (cases "cfg_gpg_binary_path c"; cases "cfg_gpg_trust c") simp_all
  ultimately show ?thesis by (simp add: toml_ok_def)
qed

section \<open>Loading what was saved\<close>

lemma find_members:
  "find (\<lambda>m. appearance_value m = appearance_value a) [APPEARANCE_SYSTEM, APPEARANCE_LIGHT, APPEARANCE_DARK] = Some a"
  "find (\<lambda>m. page_value m = page_value p) [PAGE_KEYS, PAGE_MESSAGES, PAGE_VAULT, PAGE_SETTINGS, PAGE_HELP] = Some p"
  "find (\<lambda>m. cipher_value m = cipher_value x) [CHACHA20_POLY1305, AES_256_GCM] = Some x"
  "find (\<lambda>m. kdf_profile_value m = kdf_profile_value k) [HIGH_MEMORY, BALANCED] = Some k"
  by (cases a; simp) (cases p; simp; fail | cases x; simp; fail | cases k; simp; fail)+

lemma member_written:
  "member_value appearance_value [APPEARANCE_SYSTEM, APPEARANCE_LIGHT, APPEARANCE_DARK] (TStr (appearance_value a)) = Some a"
  "member_value page_value [PAGE_KEYS, PAGE_MESSAGES, PAGE_VAULT, PAGE_SETTINGS, PAGE_HELP] (TStr (page_value p)) = Some p"
  "member_value cipher_value [CHACHA20_POLY1305, AES_256_GCM] (TStr (cipher_value x)) = Some x"
  "member_value kdf_profile_value [HIGH_MEMORY, BALANCED] (TStr (kdf_profile_value k)) = Some k"
  unfolding member_value_def str_value.simps Option.bind.bind_lunit by (rule find_members)+

lemma validate_trust_written:
  "coerce_ok env \<Longrightarrow> validate_trust env (TTable (trust_entries t)) = Some t"
  by (cases t; cases "gt_device t"; cases "gt_inode t")
    (simp_all add: validate_trust_def trust_entries_def required_field_def with_default_def coerce_ok_def)

lemma validate_audit_written:
  "coerce_ok env \<Longrightarrow>
   validate_audit env (TTable [(''enabled'', TBool (ac_enabled a)), (''hash_chain'', TBool (ac_hash_chain a))]) = Some a"
  by (cases a) (simp add: validate_audit_def with_default_def coerce_ok_def)

text \<open>The document as it is read back: the values first, then the tables.\<close>

definition reread :: "app_config \<Rightarrow> toml_object" where
  "reread c = map (\<lambda>(k, v). (k, TValue v)) (toml_scalars (dump_config c)) @
     map (\<lambda>(k, t). (k, TTable t)) (toml_tables (dump_config c))"

lemma map_of_optional: "map_of (optional k v) x = (if x = k then v else None)"
  by (cases v) simp_all

lemma optional_map: "map (\<lambda>(k, v). (k, f v)) (optional k v) = optional k (map_option f v)"
  by (cases v) simp_all

lemma reread_fields:
  "map_of (reread c) ''locale'' = Some (TValue (TStr (cfg_locale c)))"
  "map_of (reread c) ''appearance'' = Some (TValue (TStr (appearance_value (cfg_appearance c))))"
  "map_of (reread c) ''last_open_page'' = Some (TValue (TStr (page_value (cfg_last_open_page c))))"
  "map_of (reread c) ''gpg_binary_path'' = map_option (\<lambda>s. TValue (TStr s)) (cfg_gpg_binary_path c)"
  "map_of (reread c) ''gpg_binary_trusted_hash'' = map_option (\<lambda>t. TTable (trust_entries t)) (cfg_gpg_trust c)"
  "map_of (reread c) ''cipher'' = Some (TValue (TStr (cipher_value (cfg_cipher c))))"
  "map_of (reread c) ''kdf_profile'' = Some (TValue (TStr (kdf_profile_value (cfg_kdf_profile c))))"
  "map_of (reread c) ''clipboard_clear_seconds'' = Some (TValue (TInt (cfg_clipboard_seconds c)))"
  "map_of (reread c) ''backup_reminder_days'' = Some (TValue (TInt (cfg_reminder_days c)))"
  "map_of (reread c) ''high_contrast'' = Some (TValue (TBool (cfg_high_contrast c)))"
  "map_of (reread c) ''reduce_motion'' = Some (TValue (TBool (cfg_reduce_motion c)))"
  "map_of (reread c) ''require_delete_text_confirmation'' = Some (TValue (TBool (cfg_confirm_delete c)))"
  "map_of (reread c) ''audit'' = Some (TTable [(''enabled'', TBool (ac_enabled (cfg_audit c))), (''hash_chain'', TBool (ac_hash_chain (cfg_audit c)))])"
  unfolding reread_def dump_parts
  by (simp add: map_of_optional optional_map map_add_def option.map_comp comp_def split: option.splits)+

lemma reread_keys: "list_all (\<lambda>k. k \<in> set config_keys) (map fst (reread c))"
  unfolding reread_def dump_parts config_keys_def
  by (cases "cfg_gpg_binary_path c"; cases "cfg_gpg_trust c") simp_all

lemma validate_reread:
  assumes "config_ok env c" "coerce_ok env"
  shows "validate_config env (reread c) = Some c"
proof -
  have "\<forall>b. ce_bool env (TBool b) = Some b" "\<forall>i. ce_int env (TInt i) = Some i"
    using assms(2) by (simp_all add: coerce_ok_def)
  moreover have "with_default (reread c) ''gpg_binary_path'' (scalar (\<lambda>v. map_option Some (str_value v))) None = Some (cfg_gpg_binary_path c)"
    by (cases "cfg_gpg_binary_path c") (simp_all add: with_default_def reread_fields)
  moreover have "with_default (reread c) ''gpg_binary_trusted_hash'' (\<lambda>e. map_option Some (validate_trust env e)) None = Some (cfg_gpg_trust c)"
    by (cases "cfg_gpg_trust c") (simp_all add: with_default_def reread_fields validate_trust_written assms(2))
  ultimately show ?thesis
    using assms reread_keys [of c] unfolding validate_config_def Let_def
    by (simp add: with_default_def reread_fields member_written validate_audit_written config_ok_def bounded_def)
qed

lemma config_env_laws:
  assumes "config_env_ok env"
  shows "text_ok env" "coerce_ok env" "write_ok env"
    "dump_toml obj = Inr t \<Longrightarrow> toml_keys_ok obj \<Longrightarrow> ce_loads env t = toml_read t"
  using assms by (simp_all add: config_env_ok_def loads_ok_def)

lemma write_laws:
  assumes "write_ok env" "ce_write env p data mode fs = (r, fs')"
  shows "fs_open_ok fs' = fs_open_ok fs" "r \<noteq> Inr () \<Longrightarrow> fs_node fs' p = fs_node fs p"
    "r = Inr () \<Longrightarrow> \<exists>m \<in> {mode, masked mode (fs_umask fs)}. fs_node fs' p = Some (File m data)"
proof -
  have "fs_open_ok fs' = fs_open_ok fs \<and>
     (if r = Inr () then \<exists>m \<in> {mode, masked mode (fs_umask fs)}. fs_node fs' p = Some (File m data)
      else fs_node fs' p = fs_node fs p)"
    using assms unfolding write_ok_def by blast
  then show "fs_open_ok fs' = fs_open_ok fs" "r \<noteq> Inr () \<Longrightarrow> fs_node fs' p = fs_node fs p"
    "r = Inr () \<Longrightarrow> \<exists>m \<in> {mode, masked mode (fs_umask fs)}. fs_node fs' p = Some (File m data)"
    by (simp_all split: if_splits)
qed

lemma save_config_run:
  assumes "save_config env c p fs = (Inr (), fs')"
  obtains data fs1 where "dump_toml (dump_config c) = Inr data" "ce_write env p data FILE_MODE fs1 = (Inr (), fs')"
  using assms by (auto simp: save_config_def thenP_eq_Inr bindP_eq_Inr liftP_def)

text \<open>A file of the mode the program writes is loaded as it is.\<close>

lemma load_private_file:
  assumes "fs_node fs p = Some (File m data)" "m AND 54 = 0" "fs_open_ok fs p"
  shows "load_config env p fs = (read_config env (Some data), fs)"
proof -
  have "pr_status (permission_report_of fs p) = STATUS_OK"
    using assms(1,2) is_safe_iff [of fs p] by (simp add: is_safe_for_secrets_def is_link_def)
  moreover have "path_exists fs p" using assms(1) by (simp add: path_exists_def)
  ultimately show ?thesis
    using assms(1,3)
    by (simp add: load_config_def ensure_safe_to_load_def bindP_def thenP_def getP_def retP_def read_bytes_def
        WRITABLE_CONFIG_STATUSES_def)
qed

lemma load_saved:
  assumes env: "config_env_ok env" and save: "save_config env c p fs = (Inr (), fs')" and open_ok: "fs_open_ok fs' p"
  shows "\<exists>data. dump_toml (dump_config c) = Inr data \<and> load_config env p fs' = (read_config env (Some data), fs')"
proof -
  obtain data fs1 where d: "dump_toml (dump_config c) = Inr data" "ce_write env p data FILE_MODE fs1 = (Inr (), fs')"
    using save by (rule save_config_run)
  obtain m where m: "m \<in> {FILE_MODE, masked FILE_MODE (fs_umask fs1)}" "fs_node fs' p = Some (File m data)"
    using write_laws(3) [OF config_env_laws(3) [OF env] d(2)] by blast
  have "FILE_MODE AND 54 = 0" by (simp add: FILE_MODE_def)
  then have "m AND 54 = 0" using m(1) masked_zero by auto
  from load_private_file [OF m(2) this open_ok] d(1) show ?thesis by blast
qed

lemma settled_text:
  assumes "text_ok env" "validate_locale env s = Some s"
  shows "toml_value_ok (TStr s)"
proof -
  consider "s = LOCALE_AUTO" | "language_tag s" using locale_settles [OF assms] by blast
  then show ?thesis
  proof cases
    case 1
    then show ?thesis by (simp add: LOCALE_AUTO_def del_def)
  next
    case 2
    have "tag_letter del = False" "del \<noteq> CHR ''-''" by (simp_all add: del_def tag_letter_def is_digit_def)
    then have "del \<notin> set s" using tag_chars [OF 2] by metis
    then show ?thesis using ascii_text tag_text(1) [OF 2] by simp
  qed
qed

lemma del_entry:
  "has_del c \<Longrightarrow> \<exists>k s. del \<in> set s \<and> ((k, TStr s) \<in> set (toml_scalars (dump_config c)) \<or>
     (\<exists>n es. (n, es) \<in> set (toml_tables (dump_config c)) \<and> (k, TStr s) \<in> set es))"
proof -
  assume "has_del c"
  then consider s where "cfg_gpg_binary_path c = Some s" "del \<in> set s"
    | t where "cfg_gpg_trust c = Some t" "del \<in> set (gt_path t) \<or> del \<in> set (gt_sha256 t)"
    by (cases "cfg_gpg_binary_path c"; cases "cfg_gpg_trust c") (auto simp: has_del_def config_texts_def)
  then show ?thesis
  proof cases
    case 1
    then have "(''gpg_binary_path'', TStr s) \<in> set (toml_scalars (dump_config c))" by (simp add: dump_parts)
    then show ?thesis using 1 by blast
  next
    case 2
    then have "(''gpg_binary_trusted_hash'', trust_entries t) \<in> set (toml_tables (dump_config c))" by (simp add: dump_parts)
    moreover have "(''path'', TStr (gt_path t)) \<in> set (trust_entries t)" "(''sha256'', TStr (gt_sha256 t)) \<in> set (trust_entries t)"
      by (simp_all add: trust_entries_def)
    ultimately show ?thesis using 2(2) by blast
  qed
qed

section \<open>What is loaded\<close>

lemma bounded_Some: "bounded lo hi v = Some i \<Longrightarrow> lo \<le> i \<and> i \<le> hi"
  by (auto simp: bounded_def Option.bind_eq_Some_conv split: if_splits)

lemma field_scalar:
  assumes "with_default obj k (scalar f) d = Some x" "P d" "\<And>v x. f v = Some x \<Longrightarrow> P x"
  shows "P x"
  using assms by (auto simp: with_default_def split: option.splits elim: scalar.elims)

lemma validated_ok:
  assumes "text_ok env" "validate_config env obj = Some c"
  shows "config_ok env c"
proof -
  let ?d = default_config
  obtain loc clip days where f: "with_default obj ''locale'' (scalar (\<lambda>v. Option.bind (str_value v) (validate_locale env))) (cfg_locale ?d) = Some loc"
    "with_default obj ''clipboard_clear_seconds'' (scalar (\<lambda>v. bounded 0 3600 (ce_int env v))) (cfg_clipboard_seconds ?d) = Some clip"
    "with_default obj ''backup_reminder_days'' (scalar (\<lambda>v. bounded 1 365 (ce_int env v))) (cfg_reminder_days ?d) = Some days"
    "cfg_locale c = loc" "cfg_clipboard_seconds c = clip" "cfg_reminder_days c = days"
    using assms(2) unfolding validate_config_def Let_def
    by (clarsimp simp: Option.bind_eq_Some_conv split: if_splits)
  have auto: "validate_locale env (cfg_locale ?d) = Some (cfg_locale ?d)"
    using locale_settles [OF assms(1), of "LOCALE_AUTO" LOCALE_AUTO] locale_text_laws(1,2) [OF assms(1), of LOCALE_AUTO]
    by (simp add: default_config_def validate_locale_def LOCALE_AUTO_def strip_id is_space_def lower_char_def)
  have "validate_locale env loc = Some loc"
    by (rule field_scalar [OF f(1), where P = "\<lambda>l. validate_locale env l = Some l"])
      (use auto locale_settles [OF assms(1)] in \<open>auto simp: Option.bind_eq_Some_conv\<close>)
  moreover have "0 \<le> clip \<and> clip \<le> 3600"
    by (rule field_scalar [OF f(2), where P = "\<lambda>i. 0 \<le> i \<and> i \<le> 3600"]) (use bounded_Some in \<open>auto simp: default_config_def\<close>)
  moreover have "1 \<le> days \<and> days \<le> 365"
    by (rule field_scalar [OF f(3), where P = "\<lambda>i. 1 \<le> i \<and> i \<le> 365"]) (use bounded_Some in \<open>auto simp: default_config_def\<close>)
  ultimately show ?thesis using f(4-6) by (simp add: config_ok_def)
qed

text \<open>What the check of the permissions leaves: the same file, private.\<close>

lemma ensure_safe_file:
  assumes "ensure_safe_to_load p fs = (Inr (), fs')" "fs_node fs p = Some n" "path_exists fs p"
  shows "node_mode n AND S_IWOTH = 0 \<and> node_mode n AND S_IWGRP = 0 \<and> \<not> is_link fs p \<and> fs_open_ok fs' = fs_open_ok fs \<and>
    (\<exists>m. m AND 54 = 0 \<and> fs_node fs' = (fs_node fs)(p \<mapsto> (case n of File _ b \<Rightarrow> File m b | _ \<Rightarrow> Dir m)))"
proof -
  note unfold = ensure_safe_to_load_def permission_report_of_def bindP_def getP_def retP_def raiseP_def
    WRITABLE_CONFIG_STATUSES_def ensure_file_mode_def fchmod_nofollow_def put_node_def is_link_def Let_def
  have "node_mode n AND S_IWOTH = 0 \<and> node_mode n AND S_IWGRP = 0 \<and> \<not> is_link fs p \<and> fs_open_ok fs' = fs_open_ok fs"
    using assms by (cases n) (auto simp: unfold split: if_splits)
  moreover have "\<exists>m. m AND 54 = 0 \<and> fs_node fs' = (fs_node fs)(p \<mapsto> (case n of File _ b \<Rightarrow> File m b | _ \<Rightarrow> Dir m))"
  proof (cases "node_mode n AND S_IROTH = 0 \<and> node_mode n AND S_IRGRP = 0")
    case True
    then have "fs' = fs" "node_mode n AND 54 = 0"
      using assms calculation and_zero_bits [of "node_mode n"] by (cases n; auto simp: unfold)+
    moreover have "n = (case n of File _ b \<Rightarrow> File (node_mode n) b | _ \<Rightarrow> Dir (node_mode n))"
      using assms(2) \<open>_ \<and> _ \<and> \<not> is_link fs p \<and> _\<close> by (cases n) (auto simp: is_link_def)
    moreover have "fs_node fs = (fs_node fs)(p \<mapsto> n)" using assms(2) by (auto intro: fun_upd_idem [symmetric])
    ultimately show ?thesis by metis
  next
    case False
    then have "fs_node fs' = (fs_node fs)(p \<mapsto> (case n of File _ b \<Rightarrow> File FILE_MODE b | _ \<Rightarrow> Dir FILE_MODE))"
      using assms calculation by (cases n) (auto simp: unfold split: if_splits)
    moreover have "FILE_MODE AND 54 = 0" by (simp add: FILE_MODE_def)
    ultimately show ?thesis by blast
  qed
  ultimately show ?thesis by blast
qed

lemma saved_loads:
  assumes "config_env_ok env" and "config_ok env c" and "texts_ok c"
    and "save_config env c p fs = (Inr (), fs')" and "fs_open_ok fs' p"
  shows "load_config env p fs' = (if has_del c then Inl ConfigServiceError else Inr c, fs')"
proof -
  obtain data where d: "dump_toml (dump_config c) = Inr data" "load_config env p fs' = (read_config env (Some data), fs')"
    using load_saved [OF assms(1,4,5)] by blast
  have loads: "ce_loads env data = toml_read data" by (rule config_env_laws(4) [OF assms(1) d(1) dump_keys])
  show ?thesis
  proof (cases "has_del c")
    case True
    then have "toml_read data = None"
      using del_entry [OF True] dump_del_unreadable [OF d(1) dump_keys] by blast
    then show ?thesis using True d(2) loads by (simp add: read_config_def)
  next
    case False
    have "validate_locale env (cfg_locale c) = Some (cfg_locale c)" using assms(2) by (simp add: config_ok_def)
    then have ok: "toml_ok (dump_config c)"
      using dump_texts_ok [OF _ False assms(3)] settled_text [OF config_env_laws(1) [OF assms(1)]] by blast
    have "toml_read data = Some (reread c)" using dump_read [OF d(1) ok] by (simp add: reread_def)
    then show ?thesis
      using False d(2) loads utf8_dump [OF d(1) ok] validate_reread [OF assms(2) config_env_laws(2) [OF assms(1)]]
      by (simp add: read_config_def)
  qed
qed

lemma loaded_config_ok:
  assumes "text_ok env" "load_config env p fs = (Inr c, fs')"
  shows "config_ok env c"
proof -
  have "validate_config env [] = Some default_config"
    by (simp add: validate_config_def with_default_def default_config_def Let_def)
  then have "\<exists>obj. validate_config env obj = Some c"
    using assms(2) by (auto simp: load_config_def read_config_def bindP_def getP_def retP_def thenP_eq_Inr
        split: if_splits option.splits)
  then show ?thesis using validated_ok [OF assms(1)] by blast
qed

text \<open>Loading twice is loading once.\<close>

lemma load_again:
  assumes "load_config env p fs = (Inr c, fs')"
  shows "fst (load_config env p fs') = Inr c \<and> fs_open_ok fs' = fs_open_ok fs"
proof (cases "path_exists fs p")
  case True
  obtain n where n: "fs_node fs p = Some n" using True by (auto simp: path_exists_def split: option.splits)
  have run: "ensure_safe_to_load p fs = (Inr (), fs')" "read_config env (read_bytes fs' p) = Inr c"
    using assms True by (auto simp: load_config_def bindP_def getP_def thenP_eq_Inr)
  note safe = ensure_safe_file [OF run(1) n True]
  obtain data where data: "read_bytes fs' p = Some data"
    using run(2) by (auto simp: read_config_def split: option.splits)
  then obtain m where "fs_node fs' p = Some (File m data)" "m AND 54 = 0" "fs_open_ok fs' p"
    using safe by (cases n) (auto simp: read_bytes_def split: if_splits)
  from load_private_file [OF this] show ?thesis using run(2) data safe by simp
next
  case False
  then show ?thesis using assms by (auto simp: load_config_def bindP_def getP_def retP_def)
qed

section \<open>Properties\<close>

text \<open>
  C30. What \<open>save\<close> writes, \<open>load\<close> reads: settings with a settled locale and numbers in range that
  were saved are loaded as they were, and loading leaves the file as it is. The exception is a
  path or hash with the character DEL, which is written as it is and which TOML forbids: such
  settings are saved without an error, and every later load refuses the file.
\<close>

theorem settings_roundtrip:
  assumes "config_env_ok env" and "config_ok env c" and "texts_ok c"
    and "save_config env c p fs = (Inr (), fs')" and "fs_open_ok fs' p"
  shows "load_config env p fs' = (if has_del c then Inl ConfigServiceError else Inr c, fs')"
  by (rule saved_loads [OF assms])

definition demo_config_env :: config_env where
  "demo_config_env = \<lparr>ce_strip = strip, ce_lower = lower, ce_upper = upper,
     ce_bool = (\<lambda>v. case v of TBool b \<Rightarrow> Some b | _ \<Rightarrow> None), ce_int = (\<lambda>v. case v of TInt i \<Rightarrow> Some i | _ \<Rightarrow> None),
     ce_loads = toml_read, ce_write = (\<lambda>p data mode fs. (Inr (), put_node p (File mode data) fs))\<rparr>"

lemma demo_config_env_ok: "config_env_ok demo_config_env"
proof -
  have "list_all (\<lambda>c. \<not> (97 \<le> code c \<and> code c \<le> 122)) (upper s)" for s
    by (induction s) (auto simp: upper_char_def)
  moreover have "CHR ''-'' \<notin> set s \<Longrightarrow> CHR ''-'' \<notin> set (lower s) \<and> CHR ''-'' \<notin> set (upper s)" for s
    by (induction s) (auto simp: upper_char_def lower_char_def dest: arg_cong [where f = code] split: if_splits)
  ultimately have "text_ok demo_config_env" by (simp add: text_ok_def demo_config_env_def)
  moreover have "write_ok demo_config_env" by (auto simp: write_ok_def demo_config_env_def put_node_def)
  ultimately show ?thesis by (simp add: config_env_ok_def loads_ok_def coerce_ok_def demo_config_env_def)
qed

definition demo_settings :: app_config where
  "demo_settings = default_config\<lparr>cfg_locale := ''pt-BR'', cfg_gpg_binary_path := Some ''/opt/a \"b\"''\<rparr>"

lemma demo_settings_ok: "config_ok demo_config_env demo_settings" "texts_ok demo_settings" "\<not> has_del demo_settings"
  by code_simp+

definition demo_config_fs :: file_system where
  "demo_config_fs = \<lparr>fs_node = [[] \<mapsto> Dir 493, [''c''] \<mapsto> Dir 448], fs_umask = 18, fs_open_ok = (\<lambda>_. True)\<rparr>"

lemma demo_saved: "\<exists>fs'. save_config demo_config_env demo_settings [''c'', ''config.toml''] demo_config_fs = (Inr (), fs') \<and>
    fs_open_ok fs' [''c'', ''config.toml'']"
proof -
  obtain data where "dump_toml (dump_config demo_settings) = Inr data"
    by (cases "dump_toml (dump_config demo_settings)") (simp_all add: dump_toml_def dump_config_def demo_settings_def default_config_def toml_line_def)
  then show ?thesis
    by (simp add: save_config_def thenP_def bindP_def liftP_def reject_symlink_def ensure_dir_def missing_dirs.simps
        finish_dir_def fchmod_nofollow_def demo_config_env_def demo_config_fs_def is_link_def path_exists_def path_is_dir_def
        put_node_def)
qed

theorem settings_roundtrip_witness:
  "\<exists>fs'. save_config demo_config_env demo_settings [''c'', ''config.toml''] demo_config_fs = (Inr (), fs') \<and>
     load_config demo_config_env [''c'', ''config.toml''] fs' = (Inr demo_settings, fs')"
proof -
  obtain fs' where s: "save_config demo_config_env demo_settings [''c'', ''config.toml''] demo_config_fs = (Inr (), fs')"
    "fs_open_ok fs' [''c'', ''config.toml'']"
    using demo_saved by blast
  from settings_roundtrip [OF demo_config_env_ok demo_settings_ok(1,2) s] s(1) demo_settings_ok(3)
  show ?thesis by auto
qed

text \<open>
  C37. A configuration that was loaded has a settled locale and numbers in their ranges. It comes
  from a regular file that only its owner could write, whose mode the check made private and whose
  contents it left alone, or there was no file and it is the default; no other node has changed.
\<close>

theorem loaded_settings_trusted:
  assumes "text_ok env" and "load_config env p fs = (Inr c, fs')"
  shows "config_ok env c \<and> (\<forall>q. q \<noteq> p \<longrightarrow> fs_node fs' q = fs_node fs q) \<and>
    (if path_exists fs p
     then \<exists>m m' data. fs_node fs p = Some (File m data) \<and> m AND S_IWOTH = 0 \<and> m AND S_IWGRP = 0 \<and>
        fs_node fs' p = Some (File m' data) \<and> m' AND 54 = 0
     else c = default_config \<and> fs' = fs)"
proof (cases "path_exists fs p")
  case True
  obtain n where n: "fs_node fs p = Some n" using True by (auto simp: path_exists_def split: option.splits)
  have run: "ensure_safe_to_load p fs = (Inr (), fs')" "read_config env (read_bytes fs' p) = Inr c"
    using assms(2) True by (auto simp: load_config_def bindP_def getP_def thenP_eq_Inr)
  note safe = ensure_safe_file [OF run(1) n True]
  obtain obj where "validate_config env obj = Some c" and data: "read_bytes fs' p \<noteq> None"
    using run(2) by (auto simp: read_config_def split: option.splits if_splits)
  then have "config_ok env c" using validated_ok [OF assms(1)] by blast
  moreover have "\<exists>m data. n = File m data"
    using data safe n by (cases n) (auto simp: read_bytes_def is_link_def split: if_splits)
  ultimately show ?thesis using safe n True by auto
next
  case False
  have "validate_config env [] = Some default_config"
    by (simp add: validate_config_def with_default_def default_config_def Let_def)
  then show ?thesis
    using False assms validated_ok [OF assms(1)] by (auto simp: load_config_def bindP_def getP_def retP_def)
qed

theorem loaded_settings_trusted_witness:
  "\<exists>fs'. load_config demo_config_env [''c''] (demo_config_fs\<lparr>fs_node := [[''c''] \<mapsto> File 420 ''high_contrast = true'']\<rparr>) =
       (Inr (default_config\<lparr>cfg_high_contrast := True\<rparr>), fs') \<and>
     (\<exists>m. fs_node fs' [''c''] = Some (File m ''high_contrast = true'') \<and> m AND 54 = 0)"
proof -
  let ?fs = "demo_config_fs\<lparr>fs_node := [[''c''] \<mapsto> File 420 ''high_contrast = true'']\<rparr>"
  have "read_config demo_config_env (Some ''high_contrast = true'') = Inr (default_config\<lparr>cfg_high_contrast := True\<rparr>)"
    by code_simp
  moreover have "pr_status (permission_report_of ?fs [''c'']) = WORLD_READABLE"
    by (simp add: permission_report_of_def mode_bits demo_config_fs_def)
  ultimately obtain fs' where l: "load_config demo_config_env [''c''] ?fs = (Inr (default_config\<lparr>cfg_high_contrast := True\<rparr>), fs')"
    by (simp add: load_config_def bindP_def getP_def thenP_def ensure_safe_to_load_def WRITABLE_CONFIG_STATUSES_def
        ensure_file_mode_def fchmod_nofollow_def put_node_def read_bytes_def path_exists_def demo_config_fs_def)
  have "text_ok demo_config_env" using demo_config_env_ok by (simp add: config_env_ok_def)
  from loaded_settings_trusted [OF this l] l show ?thesis by (auto simp: path_exists_def demo_config_fs_def)
qed

end
