(* ===== verification/Factory_Reset.thy ===== *)
theory Factory_Reset
  imports App_Paths
begin

text \<open>
  \<open>storage/factory_reset.py\<close>: the marker that the running program writes and the deletion that
  the next start performs. How far an overwrite or a recursive deletion gets is a parameter that
  differs from start to start. The lemmas show that nothing outside the program's directories and
  no symbolic link is touched, and that a reset that was cut short is taken up by the next start
  until nothing is left.
\<close>

section \<open>The reset\<close>

definition MARKER_NAME :: str where "MARKER_NAME = ''.factory-reset-pending''"

definition marker_path :: "app_paths \<Rightarrow> path" where
  "marker_path ps = config_dir ps @ [MARKER_NAME]"

text \<open>
  One start: what \<open>rglob\<close> lists below a directory; whether \<open>shred\<close> is there, and what it leaves of a
  file (\<open>None\<close>: the file is gone); how many bytes an overwrite with zeros reaches; and the nodes that
  \<open>rmtree\<close> cannot remove.
\<close>

record reset_env =
  re_children :: "file_system \<Rightarrow> path \<Rightarrow> path list"
  re_shred :: bool
  re_shredded :: "path \<Rightarrow> bytes \<Rightarrow> bytes option"
  re_zeroed :: "path \<Rightarrow> nat"
  re_left :: "path \<Rightarrow> path list"

definition overwrite_file :: "reset_env \<Rightarrow> path \<Rightarrow> (file_system, unit) prog" where
  "overwrite_file env p = (\<lambda>fs. case fs_node fs p of
       Some (File m b) \<Rightarrow>
         (Inr (),
          if re_shred env then
            (case re_shredded env p b of
               None \<Rightarrow> fs\<lparr>fs_node := (fs_node fs)(p := None)\<rparr>
             | Some b' \<Rightarrow> put_node p (File m b') fs)
          else put_node p (File m (replicate (min (re_zeroed env p) (length b)) (CHR 0x00) @ drop (re_zeroed env p) b)) fs)
     | _ \<Rightarrow> (Inr (), fs))"

fun eachP :: "('a \<Rightarrow> ('s, unit) prog) \<Rightarrow> 'a list \<Rightarrow> ('s, unit) prog" where
  "eachP f [] = retP ()"
| "eachP f (x # xs) = thenP (f x) (eachP f xs)"

definition wipe_dir :: "reset_env \<Rightarrow> path \<Rightarrow> (file_system, unit) prog" where
  "wipe_dir env d =
     bindP (getP (\<lambda>fs. (path_exists fs d, re_children env fs d))) (\<lambda>(ex, children).
       if ex then thenP (reject_symlink_tree children d) (eachP (overwrite_file env) children) else retP ())"

definition with_suffix :: "path \<Rightarrow> str \<Rightarrow> path" where
  "with_suffix p s = butlast p @ [last p @ s]"

definition explicit_files :: "app_paths \<Rightarrow> path list" where
  "explicit_files ps = [metadata_db ps, with_suffix (metadata_db ps) ''-wal'', with_suffix (metadata_db ps) ''-shm'',
     audit_log ps, with_suffix (audit_log ps) ''.tip'', diagnostic_log ps]"

definition secure_wipe_sensitive :: "reset_env \<Rightarrow> app_paths \<Rightarrow> (file_system, unit) prog" where
  "secure_wipe_sensitive env ps =
     thenP (wipe_dir env (gnupg_home ps)) (thenP (wipe_dir env (vault_dir ps))
       (eachP (\<lambda>p. bindP (getP (\<lambda>fs. path_exists fs p)) (\<lambda>ex. if ex then overwrite_file env p else retP ())) (explicit_files ps)))"

text \<open>\<open>path.write_text\<close>: a new file gets the mode the umask leaves, an old one keeps its mode.\<close>

definition write_text :: "path \<Rightarrow> bytes \<Rightarrow> (file_system, unit) prog" where
  "write_text p data = (\<lambda>fs. case fs_node fs p of
       None \<Rightarrow> (if path_is_dir fs (butlast p) then (Inr (), put_node p (File (masked 438 (fs_umask fs)) data) fs)
                else (Inl FileNotFoundError, fs))
     | Some (File m b) \<Rightarrow> (Inr (), put_node p (File m data) fs)
     | _ \<Rightarrow> (Inl OSError, fs))"

definition request_factory_reset :: "app_paths \<Rightarrow> (file_system, unit) prog" where
  "request_factory_reset ps =
     thenP (ensure_paths ps) (thenP (reject_symlink (marker_path ps))
       (write_text (marker_path ps) (''pending'' @ [CHR 0x0A])))"

definition remove_tree :: "reset_env \<Rightarrow> path \<Rightarrow> (file_system, unit) prog" where
  "remove_tree env d = (\<lambda>fs.
     let left = filter (\<lambda>q. prefix d q \<and> fs_node fs q \<noteq> None) (re_left env d) in
     if \<not> path_is_dir fs d then (Inl NotADirectoryError, fs)
     else (if left = [] then Inr () else Inl OSError,
      fs\<lparr>fs_node := (\<lambda>q. if prefix d q \<and> q \<notin> set left then None else fs_node fs q)\<rparr>))"

definition clear_dir :: "reset_env \<Rightarrow> path \<Rightarrow> (file_system, unit) prog" where
  "clear_dir env d =
     bindP (getP (\<lambda>fs. (path_exists fs d, re_children env fs d))) (\<lambda>(ex, children).
       if ex then thenP (reject_symlink_tree children d) (thenP (reject_symlink d) (remove_tree env d)) else retP ())"

definition perform_pending_factory_reset :: "reset_env \<Rightarrow> app_paths \<Rightarrow> (file_system, bool) prog" where
  "perform_pending_factory_reset env ps =
     thenP (reject_symlink (marker_path ps))
     (bindP (getP (\<lambda>fs. path_exists fs (marker_path ps))) (\<lambda>pending.
       if \<not> pending then retP False
       else thenP (secure_wipe_sensitive env ps)
         (thenP (eachP (clear_dir env) [state_dir ps, data_dir ps, cache_dir ps, config_dir ps])
           (thenP (ensure_paths ps) (retP True)))))"

section \<open>What the steps keep\<close>

text \<open>
  \<open>rglob\<close> lists what is below a directory, all of it when the file system is finite; a directory
  with something left in it is left.
\<close>

definition finite_fs :: "file_system \<Rightarrow> bool" where
  "finite_fs fs \<longleftrightarrow> finite (dom (fs_node fs))"

definition reset_env_ok :: "reset_env \<Rightarrow> bool" where
  "reset_env_ok env \<longleftrightarrow>
     (\<forall>fs d. set (re_children env fs d) \<subseteq> {q. strict_prefix d q \<and> fs_node fs q \<noteq> None} \<and>
        (finite_fs fs \<longrightarrow> {q. strict_prefix d q \<and> fs_node fs q \<noteq> None} \<subseteq> set (re_children env fs d))) \<and>
     (\<forall>d q e. q \<in> set (re_left env d) \<longrightarrow> prefix d e \<longrightarrow> prefix e q \<longrightarrow> e \<in> set (re_left env d))"

lemma children: "reset_env_ok env \<Longrightarrow> q \<in> set (re_children env fs d) \<Longrightarrow> strict_prefix d q \<and> fs_node fs q \<noteq> None"
  unfolding reset_env_ok_def by blast

lemma all_children:
  "reset_env_ok env \<Longrightarrow> finite_fs fs \<Longrightarrow> strict_prefix d q \<Longrightarrow> fs_node fs q \<noteq> None \<Longrightarrow> q \<in> set (re_children env fs d)"
  unfolding reset_env_ok_def by blast

lemma preserves_eachP: "(\<And>x. x \<in> set xs \<Longrightarrow> preserves P (f x)) \<Longrightarrow> preserves P (eachP f xs)"
  by (induction xs) (auto intro!: preserves_intros)

lemma preserves_reject_tree: "preserves P (reject_symlink_tree cs d)"
  unfolding reject_symlink_tree_def by (intro preserves_intros)

text \<open>The nodes that are not below one of some directories.\<close>

definition same_outside :: "path list \<Rightarrow> file_system \<Rightarrow> file_system \<Rightarrow> bool" where
  "same_outside ds fs0 fs \<longleftrightarrow> (\<forall>q. (\<forall>d \<in> set ds. \<not> prefix d q) \<longrightarrow> fs_node fs q = fs_node fs0 q)"

lemma overwrite_outside:
  "d \<in> set ds \<Longrightarrow> prefix d p \<Longrightarrow> preserves (same_outside ds fs0) (overwrite_file env p)"
  by (auto simp: preserves_def overwrite_file_def same_outside_def put_node_def split: option.splits node.splits)

lemma remove_tree_outside: "d \<in> set ds \<Longrightarrow> preserves (same_outside ds fs0) (remove_tree env d)"
  by (auto simp: preserves_def remove_tree_def same_outside_def Let_def)

lemma clear_outside: "d \<in> set ds \<Longrightarrow> preserves (same_outside ds fs0) (clear_dir env d)"
  unfolding clear_dir_def
  by (auto intro!: preserves_intros preserves_reject_tree remove_tree_outside split: prod.splits)

lemma wipe_outside:
  assumes "reset_env_ok env" "d \<in> set ds" "prefix d e"
  shows "preserves (same_outside ds fs0) (wipe_dir env e)"
proof -
  have "same_outside ds fs0 (snd (wipe_dir env e fs))" if "same_outside ds fs0 fs" for fs
  proof (cases "path_exists fs e")
    case True
    let ?m = "thenP (reject_symlink_tree (re_children env fs e) e) (eachP (overwrite_file env) (re_children env fs e))"
    have "preserves (same_outside ds fs0) (overwrite_file env q)" if "q \<in> set (re_children env fs e)" for q
      using that children [OF assms(1)] assms(2,3) by (intro overwrite_outside [of d]) (auto simp: strict_prefix_def prefix_order.trans)
    then have "preserves (same_outside ds fs0) ?m"
      by (intro preserves_intros preserves_reject_tree preserves_eachP)
    moreover have "wipe_dir env e fs = ?m fs" using True by (simp add: wipe_dir_def)
    ultimately show ?thesis using that by (simp add: preserves_def)
  qed (simp add: wipe_dir_def that)
  then show ?thesis by (simp add: preserves_def)
qed

lemma explicit_below: "p \<in> set (explicit_files ps) \<Longrightarrow> prefix (data_dir ps) p \<or> prefix (state_dir ps) p"
  by (auto simp: explicit_files_def metadata_db_def audit_log_def diagnostic_log_def with_suffix_def)

lemma secure_wipe_outside:
  assumes "reset_env_ok env" "data_dir ps \<in> set ds" "state_dir ps \<in> set ds"
  shows "preserves (same_outside ds fs0) (secure_wipe_sensitive env ps)"
proof -
  have "preserves (same_outside ds fs0) (overwrite_file env p)" if "p \<in> set (explicit_files ps)" for p
    using explicit_below [OF that] overwrite_outside assms(2,3) by blast
  then show ?thesis
    unfolding secure_wipe_sensitive_def
    by (intro preserves_intros preserves_eachP wipe_outside [OF assms(1,2)]) (auto simp: gnupg_home_def vault_dir_def intro!: preserves_intros)
qed

section \<open>Symbolic links\<close>

definition links :: "file_system \<Rightarrow> (path \<times> link_target) set" where
  "links fs = {(q, t). fs_node fs q = Some (Link t)}"

definition same_links :: "(path \<times> link_target) set \<Rightarrow> file_system \<Rightarrow> bool" where
  "same_links L fs \<longleftrightarrow> finite_fs fs \<and> links fs = L"

lemma is_link_iff: "is_link fs q \<longleftrightarrow> (\<exists>t. (q, t) \<in> links fs)"
  by (auto simp: is_link_def links_def split: option.splits node.splits)

lemma links_mkdir: "preserves (same_links L) (os_mkdir d m)"
  by (auto simp: preserves_def os_mkdir_def same_links_def finite_fs_def links_def put_node_def split: if_splits)

lemma links_fchmod: "preserves (same_links L) (fchmod_nofollow d m)"
  by (auto simp: preserves_def fchmod_nofollow_def same_links_def finite_fs_def links_def put_node_def split: option.splits node.splits if_splits)

lemma links_overwrite: "preserves (same_links L) (overwrite_file env p)"
  by (auto simp: preserves_def overwrite_file_def same_links_def finite_fs_def links_def put_node_def split: option.splits node.splits if_splits)

text \<open>Creating directories keeps the links, and a place without files without files.\<close>

lemma ensure_dir_preserves:
  assumes "\<And>d m. preserves P (os_mkdir d m)" "\<And>d m. preserves P (fchmod_nofollow d m)"
  shows "preserves P (ensure_dir p mode)"
proof -
  have "preserves P (\<lambda>fs. (missing_dirs fs p, fs))" by (simp add: preserves_def)
  then show ?thesis
    unfolding ensure_dir_def make_missing_def finish_dir_def by (intro preserves_intros assms)
qed

lemma ensure_dirs_preserves:
  "(\<And>p. p \<in> set ds \<Longrightarrow> preserves P (ensure_dir p DIR_MODE)) \<Longrightarrow> preserves P (ensure_dirs ds)"
  by (induction ds) (auto intro!: preserves_intros)

lemma links_ensure: "preserves (same_links L) (ensure_paths ps)"
  unfolding ensure_paths_def by (intro ensure_dirs_preserves ensure_dir_preserves links_mkdir links_fchmod)

text \<open>A tree is deleted only when no link is in it.\<close>

lemma mapP_reject:
  "mapP reject_symlink cs fs = (if \<exists>c \<in> set cs. is_link fs c then Inl RuntimeError else Inr (map (\<lambda>_. ()) cs), fs)"
  by (induction cs) (auto simp: reject_symlink_def bindP_def)

lemma reject_tree_run:
  "reject_symlink_tree cs d fs =
     (if is_link fs d \<or> (path_exists fs d \<and> (\<exists>c \<in> set cs. is_link fs c)) then Inl RuntimeError else Inr (), fs)"
  by (simp add: reject_symlink_tree_def thenP_def bindP_def reject_symlink_def mapP_reject)

lemma clear_run:
  "clear_dir env d fs =
     (if \<not> path_exists fs d then (Inr (), fs)
      else if is_link fs d \<or> (\<exists>c \<in> set (re_children env fs d). is_link fs c) then (Inl RuntimeError, fs)
      else remove_tree env d fs)"
  by (simp add: clear_dir_def thenP_def bindP_def reject_tree_run reject_symlink_def)

lemma no_link_below:
  assumes "reset_env_ok env" "finite_fs fs" "\<not> is_link fs d" "\<not> (\<exists>c \<in> set (re_children env fs d). is_link fs c)" "prefix d q"
  shows "\<not> is_link fs q"
proof (cases "q = d \<or> fs_node fs q = None")
  case False
  then have "q \<in> set (re_children env fs d)" using assms(5) all_children [OF assms(1,2)] by (auto simp: strict_prefix_def)
  then show ?thesis using assms(4) by blast
qed (use assms(3) in \<open>auto simp: is_link_def\<close>)

lemma links_clear:
  assumes "reset_env_ok env"
  shows "preserves (same_links L) (clear_dir env d)"
proof -
  have "finite_fs (snd (remove_tree env d fs)) \<and> links (snd (remove_tree env d fs)) = links fs"
    if "finite_fs fs" "\<not> is_link fs d" "\<not> (\<exists>c \<in> set (re_children env fs d). is_link fs c)" for fs
  proof -
    have "fs_node fs q \<noteq> Some (Link t)" if "prefix d q" for q t
      using no_link_below [OF assms \<open>finite_fs fs\<close> \<open>\<not> is_link fs d\<close> \<open>\<not> (\<exists>c \<in> _. _)\<close> that] by (auto simp: is_link_def)
    then have "(fs_node (snd (remove_tree env d fs)) q = Some (Link t)) = (fs_node fs q = Some (Link t))" for q t
      by (auto simp: remove_tree_def Let_def)
    moreover have "dom (fs_node (snd (remove_tree env d fs))) \<subseteq> dom (fs_node fs)"
      by (auto simp: remove_tree_def Let_def split: if_splits)
    then have "finite_fs (snd (remove_tree env d fs))" using \<open>finite_fs fs\<close> finite_subset unfolding finite_fs_def by blast
    ultimately show ?thesis by (simp add: links_def)
  qed
  then show ?thesis by (simp add: preserves_def clear_run same_links_def)
qed

lemma links_wipe: "preserves (same_links L) (wipe_dir env d)"
  unfolding wipe_dir_def
  by (auto intro!: preserves_intros preserves_reject_tree preserves_eachP links_overwrite split: prod.splits)

lemma links_secure_wipe: "preserves (same_links L) (secure_wipe_sensitive env ps)"
  unfolding secure_wipe_sensitive_def by (auto intro!: preserves_intros preserves_eachP links_overwrite links_wipe)

section \<open>What is gone\<close>

definition no_files :: "path \<Rightarrow> file_system \<Rightarrow> bool" where
  "no_files d fs \<longleftrightarrow> (\<forall>q m b. prefix d q \<longrightarrow> fs_node fs q \<noteq> Some (File m b))"

lemma no_files_mkdir: "preserves (no_files d) (os_mkdir p m)"
  by (auto simp: preserves_def os_mkdir_def no_files_def put_node_def)

lemma no_files_fchmod: "preserves (no_files d) (fchmod_nofollow p m)"
  by (auto simp: preserves_def fchmod_nofollow_def no_files_def put_node_def split: option.splits node.splits)

lemma no_files_ensure: "preserves (no_files d) (ensure_paths ps)"
  unfolding ensure_paths_def by (intro ensure_dirs_preserves ensure_dir_preserves no_files_mkdir no_files_fchmod)

lemma no_files_clear: "preserves (no_files d) (clear_dir env e)"
  by (auto simp: preserves_def clear_run remove_tree_def no_files_def Let_def)

lemma no_files_clear_all: "preserves (no_files d) (eachP (clear_dir env) es)"
  by (intro preserves_eachP no_files_clear)

lemma no_files_overwrite: "preserves (no_files d) (overwrite_file env p)"
  by (auto simp: preserves_def overwrite_file_def no_files_def put_node_def split: option.splits node.splits)

lemma no_files_wipe: "preserves (no_files d) (secure_wipe_sensitive env ps)"
  unfolding secure_wipe_sensitive_def wipe_dir_def
  by (auto intro!: preserves_intros preserves_reject_tree preserves_eachP no_files_overwrite split: prod.splits)

text \<open>Something is below a path only when the path is a directory.\<close>

definition tree_ok :: "path \<Rightarrow> file_system \<Rightarrow> bool" where
  "tree_ok d fs \<longleftrightarrow> path_is_dir fs d \<or> (\<forall>q. strict_prefix d q \<longrightarrow> fs_node fs q = None)"

lemma strict_prefix_butlast: "strict_prefix d p \<Longrightarrow> prefix d (butlast p)"
proof -
  assume "strict_prefix d p"
  then obtain r where "p = d @ r" "r \<noteq> []" by (auto simp: strict_prefix_def prefix_def)
  then show ?thesis by (simp add: butlast_append)
qed

lemma tree_ok_mkdir: "preserves (tree_ok d) (os_mkdir p m)"
proof -
  have "tree_ok d (put_node p (Dir k) fs)"
    if "tree_ok d fs" "fs_node fs p = None" "path_is_dir fs (butlast p)" for fs k
  proof (cases "path_is_dir fs d \<or> p = d")
    case True
    then show ?thesis using that(2) by (auto simp: tree_ok_def path_is_dir_def put_node_def)
  next
    case False
    then have none: "\<forall>q. strict_prefix d q \<longrightarrow> fs_node fs q = None" using that(1) by (simp add: tree_ok_def)
    have "\<not> strict_prefix d p"
    proof
      assume "strict_prefix d p"
      then have "butlast p = d \<or> strict_prefix d (butlast p)" using strict_prefix_butlast by (auto simp: strict_prefix_def)
      then show False using that(3) False none by (auto simp: path_is_dir_def)
    qed
    then show ?thesis using none by (auto simp: tree_ok_def put_node_def)
  qed
  then show ?thesis by (auto simp: preserves_def os_mkdir_def)
qed

lemma tree_ok_fchmod: "preserves (tree_ok d) (fchmod_nofollow p m)"
  by (auto simp: preserves_def fchmod_nofollow_def tree_ok_def path_is_dir_def put_node_def split: option.splits node.splits)

lemma tree_ok_ensure: "preserves (tree_ok d) (ensure_paths ps)"
  unfolding ensure_paths_def by (intro ensure_dirs_preserves ensure_dir_preserves tree_ok_mkdir tree_ok_fchmod)

lemma tree_ok_overwrite: "preserves (tree_ok d) (overwrite_file env p)"
  by (auto simp: preserves_def overwrite_file_def tree_ok_def path_is_dir_def put_node_def split: option.splits node.splits)

lemma tree_ok_wipe: "preserves (tree_ok d) (secure_wipe_sensitive env ps)"
  unfolding secure_wipe_sensitive_def wipe_dir_def
  by (auto intro!: preserves_intros preserves_reject_tree preserves_eachP tree_ok_overwrite split: prod.splits)

lemma tree_ok_clear:
  assumes "reset_env_ok env"
  shows "preserves (tree_ok d) (clear_dir env e)"
proof -
  have "tree_ok d (snd (remove_tree env e fs))" if "tree_ok d fs" for fs
  proof (cases "path_is_dir fs e \<and> path_is_dir fs d")
    case True
    let ?fs = "snd (remove_tree env e fs)"
    have kept: "fs_node ?fs q = (if prefix e q \<and> \<not> (q \<in> set (re_left env e)) then None else fs_node fs q)" for q
      using True by (auto simp: remove_tree_def Let_def)
    show ?thesis
    proof (cases "prefix e d \<and> d \<notin> set (re_left env e)")
      case gone: True
      have "fs_node ?fs q = None" if "strict_prefix d q" for q
      proof -
        have "prefix e q" "prefix d q" using gone that by (auto simp: strict_prefix_def intro: prefix_order.trans)
        moreover have "q \<notin> set (re_left env e)" using gone assms \<open>prefix d q\<close> unfolding reset_env_ok_def by blast
        ultimately show ?thesis by (simp add: kept)
      qed
      then show ?thesis by (simp add: tree_ok_def)
    next
      case False
      then have "path_is_dir ?fs d" using True kept [of d] by (auto simp: path_is_dir_def)
      then show ?thesis by (simp add: tree_ok_def)
    qed
  next
    case False
    then show ?thesis using that by (auto simp: tree_ok_def remove_tree_def Let_def)
  qed
  then show ?thesis by (simp add: preserves_def clear_run)
qed

text \<open>A directory that was cleared has no files.\<close>

lemma cleared:
  assumes "clear_dir env d fs = (Inr (), fs')" "tree_ok d fs"
  shows "no_files d fs'"
proof (cases "path_exists fs d")
  case True
  then have r: "remove_tree env d fs = (Inr (), fs')" using assms(1) by (simp add: clear_run split: if_splits)
  then have "fs_node fs' q = None" if "prefix d q" for q
    using that by (auto simp: remove_tree_def Let_def filter_empty_conv split: if_splits)
  then show ?thesis by (simp add: no_files_def)
next
  case False
  then have "fs' = fs" "\<not> path_is_dir fs d" using assms(1)
    by (auto simp: clear_run path_exists_def path_is_dir_def split: option.splits node.splits)
  then have "fs_node fs' q = None" if "strict_prefix d q" for q using assms(2) that by (simp add: tree_ok_def)
  moreover have "fs_node fs' d \<noteq> Some (File m b)" for m b using False \<open>fs' = fs\<close> by (auto simp: path_exists_def)
  ultimately show ?thesis unfolding no_files_def by (metis option.distinct(1) prefix_order.le_less)
qed

lemma eachP_run: "eachP f (x # xs) s = (Inr (), t) \<longleftrightarrow> (\<exists>u. f x s = (Inr (), u) \<and> eachP f xs u = (Inr (), t))"
  by (auto simp: thenP_eq_Inr)

lemma cleared_all:
  assumes "reset_env_ok env" "eachP (clear_dir env) ds fs = (Inr (), fs')" "\<forall>d \<in> set ds. tree_ok d fs"
  shows "\<forall>d \<in> set ds. no_files d fs'"
  using assms(2,3)
proof (induction ds arbitrary: fs)
  case (Cons d ds)
  obtain u where u: "clear_dir env d fs = (Inr (), u)" "eachP (clear_dir env) ds u = (Inr (), fs')"
    using Cons.prems(1) unfolding eachP_run by blast
  have "\<forall>e \<in> set ds. tree_ok e u"
    using preservesD [OF tree_ok_clear [OF assms(1)] _ u(1)] Cons.prems(2) by auto
  moreover have "no_files d u" using cleared [OF u(1)] Cons.prems(2) by simp
  then have "no_files d fs'" using preservesD [OF no_files_clear_all _ u(2)] by blast
  ultimately show ?case using Cons.IH [OF u(2)] by simp
qed simp

section \<open>A sequence of starts\<close>

definition emptied_dirs :: "app_paths \<Rightarrow> path list" where
  "emptied_dirs ps = [state_dir ps, data_dir ps, cache_dir ps]"

definition reset_dirs :: "app_paths \<Rightarrow> path list" where
  "reset_dirs ps = emptied_dirs ps @ [config_dir ps]"

text \<open>The marker is in none of the directories that are emptied before its own.\<close>

definition separate :: "app_paths \<Rightarrow> bool" where
  "separate ps \<longleftrightarrow> (\<forall>d \<in> set (emptied_dirs ps). \<not> prefix d (marker_path ps))"

lemma eachP_append: "eachP f (xs @ ys) = thenP (eachP f xs) (eachP f ys)"
  by (induction xs) (auto simp: thenP_def bindP_def fun_eq_iff split: prod.splits sum.splits)

lemma thenP_assoc: "thenP (thenP a b) c = thenP a (thenP b c)"
  by (auto simp: thenP_def bindP_def fun_eq_iff split: prod.splits sum.splits)

text \<open>What a pending reset does: first everything but the configuration, then the rest.\<close>

definition empty_all :: "reset_env \<Rightarrow> app_paths \<Rightarrow> (file_system, unit) prog" where
  "empty_all env ps = thenP (secure_wipe_sensitive env ps) (eachP (clear_dir env) (emptied_dirs ps))"

definition finish_reset :: "reset_env \<Rightarrow> app_paths \<Rightarrow> (file_system, bool) prog" where
  "finish_reset env ps = thenP (clear_dir env (config_dir ps)) (thenP (ensure_paths ps) (retP True))"

lemma thenP_ret: "thenP m (retP ()) = m" for m :: "('s, unit) prog"
  by (auto simp: thenP_def bindP_def fun_eq_iff split: prod.splits sum.splits)

lemma perform_run:
  "perform_pending_factory_reset env ps fs =
     (if is_link fs (marker_path ps) then (Inl RuntimeError, fs)
      else if \<not> path_exists fs (marker_path ps) then (Inr False, fs)
      else thenP (empty_all env ps) (finish_reset env ps) fs)"
proof -
  have "[state_dir ps, data_dir ps, cache_dir ps, config_dir ps] = emptied_dirs ps @ [config_dir ps]"
    by (simp add: emptied_dirs_def)
  then have "thenP (secure_wipe_sensitive env ps) (thenP (eachP (clear_dir env) [state_dir ps, data_dir ps, cache_dir ps, config_dir ps])
       (thenP (ensure_paths ps) (retP True))) = thenP (empty_all env ps) (finish_reset env ps)"
    by (simp only: eachP_append empty_all_def finish_reset_def thenP_assoc eachP.simps thenP_ret)
  then show ?thesis
    unfolding perform_pending_factory_reset_def by (simp add: thenP_def bindP_def reject_symlink_def)
qed

lemma preserves_empty:
  assumes "preserves P (secure_wipe_sensitive env ps)" "\<And>d. preserves P (clear_dir env d)"
  shows "preserves P (empty_all env ps)"
  unfolding empty_all_def by (intro preserves_intros preserves_eachP assms)

lemma preserves_finish:
  assumes "\<And>d. preserves P (clear_dir env d)" "preserves P (ensure_paths ps)"
  shows "preserves P (finish_reset env ps)"
  unfolding finish_reset_def by (intro preserves_intros assms)

lemma preserves_reset:
  assumes "preserves P (secure_wipe_sensitive env ps)" "\<And>d. preserves P (clear_dir env d)" "preserves P (ensure_paths ps)"
  shows "preserves P (perform_pending_factory_reset env ps)"
proof -
  have "preserves P (thenP (empty_all env ps) (finish_reset env ps))"
    by (intro preserves_then preserves_empty preserves_finish assms)
  then show ?thesis by (simp add: preserves_def perform_run)
qed

lemma links_perform: "reset_env_ok env \<Longrightarrow> preserves (same_links L) (perform_pending_factory_reset env ps)"
  by (intro preserves_reset links_secure_wipe links_clear links_ensure)

lemma tree_ok_perform: "reset_env_ok env \<Longrightarrow> preserves (tree_ok d) (perform_pending_factory_reset env ps)"
  by (intro preserves_reset tree_ok_wipe tree_ok_clear tree_ok_ensure)

lemma no_files_perform: "preserves (no_files d) (perform_pending_factory_reset env ps)"
  by (intro preserves_reset no_files_wipe no_files_clear no_files_ensure)

text \<open>Nothing creates a file or a link where there was a directory or nothing.\<close>

definition dir_or_gone :: "path \<Rightarrow> file_system \<Rightarrow> bool" where
  "dir_or_gone d fs \<longleftrightarrow> (case fs_node fs d of None \<Rightarrow> True | Some (Dir _) \<Rightarrow> True | _ \<Rightarrow> False)"

lemma dir_or_gone_perform: "preserves (dir_or_gone d) (perform_pending_factory_reset env ps)"
proof -
  have base: "preserves (dir_or_gone d) (os_mkdir p m)" "preserves (dir_or_gone d) (fchmod_nofollow p m)"
      "preserves (dir_or_gone d) (overwrite_file env p)" "preserves (dir_or_gone d) (remove_tree env p)" for p m
    by (auto simp: preserves_def os_mkdir_def fchmod_nofollow_def overwrite_file_def remove_tree_def dir_or_gone_def put_node_def Let_def
        split: option.splits node.splits)
  show ?thesis
  proof (rule preserves_reset)
    show "preserves (dir_or_gone d) (secure_wipe_sensitive env ps)"
      unfolding secure_wipe_sensitive_def wipe_dir_def
      by (auto intro!: preserves_intros preserves_reject_tree preserves_eachP base split: prod.splits)
    show "preserves (dir_or_gone d) (clear_dir env e)" for e
      unfolding clear_dir_def by (auto intro!: preserves_intros preserves_reject_tree base split: prod.splits)
    show "preserves (dir_or_gone d) (ensure_paths ps)"
      unfolding ensure_paths_def by (intro ensure_dirs_preserves ensure_dir_preserves base)
  qed
qed

lemma empty_all_outside:
  "reset_env_ok env \<Longrightarrow> preserves (same_outside (emptied_dirs ps) fs0) (empty_all env ps)"
  unfolding empty_all_def
  by (intro preserves_intros preserves_eachP secure_wipe_outside clear_outside) (simp_all add: emptied_dirs_def)

lemma empty_all_empties:
  assumes "reset_env_ok env" "empty_all env ps fs = (Inr (), fs')" "\<forall>d \<in> set (emptied_dirs ps). tree_ok d fs"
  shows "\<forall>d \<in> set (emptied_dirs ps). no_files d fs'"
proof -
  obtain x u where u: "secure_wipe_sensitive env ps fs = (Inr x, u)" "eachP (clear_dir env) (emptied_dirs ps) u = (Inr (), fs')"
    using assms(2) by (auto simp: empty_all_def thenP_eq_Inr)
  have "\<forall>d \<in> set (emptied_dirs ps). tree_ok d u"
    using preservesD [OF tree_ok_wipe _ u(1)] assms(3) by blast
  then show ?thesis using cleared_all [OF assms(1) u(2)] by blast
qed

text \<open>
  Between two starts: the marker is there, or the directories have no files left.
\<close>

definition pending_or_done :: "app_paths \<Rightarrow> file_system \<Rightarrow> bool" where
  "pending_or_done ps fs \<longleftrightarrow> (\<exists>m b. fs_node fs (marker_path ps) = Some (File m b)) \<or>
     (\<forall>d \<in> set (emptied_dirs ps). no_files d fs)"

lemma pending_perform:
  assumes env: "reset_env_ok env" and sep: "separate ps" and tree: "\<forall>d \<in> set (emptied_dirs ps). tree_ok d fs"
    and inv: "pending_or_done ps fs" and run: "perform_pending_factory_reset env ps fs = (r, fs')"
  shows "pending_or_done ps fs'"
proof (cases "\<forall>d \<in> set (emptied_dirs ps). no_files d fs")
  case True
  then have "\<forall>d \<in> set (emptied_dirs ps). no_files d fs'" using preservesD [OF no_files_perform _ run] by blast
  then show ?thesis by (simp add: pending_or_done_def)
next
  case False
  then obtain m b where mk: "fs_node fs (marker_path ps) = Some (File m b)" using inv by (auto simp: pending_or_done_def)
  then have body: "thenP (empty_all env ps) (finish_reset env ps) fs = (r, fs')"
    using run by (simp add: perform_run is_link_def path_exists_def)
  obtain x u where u: "empty_all env ps fs = (x, u)" by fastforce
  have "same_outside (emptied_dirs ps) fs u"
    by (rule preservesD [OF empty_all_outside [OF env] _ u]) (simp add: same_outside_def)
  then have mk': "fs_node u (marker_path ps) = Some (File m b)" using mk sep by (simp add: same_outside_def separate_def)
  show ?thesis
  proof (cases x)
    case (Inl e)
    then have "fs' = u" using body u by (simp add: thenP_run)
    then show ?thesis using mk' by (simp add: pending_or_done_def)
  next
    case (Inr y)
    then have "\<forall>d \<in> set (emptied_dirs ps). no_files d u" using empty_all_empties [OF env _ tree] u by simp
    moreover have "finish_reset env ps u = (r, fs')" using body u Inr by (simp add: thenP_run)
    ultimately have "\<forall>d \<in> set (emptied_dirs ps). no_files d fs'"
      using preservesD [OF preserves_finish [OF no_files_clear no_files_ensure]] by blast
    then show ?thesis by (simp add: pending_or_done_def)
  qed
qed

fun run_starts :: "app_paths \<Rightarrow> reset_env list \<Rightarrow> file_system \<Rightarrow> file_system" where
  "run_starts ps [] fs = fs"
| "run_starts ps (env # envs) fs = run_starts ps envs (snd (perform_pending_factory_reset env ps fs))"

definition starts_inv :: "app_paths \<Rightarrow> (path \<times> link_target) set \<Rightarrow> file_system \<Rightarrow> bool" where
  "starts_inv ps L fs \<longleftrightarrow> pending_or_done ps fs \<and> same_links L fs \<and>
     (\<forall>d \<in> set (reset_dirs ps). tree_ok d fs \<and> dir_or_gone d fs)"

lemma starts_inv_perform:
  assumes "reset_env_ok env" "separate ps" "starts_inv ps L fs"
  shows "starts_inv ps L (snd (perform_pending_factory_reset env ps fs))"
proof -
  obtain r fs' where run: "perform_pending_factory_reset env ps fs = (r, fs')" by fastforce
  have "\<forall>d \<in> set (emptied_dirs ps). tree_ok d fs" using assms(3) by (simp add: starts_inv_def reset_dirs_def)
  then have "pending_or_done ps fs'" using pending_perform [OF assms(1,2) _ _ run] assms(3) by (simp add: starts_inv_def)
  moreover have "same_links L fs'" using preservesD [OF links_perform [OF assms(1)] _ run] assms(3) by (simp add: starts_inv_def)
  moreover have "\<forall>d \<in> set (reset_dirs ps). tree_ok d fs' \<and> dir_or_gone d fs'"
    using preservesD [OF tree_ok_perform [OF assms(1)] _ run] preservesD [OF dir_or_gone_perform _ run] assms(3)
    by (simp add: starts_inv_def)
  ultimately show ?thesis by (simp add: run starts_inv_def)
qed

lemma starts_inv_run:
  "\<forall>env \<in> set envs. reset_env_ok env \<Longrightarrow> separate ps \<Longrightarrow> starts_inv ps L fs \<Longrightarrow> starts_inv ps L (run_starts ps envs fs)"
  by (induction envs arbitrary: fs) (simp_all add: starts_inv_perform)

text \<open>A start whose deletions go through empties the directories.\<close>

lemma eachP_total: "(\<And>x s. fst (f x s) = Inr ()) \<Longrightarrow> fst (eachP f xs s) = Inr ()"
proof (induction xs arbitrary: s)
  case (Cons x xs)
  obtain u where "f x s = (Inr (), u)" using Cons.prems [of x s] by (cases "f x s") simp
  then show ?case using Cons by (simp add: thenP_run)
qed simp

lemma overwrite_total: "fst (overwrite_file env p s) = Inr ()"
  by (simp add: overwrite_file_def split: option.splits node.splits)

definition no_links_below :: "path \<Rightarrow> file_system \<Rightarrow> bool" where
  "no_links_below d fs \<longleftrightarrow> finite_fs fs \<and> (\<forall>(q, t) \<in> links fs. \<not> prefix d q)"

lemma no_links_kept:
  "preserves (same_links (links fs)) m \<Longrightarrow> m fs = (r, fs') \<Longrightarrow> no_links_below d fs \<Longrightarrow> no_links_below d fs'"
  by (drule preservesD) (auto simp: same_links_def no_links_below_def)

lemma no_links_is_link: "no_links_below d fs \<Longrightarrow> prefix d q \<Longrightarrow> \<not> is_link fs q"
  by (auto simp: no_links_below_def is_link_iff)

lemma wipe_dir_total:
  assumes "reset_env_ok env" "no_links_below e fs" "prefix e d"
  shows "fst (wipe_dir env d fs) = Inr ()"
proof -
  have "\<not> is_link fs q" if "q = d \<or> q \<in> set (re_children env fs d)" for q
  proof (rule no_links_is_link [OF assms(2)])
    show "prefix e q"
      using that assms(3) children [OF assms(1), of q fs d] by (metis strict_prefix_def prefix_order.trans)
  qed
  then have "reject_symlink_tree (re_children env fs d) d fs = (Inr (), fs)" by (auto simp: reject_tree_run)
  then show ?thesis
    using eachP_total [where f = "overwrite_file env", OF overwrite_total] by (simp add: wipe_dir_def thenP_run)
qed

lemma then_total:
  assumes "fst (m s) = Inr x" "\<And>u. m s = (Inr x, u) \<Longrightarrow> fst (k u) = Inr y"
  shows "fst (thenP m k s) = Inr y"
  using assms by (cases "m s") (simp add: thenP_run)

lemma secure_wipe_total:
  assumes "reset_env_ok env" "no_links_below (data_dir ps) fs"
  shows "fst (secure_wipe_sensitive env ps fs) = Inr ()"
proof -
  have below: "prefix (data_dir ps) (gnupg_home ps)" "prefix (data_dir ps) (vault_dir ps)"
    by (simp_all add: gnupg_home_def vault_dir_def)
  have keep: "no_links_below (data_dir ps) u" if "wipe_dir env d s = (Inr (), u)" "no_links_below (data_dir ps) s" for d s u
    using no_links_kept [OF links_wipe that] .
  have explicit: "fst (eachP (\<lambda>p. bindP (getP (\<lambda>fs. path_exists fs p)) (\<lambda>ex. if ex then overwrite_file env p else retP ())) ps' s) = Inr ()"
    for ps' s by (rule eachP_total) (simp add: overwrite_total)
  show ?thesis
    unfolding secure_wipe_sensitive_def
    using keep assms(2) wipe_dir_total [OF assms(1) _ below(1)] wipe_dir_total [OF assms(1) _ below(2)]
    by (intro then_total explicit) blast+
qed

lemma clear_total:
  assumes "reset_env_ok env" "re_left env = (\<lambda>_. [])" "no_links_below d fs" "dir_or_gone d fs"
  shows "fst (clear_dir env d fs) = Inr ()"
proof -
  have "\<not> is_link fs q" if "q = d \<or> q \<in> set (re_children env fs d)" for q
    using no_links_is_link [OF assms(3)] that children [OF assms(1)] by (auto simp: strict_prefix_def)
  moreover have "path_exists fs d \<Longrightarrow> path_is_dir fs d"
    using assms(4) by (auto simp: dir_or_gone_def path_exists_def path_is_dir_def split: option.splits node.splits)
  ultimately show ?thesis using assms(2) by (auto simp: clear_run remove_tree_def Let_def)
qed

lemma dir_or_gone_clear: "preserves (dir_or_gone d) (clear_dir env e)"
  by (auto simp: preserves_def clear_run remove_tree_def dir_or_gone_def Let_def split: option.splits node.splits)

lemma clear_all_total:
  assumes "reset_env_ok env" "re_left env = (\<lambda>_. [])"
  shows "\<forall>d \<in> set ds. no_links_below d fs \<and> dir_or_gone d fs \<Longrightarrow> fst (eachP (clear_dir env) ds fs) = Inr ()"
proof (induction ds arbitrary: fs)
  case (Cons d ds)
  have "\<forall>e \<in> set ds. no_links_below e u \<and> dir_or_gone e u" if "clear_dir env d fs = (Inr (), u)" for u
    using no_links_kept [OF links_clear [OF assms(1)] that] preservesD [OF dir_or_gone_clear _ that] Cons.prems by simp
  moreover have "fst (clear_dir env d fs) = Inr ()" using clear_total [OF assms] Cons.prems by simp
  ultimately show ?case using Cons.IH by (auto intro: then_total)
qed simp

lemma empty_all_total:
  assumes "reset_env_ok env" "re_left env = (\<lambda>_. [])" "\<forall>d \<in> set (emptied_dirs ps). no_links_below d fs \<and> dir_or_gone d fs"
  shows "fst (empty_all env ps fs) = Inr ()"
proof -
  have "\<forall>d \<in> set (emptied_dirs ps). no_links_below d u \<and> dir_or_gone d u"
    if u: "secure_wipe_sensitive env ps fs = (Inr (), u)" for u
  proof -
    have "no_links_below d u" if "no_links_below d fs" for d
      using no_links_kept [OF links_secure_wipe u that] .
    moreover have "preserves (dir_or_gone d) (secure_wipe_sensitive env ps)" for d
    proof -
      have base: "preserves (dir_or_gone d) (overwrite_file env p)" for p
        by (auto simp: preserves_def overwrite_file_def dir_or_gone_def put_node_def split: option.splits node.splits)
      show ?thesis unfolding secure_wipe_sensitive_def wipe_dir_def
        by (auto intro!: preserves_intros preserves_reject_tree preserves_eachP base split: prod.splits)
    qed
    then have "dir_or_gone d u" if "dir_or_gone d fs" for d
      using preservesD [of "dir_or_gone d" "secure_wipe_sensitive env ps", OF _ that u] by blast
    ultimately show ?thesis using assms(3) by simp
  qed
  moreover have "fst (secure_wipe_sensitive env ps fs) = Inr ()"
    using secure_wipe_total [OF assms(1)] assms(3) by (simp add: emptied_dirs_def)
  ultimately show ?thesis unfolding empty_all_def by (auto intro: then_total clear_all_total [OF assms(1,2)])
qed

text \<open>The request leaves the marker, in directories that are there.\<close>

lemma request_done:
  assumes "request_factory_reset ps fs = (Inr (), fs')"
  shows "(\<exists>m b. fs_node fs' (marker_path ps) = Some (File m b)) \<and>
    (\<forall>d \<in> set (reset_dirs ps). fs_node fs' d = Some (Dir DIR_MODE))"
proof -
  obtain u where u: "ensure_paths ps fs = (Inr (), u)" "write_text (marker_path ps) (''pending'' @ [CHR 0x0A]) u = (Inr (), fs')"
    using assms by (auto simp: request_factory_reset_def thenP_eq_Inr reject_symlink_def split: if_splits)
  have "\<forall>d \<in> set (reset_dirs ps). fs_node u d = Some (Dir DIR_MODE)"
    using ensure_paths_made [OF u(1)] by (simp add: reset_dirs_def emptied_dirs_def managed_dirs_def)
  then show ?thesis using u(2) by (auto simp: write_text_def put_node_def split: option.splits node.splits if_splits)
qed

lemma finish_reset_True: "finish_reset env ps u = (Inr b, fs') \<Longrightarrow> b"
  by (auto simp: finish_reset_def thenP_eq_Inr)

lemma managed_below: "d \<in> set (managed_dirs ps) \<Longrightarrow> \<exists>e \<in> set (reset_dirs ps). prefix e d"
  by (auto simp: managed_dirs_def reset_dirs_def emptied_dirs_def gnupg_home_def vault_dir_def)

text \<open>Nodes outside the four directories.\<close>

lemma reset_frame:
  assumes env: "reset_env_ok env" and run: "perform_pending_factory_reset env ps fs = (r, fs')"
    and q: "fs_node fs q \<noteq> None" "\<forall>d \<in> set (reset_dirs ps). \<not> prefix d q"
  shows "fs_node fs' q = fs_node fs q"
proof -
  let ?P = "\<lambda>u. fs_node u q = fs_node fs q"
  have outside: "preserves ?P m" if "\<And>fs0. preserves (same_outside (reset_dirs ps) fs0) m" for m :: "(file_system, unit) prog"
  proof -
    have "same_outside (reset_dirs ps) s (snd (m s))" for s
      using that [of s] by (simp add: preserves_def same_outside_def)
    then show ?thesis using q(2) by (simp add: preserves_def same_outside_def)
  qed
  have "preserves ?P (secure_wipe_sensitive env ps)"
    by (intro outside secure_wipe_outside [OF env]) (simp_all add: reset_dirs_def emptied_dirs_def)
  moreover have "preserves ?P (clear_dir env d)" if "d \<in> set (reset_dirs ps)" for d
    by (intro outside clear_outside [OF that])
  moreover have "preserves ?P (ensure_paths ps)"
  proof -
    have "q \<notin> set (managed_dirs ps)" using managed_below q(2) by blast
    then have "fs_node (snd (ensure_paths ps u)) q = fs_node u q" if "fs_node u q \<noteq> None" for u
      using ensure_dirs_keeps [of "managed_dirs ps" u _ _ q] that by (cases "ensure_paths ps u") (simp add: ensure_paths_def)
    then show ?thesis using q(1) by (simp add: preserves_def)
  qed
  ultimately have "preserves ?P (thenP (empty_all env ps) (finish_reset env ps))"
    unfolding empty_all_def finish_reset_def
    by (intro preserves_intros preserves_eachP) (auto simp: reset_dirs_def emptied_dirs_def)
  then have "preserves ?P (perform_pending_factory_reset env ps)" by (simp add: preserves_def perform_run)
  then show ?thesis using preservesD [of ?P "perform_pending_factory_reset env ps" fs, OF _ refl run] by blast
qed

lemma reset_empties:
  assumes env: "reset_env_ok env" and tree: "\<forall>d \<in> set (reset_dirs ps). tree_ok d fs"
    and run: "thenP (empty_all env ps) (finish_reset env ps) fs = (Inr b, fs')"
  shows "\<forall>d \<in> set (reset_dirs ps). no_files d fs'"
proof -
  obtain x u where u: "empty_all env ps fs = (Inr x, u)" "finish_reset env ps u = (Inr b, fs')"
    using run by (auto simp: thenP_eq_Inr)
  have "\<forall>d \<in> set (emptied_dirs ps). no_files d u"
    using empty_all_empties [OF env] u(1) tree by (simp add: reset_dirs_def)
  then have "\<forall>d \<in> set (emptied_dirs ps). no_files d fs'"
    using preservesD [OF preserves_finish [OF no_files_clear no_files_ensure] _ u(2)] by blast
  moreover have "tree_ok (config_dir ps) u"
    using preservesD [OF preserves_empty [OF tree_ok_wipe tree_ok_clear [OF env]] _ u(1)] tree by (simp add: reset_dirs_def)
  moreover obtain v where v: "clear_dir env (config_dir ps) u = (Inr (), v)" "ensure_paths ps v = (Inr (), fs')"
    using u(2) by (auto simp: finish_reset_def thenP_eq_Inr)
  ultimately have "no_files (config_dir ps) v" using cleared by blast
  then have "no_files (config_dir ps) fs'" using preservesD [OF no_files_ensure _ v(2)] by blast
  then show ?thesis using \<open>\<forall>d \<in> set (emptied_dirs ps). no_files d fs'\<close> by (simp add: reset_dirs_def)
qed

section \<open>Properties\<close>


text \<open>
  C34. A requested reset is taken up until it is done. Once the request has returned, any number of
  starts may fail anywhere in the deletion, with any part of the files left: the first start
  whose deletions go through leaves no file in the data, state and cache directories. It is enough
  that the marker is in none of these, and that they hold no symbolic link.
\<close>

theorem requested_reset_finishes:
  assumes "request_factory_reset ps fs0 = (Inr (), fs1)" and "separate ps"
    and "list_all reset_env_ok (env # envs)" and "re_left env = (\<lambda>_. [])"
    and "\<forall>d \<in> set (emptied_dirs ps). no_links_below d fs1"
  shows "\<forall>d \<in> set (emptied_dirs ps). no_files d (snd (perform_pending_factory_reset env ps (run_starts ps envs fs1)))"
proof -
  have env: "reset_env_ok env" "\<forall>e \<in> set envs. reset_env_ok e" using assms(3) by (auto simp: list_all_iff)
  let ?fs = "run_starts ps envs fs1"
  have "finite_fs fs1" using assms(5) by (simp add: emptied_dirs_def no_links_below_def)
  then have "starts_inv ps (links fs1) fs1"
    using request_done [OF assms(1)] by (auto simp: same_links_def starts_inv_def pending_or_done_def tree_ok_def dir_or_gone_def path_is_dir_def)
  then have inv: "starts_inv ps (links fs1) ?fs" by (rule starts_inv_run [OF env(2) assms(2)])
  obtain r fs' where run: "perform_pending_factory_reset env ps ?fs = (r, fs')" by fastforce
  have "\<forall>d \<in> set (emptied_dirs ps). no_files d fs'"
  proof (cases "\<exists>m b. fs_node ?fs (marker_path ps) = Some (File m b)")
    case True
    then have body: "thenP (empty_all env ps) (finish_reset env ps) ?fs = (r, fs')"
      using run by (auto simp: perform_run is_link_def path_exists_def)
    have "\<forall>d \<in> set (emptied_dirs ps). no_links_below d ?fs \<and> dir_or_gone d ?fs"
      using inv assms(5) by (simp add: starts_inv_def reset_dirs_def no_links_below_def same_links_def)
    then obtain u where u: "empty_all env ps ?fs = (Inr (), u)"
      using empty_all_total [OF env(1) assms(4)] by (metis prod.collapse)
    then have "\<forall>d \<in> set (emptied_dirs ps). no_files d u"
      using empty_all_empties [OF env(1)] inv by (simp add: starts_inv_def reset_dirs_def)
    moreover have "finish_reset env ps u = (r, fs')" using body u by (simp add: thenP_run)
    ultimately show ?thesis using preservesD [OF preserves_finish [OF no_files_clear no_files_ensure]] by blast
  next
    case False
    then have "\<forall>d \<in> set (emptied_dirs ps). no_files d ?fs" using inv by (auto simp: starts_inv_def pending_or_done_def)
    then show ?thesis using preservesD [OF no_files_perform _ run] by blast
  qed
  then show ?thesis by (simp add: run)
qed

definition demo_app :: app_paths where
  "demo_app = \<lparr>config_dir = [''c''], data_dir = [''d''], state_dir = [''s''], cache_dir = [''t'']\<rparr>"

text \<open>A home with one file, and a host that removes everything but that file in the first start.\<close>

definition demo_reset_fs :: file_system where
  "demo_reset_fs = \<lparr>fs_node = (\<lambda>p. if p \<in> set ([] # managed_dirs demo_app) then Some (Dir 448)
       else if p = [''d'', ''vaults'', ''v''] then Some (File 384 ''secret'') else None), fs_umask = 18, fs_open_ok = (\<lambda>_. True)\<rparr>"

lemma demo_requested: "\<exists>fs1. request_factory_reset demo_app demo_reset_fs = (Inr (), fs1) \<and> links fs1 = {} \<and> finite_fs fs1 \<and>
    fs_node fs1 [''d'', ''vaults'', ''v''] = Some (File 384 ''secret'')"
proof -
  have dirs: "fs_node demo_reset_fs d = Some (Dir 448)" if "d \<in> set (managed_dirs demo_app)" for d
    using that by (simp add: demo_reset_fs_def)
  obtain r fs1 where run: "request_factory_reset demo_app demo_reset_fs = (r, fs1)" by fastforce
  have step: "ensure_dir d DIR_MODE fs = (Inr (), fs)" if "fs_node fs d = Some (Dir 448)" "fs_open_ok fs d" for d fs
    using that missing_dirs.simps [of fs d]
    by (simp add: ensure_dir_def thenP_def bindP_def reject_symlink_def finish_dir_def fchmod_nofollow_def DIR_MODE_def
        is_link_def path_exists_def path_is_dir_def put_node_def fun_upd_idem)
  have "ensure_dirs ds demo_reset_fs = (Inr (), demo_reset_fs)" if "set ds \<subseteq> set (managed_dirs demo_app)" for ds
    using that dirs step by (induction ds) (simp_all add: thenP_run demo_reset_fs_def)
  then have "ensure_paths demo_app demo_reset_fs = (Inr (), demo_reset_fs)" by (simp add: ensure_paths_def)
  then have "r = Inr ()" "fs1 = put_node (marker_path demo_app) (File (masked 438 18) (''pending'' @ [CHR 0x0A])) demo_reset_fs"
    using run by (simp_all add: request_factory_reset_def thenP_def bindP_def reject_symlink_def write_text_def demo_reset_fs_def
        is_link_def path_is_dir_def marker_path_def demo_app_def managed_dirs_def gnupg_home_def vault_dir_def MARKER_NAME_def)
  moreover have "dom (fs_node demo_reset_fs) \<subseteq> set ([''d'', ''vaults'', ''v''] # [] # managed_dirs demo_app)"
    by (auto simp: demo_reset_fs_def split: if_splits)
  then have "finite_fs demo_reset_fs" unfolding finite_fs_def by (rule finite_subset) simp
  moreover have "[''d'', ''vaults'', ''v''] \<notin> set ([] # managed_dirs demo_app)" "marker_path demo_app \<noteq> [''d'', ''vaults'', ''v'']"
    by (simp_all add: managed_dirs_def gnupg_home_def vault_dir_def demo_app_def marker_path_def)
  then have "fs_node demo_reset_fs [''d'', ''vaults'', ''v''] = Some (File 384 ''secret'')" "marker_path demo_app \<noteq> [''d'', ''vaults'', ''v'']"
    by (simp_all add: demo_reset_fs_def)
  moreover have "links demo_reset_fs = {}" by (auto simp: links_def demo_reset_fs_def split: if_splits)
  ultimately show ?thesis using run by (auto simp: links_def put_node_def finite_fs_def)
qed

definition demo_reset_env :: "path list \<Rightarrow> reset_env" where
  "demo_reset_env left = \<lparr>re_children = (\<lambda>fs d. if finite_fs fs
       then SOME cs. set cs = {q. strict_prefix d q \<and> fs_node fs q \<noteq> None} else []),
     re_shred = False, re_shredded = (\<lambda>p b. None), re_zeroed = (\<lambda>p. 0), re_left = (\<lambda>_. left)\<rparr>"

lemma demo_reset_env_ok:
  assumes "\<forall>q \<in> set left. \<forall>e. prefix e q \<longrightarrow> e \<in> set left"
  shows "reset_env_ok (demo_reset_env left)"
proof -
  have below: "set (re_children (demo_reset_env left) fs d) = {q. strict_prefix d q \<and> fs_node fs q \<noteq> None}" if "finite_fs fs" for fs d
  proof -
    define S where "S = {q. strict_prefix d q \<and> fs_node fs q \<noteq> None}"
    have "S \<subseteq> dom (fs_node fs)" by (auto simp: S_def)
    then have "finite S" using that finite_subset unfolding finite_fs_def by blast
    then have "\<exists>cs. set cs = S" by (rule finite_list)
    then have "set (SOME cs. set cs = S) = S" by (rule someI_ex)
    moreover have "re_children (demo_reset_env left) fs d = (SOME cs. set cs = S)"
      using that unfolding demo_reset_env_def S_def by simp
    ultimately show ?thesis by (simp add: S_def)
  qed
  have "set (re_children (demo_reset_env left) fs d) = {}" if "\<not> finite_fs fs" for fs d
    using that by (simp add: demo_reset_env_def)
  with below have "set (re_children (demo_reset_env left) fs d) \<subseteq> {q. strict_prefix d q \<and> fs_node fs q \<noteq> None} \<and>
      (finite_fs fs \<longrightarrow> {q. strict_prefix d q \<and> fs_node fs q \<noteq> None} \<subseteq> set (re_children (demo_reset_env left) fs d))" for fs d
    by (cases "finite_fs fs") simp_all
  moreover have "q \<in> set (re_left (demo_reset_env left) d) \<Longrightarrow> prefix e q \<Longrightarrow> e \<in> set (re_left (demo_reset_env left) d)" for q e d
    using assms by (simp add: demo_reset_env_def)
  ultimately show ?thesis unfolding reset_env_ok_def by blast
qed


text \<open>The first start fails with the file still there.\<close>

definition demo_left :: "path list" where
  "demo_left = [[], [''d''], [''d'', ''vaults''], [''d'', ''vaults'', ''v'']]"

theorem requested_reset_finishes_witness:
  "\<exists>fs1. request_factory_reset demo_app demo_reset_fs = (Inr (), fs1) \<and>
     fs_node fs1 [''d'', ''vaults'', ''v''] = Some (File 384 ''secret'') \<and>
     no_files [''d''] (snd (perform_pending_factory_reset (demo_reset_env []) demo_app
       (run_starts demo_app [demo_reset_env demo_left] fs1)))"
proof -
  obtain fs1 where fs1: "request_factory_reset demo_app demo_reset_fs = (Inr (), fs1)" "links fs1 = {}" "finite_fs fs1"
      "fs_node fs1 [''d'', ''vaults'', ''v''] = Some (File 384 ''secret'')"
    using demo_requested by blast
  have "reset_env_ok (demo_reset_env [])" "reset_env_ok (demo_reset_env demo_left)"
    by (rule demo_reset_env_ok, auto simp: demo_left_def prefix_Cons)+
  then have "list_all reset_env_ok [demo_reset_env [], demo_reset_env demo_left]" by simp
  moreover have "separate demo_app"
    by (simp add: separate_def emptied_dirs_def marker_path_def demo_app_def)
  moreover have "re_left (demo_reset_env []) = (\<lambda>_. [])" by (simp add: demo_reset_env_def)
  moreover have "\<forall>d \<in> set (emptied_dirs demo_app). no_links_below d fs1" using fs1(2,3) by (simp add: no_links_below_def)
  moreover have "[''d''] \<in> set (emptied_dirs demo_app)" by (simp add: emptied_dirs_def demo_app_def)
  ultimately show ?thesis using requested_reset_finishes [OF fs1(1)] fs1(1,4) by blast
qed

end
