(* ===== verification/Settings_View.thy ===== *)
theory Settings_View
  imports Settings Factory_Reset
begin

text \<open>
  \<open>ui/settings/settings_viewmodel.py\<close>: the editable copy of the settings behind the settings page.
  The view model keeps what it saved last and what the user is editing; its signals are a list.
  The lemmas show that, whatever the user does, a later start loads what was saved last, and that
  edits reach the disk by \<open>save\<close> alone.
\<close>

section \<open>The view model\<close>

datatype settings_signal =
    ConfigSaved
  | SaveFailed exn
  | ResetScheduled
  | ResetFailed exn

record settings_view =
  sv_fs :: file_system
  sv_saved :: app_config
  sv_pending :: app_config
  sv_signals :: "settings_signal list"

definition new_view :: "app_config \<Rightarrow> file_system \<Rightarrow> settings_view" where
  "new_view c fs = \<lparr>sv_fs = fs, sv_saved = c, sv_pending = c, sv_signals = []\<rparr>"

definition emit_signal :: "settings_signal \<Rightarrow> settings_view \<Rightarrow> settings_view" where
  "emit_signal s v = v\<lparr>sv_signals := sv_signals v @ [s]\<rparr>"

definition edit :: "(app_config \<Rightarrow> app_config) \<Rightarrow> settings_view \<Rightarrow> settings_view" where
  "edit f v = v\<lparr>sv_pending := f (sv_pending v)\<rparr>"

definition set_locale :: "str \<Rightarrow> settings_view \<Rightarrow> settings_view" where
  "set_locale l = edit (\<lambda>c. c\<lparr>cfg_locale := l\<rparr>)"

definition set_appearance :: "appearance_mode \<Rightarrow> settings_view \<Rightarrow> settings_view" where
  "set_appearance a = edit (\<lambda>c. c\<lparr>cfg_appearance := a\<rparr>)"

definition set_cipher :: "cipher_algorithm \<Rightarrow> settings_view \<Rightarrow> settings_view" where
  "set_cipher x = edit (\<lambda>c. c\<lparr>cfg_cipher := x\<rparr>)"

definition set_kdf_profile :: "kdf_profile \<Rightarrow> settings_view \<Rightarrow> settings_view" where
  "set_kdf_profile k = edit (\<lambda>c. c\<lparr>cfg_kdf_profile := k\<rparr>)"

definition set_clipboard_clear_seconds :: "int \<Rightarrow> settings_view \<Rightarrow> settings_view" where
  "set_clipboard_clear_seconds secs = edit (\<lambda>c. c\<lparr>cfg_clipboard_seconds := max 0 (min 3600 secs)\<rparr>)"

definition set_backup_reminder_days :: "int \<Rightarrow> settings_view \<Rightarrow> settings_view" where
  "set_backup_reminder_days days = edit (\<lambda>c. c\<lparr>cfg_reminder_days := max 1 (min 365 days)\<rparr>)"

definition set_high_contrast :: "bool \<Rightarrow> settings_view \<Rightarrow> settings_view" where
  "set_high_contrast b = edit (\<lambda>c. c\<lparr>cfg_high_contrast := b\<rparr>)"

definition set_reduce_motion :: "bool \<Rightarrow> settings_view \<Rightarrow> settings_view" where
  "set_reduce_motion b = edit (\<lambda>c. c\<lparr>cfg_reduce_motion := b\<rparr>)"

definition set_require_delete_text_confirmation :: "bool \<Rightarrow> settings_view \<Rightarrow> settings_view" where
  "set_require_delete_text_confirmation b = edit (\<lambda>c. c\<lparr>cfg_confirm_delete := b\<rparr>)"

definition set_audit_hash_chain :: "bool \<Rightarrow> settings_view \<Rightarrow> settings_view" where
  "set_audit_hash_chain b = edit (\<lambda>c. c\<lparr>cfg_audit := cfg_audit c\<lparr>ac_hash_chain := b\<rparr>\<rparr>)"

definition persist_last_open_page :: "config_env \<Rightarrow> app_paths \<Rightarrow> app_page \<Rightarrow> settings_view \<Rightarrow> settings_view" where
  "persist_last_open_page env ps page v =
     (let saved = (sv_saved v)\<lparr>cfg_last_open_page := page\<rparr> in
      case save_config env saved (config_file ps) (sv_fs v) of
        (Inl e, fs) \<Rightarrow> emit_signal (SaveFailed e) (v\<lparr>sv_fs := fs\<rparr>)
      | (Inr _, fs) \<Rightarrow> v\<lparr>sv_fs := fs, sv_saved := saved, sv_pending := (sv_pending v)\<lparr>cfg_last_open_page := page\<rparr>\<rparr>)"

definition save_view :: "config_env \<Rightarrow> app_paths \<Rightarrow> settings_view \<Rightarrow> settings_view" where
  "save_view env ps v = (case save_config env (sv_pending v) (config_file ps) (sv_fs v) of
       (Inl e, fs) \<Rightarrow> emit_signal (SaveFailed e) (v\<lparr>sv_fs := fs\<rparr>)
     | (Inr _, fs) \<Rightarrow> emit_signal ConfigSaved (v\<lparr>sv_fs := fs, sv_saved := sv_pending v\<rparr>))"

definition schedule_factory_reset :: "app_paths \<Rightarrow> settings_view \<Rightarrow> settings_view" where
  "schedule_factory_reset ps v = (case request_factory_reset ps (sv_fs v) of
       (Inl e, fs) \<Rightarrow> emit_signal (ResetFailed e) (v\<lparr>sv_fs := fs\<rparr>)
     | (Inr _, fs) \<Rightarrow> emit_signal ResetScheduled (v\<lparr>sv_fs := fs, sv_pending := default_config\<rparr>))"

section \<open>A session\<close>

datatype settings_op =
    SetLocale str
  | SetAppearance appearance_mode
  | SetCipher cipher_algorithm
  | SetKdfProfile kdf_profile
  | SetClipboardSeconds int
  | SetReminderDays int
  | SetHighContrast bool
  | SetReduceMotion bool
  | SetConfirmDelete bool
  | SetHashChain bool
  | PersistPage app_page
  | SaveSettings
  | ScheduleReset

fun settings_step :: "config_env \<Rightarrow> app_paths \<Rightarrow> settings_op \<Rightarrow> settings_view \<Rightarrow> settings_view" where
  "settings_step env ps (SetLocale l) = set_locale l"
| "settings_step env ps (SetAppearance a) = set_appearance a"
| "settings_step env ps (SetCipher x) = set_cipher x"
| "settings_step env ps (SetKdfProfile k) = set_kdf_profile k"
| "settings_step env ps (SetClipboardSeconds n) = set_clipboard_clear_seconds n"
| "settings_step env ps (SetReminderDays n) = set_backup_reminder_days n"
| "settings_step env ps (SetHighContrast b) = set_high_contrast b"
| "settings_step env ps (SetReduceMotion b) = set_reduce_motion b"
| "settings_step env ps (SetConfirmDelete b) = set_require_delete_text_confirmation b"
| "settings_step env ps (SetHashChain b) = set_audit_hash_chain b"
| "settings_step env ps (PersistPage page) = persist_last_open_page env ps page"
| "settings_step env ps SaveSettings = save_view env ps"
| "settings_step env ps ScheduleReset = schedule_factory_reset ps"

definition settings_session :: "config_env \<Rightarrow> app_paths \<Rightarrow> settings_op list \<Rightarrow> settings_view \<Rightarrow> settings_view" where
  "settings_session env ps ops v = fold (settings_step env ps) ops v"

lemmas setter_defs = edit_def set_locale_def set_appearance_def set_cipher_def set_kdf_profile_def
  set_clipboard_clear_seconds_def set_backup_reminder_days_def set_high_contrast_def set_reduce_motion_def
  set_require_delete_text_confirmation_def set_audit_hash_chain_def

text \<open>The page offers locales that are settled.\<close>

fun op_ok :: "config_env \<Rightarrow> settings_op \<Rightarrow> bool" where
  "op_ok env (SetLocale l) \<longleftrightarrow> validate_locale env l = Some l"
| "op_ok env op \<longleftrightarrow> True"

fun is_setter :: "settings_op \<Rightarrow> bool" where
  "is_setter (PersistPage page) = False"
| "is_setter SaveSettings = False"
| "is_setter ScheduleReset = False"
| "is_setter op = True"

section \<open>What reaches the disk\<close>

text \<open>The configuration file is not one of the directories of the program, nor above one.\<close>

definition paths_sane :: "app_paths \<Rightarrow> bool" where
  "paths_sane ps \<longleftrightarrow> list_all (\<lambda>d. \<not> prefix (config_file ps) d) (managed_dirs ps)"

definition storable :: "config_env \<Rightarrow> app_config \<Rightarrow> bool" where
  "storable env c \<longleftrightarrow> config_ok env c \<and> texts_ok c \<and> \<not> has_del c"

lemma load_cong:
  assumes "fs_node fs p = fs_node fs' p" "fs_open_ok fs p = fs_open_ok fs' p"
  shows "fst (load_config env p fs) = fst (load_config env p fs')"
  using assms
  by (simp add: load_config_def ensure_safe_to_load_def ensure_file_mode_def fchmod_nofollow_def permission_report_of_def
      path_exists_def read_bytes_def put_node_def bindP_def thenP_def getP_def retP_def raiseP_def Let_def
      split: option.splits node.splits)

lemma ensure_dir_open: "fs_open_ok (snd (ensure_dir p mode fs)) = fs_open_ok fs"
  using ensure_dir_keeps [of p mode fs] by (simp add: only_new_dirs_def)

lemma ensure_dirs_open: "fs_open_ok (snd (ensure_dirs ds fs)) = fs_open_ok fs"
proof (induction ds arbitrary: fs)
  case (Cons d ds)
  obtain r u where u: "ensure_dir d DIR_MODE fs = (r, u)" by fastforce
  then have "fs_open_ok u = fs_open_ok fs" using ensure_dir_open [of d DIR_MODE fs] by simp
  then show ?case using u Cons.IH [of u] by (cases r) (simp_all add: thenP_run)
qed simp

lemma ensure_parent_keeps:
  assumes "p \<noteq> []"
  shows "fs_node (snd (ensure_dir (butlast p) mode fs)) p = fs_node fs p"
proof -
  have "\<not> prefix p (butlast p)" using assms by (metis append_butlast_last_id not_Cons_self2 prefix_order.antisym prefixeq_butlast append_self_conv)
  moreover from this have "p \<noteq> butlast p" by (metis prefix_order.order_refl)
  ultimately show ?thesis using ensure_dir_keeps [of "butlast p" mode fs] unfolding only_new_dirs_def by blast
qed

text \<open>A save that fails leaves the file; one that succeeds leaves what will be loaded.\<close>

lemma save_config_cases:
  assumes env: "write_ok env" and p: "p \<noteq> []" and run: "save_config env c p fs = (r, fs')"
  shows "fs_open_ok fs' = fs_open_ok fs \<and> (r \<noteq> Inr () \<longrightarrow> fs_node fs' p = fs_node fs p)"
proof -
  obtain r1 u where u: "ensure_dir (butlast p) DIR_MODE fs = (r1, u)" by fastforce
  have keep: "fs_open_ok u = fs_open_ok fs" "fs_node u p = fs_node fs p"
    using ensure_dir_open [of "butlast p" DIR_MODE fs] ensure_parent_keeps [OF p, of DIR_MODE fs] u by simp_all
  show ?thesis
  proof (cases "r1 = Inr () \<and> \<not> is_link u p \<and> (\<exists>data. dump_toml (dump_config c) = Inr data)")
    case True
    then obtain data where "ce_write env p data FILE_MODE u = (r, fs')"
      using run u by (auto simp: save_config_def thenP_run reject_symlink_def bindP_lift)
    then show ?thesis using write_laws(1,2) [OF env] keep by metis
  next
    case False
    then have "fs' = u" "r \<noteq> Inr ()"
      using run u by (cases r1; cases "dump_toml (dump_config c)";
          auto simp: save_config_def thenP_run reject_symlink_def bindP_lift thenP_def bindP_def split: if_splits)+
    then show ?thesis using keep by simp
  qed
qed

lemma request_keeps_config:
  assumes "paths_sane ps" "request_factory_reset ps fs = (r, fs')"
  shows "fs_open_ok fs' = fs_open_ok fs \<and> fs_node fs' (config_file ps) = fs_node fs (config_file ps)"
proof -
  have sane: "\<forall>d \<in> set (managed_dirs ps). \<not> prefix (config_file ps) d" using assms(1) by (simp add: paths_sane_def list_all_iff)
  obtain x u where u: "ensure_paths ps fs = (x, u)" by fastforce
  have node: "fs_node u (config_file ps) = fs_node fs (config_file ps)"
  proof (cases "fs_node fs (config_file ps) = None")
    case True
    then show ?thesis using ensure_dirs_new [of "managed_dirs ps" fs x u] u sane by (simp add: ensure_paths_def)
  next
    case False
    moreover have "config_file ps \<notin> set (managed_dirs ps)" using sane by auto
    ultimately show ?thesis using ensure_dirs_keeps [of "managed_dirs ps" fs x u] u by (simp add: ensure_paths_def)
  qed
  have op: "fs_open_ok u = fs_open_ok fs" using ensure_dirs_open [of "managed_dirs ps" fs] u by (simp add: ensure_paths_def)
  have "marker_path ps \<noteq> config_file ps" by (simp add: marker_path_def config_file_def MARKER_NAME_def)
  then have "fs_open_ok fs' = fs_open_ok u \<and> fs_node fs' (config_file ps) = fs_node u (config_file ps)"
    using assms(2) u
    by (cases x) (auto simp: request_factory_reset_def thenP_def bindP_def reject_symlink_def write_text_def put_node_def
        split: option.splits node.splits if_splits)
  then show ?thesis using node op by simp
qed

text \<open>What holds after every action of the user.\<close>

definition view_ok :: "config_env \<Rightarrow> app_paths \<Rightarrow> settings_view \<Rightarrow> bool" where
  "view_ok env ps v \<longleftrightarrow> fs_open_ok (sv_fs v) (config_file ps) \<and>
     fst (load_config env (config_file ps) (sv_fs v)) = Inr (sv_saved v) \<and>
     storable env (sv_saved v) \<and> storable env (sv_pending v)"

lemma storable_default: "text_ok env \<Longrightarrow> storable env default_config"
proof -
  assume "text_ok env"
  then have "config_ok env default_config"
    using validated_ok [of env "[]"] by (simp add: validate_config_def with_default_def default_config_def Let_def)
  then show ?thesis by (simp add: storable_def texts_ok_def has_del_def config_texts_def default_config_def)
qed

lemma storable_fields:
  "storable env (c\<lparr>cfg_appearance := a\<rparr>) = storable env c" "storable env (c\<lparr>cfg_cipher := x\<rparr>) = storable env c"
  "storable env (c\<lparr>cfg_kdf_profile := k\<rparr>) = storable env c" "storable env (c\<lparr>cfg_high_contrast := b\<rparr>) = storable env c"
  "storable env (c\<lparr>cfg_reduce_motion := b\<rparr>) = storable env c" "storable env (c\<lparr>cfg_confirm_delete := b\<rparr>) = storable env c"
  "storable env (c\<lparr>cfg_audit := au\<rparr>) = storable env c" "storable env (c\<lparr>cfg_last_open_page := page\<rparr>) = storable env c"
  by (simp_all add: storable_def config_ok_def texts_ok_def has_del_def config_texts_def)

lemma storable_bounded:
  "storable env c \<Longrightarrow> storable env (c\<lparr>cfg_clipboard_seconds := max 0 (min 3600 n)\<rparr>)"
  "storable env c \<Longrightarrow> storable env (c\<lparr>cfg_reminder_days := max 1 (min 365 n)\<rparr>)"
  "storable env c \<Longrightarrow> validate_locale env l = Some l \<Longrightarrow> storable env (c\<lparr>cfg_locale := l\<rparr>)"
  by (auto simp: storable_def config_ok_def texts_ok_def has_del_def config_texts_def)

lemma setter_keeps:
  assumes "is_setter op"
  shows "sv_saved (settings_step env ps op v) = sv_saved v" "sv_fs (settings_step env ps op v) = sv_fs v"
  using assms by (cases op; simp add: setter_defs)+

lemma setter_ok:
  assumes "is_setter op" "op_ok env op" "view_ok env ps v"
  shows "view_ok env ps (settings_step env ps op v)"
proof -
  have "storable env (sv_pending (settings_step env ps op v))"
    using assms storable_bounded by (cases op) (auto simp: setter_defs view_ok_def storable_fields)
  then show ?thesis using assms(3) setter_keeps [OF assms(1)] by (simp add: view_ok_def)
qed

text \<open>Saving a configuration the file can hold.\<close>

lemma save_loads:
  assumes env: "config_env_ok env" and "storable env c" and "fs_open_ok fs (config_file ps)"
    and run: "save_config env c (config_file ps) fs = (r, fs')"
  shows "fs_open_ok fs' (config_file ps) \<and>
    (if r = Inr () then fst (load_config env (config_file ps) fs') = Inr c
     else fst (load_config env (config_file ps) fs') = fst (load_config env (config_file ps) fs))"
proof -
  have cases: "fs_open_ok fs' = fs_open_ok fs \<and> (r \<noteq> Inr () \<longrightarrow> fs_node fs' (config_file ps) = fs_node fs (config_file ps))"
    by (rule save_config_cases [OF config_env_laws(3) [OF env] _ run]) (simp add: config_file_def)
  show ?thesis
  proof (cases "r = Inr ()")
    case True
    then show ?thesis using saved_loads [OF env, of c "config_file ps" fs fs'] assms cases by (simp add: storable_def)
  next
    case False
    then show ?thesis using load_cong [of fs' "config_file ps" fs env] cases assms(3) by simp
  qed
qed

lemma step_ok:
  assumes env: "config_env_ok env" and sane: "paths_sane ps" and op: "op_ok env op" and v: "view_ok env ps v"
  shows "view_ok env ps (settings_step env ps op v)"
proof (cases "is_setter op")
  case False
  then consider (page) page where "op = PersistPage page" | (save) "op = SaveSettings" | (reset) "op = ScheduleReset"
    by (cases op) auto
  then show ?thesis
  proof cases
    case page
    let ?c = "(sv_saved v)\<lparr>cfg_last_open_page := page\<rparr>"
    obtain r fs where run: "save_config env ?c (config_file ps) (sv_fs v) = (r, fs)" by fastforce
    have "storable env ?c" using v by (simp add: view_ok_def storable_fields)
    from save_loads [OF env this _ run] show ?thesis
      using v run page
      by (cases r) (auto simp: view_ok_def persist_last_open_page_def Let_def emit_signal_def storable_fields)
  next
    case save
    obtain r fs where run: "save_config env (sv_pending v) (config_file ps) (sv_fs v) = (r, fs)" by fastforce
    from save_loads [OF env _ _ run] show ?thesis
      using v run save by (cases r) (auto simp: view_ok_def save_view_def emit_signal_def)
  next
    case reset
    obtain r fs where run: "request_factory_reset ps (sv_fs v) = (r, fs)" by fastforce
    have "fst (load_config env (config_file ps) fs) = fst (load_config env (config_file ps) (sv_fs v)) \<and> fs_open_ok fs = fs_open_ok (sv_fs v)"
      using request_keeps_config [OF sane run] load_cong [of fs "config_file ps" "sv_fs v" env] by simp
    then show ?thesis
      using v run reset storable_default [OF config_env_laws(1) [OF env]]
      by (cases r) (auto simp: view_ok_def schedule_factory_reset_def emit_signal_def)
  qed
qed (use setter_ok op v in blast)

lemma session_ok:
  assumes "config_env_ok env" "paths_sane ps"
  shows "list_all (op_ok env) ops \<Longrightarrow> view_ok env ps v \<Longrightarrow> view_ok env ps (settings_session env ps ops v)"
  unfolding settings_session_def by (induction ops arbitrary: v) (simp_all add: step_ok [OF assms])

lemma saved_page_only:
  assumes "SaveSettings \<notin> set ops"
  shows "\<exists>page. sv_saved (settings_session env ps ops v) = (sv_saved v)\<lparr>cfg_last_open_page := page\<rparr>"
  using assms unfolding settings_session_def
proof (induction ops arbitrary: v)
  case Nil
  then show ?case by (intro exI [of _ "cfg_last_open_page (sv_saved v)"]) simp
next
  case (Cons op ops)
  have "\<exists>page. sv_saved (settings_step env ps op v) = (sv_saved v)\<lparr>cfg_last_open_page := page\<rparr>"
  proof (cases "is_setter op")
    case True
    then show ?thesis using setter_keeps(1) [OF True] by (intro exI [of _ "cfg_last_open_page (sv_saved v)"]) simp
  next
    case False
    then show ?thesis using Cons.prems
      by (cases op) (auto simp: persist_last_open_page_def schedule_factory_reset_def emit_signal_def Let_def
          intro: exI [of _ "cfg_last_open_page (sv_saved v)"] split: prod.splits sum.splits)
  qed
  then obtain page where "sv_saved (settings_step env ps op v) = (sv_saved v)\<lparr>cfg_last_open_page := page\<rparr>" by blast
  moreover obtain page' where "sv_saved (fold (settings_step env ps) ops (settings_step env ps op v)) =
      (sv_saved (settings_step env ps op v))\<lparr>cfg_last_open_page := page'\<rparr>" using Cons by fastforce
  ultimately show ?case by auto
qed

section \<open>Properties\<close>

text \<open>
  C35. The settings on disk are the settings that were saved. A session starts from what was loaded;
  after any actions of the user, of which saves may fail anywhere, a new start would load exactly
  the settings the view model holds as saved, and what the user is editing can be saved as well.
  Edits reach the disk by saving alone: as long as nothing was saved, only the last open page
  differs from what was loaded.
\<close>

theorem settings_on_disk:
  assumes "config_env_ok env" and "paths_sane ps" and "load_config env (config_file ps) fs = (Inr c, fs')"
    and "fs_open_ok fs (config_file ps)" and "texts_ok c" and "\<not> has_del c" and "list_all (op_ok env) ops"
  shows "let v = settings_session env ps ops (new_view c fs') in
    fst (load_config env (config_file ps) (sv_fs v)) = Inr (sv_saved v) \<and> storable env (sv_pending v) \<and>
    (SaveSettings \<in> set ops \<or> (\<exists>page. sv_saved v = c\<lparr>cfg_last_open_page := page\<rparr>))"
proof -
  have "storable env c"
    using loaded_config_ok [OF config_env_laws(1) [OF assms(1)] assms(3)] assms(5,6) by (simp add: storable_def)
  then have "view_ok env ps (new_view c fs')"
    using load_again [OF assms(3)] assms(4) by (simp add: view_ok_def new_view_def)
  then have "view_ok env ps (settings_session env ps ops (new_view c fs'))"
    by (rule session_ok [OF assms(1,2,7)])
  moreover have "SaveSettings \<in> set ops \<or> (\<exists>page. sv_saved (settings_session env ps ops (new_view c fs')) = c\<lparr>cfg_last_open_page := page\<rparr>)"
    using saved_page_only [of ops env ps "new_view c fs'"] by (auto simp: new_view_def)
  ultimately show ?thesis by (simp add: view_ok_def Let_def)
qed

definition demo_ops :: "settings_op list" where
  "demo_ops = [SetHighContrast True, PersistPage PAGE_VAULT]"

theorem settings_on_disk_witness:
  "let v = settings_session demo_config_env demo_app demo_ops (new_view default_config demo_config_fs) in
     fst (load_config demo_config_env (config_file demo_app) (sv_fs v)) = Inr (sv_saved v) \<and>
     (\<exists>page. sv_saved v = default_config\<lparr>cfg_last_open_page := page\<rparr>)"
proof -
  have "load_config demo_config_env (config_file demo_app) demo_config_fs = (Inr default_config, demo_config_fs)"
    by (simp add: load_config_def path_exists_def demo_config_fs_def config_file_def demo_app_def)
  moreover have "paths_sane demo_app" by code_simp
  moreover have "fs_open_ok demo_config_fs (config_file demo_app)" by (simp add: demo_config_fs_def)
  moreover have "texts_ok default_config" "\<not> has_del default_config" "list_all (op_ok demo_config_env) demo_ops"
    by (simp_all add: texts_ok_def has_del_def config_texts_def default_config_def demo_ops_def)
  moreover have "SaveSettings \<notin> set demo_ops" by (simp add: demo_ops_def)
  ultimately show ?thesis
    using settings_on_disk [OF demo_config_env_ok, of demo_app demo_config_fs default_config demo_config_fs demo_ops]
    by (simp add: Let_def)
qed

end
