(* ===== verification/Environment_Check.thy ===== *)
theory Environment_Check
  imports App_Paths Gpg_Output
begin

text \<open>
  \<open>startup/environment_check.py\<close>: the checks of every start. The host is a snapshot of what the
  checks ask it: system calls, child processes, \<open>/proc/swaps\<close> and the block devices under
  \<open>/sys/class/block\<close>. The lemmas show that the search for a dm-crypt device ends and decides
  reachability, which swap counts as encrypted, and what a start that passed has established.
\<close>

section \<open>Results\<close>

datatype check_severity = SEVERITY_WARNING | SEVERITY_ERROR

record check_warning =
  cw_code :: str
  cw_message :: str
  cw_severity :: check_severity

text \<open>An \<open>EnvironmentCheckError\<close> with its code, or an exception nobody catches.\<close>

datatype env_failure =
    EnvironmentCheckError str
  | EnvUncaught exn

record check_result =
  cr_warnings :: "check_warning list"
  cr_gpg_version :: str
  cr_mlock_available :: bool
  cr_core_dumps_disabled :: bool
  cr_swap_encrypted :: "bool option"

definition warning :: "str \<Rightarrow> str \<Rightarrow> check_warning" where
  "warning c m = \<lparr>cw_code = c, cw_message = m, cw_severity = SEVERITY_WARNING\<rparr>"

definition severe :: "str \<Rightarrow> str \<Rightarrow> check_warning" where
  "severe c m = \<lparr>cw_code = c, cw_message = m, cw_severity = SEVERITY_ERROR\<rparr>"

lemma warning_code [simp]: "cw_code (warning c m) = c" "cw_code (severe c m) = c"
  by (simp_all add: warning_def severe_def)

definition REQUIRED_VERSION :: "nat list" where "REQUIRED_VERSION = [2, 2, 0]"
definition WARN_VERSION :: "nat list" where "WARN_VERSION = [2, 4, 0]"
definition MIN_MEMLOCK_BYTES :: int where "MIN_MEMLOCK_BYTES = 16 * 1024 * 1024"

definition REQUIRED_PACKAGES :: "str list" where
  "REQUIRED_PACKAGES = [''cryptography'', ''argon2'', ''pydantic'', ''msgpack'', ''structlog'', ''PySide6'']"

text \<open>What \<open>gpg --version\<close> comes to: it cannot be run, its output is not text, or it ran.\<close>

datatype version_run = RunFailed | RunUndecodable | Ran str str int

datatype uuid_file = NoUuid | UuidError | UuidText str

record env_host =
  eh_platform :: platform
  eh_resource :: bool
  eh_setrlimit :: bool
  eh_prctl :: "int option"
  eh_version :: version_run
  eh_package :: "str \<Rightarrow> bool"
  eh_memlock :: "int option"
  eh_infinity :: int
  eh_mlock :: "int option"
  eh_mlock_libc6 :: "int option"
  eh_swaps :: "str option"
  eh_is_block :: "str \<Rightarrow> bool"
  eh_block_name :: "str \<Rightarrow> str"
  eh_uuid :: "str \<Rightarrow> uuid_file"
  eh_slaves :: "str \<Rightarrow> str list option"
  eh_blocks :: "str list"
  eh_fdesetup :: bool
  eh_fdesetup_out :: "str option"

section \<open>Core dumps and GnuPG's version\<close>

definition disable_core_dumps :: "env_host \<Rightarrow> bool" where
  "disable_core_dumps h =
     (let ok = (if eh_resource h then eh_setrlimit h else True) in
      if eh_platform h = Linux then eh_prctl h = Some 0 \<and> ok else ok)"

text \<open>\<open>\d+\<close> and what follows; the search for \<open>GnuPG\)?\s+(\d+\.\d+\.\d+)\<close>.\<close>

definition digits :: "str \<Rightarrow> (str \<times> str) option" where
  "digits s = (let d = takeWhile is_digit s in if d = [] then None else Some (d, dropWhile is_digit s))"

definition dot :: "str \<Rightarrow> str option" where
  "dot s = (case s of c # cs \<Rightarrow> if c = CHR ''.'' then Some cs else None | [] \<Rightarrow> None)"

definition version_number :: "str \<Rightarrow> str list option" where
  "version_number s =
     Option.bind (digits s) (\<lambda>(a, s). Option.bind (dot s) (\<lambda>s.
     Option.bind (digits s) (\<lambda>(b, s). Option.bind (dot s) (\<lambda>s.
     Option.bind (digits s) (\<lambda>(c, s). Some [a, b, c])))))"

definition version_at :: "str \<Rightarrow> str list option" where
  "version_at s =
     (if \<not> prefix ''GnuPG'' s then None
      else (let r = drop 5 s; r = (if r \<noteq> [] \<and> hd r = CHR '')'' then tl r else r) in
            if r \<noteq> [] \<and> is_space (hd r) then version_number (dropWhile is_space r) else None))"

fun find_version :: "str \<Rightarrow> str list option" where
  "find_version [] = None"
| "find_version (c # cs) = (case version_at (c # cs) of Some v \<Rightarrow> Some v | None \<Rightarrow> find_version cs)"

text \<open>\<open>int(x)\<close> refuses more than 4300 digits; tuples are compared from the left.\<close>

definition MAX_INT_DIGITS :: nat where "MAX_INT_DIGITS = 4300"

fun tuple_less :: "nat list \<Rightarrow> nat list \<Rightarrow> bool" where
  "tuple_less (a # as) (b # bs) \<longleftrightarrow> a < b \<or> (a = b \<and> tuple_less as bs)"
| "tuple_less [] bs \<longleftrightarrow> bs \<noteq> []"
| "tuple_less as [] \<longleftrightarrow> False"

definition version_parts :: "str list \<Rightarrow> nat list" where
  "version_parts v = map digits_val v"

definition check_gpg_version :: "env_host \<Rightarrow> env_failure + str list" where
  "check_gpg_version h = (case eh_version h of
       RunFailed \<Rightarrow> Inl (EnvironmentCheckError ''gpg_version_check_failed'')
     | RunUndecodable \<Rightarrow> Inl (EnvUncaught UnicodeError)
     | Ran out err status \<Rightarrow>
         if status \<noteq> 0 then Inl (EnvironmentCheckError ''gpg_version_check_failed'')
         else (case find_version (out @ CHR 0x0A # err) of
             None \<Rightarrow> Inl (EnvironmentCheckError ''gpg_version_parse_failed'')
           | Some v \<Rightarrow>
               if \<not> list_all (\<lambda>d. length d \<le> MAX_INT_DIGITS) v then Inl (EnvUncaught ValueError)
               else if tuple_less (version_parts v) REQUIRED_VERSION then Inl (EnvironmentCheckError ''gpg_version_too_old'')
               else Inr v))"

section \<open>Directories, configuration and packages\<close>

definition dir_text :: "path \<Rightarrow> str" where
  "dir_text p = CHR ''/'' # join_with ''/'' p"

definition check_app_directories :: "app_paths \<Rightarrow> (file_system, check_warning list) prog" where
  "check_app_directories ps = thenP (ensure_paths ps) (getP (\<lambda>fs.
     map (\<lambda>d. warning ''dir_permissions'' (''Directory '' @ dir_text d @
       '' is readable by others. Consider restricting permissions to 0700.''))
     (filter (\<lambda>d. \<not> is_safe_for_secrets fs d) [config_dir ps, data_dir ps, state_dir ps])))"

definition check_config_permissions :: "file_system \<Rightarrow> path \<Rightarrow> check_warning list" where
  "check_config_permissions fs p =
     (let status = pr_status (permission_report_of fs p) in
      if \<not> path_exists fs p then []
      else if status \<in> {SYMLINK, WORLD_WRITABLE, GROUP_WRITABLE} then
        [severe ''config_unsafe_permissions'' (''Config file '' @ dir_text p @ '' is unsafe ('' @ permission_value status @ ''). Refusing to trust it; fix ownership/path and run: chmod 600 '' @ dir_text p)]
      else if status \<in> {WORLD_READABLE, GROUP_READABLE} then
        [severe ''config_readable_by_others'' (''Config file '' @ dir_text p @ '' is readable by other users. Run: chmod 600 '' @ dir_text p)]
      else [])"

definition check_required_packages :: "env_host \<Rightarrow> check_warning list" where
  "check_required_packages h =
     (let missing = filter (\<lambda>p. \<not> eh_package h p) REQUIRED_PACKAGES in
      if missing \<noteq> [] then
        [severe ''missing_packages'' (''Required packages not found: '' @ join_with '', '' missing @ ''. Re-run: uv sync'')]
      else [])"

section \<open>Locked memory\<close>

definition memlock_hard_limit :: "env_host \<Rightarrow> int option" where
  "memlock_hard_limit h =
     (if \<not> eh_resource h then None
      else (case eh_memlock h of None \<Rightarrow> None | Some hard \<Rightarrow> if hard = eh_infinity h then None else Some hard))"

definition check_mlock :: "env_host \<Rightarrow> bool" where
  "check_mlock h =
     (if eh_platform h = Win32 then False
      else if (case memlock_hard_limit h of None \<Rightarrow> False | Some l \<Rightarrow> l < MIN_MEMLOCK_BYTES) then False
      else (case eh_mlock h of Some r \<Rightarrow> r = 0 | None \<Rightarrow> eh_mlock_libc6 h = Some 0))"

definition check_memlock_limit :: "env_host \<Rightarrow> check_warning list" where
  "check_memlock_limit h =
     (if eh_platform h = Win32 then []
      else (case memlock_hard_limit h of
          None \<Rightarrow> []
        | Some l \<Rightarrow> if MIN_MEMLOCK_BYTES \<le> l then [] else [warning ''memlock_limit_low''
            ''The OS memlock limit is below 16 MiB. Large decrypted messages or vault data may remain pageable even though small mlock probes can succeed.'']))"

section \<open>Encrypted swap\<close>

text \<open>
  The depth-first search through \<open>slaves\<close>, with the set of names seen so far, which all branches
  share. The fuel bounds the depth.
\<close>

fun chain_has_crypt :: "nat \<Rightarrow> env_host \<Rightarrow> str \<Rightarrow> str set \<Rightarrow> (bool \<times> str set) option"
  and any_chain :: "nat \<Rightarrow> env_host \<Rightarrow> str list \<Rightarrow> str set \<Rightarrow> (bool \<times> str set) option" where
  "chain_has_crypt 0 h b seen = None"
| "chain_has_crypt (Suc n) h b seen =
     (if b \<in> seen then Some (False, seen)
      else (case eh_uuid h b of
          UuidError \<Rightarrow> Some (False, insert b seen)
        | UuidText u \<Rightarrow>
            if prefix ''CRYPT-'' (strip u) then Some (True, insert b seen)
            else (case eh_slaves h b of None \<Rightarrow> Some (False, insert b seen) | Some ss \<Rightarrow> any_chain n h ss (insert b seen))
        | NoUuid \<Rightarrow> (case eh_slaves h b of None \<Rightarrow> Some (False, insert b seen) | Some ss \<Rightarrow> any_chain n h ss (insert b seen))))"
| "any_chain n h [] seen = Some (False, seen)"
| "any_chain n h (s # ss) seen = (case chain_has_crypt n h s seen of
       None \<Rightarrow> None
     | Some (found, seen') \<Rightarrow> if found then Some (True, seen') else any_chain n h ss seen')"

definition is_dm_crypt_device :: "env_host \<Rightarrow> str \<Rightarrow> bool" where
  "is_dm_crypt_device h d =
     (case chain_has_crypt (length (eh_blocks h) + 2) h (eh_block_name h d) {} of Some (r, _) \<Rightarrow> r | None \<Rightarrow> False)"

definition swap_devices :: "str \<Rightarrow> str list" where
  "swap_devices content = map (\<lambda>l. hd (words l)) (filter (\<lambda>l. strip l \<noteq> []) (tl (splitlines content)))"

definition swap_files :: "env_host \<Rightarrow> str list \<Rightarrow> str list" where
  "swap_files h ds = filter (\<lambda>d. \<not> eh_is_block h d) ds"

definition unencrypted_swap :: "env_host \<Rightarrow> str list \<Rightarrow> str list" where
  "unencrypted_swap h ds = filter (\<lambda>d. eh_is_block h d \<and> \<not> is_dm_crypt_device h d \<and>
     \<not> (prefix ''/dev/zram'' d \<or> contains ''/dev/zram'' d)) ds"

definition check_swap_linux :: "env_host \<Rightarrow> bool option \<times> check_warning list" where
  "check_swap_linux h = (case eh_swaps h of
       None \<Rightarrow> (None, [])
     | Some content \<Rightarrow>
         let ds = swap_devices content; un = unencrypted_swap h ds; files = swap_files h ds;
             ws = (if un \<noteq> [] then [warning ''swap_not_encrypted'' (''Swap partition(s) appear unencrypted: '' @ join_with '', '' un @
                     ''. Private key material may be paged to disk. Consider using an encrypted swap or disabling swap.'')] else []) @
                  (if files \<noteq> [] then [warning ''swap_file_unverified'' (''Swap file(s) detected: '' @ join_with '', '' files @
                     ''. Encryption status cannot be verified. Private key material may be paged to an unencrypted swap file.'')] else []) in
         if ds = [] then (Some True, []) else if ws \<noteq> [] then (Some False, ws) else (Some True, []))"

definition check_swap_macos :: "env_host \<Rightarrow> bool option \<times> check_warning list" where
  "check_swap_macos h =
     (if \<not> eh_fdesetup h then (None, [])
      else (case eh_fdesetup_out h of
          None \<Rightarrow> (None, [])
        | Some out \<Rightarrow>
            if contains ''FileVault is On'' out then (Some True, [])
            else (Some False, [warning ''filevault_off'' ''FileVault is not enabled. The swap partition is not encrypted.''])))"

definition check_swap_encryption :: "env_host \<Rightarrow> bool option \<times> check_warning list" where
  "check_swap_encryption h = (case eh_platform h of
       Linux \<Rightarrow> check_swap_linux h
     | Darwin \<Rightarrow> check_swap_macos h
     | Win32 \<Rightarrow> (None, [warning ''swap_not_verified''
         ''Windows page-file contents are not encrypted unless BitLocker protects the system volume.'']))"

section \<open>All checks\<close>

definition core_dump_warning :: check_warning where
  "core_dump_warning = warning ''core_dumps_enabled''
     ''Core dumps could not be disabled for this process. If this host can produce core dumps, a crash could persist decrypted secrets to disk. Consider disabling core dumps system-wide (e.g. ulimit -c 0).''"

definition old_version_warning :: "str list \<Rightarrow> check_warning" where
  "old_version_warning v = warning ''gpg_version_old'' (''GnuPG '' @ join_with ''.'' v @
     '' is below 2.4.0. Kyber/PQC subkey support and several stability fixes require a newer version.'')"

definition run_all_checks :: "env_host \<Rightarrow> app_paths \<Rightarrow> file_system \<Rightarrow> (env_failure + check_result) \<times> file_system" where
  "run_all_checks h ps fs = (case check_gpg_version h of
       Inl e \<Rightarrow> (Inl e, fs)
     | Inr v \<Rightarrow> (case check_app_directories ps fs of
           (Inl e, fs') \<Rightarrow> (Inl (EnvUncaught e), fs')
         | (Inr dir_warnings, fs') \<Rightarrow>
             (Inr \<lparr>cr_warnings =
                 (if disable_core_dumps h then [] else [core_dump_warning]) @
                 (if tuple_less (version_parts v) WARN_VERSION then [old_version_warning v] else []) @
                 dir_warnings @ check_config_permissions fs' (config_file ps) @ check_required_packages h @
                 check_memlock_limit h @ snd (check_swap_encryption h),
               cr_gpg_version = join_with ''.'' v, cr_mlock_available = check_mlock h,
               cr_core_dumps_disabled = disable_core_dumps h, cr_swap_encrypted = fst (check_swap_encryption h)\<rparr>, fs')))"

section \<open>The search\<close>

definition is_crypt :: "env_host \<Rightarrow> str \<Rightarrow> bool" where
  "is_crypt h b \<longleftrightarrow> (case eh_uuid h b of UuidText u \<Rightarrow> prefix ''CRYPT-'' (strip u) | _ \<Rightarrow> False)"

text \<open>The devices below a device that the program can read.\<close>

definition below :: "env_host \<Rightarrow> str \<Rightarrow> str list" where
  "below h b = (if eh_uuid h b = UuidError then [] else case eh_slaves h b of None \<Rightarrow> [] | Some ss \<Rightarrow> ss)"

lemma chain_step:
  "chain_has_crypt (Suc n) h b seen =
     (if b \<in> seen then Some (False, seen)
      else if is_crypt h b then Some (True, insert b seen)
      else any_chain n h (below h b) (insert b seen))"
  by (auto simp: is_crypt_def below_def split: uuid_file.splits option.splits)

declare chain_has_crypt.simps(2) [simp del]
declare chain_step [simp]

definition reaches :: "env_host \<Rightarrow> str \<Rightarrow> str \<Rightarrow> bool" where
  "reaches h = (\<lambda>a b. b \<in> set (below h a))\<^sup>*\<^sup>*"

definition closed_except :: "env_host \<Rightarrow> str set \<Rightarrow> str set \<Rightarrow> bool" where
  "closed_except h old seen \<longleftrightarrow> old \<subseteq> seen \<and> (\<forall>b \<in> seen - old. \<not> is_crypt h b \<and> set (below h b) \<subseteq> seen)"

lemma closed_except_refl [simp]: "closed_except h seen seen"
  by (simp add: closed_except_def)

lemma closed_except_trans: "closed_except h a b \<Longrightarrow> closed_except h b c \<Longrightarrow> closed_except h a c"
  unfolding closed_except_def by blast

text \<open>
  Both results of the search: a device that is found is reachable, and what was searched without
  finding one is closed.
\<close>

definition search_ok :: "env_host \<Rightarrow> str list \<Rightarrow> str set \<Rightarrow> bool \<times> str set \<Rightarrow> bool" where
  "search_ok h ss seen = (\<lambda>(r, seen').
     if r then \<exists>s \<in> set ss. \<exists>c. reaches h s c \<and> is_crypt h c
     else set ss \<subseteq> seen' \<and> closed_except h seen seen')"

lemma any_chain_ok:
  assumes "\<And>b seen x. chain_has_crypt n h b seen = Some x \<Longrightarrow> search_ok h [b] seen x"
  shows "any_chain n h ss seen = Some x \<Longrightarrow> search_ok h ss seen x"
proof (induction ss arbitrary: seen)
  case Nil
  then show ?case by (auto simp: search_ok_def)
next
  case (Cons s ss)
  obtain r seen1 where r: "chain_has_crypt n h s seen = Some (r, seen1)"
    using Cons.prems by (auto split: option.splits)
  note s_ok = assms [OF r]
  show ?case
  proof (cases r)
    case True
    then show ?thesis using Cons.prems r s_ok by (auto simp: search_ok_def)
  next
    case False
    then have "search_ok h ss seen1 x" using Cons r by simp
    then show ?thesis
      using s_ok False closed_except_trans [of h seen seen1 "snd x"]
      by (auto simp: search_ok_def split: prod.splits if_splits) (auto simp: closed_except_def)
  qed
qed

lemma chain_ok: "chain_has_crypt n h b seen = Some x \<Longrightarrow> search_ok h [b] seen x"
proof (induction n arbitrary: b seen x)
  case (Suc n)
  show ?case
  proof (cases "b \<in> seen \<or> is_crypt h b")
    case True
    then show ?thesis using Suc.prems by (auto simp: search_ok_def reaches_def split: if_splits)
  next
    case False
    then have "search_ok h (below h b) (insert b seen) x"
      using Suc any_chain_ok [of n h] by simp
    moreover have "reaches h b c" if "s \<in> set (below h b)" "reaches h s c" for s c
      using that unfolding reaches_def by (rule converse_rtranclp_into_rtranclp)
    ultimately show ?thesis
      using False by (auto simp: search_ok_def closed_except_def split: prod.splits if_splits)
  qed
qed simp

text \<open>Every name is entered once, so a depth of the number of devices suffices.\<close>

definition blocks_ok :: "env_host \<Rightarrow> bool" where
  "blocks_ok h \<longleftrightarrow> (\<forall>b ss. eh_slaves h b = Some ss \<longrightarrow> set ss \<subseteq> set (eh_blocks h))"

lemma below_blocks: "blocks_ok h \<Longrightarrow> set (below h b) \<subseteq> set (eh_blocks h)"
  by (cases "eh_slaves h b") (auto simp: blocks_ok_def below_def)

lemma any_chain_grows:
  assumes "\<And>b seen r t. chain_has_crypt n h b seen = Some (r, t) \<Longrightarrow> seen \<subseteq> t"
  shows "any_chain n h ss seen = Some (r, t) \<Longrightarrow> seen \<subseteq> t"
  using assms by (induction ss arbitrary: seen) (fastforce split: option.splits prod.splits if_splits)+

lemma chain_grows: "chain_has_crypt n h b seen = Some (r, t) \<Longrightarrow> seen \<subseteq> t"
proof (induction n arbitrary: b seen r t)
  case (Suc n)
  show ?case
  proof (cases "b \<in> seen \<or> is_crypt h b")
    case False
    then have "any_chain n h (below h b) (insert b seen) = Some (r, t)" using Suc.prems by simp
    then have "insert b seen \<subseteq> t" by (rule any_chain_grows [rotated]) (rule Suc.IH)
    then show ?thesis by blast
  qed (use Suc.prems in \<open>auto split: if_splits\<close>)
qed simp

lemma any_chain_returns:
  assumes "\<And>b seen. b \<in> U \<Longrightarrow> card (U - seen) < n \<Longrightarrow> chain_has_crypt n h b seen \<noteq> None" "finite U"
  shows "set ss \<subseteq> U \<Longrightarrow> card (U - seen) < n \<Longrightarrow> any_chain n h ss seen \<noteq> None"
proof (induction ss arbitrary: seen)
  case (Cons s ss)
  obtain r t where r: "chain_has_crypt n h s seen = Some (r, t)"
    using assms(1) [of s seen] Cons.prems by auto
  then have "card (U - t) \<le> card (U - seen)"
    using chain_grows [OF r] assms(2) by (intro card_mono) auto
  then have "any_chain n h ss t \<noteq> None" using Cons.IH [of t] Cons.prems by simp
  then show ?case using r by (cases r) auto
qed simp

lemma chain_returns:
  assumes "blocks_ok h" "finite U" "set (eh_blocks h) \<subseteq> U"
  shows "b \<in> U \<Longrightarrow> card (U - seen) < n \<Longrightarrow> chain_has_crypt n h b seen \<noteq> None"
proof (induction n arbitrary: b seen)
  case (Suc n)
  show ?case
  proof (cases "b \<in> seen \<or> is_crypt h b")
    case False
    have "U - insert b seen \<subset> U - seen" using False Suc.prems(1) by auto
    then have "card (U - insert b seen) < card (U - seen)" using assms(2) by (intro psubset_card_mono) auto
    then have "card (U - insert b seen) < n" using Suc.prems(2) by simp
    moreover have "set (below h b) \<subseteq> U" using below_blocks [OF assms(1)] assms(3) by blast
    ultimately have "any_chain n h (below h b) (insert b seen) \<noteq> None"
      using any_chain_returns [OF Suc.IH assms(2)] by blast
    then show ?thesis using False by simp
  qed auto
qed simp

lemma search_returns:
  assumes "blocks_ok h"
  shows "\<exists>r seen. chain_has_crypt (length (eh_blocks h) + 2) h b {} = Some (r, seen)"
proof -
  let ?U = "insert b (set (eh_blocks h))"
  have "card ?U \<le> length (eh_blocks h) + 1"
    using card_length [of "eh_blocks h"] by (simp add: card_insert_if)
  then show ?thesis
    using chain_returns [OF assms, of ?U b "{}" "length (eh_blocks h) + 2"] by (auto simp: subset_insertI)
qed

lemma search_decides:
  assumes "blocks_ok h"
  obtains r seen where "chain_has_crypt (length (eh_blocks h) + 2) h b {} = Some (r, seen)"
    "r \<longleftrightarrow> (\<exists>c. reaches h b c \<and> is_crypt h c)"
proof -
  obtain r seen where r: "chain_has_crypt (length (eh_blocks h) + 2) h b {} = Some (r, seen)"
    using search_returns [OF assms] by blast
  note ok = chain_ok [OF r]
  have "\<not> (reaches h b c \<and> is_crypt h c)" if "\<not> r" for c
  proof -
    have closed: "b \<in> seen" "\<forall>a \<in> seen. \<not> is_crypt h a \<and> set (below h a) \<subseteq> seen"
      using ok that by (auto simp: search_ok_def closed_except_def)
    have "reaches h b c \<Longrightarrow> c \<in> seen"
      unfolding reaches_def by (induction rule: rtranclp_induct) (use closed in auto)
    then show ?thesis using closed by blast
  qed
  then show ?thesis using r ok that by (cases r) (auto simp: search_ok_def)
qed

lemma is_dm_crypt_iff:
  assumes "blocks_ok h"
  shows "is_dm_crypt_device h d \<longleftrightarrow> (\<exists>c. reaches h (eh_block_name h d) c \<and> is_crypt h c)"
proof -
  obtain r seen where "chain_has_crypt (length (eh_blocks h) + 2) h (eh_block_name h d) {} = Some (r, seen)"
    "r \<longleftrightarrow> (\<exists>c. reaches h (eh_block_name h d) c \<and> is_crypt h c)"
    using search_decides [OF assms] by blast
  then show ?thesis by (simp only: is_dm_crypt_device_def option.case prod.case)
qed

section \<open>What a start has established\<close>

definition swap_safe :: "env_host \<Rightarrow> str \<Rightarrow> bool" where
  "swap_safe h d \<longleftrightarrow> eh_is_block h d \<and>
     ((\<exists>c. reaches h (eh_block_name h d) c \<and> is_crypt h c) \<or> contains ''/dev/zram'' d)"

lemma prefix_contains: "prefix p s \<Longrightarrow> contains p s"
  by (cases s) auto

lemma swap_lists:
  assumes "blocks_ok h"
  shows "unencrypted_swap h ds = [] \<and> swap_files h ds = [] \<longleftrightarrow> (\<forall>d \<in> set ds. swap_safe h d)"
  using prefix_contains is_dm_crypt_iff [OF assms]
  by (auto simp: unencrypted_swap_def swap_files_def swap_safe_def filter_empty_conv)

lemma no_dir_warnings:
  "check_app_directories ps fs = (Inr ws, fs') \<Longrightarrow> ws = [] \<and> ensure_paths ps fs = (Inr (), fs')"
proof -
  assume a: "check_app_directories ps fs = (Inr ws, fs')"
  then have e: "ensure_paths ps fs = (Inr (), fs')"
    by (auto simp: check_app_directories_def thenP_eq_Inr)
  have "\<forall>d \<in> {config_dir ps, data_dir ps, state_dir ps}. is_safe_for_secrets fs' d"
    using ensure_paths_safe [OF e] by (auto simp: managed_dirs_def)
  then show ?thesis using a e by (auto simp: check_app_directories_def thenP_eq_Inr)
qed

lemma accepted_version:
  assumes "check_gpg_version h = Inr v"
  shows "length v = 3 \<and> \<not> tuple_less (version_parts v) REQUIRED_VERSION"
proof -
  have number: "version_number s = Some w \<Longrightarrow> length w = 3" for s w
    by (auto simp: version_number_def Option.bind_eq_Some_conv)
  have "version_at s = Some w \<Longrightarrow> \<exists>t. version_number t = Some w" for s w
    unfolding version_at_def Let_def by (simp split: if_splits) blast+
  then have at: "version_at s = Some w \<Longrightarrow> length w = 3" for s w using number by blast
  have "find_version s = Some w \<Longrightarrow> length w = 3" for s w
    by (induction s) (use at in \<open>auto split: option.splits\<close>)
  then show ?thesis
    using assms by (auto simp: check_gpg_version_def split: version_run.splits option.splits if_splits)
qed

text \<open>The codes of the warnings of each check.\<close>

lemma swap_linux_codes:
  "w \<in> set (snd (check_swap_linux h)) \<Longrightarrow> cw_code w \<in> {''swap_not_encrypted'', ''swap_file_unverified''}"
  unfolding check_swap_linux_def Let_def by (cases "eh_swaps h") (auto split: if_splits)

lemma swap_codes:
  "w \<in> set (snd (check_swap_encryption h)) \<Longrightarrow>
     cw_code w \<in> {''swap_not_encrypted'', ''swap_file_unverified'', ''filevault_off'', ''swap_not_verified''}"
proof (cases "eh_platform h")
  case Linux
  assume "w \<in> set (snd (check_swap_encryption h))"
  then have "w \<in> set (snd (check_swap_linux h))" by (simp add: check_swap_encryption_def Linux)
  then show ?thesis using swap_linux_codes by blast
next
  case Darwin
  assume "w \<in> set (snd (check_swap_encryption h))"
  then show ?thesis unfolding check_swap_encryption_def check_swap_macos_def
    by (cases "eh_fdesetup_out h") (auto simp: Darwin split: if_splits)
qed (simp add: check_swap_encryption_def)

lemma config_codes:
  "w \<in> set (check_config_permissions fs p) \<Longrightarrow> cw_code w \<in> {''config_unsafe_permissions'', ''config_readable_by_others''}"
  unfolding check_config_permissions_def Let_def by (auto split: if_splits)

lemma other_codes:
  "w \<in> set (check_required_packages h) \<Longrightarrow> cw_code w = ''missing_packages''"
  "w \<in> set (check_memlock_limit h) \<Longrightarrow> cw_code w = ''memlock_limit_low''"
  "cw_code core_dump_warning = ''core_dumps_enabled''"
  "cw_code (old_version_warning v) = ''gpg_version_old''"
  unfolding check_required_packages_def check_memlock_limit_def core_dump_warning_def old_version_warning_def Let_def
  by (auto split: if_splits option.splits)

lemma swap_reported:
  assumes "fst (check_swap_encryption h) = Some False"
  shows "\<exists>w \<in> set (snd (check_swap_encryption h)). cw_code w \<in> {''swap_not_encrypted'', ''swap_file_unverified'', ''filevault_off''}"
proof (cases "snd (check_swap_encryption h)")
  case Nil
  then show ?thesis using assms
    unfolding check_swap_encryption_def check_swap_linux_def check_swap_macos_def Let_def
    by (auto split: platform.splits option.splits if_splits)
next
  case (Cons w ws)
  have "cw_code w \<noteq> ''swap_not_verified''"
  proof (cases "eh_platform h")
    case Linux
    then have "w \<in> set (snd (check_swap_linux h))" using Cons by (simp add: check_swap_encryption_def)
    then show ?thesis using swap_linux_codes [of w h] by auto
  next
    case Darwin
    then show ?thesis using Cons unfolding check_swap_encryption_def check_swap_macos_def
      by (cases "eh_fdesetup_out h") (auto split: if_splits)
  qed (use assms in \<open>simp add: check_swap_encryption_def\<close>)
  then show ?thesis using Cons swap_codes [of w h] by auto
qed

lemma ensure_paths_frame:
  "ensure_paths ps fs = (r, fs') \<Longrightarrow> fs_node fs q \<noteq> None \<Longrightarrow> q \<notin> set (managed_dirs ps) \<Longrightarrow> fs_node fs' q = fs_node fs q"
  unfolding ensure_paths_def by (rule ensure_dirs_keeps)

text \<open>What a run that passes is made of, and the codes its warnings can have.\<close>

lemma checked_run:
  assumes "run_all_checks h ps fs = (Inr r, fs')"
  obtains v where "check_gpg_version h = Inr v" "ensure_paths ps fs = (Inr (), fs')"
    "cr_warnings r = (if disable_core_dumps h then [] else [core_dump_warning]) @
      (if tuple_less (version_parts v) WARN_VERSION then [old_version_warning v] else []) @
      check_config_permissions fs' (config_file ps) @ check_required_packages h @
      check_memlock_limit h @ snd (check_swap_encryption h)"
    "cr_gpg_version r = join_with ''.'' v" "cr_core_dumps_disabled r = disable_core_dumps h"
    "cr_swap_encrypted r = fst (check_swap_encryption h)"
proof -
  obtain v where v: "check_gpg_version h = Inr v" using assms by (auto simp: run_all_checks_def split: sum.splits)
  obtain ws where d: "check_app_directories ps fs = (Inr ws, fs')"
    using assms v by (auto simp: run_all_checks_def split: sum.splits prod.splits)
  from no_dir_warnings [OF d] show ?thesis using assms v d by (intro that [of v]) (auto simp: run_all_checks_def)
qed

lemma no_dir_permissions:
  assumes "w \<in> set ((if disable_core_dumps h then [] else [core_dump_warning]) @
      (if tuple_less (version_parts v) WARN_VERSION then [old_version_warning v] else []) @
      check_config_permissions fs p @ check_required_packages h @ check_memlock_limit h @ snd (check_swap_encryption h))"
  shows "cw_code w \<noteq> ''dir_permissions''"
proof -
  consider "w = core_dump_warning" | "w = old_version_warning v" | "w \<in> set (check_config_permissions fs p)"
    | "w \<in> set (check_required_packages h)" | "w \<in> set (check_memlock_limit h)" | "w \<in> set (snd (check_swap_encryption h))"
    using assms by (auto split: if_splits)
  then show ?thesis
  proof cases
    case 3
    then show ?thesis using config_codes [OF 3] by auto
  next
    case 4
    show ?thesis unfolding other_codes(1) [OF 4] by simp
  next
    case 5
    show ?thesis unfolding other_codes(2) [OF 5] by simp
  next
    case 6
    then show ?thesis using swap_codes [OF 6] by auto
  qed (simp_all only: other_codes(3,4), simp_all)
qed

section \<open>Properties\<close>

text \<open>
  C32. The search for a dm-crypt device ends and decides reachability: for a device whose chain
  of underlying devices is finite it returns, though names may repeat and form cycles, and it
  says yes exactly when some device on or below it that the program can read has a \<open>CRYPT-\<close>
  UUID. On Linux swap counts as encrypted, without a warning, exactly when every active swap is a
  block device of that kind or compressed memory.
\<close>

theorem swap_check_decides:
  assumes "blocks_ok h" and "eh_swaps h = Some content"
  shows "(\<exists>r seen. chain_has_crypt (length (eh_blocks h) + 2) h b {} = Some (r, seen) \<and>
      (r \<longleftrightarrow> (\<exists>c. reaches h b c \<and> is_crypt h c))) \<and>
    (check_swap_linux h = (Some True, []) \<longleftrightarrow> (\<forall>d \<in> set (swap_devices content). swap_safe h d)) \<and>
    (check_swap_linux h = (Some True, []) \<or> fst (check_swap_linux h) = Some False \<and> snd (check_swap_linux h) \<noteq> [])"
proof (intro conjI)
  show "\<exists>r seen. chain_has_crypt (length (eh_blocks h) + 2) h b {} = Some (r, seen) \<and>
      (r \<longleftrightarrow> (\<exists>c. reaches h b c \<and> is_crypt h c))"
    using search_decides [OF assms(1), of b] by blast
  show "check_swap_linux h = (Some True, []) \<longleftrightarrow> (\<forall>d \<in> set (swap_devices content). swap_safe h d)"
    using swap_lists [OF assms(1), of "swap_devices content"] assms(2)
    by (auto simp: check_swap_linux_def Let_def unencrypted_swap_def swap_files_def)
  show "check_swap_linux h = (Some True, []) \<or> fst (check_swap_linux h) = Some False \<and> snd (check_swap_linux h) \<noteq> []"
    using assms(2) by (auto simp: check_swap_linux_def Let_def)
qed

text \<open>A mirror or stripe over one encrypted and one plain device counts as encrypted.\<close>

definition demo_env_host :: env_host where
  "demo_env_host = \<lparr>eh_platform = Linux, eh_resource = True, eh_setrlimit = True, eh_prctl = Some 0,
     eh_version = Ran ''gpg (GnuPG) 2.4.5'' [] 0, eh_package = (\<lambda>_. True), eh_memlock = Some (- 1), eh_infinity = - 1,
     eh_mlock = Some 0, eh_mlock_libc6 = None, eh_swaps = Some (''Filename Type'' @ CHR 0x0A # ''/dev/md0 partition 1''),
     eh_is_block = (\<lambda>d. prefix ''/dev/'' d), eh_block_name = (\<lambda>d. drop 5 d),
     eh_uuid = (\<lambda>b. if b = ''dm-0'' then UuidText ''CRYPT-LUKS2-x'' else NoUuid),
     eh_slaves = (\<lambda>b. if b = ''md0'' then Some [''sda1'', ''dm-0''] else Some []), eh_blocks = [''md0'', ''sda1'', ''dm-0''],
     eh_fdesetup = False, eh_fdesetup_out = None\<rparr>"

lemma half_encrypted_passes: "check_swap_linux demo_env_host = (Some True, [])"
  by code_simp

theorem swap_check_decides_witness:
  "swap_devices (''Filename Type'' @ CHR 0x0A # ''/dev/md0 partition 1'') = [''/dev/md0''] \<and> swap_safe demo_env_host ''/dev/md0''"
proof -
  have d: "swap_devices (''Filename Type'' @ CHR 0x0A # ''/dev/md0 partition 1'') = [''/dev/md0'']" by code_simp
  have b: "blocks_ok demo_env_host" by (auto simp: blocks_ok_def demo_env_host_def split: if_splits)
  have "eh_swaps demo_env_host = Some (''Filename Type'' @ CHR 0x0A # ''/dev/md0 partition 1'')"
    by (simp add: demo_env_host_def)
  from swap_check_decides [OF b this] half_encrypted_passes d show ?thesis by simp
qed

text \<open>
  C33. A start that passes its checks runs GnuPG 2.2.0 or newer and has the six directories of
  the program as private directories; nothing that existed elsewhere has changed. So the warning
  about directories others can read is never given. Core dumps, an old version and swap that may
  leak are each reported, or there is nothing to report.
\<close>

theorem checked_start:
  assumes "run_all_checks h ps fs = (Inr r, fs')"
  shows "(\<exists>v. check_gpg_version h = Inr v \<and> cr_gpg_version r = join_with ''.'' v \<and> length v = 3 \<and>
        \<not> tuple_less (version_parts v) [2, 2, 0] \<and>
        (tuple_less (version_parts v) [2, 4, 0] \<longrightarrow> ''gpg_version_old'' \<in> cw_code ` set (cr_warnings r))) \<and>
    (\<forall>d \<in> set (managed_dirs ps). fs_node fs' d = Some (Dir DIR_MODE)) \<and>
    (\<forall>q. fs_node fs q \<noteq> None \<longrightarrow> q \<notin> set (managed_dirs ps) \<longrightarrow> fs_node fs' q = fs_node fs q) \<and>
    ''dir_permissions'' \<notin> cw_code ` set (cr_warnings r) \<and>
    (cr_core_dumps_disabled r \<or> ''core_dumps_enabled'' \<in> cw_code ` set (cr_warnings r)) \<and>
    (cr_swap_encrypted r = Some False \<longrightarrow> (\<exists>w \<in> set (cr_warnings r). cw_code w \<in> {''swap_not_encrypted'', ''swap_file_unverified'', ''filevault_off''}))"
proof -
  obtain v where v: "check_gpg_version h = Inr v" and dirs: "ensure_paths ps fs = (Inr (), fs')"
    and w: "cr_warnings r = (if disable_core_dumps h then [] else [core_dump_warning]) @
      (if tuple_less (version_parts v) WARN_VERSION then [old_version_warning v] else []) @
      check_config_permissions fs' (config_file ps) @ check_required_packages h @
      check_memlock_limit h @ snd (check_swap_encryption h)"
    and r: "cr_gpg_version r = join_with ''.'' v" "cr_core_dumps_disabled r = disable_core_dumps h"
    "cr_swap_encrypted r = fst (check_swap_encryption h)"
    by (rule checked_run [OF assms])
  have "tuple_less (version_parts v) WARN_VERSION \<longrightarrow> ''gpg_version_old'' \<in> cw_code ` set (cr_warnings r)"
  proof
    assume "tuple_less (version_parts v) WARN_VERSION"
    then have "old_version_warning v \<in> set (cr_warnings r)" unfolding w by simp
    then show "''gpg_version_old'' \<in> cw_code ` set (cr_warnings r)" by (intro image_eqI) (simp_all only: other_codes(4))
  qed
  moreover have "cr_core_dumps_disabled r \<or> ''core_dumps_enabled'' \<in> cw_code ` set (cr_warnings r)"
  proof (cases "disable_core_dumps h")
    case False
    then have "core_dump_warning \<in> set (cr_warnings r)" unfolding w by simp
    then have "''core_dumps_enabled'' \<in> cw_code ` set (cr_warnings r)" by (intro image_eqI) (simp_all only: other_codes(3))
    then show ?thesis by blast
  qed (simp add: r(2))
  moreover have "''dir_permissions'' \<notin> cw_code ` set (cr_warnings r)"
    using no_dir_permissions [of _ h v fs' "config_file ps"] unfolding image_iff w by metis
  moreover have "cr_swap_encrypted r = Some False \<longrightarrow>
      (\<exists>w \<in> set (cr_warnings r). cw_code w \<in> {''swap_not_encrypted'', ''swap_file_unverified'', ''filevault_off''})"
    using swap_reported [of h] unfolding w r(3) set_append by blast
  ultimately show ?thesis
    using accepted_version [OF v] v r(1) ensure_paths_made [of ps fs fs'] ensure_paths_frame [of ps fs] dirs
    unfolding WARN_VERSION_def REQUIRED_VERSION_def by blast
qed

definition demo_paths :: app_paths where
  "demo_paths = \<lparr>config_dir = [''c''], data_dir = [''d''], state_dir = [''s''], cache_dir = [''t'']\<rparr>"

definition demo_home :: file_system where
  "demo_home = \<lparr>fs_node = (\<lambda>p. if p \<in> set ([] # managed_dirs demo_paths) then Some (Dir 493)
       else if p = config_file demo_paths then Some (File 384 []) else None), fs_umask = 18, fs_open_ok = (\<lambda>_. True)\<rparr>"

lemma ensure_existing_dir:
  assumes "fs_node fs p = Some (Dir m)" "fs_open_ok fs p"
  shows "ensure_dir p mode fs = (Inr (), put_node p (Dir mode) fs)"
  using assms missing_dirs.simps [of fs p]
  by (simp add: ensure_dir_def thenP_def bindP_def reject_symlink_def finish_dir_def fchmod_nofollow_def
      is_link_def path_exists_def path_is_dir_def)

lemma demo_ensure: "\<exists>fs'. ensure_paths demo_paths demo_home = (Inr (), fs')"
  by (simp add: ensure_paths_def managed_dirs_def demo_paths_def demo_home_def gnupg_home_def vault_dir_def
      config_file_def ensure_existing_dir put_node_def thenP_run)

lemma demo_version: "check_gpg_version demo_env_host = Inr [''2'', ''4'', ''5'']"
  by code_simp

theorem checked_start_witness:
  "\<exists>fs' r. run_all_checks demo_env_host demo_paths demo_home = (Inr r, fs') \<and>
     fs_node fs' (vault_dir demo_paths) = Some (Dir DIR_MODE)"
proof -
  obtain fs' where "ensure_paths demo_paths demo_home = (Inr (), fs')" using demo_ensure by blast
  then obtain ws where "check_app_directories demo_paths demo_home = (Inr ws, fs')"
    by (simp add: check_app_directories_def thenP_run)
  then obtain r where "run_all_checks demo_env_host demo_paths demo_home = (Inr r, fs')"
    by (simp add: run_all_checks_def demo_version)
  from checked_start [OF this] this show ?thesis by (auto simp: managed_dirs_def)
qed

end
