(* ===== verification/Password_Policy.thy ===== *)
theory Password_Policy
  imports Prelude
begin

text \<open>
  \<open>security/password_policy.py\<close>: which passphrases the program accepts. The Unicode database of
  \<open>unicodedata\<close> and of the methods of \<open>str\<close> is a parameter, a record of the functions the module
  uses; they work on code points, each given by its UTF-8 bytes. The lemmas say which texts are
  accepted, and that the list of common passwords never makes a difference to that.
\<close>

section \<open>Code points\<close>

definition continuation :: "char \<Rightarrow> bool" where
  "continuation c \<longleftrightarrow> 128 \<le> code c \<and> code c < 192"

function points :: "str \<Rightarrow> str list" where
  "points [] = []"
| "points (c # cs) = (c # takeWhile continuation cs) # points (dropWhile continuation cs)"
  by pat_completeness auto
termination
  by (relation "measure length") (simp_all add: le_imp_less_Suc length_dropWhile_le)

lemma concat_points [simp]: "concat (points s) = s"
  by (induction s rule: points.induct) simp_all

lemma points_eq_Nil [simp]: "points s = [] \<longleftrightarrow> s = []"
  by (cases s) simp_all

lemma not_continuation: "code c < 128 \<Longrightarrow> \<not> continuation c"
  by (simp add: continuation_def)

lemma points_ascii: "list_all (\<lambda>c. code c < 128) s \<Longrightarrow> points s = map (\<lambda>c. [c]) s"
proof (induction s rule: points.induct)
  case (2 c cs)
  have "takeWhile continuation cs = []" "dropWhile continuation cs = cs"
    using "2.prems" not_continuation by (cases cs; simp)+
  then show ?case using 2 by simp
qed simp

text \<open>What the module and the forms ask the Unicode database.\<close>

record unicode_data =
  uc_nfkc :: "str \<Rightarrow> str"
  uc_lowercase :: "str \<Rightarrow> str"
  uc_space :: "str \<Rightarrow> bool"
  uc_lower :: "str \<Rightarrow> bool"
  uc_upper :: "str \<Rightarrow> bool"
  uc_digit :: "str \<Rightarrow> bool"
  uc_alnum :: "str \<Rightarrow> bool"

text \<open>\<open>str.strip()\<close> with the white space of the database.\<close>

definition strip_text :: "unicode_data \<Rightarrow> str \<Rightarrow> str" where
  "strip_text u s = concat (rev (dropWhile (uc_space u) (rev (dropWhile (uc_space u) (points s)))))"

section \<open>The policy\<close>

datatype password_strength = REJECTED | WEAK | ACCEPTABLE | STRONG

datatype policy_reason = PassphraseEmpty | CommonPassword | TooShort | TooEasy

record password_assessment =
  pa_strength :: password_strength
  pa_accepted :: bool
  pa_reason :: "policy_reason option"

definition COMMON_PASSWORDS :: "str list" where
  "COMMON_PASSWORDS = map lower
     [''password'', ''passw0rd'', ''passwort'', ''123456'', ''12345678'', ''qwerty'', ''qwertz'', ''letmein'',
      ''iloveyou'', ''admin'', ''welcome'', ''monkey'', ''dragon'', ''baseball'', ''football'', ''test1234'',
      ''abc123'', ''p@ssw0rd'', ''changeme'', ''secret'', ''master'', ''sunshine'', ''princess'', ''azerty'', ''hunter2'']"

definition MIN_PASSPHRASE_BYTES :: nat where "MIN_PASSPHRASE_BYTES = 12"

definition MIN_PASSWORD_BYTES :: nat where "MIN_PASSWORD_BYTES = 16"

definition normalise_passphrase :: "unicode_data \<Rightarrow> str \<Rightarrow> str" where
  "normalise_passphrase u value = uc_nfkc u value"

text \<open>\<open>\b\w+\b\<close>: a word character is alphanumeric or an underscore, a match is as long as it can be.\<close>

definition word_point :: "unicode_data \<Rightarrow> str \<Rightarrow> bool" where
  "word_point u p \<longleftrightarrow> uc_alnum u p \<or> p = ''_''"

function word_matches :: "('a \<Rightarrow> bool) \<Rightarrow> 'a list \<Rightarrow> 'a list list" where
  "word_matches w ps = (let t = dropWhile (\<lambda>p. \<not> w p) ps in
     if t = [] then [] else takeWhile w t # word_matches w (dropWhile w t))"
  by auto
termination
proof (relation "measure (length \<circ> snd)")
  fix w :: "'a \<Rightarrow> bool" and ps t
  assume t: "t = dropWhile (\<lambda>p. \<not> w p) ps" "t \<noteq> []"
  then have "w (hd t)" using hd_dropWhile [of "\<lambda>p. \<not> w p" ps] by simp
  then have "length (dropWhile w t) < length t"
    using t(2) by (cases t) (simp_all add: length_dropWhile_le less_Suc_eq_le)
  also have "\<dots> \<le> length ps" using t(1) length_dropWhile_le by simp
  finally show "((w, dropWhile w t), w, ps) \<in> measure (length \<circ> snd)" by simp
qed simp

declare word_matches.simps [simp del]

definition word_count :: "unicode_data \<Rightarrow> str \<Rightarrow> nat" where
  "word_count u value = length (word_matches (word_point u) (points value))"

definition character_classes :: "unicode_data \<Rightarrow> str \<Rightarrow> nat" where
  "character_classes u value = (let ps = points value in
     of_bool (list_ex (uc_lower u) ps) + of_bool (list_ex (uc_upper u) ps) +
     of_bool (list_ex (uc_digit u) ps) + of_bool (list_ex (\<lambda>p. \<not> uc_alnum u p) ps))"

definition assess :: "unicode_data \<Rightarrow> str \<Rightarrow> password_assessment" where
  "assess u passphrase = (let normalised = normalise_passphrase u passphrase in
     if length (points normalised) = 0 then \<lparr>pa_strength = REJECTED, pa_accepted = False, pa_reason = Some PassphraseEmpty\<rparr>
     else let encoded_len = length normalised in
     if uc_lowercase u normalised \<in> set COMMON_PASSWORDS
     then \<lparr>pa_strength = REJECTED, pa_accepted = False, pa_reason = Some CommonPassword\<rparr>
     else let has_whitespace = list_ex (uc_space u) (points normalised);
              words = word_count u normalised in
     if has_whitespace \<and> 4 \<le> words \<and> MIN_PASSPHRASE_BYTES \<le> encoded_len
     then \<lparr>pa_strength = (if 24 \<le> encoded_len then STRONG else ACCEPTABLE), pa_accepted = True, pa_reason = None\<rparr>
     else if MIN_PASSWORD_BYTES \<le> encoded_len \<and> 3 \<le> character_classes u normalised
     then \<lparr>pa_strength = (if 20 \<le> encoded_len then STRONG else ACCEPTABLE), pa_accepted = True, pa_reason = None\<rparr>
     else if encoded_len < MIN_PASSPHRASE_BYTES
     then \<lparr>pa_strength = REJECTED, pa_accepted = False, pa_reason = Some TooShort\<rparr>
     else \<lparr>pa_strength = WEAK, pa_accepted = False, pa_reason = Some TooEasy\<rparr>)"

definition require_acceptable :: "unicode_data \<Rightarrow> str \<Rightarrow> unit res" where
  "require_acceptable u passphrase = (if pa_accepted (assess u passphrase) then Inr () else Inl ValueError)"

section \<open>What is accepted\<close>

text \<open>
  What is assumed of the Unicode database: the empty text stays empty, normalising twice changes nothing
  (UAX 15), and a normalised text whose lower case is ASCII is ASCII, of the same length (the one other code point
  with an ASCII lower case, the Kelvin sign, is a \<open>K\<close> once it is normalised).
\<close>

definition unicode_ok :: "unicode_data \<Rightarrow> bool" where
  "unicode_ok u \<longleftrightarrow> uc_nfkc u [] = [] \<and> (\<forall>s. uc_nfkc u (uc_nfkc u s) = uc_nfkc u s) \<and>
     (\<forall>s. list_all (\<lambda>c. code c < 128) (uc_lowercase u (uc_nfkc u s)) \<longrightarrow>
        length (uc_nfkc u s) = length (uc_lowercase u (uc_nfkc u s)))"

lemma common_short:
  assumes "w \<in> set COMMON_PASSWORDS"
  shows "list_all (\<lambda>c. code c < 128) w \<and> length w < MIN_PASSPHRASE_BYTES"
proof -
  have "list_all (\<lambda>w. list_all (\<lambda>c. code c < 128) w \<and> length w < MIN_PASSPHRASE_BYTES) COMMON_PASSWORDS"
    by code_simp
  then show ?thesis using assms by (simp add: list_all_iff)
qed

lemma accepted_strength: "pa_accepted (assess u s) \<longleftrightarrow> pa_strength (assess u s) \<in> {ACCEPTABLE, STRONG}"
  by (simp add: assess_def Let_def)

lemma reason_given: "pa_reason (assess u s) = None \<longleftrightarrow> pa_accepted (assess u s)"
  by (simp add: assess_def Let_def)

lemma accepted_long: "pa_accepted (assess u s) \<Longrightarrow> MIN_PASSPHRASE_BYTES \<le> length (normalise_passphrase u s)"
  by (auto simp: assess_def Let_def MIN_PASSPHRASE_BYTES_def MIN_PASSWORD_BYTES_def split: if_splits)

lemma assess_normalised: "unicode_ok u \<Longrightarrow> assess u (normalise_passphrase u s) = assess u s"
  by (simp add: assess_def normalise_passphrase_def unicode_ok_def)

text \<open>
  The two ways to be accepted, and nothing else: every entry of the list of common passwords is
  shorter than the least length, so that the list only changes the reason that is given.
\<close>

lemma accepted_by_rules:
  assumes "unicode_ok u"
  shows "pa_accepted (assess u s) \<longleftrightarrow> (let n = normalise_passphrase u s in
    (list_ex (uc_space u) (points n) \<and> 4 \<le> word_count u n \<and> 12 \<le> length n) \<or>
    (16 \<le> length n \<and> 3 \<le> character_classes u n))"
proof (cases "uc_lowercase u (normalise_passphrase u s) \<in> set COMMON_PASSWORDS")
  case True
  have "length (normalise_passphrase u s) < 12"
    using common_short [OF True] assms by (simp add: unicode_ok_def normalise_passphrase_def MIN_PASSPHRASE_BYTES_def)
  then show ?thesis using True by (auto simp: assess_def Let_def)
next
  case False
  then show ?thesis
    by (cases "normalise_passphrase u s = []")
      (auto simp: assess_def Let_def MIN_PASSPHRASE_BYTES_def MIN_PASSWORD_BYTES_def)
qed

end
