(* ===== verification/Clipboard.thy ===== *)
theory Clipboard
  imports Prelude
begin

text \<open>
  \<open>ui/clipboard.py\<close>: copying a secret with a timer that takes it off the clipboard again. The state
  is the text on the clipboard, the entries of \<open>_PENDING\<close> with the time their timer fires (in
  milliseconds), and the module's variables; the events are the program's copies, what other
  programs copy, time passing and the end of the program. The lemmas show that a secret is gone
  when its time has passed or the program has ended, and that nothing else is ever cleared.
\<close>

section \<open>The module\<close>

record pending_clear =
  pc_timer :: nat
  pc_deadline :: nat
  pc_snapshot :: str

record clipboard =
  cl_text :: str
  cl_pending :: "pending_clear list"
  cl_default :: int
  cl_installed :: bool
  cl_now :: nat
  cl_next :: nat

text \<open>Whether Qt has a clipboard, and an application to connect the handler to.\<close>

record clip_env =
  qt_clipboard :: bool
  qt_application :: bool

definition set_default_clear_seconds :: "int \<Rightarrow> clipboard \<Rightarrow> clipboard" where
  "set_default_clear_seconds seconds c = c\<lparr>cl_default := max 0 seconds\<rparr>"

definition set_sensitive_text :: "clip_env \<Rightarrow> str \<Rightarrow> clipboard \<Rightarrow> bool \<times> clipboard" where
  "set_sensitive_text env text c =
     (if text = [] \<or> \<not> qt_clipboard env then (False, c) else (True, c\<lparr>cl_text := text\<rparr>))"

definition clear_if_matches :: "clip_env \<Rightarrow> str \<Rightarrow> clipboard \<Rightarrow> clipboard" where
  "clear_if_matches env snapshot c =
     (if qt_clipboard env \<and> cl_text c = snapshot then c\<lparr>cl_text := []\<rparr> else c)"

definition install_quit_handler :: "clip_env \<Rightarrow> clipboard \<Rightarrow> clipboard" where
  "install_quit_handler env c =
     (if cl_installed c \<or> \<not> qt_application env then c else c\<lparr>cl_installed := True\<rparr>)"

definition copy_text :: "clip_env \<Rightarrow> str \<Rightarrow> int option \<Rightarrow> clipboard \<Rightarrow> clipboard" where
  "copy_text env text clear_after c = (case set_sensitive_text env text c of
       (False, c) \<Rightarrow> c
     | (True, c) \<Rightarrow>
         let c = install_quit_handler env c;
             seconds = (case clear_after of None \<Rightarrow> cl_default c | Some s \<Rightarrow> s) in
         if seconds \<le> 0 then c
         else c\<lparr>cl_pending := cl_pending c @
             [\<lparr>pc_timer = cl_next c, pc_deadline = cl_now c + nat seconds * 1000, pc_snapshot = text\<rparr>],
           cl_next := cl_next c + 1\<rparr>)"

text \<open>The slot of a timer: \<open>_PENDING.remove\<close> takes out the first equal entry.\<close>

definition timeout :: "clip_env \<Rightarrow> pending_clear \<Rightarrow> clipboard \<Rightarrow> clipboard" where
  "timeout env e c = (let c = clear_if_matches env (pc_snapshot e) c in c\<lparr>cl_pending := remove1 e (cl_pending c)\<rparr>)"

definition flush_pending_clears :: "clip_env \<Rightarrow> clipboard \<Rightarrow> clipboard" where
  "flush_pending_clears env c =
     (fold (\<lambda>e. clear_if_matches env (pc_snapshot e)) (rev (cl_pending c)) c)\<lparr>cl_pending := []\<rparr>"

section \<open>Runs\<close>

datatype clip_event =
    CopySecret str "int option"
  | OtherCopy str
  | Elapse nat
  | Quit

fun clip_step :: "clip_env \<Rightarrow> clip_event \<Rightarrow> clipboard \<Rightarrow> clipboard" where
  "clip_step env (CopySecret t s) c = copy_text env t s c"
| "clip_step env (OtherCopy t) c = c\<lparr>cl_text := t\<rparr>"
| "clip_step env (Elapse ms) c =
     (let c = c\<lparr>cl_now := cl_now c + ms\<rparr> in
      fold (timeout env) (filter (\<lambda>e. pc_deadline e \<le> cl_now c) (cl_pending c)) c)"
| "clip_step env Quit c = (if cl_installed c then flush_pending_clears env c else c)"

definition clip_run :: "clip_env \<Rightarrow> clip_event list \<Rightarrow> clipboard \<Rightarrow> clipboard" where
  "clip_run env evs c = fold (clip_step env) evs c"

fun copied :: "clip_event \<Rightarrow> str option" where
  "copied (CopySecret t s) = Some t"
| "copied (OtherCopy t) = Some t"
| "copied ev = None"

fun elapsed :: "clip_event \<Rightarrow> nat" where
  "elapsed (Elapse ms) = ms"
| "elapsed ev = 0"

section \<open>The clearing of one text\<close>

lemma clear_fields [simp]:
  "cl_pending (clear_if_matches env s c) = cl_pending c" "cl_now (clear_if_matches env s c) = cl_now c"
  "cl_installed (clear_if_matches env s c) = cl_installed c" "cl_next (clear_if_matches env s c) = cl_next c"
  by (simp_all add: clear_if_matches_def)

lemma clear_all_fields [simp]:
  "cl_pending (fold (\<lambda>e. clear_if_matches env (pc_snapshot e)) es c) = cl_pending c"
  "cl_now (fold (\<lambda>e. clear_if_matches env (pc_snapshot e)) es c) = cl_now c"
  "cl_installed (fold (\<lambda>e. clear_if_matches env (pc_snapshot e)) es c) = cl_installed c"
  by (induction es arbitrary: c) simp_all

lemma clear_all_text:
  assumes "qt_clipboard env"
  shows "cl_text (fold (\<lambda>e. clear_if_matches env (pc_snapshot e)) es c) =
    (if cl_text c \<in> pc_snapshot ` set es then [] else cl_text c)"
  by (induction es arbitrary: c) (auto simp: clear_if_matches_def assms)

lemma timeouts:
  assumes "qt_clipboard env"
  shows "cl_text (fold (timeout env) es c) = (if cl_text c \<in> pc_snapshot ` set es then [] else cl_text c)"
    "cl_pending (fold (timeout env) es c) = fold remove1 es (cl_pending c)"
    "cl_now (fold (timeout env) es c) = cl_now c" "cl_installed (fold (timeout env) es c) = cl_installed c"
  by (induction es arbitrary: c) (auto simp: timeout_def clear_if_matches_def assms)

lemma remove_due: "distinct es \<Longrightarrow> fold remove1 (filter P es) es = filter (\<lambda>e. \<not> P e) es"
proof -
  have "distinct es \<Longrightarrow> distinct ds \<Longrightarrow> fold remove1 ds es = filter (\<lambda>e. e \<notin> set ds) es" for ds
  proof (induction ds arbitrary: es)
    case (Cons d ds)
    have "fold remove1 ds (remove1 d es) = filter (\<lambda>e. e \<notin> set ds) (remove1 d es)"
      using Cons.IH [of "remove1 d es"] Cons.prems by (simp add: distinct_remove1)
    also have "\<dots> = filter (\<lambda>e. e \<notin> set (d # ds)) es"
      using Cons.prems(1) by (auto simp: distinct_remove1_removeAll removeAll_filter_not_eq intro!: filter_cong)
    finally show ?case by simp
  qed simp
  then show "distinct es \<Longrightarrow> fold remove1 (filter P es) es = filter (\<lambda>e. \<not> P e) es"
    by (simp cong: filter_cong)
qed

text \<open>Timers are told apart by their number, and none that is due is left.\<close>

definition clip_ok :: "clipboard \<Rightarrow> bool" where
  "clip_ok c \<longleftrightarrow> distinct (map pc_timer (cl_pending c)) \<and>
     (\<forall>e \<in> set (cl_pending c). pc_timer e < cl_next c \<and> cl_now c < pc_deadline e)"

definition with_clear :: "str \<Rightarrow> nat \<Rightarrow> clipboard \<Rightarrow> bool" where
  "with_clear s d c \<longleftrightarrow> cl_text c = s \<longrightarrow> (\<exists>e \<in> set (cl_pending c). pc_snapshot e = s \<and> pc_deadline e \<le> d)"

lemma elapse_step:
  assumes "qt_clipboard env" "clip_ok c"
  shows "cl_pending (clip_step env (Elapse ms) c) = filter (\<lambda>e. cl_now c + ms < pc_deadline e) (cl_pending c)"
    "cl_text (clip_step env (Elapse ms) c) =
       (if \<exists>e \<in> set (cl_pending c). pc_deadline e \<le> cl_now c + ms \<and> pc_snapshot e = cl_text c then [] else cl_text c)"
    "cl_now (clip_step env (Elapse ms) c) = cl_now c + ms" "cl_installed (clip_step env (Elapse ms) c) = cl_installed c"
proof -
  have "distinct (cl_pending c)" using assms(2) by (auto simp: clip_ok_def distinct_map)
  then show "cl_pending (clip_step env (Elapse ms) c) = filter (\<lambda>e. cl_now c + ms < pc_deadline e) (cl_pending c)"
    by (simp add: timeouts [OF assms(1)] remove_due Let_def not_le)
  show "cl_text (clip_step env (Elapse ms) c) =
      (if \<exists>e \<in> set (cl_pending c). pc_deadline e \<le> cl_now c + ms \<and> pc_snapshot e = cl_text c then [] else cl_text c)"
    unfolding clip_step.simps Let_def timeouts(1) [OF assms(1)] by (auto simp: image_iff)
qed (simp_all add: timeouts [OF assms(1)] Let_def)

text \<open>Every event but a new copy keeps the state sound and the clearing on time.\<close>

lemma copy_ok: "clip_ok c \<Longrightarrow> clip_ok (copy_text env t a c)"
  by (auto simp: copy_text_def set_sensitive_text_def install_quit_handler_def Let_def clip_ok_def
      split: prod.splits option.splits)

lemma clip_step_ok:
  assumes "qt_clipboard env" "clip_ok c"
  shows "clip_ok (clip_step env ev c)"
proof (cases ev)
  case (Elapse ms)
  have n: "cl_next (fold (timeout env) es c) = cl_next c" for es c
    by (induction es arbitrary: c) (simp_all add: timeout_def Let_def)
  then have "cl_next (clip_step env (Elapse ms) c) = cl_next c" by (simp add: Let_def)
  then show ?thesis
    using assms(2) elapse_step [OF assms, of ms] Elapse
    by (simp add: clip_ok_def distinct_map_filter)
qed (use assms copy_ok in \<open>auto simp: clip_ok_def flush_pending_clears_def\<close>)

lemma copy_empty [simp]: "copy_text env [] a c = c"
  by (simp add: copy_text_def set_sensitive_text_def)

lemma copy_fields:
  assumes "qt_clipboard env" "t \<noteq> []"
  shows "cl_text (copy_text env t a c) = t" "cl_now (copy_text env t a c) = cl_now c"
    "cl_installed (copy_text env t a c) \<longleftrightarrow> cl_installed c \<or> qt_application env"
    "cl_pending (copy_text env t a c) = cl_pending c @ (if (case a of None \<Rightarrow> cl_default c | Some s \<Rightarrow> s) \<le> 0 then [] else
       [\<lparr>pc_timer = cl_next c, pc_deadline = cl_now c + nat (case a of None \<Rightarrow> cl_default c | Some s \<Rightarrow> s) * 1000, pc_snapshot = t\<rparr>])"
  using assms
  by (simp_all add: copy_text_def set_sensitive_text_def install_quit_handler_def Let_def split: option.splits)

lemma step_keeps_clear:
  assumes "qt_clipboard env" "clip_ok c" "with_clear s d c" "copied ev \<noteq> Some s" "s \<noteq> []"
  shows "with_clear s d (clip_step env ev c)"
proof (cases ev)
  case (CopySecret t a)
  then show ?thesis
    using assms by (cases "t = []") (auto simp: with_clear_def copy_fields)
next
  case (Elapse ms)
  show ?thesis
    using assms(3,5) elapse_step(1,2) [OF assms(1,2), of ms] unfolding Elapse with_clear_def
    by (auto split: if_splits simp: not_le)
qed (use assms in \<open>auto simp: with_clear_def flush_pending_clears_def clear_all_text image_iff\<close>)

lemma run_ok: "qt_clipboard env \<Longrightarrow> clip_ok c \<Longrightarrow> clip_ok (clip_run env evs c)"
  by (induction evs arbitrary: c) (auto simp: clip_run_def simp del: clip_step.simps intro!: clip_step_ok)

lemma run_keeps_clear:
  "qt_clipboard env \<Longrightarrow> clip_ok c \<Longrightarrow> with_clear s d c \<Longrightarrow> Some s \<notin> copied ` set evs \<Longrightarrow> s \<noteq> [] \<Longrightarrow>
   with_clear s d (clip_run env evs c)"
proof (induction evs arbitrary: c)
  case (Cons ev evs)
  show ?case
    using Cons.IH [OF Cons.prems(1) clip_step_ok [OF Cons.prems(1,2)] step_keeps_clear [OF Cons.prems(1-3)]] Cons.prems(4,5)
    by (auto simp: clip_run_def simp del: clip_step.simps)
qed (simp add: clip_run_def)

lemma run_now:
  "qt_clipboard env \<Longrightarrow> clip_ok c \<Longrightarrow> cl_now (clip_run env evs c) = cl_now c + sum_list (map elapsed evs)"
proof (induction evs arbitrary: c)
  case (Cons ev evs)
  have "cl_now (clip_step env ev c) = cl_now c + elapsed ev"
  proof (cases ev)
    case (CopySecret t a)
    then show ?thesis using Cons.prems(1) by (cases "t = []") (simp_all add: copy_fields)
  qed (use elapse_step(3) [OF Cons.prems] in \<open>simp_all add: flush_pending_clears_def del: clip_step.simps(3)\<close>)
  then show ?case
    using Cons.IH [OF Cons.prems(1) clip_step_ok [OF Cons.prems]] by (simp add: clip_run_def del: clip_step.simps)
qed (simp add: clip_run_def)

lemma deadline_passed: "clip_ok c \<Longrightarrow> with_clear s d c \<Longrightarrow> d \<le> cl_now c \<Longrightarrow> cl_text c \<noteq> s"
  by (fastforce simp: clip_ok_def with_clear_def)

lemma flush_clears: "qt_clipboard env \<Longrightarrow> with_clear s d c \<Longrightarrow> s \<noteq> [] \<Longrightarrow> cl_text (flush_pending_clears env c) \<noteq> s"
  by (auto simp: with_clear_def flush_pending_clears_def clear_all_text image_iff)

text \<open>The module as it is loaded, with what is on the clipboard then.\<close>

definition clipboard_start :: "str \<Rightarrow> clipboard" where
  "clipboard_start t = \<lparr>cl_text = t, cl_pending = [], cl_default = 60, cl_installed = False, cl_now = 0, cl_next = 0\<rparr>"

lemma start_run_ok: "qt_clipboard env \<Longrightarrow> clip_ok (clip_run env evs (clipboard_start t))"
  by (rule run_ok) (simp_all add: clip_ok_def clipboard_start_def)

text \<open>A copied secret with a timer is not on the clipboard once its time has passed, whatever else was copied.\<close>

lemma timer_clears_secret:
  assumes "qt_clipboard env" "clip_ok c" "s \<noteq> []" "0 < secs" "Some s \<notin> copied ` set evs"
    and "nat secs * 1000 \<le> sum_list (map elapsed evs)"
  shows "cl_text (clip_run env (CopySecret s (Some secs) # evs) c) \<noteq> s"
proof -
  let ?c = "copy_text env s (Some secs) c" and ?d = "cl_now c + nat secs * 1000"
  have ok: "clip_ok ?c" using copy_ok [OF assms(2)] .
  have "with_clear s ?d ?c" using assms(1,3,4) by (simp add: with_clear_def copy_fields)
  from run_keeps_clear [OF assms(1) ok this assms(5,3)] have "with_clear s ?d (clip_run env evs ?c)" .
  moreover have "?d \<le> cl_now (clip_run env evs ?c)"
    using run_now [OF assms(1) ok, of evs] assms(1,3,6) by (simp add: copy_fields)
  ultimately have "cl_text (clip_run env evs ?c) \<noteq> s"
    using deadline_passed run_ok [OF assms(1) ok] by blast
  then show ?thesis by (simp add: clip_run_def)
qed

text \<open>The end of the program clears it before its time.\<close>

lemma run_installed: "cl_installed c \<Longrightarrow> cl_installed (clip_run env evs c)"
proof (induction evs arbitrary: c)
  case (Cons ev evs)
  have t: "cl_installed (fold (timeout env) es c) = cl_installed c" for es c
    by (induction es arbitrary: c) (simp_all add: timeout_def Let_def)
  have "cl_installed (clip_step env ev c)"
    using Cons.prems by (cases ev) (auto simp: t Let_def copy_text_def set_sensitive_text_def
        install_quit_handler_def flush_pending_clears_def split: option.splits)
  then show ?case using Cons.IH by (simp add: clip_run_def del: clip_step.simps)
qed (simp add: clip_run_def)

lemma quit_clears_secret:
  assumes "qt_clipboard env" "qt_application env" "clip_ok c" "s \<noteq> []" "0 < secs" "Some s \<notin> copied ` set evs"
  shows "cl_text (clip_run env (CopySecret s (Some secs) # evs @ [Quit]) c) \<noteq> s"
proof -
  let ?c = "copy_text env s (Some secs) c"
  have "with_clear s (cl_now c + nat secs * 1000) ?c" using assms(1,4,5) by (simp add: with_clear_def copy_fields)
  from run_keeps_clear [OF assms(1) copy_ok [OF assms(3)] this assms(6,4)] flush_clears [OF assms(1) _ assms(4)]
  have "cl_text (flush_pending_clears env (clip_run env evs ?c)) \<noteq> s" by blast
  moreover have "cl_installed (clip_run env evs ?c)"
    using run_installed assms(1,2,4) by (simp add: copy_fields)
  ultimately show ?thesis by (simp add: clip_run_def)
qed

text \<open>What is not a pending secret is never cleared.\<close>

lemma others_text_kept:
  assumes "qt_clipboard env" "cl_text c \<notin> pc_snapshot ` set (cl_pending c)" "clip_ok c"
  shows "cl_text (clip_step env (Elapse ms) c) = cl_text c" "cl_text (clip_step env Quit c) = cl_text c"
  using assms(2) elapse_step(2) [OF assms(1,3), of ms]
  by (auto simp: flush_pending_clears_def clear_all_text [OF assms(1)] image_iff simp del: clip_step.simps(3))

text \<open>
  C40. In every run of the program with a clipboard, a secret copied with a
  positive delay is off the clipboard once that much time has passed, whatever was copied, cleared
  and timed meanwhile (as long as nobody copies the same text again); and with a running application
  it is off the clipboard when the program quits, however little time has passed.
\<close>

theorem copied_secret_cleared:
  assumes "qt_clipboard env" "s \<noteq> []" "0 < secs" "Some s \<notin> copied ` set evs"
  shows "(nat secs * 1000 \<le> sum_list (map elapsed evs) \<longrightarrow>
      cl_text (clip_run env (before @ CopySecret s (Some secs) # evs) (clipboard_start t)) \<noteq> s) \<and>
    (qt_application env \<longrightarrow>
      cl_text (clip_run env (before @ CopySecret s (Some secs) # evs @ [Quit]) (clipboard_start t)) \<noteq> s)"
  using timer_clears_secret [OF assms(1) start_run_ok [OF assms(1)] assms(2-4), of before t]
    quit_clears_secret [OF assms(1) _ start_run_ok [OF assms(1)] assms(2-4), of before t]
  by (simp add: clip_run_def)

lemma copied_secret_cleared_witness:
  "cl_text (clip_run \<lparr>qt_clipboard = True, qt_application = True\<rparr>
      ([OtherCopy ''a''] @ CopySecret ''key'' (Some 2) # [Elapse 1500, CopySecret ''pin'' None, OtherCopy ''b'', Elapse 500])
      (clipboard_start ''x'')) \<noteq> ''key'' \<and>
   cl_text (clip_run \<lparr>qt_clipboard = True, qt_application = True\<rparr>
      ([OtherCopy ''a''] @ CopySecret ''key'' (Some 2) # [Elapse 1500, CopySecret ''pin'' None, OtherCopy ''b'', Elapse 500] @ [Quit])
      (clipboard_start ''x'')) \<noteq> ''key''"
  using copied_secret_cleared [of "\<lparr>qt_clipboard = True, qt_application = True\<rparr>" "''key''" 2
      "[Elapse 1500, CopySecret ''pin'' None, OtherCopy ''b'', Elapse 500]" "[OtherCopy ''a'']" "''x''"]
  by simp

end
