(* ===== verification/Key_Create_Form.thy ===== *)
theory Key_Create_Form
  imports Password_Policy Key_Service
begin

text \<open>
  \<open>ui/keys/key_create_viewmodel.py\<close>: the form a key is created from, and the jobs it hands to the
  thread pool. The state is the fields of the view model with the signals it has emitted; a job
  holds the secrets that were moved out of the form, and reads the other fields when it runs. The
  lemmas say what a job is started with: which passphrase opens the new key, and that there is one.
\<close>

section \<open>The form\<close>

datatype create_signal =
    PassphraseStrength "password_strength option"
  | FormValid bool
  | Loading bool
  | OperationSucceeded key_info
  | OperationFailed exn

record create_form =
  cf_name :: str
  cf_email :: str
  cf_context :: "str \<times> str \<times> str \<times> str"
  cf_algorithm :: key_algorithm
  cf_length :: int
  cf_expiry :: str
  cf_passphrase :: str
  cf_confirm :: str
  cf_use_token :: bool
  cf_token_only :: bool
  cf_pin :: str
  cf_signals :: "create_signal list"

datatype create_job =
    PassphraseJob secure_bytes
  | TokenJob secure_bytes "secure_bytes option"

definition new_form :: create_form where
  "new_form = \<lparr>cf_name = [], cf_email = [], cf_context = ([], [], [], []), cf_algorithm = EDDSA, cf_length = 255,
     cf_expiry = ''2y'', cf_passphrase = [], cf_confirm = [], cf_use_token = False, cf_token_only = False, cf_pin = [],
     cf_signals = []\<rparr>"

definition form_valid :: "unicode_data \<Rightarrow> create_form \<Rightarrow> bool" where
  "form_valid u f =
     (if cf_name f = [] \<or> cf_email f = [] then False
      else if cf_use_token f \<and> cf_pin f = [] then False
      else if cf_use_token f \<and> cf_token_only f then True
      else if cf_passphrase f = [] then False
      else if cf_passphrase f \<noteq> cf_confirm f then False
      else pa_accepted (assess u (cf_passphrase f)))"

definition emit_signals :: "create_signal list \<Rightarrow> create_form \<Rightarrow> create_form" where
  "emit_signals sigs f = f\<lparr>cf_signals := cf_signals f @ sigs\<rparr>"

definition emit_validity :: "unicode_data \<Rightarrow> create_form \<Rightarrow> create_form" where
  "emit_validity u f = emit_signals [FormValid (form_valid u f)] f"

text \<open>What the user does to it.\<close>

datatype form_event =
    SetName str | SetEmail str | SetLabel str | SetPlatform str | SetPurpose str | SetNotes str
  | SetAlgorithm key_algorithm int | SetExpiry str | SetPassphrase str | SetConfirm str
  | SetUseToken bool | SetTokenOnly bool | SetPin str

fun form_step :: "unicode_data \<Rightarrow> form_event \<Rightarrow> create_form \<Rightarrow> create_form" where
  "form_step u (SetName v) f = emit_validity u (f\<lparr>cf_name := strip_text u v\<rparr>)"
| "form_step u (SetEmail v) f = emit_validity u (f\<lparr>cf_email := strip_text u v\<rparr>)"
| "form_step u (SetLabel v) f = (let (l, pl, pu, n) = cf_context f in f\<lparr>cf_context := (strip_text u v, pl, pu, n)\<rparr>)"
| "form_step u (SetPlatform v) f = (let (l, pl, pu, n) = cf_context f in f\<lparr>cf_context := (l, strip_text u v, pu, n)\<rparr>)"
| "form_step u (SetPurpose v) f = (let (l, pl, pu, n) = cf_context f in f\<lparr>cf_context := (l, pl, strip_text u v, n)\<rparr>)"
| "form_step u (SetNotes v) f = (let (l, pl, pu, n) = cf_context f in f\<lparr>cf_context := (l, pl, pu, strip_text u v)\<rparr>)"
| "form_step u (SetAlgorithm a n) f = emit_validity u (f\<lparr>cf_algorithm := a, cf_length := n\<rparr>)"
| "form_step u (SetExpiry v) f = emit_validity u (f\<lparr>cf_expiry := strip_text u v\<rparr>)"
| "form_step u (SetPassphrase v) f = emit_validity u (emit_signals
     [PassphraseStrength (if v = [] then None else Some (pa_strength (assess u v)))] (f\<lparr>cf_passphrase := v\<rparr>))"
| "form_step u (SetConfirm v) f = emit_validity u (f\<lparr>cf_confirm := v\<rparr>)"
| "form_step u (SetUseToken v) f = emit_validity u
     (if v then f\<lparr>cf_use_token := v\<rparr> else f\<lparr>cf_use_token := v, cf_token_only := False, cf_pin := []\<rparr>)"
| "form_step u (SetTokenOnly v) f = emit_validity u (f\<lparr>cf_token_only := v \<and> cf_use_token f\<rparr>)"
| "form_step u (SetPin v) f = emit_validity u (f\<lparr>cf_pin := v\<rparr>)"

definition form_run :: "unicode_data \<Rightarrow> form_event list \<Rightarrow> create_form \<Rightarrow> create_form" where
  "form_run u evs f = fold (form_step u) evs f"

section \<open>Submitting\<close>

definition secure_passphrase :: "unicode_data \<Rightarrow> bool \<Rightarrow> create_form \<Rightarrow> secure_bytes \<times> create_form" where
  "secure_passphrase u mlock f =
     (secure_from_text mlock (normalise_passphrase u (strip_text u (cf_passphrase f))),
      f\<lparr>cf_passphrase := [], cf_confirm := []\<rparr>)"

definition passphrase_job :: "unicode_data \<Rightarrow> bool \<Rightarrow> create_form \<Rightarrow> create_job \<times> create_form" where
  "passphrase_job u mlock f = (let (pp, f) = secure_passphrase u mlock f in (PassphraseJob pp, f))"

definition token_job :: "unicode_data \<Rightarrow> bool \<Rightarrow> create_form \<Rightarrow> create_job \<times> create_form" where
  "token_job u mlock f = (let pin = secure_from_text mlock (cf_pin f); f = f\<lparr>cf_pin := []\<rparr> in
     if cf_token_only f then (TokenJob pin None, f)
     else let (fallback, f) = secure_passphrase u mlock f in (TokenJob pin (Some fallback), f))"

definition submit_form :: "unicode_data \<Rightarrow> bool \<Rightarrow> create_form \<Rightarrow> create_job option \<times> create_form" where
  "submit_form u mlock f =
     (if \<not> form_valid u f then (None, f)
      else let f = emit_signals [Loading True] f;
               (job, f) = (if cf_use_token f then token_job u mlock f else passphrase_job u mlock f) in
        (Some job, f))"

text \<open>
  The job on its thread, with the form as it is by then: the outcome, the world after it, and the
  buffers the job was given. A closed buffer cannot be entered again.
\<close>

definition form_context :: "create_form \<Rightarrow> key_context" where
  "form_context f = (let (l, pl, pu, n) = cf_context f in
     \<lparr>kx_label = Some l, kx_purpose = Some pu, kx_platform = Some pl, kx_notes = Some n\<rparr>)"

fun run_job :: "('k, 'l, 't) app_env \<Rightarrow> create_form \<Rightarrow> create_job \<Rightarrow> ('k, 'l, 't) app_world \<Rightarrow>
    (key_info res \<times> ('k, 'l, 't) app_world) \<times> secure_bytes list" where
  "run_job env f (PassphraseJob pp) w = (case sb_enter pp of
       Inl e \<Rightarrow> ((Inl e, w), [pp])
     | Inr pp \<Rightarrow> (create_key env (cf_name f) (cf_email f) (cf_algorithm f) (cf_length f) (cf_expiry f) pp (form_context f) w,
         [sb_close pp]))"
| "run_job env f (TokenJob pin fallback) w = (case sb_enter pin of
       Inl e \<Rightarrow> ((Inl e, w), pin # (case fallback of None \<Rightarrow> [] | Some b \<Rightarrow> [b]))
     | Inr pin \<Rightarrow> (service_create_with_token env (cf_name f) (cf_email f) (cf_algorithm f) (cf_length f) (cf_expiry f)
           pin fallback (form_context f) w,
         sb_close pin # (case fallback of None \<Rightarrow> [] | Some b \<Rightarrow> [sb_close b])))"

definition job_signals :: "key_info res \<Rightarrow> create_signal list" where
  "job_signals r = [case r of Inl e \<Rightarrow> OperationFailed e | Inr k \<Rightarrow> OperationSucceeded k, Loading False]"

section \<open>What a job is started with\<close>

lemma token_only_needs_token:
  "(cf_token_only f \<longrightarrow> cf_use_token f) \<Longrightarrow> cf_token_only (form_run u evs f) \<longrightarrow> cf_use_token (form_run u evs f)"
proof (induction evs arbitrary: f)
  case (Cons ev evs)
  have "cf_token_only (form_step u ev f) \<longrightarrow> cf_use_token (form_step u ev f)"
    using Cons.prems by (cases ev) (auto simp: emit_validity_def emit_signals_def split: prod.split)
  then show ?case using Cons.IH by (simp add: form_run_def)
qed (simp add: form_run_def)

lemma emit_fields [simp]:
  "cf_passphrase (emit_signals ss f) = cf_passphrase f" "cf_confirm (emit_signals ss f) = cf_confirm f"
  "cf_use_token (emit_signals ss f) = cf_use_token f" "cf_token_only (emit_signals ss f) = cf_token_only f"
  "cf_pin (emit_signals ss f) = cf_pin f"
  by (simp_all add: emit_signals_def)

lemma secure_from_text_view [simp]: "sb_view (secure_from_text m t) = Inr t" "\<not> sb_closed (secure_from_text m t)"
  by (simp_all add: secure_from_text_def)

text \<open>
  The passphrase a buffer holds was typed twice and accepted; it is the typed text without the
  white space around it, and is accepted itself when there was none.
\<close>

definition vetted_passphrase :: "unicode_data \<Rightarrow> create_form \<Rightarrow> secure_bytes \<Rightarrow> bool" where
  "vetted_passphrase u f b \<longleftrightarrow> (let p = cf_passphrase f; secret = normalise_passphrase u (strip_text u p) in
     sb_view b = Inr secret \<and> p = cf_confirm f \<and> pa_accepted (assess u p) \<and>
     (strip_text u p = p \<longrightarrow> pa_accepted (assess u secret) \<and> MIN_PASSPHRASE_BYTES \<le> length secret))"

lemma secure_passphrase_vetted:
  assumes "unicode_ok u" "form_valid u f" "cf_use_token f \<longrightarrow> \<not> cf_token_only f"
  shows "vetted_passphrase u f (fst (secure_passphrase u m f))"
  using assms accepted_long [of u "cf_passphrase f"]
  by (auto simp: vetted_passphrase_def secure_passphrase_def form_valid_def assess_normalised Let_def split: if_splits)

lemma padded_secret: "secure_passphrase u m f = (b, g) \<Longrightarrow> cf_passphrase g = [] \<and> cf_confirm g = [] \<and> cf_pin g = cf_pin f"
  by (auto simp: secure_passphrase_def)

lemma vetted_same:
  "cf_passphrase g = cf_passphrase f \<Longrightarrow> cf_confirm g = cf_confirm f \<Longrightarrow> vetted_passphrase u g b = vetted_passphrase u f b"
  by (simp add: vetted_passphrase_def)

lemma secure_passphrase_same:
  "cf_passphrase g = cf_passphrase f \<Longrightarrow> fst (secure_passphrase u m g) = fst (secure_passphrase u m f)"
  by (simp add: secure_passphrase_def)

text \<open>
  C39. Whatever the form holds, a job is only started with a way to open the
  new key: without a security key, a passphrase that was typed twice and accepted by the policy;
  with one, a PIN that is not empty, and such a passphrase besides unless the user asked for none.
  What opens the key is the typed text with the white space around it removed, and it meets the
  policy itself when there was none. No typed secret that the job holds stays in the form.
\<close>

theorem new_key_can_be_opened:
  assumes "unicode_ok u" "submit_form u m f = (Some job, f')"
  shows "case job of
      PassphraseJob pp \<Rightarrow> \<not> cf_use_token f \<and> vetted_passphrase u f pp \<and> cf_passphrase f' = [] \<and> cf_confirm f' = []
    | TokenJob pin fallback \<Rightarrow> cf_use_token f \<and> sb_view pin = Inr (cf_pin f) \<and> cf_pin f \<noteq> [] \<and> cf_pin f' = [] \<and>
        (case fallback of
           None \<Rightarrow> cf_token_only f
         | Some b \<Rightarrow> \<not> cf_token_only f \<and> vetted_passphrase u f b \<and> cf_passphrase f' = [] \<and> cf_confirm f' = [])"
proof -
  have v: "form_valid u f" using assms(2) by (auto simp: submit_form_def split: if_splits)
  have pin: "cf_use_token f \<Longrightarrow> cf_pin f \<noteq> []" using v by (auto simp: form_valid_def split: if_splits)
  have w: "vetted_passphrase u f (secure_from_text m (normalise_passphrase u (strip_text u (cf_passphrase f))))"
    if "cf_use_token f \<longrightarrow> \<not> cf_token_only f"
    using secure_passphrase_vetted [OF assms(1) v that, of m] by (simp add: secure_passphrase_def)
  show ?thesis
    using assms(2) v pin w
    by (auto simp: submit_form_def token_job_def passphrase_job_def secure_passphrase_def Let_def split: if_splits)
qed

text \<open>A job wipes every buffer it was given, whatever comes of it.\<close>

lemma job_wipes:
  "\<forall>b \<in> set (snd (run_job env f job w)). sb_closed b"
  if "case job of PassphraseJob pp \<Rightarrow> True | TokenJob pin fallback \<Rightarrow> \<not> sb_closed pin"
  using that by (cases job) (auto simp: sb_enter_def split: option.splits)

section \<open>A database for ASCII\<close>

definition ascii_unicode :: unicode_data where
  "ascii_unicode = \<lparr>uc_nfkc = id, uc_lowercase = lower, uc_space = list_all is_space,
     uc_lower = list_all (\<lambda>c. 97 \<le> code c \<and> code c \<le> 122), uc_upper = list_all (\<lambda>c. 65 \<le> code c \<and> code c \<le> 90),
     uc_digit = list_all (\<lambda>c. 48 \<le> code c \<and> code c \<le> 57),
     uc_alnum = list_all (\<lambda>c. 97 \<le> code c \<and> code c \<le> 122 \<or> 65 \<le> code c \<and> code c \<le> 90 \<or> 48 \<le> code c \<and> code c \<le> 57)\<rparr>"

lemma ascii_unicode_ok: "unicode_ok ascii_unicode"
  by (simp add: unicode_ok_def ascii_unicode_def)

definition demo_form :: "str \<Rightarrow> create_form" where
  "demo_form p = form_run ascii_unicode [SetName ''Ann'', SetEmail ''a@b.c'', SetPassphrase p, SetConfirm p] new_form"

text \<open>
  White space after a short passphrase counts as length and as a class of characters, but the key
  is created without it: the secret of this job is rejected by the policy.
\<close>

lemma padded_passphrase_passes:
  "\<exists>f'. submit_form ascii_unicode True (demo_form ''Ab1             '') =
     (Some (PassphraseJob (secure_from_text True ''Ab1'')), f') \<and>
   pa_strength (assess ascii_unicode ''Ab1'') = REJECTED"
proof -
  have "form_valid ascii_unicode (demo_form ''Ab1             '')" by code_simp
  moreover have "strip_text ascii_unicode ''Ab1             '' = ''Ab1''" by code_simp
  moreover have "cf_passphrase (demo_form p) = p" "\<not> cf_use_token (demo_form p)" for p
    by (simp_all add: demo_form_def form_run_def new_form_def emit_validity_def)
  moreover have "pa_strength (assess ascii_unicode ''Ab1'') = REJECTED" by code_simp
  ultimately show ?thesis
    by (auto simp: submit_form_def passphrase_job_def secure_passphrase_def normalise_passphrase_def Let_def ascii_unicode_def)
qed

lemma new_key_can_be_opened_witness:
  "let f = demo_form ''correct horse battery staple''; (job, f') = submit_form ascii_unicode True f in
   case job of
     Some (PassphraseJob pp) \<Rightarrow> \<not> cf_use_token f \<and> vetted_passphrase ascii_unicode f pp \<and> cf_passphrase f' = [] \<and> cf_confirm f' = []
   | _ \<Rightarrow> False"
proof -
  let ?f = "demo_form ''correct horse battery staple''"
  have v: "form_valid ascii_unicode ?f" by code_simp
  have "\<not> cf_use_token ?f" by (simp add: demo_form_def form_run_def new_form_def emit_validity_def)
  then obtain pp f' where s: "submit_form ascii_unicode True ?f = (Some (PassphraseJob pp), f')"
    using v by (auto simp: submit_form_def passphrase_job_def secure_passphrase_def Let_def)
  show ?thesis using new_key_can_be_opened [OF ascii_unicode_ok s] s by simp
qed

end
