(* ===== verification/Export_Form.thy ===== *)
theory Export_Form
  imports Password_Policy Secure_Bytes Key_Info "HOL-Library.Multiset"
begin

text \<open>
  \<open>ui/vault/vault_export_viewmodel.py\<close>: the form a vault is exported from. It holds passphrases the
  user typed and passphrases that a security key derived; the latter come as buffers the form owns
  from then on. A buffer is known by the number it was handed over with, and the state keeps which
  ones were closed and which ones a running job has, so that the lemmas can follow each of them.
\<close>

section \<open>The form\<close>

datatype export_signal =
    UnlockState str bool
  | ExportLoading bool
  | ExportKeys "key_info list"
  | ExportSucceeded
  | ExportFailed

datatype export_buffer = Typed secure_bytes | Derived nat

record export_job =
  ej_keys :: "str list"
  ej_target :: str
  ej_description :: str
  ej_unlock :: "str list"
  ej_master :: "secure_bytes option"
  ej_passphrases :: "(str \<times> export_buffer) list"

record export_form =
  ef_selected :: "str list"
  ef_target :: "str option"
  ef_master :: str
  ef_confirm :: str
  ef_description :: str
  ef_passphrases :: "(str \<times> str) list"
  ef_secrets :: "(str \<times> nat) list"
  ef_unlocked :: "str set"
  ef_key_map :: "str \<rightharpoonup> key_info"
  ef_unlock_fps :: "str list"
  ef_token_only :: bool
  ef_closed :: "nat list"
  ef_jobs :: "export_job list"
  ef_signals :: "export_signal list"

definition new_export :: export_form where
  "new_export = \<lparr>ef_selected = [], ef_target = None, ef_master = [], ef_confirm = [], ef_description = [],
     ef_passphrases = [], ef_secrets = [], ef_unlocked = {}, ef_key_map = Map.empty, ef_unlock_fps = [],
     ef_token_only = False, ef_closed = [], ef_jobs = [], ef_signals = []\<rparr>"

text \<open>A dict as the list of its items: \<open>pop(k, None)\<close>, and \<open>d[k] = v\<close>, which keeps the place of a key.\<close>

definition without :: "'a \<Rightarrow> ('a \<times> 'b) list \<Rightarrow> ('a \<times> 'b) list" where
  "without k d = filter (\<lambda>e. fst e \<noteq> k) d"

definition with_item :: "'a \<Rightarrow> 'b \<Rightarrow> ('a \<times> 'b) list \<Rightarrow> ('a \<times> 'b) list" where
  "with_item k v d = (if k \<in> fst ` set d then map (\<lambda>e. if fst e = k then (k, v) else e) d else d @ [(k, v)])"

definition signal :: "export_signal \<Rightarrow> export_form \<Rightarrow> export_form" where
  "signal s f = f\<lparr>ef_signals := ef_signals f @ [s]\<rparr>"

definition discard_secret :: "str \<Rightarrow> export_form \<Rightarrow> export_form" where
  "discard_secret fp f = (case map_of (ef_secrets f) fp of
       None \<Rightarrow> f
     | Some secret \<Rightarrow> f\<lparr>ef_secrets := without fp (ef_secrets f), ef_closed := ef_closed f @ [secret]\<rparr>)"

definition mark_locked :: "str \<Rightarrow> export_form \<Rightarrow> export_form" where
  "mark_locked fp f = (if fp \<in> ef_unlocked f
     then signal (UnlockState fp False) (f\<lparr>ef_unlocked := ef_unlocked f - {fp}\<rparr>) else f)"

definition mark_unlocked :: "str \<Rightarrow> export_form \<Rightarrow> export_form" where
  "mark_unlocked fp f = signal (UnlockState fp True) (f\<lparr>ef_unlocked := insert fp (ef_unlocked f)\<rparr>)"

definition is_stub_key :: "export_form \<Rightarrow> str \<Rightarrow> bool" where
  "is_stub_key f fp \<longleftrightarrow> (case ef_key_map f fp of None \<Rightarrow> False | Some k \<Rightarrow> ki_is_stub k)"

definition lock_key :: "str \<Rightarrow> export_form \<Rightarrow> export_form" where
  "lock_key fp f = mark_locked fp (discard_secret fp (f\<lparr>ef_passphrases := without fp (ef_passphrases f)\<rparr>))"

text \<open>Deselecting a key does to it what locking it does; the order of a Python set is left open.\<close>

definition set_selected :: "str list \<Rightarrow> export_form \<Rightarrow> export_form" where
  "set_selected fps f = (let removed = filter (\<lambda>fp. fp \<notin> set fps) (remdups (ef_selected f));
       f = fold lock_key removed (f\<lparr>ef_selected := fps\<rparr>) in
     fold (\<lambda>fp f. if is_stub_key f fp \<and> fp \<notin> ef_unlocked f then mark_unlocked fp f else f) fps f)"

definition on_keys :: "key_info list \<Rightarrow> export_form \<Rightarrow> export_form" where
  "on_keys keys f = signal (ExportKeys keys) (f\<lparr>ef_key_map := map_of (rev (map (\<lambda>k. (ki_fingerprint k, k)) keys))\<rparr>)"

definition export_token_only :: "export_form \<Rightarrow> bool" where
  "export_token_only f \<longleftrightarrow> ef_token_only f \<and> ef_unlock_fps f \<noteq> []"

definition set_key_passphrase :: "str \<Rightarrow> str \<Rightarrow> export_form \<Rightarrow> export_form" where
  "set_key_passphrase fp p f = f\<lparr>ef_passphrases := with_item fp p (ef_passphrases f)\<rparr>"

definition unlock_key :: "str \<Rightarrow> export_form \<Rightarrow> bool \<times> export_form" where
  "unlock_key fp f = (case map_of (ef_passphrases f) fp of
       None \<Rightarrow> (False, f)
     | Some p \<Rightarrow> if p = [] then (False, f) else (True, mark_unlocked fp f))"

text \<open>Whether a security key can give the passphrase; the stored unlock methods are those of \<open>KeyUnlockService\<close>.\<close>

definition is_token_backed :: "(str \<Rightarrow> bool) option \<Rightarrow> export_form \<Rightarrow> str \<Rightarrow> bool" where
  "is_token_backed methods f fp = (case methods of
       None \<Rightarrow> False
     | Some has_token \<Rightarrow> if is_stub_key f fp then False else has_token fp)"

definition set_key_secret :: "str \<Rightarrow> nat \<Rightarrow> export_form \<Rightarrow> export_form" where
  "set_key_secret fp secret f = (let f = discard_secret fp f in
     mark_unlocked fp (f\<lparr>ef_secrets := with_item fp secret (ef_secrets f),
       ef_passphrases := without fp (ef_passphrases f)\<rparr>))"

definition reset_secrets :: "export_form \<Rightarrow> export_form" where
  "reset_secrets f = (let f = f\<lparr>ef_master := [], ef_confirm := [], ef_passphrases := []\<rparr>;
       f = fold discard_secret (map fst (ef_secrets f)) f in
     f\<lparr>ef_unlocked := {}\<rparr>)"

definition is_key_unlocked :: "export_form \<Rightarrow> str \<Rightarrow> bool" where
  "is_key_unlocked f fp \<longleftrightarrow> (if is_stub_key f fp then True else fp \<in> ef_unlocked f)"

section \<open>Submitting\<close>

definition can_submit_export :: "export_form \<Rightarrow> bool" where
  "can_submit_export f =
     (if ef_selected f = [] \<or> ef_target f = None then False
      else if \<not> export_token_only f \<and> (ef_master f = [] \<or> ef_master f \<noteq> ef_confirm f) then False
      else list_all (is_key_unlocked f) (ef_selected f))"

definition typed_passphrases ::
    "unicode_data \<Rightarrow> bool \<Rightarrow> export_form \<Rightarrow> str list \<Rightarrow> (str \<times> export_buffer) list" where
  "typed_passphrases u mlock f fps = fold (\<lambda>fp d. case map_of (ef_passphrases f) fp of
       None \<Rightarrow> d
     | Some p \<Rightarrow> with_item fp (Typed (secure_from_text mlock (normalise_passphrase u (strip_text u p)))) d) fps []"

fun take_secrets :: "str list \<Rightarrow> (str \<times> nat) list \<Rightarrow> (str \<times> export_buffer) list \<Rightarrow>
    (str \<times> nat) list \<times> (str \<times> export_buffer) list" where
  "take_secrets [] secrets d = (secrets, d)"
| "take_secrets (fp # fps) secrets d = (case map_of secrets fp of
       None \<Rightarrow> take_secrets fps secrets d
     | Some s \<Rightarrow> take_secrets fps (without fp secrets) (with_item fp (Derived s) d))"

definition submit_export :: "unicode_data \<Rightarrow> bool \<Rightarrow> export_form \<Rightarrow> export_form" where
  "submit_export u mlock f = (case ef_target f of
       None \<Rightarrow> f
     | Some target \<Rightarrow>
         if \<not> can_submit_export f then f
         else let f = signal (ExportLoading True) f;
           fps = ef_selected f;
           master = (if export_token_only f then None
             else Some (secure_from_text mlock (normalise_passphrase u (strip_text u (ef_master f)))));
           (secrets, passphrases) = take_secrets fps (ef_secrets f) (typed_passphrases u mlock f fps);
           job = \<lparr>ej_keys = fps, ej_target = target, ej_description = ef_description f, ej_unlock = ef_unlock_fps f,
             ej_master = master, ej_passphrases = passphrases\<rparr> in
         f\<lparr>ef_master := [], ef_confirm := [], ef_secrets := secrets,
           ef_passphrases := fold without fps (ef_passphrases f), ef_unlocked := ef_unlocked f - set fps,
           ef_jobs := ef_jobs f @ [job]\<rparr>)"

text \<open>
  What a job asks of \<open>VaultService.create\<close>. An empty \<open>SecureBytes\<close> has length 0 and is false in Python,
  so it counts as no master passphrase at all.
\<close>

definition job_master :: "export_job \<Rightarrow> secure_bytes option" where
  "job_master job = (case ej_master job of
       None \<Rightarrow> None
     | Some sb \<Rightarrow> if sb_size sb = 0 then None else Some sb)"

text \<open>
  The end of a job, of those that run: the worker's exit stack closes every buffer it was given, then its signals
  reach the form.
\<close>

definition derived_ids :: "(str \<times> export_buffer) list \<Rightarrow> nat list" where
  "derived_ids d = concat (map (\<lambda>e. case snd e of Derived s \<Rightarrow> [s] | Typed b \<Rightarrow> []) d)"

definition job_done :: "nat \<Rightarrow> bool \<Rightarrow> export_form \<Rightarrow> export_form" where
  "job_done i succeeded f = (case drop i (ef_jobs f) of
       [] \<Rightarrow> f
     | job # jobs \<Rightarrow>
         let f = f\<lparr>ef_jobs := take i (ef_jobs f) @ jobs, ef_closed := ef_closed f @ derived_ids (ej_passphrases job)\<rparr> in
         signal (ExportLoading False)
           (if succeeded then signal ExportSucceeded (reset_secrets f) else signal ExportFailed f))"

section \<open>Runs\<close>

datatype export_event =
    Select "str list" | LoadKeys "key_info list" | SetUnlockKeys "str list" | SetExportTokenOnly bool
  | SetTarget "str option" | SetMaster str | SetExportConfirm str | SetDescription str
  | SetKeyPassphrase str str | UnlockKey str | SetKeySecret str nat | LockKey str | ResetSecrets
  | SubmitExport | JobDone nat bool

fun export_step :: "unicode_data \<Rightarrow> bool \<Rightarrow> export_event \<Rightarrow> export_form \<Rightarrow> export_form" where
  "export_step u m (Select fps) f = set_selected fps f"
| "export_step u m (LoadKeys ks) f = on_keys ks f"
| "export_step u m (SetUnlockKeys fps) f = f\<lparr>ef_unlock_fps := fps\<rparr>"
| "export_step u m (SetExportTokenOnly b) f = f\<lparr>ef_token_only := b\<rparr>"
| "export_step u m (SetTarget p) f = f\<lparr>ef_target := p\<rparr>"
| "export_step u m (SetMaster p) f = f\<lparr>ef_master := p\<rparr>"
| "export_step u m (SetExportConfirm p) f = f\<lparr>ef_confirm := p\<rparr>"
| "export_step u m (SetDescription d) f = f\<lparr>ef_description := strip_text u d\<rparr>"
| "export_step u m (SetKeyPassphrase fp p) f = set_key_passphrase fp p f"
| "export_step u m (UnlockKey fp) f = snd (unlock_key fp f)"
| "export_step u m (SetKeySecret fp s) f = set_key_secret fp s f"
| "export_step u m (LockKey fp) f = lock_key fp f"
| "export_step u m ResetSecrets f = reset_secrets f"
| "export_step u m SubmitExport f = submit_export u m f"
| "export_step u m (JobDone i b) f = job_done i b f"

definition export_run :: "unicode_data \<Rightarrow> bool \<Rightarrow> export_event list \<Rightarrow> export_form \<Rightarrow> export_form" where
  "export_run u m evs f = fold (export_step u m) evs f"

section \<open>Every derived passphrase is accounted for\<close>

lemma without_simps [simp]:
  "fst ` set (without k d) = fst ` set d - {k}" "distinct (map fst d) \<Longrightarrow> distinct (map fst (without k d))"
  by (auto simp: without_def distinct_map_filter)

lemma without_mset:
  "distinct (map fst d) \<Longrightarrow> map_of d k = Some v \<Longrightarrow> mset (map snd d) = add_mset v (mset (map snd (without k d)))"
proof (induction d)
  case (Cons e d)
  show ?case
  proof (cases "fst e = k")
    case True
    then have "k \<notin> fst ` set d" using Cons.prems(1) by auto
    then have "without k d = d" unfolding without_def by (intro filter_True) auto
    then show ?thesis using True Cons.prems(2) by (cases e) (auto simp: without_def)
  next
    case False
    then show ?thesis using Cons by (cases e) (auto simp: without_def)
  qed
qed simp

lemma replaced_keys: "map fst (map (\<lambda>e. if fst e = k then (k, v) else e) d) = map fst d"
  by simp

lemma with_item_keys [simp]: "fst ` set (with_item k v d) = insert k (fst ` set d)"
  using arg_cong [OF replaced_keys [of k v d], of set] by (auto simp: with_item_def simp del: map_map)

lemma with_item_distinct [simp]: "distinct (map fst d) \<Longrightarrow> distinct (map fst (with_item k v d))"
  using replaced_keys [of k v d] by (auto simp: with_item_def simp del: map_map)

definition no_derived :: "str \<Rightarrow> (str \<times> export_buffer) list \<Rightarrow> bool" where
  "no_derived k d \<longleftrightarrow> list_all (\<lambda>e. fst e = k \<longrightarrow> (case snd e of Derived s \<Rightarrow> False | Typed b \<Rightarrow> True)) d"

lemma derived_ids_simps [simp]:
  "derived_ids [] = []" "derived_ids ((k, Derived s) # d) = s # derived_ids d" "derived_ids ((k, Typed b) # d) = derived_ids d"
  "derived_ids (d @ d') = derived_ids d @ derived_ids d'"
  by (simp_all add: derived_ids_def)

lemma with_derived:
  "distinct (map fst d) \<Longrightarrow> no_derived k d \<Longrightarrow> mset (derived_ids (with_item k (Derived s) d)) = add_mset s (mset (derived_ids d))"
proof (induction d)
  case (Cons e d)
  obtain k' b where e: "e = (k', b)" by (cases e)
  show ?case
  proof (cases "k' = k")
    case True
    have "map (\<lambda>e. if fst e = k then (k, Derived s) else e) d = d"
      using True e Cons.prems(1) by (intro map_idI) (force simp: image_iff)
    then show ?thesis using True e Cons.prems(2) by (cases b) (simp_all add: with_item_def no_derived_def)
  next
    case False
    then have "with_item k (Derived s) (e # d) = e # with_item k (Derived s) d" using e by (simp add: with_item_def)
    then show ?thesis using False e Cons by (cases b) (simp_all add: no_derived_def)
  qed
qed (simp add: with_item_def)

lemma no_derived_other: "k' \<noteq> k \<Longrightarrow> no_derived k d \<Longrightarrow> no_derived k (with_item k' v d)"
  by (auto simp: no_derived_def with_item_def list_all_iff)

lemma taken_secrets:
  assumes "take_secrets fps secrets d = (secrets', d')" "distinct (map fst secrets)" "distinct (map fst d)"
    "list_all (\<lambda>k. no_derived k d) (map fst secrets)"
  shows "mset (map snd secrets') + mset (derived_ids d') = mset (map snd secrets) + mset (derived_ids d) \<and>
    distinct (map fst secrets')"
  using assms
proof (induction fps secrets d rule: take_secrets.induct)
  case (2 fp fps secrets d)
  show ?case
  proof (cases "map_of secrets fp")
    case None
    then show ?thesis using 2 by simp
  next
    case (Some s)
    have fp: "fp \<in> fst ` set secrets" using map_of_SomeD [OF Some] by force
    then have n: "no_derived fp d" using "2.prems"(4) by (auto simp: list_all_iff)
    have "list_all (\<lambda>k. no_derived k (with_item fp (Derived s) d)) (map fst (without fp secrets))"
      using "2.prems"(4) no_derived_other by (auto simp: list_all_iff without_def)
    then show ?thesis
      using "2.IH"(2) [OF Some] "2.prems" Some with_derived [OF "2.prems"(3) n, of s] without_mset [OF "2.prems"(2) Some]
      by simp
  qed
qed simp

definition all_typed :: "(str \<times> export_buffer) list \<Rightarrow> bool" where
  "all_typed d \<longleftrightarrow> list_all (\<lambda>e. case snd e of Derived s \<Rightarrow> False | Typed b \<Rightarrow> True) d"

lemma typed_item: "all_typed d \<Longrightarrow> all_typed (with_item k (Typed b) d)"
  by (auto simp: all_typed_def with_item_def list_all_iff)

lemma typed_only: "distinct (map fst (typed_passphrases u m f fps)) \<and> all_typed (typed_passphrases u m f fps)"
proof -
  let ?add = "\<lambda>fp d. case map_of (ef_passphrases f) fp of None \<Rightarrow> d
     | Some p \<Rightarrow> with_item fp (Typed (secure_from_text m (normalise_passphrase u (strip_text u p)))) d"
  have step: "distinct (map fst d) \<and> all_typed d \<Longrightarrow> distinct (map fst (?add fp d)) \<and> all_typed (?add fp d)" for fp d
    by (cases "map_of (ef_passphrases f) fp") (simp_all add: typed_item)
  have "distinct (map fst d) \<and> all_typed d \<Longrightarrow> distinct (map fst (fold ?add fps d)) \<and> all_typed (fold ?add fps d)" for d
  proof (induction fps arbitrary: d)
    case (Cons fp fps)
    show ?case using Cons.IH [OF step [OF Cons.prems, of fp]] by simp
  qed simp
  then show ?thesis by (simp add: typed_passphrases_def all_typed_def)
qed

lemma all_typed_no_ids: "all_typed d \<Longrightarrow> derived_ids d = [] \<and> no_derived k d"
  by (induction d) (auto simp: derived_ids_def no_derived_def all_typed_def split: export_buffer.splits)

text \<open>The buffers that the form has, that running jobs have, and that were closed.\<close>

definition running_secrets :: "export_form \<Rightarrow> nat list" where
  "running_secrets f = concat (map (\<lambda>j. derived_ids (ej_passphrases j)) (ef_jobs f))"

definition accounted :: "export_form \<Rightarrow> nat multiset" where
  "accounted f = mset (map snd (ef_secrets f)) + mset (running_secrets f) + mset (ef_closed f)"

definition export_ok :: "export_form \<Rightarrow> bool" where
  "export_ok f \<longleftrightarrow> distinct (map fst (ef_secrets f))"

fun handed_over :: "export_event \<Rightarrow> nat list" where
  "handed_over (SetKeySecret fp s) = [s]"
| "handed_over ev = []"

named_theorems form_simps \<open>operations that leave the buffers alone\<close>

lemma signal_same [form_simps]: "accounted (signal s f) = accounted f" "export_ok (signal s f) = export_ok f"
  by (simp_all add: signal_def accounted_def running_secrets_def export_ok_def)

lemma mark_same [form_simps]:
  "accounted (mark_locked fp f) = accounted f" "export_ok (mark_locked fp f) = export_ok f"
  "accounted (mark_unlocked fp f) = accounted f" "export_ok (mark_unlocked fp f) = export_ok f"
  by (simp_all add: mark_locked_def mark_unlocked_def form_simps) (simp_all add: accounted_def running_secrets_def export_ok_def)

lemma discard_same [form_simps]:
  assumes "export_ok f"
  shows "accounted (discard_secret fp f) = accounted f" "export_ok (discard_secret fp f)"
  using assms without_mset [of "ef_secrets f" fp]
  by (auto simp: discard_secret_def accounted_def running_secrets_def export_ok_def split: option.split)

lemma discard_all_same:
  "export_ok f \<Longrightarrow> accounted (fold discard_secret fps f) = accounted f \<and> export_ok (fold discard_secret fps f)"
  by (induction fps arbitrary: f) (simp_all add: form_simps)

lemma lock_same [form_simps]:
  assumes "export_ok f"
  shows "accounted (lock_key fp f) = accounted f" "export_ok (lock_key fp f)"
proof -
  let ?f = "f\<lparr>ef_passphrases := without fp (ef_passphrases f)\<rparr>"
  have "export_ok ?f" "accounted ?f = accounted f" using assms by (simp_all add: export_ok_def accounted_def running_secrets_def)
  then show "accounted (lock_key fp f) = accounted f" "export_ok (lock_key fp f)"
    by (simp_all add: lock_key_def form_simps)
qed

lemma fold_same:
  "(\<And>x f. export_ok f \<Longrightarrow> accounted (g x f) = accounted f \<and> export_ok (g x f)) \<Longrightarrow> export_ok f \<Longrightarrow>
   accounted (fold g xs f) = accounted f \<and> export_ok (fold g xs f)"
  by (induction xs arbitrary: f) simp_all

lemma fields_same [form_simps]:
  "accounted (f\<lparr>ef_selected := x1\<rparr>) = accounted f" "export_ok (f\<lparr>ef_selected := x1\<rparr>) = export_ok f"
  "accounted (f\<lparr>ef_key_map := x2\<rparr>) = accounted f" "export_ok (f\<lparr>ef_key_map := x2\<rparr>) = export_ok f"
  "accounted (f\<lparr>ef_unlock_fps := x3\<rparr>) = accounted f" "export_ok (f\<lparr>ef_unlock_fps := x3\<rparr>) = export_ok f"
  "accounted (f\<lparr>ef_token_only := x4\<rparr>) = accounted f" "export_ok (f\<lparr>ef_token_only := x4\<rparr>) = export_ok f"
  "accounted (f\<lparr>ef_target := x5\<rparr>) = accounted f" "export_ok (f\<lparr>ef_target := x5\<rparr>) = export_ok f"
  "accounted (f\<lparr>ef_master := x6\<rparr>) = accounted f" "export_ok (f\<lparr>ef_master := x6\<rparr>) = export_ok f"
  "accounted (f\<lparr>ef_confirm := x7\<rparr>) = accounted f" "export_ok (f\<lparr>ef_confirm := x7\<rparr>) = export_ok f"
  "accounted (f\<lparr>ef_description := x8\<rparr>) = accounted f" "export_ok (f\<lparr>ef_description := x8\<rparr>) = export_ok f"
  "accounted (f\<lparr>ef_passphrases := x9\<rparr>) = accounted f" "export_ok (f\<lparr>ef_passphrases := x9\<rparr>) = export_ok f"
  "accounted (f\<lparr>ef_unlocked := x10\<rparr>) = accounted f" "export_ok (f\<lparr>ef_unlocked := x10\<rparr>) = export_ok f"
  by (simp_all add: accounted_def running_secrets_def export_ok_def)

lemma selected_same:
  assumes "export_ok f"
  shows "accounted (set_selected fps f) = accounted f \<and> export_ok (set_selected fps f)"
proof -
  let ?g = "fold lock_key (filter (\<lambda>fp. fp \<notin> set fps) (remdups (ef_selected f))) (f\<lparr>ef_selected := fps\<rparr>)"
  have "accounted ?g = accounted f \<and> export_ok ?g"
    using fold_same [of lock_key "f\<lparr>ef_selected := fps\<rparr>"] assms by (simp add: form_simps)
  moreover have "export_ok h \<Longrightarrow> accounted (fold (\<lambda>fp f. if is_stub_key f fp \<and> fp \<notin> ef_unlocked f then mark_unlocked fp f else f) fps h) =
      accounted h \<and> export_ok (fold (\<lambda>fp f. if is_stub_key f fp \<and> fp \<notin> ef_unlocked f then mark_unlocked fp f else f) fps h)" for h
    by (rule fold_same) (simp_all add: form_simps)
  ultimately show ?thesis by (simp add: set_selected_def Let_def)
qed

lemma reset_same:
  assumes "export_ok f"
  shows "accounted (reset_secrets f) = accounted f \<and> export_ok (reset_secrets f)"
  using discard_all_same [of "f\<lparr>ef_master := [], ef_confirm := [], ef_passphrases := []\<rparr>"] assms
  by (simp add: reset_secrets_def Let_def form_simps)

lemma discarded: "export_ok f \<Longrightarrow> fst ` set (ef_secrets (discard_secret fp f)) = fst ` set (ef_secrets f) - {fp}"
  by (auto simp: discard_secret_def map_of_eq_None_iff split: option.split)

lemma secret_added:
  assumes "export_ok f"
  shows "accounted (set_key_secret fp s f) = add_mset s (accounted f) \<and> export_ok (set_key_secret fp s f)"
proof -
  let ?g = "discard_secret fp f"
  have g: "accounted ?g = accounted f" "export_ok ?g" "fp \<notin> fst ` set (ef_secrets ?g)"
    using assms discarded [OF assms, of fp] by (simp_all add: form_simps)
  have n: "with_item fp s (ef_secrets ?g) = ef_secrets ?g @ [(fp, s)]" using g(3) by (simp add: with_item_def)
  have "accounted (?g\<lparr>ef_secrets := ef_secrets ?g @ [(fp, s)]\<rparr>) = add_mset s (accounted f)"
    using g(1) by (simp add: accounted_def running_secrets_def)
  moreover have "export_ok (?g\<lparr>ef_secrets := ef_secrets ?g @ [(fp, s)]\<rparr>)" using g(2,3) by (simp add: export_ok_def)
  ultimately show ?thesis
    by (simp add: set_key_secret_def Let_def form_simps n)
qed

lemma submit_same:
  assumes "export_ok f"
  shows "accounted (submit_export u m f) = accounted f \<and> export_ok (submit_export u m f)"
proof (cases "ef_target f = None \<or> \<not> can_submit_export f")
  case True
  then show ?thesis using assms by (auto simp: submit_export_def split: option.split)
next
  case False
  then obtain target where t: "ef_target f = Some target" "can_submit_export f" by auto
  let ?f = "signal (ExportLoading True) f"
  have f: "ef_secrets ?f = ef_secrets f" "ef_jobs ?f = ef_jobs f" "ef_closed ?f = ef_closed f" "ef_selected ?f = ef_selected f"
    by (simp_all add: signal_def)
  let ?typed = "typed_passphrases u m ?f (ef_selected f)"
  obtain secrets d where d: "take_secrets (ef_selected f) (ef_secrets f) ?typed = (secrets, d)"
    by (cases "take_secrets (ef_selected f) (ef_secrets f) ?typed")
  have ty: "distinct (map fst ?typed)" "derived_ids ?typed = []" "\<And>k. no_derived k ?typed"
    using typed_only [of u m ?f "ef_selected f"] all_typed_no_ids by blast+
  have "mset (map snd secrets) + mset (derived_ids d) = mset (map snd (ef_secrets f))" "distinct (map fst secrets)"
    using taken_secrets [OF d _ ty(1)] ty(2,3) assms by (simp_all add: export_ok_def list_all_iff)
  then show ?thesis
    using t d by (simp add: submit_export_def Let_def f accounted_def running_secrets_def export_ok_def add_ac)
qed

lemma job_done_same:
  assumes "export_ok f"
  shows "accounted (job_done i b f) = accounted f \<and> export_ok (job_done i b f)"
proof (cases "drop i (ef_jobs f)")
  case Nil
  then show ?thesis using assms by (simp add: job_done_def)
next
  case (Cons job jobs)
  let ?f = "f\<lparr>ef_jobs := take i (ef_jobs f) @ jobs, ef_closed := ef_closed f @ derived_ids (ej_passphrases job)\<rparr>"
  have r: "running_secrets (g\<lparr>ef_jobs := js, ef_closed := cs\<rparr>) = concat (map (\<lambda>j. derived_ids (ej_passphrases j)) js)" for g js cs
    by (simp add: running_secrets_def)
  have jobs: "ef_jobs f = take i (ef_jobs f) @ job # jobs" using Cons by (metis append_take_drop_id)
  have "mset (running_secrets f) = mset (running_secrets ?f) + mset (derived_ids (ej_passphrases job))"
    unfolding r running_secrets_def by (subst jobs) (simp add: add_ac)
  then have "accounted ?f = accounted f" by (simp add: accounted_def running_secrets_def add_ac)
  moreover have "export_ok ?f" using assms by (simp add: export_ok_def)
  ultimately show ?thesis
    using reset_same [of ?f] Cons by (simp add: job_done_def Let_def form_simps)
qed

lemma step_accounted:
  assumes "export_ok f"
  shows "accounted (export_step u m ev f) = accounted f + mset (handed_over ev) \<and> export_ok (export_step u m ev f)"
  using assms selected_same [OF assms] reset_same [OF assms] secret_added [OF assms] submit_same [OF assms]
    job_done_same [OF assms]
  by (cases ev) (simp_all add: form_simps on_keys_def set_key_passphrase_def unlock_key_def split: option.split)

lemma run_accounted:
  "export_ok f \<Longrightarrow> accounted (export_run u m evs f) = accounted f + mset (concat (map handed_over evs)) \<and>
     export_ok (export_run u m evs f)"
proof (induction evs arbitrary: f)
  case (Cons ev evs)
  then show ?case using step_accounted [OF Cons.prems, of u m ev] by (simp add: export_run_def add_ac)
qed (simp add: export_run_def)

lemma new_export_simps [simp]: "export_ok new_export" "accounted new_export = {#}"
  by (simp_all add: export_ok_def accounted_def running_secrets_def new_export_def)

lemma discard_all:
  "export_ok f \<Longrightarrow> fst ` set (ef_secrets (fold discard_secret fps f)) = fst ` set (ef_secrets f) - set fps"
proof (induction fps arbitrary: f)
  case (Cons fp fps)
  then have "fst ` set (ef_secrets (fold discard_secret fps (discard_secret fp f))) = fst ` set (ef_secrets f) - {fp} - set fps"
    using discarded by (simp add: form_simps)
  then show ?case by auto
qed simp

lemma form_reset_empties: "export_ok f \<Longrightarrow> ef_secrets (reset_secrets f) = []"
proof -
  let ?f = "f\<lparr>ef_master := [], ef_confirm := [], ef_passphrases := []\<rparr>"
  assume "export_ok f"
  then have "fst ` set (ef_secrets (fold discard_secret (map fst (ef_secrets f)) ?f)) = {}"
    using discard_all [of ?f "map fst (ef_secrets f)"] by (simp add: form_simps)
  then show "ef_secrets (reset_secrets f) = []" by (simp add: reset_secrets_def Let_def)
qed

lemma reset_jobs: "running_secrets (reset_secrets f) = running_secrets f"
proof -
  have "ef_jobs (fold discard_secret fps g) = ef_jobs g" for fps g
    by (induction fps arbitrary: g) (auto simp: discard_secret_def split: option.split)
  then show ?thesis by (simp add: running_secrets_def reset_secrets_def Let_def)
qed

text \<open>
  C38. Each passphrase that a security key derived is in one place:
  after any sequence of what the user and the workers do, the buffers that were handed to the form
  are the ones that it holds, the ones that running exports hold and the ones that were closed, each
  as often as it was handed over. Resetting the form closes all but those of the running exports.
\<close>

theorem derived_passphrases_accounted:
  "let f = export_run u m evs new_export; given = mset (concat (map handed_over evs)) in
   given = mset (map snd (ef_secrets f)) + mset (running_secrets f) + mset (ef_closed f) \<and>
   given = mset (running_secrets f) + mset (ef_closed (reset_secrets f))"
proof -
  let ?f = "export_run u m evs new_export"
  have f: "accounted ?f = mset (concat (map handed_over evs))" "export_ok ?f"
    using run_accounted [of new_export u m evs] by simp_all
  moreover have "accounted (reset_secrets ?f) = accounted ?f" using reset_same [OF f(2)] by simp
  ultimately show ?thesis
    using form_reset_empties [OF f(2)] reset_jobs [of ?f] by (simp add: accounted_def Let_def)
qed

text \<open>The job that an export is started with, and that it has a way to open the vault.\<close>

lemma submitted_job:
  assumes "can_submit_export f"
  obtains job where "ef_jobs (submit_export u m f) = ef_jobs f @ [job]" "ej_keys job = ef_selected f"
    "ef_master (submit_export u m f) = []" "ef_confirm (submit_export u m f) = []"
    "ej_unlock job = ef_unlock_fps f" "ej_master job = (if export_token_only f then None
       else Some (secure_from_text m (normalise_passphrase u (strip_text u (ef_master f)))))"
proof -
  let ?f = "signal (ExportLoading True) f"
  have f: "ef_selected ?f = ef_selected f" "ef_jobs ?f = ef_jobs f" "ef_unlock_fps ?f = ef_unlock_fps f"
    "ef_master ?f = ef_master f" "export_token_only ?f = export_token_only f"
    by (simp_all add: signal_def export_token_only_def)
  obtain target where t: "ef_target f = Some target"
    using assms(1) by (auto simp: can_submit_export_def split: if_splits)
  obtain secrets d where
    "take_secrets (ef_selected f) (ef_secrets ?f) (typed_passphrases u m ?f (ef_selected f)) = (secrets, d)"
    by fastforce
  with t assms(1) that show thesis by (simp add: submit_export_def Let_def f)
qed

lemma export_can_be_opened:
  assumes "can_submit_export f" "normalise_passphrase u (strip_text u (ef_master f)) \<noteq> []"
  obtains job where "ef_jobs (submit_export u m f) = ef_jobs f @ [job]" "ej_keys job \<noteq> []"
    "job_master job \<noteq> None \<or> ej_unlock job \<noteq> []"
proof -
  obtain job where job: "ef_jobs (submit_export u m f) = ef_jobs f @ [job]" "ej_keys job = ef_selected f"
    "ej_unlock job = ef_unlock_fps f" "ej_master job = (if export_token_only f then None
       else Some (secure_from_text m (normalise_passphrase u (strip_text u (ef_master f)))))"
    using submitted_job [OF assms(1), of u m] by metis
  have "ef_selected f \<noteq> []" using assms(1) by (auto simp: can_submit_export_def split: if_splits)
  moreover have "job_master job \<noteq> None \<or> ej_unlock job \<noteq> []"
    using job(3,4) assms(2) by (simp add: job_master_def secure_from_text_def export_token_only_def)
  ultimately show thesis using that job(1,2) by simp
qed

text \<open>
  A master passphrase of blanks only is not empty, so it can be submitted; the job has none then.
  With an unlock key the vault opens with that key alone, which the user did not ask for.
\<close>

lemma blank_master_dropped:
  assumes "can_submit_export f" "\<not> ef_token_only f" "strip_text u (ef_master f) = []" "uc_nfkc u [] = []"
  obtains job where "ef_jobs (submit_export u m f) = ef_jobs f @ [job]" "job_master job = None"
    "ej_unlock job = ef_unlock_fps f"
proof -
  obtain job where job: "ef_jobs (submit_export u m f) = ef_jobs f @ [job]" "ej_unlock job = ef_unlock_fps f"
    "ej_master job = (if export_token_only f then None
       else Some (secure_from_text m (normalise_passphrase u (strip_text u (ef_master f)))))"
    using submitted_job [OF assms(1), of u m] by metis
  then show thesis
    using that assms(2-4)
    by (simp add: job_master_def secure_from_text_def normalise_passphrase_def export_token_only_def)
qed

end
