(* ===== verification/Message_Forms.thy ===== *)
theory Message_Forms
  imports Password_Policy Folder_Service
begin

text \<open>
  The view models of the message and folder tabs (\<open>ui/worker.py\<close>, \<open>ui/operation_viewmodel.py\<close>,
  \<open>ui/messages/*_viewmodel.py\<close>): how an operation runs on a worker and how its outcome comes back,
  and which requests the forms make of the services. The lemmas say that an outcome is reported
  once and a decrypted text never travels in a signal, that every encryption has a confirmation of
  its own, and that a folder is only encrypted with a passphrase the policy accepts.
\<close>

section \<open>Workers\<close>

datatype 'a worker_signal = ResultReady | WorkerResult 'a | WorkerError exn | WorkerFinished

record 'a worker =
  wk_emit_result :: bool
  wk_result :: "'a option"

definition new_worker :: "bool \<Rightarrow> 'a worker" where
  "new_worker emit_result = \<lparr>wk_emit_result = emit_result, wk_result = None\<rparr>"

definition run_worker :: "'a res \<Rightarrow> 'a worker \<Rightarrow> 'a worker_signal list \<times> 'a worker" where
  "run_worker outcome w = (case outcome of
       Inr result \<Rightarrow> ([ResultReady] @ (if wk_emit_result w then [WorkerResult result] else []) @ [WorkerFinished],
         w\<lparr>wk_result := Some result\<rparr>)
     | Inl e \<Rightarrow> ([WorkerError e, WorkerFinished], w))"

definition take_result :: "'a worker \<Rightarrow> 'a option \<times> 'a worker" where
  "take_result w = (wk_result w, w\<lparr>wk_result := None\<rparr>)"

datatype 'a operation_signal = Succeeded 'a | Failed exn | LoadingChanged bool

text \<open>
  \<open>_run\<close>: which handlers are connected, and what the view model emits while the signals of the
  worker are delivered. Every result is of the expected type; that of an empty worker is not.
\<close>

fun deliver :: "bool \<Rightarrow> 'a worker_signal \<Rightarrow> 'a worker \<Rightarrow> 'a operation_signal list \<times> 'a worker" where
  "deliver secure ResultReady w = (if secure
     then let (r, w) = take_result w in ((case r of None \<Rightarrow> [] | Some x \<Rightarrow> [Succeeded x]), w)
     else ([], w))"
| "deliver secure (WorkerResult x) w = (if secure then [] else [Succeeded x], w)"
| "deliver secure (WorkerError e) w = ([Failed e], w)"
| "deliver secure WorkerFinished w = ([LoadingChanged False], w)"

fun deliver_all :: "bool \<Rightarrow> 'a worker_signal list \<Rightarrow> 'a worker \<Rightarrow> 'a operation_signal list \<times> 'a worker" where
  "deliver_all secure [] w = ([], w)"
| "deliver_all secure (s # ss) w =
     (let (out, w) = deliver secure s w; (outs, w) = deliver_all secure ss w in (out @ outs, w))"

definition run_operation :: "bool \<Rightarrow> 'a res \<Rightarrow> 'a operation_signal list \<times> 'a worker" where
  "run_operation secure outcome =
     (let (signals, w) = run_worker outcome (new_worker (\<not> secure)) in deliver_all secure signals w)"

section \<open>Passphrases\<close>

definition read_passphrase :: "unicode_data \<Rightarrow> bool \<Rightarrow> str option \<Rightarrow> secure_bytes option" where
  "read_passphrase u mlock typed = (let pp = (case typed of None \<Rightarrow> [] | Some t \<Rightarrow> strip_text u t) in
     if pp = [] then None else Some (secure_from_text mlock (normalise_passphrase u pp)))"

text \<open>\<open>with passphrase: body\<close>: the body's outcome, and the buffer after it.\<close>

definition with_secret ::
    "secure_bytes option \<Rightarrow> (secure_bytes option \<Rightarrow> 's \<Rightarrow> 'a res \<times> 's) \<Rightarrow> 's \<Rightarrow> ('a res \<times> 's) \<times> secure_bytes option" where
  "with_secret b body w = (case b of
       None \<Rightarrow> (body None w, None)
     | Some sb \<Rightarrow> case sb_enter sb of
         Inl e \<Rightarrow> ((Inl e, w), Some sb)
       | Inr sb \<Rightarrow> (body (Some sb) w, Some (sb_close sb)))"

section \<open>Encryption\<close>

record encrypt_request =
  er_plaintext :: bytes
  er_recipients :: "str list"
  er_sign_with :: "str option"
  er_passphrase :: "secure_bytes option"
  er_trust :: bool

record encrypt_form =
  en_plaintext :: str
  en_recipients :: "str list"
  en_sign_with :: "str option"
  en_trust :: bool
  en_requests :: "encrypt_request list"

definition new_encrypt_form :: encrypt_form where
  "new_encrypt_form = \<lparr>en_plaintext = [], en_recipients = [], en_sign_with = None, en_trust = False, en_requests = []\<rparr>"

definition can_encrypt :: "unicode_data \<Rightarrow> encrypt_form \<Rightarrow> bool" where
  "can_encrypt u f \<longleftrightarrow> strip_text u (en_plaintext f) \<noteq> [] \<and> en_recipients f \<noteq> [] \<and> en_trust f"

definition submit_encrypt :: "unicode_data \<Rightarrow> bool \<Rightarrow> str option \<Rightarrow> encrypt_form \<Rightarrow> encrypt_form" where
  "submit_encrypt u mlock typed f =
     (if \<not> can_encrypt u f then f
      else f\<lparr>en_requests := en_requests f @
          [\<lparr>er_plaintext = en_plaintext f, er_recipients = en_recipients f, er_sign_with = en_sign_with f,
            er_passphrase = read_passphrase u mlock typed, er_trust = en_trust f\<rparr>],
        en_trust := False\<rparr>)"

definition run_encrypt ::
    "('k, 'l, 't) app_env \<Rightarrow> encrypt_request \<Rightarrow> ('k, 'l, 't) app_world \<Rightarrow>
     (encrypt_result res \<times> ('k, 'l, 't) app_world) \<times> secure_bytes option" where
  "run_encrypt env r = with_secret (er_passphrase r)
     (\<lambda>pp. message_encrypt env (er_plaintext r) (er_recipients r) (er_sign_with r) pp (er_trust r) (er_trust r))"

datatype encrypt_event =
    SetPlaintext str | SetRecipients "str list" | SetSignWith "str option" | SetTrust bool | SubmitEncrypt "str option"

fun encrypt_step :: "unicode_data \<Rightarrow> bool \<Rightarrow> encrypt_event \<Rightarrow> encrypt_form \<Rightarrow> encrypt_form" where
  "encrypt_step u m (SetPlaintext t) f = f\<lparr>en_plaintext := t\<rparr>"
| "encrypt_step u m (SetRecipients fps) f = f\<lparr>en_recipients := fps\<rparr>"
| "encrypt_step u m (SetSignWith s) f = f\<lparr>en_sign_with := s\<rparr>"
| "encrypt_step u m (SetTrust b) f = f\<lparr>en_trust := b\<rparr>"
| "encrypt_step u m (SubmitEncrypt typed) f = submit_encrypt u m typed f"

definition encrypt_form_run :: "unicode_data \<Rightarrow> bool \<Rightarrow> encrypt_event list \<Rightarrow> encrypt_form \<Rightarrow> encrypt_form" where
  "encrypt_form_run u m evs f = fold (encrypt_step u m) evs f"

section \<open>Signing, verifying, decrypting\<close>

record sign_form =
  sf_data :: str
  sf_fingerprint :: str
  sf_passphrase_non_empty :: bool
  sf_detached :: bool

definition can_sign :: "unicode_data \<Rightarrow> sign_form \<Rightarrow> bool" where
  "can_sign u f \<longleftrightarrow> strip_text u (sf_data f) \<noteq> [] \<and> sf_fingerprint f \<noteq> [] \<and> sf_passphrase_non_empty f"

text \<open>The job of a form, when it submits one.\<close>

definition submit_sign ::
    "unicode_data \<Rightarrow> bool \<Rightarrow> ('k, 'l, 't) app_env \<Rightarrow> str \<Rightarrow> sign_form \<Rightarrow>
     (('k, 'l, 't) app_world \<Rightarrow> (sign_result res \<times> ('k, 'l, 't) app_world) \<times> secure_bytes option) option" where
  "submit_sign u mlock env typed f =
     (if \<not> can_sign u f then None
      else case read_passphrase u mlock (Some typed) of
        None \<Rightarrow> None
      | Some pp \<Rightarrow> Some (with_secret (Some pp) (\<lambda>b w. case b of
          None \<Rightarrow> (Inl RuntimeError, w)
        | Some pp \<Rightarrow> message_sign env (sf_data f) (sf_fingerprint f) pp (sf_detached f) w)))"

definition submit_verify ::
    "unicode_data \<Rightarrow> ('k, 'l, 't) app_env \<Rightarrow> str \<Rightarrow> str \<Rightarrow> ('k, 'l, 't, verify_result) app_prog option" where
  "submit_verify u env data signature =
     (if strip_text u data = [] then None
      else Some (message_verify env data (if strip_text u signature \<noteq> [] then Some signature else None)))"

definition submit_decrypt ::
    "unicode_data \<Rightarrow> bool \<Rightarrow> ('k, 'l, 't) app_env \<Rightarrow> str \<Rightarrow> str \<Rightarrow>
     (('k, 'l, 't) app_world \<Rightarrow> (decrypt_result res \<times> ('k, 'l, 't) app_world) \<times> secure_bytes option) option" where
  "submit_decrypt u mlock env ciphertext typed =
     (if strip_text u ciphertext = [] then None
      else Some (with_secret (read_passphrase u mlock (Some typed)) (\<lambda>pp. message_decrypt env ciphertext pp)))"

text \<open>With a passphrase from a security key: without a job the buffer is closed at once.\<close>

definition submit_with_secret ::
    "unicode_data \<Rightarrow> ('k, 'l, 't) app_env \<Rightarrow> str \<Rightarrow> secure_bytes \<Rightarrow>
     secure_bytes + (('k, 'l, 't) app_world \<Rightarrow> (decrypt_result res \<times> ('k, 'l, 't) app_world) \<times> secure_bytes option)" where
  "submit_with_secret u env ciphertext secret =
     (if strip_text u ciphertext = [] then Inl (sb_close secret)
      else Inr (with_secret (Some secret) (\<lambda>pp. message_decrypt env ciphertext pp)))"

section \<open>Folders\<close>

record folder_request =
  fr_folder :: path
  fr_target :: path
  fr_recipients :: "str list"
  fr_trust :: bool
  fr_passphrase :: "secure_bytes option"

definition submit_folder_encrypt ::
    "unicode_data \<Rightarrow> bool \<Rightarrow> path \<Rightarrow> path \<Rightarrow> str option \<Rightarrow> bool \<Rightarrow> str \<Rightarrow> folder_request option \<times> unit operation_signal list" where
  "submit_folder_encrypt u mlock folder target recipient trust_confirmed typed =
     (if recipient = None \<and> \<not> pa_accepted (assess u (normalise_passphrase u (strip_text u typed)))
      then (None, [Failed ValueError])
      else let passphrase = (if recipient = None then read_passphrase u mlock (Some typed) else None);
               recipients = (case recipient of None \<Rightarrow> [] | Some r \<Rightarrow> if r = [] then [] else [r]) in
        (Some \<lparr>fr_folder = folder, fr_target = target, fr_recipients = recipients, fr_trust = trust_confirmed,
           fr_passphrase = passphrase\<rparr>, [LoadingChanged True]))"

definition run_folder_encrypt ::
    "folder_env \<Rightarrow> ('g \<times> file_system, 'l, 't) app_env \<Rightarrow> folder_request \<Rightarrow> ('g \<times> file_system, 'l, 't) app_world \<Rightarrow>
     (path res \<times> ('g \<times> file_system, 'l, 't) app_world) \<times> secure_bytes option" where
  "run_folder_encrypt fe env r = with_secret (fr_passphrase r) (\<lambda>b. case b of
       None \<Rightarrow> encrypt_folder fe env (fr_folder r) (fr_target r) (fr_recipients r) None (fr_trust r)
     | Some pp \<Rightarrow> encrypt_folder fe env (fr_folder r) (fr_target r) [] (Some pp) False)"

definition run_folder_decrypt ::
    "folder_env \<Rightarrow> ('g \<times> file_system, 'l, 't) app_env \<Rightarrow> unicode_data \<Rightarrow> bool \<Rightarrow> path \<Rightarrow> path \<Rightarrow> str \<Rightarrow>
     ('g \<times> file_system, 'l, 't) app_world \<Rightarrow>
     (folder_decrypt_result res \<times> ('g \<times> file_system, 'l, 't) app_world) \<times> secure_bytes option" where
  "run_folder_decrypt fe env u mlock source destination typed =
     with_secret (read_passphrase u mlock (Some typed)) (decrypt_folder fe env source destination)"

section \<open>Outcomes\<close>

text \<open>
  Both ways of running an operation report the same, once, and the loading state ends; the secure
  way carries no result in a signal of the worker, and leaves none behind.
\<close>

lemma outcome_reported:
  "fst (run_operation secure outcome) =
     [case outcome of Inl e \<Rightarrow> Failed e | Inr x \<Rightarrow> Succeeded x, LoadingChanged False]"
  "WorkerResult x \<notin> set (fst (run_worker outcome (new_worker False)))"
  "wk_result (snd (run_operation True outcome)) = None"
  by (cases secure; cases outcome;
      simp add: run_operation_def run_worker_def new_worker_def take_result_def)
    (cases outcome; simp add: run_operation_def run_worker_def new_worker_def take_result_def)+

lemma secret_wiped: "snd (with_secret (Some sb) body w) = Some b \<Longrightarrow> sb_closed b"
  by (auto simp: with_secret_def sb_enter_def split: if_splits)

lemma read_passphrase_Some:
  "read_passphrase u m typed = Some b \<Longrightarrow>
     \<exists>t. typed = Some t \<and> strip_text u t \<noteq> [] \<and> sb_view b = Inr (normalise_passphrase u (strip_text u t)) \<and> \<not> sb_closed b"
  by (auto simp: read_passphrase_def secure_from_text_def Let_def split: if_splits option.splits)

section \<open>Confirmations\<close>

definition confirmations :: "encrypt_event list \<Rightarrow> nat" where
  "confirmations evs = length (filter (\<lambda>ev. ev = SetTrust True) evs)"

definition open_confirmations :: "encrypt_form \<Rightarrow> nat" where
  "open_confirmations f = length (en_requests f) + of_bool (en_trust f)"

lemma step_confirmations:
  "open_confirmations (encrypt_step u m ev f) \<le> open_confirmations f + of_bool (ev = SetTrust True)"
  by (cases ev) (auto simp: open_confirmations_def submit_encrypt_def can_encrypt_def)

lemma run_confirmations: "open_confirmations (encrypt_form_run u m evs f) \<le> open_confirmations f + confirmations evs"
proof (induction evs arbitrary: f)
  case (Cons ev evs)
  show ?case
    using Cons.IH [of "encrypt_step u m ev f"] step_confirmations [of u m ev f]
    by (auto simp: encrypt_form_run_def confirmations_def)
qed (simp add: encrypt_form_run_def)

definition request_complete :: "encrypt_request \<Rightarrow> bool" where
  "request_complete r \<longleftrightarrow> er_trust r \<and> er_recipients r \<noteq> [] \<and> er_plaintext r \<noteq> []"

lemma strip_nothing: "strip_text u t \<noteq> [] \<Longrightarrow> t \<noteq> []"
  by (auto simp: strip_text_def)

lemma run_complete:
  "list_all request_complete (en_requests f) \<Longrightarrow> list_all request_complete (en_requests (encrypt_form_run u m evs f))"
proof (induction evs arbitrary: f)
  case (Cons ev evs)
  have "list_all request_complete (en_requests (encrypt_step u m ev f))"
    using Cons.prems strip_nothing by (cases ev) (auto simp: submit_encrypt_def can_encrypt_def request_complete_def [of "\<lparr>er_plaintext = p, er_recipients = r, er_sign_with = s, er_passphrase = q, er_trust = t\<rparr>" for p r s q t])
  then show ?case using Cons.IH by (simp add: encrypt_form_run_def)
qed (simp add: encrypt_form_run_def)

text \<open>
  A confirmation of the recipients is used up by one encryption:
  in every run of the form there are at most as many requests to the service as times the box was
  ticked, and each request was confirmed, has a text and has recipients.
\<close>

lemma encryption_confirmed_each_time:
  "let f = encrypt_form_run u m evs new_encrypt_form in
   length (en_requests f) \<le> confirmations evs \<and> list_all request_complete (en_requests f)"
  using run_confirmations [of u m evs new_encrypt_form] run_complete [of new_encrypt_form u m evs]
  by (simp add: open_confirmations_def new_encrypt_form_def Let_def)

text \<open>A recipient that is added after the box was ticked is covered by that confirmation.\<close>

lemma late_recipient_confirmed:
  assumes "strip_text u text \<noteq> []"
  shows "map (\<lambda>r. (er_recipients r, er_trust r)) (en_requests (encrypt_form_run u m
      [SetPlaintext text, SetRecipients [a], SetTrust True, SetRecipients [a, b], SubmitEncrypt None] new_encrypt_form)) =
    [([a, b], True)]"
  using assms by (simp add: encrypt_form_run_def new_encrypt_form_def submit_encrypt_def can_encrypt_def)

section \<open>The passphrase of a folder\<close>

text \<open>The passphrase that is assessed is the one the folder is encrypted with.\<close>

lemma folder_passphrase_accepted:
  assumes "unicode_ok u" "submit_folder_encrypt u m folder target None trust typed = (Some r, out)"
  obtains pp secret where "fr_passphrase r = Some pp" "sb_view pp = Inr secret" "\<not> sb_closed pp"
    "pa_accepted (assess u secret)" "12 \<le> length secret" "fr_recipients r = []"
proof -
  let ?s = "normalise_passphrase u (strip_text u typed)"
  have acc: "pa_accepted (assess u ?s)" and r: "fr_passphrase r = read_passphrase u m (Some typed)" "fr_recipients r = []"
    using assms(2) by (auto simp: submit_folder_encrypt_def Let_def split: if_splits)
  have n: "normalise_passphrase u ?s = ?s" using assms(1) by (simp add: unicode_ok_def normalise_passphrase_def)
  have len: "12 \<le> length ?s" using accepted_long [OF acc] n by (simp add: MIN_PASSPHRASE_BYTES_def)
  then have "strip_text u typed \<noteq> []" using assms(1) by (auto simp: unicode_ok_def normalise_passphrase_def)
  with r acc len that show thesis by (simp add: read_passphrase_def secure_from_text_def)
qed

end
